(* ===== verification/Prelude.thy ===== *)
theory Prelude
  imports Main "HOL-Library.Word"
begin

text \<open>
  Shared vocabulary of the development: the machine integers of the Rust code as words of
  their width, byte sequences, the conversions between integers and their big-endian and
  little-endian bytes, and the collections of rewrite rules the component theories use.

  Conventions used in every theory:
  \<^item> \<open>u8\<close>, \<open>u16\<close>, \<open>u32\<close>, \<open>u64\<close> and \<open>i32\<close> are words; \<open>i32\<close> has the same carrier as \<open>u32\<close>, so an
    \<open>as u32\<close> or \<open>as i32\<close> cast is the identity, and \<open>as u8\<close> is \<open>ucast\<close>;
  \<^item> \<open>>>\<close> and \<open><<\<close> are \<open>drop_bit\<close> and \<open>push_bit\<close>, \<open>&\<close>, \<open>|\<close> and \<open>^\<close> are \<open>AND\<close>, \<open>OR\<close> and \<open>XOR\<close>;
  \<^item> a \<open>BytesMut\<close> or \<open>Vec<u8>\<close> is a list of bytes, a \<open>[u8; 4]\<close> a quadruple, and an encoder
    that appends to a buffer is a function giving the bytes it appends;
  \<^item> a \<open>Result<T, E>\<close> is a sum type with \<open>Inl\<close> for the error.
\<close>

unbundle bit_operations_syntax

type_synonym u8 = "8 word"
type_synonym u16 = "16 word"
type_synonym u32 = "32 word"
type_synonym i32 = "32 word"
type_synonym u64 = "64 word"
type_synonym u128 = "128 word"
type_synonym bytes = "u8 list"
type_synonym bytes4 = "u8 \<times> u8 \<times> u8 \<times> u8"

text \<open>
  \<open>wire_bits\<close> collects the unfolding rules of the byte and bit-field encodings,
  \<open>nat_bits\<close> case splits on a bit position.
\<close>

named_theorems wire_bits "unfolding rules of byte and bit-field encodings"

subsection \<open>Booleans as bits\<close>

text \<open>Rust's \<open>b as u8\<close> and \<open>b as u32\<close> are 0 or 1, which is \<open>of_bool b\<close>.\<close>

lemma bit_push_of_bool [simp]:
  "bit (push_bit k (of_bool b) :: 'a::len word) n \<longleftrightarrow> b \<and> n = k \<and> k < LENGTH('a)"
  by (auto simp: bit_simps)

lemma and_one_eq_one_iff: "(w AND 1 = 1) \<longleftrightarrow> bit (w :: 'a::len word) 0"
  by (simp add: and_one_eq odd_iff_mod_2_eq_one[symmetric] bit_0)

lemma drop_bit_and_one_iff: "(drop_bit k w AND 1 = 1) \<longleftrightarrow> bit (w :: 'a::len word) k"
  by (simp add: and_one_eq_one_iff bit_simps)

subsection \<open>Integers as bytes\<close>

definition u16_to_be :: "u16 \<Rightarrow> bytes" where
  "u16_to_be w = [ucast (drop_bit 8 w), ucast w]"

definition u16_from_be :: "u8 \<Rightarrow> u8 \<Rightarrow> u16" where
  "u16_from_be a b = push_bit 8 (ucast a) OR ucast b"

definition u32_to_be :: "u32 \<Rightarrow> bytes" where
  "u32_to_be w = [ucast (drop_bit 24 w), ucast (drop_bit 16 w), ucast (drop_bit 8 w), ucast w]"

definition u32_to_le :: "u32 \<Rightarrow> bytes" where
  "u32_to_le w = [ucast w, ucast (drop_bit 8 w), ucast (drop_bit 16 w), ucast (drop_bit 24 w)]"

fun u32_from_be :: "bytes4 \<Rightarrow> u32" where
  "u32_from_be (a, b, c, d) =
     push_bit 24 (ucast a) OR push_bit 16 (ucast b) OR push_bit 8 (ucast c) OR ucast d"

declare u32_from_be.simps [simp del]

definition u32_from_le :: "bytes4 \<Rightarrow> u32" where
  "u32_from_le bs = (case bs of (a, b, c, d) \<Rightarrow> u32_from_be (d, c, b, a))"

fun bytes4_list :: "bytes4 \<Rightarrow> bytes" where
  "bytes4_list (a, b, c, d) = [a, b, c, d]"

fun bytes4_of :: "bytes \<Rightarrow> bytes4 option" where
  "bytes4_of [a, b, c, d] = Some (a, b, c, d)"
| "bytes4_of _ = None"

lemma length_u32_to_be [simp]: "length (u32_to_be w) = 4"
  by (simp add: u32_to_be_def)

lemma length_u32_to_le [simp]: "length (u32_to_le w) = 4"
  by (simp add: u32_to_le_def)

lemma length_u16_to_be [simp]: "length (u16_to_be w) = 2"
  by (simp add: u16_to_be_def)

lemma length_bytes4_list [simp]: "length (bytes4_list bs) = 4"
  by (cases bs) simp

lemma bytes4_of_list [simp]: "bytes4_of (bytes4_list bs) = Some bs"
  by (cases bs) simp

lemma list_of_four: "length xs = 4 \<Longrightarrow> \<exists>a b c d. xs = [a, b, c, d]"
  by (simp add: numeral_eq_Suc length_Suc_conv) blast

lemma bytes4_list_inject [simp]: "bytes4_list bs = bytes4_list cs \<longleftrightarrow> bs = cs"
  by (cases bs; cases cs) auto

lemma bytes4_list_exists: "length xs = 4 \<Longrightarrow> \<exists>bs. xs = bytes4_list bs"
  using list_of_four [of xs] by (metis bytes4_list.simps)

lemma bytes4_of_Some_iff: "bytes4_of xs = Some bs \<longleftrightarrow> xs = bytes4_list bs"
  by (cases bs; cases xs rule: bytes4_of.cases) auto

text \<open>
  Two words of a fixed width are equal when they agree on every bit position. The rules
  below have one premise per position, so that the simplifier decides each of them by the
  library's \<open>bit_simps\<close>: this is how every identity between encodings is proved.
\<close>

lemma all_less_eight: "(\<forall>n<8. P n) \<longleftrightarrow> P 0 \<and> P 1 \<and> P 2 \<and> P 3 \<and> P 4 \<and> P 5 \<and> P 6 \<and> P (7::nat)"
  by (simp add: numeral_eq_Suc All_less_Suc conj_ac)

lemma all_less_sixteen: "(\<forall>n<16. P n) \<longleftrightarrow> (\<forall>n<8. P n) \<and> (\<forall>n<8. P (n + 8 :: nat))"
  by (simp add: numeral_eq_Suc All_less_Suc conj_ac)

lemma all_less_thirtytwo: "(\<forall>n<32. P n) \<longleftrightarrow> (\<forall>n<16. P n) \<and> (\<forall>n<16. P (n + 16 :: nat))"
  by (simp add: numeral_eq_Suc All_less_Suc conj_ac)

lemmas bit_positions = all_less_eight all_less_sixteen all_less_thirtytwo

lemma word8_eqI: "(\<forall>n<8. bit v n = bit w n) \<Longrightarrow> v = (w :: 8 word)"
  by (rule bit_word_eqI) simp

lemma word16_eqI: "(\<forall>n<16. bit v n = bit w n) \<Longrightarrow> v = (w :: 16 word)"
  by (rule bit_word_eqI) simp

lemma word32_eqI: "(\<forall>n<32. bit v n = bit w n) \<Longrightarrow> v = (w :: 32 word)"
  by (rule bit_word_eqI) simp

text \<open>The same rules with the positions written out, for use as introduction rules.\<close>

lemmas word8_bitsI = word8_eqI [unfolded bit_positions, simplified]
lemmas word16_bitsI = word16_eqI [unfolded bit_positions, simplified]
lemmas word32_bitsI = word32_eqI [unfolded bit_positions, simplified]

text \<open>Tests of one flag bit, as the code writes them.\<close>

lemma and_flag8:
  "(b :: 8 word) AND 0x80 = 0 \<longleftrightarrow> \<not> bit b 7" "b AND 0x40 = 0 \<longleftrightarrow> \<not> bit b 6"
  "b AND 0x20 = 0 \<longleftrightarrow> \<not> bit b 5" "b AND 0x10 = 0 \<longleftrightarrow> \<not> bit b 4"
  using and_exp_eq_0_iff_not_bit [of b 7] and_exp_eq_0_iff_not_bit [of b 6]
    and_exp_eq_0_iff_not_bit [of b 5] and_exp_eq_0_iff_not_bit [of b 4]
  by simp_all

text \<open>
  A field kept in place holds only the bits of its mask: \<open>x AND m = x\<close>, read bit by bit.
\<close>

lemma masked8_iff: "x AND m = x \<longleftrightarrow> (\<forall>n<8. bit x n \<longrightarrow> bit (m :: 8 word) n)"
  by (auto simp: bit_eq_iff bit_simps)

lemma masked32_iff: "x AND m = x \<longleftrightarrow> (\<forall>n<32. bit x n \<longrightarrow> bit (m :: 32 word) n)"
  by (auto simp: bit_eq_iff bit_simps)

lemma not_bit_beyond [simp]: "LENGTH('a) \<le> n \<Longrightarrow> \<not> bit (w :: 'a::len word) n"
  using bit_imp_le_length by fastforce

lemma xor_right_cancel [simp]: "a XOR c = b XOR c \<longleftrightarrow> a = (b :: 'a::len word)"
  by (metis xor.assoc xor.right_neutral xor_self_eq)

lemma xor_left_cancel [simp]: "c XOR a = c XOR b \<longleftrightarrow> a = (b :: 'a::len word)"
  by (metis xor.commute xor_right_cancel)

lemma ucast_low_byte [simp]: "ucast (w AND 0xFF :: 32 word) = (ucast w :: 8 word)"
  by (rule word8_eqI) (simp add: bit_positions bit_simps)

lemma bit_times_two: "bit (w * 2 :: 'a::len word) n \<longleftrightarrow> 0 < n \<and> n < LENGTH('a) \<and> bit w (n - 1)"
  using bit_double_iff [of w n] by (auto simp: mult.commute dest: bit_imp_le_length)

lemma u32_from_be_to_be:
  "u32_from_be (ucast (drop_bit 24 w), ucast (drop_bit 16 w), ucast (drop_bit 8 w), ucast w) = w"
  by (rule word32_eqI) (simp add: u32_from_be.simps bit_positions bit_simps)

lemma u32_to_be_from_be: "u32_to_be (u32_from_be (a, b, c, d)) = [a, b, c, d]"
  unfolding u32_to_be_def
  by (auto intro!: word8_eqI simp: u32_from_be.simps bit_positions bit_simps)

lemma u32_from_be_bytes4_of [simp]: "bytes4_of (u32_to_be w) = Some bs \<Longrightarrow> u32_from_be bs = w"
  using u32_from_be_to_be [of w] by (auto simp: u32_to_be_def)

lemma u32_to_be_eq_list_iff [simp]: "u32_to_be w = bytes4_list bs \<longleftrightarrow> u32_from_be bs = w"
  using u32_from_be_to_be [of w] u32_to_be_from_be
  by (cases bs) (auto simp: u32_to_be_def)

lemma u32_to_be_from_be_list [simp]: "u32_to_be (u32_from_be bs) = bytes4_list bs"
  by (cases bs) (simp add: u32_to_be_from_be)

lemma u32_to_le_rev: "u32_to_le w = rev (u32_to_be w)"
  by (simp add: u32_to_le_def u32_to_be_def)

lemma u32_to_be_inject: "u32_to_be v = u32_to_be w \<longleftrightarrow> v = w"
  by (metis bytes4_list_exists length_u32_to_be u32_to_be_eq_list_iff)

lemma u32_to_le_inject: "u32_to_le v = u32_to_le w \<longleftrightarrow> v = w"
  by (simp add: u32_to_le_rev u32_to_be_inject)

lemma u32_from_be_ucasts:
  "ucast (u32_from_be (a, b, c, d)) = d"
  "ucast (drop_bit 8 (u32_from_be (a, b, c, d))) = c"
  "ucast (drop_bit 16 (u32_from_be (a, b, c, d))) = b"
  "ucast (drop_bit 24 (u32_from_be (a, b, c, d))) = a"
  by (rule word8_eqI; simp add: u32_from_be.simps bit_positions bit_simps)+

lemma u16_from_be_to_be: "u16_from_be (ucast (drop_bit 8 w)) (ucast w) = w"
  unfolding u16_from_be_def by (rule word16_eqI) (simp add: bit_positions bit_simps)

lemma u16_to_be_from_be: "u16_to_be (u16_from_be a b) = [a, b]"
  unfolding u16_to_be_def u16_from_be_def
  by (auto intro!: word8_eqI simp: bit_positions bit_simps)

subsection \<open>The number of bits of a natural number\<close>

fun bit_length :: "nat \<Rightarrow> nat" where
  "bit_length n = (if n = 0 then 0 else Suc (bit_length (n div 2)))"

declare bit_length.simps [simp del]

lemma bit_length_bound: "n < 2 ^ bit_length n"
proof (induction n rule: bit_length.induct)
  case (1 n)
  show ?case
  proof (cases "n = 0")
    case False
    with 1 have "n div 2 < 2 ^ bit_length (n div 2)" by simp
    then have "n < 2 * 2 ^ bit_length (n div 2)" by linarith
    then show ?thesis using False by (subst bit_length.simps) simp
  qed simp
qed

lemma bit_length_le: "n \<noteq> 0 \<Longrightarrow> 2 ^ (bit_length n - 1) \<le> n"
proof (induction n rule: bit_length.induct)
  case (1 n)
  show ?case
  proof (cases "n div 2 = 0")
    case True
    then have "n = 1" using 1 by auto
    then show ?thesis by (simp add: bit_length.simps)
  next
    case False
    with 1 have IH: "2 ^ (bit_length (n div 2) - 1) \<le> n div 2" by auto
    have pos: "bit_length (n div 2) \<noteq> 0" using False by (subst bit_length.simps) simp
    have "bit_length n = Suc (bit_length (n div 2))" using 1(2) by (subst bit_length.simps) simp
    then have "(2::nat) ^ (bit_length n - 1) = 2 * 2 ^ (bit_length (n div 2) - 1)"
      using pos by (cases "bit_length (n div 2)") auto
    then show ?thesis using IH by linarith
  qed
qed

lemma bit_length_less_iff: "bit_length n \<le> k \<longleftrightarrow> n < 2 ^ k"
proof
  assume "bit_length n \<le> k"
  then have "(2::nat) ^ bit_length n \<le> 2 ^ k" by (rule power_increasing) simp
  then show "n < 2 ^ k" using bit_length_bound [of n] by linarith
next
  assume lt: "n < 2 ^ k"
  show "bit_length n \<le> k"
  proof (rule ccontr)
    assume no: "\<not> bit_length n \<le> k"
    then have n: "n \<noteq> 0" by (cases "n = 0") (simp_all add: bit_length.simps)
    have "(2::nat) ^ k \<le> 2 ^ (bit_length n - 1)" using no by (intro power_increasing) auto
    then show False using bit_length_le [OF n] lt by linarith
  qed
qed

subsection \<open>Digits\<close>

definition hex_digit :: "char \<Rightarrow> nat option" where
  "hex_digit c =
     (let n = of_char c :: nat
      in if 48 \<le> n \<and> n \<le> 57 then Some (n - 48)
         else if 97 \<le> n \<and> n \<le> 102 then Some (n - 87)
         else if 65 \<le> n \<and> n \<le> 70 then Some (n - 55)
         else None)"

definition hex_char :: "nat \<Rightarrow> char" where
  "hex_char d = char_of (if d < 10 then 48 + d else 87 + d)"

lemma hex_digit_char: "d < 16 \<Longrightarrow> hex_digit (hex_char d) = Some d"
  by (auto simp: hex_digit_def hex_char_def Let_def)

text \<open>Decimal and two-digit hexadecimal text of a number.\<close>

fun decimal :: "nat \<Rightarrow> string" where
  "decimal n = (if n < 10 then [hex_char n] else decimal (n div 10) @ [hex_char (n mod 10)])"

declare decimal.simps [simp del]

definition format_02x :: "u8 \<Rightarrow> string" where
  "format_02x b = [hex_char (unat b div 16), hex_char (unat b mod 16)]"

subsection \<open>Fallible steps\<close>

text \<open>The \<open>?\<close> operator: with a state that failing steps keep changed, and without one.\<close>

definition and_then :: "('s \<Rightarrow> ('x + 'a) \<times> 's) \<Rightarrow> ('a \<Rightarrow> 's \<Rightarrow> ('x + 'b) \<times> 's) \<Rightarrow> 's \<Rightarrow> ('x + 'b) \<times> 's" where
  "and_then f g s = (case f s of (Inl e, s') \<Rightarrow> (Inl e, s') | (Inr a, s') \<Rightarrow> g a s')"

lemma and_then_Inr_iff:
  "and_then f g s = (Inr b, t) \<longleftrightarrow> (\<exists>a u. f s = (Inr a, u) \<and> g a u = (Inr b, t))"
  by (auto simp: and_then_def split: prod.splits sum.splits)

definition try_res :: "'e + 'a \<Rightarrow> ('a \<Rightarrow> 'e + 'b) \<Rightarrow> 'e + 'b" where
  "try_res r f = (case r of Inl e \<Rightarrow> Inl e | Inr a \<Rightarrow> f a)"

definition ok_or :: "'e \<Rightarrow> 'a option \<Rightarrow> 'e + 'a" where
  "ok_or e a = (case a of None \<Rightarrow> Inl e | Some a \<Rightarrow> Inr a)"

lemma try_res_simps [simp]: "try_res (Inl e) f = Inl e" "try_res (Inr a) f = f a"
  by (simp_all add: try_res_def)

lemma ok_or_simps [simp]: "ok_or e None = Inl e" "ok_or e (Some a) = Inr a"
  by (simp_all add: ok_or_def)

lemma try_res_Inr_iff: "try_res r f = Inr b \<longleftrightarrow> (\<exists>a. r = Inr a \<and> f a = Inr b)"
  by (cases r) simp_all

lemma ok_or_Inr_iff [simp]: "ok_or e a = Inr b \<longleftrightarrow> a = Some b"
  by (cases a) simp_all

end
