(* ===== verification/Crc.thy ===== *)
theory Crc
  imports Prelude
begin

text \<open>
  The frame checksums of \<open>mujina-miner/src/asic/bm13xx/crc.rs\<close>: \<open>crc5\<close> (polynomial 0x05,
  initial value 0x1f) over command and response frames and \<open>crc16\<close> (polynomial 0x1021,
  initial value 0xffff) over job frames. Both loops are kept as the code has them, one bit
  step under a byte loop. The lemmas show the results stay in range, that one bit step is
  injective in the register and in the data bit, and with it that a single corrupted bit
  anywhere in a frame changes either checksum.
\<close>

subsection \<open>The routines\<close>

text \<open>One pass of the inner loop of \<open>crc5\<close>: bit \<open>i\<close> of the byte enters the register.\<close>

definition crc5_bit :: "u8 \<Rightarrow> nat \<Rightarrow> u8 \<Rightarrow> u8" where
  "crc5_bit byte i crc =
     (let b = drop_bit i byte AND 1;
          top = drop_bit 4 crc AND 1
      in (push_bit 1 crc AND 0x1f) XOR (if top XOR b \<noteq> 0 then 0x05 else 0))"

definition crc5_byte :: "u8 \<Rightarrow> u8 \<Rightarrow> u8" where
  "crc5_byte byte crc = fold (crc5_bit byte) [7, 6, 5, 4, 3, 2, 1, 0] crc"

definition crc5 :: "bytes \<Rightarrow> u8" where
  "crc5 data = fold crc5_byte data 0x1f"

definition crc5_is_valid :: "bytes \<Rightarrow> bool" where
  "crc5_is_valid data \<longleftrightarrow> crc5 data = 0"

text \<open>One pass of the inner loop of \<open>crc16\<close>.\<close>

definition crc16_shift :: "u16 \<Rightarrow> u16" where
  "crc16_shift crc =
     (if crc AND 0x8000 \<noteq> 0 then push_bit 1 crc XOR 0x1021 else push_bit 1 crc)"

definition crc16_byte :: "u8 \<Rightarrow> u16 \<Rightarrow> u16" where
  "crc16_byte byte crc =
     fold (\<lambda>_. crc16_shift) [0, 1, 2, 3, 4, 5, 6, 7 :: nat] (crc XOR push_bit 8 (ucast byte))"

definition crc16 :: "bytes \<Rightarrow> u16" where
  "crc16 data = fold crc16_byte data 0xffff"

lemma crc5_read_register_frame: "crc5 [0x52, 0x05, 0x00, 0x00] = 0x0a"
  by (simp add: crc5_def crc5_byte_def crc5_bit_def)

lemma crc5_valid_example:
  "crc5_is_valid [0x13, 0x70, 0x00, 0x00, 0x00, 0x00, 0x06]"
  by (simp add: crc5_is_valid_def crc5_def crc5_byte_def crc5_bit_def)

lemma crc16_example: "crc16 [0xde, 0xad, 0xbe, 0xef] = 0x4097"
  by (simp add: crc16_def crc16_byte_def crc16_shift_def)

subsection \<open>One bit step\<close>

text \<open>
  The register holds five bits: every step leaves bits 5 to 7 clear, so the result fits
  the low bits of the byte that carries it on the wire.
\<close>

definition five_bits :: "u8 \<Rightarrow> bool" where
  "five_bits c \<longleftrightarrow> \<not> bit c 5 \<and> \<not> bit c 6 \<and> \<not> bit c 7"

lemma crc5_bit_positions:
  "\<forall>n<8. bit (crc5_bit byte i crc) n =
     [bit crc 4 \<noteq> bit byte i, bit crc 0, bit crc 1 \<noteq> (bit crc 4 \<noteq> bit byte i),
      bit crc 2, bit crc 3, False, False, False] ! n"
proof -
  have top: "(drop_bit 4 crc AND 1) XOR (drop_bit i byte AND 1) \<noteq> 0 \<longleftrightarrow> bit crc 4 \<noteq> bit byte i"
    by (auto simp: and_one_eq mod_2_eq_odd simp flip: bit_iff_odd_drop_bit)
  show ?thesis
    unfolding crc5_bit_def Let_def top
    by (simp add: bit_positions bit_simps bit_times_two)
qed

text \<open>The positions one by one, as rewrite rules.\<close>

lemmas crc5_bit_bits [simp] = crc5_bit_positions [unfolded all_less_eight, simplified]

lemma five_bits_crc5_bit: "five_bits (crc5_bit byte i crc)"
  by (simp add: five_bits_def)

lemma five_bits_eqI:
  "five_bits c \<Longrightarrow> five_bits d \<Longrightarrow> bit c 0 = bit d 0 \<Longrightarrow> bit c 1 = bit d 1 \<Longrightarrow> bit c 2 = bit d 2 \<Longrightarrow>
   bit c 3 = bit d 3 \<Longrightarrow> bit c 4 = bit d 4 \<Longrightarrow> c = d"
  by (rule word8_eqI) (simp add: five_bits_def bit_positions)

text \<open>
  Equal results of one step come from equal registers when the data bits agree, and from
  different registers when they differ: the two halves of error detection.
\<close>

lemma crc5_bit_cancel:
  assumes "crc5_bit v i c = crc5_bit w i d" and "bit v i = bit w i"
    and "five_bits c" and "five_bits d"
  shows "c = d"
proof -
  have eq: "bit (crc5_bit v i c) n = bit (crc5_bit w i d) n" for n
    using assms(1) by simp
  show ?thesis
    using eq [of 0] eq [of 1] eq [of 2] eq [of 3] eq [of 4] assms(2-4)
    by (auto intro!: five_bits_eqI)
qed

lemma crc5_bit_differs:
  assumes "bit v i \<noteq> bit w i"
  shows "crc5_bit v i c \<noteq> crc5_bit w i c"
proof
  assume "crc5_bit v i c = crc5_bit w i c"
  then have "bit (crc5_bit v i c) 0 = bit (crc5_bit w i c) 0" by simp
  with assms show False by auto
qed

subsection \<open>Whole bytes and whole frames\<close>

lemma five_bits_crc5_byte: "five_bits (crc5_byte b c)"
  by (simp add: crc5_byte_def five_bits_crc5_bit)

lemma five_bits_crc5: "five_bits (crc5 data)"
proof (cases data rule: rev_cases)
  case Nil
  then show ?thesis by (simp add: crc5_def five_bits_def)
next
  case (snoc xs x)
  then show ?thesis by (simp add: crc5_def five_bits_crc5_byte)
qed

lemma five_bits_less: "five_bits c \<Longrightarrow> c < 32"
proof -
  assume "five_bits c"
  then have "c = c AND mask 5"
    by (intro word8_eqI) (simp add: five_bits_def bit_positions bit_simps)
  then show "c < 32"
    using and_mask_less' [of 5 c] by simp
qed

text \<open>The bit steps over any sequence of positions of one byte.\<close>

lemma crc5_bits_cancel:
  "fold (crc5_bit b) ps c = fold (crc5_bit b) ps d \<Longrightarrow> five_bits c \<Longrightarrow> five_bits d \<Longrightarrow> c = d"
proof (induction ps arbitrary: c d)
  case Nil
  then show ?case by simp
next
  case (Cons p ps)
  then have "crc5_bit b p c = crc5_bit b p d"
    by (simp add: five_bits_crc5_bit)
  with Cons.prems show ?case
    by (auto dest: crc5_bit_cancel)
qed

lemma crc5_bits_cong:
  "(\<And>p. p \<in> set ps \<Longrightarrow> bit v p = bit w p) \<Longrightarrow> fold (crc5_bit v) ps c = fold (crc5_bit w) ps c"
  by (induction ps arbitrary: c) (simp_all add: crc5_bit_def and_one_eq bit_iff_odd_drop_bit mod_2_eq_odd)

lemma crc5_bits_flip:
  "k \<in> set ps \<Longrightarrow> distinct ps \<Longrightarrow> set ps \<subseteq> {..<8} \<Longrightarrow>
   fold (crc5_bit (flip_bit k b)) ps c \<noteq> fold (crc5_bit b) ps c"
proof (induction ps arbitrary: c)
  case Nil
  then show ?case by simp
next
  case (Cons p ps)
  show ?case
  proof (cases "p = k")
    case True
    with Cons.prems have rest: "fold (crc5_bit (flip_bit k b)) ps d = fold (crc5_bit b) ps d" for d
      by (intro crc5_bits_cong) (auto simp: bit_flip_bit_iff)
    have "crc5_bit (flip_bit k b) k c \<noteq> crc5_bit b k c"
      using Cons.prems by (intro crc5_bit_differs) (auto simp: bit_flip_bit_iff)
    with True rest show ?thesis
      by (auto dest: crc5_bits_cancel simp: five_bits_crc5_bit)
  next
    case False
    then have "crc5_bit (flip_bit k b) p c = crc5_bit b p c"
      by (simp add: crc5_bit_def and_one_eq bit_flip_bit_iff mod_2_eq_odd flip: bit_iff_odd_drop_bit)
    with Cons False show ?thesis by auto
  qed
qed

lemma crc5_byte_cancel: "crc5_byte b c = crc5_byte b d \<Longrightarrow> five_bits c \<Longrightarrow> five_bits d \<Longrightarrow> c = d"
  unfolding crc5_byte_def by (rule crc5_bits_cancel)

lemma crc5_bytes_cancel:
  "fold crc5_byte xs c = fold crc5_byte xs d \<Longrightarrow> five_bits c \<Longrightarrow> five_bits d \<Longrightarrow> c = d"
proof (induction xs arbitrary: c d)
  case Nil
  then show ?case by simp
next
  case (Cons x xs)
  then have "crc5_byte x c = crc5_byte x d"
    by (simp add: five_bits_crc5_byte)
  with Cons.prems show ?case
    by (auto dest: crc5_byte_cancel)
qed

lemma crc5_flip_bit:
  assumes "k < 8"
  shows "crc5 (xs @ flip_bit k b # ys) \<noteq> crc5 (xs @ b # ys)"
proof -
  have "crc5_byte (flip_bit k b) (crc5 xs) \<noteq> crc5_byte b (crc5 xs)"
    unfolding crc5_byte_def using assms by (intro crc5_bits_flip) (auto simp: numeral_eq_Suc less_Suc_eq)
  then show ?thesis
    by (auto simp: crc5_def dest: crc5_bytes_cancel simp: five_bits_crc5_byte)
qed

text \<open>
  A response carries its type in the top three bits of the last byte and the checksum in
  the other five. Feeding the register its own five bits empties it, so for every payload
  and type there is a closing byte that makes the frame valid.
\<close>

definition crc5_close :: "bytes \<Rightarrow> u8 \<Rightarrow> u8" where
  "crc5_close data ty =
     push_bit 5 ty OR fold (crc5_bit (push_bit 5 ty)) [7, 6, 5] (crc5 data)"

lemma crc5_bits_self:
  "five_bits c \<Longrightarrow> (\<And>p. p < 5 \<Longrightarrow> bit b p = bit c p) \<Longrightarrow> fold (crc5_bit b) [4, 3, 2, 1, 0] c = 0"
  by (rule word8_eqI) (simp add: bit_positions)

lemma crc5_close_valid: "crc5_is_valid (data @ [crc5_close data ty])"
proof -
  let ?b = "crc5_close data ty"
  let ?c = "fold (crc5_bit (push_bit 5 ty)) [7, 6, 5] (crc5 data)"
  have c: "five_bits ?c" by (simp add: five_bits_crc5_bit)
  have low: "bit ?b p = bit ?c p" if "p < 5" for p
    using that by (simp add: crc5_close_def bit_simps)
  have high: "bit ?b p = bit (push_bit 5 ty) p" if "5 \<le> p" "p < 8" for p
    using that c by (auto simp: crc5_close_def bit_simps five_bits_def numeral_eq_Suc less_Suc_eq)
  have "crc5_byte ?b (crc5 data) = fold (crc5_bit ?b) [4, 3, 2, 1, 0] (fold (crc5_bit ?b) [7, 6, 5] (crc5 data))"
    by (simp add: crc5_byte_def)
  also have "fold (crc5_bit ?b) [7, 6, 5] (crc5 data) = ?c"
    using high by (intro crc5_bits_cong) auto
  also have "fold (crc5_bit ?b) [4, 3, 2, 1, 0] ?c = 0"
    using c low by (rule crc5_bits_self)
  finally show ?thesis by (simp add: crc5_is_valid_def crc5_def)
qed

lemma crc5_close_type: "drop_bit 5 (crc5_close data ty) = take_bit 3 ty"
proof -
  have "five_bits (fold (crc5_bit (push_bit 5 ty)) [7, 6, 5] (crc5 data))"
    by (simp add: five_bits_crc5_bit)
  then show ?thesis
    by (intro word8_eqI)
      (simp add: crc5_close_def five_bits_def bit_positions bit_simps del: fold.simps fold_Cons)
qed

subsection \<open>The sixteen-bit checksum\<close>

lemma crc16_shift_bits:
  "bit (crc16_shift c) 0 = bit c 15"
  "k \<in> {1..15} \<Longrightarrow> bit (crc16_shift c) k = (bit c (k - 1) \<noteq> (bit c 15 \<and> (k = 5 \<or> k = 12)))"
proof -
  have top: "c AND 0x8000 \<noteq> 0 \<longleftrightarrow> bit c 15"
    using and_exp_eq_0_iff_not_bit [of c 15] by simp
  have all: "\<forall>n<16. bit (crc16_shift c) n =
      (if n = 0 then bit c 15 else bit c (n - 1) \<noteq> (bit c 15 \<and> (n = 5 \<or> n = 12)))"
    unfolding crc16_shift_def top by (simp add: bit_positions bit_simps bit_times_two)
  show "bit (crc16_shift c) 0 = bit c 15" using all by simp
  show "k \<in> {1..15} \<Longrightarrow> bit (crc16_shift c) k = (bit c (k - 1) \<noteq> (bit c 15 \<and> (k = 5 \<or> k = 12)))"
    using all by auto
qed

lemma inj_crc16_shift: "inj crc16_shift"
proof (rule injI)
  fix c d
  assume "crc16_shift c = crc16_shift d"
  then have eq: "bit (crc16_shift c) n = bit (crc16_shift d) n" for n by simp
  have top: "bit c 15 = bit d 15" using eq [of 0] by (simp add: crc16_shift_bits)
  show "c = d"
  proof (rule bit_word_eqI)
    fix n assume n: "n < LENGTH(16)"
    show "bit c n = bit d n"
    proof (cases "n = 15")
      case False
      with n have "Suc n \<in> {1..15}" by auto
      then show ?thesis using eq [of "Suc n"] top by (auto simp: crc16_shift_bits)
    qed (use top in simp)
  qed
qed

lemma crc16_byte_cancel: "crc16_byte b c = crc16_byte b d \<Longrightarrow> c = d"
  by (auto simp: crc16_byte_def dest!: injD [OF inj_crc16_shift])

lemma crc16_byte_differs: "v \<noteq> w \<Longrightarrow> crc16_byte v c \<noteq> crc16_byte w c"
proof
  assume "v \<noteq> w" and "crc16_byte v c = crc16_byte w c"
  then have "push_bit 8 (ucast v) = (push_bit 8 (ucast w) :: u16)"
    by (auto simp: crc16_byte_def dest!: injD [OF inj_crc16_shift])
  then have "bit (push_bit 8 (ucast v) :: u16) (n + 8) = bit (push_bit 8 (ucast w) :: u16) (n + 8)" for n
    by simp
  then have "\<And>n. n < 8 \<Longrightarrow> bit v n = bit w n"
    by (simp add: bit_simps) fastforce
  with \<open>v \<noteq> w\<close> show False
    by (auto intro: word8_eqI)
qed

lemma crc16_bytes_cancel: "fold crc16_byte xs c = fold crc16_byte xs d \<Longrightarrow> c = d"
  by (induction xs arbitrary: c d) (auto dest: crc16_byte_cancel)

lemma crc16_byte_error: "v \<noteq> w \<Longrightarrow> crc16 (xs @ v # ys) \<noteq> crc16 (xs @ w # ys)"
  by (auto simp: crc16_def dest: crc16_bytes_cancel crc16_byte_differs)

end
