(* ===== verification/Register_Fields.thy ===== *)
theory Register_Fields
  imports Prelude
begin

text \<open>
  The typed registers of \<open>mujina-miner/src/asic/bm13xx/register.rs\<close>, one record per register
  struct with its constructors, \<open>encode\<close> and \<open>decode\<close>. Fields carry a prefix naming their
  register; a payload's \<open>encode\<close> gives the four bytes it appends, and \<open>decode\<close> reads a
  \<open>[u8; 4]\<close>. \<open>wf\<close> predicates describe the values \<open>decode\<close> can produce (every undecoded field
  held inside its mask). The enum that dispatches over the registers is in \<open>Registers\<close>.
\<close>

subsection \<open>Protocol errors\<close>

datatype RegisterAddress =
  ChipId | PllDivider | HashCountingNumber | TicketMask | MiscControl | UartBaud | UartRelay
| CoreMailbox | AnalogMux | IoDriverStrength | RingOscPadDisable | MidstateConfig
| SoftResetControl | AdcCtrl1

text \<open>The errors of \<open>error.rs\<close> that the protocol code constructs.\<close>

datatype ProtocolError =
  InvalidRegisterAddress u8
| InvalidResponseType u8
| ReadOnlyRegister RegisterAddress
| InvalidFrame
| UnknownChipId u8 u8
| BufferTooSmall nat nat

subsection \<open>Chip identification\<close>

datatype ChipModel = BM1362 | BM1366 | BM1370

fun id_bytes :: "ChipModel \<Rightarrow> u8 \<times> u8" where
  "id_bytes BM1362 = (0x13, 0x62)"
| "id_bytes BM1366 = (0x13, 0x66)"
| "id_bytes BM1370 = (0x13, 0x70)"

definition ChipModel_try_from :: "u8 \<times> u8 \<Rightarrow> ProtocolError + ChipModel" where
  "ChipModel_try_from bs =
     (if bs = (0x13, 0x62) then Inr BM1362
      else if bs = (0x13, 0x66) then Inr BM1366
      else if bs = (0x13, 0x70) then Inr BM1370
      else Inl (UnknownChipId (fst bs) (snd bs)))"

lemma ChipModel_try_from_id_bytes [simp]: "ChipModel_try_from (id_bytes m) = Inr m"
  by (cases m) (simp_all add: ChipModel_try_from_def)

lemma ChipModel_try_from_Inr_iff: "ChipModel_try_from bs = Inr m \<longleftrightarrow> bs = id_bytes m"
  by (cases m) (auto simp: ChipModel_try_from_def split: if_splits)

record ChipIdReg =
  ci_model :: ChipModel
  ci_unknown :: u8
  ci_address :: u8

definition ChipId_encode :: "ChipIdReg \<Rightarrow> bytes" where
  [wire_bits]: "ChipId_encode r =
     [fst (id_bytes (ci_model r)), snd (id_bytes (ci_model r))] @ [ci_unknown r] @ [ci_address r]"

fun ChipId_decode :: "bytes4 \<Rightarrow> ProtocolError + ChipIdReg" where
  "ChipId_decode (b0, b1, b2, b3) =
     (case ChipModel_try_from (b0, b1) of
        Inl e \<Rightarrow> Inl e
      | Inr m \<Rightarrow> Inr \<lparr>ci_model = m, ci_unknown = b2, ci_address = b3\<rparr>)"

subsection \<open>The frequency PLL\<close>

datatype VcoSel = Low | High

record PllReg =
  pll_locked :: bool
  pll_en :: bool
  pll_bypass :: bool
  pll_vco_sel :: VcoSel
  pll_fb_div :: u8
  pll_ref_div :: u8
  pll_post_div :: u8

text \<open>
  \<open>PllDivider::new\<close> compares \<open>fb_div * 25 / ref_div\<close> with 2400 in \<open>f32\<close>. Numerator and
  threshold are exact and the quotient of bytes stays at least 1/255 away from 2400 unless it
  reaches it, far more than the spacing of \<open>f32\<close> there, so the comparison is the one on
  integers; a zero \<open>ref_div\<close> divides to infinity (or to NaN for \<open>0 / 0\<close>, which compares false).
\<close>

definition PllDivider_new :: "u8 \<Rightarrow> u8 \<Rightarrow> u8 \<Rightarrow> PllReg" where
  "PllDivider_new fb_div ref_div post_div =
     (let at_threshold =
        (if ref_div = 0 then fb_div \<noteq> 0 else 2400 * unat ref_div \<le> 25 * unat fb_div)
      in \<lparr>pll_locked = False, pll_en = True, pll_bypass = False,
          pll_vco_sel = (if at_threshold then High else Low),
          pll_fb_div = fb_div, pll_ref_div = ref_div, pll_post_div = post_div\<rparr>)"

definition PllDivider_encode :: "PllReg \<Rightarrow> bytes" where
  [wire_bits]: "PllDivider_encode r =
     (let flags = push_bit 7 (of_bool (pll_locked r)) OR push_bit 6 (of_bool (pll_en r))
        OR push_bit 5 (of_bool (pll_bypass r)) OR push_bit 4 (of_bool (pll_vco_sel r = High))
      in [flags, pll_fb_div r, pll_ref_div r, pll_post_div r])"

fun PllDivider_decode :: "bytes4 \<Rightarrow> PllReg" where
  "PllDivider_decode (b0, b1, b2, b3) =
     \<lparr>pll_locked = (b0 AND 0x80 \<noteq> 0), pll_en = (b0 AND 0x40 \<noteq> 0),
      pll_bypass = (b0 AND 0x20 \<noteq> 0),
      pll_vco_sel = (if b0 AND 0x10 \<noteq> 0 then High else Low),
      pll_fb_div = b1, pll_ref_div = b2, pll_post_div = b3\<rparr>"

subsection \<open>Hash counting number\<close>

record HashCountingReg =
  hcn_ticks :: u32

definition HashCountingNumber_encode :: "HashCountingReg \<Rightarrow> bytes" where
  [wire_bits]: "HashCountingNumber_encode r = u32_to_be (hcn_ticks r)"

definition HashCountingNumber_decode :: "bytes4 \<Rightarrow> HashCountingReg" where
  [wire_bits]: "HashCountingNumber_decode bs = \<lparr>hcn_ticks = u32_from_be bs\<rparr>"

subsection \<open>Ticket mask\<close>

text \<open>\<open>reverse_bits\<close>: eight turns of a shift register, as in the source.\<close>

definition reverse_bits :: "u8 \<Rightarrow> u8" where
  "reverse_bits byte =
     fst (fold (\<lambda>_ (result, b). (push_bit 1 result OR (b AND 1), drop_bit 1 b))
       [0, 1, 2, 3, 4, 5, 6, 7 :: nat] (0, byte))"

record TicketMaskReg =
  tm_mask :: u32

text \<open>\<open>TicketMask::new\<close>, from the exponent of a \<open>Log2Difficulty\<close>.\<close>

definition TicketMask_new :: "u8 \<Rightarrow> TicketMaskReg" where
  "TicketMask_new exponent =
     (let zero_bits = exponent
      in \<lparr>tm_mask = (if zero_bits \<ge> 32 then 0xffffffff else push_bit (unat zero_bits) 1 - 1)\<rparr>)"

text \<open>
  \<open>to_wire_bytes\<close> fills byte \<open>3 - i\<close> with the reversed byte \<open>i\<close> of the mask, and
  \<open>decode_ticket_mask_bytes\<close> undoes it.
\<close>

definition to_wire_bytes :: "TicketMaskReg \<Rightarrow> bytes" where
  "to_wire_bytes r =
     fold (\<lambda>i bytes. bytes[3 - i := reverse_bits (ucast (drop_bit (8 * i) (tm_mask r) AND 0xFF))])
       [0, 1, 2, 3] [0, 0, 0, 0]"

definition TicketMask_encode :: "TicketMaskReg \<Rightarrow> bytes" where
  [wire_bits]: "TicketMask_encode r = to_wire_bytes r"

definition decode_ticket_mask_bytes :: "bytes4 \<Rightarrow> u32" where
  "decode_ticket_mask_bytes bs =
     fold (\<lambda>i mask_value. mask_value OR
        push_bit (8 * i) (ucast (reverse_bits (bytes4_list bs ! (3 - i)))))
       [0, 1, 2, 3] 0"

definition TicketMask_decode :: "bytes4 \<Rightarrow> TicketMaskReg" where
  [wire_bits]: "TicketMask_decode bs = \<lparr>tm_mask = decode_ticket_mask_bytes bs\<rparr>"

lemma bit_reverse_bits: "\<forall>n<8. bit (reverse_bits b) n = bit b (7 - n)"
  by (simp add: reverse_bits_def bit_positions bit_simps bit_times_two) (simp add: numeral_eq_Suc)

lemmas bit_reverse_bits_at [simp] = bit_reverse_bits [unfolded all_less_eight, simplified]

lemma reverse_bits_involution [simp]: "reverse_bits (reverse_bits b) = b"
  by (rule word8_eqI) (simp add: bit_positions)

lemma to_wire_bytes_list:
  "to_wire_bytes r = [reverse_bits (ucast (drop_bit 24 (tm_mask r))),
     reverse_bits (ucast (drop_bit 16 (tm_mask r))),
     reverse_bits (ucast (drop_bit 8 (tm_mask r))), reverse_bits (ucast (tm_mask r))]"
  by (simp add: to_wire_bytes_def numeral_2_eq_2 numeral_3_eq_3)

lemma decode_ticket_mask_bytes_word:
  "decode_ticket_mask_bytes (a, b, c, d) =
     u32_from_be (reverse_bits a, reverse_bits b, reverse_bits c, reverse_bits d)"
  by (rule word32_eqI) (simp add: decode_ticket_mask_bytes_def u32_from_be.simps bit_positions bit_simps)

subsection \<open>Miscellaneous control\<close>

record MiscControlReg =
  mc_report_enables :: "bool list"
  mc_unexplained :: u32
  mc_power_on :: u16

definition MiscControl_reporting_enabled :: "ChipModel \<Rightarrow> MiscControlReg" where
  "MiscControl_reporting_enabled model =
     \<lparr>mc_report_enables =
        (case model of BM1362 \<Rightarrow> [True, True, False, True] | _ \<Rightarrow> [True, True, True, True]),
      mc_unexplained = 0, mc_power_on = 0xC100\<rparr>"

definition MiscControl_encode :: "MiscControlReg \<Rightarrow> bytes" where
  [wire_bits]: "MiscControl_encode r =
     (let value = mc_unexplained r OR ucast (mc_power_on r);
          value = fold (\<lambda>(i, enabled) v. v OR push_bit (28 + i) (of_bool enabled))
            (enumerate 0 (mc_report_enables r)) value
      in u32_to_be value)"

definition MiscControl_decode :: "bytes4 \<Rightarrow> MiscControlReg" where
  [wire_bits]: "MiscControl_decode bs =
     (let value = u32_from_be bs
      in \<lparr>mc_report_enables = map (\<lambda>i. drop_bit (28 + i) value AND 1 = 1) [0, 1, 2, 3],
          mc_unexplained = value AND 0x0fff0000,
          mc_power_on = ucast (value AND 0xffff)\<rparr>)"

subsection \<open>UART baud rate\<close>

record UartBaudReg =
  ub_divider :: u8
  ub_bit28 :: bool
  ub_unexplained :: u32

text \<open>
  \<open>baud\<close> divides 25 MHz by \<open>8 * (divider + 1)\<close> in \<open>f32\<close> and truncates. Divisor and dividend
  are exact, and the spacing of \<open>f32\<close> at the quotient is below \<open>1 / (divider + 1)\<close>, the least
  distance of an inexact quotient from the next integer, so the truncation is the integer
  division.
\<close>

definition UartBaud_baud :: "UartBaudReg \<Rightarrow> nat" where
  "UartBaud_baud r = 25000000 div (8 * (unat (ub_divider r) + 1))"

definition UartBaud_encode :: "UartBaudReg \<Rightarrow> bytes" where
  [wire_bits]: "UartBaud_encode r =
     u32_to_be (push_bit 28 (of_bool (ub_bit28 r)) OR ub_unexplained r OR
       push_bit 8 (ucast (ub_divider r)))"

definition UartBaud_decode :: "bytes4 \<Rightarrow> UartBaudReg" where
  [wire_bits]: "UartBaud_decode bs =
     (let value = u32_from_be bs
      in \<lparr>ub_divider = ucast (drop_bit 8 value),
          ub_bit28 = (drop_bit 28 value AND 1 = 1),
          ub_unexplained = value AND 0xefff00ff\<rparr>)"

subsection \<open>UART relay\<close>

record UartRelayReg =
  ur_gap_count :: u16
  ur_unexplained :: u32
  ur_response_relay :: bool
  ur_command_relay :: bool

definition UartRelay_domain_boundary :: "u16 \<Rightarrow> UartRelayReg" where
  "UartRelay_domain_boundary gap_count =
     \<lparr>ur_gap_count = gap_count, ur_unexplained = 0,
      ur_response_relay = True, ur_command_relay = True\<rparr>"

definition UartRelay_encode :: "UartRelayReg \<Rightarrow> bytes" where
  [wire_bits]: "UartRelay_encode r =
     u32_to_be (push_bit 16 (ucast (ur_gap_count r)) OR ur_unexplained r OR
       push_bit 1 (of_bool (ur_response_relay r)) OR of_bool (ur_command_relay r))"

definition UartRelay_decode :: "bytes4 \<Rightarrow> UartRelayReg" where
  [wire_bits]: "UartRelay_decode bs =
     (let word = u32_from_be bs
      in \<lparr>ur_gap_count = ucast (drop_bit 16 word),
          ur_unexplained = word AND 0xfffc,
          ur_response_relay = (drop_bit 1 word AND 1 = 1),
          ur_command_relay = (word AND 1 = 1)\<rparr>)"

subsection \<open>Core mailbox\<close>

datatype CoreRegister =
  ClockDelay | CoreEnable | ClockSelectBM1362 | ClockSelectBM1368 | NonceBinOverflow | Unknown u8

text \<open>The derived conversions: named ids, and \<open>Unknown\<close> as the catch-all.\<close>

fun CoreRegister_to_u8 :: "CoreRegister \<Rightarrow> u8" where
  "CoreRegister_to_u8 ClockDelay = 0x00"
| "CoreRegister_to_u8 CoreEnable = 0x02"
| "CoreRegister_to_u8 ClockSelectBM1362 = 0x05"
| "CoreRegister_to_u8 ClockSelectBM1368 = 0x0B"
| "CoreRegister_to_u8 NonceBinOverflow = 0x0D"
| "CoreRegister_to_u8 (Unknown b) = b"

definition CoreRegister_from :: "u8 \<Rightarrow> CoreRegister" where
  "CoreRegister_from b =
     (if b = 0x00 then ClockDelay else if b = 0x02 then CoreEnable
      else if b = 0x05 then ClockSelectBM1362 else if b = 0x0B then ClockSelectBM1368
      else if b = 0x0D then NonceBinOverflow else Unknown b)"

lemma CoreRegister_to_from [simp]: "CoreRegister_to_u8 (CoreRegister_from b) = b"
  by (simp add: CoreRegister_from_def)

record CoreCommandReg =
  cc_all :: bool
  cc_num :: u8
  cc_core_id :: u8
  cc_write :: bool
  cc_rd_done :: bool
  cc_unexplained :: u32
  cc_reg :: CoreRegister
  cc_value :: u8

definition CoreCommand_write_all :: "CoreRegister \<Rightarrow> u8 \<Rightarrow> CoreCommandReg" where
  "CoreCommand_write_all reg val =
     \<lparr>cc_all = True, cc_num = 0, cc_core_id = 0, cc_write = True, cc_rd_done = False,
      cc_unexplained = 0, cc_reg = reg, cc_value = val\<rparr>"

definition CoreCommand_nonce_bin_overflow :: "bool \<Rightarrow> CoreCommandReg" where
  "CoreCommand_nonce_bin_overflow enable =
     CoreCommand_write_all NonceBinOverflow (if enable then 0xEE else 0xEF)"

definition CoreCommand_encode :: "CoreCommandReg \<Rightarrow> bytes" where
  [wire_bits]: "CoreCommand_encode r =
     u32_to_be (push_bit 31 (of_bool (cc_all r)) OR push_bit 24 (ucast (cc_num r) AND 0x7f) OR
       push_bit 16 (ucast (cc_core_id r)) OR push_bit 15 (of_bool (cc_write r)) OR
       push_bit 14 (of_bool (cc_rd_done r)) OR cc_unexplained r OR
       push_bit 8 (ucast (CoreRegister_to_u8 (cc_reg r)) AND 0x1f) OR ucast (cc_value r))"

definition CoreCommand_decode :: "bytes4 \<Rightarrow> CoreCommandReg" where
  [wire_bits]: "CoreCommand_decode bs =
     (let word = u32_from_be bs
      in \<lparr>cc_all = (drop_bit 31 word AND 1 = 1),
          cc_num = ucast (drop_bit 24 word AND 0x7f),
          cc_core_id = ucast (drop_bit 16 word AND 0xff),
          cc_write = (drop_bit 15 word AND 1 = 1),
          cc_rd_done = (drop_bit 14 word AND 1 = 1),
          cc_unexplained = word AND 0x2000,
          cc_reg = CoreRegister_from (ucast (drop_bit 8 word AND 0x1f)),
          cc_value = ucast (word AND 0xff)\<rparr>)"

subsection \<open>Analog mux\<close>

record AnalogMuxReg =
  am_diode_select :: u8
  am_unexplained :: u32

definition AnalogMux_bring_up :: "ChipModel \<Rightarrow> AnalogMuxReg" where
  "AnalogMux_bring_up model =
     (case model of
        BM1362 \<Rightarrow> \<lparr>am_diode_select = 0x3, am_unexplained = 0\<rparr>
      | _ \<Rightarrow> \<lparr>am_diode_select = 0x2, am_unexplained = 0\<rparr>)"

definition AnalogMux_encode :: "AnalogMuxReg \<Rightarrow> bytes" where
  [wire_bits]: "AnalogMux_encode r =
     u32_to_be (am_unexplained r OR (ucast (am_diode_select r) AND 0xf))"

definition AnalogMux_decode :: "bytes4 \<Rightarrow> AnalogMuxReg" where
  [wire_bits]: "AnalogMux_decode bs =
     (let value = u32_from_be bs
      in \<lparr>am_diode_select = ucast (value AND 0xf), am_unexplained = value AND NOT 0xf\<rparr>)"

subsection \<open>Driver strength\<close>

record IoDriverReg =
  io_command_out :: u8
  io_busy_out :: u8
  io_reset_out :: u8
  io_clock_out :: u8
  io_response_out :: u8
  io_unexplained :: u32

definition IoDriverStrength_normal :: IoDriverReg where
  "IoDriverStrength_normal =
     \<lparr>io_command_out = 1, io_busy_out = 1, io_reset_out = 1, io_clock_out = 1,
      io_response_out = 1, io_unexplained = 0\<rparr>"

definition IoDriverStrength_domain_boundary :: IoDriverReg where
  "IoDriverStrength_domain_boundary = IoDriverStrength_normal\<lparr>io_clock_out := 0xf\<rparr>"

definition IoDriverStrength_encode :: "IoDriverReg \<Rightarrow> bytes" where
  [wire_bits]: "IoDriverStrength_encode r =
     u32_to_be (io_unexplained r OR push_bit 16 (ucast (io_response_out r)) OR
       push_bit 12 (ucast (io_clock_out r)) OR push_bit 8 (ucast (io_reset_out r)) OR
       push_bit 4 (ucast (io_busy_out r)) OR ucast (io_command_out r))"

definition IoDriverStrength_decode :: "bytes4 \<Rightarrow> IoDriverReg" where
  [wire_bits]: "IoDriverStrength_decode bs =
     (let value = u32_from_be bs
      in \<lparr>io_command_out = ucast (value AND 0xf),
          io_busy_out = ucast (drop_bit 4 value AND 0xf),
          io_reset_out = ucast (drop_bit 8 value AND 0xf),
          io_clock_out = ucast (drop_bit 12 value AND 0xf),
          io_response_out = ucast (drop_bit 16 value AND 0xf),
          io_unexplained = value AND 0xfff00000\<rparr>)"

subsection \<open>Midstate configuration\<close>

record MidstateReg =
  ms_version_mask :: u16
  ms_midstate_gen :: u8
  ms_unexplained :: u32
  ms_version_fix :: bool
  ms_auto_gen :: bool

definition MidstateConfig_full_rolling :: MidstateReg where
  "MidstateConfig_full_rolling =
     \<lparr>ms_version_mask = 0xffff, ms_midstate_gen = 1, ms_unexplained = 0,
      ms_version_fix = False, ms_auto_gen = True\<rparr>"

definition MidstateConfig_encode :: "MidstateReg \<Rightarrow> bytes" where
  [wire_bits]: "MidstateConfig_encode r =
     u32_to_be (push_bit 31 (of_bool (ms_auto_gen r)) OR push_bit 30 (of_bool (ms_version_fix r)) OR
       push_bit 28 (ucast (ms_midstate_gen r) AND 0x3) OR ms_unexplained r OR
       ucast (ms_version_mask r))"

definition MidstateConfig_decode :: "bytes4 \<Rightarrow> MidstateReg" where
  [wire_bits]: "MidstateConfig_decode bs =
     (let value = u32_from_be bs
      in \<lparr>ms_version_mask = ucast (value AND 0xffff),
          ms_midstate_gen = ucast (drop_bit 28 value AND 0x3),
          ms_unexplained = value AND 0x0fff0000,
          ms_version_fix = (drop_bit 30 value AND 1 = 1),
          ms_auto_gen = (drop_bit 31 value AND 1 = 1)\<rparr>)"

subsection \<open>Soft reset\<close>

record SoftResetReg =
  sr_value :: u32

definition SoftResetControl_defaults :: "ChipModel \<Rightarrow> SoftResetReg" where
  "SoftResetControl_defaults model =
     (case model of BM1362 \<Rightarrow> \<lparr>sr_value = 0x00000000\<rparr> | _ \<Rightarrow> \<lparr>sr_value = 0x00070000\<rparr>)"

definition SoftResetControl_core_reset :: "ChipModel \<Rightarrow> SoftResetReg" where
  "SoftResetControl_core_reset model =
     (case model of BM1362 \<Rightarrow> \<lparr>sr_value = 0x00000002\<rparr> | _ \<Rightarrow> \<lparr>sr_value = 0x000701F0\<rparr>)"

definition SoftResetControl_encode :: "SoftResetReg \<Rightarrow> bytes" where
  [wire_bits]: "SoftResetControl_encode r = u32_to_be (sr_value r)"

definition SoftResetControl_decode :: "bytes4 \<Rightarrow> SoftResetReg" where
  [wire_bits]: "SoftResetControl_decode bs = \<lparr>sr_value = u32_from_be bs\<rparr>"

subsection \<open>Opaque registers\<close>

text \<open>The \<open>opaque_register!\<close> newtypes hold their four wire bytes.\<close>

record OpaqueReg =
  opaque_bytes :: bytes4

definition opaque_encode :: "OpaqueReg \<Rightarrow> bytes" where
  [wire_bits]: "opaque_encode r = bytes4_list (opaque_bytes r)"

definition opaque_decode :: "bytes4 \<Rightarrow> OpaqueReg" where
  [wire_bits]: "opaque_decode bs = \<lparr>opaque_bytes = bs\<rparr>"

definition RingOscPadDisable_guard_pattern :: OpaqueReg where
  "RingOscPadDisable_guard_pattern = \<lparr>opaque_bytes = (0x5A, 0xA5, 0x5A, 0xA5)\<rparr>"

definition AdcCtrl1_bring_up :: OpaqueReg where
  "AdcCtrl1_bring_up = \<lparr>opaque_bytes = (0x00, 0x00, 0x44, 0x80)\<rparr>"

end
