(* ===== verification/Registers.thy ===== *)
theory Registers
  imports Register_Fields
begin

text \<open>
  The register enum of \<open>mujina-miner/src/asic/bm13xx/register.rs\<close>: the wire addresses, the
  dispatch of \<open>Register::decode\<close>, \<open>Register::address\<close> and \<open>Register::encode\<close> over the
  payloads of \<open>Register_Fields\<close>, and the round trips between the two. The interface of a
  payload is the locale \<open>register_codec\<close> (what is encoded decodes to itself), extended to
  \<open>lossless_codec\<close> where every word of the wire survives a read and a write; each payload is
  an interpretation of one of them, and so is the enum.
\<close>

subsection \<open>The codec interface\<close>

locale register_codec =
  fixes enc :: "'r \<Rightarrow> bytes"
    and dec :: "bytes4 \<Rightarrow> ProtocolError + 'r"
    and wf :: "'r \<Rightarrow> bool"
  assumes length_enc: "length (enc r) = 4"
    and dec_enc: "wf r \<Longrightarrow> enc r = bytes4_list bs \<Longrightarrow> dec bs = Inr r"
    and dec_wf: "dec bs = Inr r \<Longrightarrow> wf r"
begin

lemma enc_bytes4: "\<exists>bs. enc r = bytes4_list bs"
  using length_enc [of r] bytes4_list_exists by blast

lemma enc_inj: "wf r \<Longrightarrow> wf s \<Longrightarrow> enc r = enc s \<Longrightarrow> r = s"
  using enc_bytes4 [of r] by (metis dec_enc sum.inject(2))

lemma dec_stable:
  assumes "dec bs = Inr r"
  shows "\<exists>cs. enc r = bytes4_list cs \<and> dec cs = Inr r"
  using enc_bytes4 [of r] dec_enc dec_wf [OF assms] by blast

end

locale lossless_codec = register_codec +
  assumes enc_dec: "dec bs = Inr r \<Longrightarrow> enc r = bytes4_list bs"
begin

lemma dec_inj: "dec bs = Inr r \<Longrightarrow> dec cs = Inr r \<Longrightarrow> bs = cs"
  by (metis enc_dec bytes4_list_inject)

lemma dec_iff: "dec bs = Inr r \<longleftrightarrow> wf r \<and> enc r = bytes4_list bs"
  using dec_enc dec_wf enc_dec by blast

end

subsection \<open>Well-formed payloads\<close>

text \<open>Each predicate says that the undecoded fields are held inside their masks.\<close>

definition wf_MiscControl :: "MiscControlReg \<Rightarrow> bool" where
  "wf_MiscControl r \<longleftrightarrow>
     length (mc_report_enables r) = 4 \<and> mc_unexplained r AND 0x0fff0000 = mc_unexplained r"

definition wf_UartBaud :: "UartBaudReg \<Rightarrow> bool" where
  "wf_UartBaud r \<longleftrightarrow> ub_unexplained r AND 0xefff00ff = ub_unexplained r"

definition wf_UartRelay :: "UartRelayReg \<Rightarrow> bool" where
  "wf_UartRelay r \<longleftrightarrow> ur_unexplained r AND 0xfffc = ur_unexplained r"

definition wf_CoreRegister :: "CoreRegister \<Rightarrow> bool" where
  "wf_CoreRegister c \<longleftrightarrow>
     CoreRegister_from (CoreRegister_to_u8 c) = c \<and> CoreRegister_to_u8 c AND 0x1f = CoreRegister_to_u8 c"

definition wf_CoreCommand :: "CoreCommandReg \<Rightarrow> bool" where
  "wf_CoreCommand r \<longleftrightarrow>
     cc_num r AND 0x7f = cc_num r \<and> cc_unexplained r AND 0x2000 = cc_unexplained r \<and>
     wf_CoreRegister (cc_reg r)"

definition wf_AnalogMux :: "AnalogMuxReg \<Rightarrow> bool" where
  "wf_AnalogMux r \<longleftrightarrow>
     am_diode_select r AND 0xf = am_diode_select r \<and>
     am_unexplained r AND 0xfffffff0 = am_unexplained r"

definition wf_IoDriver :: "IoDriverReg \<Rightarrow> bool" where
  "wf_IoDriver r \<longleftrightarrow>
     io_command_out r AND 0xf = io_command_out r \<and> io_busy_out r AND 0xf = io_busy_out r \<and>
     io_reset_out r AND 0xf = io_reset_out r \<and> io_clock_out r AND 0xf = io_clock_out r \<and>
     io_response_out r AND 0xf = io_response_out r \<and>
     io_unexplained r AND 0xfff00000 = io_unexplained r"

definition wf_Midstate :: "MidstateReg \<Rightarrow> bool" where
  "wf_Midstate r \<longleftrightarrow>
     ms_midstate_gen r AND 0x3 = ms_midstate_gen r \<and>
     ms_unexplained r AND 0x0fff0000 = ms_unexplained r"

lemmas wf_payload_defs =
  wf_MiscControl_def wf_UartBaud_def wf_UartRelay_def wf_CoreCommand_def wf_AnalogMux_def
  wf_IoDriver_def wf_Midstate_def

subsection \<open>The payloads are codecs\<close>

lemmas field_bits = drop_bit_and_one_iff and_one_eq_one_iff bit_times_two bit_simps

declare split_of_bool [split del] split_of_bool_asm [split del]

text \<open>
  Every proof below has the same shape: unfold the encoding, read the four bytes as one word
  and compare it bit by bit.
\<close>

interpretation chip_id: lossless_codec ChipId_encode ChipId_decode "\<lambda>_. True"
proof
  fix r bs
  show "length (ChipId_encode r) = 4" by (simp add: wire_bits)
  show "ChipId_decode bs = Inr r" if "ChipId_encode r = bytes4_list bs"
    using that by (cases bs; cases r) (auto simp: wire_bits)
  show "ChipId_encode r = bytes4_list bs" if "ChipId_decode bs = Inr r"
    using that
    by (cases bs) (auto simp: wire_bits ChipModel_try_from_Inr_iff split: sum.splits dest: sym)
qed simp

interpretation pll: register_codec PllDivider_encode "Inr \<circ> PllDivider_decode" "\<lambda>_. True"
proof
  fix r bs
  show "length (PllDivider_encode r) = 4" by (simp add: wire_bits)
  show "(Inr \<circ> PllDivider_decode) bs = Inr r" if "PllDivider_encode r = bytes4_list bs"
    using that
    by (cases bs; cases r; cases "pll_vco_sel r")
      (auto simp: wire_bits and_flag8 bit_simps)
qed simp

interpretation hcn: lossless_codec HashCountingNumber_encode "Inr \<circ> HashCountingNumber_decode" "\<lambda>_. True"
  by unfold_locales (auto simp: wire_bits)

interpretation ticket_mask: lossless_codec TicketMask_encode "Inr \<circ> TicketMask_decode" "\<lambda>_. True"
proof
  fix r bs
  show "length (TicketMask_encode r) = 4" by (simp add: wire_bits to_wire_bytes_list)
  show "(Inr \<circ> TicketMask_decode) bs = Inr r" if "TicketMask_encode r = bytes4_list bs"
    using that
    by (cases bs; cases r)
      (auto simp: wire_bits to_wire_bytes_list decode_ticket_mask_bytes_word u32_from_be_to_be)
  show "TicketMask_encode r = bytes4_list bs" if "(Inr \<circ> TicketMask_decode) bs = Inr r"
    using that
    by (cases bs)
      (auto simp: wire_bits to_wire_bytes_list decode_ticket_mask_bytes_word u32_from_be_ucasts)
qed simp

interpretation misc_control: lossless_codec MiscControl_encode "Inr \<circ> MiscControl_decode" wf_MiscControl
proof
  fix r bs
  show "length (MiscControl_encode r) = 4" by (simp add: wire_bits Let_def)
  show "(Inr \<circ> MiscControl_decode) bs = Inr r"
    if wf: "wf_MiscControl r" and enc: "MiscControl_encode r = bytes4_list bs"
  proof -
    from wf obtain e0 e1 e2 e3 where e: "mc_report_enables r = [e0, e1, e2, e3]"
      by (metis list_of_four wf_MiscControl_def)
    from wf enc e show ?thesis
      by (cases r)
        (simp add: wire_bits Let_def wf_MiscControl_def masked32_iff bit_positions,
         intro conjI word16_bitsI word32_bitsI; simp add: field_bits)
  qed
  show "wf_MiscControl r" if "(Inr \<circ> MiscControl_decode) bs = Inr r"
    using that by (auto simp: wire_bits Let_def wf_MiscControl_def masked32_iff bit_positions bit_simps)
  show "MiscControl_encode r = bytes4_list bs" if "(Inr \<circ> MiscControl_decode) bs = Inr r"
    using that by (clarsimp simp: wire_bits Let_def) (rule word32_bitsI; simp add: field_bits)
qed

interpretation uart_baud: lossless_codec UartBaud_encode "Inr \<circ> UartBaud_decode" wf_UartBaud
proof
  fix r bs
  show "length (UartBaud_encode r) = 4" by (simp add: wire_bits)
  show "(Inr \<circ> UartBaud_decode) bs = Inr r" if "wf_UartBaud r" and "UartBaud_encode r = bytes4_list bs"
    using that
    by (cases r)
      (simp add: wire_bits Let_def wf_UartBaud_def masked8_iff masked32_iff bit_positions,
       intro conjI word8_bitsI word32_bitsI; simp add: field_bits bit_positions)
  show "wf_UartBaud r" if "(Inr \<circ> UartBaud_decode) bs = Inr r"
    using that
    by (auto simp: wire_bits Let_def wf_UartBaud_def wf_CoreRegister_def masked8_iff masked32_iff bit_positions bit_simps)
  show "UartBaud_encode r = bytes4_list bs" if "(Inr \<circ> UartBaud_decode) bs = Inr r"
    using that by (clarsimp simp: wire_bits Let_def) (rule word32_bitsI; simp add: field_bits)
qed

interpretation uart_relay: lossless_codec UartRelay_encode "Inr \<circ> UartRelay_decode" wf_UartRelay
proof
  fix r bs
  show "length (UartRelay_encode r) = 4" by (simp add: wire_bits)
  show "(Inr \<circ> UartRelay_decode) bs = Inr r" if "wf_UartRelay r" and "UartRelay_encode r = bytes4_list bs"
    using that
    by (cases r)
      (simp add: wire_bits Let_def wf_UartRelay_def masked8_iff masked32_iff bit_positions,
       intro conjI word16_bitsI word32_bitsI; simp add: field_bits bit_positions)
  show "wf_UartRelay r" if "(Inr \<circ> UartRelay_decode) bs = Inr r"
    using that
    by (auto simp: wire_bits Let_def wf_UartRelay_def wf_CoreRegister_def masked8_iff masked32_iff bit_positions bit_simps)
  show "UartRelay_encode r = bytes4_list bs" if "(Inr \<circ> UartRelay_decode) bs = Inr r"
    using that by (clarsimp simp: wire_bits Let_def) (rule word32_bitsI; simp add: field_bits)
qed

interpretation analog_mux: lossless_codec AnalogMux_encode "Inr \<circ> AnalogMux_decode" wf_AnalogMux
proof
  fix r bs
  show "length (AnalogMux_encode r) = 4" by (simp add: wire_bits)
  show "(Inr \<circ> AnalogMux_decode) bs = Inr r" if "wf_AnalogMux r" and "AnalogMux_encode r = bytes4_list bs"
    using that
    by (cases r)
      (simp add: wire_bits Let_def wf_AnalogMux_def masked8_iff masked32_iff bit_positions,
       intro conjI word8_bitsI word32_bitsI; simp add: field_bits bit_positions)
  show "wf_AnalogMux r" if "(Inr \<circ> AnalogMux_decode) bs = Inr r"
    using that
    by (auto simp: wire_bits Let_def wf_AnalogMux_def wf_CoreRegister_def masked8_iff masked32_iff bit_positions bit_simps)
  show "AnalogMux_encode r = bytes4_list bs" if "(Inr \<circ> AnalogMux_decode) bs = Inr r"
    using that by (clarsimp simp: wire_bits Let_def) (rule word32_bitsI; simp add: field_bits)
qed

interpretation io_driver: lossless_codec IoDriverStrength_encode "Inr \<circ> IoDriverStrength_decode" wf_IoDriver
proof
  fix r bs
  show "length (IoDriverStrength_encode r) = 4" by (simp add: wire_bits)
  show "(Inr \<circ> IoDriverStrength_decode) bs = Inr r" if "wf_IoDriver r" and "IoDriverStrength_encode r = bytes4_list bs"
    using that
    by (cases r)
      (simp add: wire_bits Let_def wf_IoDriver_def masked8_iff masked32_iff bit_positions,
       intro conjI word8_bitsI word32_bitsI; simp add: field_bits bit_positions)
  show "wf_IoDriver r" if "(Inr \<circ> IoDriverStrength_decode) bs = Inr r"
    using that
    by (auto simp: wire_bits Let_def wf_IoDriver_def wf_CoreRegister_def masked8_iff masked32_iff bit_positions bit_simps)
  show "IoDriverStrength_encode r = bytes4_list bs" if "(Inr \<circ> IoDriverStrength_decode) bs = Inr r"
    using that by (clarsimp simp: wire_bits Let_def) (rule word32_bitsI; simp add: field_bits)
qed

interpretation midstate: lossless_codec MidstateConfig_encode "Inr \<circ> MidstateConfig_decode" wf_Midstate
proof
  fix r bs
  show "length (MidstateConfig_encode r) = 4" by (simp add: wire_bits)
  show "(Inr \<circ> MidstateConfig_decode) bs = Inr r" if "wf_Midstate r" and "MidstateConfig_encode r = bytes4_list bs"
    using that
    by (cases r)
      (simp add: wire_bits Let_def wf_Midstate_def masked8_iff masked32_iff bit_positions,
       intro conjI word8_bitsI word16_bitsI word32_bitsI; simp add: field_bits bit_positions)
  show "wf_Midstate r" if "(Inr \<circ> MidstateConfig_decode) bs = Inr r"
    using that
    by (auto simp: wire_bits Let_def wf_Midstate_def wf_CoreRegister_def masked8_iff masked32_iff bit_positions bit_simps)
  show "MidstateConfig_encode r = bytes4_list bs" if "(Inr \<circ> MidstateConfig_decode) bs = Inr r"
    using that by (clarsimp simp: wire_bits Let_def) (rule word32_bitsI; simp add: field_bits)
qed

text \<open>The mailbox command has an enum inside; its five-bit id is handled first.\<close>

lemma core_register_field:
  assumes "wf_CoreRegister c"
    and "bit b 0 = bit (CoreRegister_to_u8 c) 0" "bit b 1 = bit (CoreRegister_to_u8 c) 1"
    and "bit b 2 = bit (CoreRegister_to_u8 c) 2" "bit b 3 = bit (CoreRegister_to_u8 c) 3"
    and "bit b 4 = bit (CoreRegister_to_u8 c) 4" "\<not> bit b 5" "\<not> bit b 6" "\<not> bit b 7"
  shows "CoreRegister_from b = c"
proof -
  have "b = CoreRegister_to_u8 c"
    by (rule word8_bitsI)
      (use assms in \<open>simp_all add: wf_CoreRegister_def masked8_iff bit_positions\<close>)
  then show ?thesis using assms(1) by (simp add: wf_CoreRegister_def)
qed

interpretation core_mailbox: lossless_codec CoreCommand_encode "Inr \<circ> CoreCommand_decode" wf_CoreCommand
proof
  fix r bs
  show "length (CoreCommand_encode r) = 4" by (simp add: wire_bits)
  show "(Inr \<circ> CoreCommand_decode) bs = Inr r" if "wf_CoreCommand r" and "CoreCommand_encode r = bytes4_list bs"
    using that
    by (cases r)
      (simp add: wire_bits Let_def wf_CoreCommand_def masked8_iff masked32_iff bit_positions,
       intro conjI word8_bitsI word32_bitsI core_register_field; simp add: field_bits bit_positions)
  show "wf_CoreCommand r" if "(Inr \<circ> CoreCommand_decode) bs = Inr r"
    using that
    by (auto simp: wire_bits Let_def wf_CoreCommand_def wf_CoreRegister_def masked8_iff masked32_iff bit_positions bit_simps)
  show "CoreCommand_encode r = bytes4_list bs" if "(Inr \<circ> CoreCommand_decode) bs = Inr r"
    using that by (clarsimp simp: wire_bits Let_def) (rule word32_bitsI; simp add: field_bits)
qed

interpretation soft_reset: lossless_codec SoftResetControl_encode "Inr \<circ> SoftResetControl_decode" "\<lambda>_. True"
  by unfold_locales (auto simp: wire_bits)

interpretation opaque: lossless_codec opaque_encode "Inr \<circ> opaque_decode" "\<lambda>_. True"
  by unfold_locales (auto simp: wire_bits)

subsection \<open>Register addresses on the wire\<close>

text \<open>The \<open>repr(u8)\<close> values of the enum, and the derived \<open>TryFromPrimitive\<close>.\<close>

fun RegisterAddress_repr :: "RegisterAddress \<Rightarrow> u8" where
  "RegisterAddress_repr RegisterAddress.ChipId = 0x00"
| "RegisterAddress_repr RegisterAddress.PllDivider = 0x08"
| "RegisterAddress_repr RegisterAddress.HashCountingNumber = 0x10"
| "RegisterAddress_repr RegisterAddress.TicketMask = 0x14"
| "RegisterAddress_repr RegisterAddress.MiscControl = 0x18"
| "RegisterAddress_repr RegisterAddress.UartBaud = 0x28"
| "RegisterAddress_repr RegisterAddress.UartRelay = 0x2C"
| "RegisterAddress_repr RegisterAddress.CoreMailbox = 0x3C"
| "RegisterAddress_repr RegisterAddress.AnalogMux = 0x54"
| "RegisterAddress_repr RegisterAddress.IoDriverStrength = 0x58"
| "RegisterAddress_repr RegisterAddress.RingOscPadDisable = 0x68"
| "RegisterAddress_repr RegisterAddress.MidstateConfig = 0xA4"
| "RegisterAddress_repr RegisterAddress.SoftResetControl = 0xA8"
| "RegisterAddress_repr RegisterAddress.AdcCtrl1 = 0xB9"

definition register_addresses :: "RegisterAddress list" where
  "register_addresses =
     [RegisterAddress.ChipId, RegisterAddress.PllDivider, RegisterAddress.HashCountingNumber,
      RegisterAddress.TicketMask, RegisterAddress.MiscControl, RegisterAddress.UartBaud,
      RegisterAddress.UartRelay, RegisterAddress.CoreMailbox, RegisterAddress.AnalogMux,
      RegisterAddress.IoDriverStrength, RegisterAddress.RingOscPadDisable,
      RegisterAddress.MidstateConfig, RegisterAddress.SoftResetControl, RegisterAddress.AdcCtrl1]"

definition RegisterAddress_try_from :: "u8 \<Rightarrow> RegisterAddress option" where
  "RegisterAddress_try_from b = find (\<lambda>a. RegisterAddress_repr a = b) register_addresses"

lemma set_register_addresses: "set register_addresses = UNIV"
proof -
  have "a \<in> set register_addresses" for a
    by (cases a) (simp_all add: register_addresses_def)
  then show ?thesis by blast
qed

lemma RegisterAddress_repr_inject: "RegisterAddress_repr a = RegisterAddress_repr b \<longleftrightarrow> a = b"
  by (cases a; cases b) simp_all

lemma RegisterAddress_try_from_Some_iff:
  "RegisterAddress_try_from b = Some a \<longleftrightarrow> RegisterAddress_repr a = b"
  by (cases a) (auto simp: RegisterAddress_try_from_def register_addresses_def)

subsection \<open>The register enum\<close>

datatype Register =
  ChipId ChipIdReg
| PllDivider PllReg
| HashCountingNumber HashCountingReg
| TicketMask TicketMaskReg
| MiscControl MiscControlReg
| UartBaud UartBaudReg
| UartRelay UartRelayReg
| CoreMailbox CoreCommandReg
| AnalogMux AnalogMuxReg
| IoDriverStrength IoDriverReg
| RingOscPadDisable OpaqueReg
| MidstateConfig MidstateReg
| SoftResetControl SoftResetReg
| AdcCtrl1 OpaqueReg

fun Register_address :: "Register \<Rightarrow> RegisterAddress" where
  "Register_address (Register.ChipId _) = RegisterAddress.ChipId"
| "Register_address (Register.PllDivider _) = RegisterAddress.PllDivider"
| "Register_address (Register.HashCountingNumber _) = RegisterAddress.HashCountingNumber"
| "Register_address (Register.TicketMask _) = RegisterAddress.TicketMask"
| "Register_address (Register.MiscControl _) = RegisterAddress.MiscControl"
| "Register_address (Register.UartBaud _) = RegisterAddress.UartBaud"
| "Register_address (Register.UartRelay _) = RegisterAddress.UartRelay"
| "Register_address (Register.CoreMailbox _) = RegisterAddress.CoreMailbox"
| "Register_address (Register.AnalogMux _) = RegisterAddress.AnalogMux"
| "Register_address (Register.IoDriverStrength _) = RegisterAddress.IoDriverStrength"
| "Register_address (Register.RingOscPadDisable _) = RegisterAddress.RingOscPadDisable"
| "Register_address (Register.MidstateConfig _) = RegisterAddress.MidstateConfig"
| "Register_address (Register.SoftResetControl _) = RegisterAddress.SoftResetControl"
| "Register_address (Register.AdcCtrl1 _) = RegisterAddress.AdcCtrl1"

fun Register_encode :: "Register \<Rightarrow> bytes" where
  "Register_encode (Register.ChipId r) = ChipId_encode r"
| "Register_encode (Register.PllDivider r) = PllDivider_encode r"
| "Register_encode (Register.HashCountingNumber r) = HashCountingNumber_encode r"
| "Register_encode (Register.TicketMask r) = TicketMask_encode r"
| "Register_encode (Register.MiscControl r) = MiscControl_encode r"
| "Register_encode (Register.UartBaud r) = UartBaud_encode r"
| "Register_encode (Register.UartRelay r) = UartRelay_encode r"
| "Register_encode (Register.CoreMailbox r) = CoreCommand_encode r"
| "Register_encode (Register.AnalogMux r) = AnalogMux_encode r"
| "Register_encode (Register.IoDriverStrength r) = IoDriverStrength_encode r"
| "Register_encode (Register.RingOscPadDisable r) = opaque_encode r"
| "Register_encode (Register.MidstateConfig r) = MidstateConfig_encode r"
| "Register_encode (Register.SoftResetControl r) = SoftResetControl_encode r"
| "Register_encode (Register.AdcCtrl1 r) = opaque_encode r"

fun Register_decode :: "RegisterAddress \<Rightarrow> bytes4 \<Rightarrow> ProtocolError + Register" where
  "Register_decode RegisterAddress.ChipId bs = map_sum id Register.ChipId (ChipId_decode bs)"
| "Register_decode RegisterAddress.PllDivider bs = Inr (Register.PllDivider (PllDivider_decode bs))"
| "Register_decode RegisterAddress.HashCountingNumber bs = Inr (Register.HashCountingNumber (HashCountingNumber_decode bs))"
| "Register_decode RegisterAddress.TicketMask bs = Inr (Register.TicketMask (TicketMask_decode bs))"
| "Register_decode RegisterAddress.MiscControl bs = Inr (Register.MiscControl (MiscControl_decode bs))"
| "Register_decode RegisterAddress.UartBaud bs = Inr (Register.UartBaud (UartBaud_decode bs))"
| "Register_decode RegisterAddress.UartRelay bs = Inr (Register.UartRelay (UartRelay_decode bs))"
| "Register_decode RegisterAddress.CoreMailbox bs = Inr (Register.CoreMailbox (CoreCommand_decode bs))"
| "Register_decode RegisterAddress.AnalogMux bs = Inr (Register.AnalogMux (AnalogMux_decode bs))"
| "Register_decode RegisterAddress.IoDriverStrength bs = Inr (Register.IoDriverStrength (IoDriverStrength_decode bs))"
| "Register_decode RegisterAddress.RingOscPadDisable bs = Inr (Register.RingOscPadDisable (opaque_decode bs))"
| "Register_decode RegisterAddress.MidstateConfig bs = Inr (Register.MidstateConfig (MidstateConfig_decode bs))"
| "Register_decode RegisterAddress.SoftResetControl bs = Inr (Register.SoftResetControl (SoftResetControl_decode bs))"
| "Register_decode RegisterAddress.AdcCtrl1 bs = Inr (Register.AdcCtrl1 (opaque_decode bs))"

text \<open>Values a decoded register can have, and addresses whose bits are all held in place.\<close>

fun wf_Register :: "Register \<Rightarrow> bool" where
  "wf_Register (Register.MiscControl r) = wf_MiscControl r"
| "wf_Register (Register.UartBaud r) = wf_UartBaud r"
| "wf_Register (Register.UartRelay r) = wf_UartRelay r"
| "wf_Register (Register.CoreMailbox r) = wf_CoreCommand r"
| "wf_Register (Register.AnalogMux r) = wf_AnalogMux r"
| "wf_Register (Register.IoDriverStrength r) = wf_IoDriver r"
| "wf_Register (Register.MidstateConfig r) = wf_Midstate r"
| "wf_Register _ = True"

subsection \<open>The enum is a codec\<close>

text \<open>The payloads' laws, collected for the dispatch proofs.\<close>

lemmas payload_lengths =
  chip_id.length_enc pll.length_enc hcn.length_enc ticket_mask.length_enc misc_control.length_enc
  uart_baud.length_enc uart_relay.length_enc core_mailbox.length_enc analog_mux.length_enc
  io_driver.length_enc midstate.length_enc soft_reset.length_enc opaque.length_enc

lemmas payload_dec_enc =
  chip_id.dec_enc [simplified] pll.dec_enc [simplified] hcn.dec_enc [simplified]
  ticket_mask.dec_enc [simplified] misc_control.dec_enc [simplified] uart_baud.dec_enc
  [simplified] uart_relay.dec_enc [simplified] core_mailbox.dec_enc [simplified]
  analog_mux.dec_enc [simplified] io_driver.dec_enc [simplified] midstate.dec_enc [simplified]
  soft_reset.dec_enc [simplified] opaque.dec_enc [simplified]

lemmas payload_wf =
  misc_control.dec_wf [simplified] uart_baud.dec_wf [simplified] uart_relay.dec_wf [simplified]
  core_mailbox.dec_wf [simplified] analog_mux.dec_wf [simplified] io_driver.dec_wf [simplified]
  midstate.dec_wf [simplified]

lemmas payload_enc_dec =
  chip_id.enc_dec [simplified] hcn.enc_dec [simplified] ticket_mask.enc_dec [simplified]
  misc_control.enc_dec [simplified] uart_baud.enc_dec [simplified] uart_relay.enc_dec
  [simplified] core_mailbox.enc_dec [simplified] analog_mux.enc_dec [simplified]
  io_driver.enc_dec [simplified] midstate.enc_dec [simplified] soft_reset.enc_dec [simplified]
  opaque.enc_dec [simplified]

lemma length_Register_encode [simp]: "length (Register_encode r) = 4"
  by (cases r) (simp_all add: payload_lengths)

lemma Register_decode_encode:
  "wf_Register r \<Longrightarrow> Register_encode r = bytes4_list bs \<Longrightarrow> Register_decode (Register_address r) bs = Inr r"
  by (cases r) (simp_all add: payload_dec_enc)

lemma Register_decode_address: "Register_decode a bs = Inr r \<Longrightarrow> Register_address r = a"
  by (cases a; cases "ChipId_decode bs") auto

lemma Register_decode_wf: "Register_decode a bs = Inr r \<Longrightarrow> wf_Register r"
  by (cases a; cases "ChipId_decode bs") (auto simp: payload_wf)

text \<open>PLL_DIVIDER drops the low nibble of its first byte; every other register keeps its word.\<close>

lemma Register_encode_decode:
  assumes "Register_decode a bs = Inr r" and "a \<noteq> RegisterAddress.PllDivider"
  shows "Register_encode r = bytes4_list bs"
  using assms by (cases a; cases "ChipId_decode bs") (auto simp: payload_enc_dec)

interpretation reg: register_codec Register_encode "Register_decode a"
  "\<lambda>r. wf_Register r \<and> Register_address r = a" for a
  by unfold_locales
    (auto simp: Register_decode_encode Register_decode_address intro: Register_decode_wf)

text \<open>The only register whose decoding can fail is CHIP_ID, on an unknown model.\<close>

lemma Register_decode_Inl_iff:
  "Register_decode a (b0, b1, b2, b3) = Inl e \<longleftrightarrow>
     a = RegisterAddress.ChipId \<and> (b0, b1) \<notin> range id_bytes \<and> e = UnknownChipId b0 b1"
proof -
  have "ChipModel_try_from (b0, b1) = Inl e \<longleftrightarrow> (b0, b1) \<notin> range id_bytes \<and> e = UnknownChipId b0 b1"
  proof (cases "ChipModel_try_from (b0, b1)")
    case (Inl e')
    then have "(b0, b1) \<notin> range id_bytes" using ChipModel_try_from_Inr_iff by force
    with Inl show ?thesis by (auto simp: ChipModel_try_from_def split: if_splits)
  next
    case (Inr m)
    then show ?thesis using ChipModel_try_from_Inr_iff by force
  qed
  then show ?thesis by (cases a) (auto split: sum.splits)
qed

end
