(* ===== verification/Commands.thy ===== *)
theory Commands
  imports Registers Crc
begin

text \<open>
  Frames the host sends: the command types of \<open>mujina-miner/src/asic/bm13xx/command.rs\<close> with
  their encoders, the word-order conversion of hashes, and the two \<open>Encoder\<close> impls of
  \<open>codec.rs\<close> that add preamble and checksum. The types of the \<open>bitcoin\<close> crate are newtypes
  and are modelled by what they wrap: \<open>CompactTarget\<close> by its \<open>u32\<close>, \<open>Version\<close> by its \<open>i32\<close>,
  \<open>TxMerkleNode\<close> and \<open>BlockHash\<close> by their 32 bytes.
\<close>

subsection \<open>The type/flags byte\<close>

datatype Kind = Job | Command

fun Kind_repr :: "Kind \<Rightarrow> u8" where
  "Kind_repr Job = 1"
| "Kind_repr Command = 2"

datatype Cmd = CmdSetChipAddress | CmdWriteRegisterOrJob | CmdReadRegister | CmdChainInactive

fun Cmd_repr :: "Cmd \<Rightarrow> u8" where
  "Cmd_repr CmdSetChipAddress = 0"
| "Cmd_repr CmdWriteRegisterOrJob = 1"
| "Cmd_repr CmdReadRegister = 2"
| "Cmd_repr CmdChainInactive = 3"

text \<open>A store of \<open>v\<close> into the bits \<open>lo..<hi\<close> of a byte, least significant bit first.\<close>

definition store_bits :: "nat \<Rightarrow> nat \<Rightarrow> u8 \<Rightarrow> u8 \<Rightarrow> u8" where
  "store_bits lo hi v byte =
     (byte AND NOT (push_bit lo (mask (hi - lo)))) OR push_bit lo (take_bit (hi - lo) v)"

definition TypeFlags_encode :: "Kind \<Rightarrow> bool \<Rightarrow> Cmd \<Rightarrow> bytes" where
  "TypeFlags_encode kind broadcast cmd =
     (let byte = 0;
          byte = store_bits 5 7 (Kind_repr kind) byte;
          byte = store_bits 4 5 (of_bool broadcast) byte;
          byte = store_bits 0 4 (Cmd_repr cmd) byte
      in [byte])"

lemma TypeFlags_encode_bits:
  "TypeFlags_encode kind broadcast cmd =
     [push_bit 5 (Kind_repr kind) OR push_bit 4 (of_bool broadcast) OR Cmd_repr cmd]"
  by (cases kind; cases broadcast; cases cmd)
    (simp_all add: TypeFlags_encode_def store_bits_def mask_numeral take_bit_eq_mask)

lemma TypeFlags_encode_inject:
  "TypeFlags_encode k b c = TypeFlags_encode k' b' c' \<longleftrightarrow> k = k' \<and> b = b' \<and> c = c'"
  by (cases k; cases b; cases c; cases k'; cases b'; cases c') (simp_all add: TypeFlags_encode_bits)

subsection \<open>Register commands\<close>

datatype Destination = Broadcast | Chip u8

fun is_broadcast :: "Destination \<Rightarrow> bool" where
  "is_broadcast Broadcast = True"
| "is_broadcast (Chip _) = False"

fun address_byte :: "Destination \<Rightarrow> u8" where
  "address_byte Broadcast = 0x00"
| "address_byte (Chip addr) = addr"

text \<open>The payload structs are the constructors' arguments.\<close>

datatype RegisterCommand =
  SetChipAddress u8
| ChainInactive
| ReadRegister Destination RegisterAddress
| WriteRegister Destination Register

fun RegisterCommand_encode :: "RegisterCommand \<Rightarrow> bytes" where
  "RegisterCommand_encode (SetChipAddress chip_address) =
     TypeFlags_encode Command False CmdSetChipAddress @ [5] @ [chip_address] @ [0x00]"
| "RegisterCommand_encode ChainInactive =
     TypeFlags_encode Command True CmdChainInactive @ [5] @ [0x00] @ [0x00]"
| "RegisterCommand_encode (ReadRegister destination register_address) =
     TypeFlags_encode Command (is_broadcast destination) CmdReadRegister @ [5] @
     [address_byte destination] @ [RegisterAddress_repr register_address]"
| "RegisterCommand_encode (WriteRegister destination register) =
     TypeFlags_encode Command (is_broadcast destination) CmdWriteRegisterOrJob @ [9] @
     [address_byte destination] @ [RegisterAddress_repr (Register_address register)] @
     Register_encode register"

subsection \<open>Job commands\<close>

record JobFullFormat =
  jf_job_id :: u8
  jf_num_midstates :: u8
  jf_starting_nonce :: u32
  jf_nbits :: u32
  jf_ntime :: u32
  jf_merkle_root :: bytes
  jf_prev_block_hash :: bytes
  jf_version :: i32

text \<open>
  \<open>hash_to_wire_bytes\<close> copies word \<open>i\<close> of the hash into word \<open>7 - i\<close> of the result;
  \<open>hash_from_wire_bytes\<close> has the same loop with the roles exchanged.
\<close>

definition reverse_words :: "bytes \<Rightarrow> bytes" where
  "reverse_words src =
     fold (\<lambda>i dst. take ((7 - i) * 4) dst @ take 4 (drop (i * 4) src) @ drop ((8 - i) * 4) dst)
       [0, 1, 2, 3, 4, 5, 6, 7] (replicate 32 0)"

definition hash_to_wire_bytes :: "bytes \<Rightarrow> bytes" where
  "hash_to_wire_bytes hash = reverse_words hash"

definition hash_from_wire_bytes :: "bytes \<Rightarrow> bytes" where
  "hash_from_wire_bytes wire_bytes = reverse_words wire_bytes"

definition JobFull_encode :: "JobFullFormat \<Rightarrow> bytes" where
  "JobFull_encode j =
     TypeFlags_encode Job False CmdWriteRegisterOrJob @ [54] @
     [push_bit 3 (jf_job_id j)] @ [jf_num_midstates j] @
     u32_to_le (jf_starting_nonce j) @ u32_to_le (jf_nbits j) @ u32_to_le (jf_ntime j) @
     hash_to_wire_bytes (jf_merkle_root j) @ hash_to_wire_bytes (jf_prev_block_hash j) @
     u32_to_le (jf_version j)"

record JobMidstateFormat =
  jm_job_id :: u8
  jm_num_midstates :: u8
  jm_starting_nonce :: bytes4
  jm_nbits :: bytes4
  jm_ntime :: bytes4
  jm_merkle4 :: bytes4
  jm_midstate0 :: bytes
  jm_midstate1 :: "bytes option"
  jm_midstate2 :: "bytes option"
  jm_midstate3 :: "bytes option"

definition put_opt :: "bytes option \<Rightarrow> bytes" where
  "put_opt m = (case m of Some midstate \<Rightarrow> midstate | None \<Rightarrow> [])"

text \<open>The length is computed in \<open>u8\<close>, which wraps in a release build.\<close>

definition JobMidstate_encode :: "JobMidstateFormat \<Rightarrow> bytes" where
  "JobMidstate_encode j =
     TypeFlags_encode Job False CmdWriteRegisterOrJob @ [1 + 1 + 18 + jm_num_midstates j * 32 + 2] @
     [push_bit 3 (jm_job_id j)] @ [jm_num_midstates j] @
     bytes4_list (jm_starting_nonce j) @ bytes4_list (jm_nbits j) @ bytes4_list (jm_ntime j) @
     bytes4_list (jm_merkle4 j) @ jm_midstate0 j @
     put_opt (jm_midstate1 j) @ put_opt (jm_midstate2 j) @ put_opt (jm_midstate3 j)"

datatype JobCommand = JobFull JobFullFormat | JobMidstate JobMidstateFormat

fun JobCommand_encode :: "JobCommand \<Rightarrow> bytes" where
  "JobCommand_encode (JobFull j) = JobFull_encode j"
| "JobCommand_encode (JobMidstate j) = JobMidstate_encode j"

subsection \<open>Framing\<close>

text \<open>The two \<open>Encoder\<close> impls append a frame to the write buffer \<open>dst\<close>.\<close>

definition encode_register_frame :: "RegisterCommand \<Rightarrow> bytes \<Rightarrow> bytes" where
  "encode_register_frame command dst =
     (let dst = dst @ [0x55, 0xaa];
          start_pos = length dst;
          dst = dst @ RegisterCommand_encode command;
          crc = crc5 (drop start_pos dst)
      in dst @ [crc])"

definition encode_job_frame :: "JobCommand \<Rightarrow> bytes \<Rightarrow> bytes" where
  "encode_job_frame command dst =
     (let dst = dst @ [0x55, 0xaa];
          start_pos = length dst;
          dst = dst @ JobCommand_encode command;
          crc = crc16 (drop start_pos dst)
      in dst @ u16_to_be crc)"

lemma read_chip_id_frame:
  "encode_register_frame (ReadRegister Broadcast RegisterAddress.ChipId) [] =
     [0x55, 0xaa, 0x52, 0x05, 0x00, 0x00, 0x0a]"
  by (simp add: encode_register_frame_def TypeFlags_encode_bits crc5_read_register_frame)

subsection \<open>Register frames\<close>

lemma encode_register_frame_eq:
  "encode_register_frame c dst =
     dst @ [0x55, 0xaa] @ RegisterCommand_encode c @ [crc5 (RegisterCommand_encode c)]"
  by (simp add: encode_register_frame_def)

lemma encode_job_frame_eq:
  "encode_job_frame c dst =
     dst @ [0x55, 0xaa] @ JobCommand_encode c @ u16_to_be (crc16 (JobCommand_encode c))"
  by (simp add: encode_job_frame_def)

lemma length_TypeFlags_encode [simp]: "length (TypeFlags_encode k b c) = 1"
  by (simp add: TypeFlags_encode_bits)

text \<open>
  The length byte of a register frame counts the bytes after the preamble, checksum
  included.
\<close>

lemma register_length_byte:
  "unat (RegisterCommand_encode c ! 1) = length (RegisterCommand_encode c) + 1"
  by (cases c) (simp_all add: TypeFlags_encode_bits)

lemma length_RegisterCommand_encode: "length (RegisterCommand_encode c) \<in> {4, 8}"
  by (cases c) simp_all

lemma destination_eqI:
  "is_broadcast d = is_broadcast e \<Longrightarrow> address_byte d = address_byte e \<Longrightarrow> d = e"
  by (cases d; cases e) auto

fun wf_RegisterCommand :: "RegisterCommand \<Rightarrow> bool" where
  "wf_RegisterCommand (WriteRegister _ register) = wf_Register register"
| "wf_RegisterCommand _ = True"

lemma Register_encode_inject:
  "wf_Register r \<Longrightarrow> wf_Register s \<Longrightarrow> Register_address r = Register_address s \<Longrightarrow>
   Register_encode r = Register_encode s \<longleftrightarrow> r = s"
  using reg.enc_inj by blast

text \<open>Different commands never share their bytes.\<close>

lemma RegisterCommand_encode_inject:
  assumes "wf_RegisterCommand c" and "wf_RegisterCommand d"
  shows "RegisterCommand_encode c = RegisterCommand_encode d \<longleftrightarrow> c = d"
  using assms
  by (cases c; cases d)
    (auto simp: TypeFlags_encode_inject RegisterAddress_repr_inject Register_encode_inject
      intro: destination_eqI)

subsection \<open>Job frames\<close>

lemma reverse_words_eq:
  assumes "length src = 32"
  shows "reverse_words src =
     take 4 (drop 28 src) @ take 4 (drop 24 src) @ take 4 (drop 20 src) @ take 4 (drop 16 src) @
     take 4 (drop 12 src) @ take 4 (drop 8 src) @ take 4 (drop 4 src) @ take 4 src"
  using assms by (simp add: reverse_words_def)

lemma length_reverse_words [simp]: "length src = 32 \<Longrightarrow> length (reverse_words src) = 32"
  by (simp add: reverse_words_eq)

lemma take4_drop_join: "take 4 (drop n xs) @ drop (n + 4) xs = drop n xs"
  by (metis add.commute append_take_drop_id drop_drop)

lemma reverse_words_involution: "length src = 32 \<Longrightarrow> reverse_words (reverse_words src) = src"
  using take4_drop_join [of 24 src] take4_drop_join [of 20 src] take4_drop_join [of 16 src]
    take4_drop_join [of 12 src] take4_drop_join [of 8 src] take4_drop_join [of 4 src]
    take4_drop_join [of 0 src]
  by (subst reverse_words_eq, simp) (simp add: reverse_words_eq)

lemma hash_wire_round_trip:
  "length h = 32 \<Longrightarrow> hash_from_wire_bytes (hash_to_wire_bytes h) = h"
  "length h = 32 \<Longrightarrow> hash_to_wire_bytes (hash_from_wire_bytes h) = h"
  by (simp_all add: hash_from_wire_bytes_def hash_to_wire_bytes_def reverse_words_involution)

definition wf_JobFull :: "JobFullFormat \<Rightarrow> bool" where
  "wf_JobFull j \<longleftrightarrow>
     jf_job_id j < 16 \<and> length (jf_merkle_root j) = 32 \<and> length (jf_prev_block_hash j) = 32"

lemma length_JobFull_frame:
  "wf_JobFull j \<Longrightarrow> length (encode_job_frame (JobFull j) []) = 88"
  by (simp add: encode_job_frame_eq JobFull_encode_def wf_JobFull_def hash_to_wire_bytes_def)

lemma job_id_shift_inject:
  assumes "push_bit 3 i = push_bit 3 j" and "i < 32" and "j < (32 :: u8)"
  shows "i = j"
proof -
  have low: "x AND mask 5 = x" if "x < 32" for x :: u8
    using that less_mask_eq [of x 5] by simp
  have "bit (push_bit 3 i) (n + 3) = bit (push_bit 3 j) (n + 3)" for n
    using assms(1) by simp
  then have "(n < 5 \<and> bit i n) = (n < 5 \<and> bit j n)" for n
    by (simp add: bit_simps)
  then have bits: "n < 5 \<Longrightarrow> bit i n = bit j n" for n by blast
  have "i AND mask 5 = j AND mask 5"
    by (rule bit_word_eqI) (auto simp: bit_simps bits)
  with low assms(2,3) show ?thesis by metis
qed

text \<open>A full-header job can be read back from its frame, so different jobs have different frames.\<close>

lemma JobFull_encode_inject:
  assumes "wf_JobFull i" and "wf_JobFull j" and "JobFull_encode i = JobFull_encode j"
  shows "i = j"
proof -
  have ids: "jf_job_id i < 32" "jf_job_id j < 32"
    using assms(1,2) by (auto simp: wf_JobFull_def intro: less_trans)
  have "push_bit 3 (jf_job_id i) = push_bit 3 (jf_job_id j)"
    and "u32_to_le (jf_starting_nonce i) = u32_to_le (jf_starting_nonce j)"
    and "u32_to_le (jf_nbits i) = u32_to_le (jf_nbits j)"
    and "u32_to_le (jf_ntime i) = u32_to_le (jf_ntime j)"
    and "hash_to_wire_bytes (jf_merkle_root i) = hash_to_wire_bytes (jf_merkle_root j)"
    and "hash_to_wire_bytes (jf_prev_block_hash i) = hash_to_wire_bytes (jf_prev_block_hash j)"
    and "u32_to_le (jf_version i) = u32_to_le (jf_version j)"
    and "jf_num_midstates i = jf_num_midstates j"
    using assms
    by (simp_all add: JobFull_encode_def wf_JobFull_def hash_to_wire_bytes_def)
  then show ?thesis
    using assms(1,2) ids job_id_shift_inject [of "jf_job_id i" "jf_job_id j"]
    by (intro JobFullFormat.equality)
      (auto simp: wf_JobFull_def u32_to_le_inject dest: arg_cong [where f = hash_from_wire_bytes]
        simp: hash_wire_round_trip)
qed

text \<open>
  A midstate job declares its true length, counting everything after the preamble, when the
  midstates present are the ones announced; up to seven would fit the byte.
\<close>

definition midstates_present :: "JobMidstateFormat \<Rightarrow> nat" where
  "midstates_present j =
     1 + length (filter (\<lambda>m. m \<noteq> None) [jm_midstate1 j, jm_midstate2 j, jm_midstate3 j])"

definition wf_JobMidstate :: "JobMidstateFormat \<Rightarrow> bool" where
  "wf_JobMidstate j \<longleftrightarrow>
     unat (jm_num_midstates j) = midstates_present j \<and> length (jm_midstate0 j) = 32 \<and>
     (\<forall>m \<in> {jm_midstate1 j, jm_midstate2 j, jm_midstate3 j}. \<forall>b. m = Some b \<longrightarrow> length b = 32)"

lemma length_put_opt:
  "(\<forall>b. m = Some b \<longrightarrow> length b = 32) \<Longrightarrow> length (put_opt m) = (if m = None then 0 else 32)"
  by (cases m) (simp_all add: put_opt_def)

lemma job_midstate_length:
  assumes "wf_JobMidstate j"
  shows "unat (JobMidstate_encode j ! 1) = length (JobMidstate_encode j) + 2"
proof -
  have lens: "length (put_opt (jm_midstate1 j)) + length (put_opt (jm_midstate2 j)) +
      length (put_opt (jm_midstate3 j)) + 32 = 32 * midstates_present j"
    using assms by (simp add: wf_JobMidstate_def length_put_opt midstates_present_def)
  have le: "midstates_present j \<le> 4"
    by (simp add: midstates_present_def)
  have "unat (1 + 1 + 18 + jm_num_midstates j * 32 + 2) = 22 + 32 * midstates_present j"
    using assms le
    by (simp add: wf_JobMidstate_def unat_word_ariths)
  with lens show ?thesis
    using assms
    by (simp add: JobMidstate_encode_def TypeFlags_encode_bits wf_JobMidstate_def)
qed

end
