(* ===== verification/Versions.thy ===== *)
theory Versions
  imports Prelude
begin

text \<open>
  Version rolling, \<open>mujina-miner/src/job_source/version.rs\<close>: the sixteen general purpose bits
  of BIP320, the mask test, their application to a base version, and the validated template.
  A \<open>Version\<close> is the \<open>i32\<close> it wraps.
\<close>

subsection \<open>General purpose bits\<close>

record GeneralPurposeBits =
  gp_hi :: u8
  gp_lo :: u8

definition GP_full :: GeneralPurposeBits where
  "GP_full = \<lparr>gp_hi = 0xff, gp_lo = 0xff\<rparr>"

definition GP_none :: GeneralPurposeBits where
  "GP_none = \<lparr>gp_hi = 0x00, gp_lo = 0x00\<rparr>"

text \<open>\<open>contains\<close>: no byte of the value has a bit outside the mask's byte.\<close>

definition GP_contains :: "GeneralPurposeBits \<Rightarrow> GeneralPurposeBits \<Rightarrow> bool" where
  "GP_contains m v =
     list_all (\<lambda>(m, b). b AND NOT m = 0) (zip [gp_hi m, gp_lo m] [gp_hi v, gp_lo v])"

definition GP_bits :: "GeneralPurposeBits \<Rightarrow> u16" where
  "GP_bits g = u16_from_be (gp_hi g) (gp_lo g)"

definition apply_to_version :: "GeneralPurposeBits \<Rightarrow> i32 \<Rightarrow> i32" where
  "apply_to_version g base_version =
     (let bits = GP_bits g
      in base_version OR push_bit 13 (ucast bits))"

text \<open>From a big-endian Stratum mask: bits 13 to 28.\<close>

definition GP_from_mask :: "bytes4 \<Rightarrow> GeneralPurposeBits" where
  "GP_from_mask mask_bytes =
     (let mask = u32_from_be mask_bytes;
          bits = (ucast (drop_bit 13 mask) :: u16)
      in \<lparr>gp_hi = ucast (drop_bit 8 bits), gp_lo = ucast bits\<rparr>)"

subsection \<open>The version template\<close>

datatype VersionTemplateError =
  BaseHasGeneralPurposeBits u32 u8 u8
| GpBitsExceedMask GeneralPurposeBits GeneralPurposeBits

record VersionTemplate =
  vt_base :: i32
  vt_gp_bits_mask :: GeneralPurposeBits

definition VersionTemplate_new ::
  "i32 \<Rightarrow> GeneralPurposeBits \<Rightarrow> VersionTemplateError + VersionTemplate" where
  "VersionTemplate_new base gp_bits_mask =
     (let base_u32 = base;
          gp_region = drop_bit 13 base_u32 AND 0xffff
      in if gp_region \<noteq> 0
         then Inl (BaseHasGeneralPurposeBits base_u32 (ucast (drop_bit 8 gp_region)) (ucast gp_region))
         else Inr \<lparr>vt_base = base, vt_gp_bits_mask = gp_bits_mask\<rparr>)"

definition apply_gp_bits ::
  "VersionTemplate \<Rightarrow> GeneralPurposeBits \<Rightarrow> VersionTemplateError + i32" where
  "apply_gp_bits t gp_bits =
     (if \<not> GP_contains (vt_gp_bits_mask t) gp_bits
      then Inl (GpBitsExceedMask gp_bits (vt_gp_bits_mask t))
      else Inr (apply_to_version gp_bits (vt_base t)))"

subsection \<open>Bit-level reading\<close>

lemma bit_GP_bits:
  "bit (GP_bits g) n \<longleftrightarrow> (if n < 8 then bit (gp_lo g) n else n < 16 \<and> bit (gp_hi g) (n - 8))"
  by (auto simp: GP_bits_def u16_from_be_def bit_simps)

lemma GP_bits_eqI: "GP_bits g = GP_bits h \<Longrightarrow> g = h"
proof -
  assume "GP_bits g = GP_bits h"
  then have "[gp_hi g, gp_lo g] = [gp_hi h, gp_lo h]"
    by (metis GP_bits_def u16_to_be_from_be)
  then show "g = h" by simp
qed

lemma bit_apply_to_version:
  "bit (apply_to_version g base) n \<longleftrightarrow>
     bit base n \<or> (13 \<le> n \<and> n < 29 \<and> bit (GP_bits g) (n - 13))"
  by (auto simp: apply_to_version_def bit_simps dest: bit_imp_le_length)

lemma GP_contains_iff: "GP_contains m v \<longleftrightarrow> GP_bits v AND NOT (GP_bits m) = 0"
proof -
  have byte: "b AND NOT m = 0 \<longleftrightarrow> (\<forall>n<8. bit b n \<longrightarrow> bit m n)" for b m :: u8
    by (auto simp: bit_eq_iff bit_simps)
  have word: "b AND NOT m = 0 \<longleftrightarrow> (\<forall>n<16. bit b n \<longrightarrow> bit m n)" for b m :: u16
    by (auto simp: bit_eq_iff bit_simps)
  show ?thesis
    by (auto simp: GP_contains_def byte word bit_GP_bits all_less_sixteen)
qed

text \<open>A template that passed validation has bits 13 to 28 of its base clear.\<close>

definition base_clear :: "i32 \<Rightarrow> bool" where
  "base_clear base \<longleftrightarrow> drop_bit 13 base AND 0xffff = 0"

lemma base_clear_iff: "base_clear base \<longleftrightarrow> (\<forall>n. 13 \<le> n \<and> n < 29 \<longrightarrow> \<not> bit base n)"
proof -
  have m: "(0xffff :: i32) = mask 16" by (simp add: mask_numeral)
  have "base_clear base \<longleftrightarrow> (\<forall>n. \<not> (n < 16 \<and> bit base (13 + n)))"
  proof -
    have lt: "\<And>n. n < 16 \<Longrightarrow> n < (32 :: nat)" by simp
    show ?thesis
      unfolding base_clear_def m bit_eq_iff bit_mask_iff bit_and_iff bit_drop_bit_eq
      by (simp, use lt in blast)
  qed
  then show ?thesis by (auto simp: le_iff_add)
qed

lemma VersionTemplate_new_Inr_iff:
  "VersionTemplate_new base m = Inr t \<longleftrightarrow> base_clear base \<and> t = \<lparr>vt_base = base, vt_gp_bits_mask = m\<rparr>"
  by (auto simp: VersionTemplate_new_def base_clear_def Let_def)

text \<open>On a clear base, the rolled bits can be read back and nothing else changes.\<close>

lemma apply_to_version_read_back:
  assumes "base_clear base"
  shows "ucast (drop_bit 13 (apply_to_version g base)) = GP_bits g"
  using assms
  by (intro bit_word_eqI) (auto simp: base_clear_iff bit_simps bit_apply_to_version)

lemma apply_to_version_frame:
  "n < 13 \<or> 29 \<le> n \<Longrightarrow> bit (apply_to_version g base) n = bit base n"
  by (auto simp: bit_apply_to_version)

lemma apply_to_version_inject:
  assumes "base_clear base" and "apply_to_version g base = apply_to_version h base"
  shows "g = h"
  using assms apply_to_version_read_back [OF assms(1)] by (metis GP_bits_eqI)

end
