(* ===== verification/Responses.thy ===== *)
theory Responses
  imports Commands Versions
begin

text \<open>
  Frames the chips send back: \<open>mujina-miner/src/asic/bm13xx/response.rs\<close> (the two response
  kinds, the fields packed into a nonce) and the \<open>Decoder\<close> impl of \<open>codec.rs\<close>, which finds
  frames in the receive buffer. \<open>response_frame\<close> is the chip's side, used to state what the
  decoder accepts.
\<close>

subsection \<open>Responses\<close>

record RegisterResponse =
  rr_chip_address :: u8
  rr_register :: Register

record NonceResponse =
  nr_nonce :: u32
  nr_job_id :: u8
  nr_excess_difficulty :: u8
  nr_version :: GeneralPurposeBits
  nr_subcore_id :: u8

datatype Response =
  RespReadRegister RegisterResponse
| RespNonce NonceResponse

datatype ResponseType = TypeReadRegister | TypeNonce

definition ResponseType_try_from :: "u8 \<Rightarrow> ResponseType option" where
  "ResponseType_try_from b =
     (if b = 0 then Some TypeReadRegister else if b = 4 then Some TypeNonce else None)"

fun ResponseType_repr :: "ResponseType \<Rightarrow> u8" where
  "ResponseType_repr TypeReadRegister = 0"
| "ResponseType_repr TypeNonce = 4"

lemma ResponseType_try_from_repr [simp]: "ResponseType_try_from (ResponseType_repr t) = Some t"
  by (cases t) (simp_all add: ResponseType_try_from_def)

text \<open>The split of the result header into job id and subcore id, per model.\<close>

fun split_result_header :: "ChipModel \<Rightarrow> u8 \<Rightarrow> u8 \<times> u8" where
  "split_result_header BM1370 h = (drop_bit 4 h AND 0x0f, h AND 0x0f)"
| "split_result_header _ h = (drop_bit 3 h, h AND 0x07)"

text \<open>
  \<open>Response::decode\<close> over the frame's bytes after the preamble. Its only caller passes nine
  bytes, so the indexed reads are in range.
\<close>

definition Response_decode :: "ChipModel \<Rightarrow> bytes \<Rightarrow> ProtocolError + Response" where
  "Response_decode model bytes =
     (let type_and_crc = bytes ! (length bytes - 1);
          type_repr = drop_bit 5 type_and_crc
      in case ResponseType_try_from type_repr of
           Some TypeReadRegister \<Rightarrow>
             (case bytes4_of (take 4 bytes) of
                None \<Rightarrow> Inl (BufferTooSmall 4 (length (take 4 bytes)))
              | Some val \<Rightarrow>
                  (let chip_address = bytes ! 4;
                       register_address_repr = bytes ! 5
                   in case RegisterAddress_try_from register_address_repr of
                        Some register_address \<Rightarrow>
                          (case Register_decode register_address val of
                             Inl e \<Rightarrow> Inl e
                           | Inr register \<Rightarrow>
                               Inr (RespReadRegister
                                 \<lparr>rr_chip_address = chip_address, rr_register = register\<rparr>))
                      | None \<Rightarrow> Inl (InvalidRegisterAddress register_address_repr)))
         | Some TypeNonce \<Rightarrow>
             (let nonce = u32_from_le (bytes ! 0, bytes ! 1, bytes ! 2, bytes ! 3);
                  excess_difficulty = bytes ! 4;
                  result_header = bytes ! 5;
                  version = \<lparr>gp_hi = bytes ! 6, gp_lo = bytes ! 7\<rparr>;
                  (job_id, subcore_id) = split_result_header model result_header
              in Inr (RespNonce
                   \<lparr>nr_nonce = nonce, nr_job_id = job_id, nr_excess_difficulty = excess_difficulty,
                    nr_version = version, nr_subcore_id = subcore_id\<rparr>))
         | None \<Rightarrow> Inl (InvalidResponseType type_repr))"

subsection \<open>The frame decoder\<close>

text \<open>
  One call of \<open>FrameCodec::decode\<close>: the buffer it leaves and the item it returns. It never
  returns an error.
\<close>

definition FRAME_LEN :: nat where
  "FRAME_LEN = 2 + 9"

definition frame_decode :: "ChipModel \<Rightarrow> bytes \<Rightarrow> bytes \<times> Response option" where
  "frame_decode model src =
     (if length src < FRAME_LEN then (src, None)
      else if src ! 0 \<noteq> 0xaa then (drop 1 src, None)
      else if src ! 1 \<noteq> 0x55 then (drop 1 src, None)
      else if \<not> crc5_is_valid (drop 2 (take FRAME_LEN src)) then (drop 1 src, None)
      else case Response_decode model (drop 2 (take FRAME_LEN src)) of
             Inr response \<Rightarrow> (drop FRAME_LEN src, Some response)
           | Inl err \<Rightarrow> (drop 1 src, None))"

text \<open>The chip's side: eight payload bytes closed by type and checksum, under the preamble.\<close>

definition response_frame :: "bytes \<Rightarrow> ResponseType \<Rightarrow> bytes" where
  "response_frame payload t = [0xaa, 0x55] @ payload @ [crc5_close payload (ResponseType_repr t)]"

lemma drop_bit_5_close [simp]: "drop_bit 5 (crc5_close data (ResponseType_repr t)) = ResponseType_repr t"
  by (cases t) (simp_all add: crc5_close_type take_bit_eq_mask mask_numeral)

text \<open>What one call consumes.\<close>

lemma frame_decode_rest:
  "frame_decode model src = (rest, None) \<Longrightarrow>
     rest = (if length src < FRAME_LEN then src else drop 1 src)"
  "frame_decode model src = (rest, Some r) \<Longrightarrow> FRAME_LEN \<le> length src \<and> rest = drop FRAME_LEN src"
  by (auto simp: frame_decode_def split: if_splits sum.splits)

lemma frame_decode_Some_iff:
  "frame_decode model src = (rest, Some r) \<longleftrightarrow>
     FRAME_LEN \<le> length src \<and> rest = drop FRAME_LEN src \<and> src ! 0 = 0xaa \<and> src ! 1 = 0x55 \<and>
     crc5_is_valid (drop 2 (take FRAME_LEN src)) \<and>
     Response_decode model (drop 2 (take FRAME_LEN src)) = Inr r"
  by (auto simp: frame_decode_def split: if_splits sum.splits)

lemma frame_decode_response_frame:
  assumes "length payload = 8"
    and "Response_decode model (payload @ [crc5_close payload (ResponseType_repr t)]) = Inr r"
  shows "frame_decode model (response_frame payload t @ rest) = (rest, Some r)"
  using assms
  by (simp add: frame_decode_Some_iff response_frame_def FRAME_LEN_def crc5_close_valid)

lemma length_response_frame: "length payload = 8 \<Longrightarrow> length (response_frame payload t) = FRAME_LEN"
  by (simp add: response_frame_def FRAME_LEN_def)

text \<open>A register reply: value, chip address, register address, two unused bytes.\<close>

definition register_payload :: "u8 \<Rightarrow> Register \<Rightarrow> u8 \<times> u8 \<Rightarrow> bytes" where
  "register_payload chip r unused =
     Register_encode r @ [chip, RegisterAddress_repr (Register_address r), fst unused, snd unused]"

lemma RegisterAddress_try_from_repr [simp]:
  "RegisterAddress_try_from (RegisterAddress_repr a) = Some a"
  by (simp add: RegisterAddress_try_from_Some_iff)

lemma Response_decode_register:
  assumes "wf_Register r"
  shows "Response_decode model (register_payload chip r u @ [crc5_close p (ResponseType_repr TypeReadRegister)]) =
    Inr (RespReadRegister \<lparr>rr_chip_address = chip, rr_register = r\<rparr>)"
proof -
  obtain bs where bs: "Register_encode r = bytes4_list bs"
    using reg.enc_bytes4 by blast
  obtain a b c d where "bs = (a, b, c, d)" by (cases bs)
  with bs have enc: "Register_encode r = [a, b, c, d]" and "Register_encode r = bytes4_list (a, b, c, d)"
    by simp_all
  then have "Register_decode (Register_address r) (a, b, c, d) = Inr r"
    using assms by (intro Register_decode_encode)
  then show ?thesis
    by (simp add: Response_decode_def register_payload_def enc
        drop_bit_5_close [of _ TypeReadRegister, simplified] ResponseType_try_from_def)
qed

text \<open>A nonce report: nonce, excess difficulty, result header, rolled version bits.\<close>

definition nonce_payload :: "u32 \<Rightarrow> u8 \<Rightarrow> u8 \<Rightarrow> GeneralPurposeBits \<Rightarrow> bytes" where
  "nonce_payload nonce excess header g = u32_to_le nonce @ [excess, header, gp_hi g, gp_lo g]"

lemma Response_decode_nonce:
  "Response_decode model (nonce_payload nonce excess header g @ [crc5_close p (ResponseType_repr TypeNonce)]) =
    Inr (RespNonce
      \<lparr>nr_nonce = nonce, nr_job_id = fst (split_result_header model header),
       nr_excess_difficulty = excess, nr_version = g,
       nr_subcore_id = snd (split_result_header model header)\<rparr>)"
  using drop_bit_5_close [of p TypeNonce]
  by (simp add: Response_decode_def nonce_payload_def ResponseType_try_from_def u32_to_le_def
      u32_from_le_def u32_from_be_to_be split: prod.splits)

text \<open>
  A frame with one flipped bit after the preamble is not accepted at its position: the call
  gives nothing and drops one byte.
\<close>

lemma frame_decode_flipped:
  assumes "crc5_is_valid (drop 2 (take FRAME_LEN src))" and "FRAME_LEN \<le> length src"
    and "2 \<le> i" and "i < FRAME_LEN" and "k < 8"
  shows "frame_decode model (src[i := flip_bit k (src ! i)]) = (drop 1 (src[i := flip_bit k (src ! i)]), None)"
proof -
  let ?d = "drop 2 (take FRAME_LEN src)"
  have i: "i - 2 < length ?d" using assms by simp
  have "Suc (Suc (i - 2)) = i" using assms by simp
  then have nth: "?d ! (i - 2) = src ! i" using assms by simp
  have "drop 2 (take FRAME_LEN (src[i := flip_bit k (src ! i)])) = ?d[i - 2 := flip_bit k (?d ! (i - 2))]"
    using assms nth by (simp add: take_update_swap drop_update_swap)
  also have "\<dots> = take (i - 2) ?d @ flip_bit k (?d ! (i - 2)) # drop (Suc (i - 2)) ?d"
    using i by (rule upd_conv_take_nth_drop)
  finally have upd: "drop 2 (take FRAME_LEN (src[i := flip_bit k (src ! i)])) =
      take (i - 2) ?d @ flip_bit k (?d ! (i - 2)) # drop (Suc (i - 2)) ?d" .
  have "crc5 (take (i - 2) ?d @ flip_bit k (?d ! (i - 2)) # drop (Suc (i - 2)) ?d) \<noteq> crc5 ?d"
    using crc5_flip_bit [OF \<open>k < 8\<close>, of "take (i - 2) ?d" "?d ! (i - 2)" "drop (Suc (i - 2)) ?d"]
      id_take_nth_drop [OF i] by metis
  then have "\<not> crc5_is_valid (drop 2 (take FRAME_LEN (src[i := flip_bit k (src ! i)])))"
    using assms(1) by (simp add: crc5_is_valid_def upd)
  then show ?thesis using assms(2) by (simp add: frame_decode_def)
qed

subsection \<open>Calling the decoder again\<close>

text \<open>
  The decoder is called by a library, which appends what has arrived to the buffer and calls again after
  a reply; after \<open>None\<close> it waits for more bytes. Nothing below depends on when it calls: the events are
  arrivals and calls in any order, and the state is the buffer with the replies that came out.
\<close>

datatype codec_event = Arrive bytes | Call

fun codec_step :: "ChipModel \<Rightarrow> codec_event \<Rightarrow> bytes \<times> Response list \<Rightarrow> bytes \<times> Response list" where
  "codec_step model (Arrive bs) (buf, out) = (buf @ bs, out)"
| "codec_step model Call (buf, out) =
     (case frame_decode model buf of (rest, None) \<Rightarrow> (rest, out) | (rest, Some r) \<Rightarrow> (rest, out @ [r]))"

definition codec_run :: "ChipModel \<Rightarrow> codec_event list \<Rightarrow> bytes \<times> Response list \<Rightarrow> bytes \<times> Response list" where
  "codec_run model events = fold (codec_step model) events"

definition arrived :: "codec_event list \<Rightarrow> bytes" where
  "arrived events = concat (map (\<lambda>e. case e of Arrive bs \<Rightarrow> bs | Call \<Rightarrow> []) events)"

text \<open>
  A specification of what is in a buffer: the replies that come out, and the bytes that are left, when
  calls go on until fewer bytes than a frame are left. Every call before consumes at least one.
\<close>

function decode_all :: "ChipModel \<Rightarrow> bytes \<Rightarrow> Response list \<times> bytes" where
  "decode_all model src =
     (if length src < FRAME_LEN then ([], src)
      else case frame_decode model src of
             (rest, None) \<Rightarrow> decode_all model rest
           | (rest, Some r) \<Rightarrow> (let (rs, left) = decode_all model rest in (r # rs, left)))"
  by pat_completeness auto
termination
proof (relation "measure (\<lambda>(_, src). length src)", goal_cases)
  case (2 model src rest item)
  then have "frame_decode model src = (rest, None)" by simp
  then have "rest = drop 1 src" using 2 frame_decode_rest(1) [of model src rest] by simp
  then show ?case using 2 by (simp add: FRAME_LEN_def)
next
  case (3 model src rest item r)
  then have "frame_decode model src = (rest, Some r)" by simp
  then have "rest = drop FRAME_LEN src" using frame_decode_rest(2) [of model src rest r] by simp
  then show ?case using 3 by (simp add: FRAME_LEN_def)
qed simp

declare decode_all.simps [simp del]

lemma decode_all_frame:
  assumes "length payload = 8"
    and "Response_decode model (payload @ [crc5_close payload (ResponseType_repr t)]) = Inr r"
  shows "decode_all model (response_frame payload t @ rest) =
    (r # fst (decode_all model rest), snd (decode_all model rest))"
  using length_response_frame [OF assms(1), of t]
  by (subst decode_all.simps) (simp add: frame_decode_response_frame [OF assms] split: prod.splits)

lemma frame_decode_skips:
  "b \<noteq> 0xaa \<Longrightarrow> FRAME_LEN \<le> length (b # src) \<Longrightarrow> frame_decode model (b # src) = (src, None)"
  by (simp add: frame_decode_def)

lemma decode_all_skips_noise:
  "0xaa \<notin> set noise \<Longrightarrow> FRAME_LEN \<le> length src \<Longrightarrow>
   decode_all model (noise @ src) = decode_all model src"
proof (induction noise)
  case Nil
  then show ?case by simp
next
  case (Cons b noise)
  then show ?case
    by (subst decode_all.simps) (auto simp: frame_decode_skips FRAME_LEN_def)
qed

text \<open>A stream of register replies with noise in between.\<close>

lemma decode_all_noisy_registers:
  assumes "\<forall>(noise, chip, r, u) \<in> set xs. 0xaa \<notin> set noise \<and> wf_Register r"
  shows "decode_all model (concat (map (\<lambda>(noise, chip, r, u).
       noise @ response_frame (register_payload chip r u) TypeReadRegister) xs)) =
     (map (\<lambda>(noise, chip, r, u). RespReadRegister \<lparr>rr_chip_address = chip, rr_register = r\<rparr>) xs, [])"
  using assms
proof (induction xs)
  case Nil
  then show ?case by (subst decode_all.simps) (simp add: FRAME_LEN_def)
next
  case (Cons x xs)
  obtain noise chip r u where x: "x = (noise, chip, r, u)" by (cases x)
  have len: "length (register_payload chip r u) = 8" by (simp add: register_payload_def)
  have dec: "Response_decode model (register_payload chip r u @
      [crc5_close (register_payload chip r u) (ResponseType_repr TypeReadRegister)]) =
    Inr (RespReadRegister \<lparr>rr_chip_address = chip, rr_register = r\<rparr>)"
    using Cons.prems x by (intro Response_decode_register) simp
  show ?case
    using Cons x decode_all_frame [OF len dec] length_response_frame [OF len, of TypeReadRegister]
    by (simp add: decode_all_skips_noise)
qed

text \<open>However arrivals and calls alternate, what came out and what is still to come make up the stream's replies.\<close>

lemma frame_decode_append:
  assumes "FRAME_LEN \<le> length buf"
  shows "frame_decode model (buf @ future) = (fst (frame_decode model buf) @ future, snd (frame_decode model buf))"
proof -
  have "buf \<noteq> []" "Suc 0 < length buf" using assms by (auto simp: FRAME_LEN_def)
  then show ?thesis
    using assms by (auto simp: frame_decode_def nth_append split: sum.split)
qed

lemma decode_all_call:
  assumes "frame_decode model buf = (rest, item)"
  shows "decode_all model (buf @ future) =
    (case item of None \<Rightarrow> decode_all model (rest @ future)
     | Some r \<Rightarrow> (r # fst (decode_all model (rest @ future)), snd (decode_all model (rest @ future))))"
proof (cases "length buf < FRAME_LEN")
  case True
  then show ?thesis using assms by (auto simp: frame_decode_def)
next
  case False
  then show ?thesis
    using assms frame_decode_append [of buf model future]
    by (subst decode_all.simps) (auto split: option.splits prod.splits)
qed

lemma codec_run_conserves:
  assumes "codec_run model events ([], []) = (buf, out)"
  shows "decode_all model (arrived events @ future) =
    (out @ fst (decode_all model (buf @ future)), snd (decode_all model (buf @ future)))"
  using assms
proof (induction events arbitrary: buf out future rule: rev_induct)
  case Nil
  then show ?case by (simp add: codec_run_def arrived_def)
next
  case (snoc e events)
  obtain buf' out' where before: "codec_run model events ([], []) = (buf', out')" by fastforce
  note IH = snoc.IH [OF before]
  show ?case
  proof (cases e)
    case (Arrive bs)
    then have "buf = buf' @ bs" "out = out'" using snoc.prems before by (simp_all add: codec_run_def)
    then show ?thesis using Arrive IH [of "bs @ future"] by (simp add: arrived_def)
  next
    case Call
    obtain rest item where d: "frame_decode model buf' = (rest, item)" by fastforce
    show ?thesis
      using snoc.prems before Call IH [of future] decode_all_call [OF d, of future] d
      by (cases item) (simp_all add: codec_run_def arrived_def)
  qed
qed

lemma calls_finish:
  "length buf \<le> n \<Longrightarrow> codec_run model (replicate n Call) (buf, out) = (snd (decode_all model buf), out @ fst (decode_all model buf))"
proof (induction n arbitrary: buf out)
  case 0
  then show ?case by (subst (1 2) decode_all.simps) (simp add: codec_run_def FRAME_LEN_def)
next
  case (Suc n)
  obtain rest item where d: "frame_decode model buf = (rest, item)" by fastforce
  have step: "codec_run model (replicate (Suc n) Call) (buf, out) =
      codec_run model (replicate n Call) (rest, out @ (case item of None \<Rightarrow> [] | Some r \<Rightarrow> [r]))"
    using d by (cases item) (simp_all add: codec_run_def)
  show ?case
  proof (cases "length buf < FRAME_LEN")
    case True
    have short: "decode_all model buf = ([], buf)" using True by (subst decode_all.simps) simp
    have idle: "codec_run model (replicate m Call) (buf, out) = (buf, out)" for m
      using True by (induction m) (simp_all add: codec_run_def frame_decode_def)
    show ?thesis using idle [of "Suc n"] by (simp add: short)
  next
    case False
    then have "length rest \<le> n"
      using Suc.prems frame_decode_rest [of model buf rest] d by (cases item) (auto simp: FRAME_LEN_def)
    then show ?thesis
      unfolding step using Suc.IH decode_all_call [OF d, of "[]"] by (cases item) simp_all
  qed
qed

text \<open>Register replies, each behind its noise.\<close>

type_synonym noisy_reply = "bytes \<times> u8 \<times> Register \<times> (u8 \<times> u8)"

definition noisy_stream :: "noisy_reply list \<Rightarrow> bytes" where
  "noisy_stream xs = concat (map (\<lambda>(noise, chip, r, u).
     noise @ response_frame (register_payload chip r u) TypeReadRegister) xs)"

definition noisy_replies :: "noisy_reply list \<Rightarrow> Response list" where
  "noisy_replies xs = map (\<lambda>(noise, chip, r, u). RespReadRegister \<lparr>rr_chip_address = chip, rr_register = r\<rparr>) xs"

lemma noisy_run:
  assumes noise: "\<forall>(noise, chip, r, u) \<in> set xs. 0xaa \<notin> set noise \<and> wf_Register r"
    and run: "codec_run model events ([], []) = (buf, out)" and stream: "arrived events @ future = noisy_stream xs"
  shows "out = take (length out) (noisy_replies xs)"
    and "future = [] \<Longrightarrow> codec_run model (replicate (length buf) Call) (buf, out) = ([], noisy_replies xs)"
proof -
  have all: "decode_all model (noisy_stream xs) = (noisy_replies xs, [])"
    using decode_all_noisy_registers [OF noise] by (simp add: noisy_stream_def noisy_replies_def)
  note split = codec_run_conserves [OF run, of future, unfolded stream all]
  from split have "noisy_replies xs = out @ fst (decode_all model (buf @ future))" by simp
  then show "out = take (length out) (noisy_replies xs)" by simp
  show "codec_run model (replicate (length buf) Call) (buf, out) = ([], noisy_replies xs)" if "future = []"
    using split that by (simp add: calls_finish)
qed

text \<open>Without noise no call is wasted: whenever a whole frame has arrived, a call yields its reply.\<close>

lemma quiet_run:
  assumes "\<forall>(noise, chip, r, u) \<in> set xs. noise = [] \<and> wf_Register r"
    and "codec_run model events ([], []) = (buf, out)" and "arrived events @ future = noisy_stream xs"
  shows "buf @ future = noisy_stream (drop (length out) xs)"
    and "FRAME_LEN \<le> length buf \<Longrightarrow> snd (frame_decode model buf) \<noteq> None"
proof -
  have first: "frame_decode model buf = (drop FRAME_LEN buf, Some (hd (noisy_replies ys))) \<and>
      drop FRAME_LEN buf @ f = noisy_stream (tl ys)"
    if ys: "set ys \<subseteq> set xs" "buf @ f = noisy_stream ys" and long: "FRAME_LEN \<le> length buf" for buf f ys
  proof -
    have "ys \<noteq> []" using ys(2) long by (cases ys) (simp_all add: noisy_stream_def FRAME_LEN_def)
    then obtain noise chip r u zs where y: "ys = (noise, chip, r, u) # zs" by (metis list.exhaust prod_cases4)
    then have wf: "noise = []" "wf_Register r" using ys(1) assms(1) by auto
    let ?p = "register_payload chip r u"
    have len: "length ?p = 8" by (simp add: register_payload_def)
    have eq: "buf @ f = response_frame ?p TypeReadRegister @ noisy_stream zs"
      using ys(2) by (simp add: y wf noisy_stream_def)
    have "frame_decode model (buf @ f) = (noisy_stream zs, Some (hd (noisy_replies ys)))"
      unfolding eq using frame_decode_response_frame [OF len Response_decode_register [OF wf(2)]]
      by (simp add: y noisy_replies_def)
    then have "fst (frame_decode model buf) @ f = noisy_stream zs" "snd (frame_decode model buf) = Some (hd (noisy_replies ys))"
      using frame_decode_append [OF long, of model f] by simp_all
    moreover have "fst (frame_decode model buf) = drop FRAME_LEN buf"
      using frame_decode_rest(2) [of model buf] calculation(2) by (metis prod.collapse)
    ultimately show ?thesis by (simp add: y prod_eq_iff)
  qed
  have sub: "set (drop k xs) \<subseteq> set xs" for k by (rule set_drop_subset)
  show eq: "buf @ future = noisy_stream (drop (length out) xs)"
    using assms(2,3)
  proof (induction events arbitrary: buf out future rule: rev_induct)
    case Nil
    then show ?case by (simp add: codec_run_def arrived_def)
  next
    case (snoc e events)
    obtain buf' out' where before: "codec_run model events ([], []) = (buf', out')" by fastforce
    show ?case
    proof (cases e)
      case (Arrive bs)
      then have "buf = buf' @ bs" "out = out'" using snoc.prems(1) before by (simp_all add: codec_run_def)
      then show ?thesis using snoc.IH [OF before, of "bs @ future"] snoc.prems(2) Arrive by (simp add: arrived_def)
    next
      case Call
      then have IH: "buf' @ future = noisy_stream (drop (length out') xs)"
        using snoc.IH [OF before, of future] snoc.prems(2) by (simp add: arrived_def)
      show ?thesis
      proof (cases "length buf' < FRAME_LEN")
        case True
        then show ?thesis using snoc.prems(1) before Call IH by (simp add: codec_run_def frame_decode_def)
      next
        case False
        then show ?thesis
          using snoc.prems(1) before Call first [OF sub IH] by (auto simp: codec_run_def drop_Suc [symmetric] drop_tl tl_drop)
      qed
    qed
  qed
  show "FRAME_LEN \<le> length buf \<Longrightarrow> snd (frame_decode model buf) \<noteq> None"
    using first [OF sub eq] by simp
qed

text \<open>With noise a call is wasted: one stray byte before a whole frame, and the call yields nothing.\<close>

lemma stray_byte_delays:
  assumes "b \<noteq> 0xaa" "length payload = 8"
  shows "codec_run model [Arrive (b # response_frame payload t), Call] ([], []) = (response_frame payload t, [])"
  using assms length_response_frame [OF assms(2), of t] by (simp add: codec_run_def frame_decode_skips)

text \<open>No call ever loses or invents bytes: what is left is a suffix of the buffer.\<close>

lemma decode_all_suffix:
  "decode_all model src = (rs, left) \<Longrightarrow> \<exists>n. left = drop n src \<and> FRAME_LEN * length rs \<le> n"
proof (induction model src arbitrary: rs left rule: decode_all.induct)
  case (1 model src)
  show ?case
  proof (cases "length src < FRAME_LEN")
    case True
    with 1(3) show ?thesis by (auto simp: decode_all.simps [of model src] intro: exI [of _ 0])
  next
    case False
    obtain rest item where fd: "frame_decode model src = (rest, item)" by (cases "frame_decode model src")
    show ?thesis
    proof (cases item)
      case None
      with 1(3) False fd have "decode_all model rest = (rs, left)"
        by (simp add: decode_all.simps [of model src])
      with 1(1) [OF False fd [symmetric] None]
      obtain n where "left = drop n rest" "FRAME_LEN * length rs \<le> n" by blast
      moreover have "rest = drop 1 src" using frame_decode_rest(1) [of model src rest] fd None False by simp
      ultimately show ?thesis by (auto intro!: exI [of _ "n + 1"])
    next
      case (Some r)
      with 1(3) False fd obtain rs' where "decode_all model rest = (rs', left)" and "rs = r # rs'"
        by (auto simp: decode_all.simps [of model src] split: prod.splits)
      with 1(2) [OF False fd [symmetric] Some]
      obtain n where "left = drop n rest" "FRAME_LEN * length rs' \<le> n" by blast
      moreover have "rest = drop FRAME_LEN src" using frame_decode_rest(2) [of model src rest r] fd Some by simp
      ultimately show ?thesis using \<open>rs = r # rs'\<close> by (auto intro!: exI [of _ "n + FRAME_LEN"])
    qed
  qed
qed

subsection \<open>The fields of a nonce\<close>

definition swap_bytes :: "u32 \<Rightarrow> u32" where
  "swap_bytes w = u32_from_le (ucast (drop_bit 24 w), ucast (drop_bit 16 w), ucast (drop_bit 8 w), ucast w)"

datatype NonceFields =
  FieldsBM1362 u8 u8 u32   \<comment> \<open>core id, chip address, counter\<close>
| FieldsBM1370 u8 u32      \<comment> \<open>core id, counter\<close>

definition NonceFields_from_nonce :: "ChipModel \<Rightarrow> u32 \<Rightarrow> NonceFields" where
  "NonceFields_from_nonce model nonce =
     (let value = swap_bytes nonce;
          core_id = ucast (drop_bit 25 value)
      in case model of
           BM1370 \<Rightarrow> FieldsBM1370 core_id (value AND 0x1ffffff)
         | _ \<Rightarrow> FieldsBM1362 core_id (ucast (drop_bit 18 value AND 0x7f) * 2) (value AND 0x3ffff))"

definition decompose :: "NonceResponse \<Rightarrow> ChipModel \<Rightarrow> NonceFields" where
  "decompose r model = NonceFields_from_nonce model (nr_nonce r)"

text \<open>The packing the chip performs, inverse to \<open>from_nonce\<close>.\<close>

fun pack_nonce :: "NonceFields \<Rightarrow> u32" where
  "pack_nonce (FieldsBM1362 core chip counter) =
     swap_bytes (push_bit 25 (ucast core) OR push_bit 18 (ucast (drop_bit 1 chip)) OR counter)"
| "pack_nonce (FieldsBM1370 core counter) = swap_bytes (push_bit 25 (ucast core) OR counter)"

lemma swap_bytes_involution [simp]: "swap_bytes (swap_bytes w) = w"
  by (simp add: swap_bytes_def u32_from_le_def u32_from_be_ucasts u32_from_be_to_be)

lemma pack_from_nonce: "pack_nonce (NonceFields_from_nonce model nonce) = nonce"
proof -
  let ?v = "swap_bytes nonce"
  have two: "push_bit 25 (ucast (ucast (drop_bit 25 ?v) :: u8)) OR
      push_bit 18 (ucast (drop_bit 1 ((ucast (drop_bit 18 ?v AND 0x7f) :: u8) * 2))) OR (?v AND 0x3ffff) = ?v"
    by (rule word32_bitsI; simp add: bit_simps bit_times_two)
  have one: "push_bit 25 (ucast (ucast (drop_bit 25 ?v) :: u8)) OR (?v AND 0x1ffffff) = ?v"
    by (rule word32_bitsI; simp add: bit_simps)
  show ?thesis
    using one two by (cases model) (simp_all add: NonceFields_from_nonce_def Let_def)
qed

text \<open>The chip address restored from the nonce is always even.\<close>

lemma from_nonce_even_address:
  "NonceFields_from_nonce model nonce = FieldsBM1362 core chip counter \<Longrightarrow> even chip"
  by (cases model) (auto simp: NonceFields_from_nonce_def Let_def)

end
