(* ===== verification/Extranonces.thy ===== *)
theory Extranonces
  imports Prelude
begin

text \<open>
  Extranonce slots and ranges, \<open>mujina-miner/src/job_source/extranonce.rs\<close>. The counter is a
  \<open>u64\<close>, the width a \<open>u8\<close>; lengths are \<open>u128\<close> in the code and never reach 2 ^ 128, so they are
  \<open>nat\<close> here, and \<open>usize\<close> arguments are \<open>nat\<close> too. The lemmas show that \<open>split\<close> partitions a
  range exactly, that the parts differ by at most one in length, that the iterator walks a
  range once in both directions, and that the bytes of a slot determine the extranonce.
\<close>

subsection \<open>Types and constructors\<close>

definition COUNTER_WIDTH :: nat where
  "COUNTER_WIDTH = 8"

definition MAX_WIDTH :: nat where
  "MAX_WIDTH = 32"

record Extranonce =
  en_counter :: u64
  en_width :: u8

datatype ExtranonceError = InvalidWidth nat | BeyondCounter

definition check_width :: "nat \<Rightarrow> ExtranonceError + u8" where
  "check_width width =
     (if 1 \<le> width \<and> width \<le> MAX_WIDTH then Inr (of_nat width) else Inl (InvalidWidth width))"

definition max_counter :: "u8 \<Rightarrow> u64" where
  "max_counter width =
     (let bits = unat width * 8
      in if bits \<ge> 64 then 0xffffffffffffffff else push_bit bits 1 - 1)"

text \<open>\<open>u64::from_be_bytes\<close> and \<open>to_be_bytes\<close> over eight bytes.\<close>

definition u64_from_be :: "bytes \<Rightarrow> u64" where
  "u64_from_be bs = fold (\<lambda>b acc. push_bit 8 acc OR ucast b) bs 0"

definition u64_to_be :: "u64 \<Rightarrow> bytes" where
  "u64_to_be w = map (\<lambda>i. ucast (drop_bit (8 * i) w)) [7, 6, 5, 4, 3, 2, 1, 0]"

definition Extranonce_from_bytes :: "bytes \<Rightarrow> ExtranonceError + Extranonce" where
  "Extranonce_from_bytes bytes =
     (case check_width (length bytes) of
        Inl e \<Rightarrow> Inl e
      | Inr width \<Rightarrow>
          (let padding = take (length bytes - COUNTER_WIDTH) bytes;
               tail = drop (length bytes - COUNTER_WIDTH) bytes
           in if list_ex (\<lambda>b. b \<noteq> 0) padding then Inl BeyondCounter
              else Inr \<lparr>en_counter =
                u64_from_be (replicate (COUNTER_WIDTH - length tail) 0 @ tail), en_width = width\<rparr>))"

text \<open>\<open>bytes\<close>: zeros left of the counter, then its low bytes, most significant first.\<close>

definition Extranonce_bytes :: "Extranonce \<Rightarrow> bytes" where
  "Extranonce_bytes e =
     (let counter_bytes = min (unat (en_width e)) COUNTER_WIDTH;
          padding = unat (en_width e) - counter_bytes;
          counter = u64_to_be (en_counter e)
      in replicate padding 0 @ drop (COUNTER_WIDTH - counter_bytes) counter)"

definition extend_vec :: "Extranonce \<Rightarrow> bytes \<Rightarrow> bytes" where
  "extend_vec e vec = vec @ Extranonce_bytes e"

record ExtranonceRange =
  er_first :: u64
  er_last :: u64
  er_width :: u8

definition ExtranonceRange_full :: "nat \<Rightarrow> ExtranonceError + ExtranonceRange" where
  "ExtranonceRange_full width =
     (case check_width width of
        Inl e \<Rightarrow> Inl e
      | Inr width \<Rightarrow> Inr \<lparr>er_first = 0, er_last = max_counter width, er_width = width\<rparr>)"

definition starting_at :: "Extranonce \<Rightarrow> ExtranonceRange" where
  "starting_at first =
     \<lparr>er_first = en_counter first, er_last = max_counter (en_width first), er_width = en_width first\<rparr>"

text \<open>\<open>len\<close>: the \<open>u64\<close> difference, widened, plus one.\<close>

definition range_len :: "ExtranonceRange \<Rightarrow> nat" where
  "range_len r = unat (er_last r - er_first r) + 1"

definition range_start :: "ExtranonceRange \<Rightarrow> Extranonce" where
  "range_start r = \<lparr>en_counter = er_first r, en_width = er_width r\<rparr>"

text \<open>
  The loop of \<open>split\<close>: part \<open>i\<close> of \<open>parts\<close> starts at \<open>first\<close>. Span and successor are computed
  in \<open>u64\<close>; the successor wraps after the final part, where it is unused.
\<close>

fun split_loop :: "nat \<Rightarrow> nat \<Rightarrow> nat \<Rightarrow> u8 \<Rightarrow> nat list \<Rightarrow> u64 \<Rightarrow> ExtranonceRange list" where
  "split_loop base extra parts width [] first = []"
| "split_loop base extra parts width (i # is) first =
     (let span = of_nat (base + (if i < extra then 1 else 0) - 1);
          last = first + span
      in \<lparr>er_first = first, er_last = last, er_width = width\<rparr> #
         split_loop base extra parts width is (last + 1))"

definition split_range :: "ExtranonceRange \<Rightarrow> nat \<Rightarrow> ExtranonceRange list option" where
  "split_range r n =
     (let parts = n
      in if parts = 0 \<or> parts > range_len r then None
         else (let base = range_len r div parts; extra = range_len r mod parts
               in Some (split_loop base extra parts (er_width r) [0..<parts] (er_first r))))"

subsection \<open>The iterator\<close>

record ExtranonceIter =
  it_next :: "u64 option"
  it_last :: u64
  it_width :: u8

definition range_iter :: "ExtranonceRange \<Rightarrow> ExtranonceIter" where
  "range_iter r = \<lparr>it_next = Some (er_first r), it_last = er_last r, it_width = er_width r\<rparr>"

definition iter_extranonce :: "ExtranonceIter \<Rightarrow> u64 \<Rightarrow> Extranonce" where
  "iter_extranonce it counter = \<lparr>en_counter = counter, en_width = it_width it\<rparr>"

definition iter_remaining :: "ExtranonceIter \<Rightarrow> nat" where
  "iter_remaining it =
     (case it_next it of None \<Rightarrow> 0 | Some next \<Rightarrow> unat (it_last it - next) + 1)"

definition iter_next :: "ExtranonceIter \<Rightarrow> Extranonce option \<times> ExtranonceIter" where
  "iter_next it =
     (case it_next it of
        None \<Rightarrow> (None, it)
      | Some counter \<Rightarrow>
          (Some (iter_extranonce it counter),
           it\<lparr>it_next := (if counter < it_last it then Some (counter + 1) else None)\<rparr>))"

text \<open>\<open>usize\<close> is 64 bits wide; \<open>count\<close> panics, here \<open>None\<close>, when it cannot hold the count.\<close>

definition usize_try_from :: "nat \<Rightarrow> nat option" where
  "usize_try_from n = (if n < 2 ^ 64 then Some n else None)"

definition iter_size_hint :: "ExtranonceIter \<Rightarrow> nat \<times> nat option" where
  "iter_size_hint it =
     (let exact = usize_try_from (iter_remaining it)
      in (case exact of Some n \<Rightarrow> n | None \<Rightarrow> 2 ^ 64 - 1, exact))"

definition iter_count :: "ExtranonceIter \<Rightarrow> nat option" where
  "iter_count it = usize_try_from (iter_remaining it)"

text \<open>\<open>nth\<close>: \<open>checked_add\<close> refuses a sum past 2 ^ 64; the filter refuses one past the end.\<close>

definition checked_add :: "u64 \<Rightarrow> nat \<Rightarrow> u64 option" where
  "checked_add a n = (if unat a + n < 2 ^ 64 then Some (a + of_nat n) else None)"

definition checked_sub :: "u64 \<Rightarrow> nat \<Rightarrow> u64 option" where
  "checked_sub a n = (if n \<le> unat a then Some (a - of_nat n) else None)"

definition iter_nth :: "nat \<Rightarrow> ExtranonceIter \<Rightarrow> Extranonce option \<times> ExtranonceIter" where
  "iter_nth n it =
     (case it_next it of
        None \<Rightarrow> (None, it)
      | Some next \<Rightarrow>
          (case checked_add next n of
             Some counter \<Rightarrow>
               (if counter \<le> it_last it then iter_next (it\<lparr>it_next := Some counter\<rparr>)
                else (None, it\<lparr>it_next := None\<rparr>))
           | None \<Rightarrow> (None, it\<lparr>it_next := None\<rparr>)))"

definition iter_last :: "ExtranonceIter \<Rightarrow> Extranonce option" where
  "iter_last it = map_option (\<lambda>_. iter_extranonce it (it_last it)) (it_next it)"

definition iter_next_back :: "ExtranonceIter \<Rightarrow> Extranonce option \<times> ExtranonceIter" where
  "iter_next_back it =
     (case it_next it of
        None \<Rightarrow> (None, it)
      | Some next \<Rightarrow>
          (let counter = it_last it
           in (Some (iter_extranonce it counter),
               if counter = next then it\<lparr>it_next := None\<rparr> else it\<lparr>it_last := it_last it - 1\<rparr>)))"

definition iter_nth_back :: "nat \<Rightarrow> ExtranonceIter \<Rightarrow> Extranonce option \<times> ExtranonceIter" where
  "iter_nth_back n it =
     (case it_next it of
        None \<Rightarrow> (None, it)
      | Some next \<Rightarrow>
          (case checked_sub (it_last it) n of
             Some counter \<Rightarrow>
               (if counter \<ge> next then iter_next_back (it\<lparr>it_last := counter\<rparr>)
                else (None, it\<lparr>it_next := None\<rparr>))
           | None \<Rightarrow> (None, it\<lparr>it_next := None\<rparr>)))"

subsection \<open>Arithmetic of the counter\<close>

lemma unat_span: "a \<le> b \<Longrightarrow> unat (b - a :: u64) = unat b - unat a"
  by (rule unat_sub)

lemma unat_u64_less: "unat (a :: u64) < 2 ^ 64"
  using unsigned_less [of a] by simp

lemma unat_add_bounded: "unat a + n < 2 ^ 64 \<Longrightarrow> unat (a + of_nat n :: u64) = unat a + n"
  by (simp add: unat_word_ariths unat_of_nat)

lemma unat_succ: "a < b \<Longrightarrow> unat (a + 1 :: u64) = Suc (unat a)"
  using unat_add_bounded [of a 1] unat_u64_less [of b] by (simp add: word_less_nat_alt)

subsection \<open>The iterator walks its counters\<close>

text \<open>The counters still to come, and the invariant that the next is not past the last.\<close>

definition iter_inv :: "ExtranonceIter \<Rightarrow> bool" where
  "iter_inv it \<longleftrightarrow> (\<forall>n. it_next it = Some n \<longrightarrow> n \<le> it_last it)"

definition iter_counters :: "ExtranonceIter \<Rightarrow> nat list" where
  "iter_counters it =
     (case it_next it of None \<Rightarrow> [] | Some n \<Rightarrow> [unat n..<Suc (unat (it_last it))])"

definition iter_abs :: "ExtranonceIter \<Rightarrow> Extranonce list" where
  "iter_abs it = map (\<lambda>c. iter_extranonce it (of_nat c)) (iter_counters it)"

lemma iter_extranonce_cong [simp]:
  "iter_extranonce (it\<lparr>it_next := a\<rparr>) = iter_extranonce it"
  "iter_extranonce (it\<lparr>it_last := b\<rparr>) = iter_extranonce it"
  by (simp_all add: iter_extranonce_def fun_eq_iff)

text \<open>
  The interface of a double-ended iterator: each operation removes elements from one end of
  the list it stands for.
\<close>

locale double_ended_iterator =
  fixes next_op :: "'s \<Rightarrow> 'a option \<times> 's"
    and back_op :: "'s \<Rightarrow> 'a option \<times> 's"
    and elems :: "'s \<Rightarrow> 'a list"
    and inv :: "'s \<Rightarrow> bool"
  assumes next_empty: "inv s \<Longrightarrow> elems s = [] \<Longrightarrow> fst (next_op s) = None"
    and next_some: "inv s \<Longrightarrow> elems s = x # xs \<Longrightarrow>
      \<exists>s'. next_op s = (Some x, s') \<and> elems s' = xs \<and> inv s'"
    and back_some: "inv s \<Longrightarrow> elems s = xs @ [x] \<Longrightarrow>
      \<exists>s'. back_op s = (Some x, s') \<and> elems s' = xs \<and> inv s'"
begin

text \<open>Calling \<open>next\<close> \<open>k\<close> times yields the first \<open>k\<close> elements.\<close>

primrec take_front :: "nat \<Rightarrow> 's \<Rightarrow> 'a list \<times> 's" where
  "take_front 0 s = ([], s)"
| "take_front (Suc k) s =
     (case next_op s of
        (None, s') \<Rightarrow> ([], s')
      | (Some x, s') \<Rightarrow> (let (xs, t) = take_front k s' in (x # xs, t)))"

lemma take_front_elems:
  "inv s \<Longrightarrow> k \<le> length (elems s) \<Longrightarrow>
   fst (take_front k s) = take k (elems s) \<and> elems (snd (take_front k s)) = drop k (elems s) \<and>
   inv (snd (take_front k s))"
proof (induction k arbitrary: s)
  case 0
  then show ?case by simp
next
  case (Suc k)
  then obtain x xs where xs: "elems s = x # xs" by (cases "elems s") auto
  with Suc.prems next_some obtain s' where s': "next_op s = (Some x, s')" "elems s' = xs" "inv s'"
    by blast
  with Suc.IH [of s'] Suc.prems xs show ?case by (auto split: prod.splits)
qed

lemma take_front_all: "inv s \<Longrightarrow> fst (take_front (length (elems s)) s) = elems s"
  by (simp add: take_front_elems)

text \<open>The two ends do not interfere: after \<open>next\<close>, \<open>next_back\<close> still takes the old last element.\<close>

lemma next_then_back:
  assumes "inv s" and "elems s = x # ys @ [z]"
  shows "\<exists>s' s''. next_op s = (Some x, s') \<and> back_op s' = (Some z, s'') \<and> elems s'' = ys \<and> inv s''"
proof -
  obtain s' where s': "next_op s = (Some x, s')" "elems s' = ys @ [z]" "inv s'"
    using next_some [OF assms] by blast
  with back_some show ?thesis by blast
qed

end

lemma iter_next_Some:
  assumes "iter_inv it" and "it_next it = Some n"
  shows "iter_counters (snd (iter_next it)) = tl (iter_counters it)"
    and "fst (iter_next it) = Some (hd (iter_abs it))"
    and "iter_inv (snd (iter_next it))"
proof -
  from assms have le: "n \<le> it_last it" by (simp add: iter_inv_def)
  then have ule: "unat n \<le> unat (it_last it)" by (simp add: word_le_nat_alt)
  have succ: "n < it_last it \<Longrightarrow> unat (n + 1) = Suc (unat n)" by (rule unat_succ)
  have eq: "\<not> n < it_last it \<Longrightarrow> n = it_last it" using le by simp
  show "iter_counters (snd (iter_next it)) = tl (iter_counters it)"
    using assms ule succ eq by (auto simp: iter_next_def iter_counters_def upt_rec)
  show "fst (iter_next it) = Some (hd (iter_abs it))"
    using assms ule by (simp add: iter_next_def iter_abs_def iter_counters_def upt_rec del: upt_Suc)
  show "iter_inv (snd (iter_next it))"
    using assms succ by (auto simp: iter_next_def iter_inv_def word_le_nat_alt word_less_nat_alt)
qed

lemma iter_back_Some:
  assumes "iter_inv it" and "it_next it = Some n"
  shows "iter_counters (snd (iter_next_back it)) = butlast (iter_counters it)"
    and "fst (iter_next_back it) = Some (last (iter_abs it))"
    and "iter_inv (snd (iter_next_back it))"
proof -
  from assms have le: "n \<le> it_last it" by (simp add: iter_inv_def)
  then have ule: "unat n \<le> unat (it_last it)" by (simp add: word_le_nat_alt)
  have less: "unat n < unat (it_last it)" if "it_last it \<noteq> n"
    using that le by (metis order_less_le word_less_nat_alt)
  have pred: "unat (it_last it - 1) = unat (it_last it) - 1" if "it_last it \<noteq> n"
    using less [OF that] by (intro unat_minus_one) auto
  show "iter_counters (snd (iter_next_back it)) = butlast (iter_counters it)"
    using assms ule pred less
    by (cases "unat (it_last it)") (auto simp: iter_next_back_def iter_counters_def Let_def)
  show "fst (iter_next_back it) = Some (last (iter_abs it))"
    using assms ule by (simp add: iter_next_back_def iter_abs_def iter_counters_def Let_def)
  show "iter_inv (snd (iter_next_back it))"
    using assms pred less by (auto simp: iter_next_back_def iter_inv_def Let_def word_le_nat_alt)
qed

lemma iter_abs_empty_iff: "iter_inv it \<Longrightarrow> iter_abs it = [] \<longleftrightarrow> it_next it = None"
  by (auto simp: iter_abs_def iter_counters_def iter_inv_def word_le_nat_alt split: option.splits)

lemma iter_next_same [simp]: "iter_extranonce (snd (iter_next it)) = iter_extranonce it"
  by (simp add: iter_next_def iter_extranonce_def fun_eq_iff split: option.splits)

lemma iter_back_same [simp]: "iter_extranonce (snd (iter_next_back it)) = iter_extranonce it"
  by (simp add: iter_next_back_def iter_extranonce_def Let_def fun_eq_iff split: option.splits)

interpretation extranonces: double_ended_iterator iter_next iter_next_back iter_abs iter_inv
proof
  fix it :: ExtranonceIter and x xs
  assume inv: "iter_inv it"
  show "fst (iter_next it) = None" if "iter_abs it = []"
    using that inv by (simp add: iter_abs_empty_iff iter_next_def)
  show "\<exists>s'. iter_next it = (Some x, s') \<and> iter_abs s' = xs \<and> iter_inv s'" if ab: "iter_abs it = x # xs"
  proof -
    from ab inv obtain n where n: "it_next it = Some n"
      using iter_abs_empty_iff by fastforce
    have "fst (iter_next it) = Some x"
      using iter_next_Some(2) [OF inv n] ab by simp
    moreover have "iter_abs (snd (iter_next it)) = xs"
      using iter_next_Some(1) [OF inv n] ab by (simp add: iter_abs_def map_tl)
    ultimately show ?thesis
      using iter_next_Some(3) [OF inv n] by (metis prod.collapse)
  qed
  show "\<exists>s'. iter_next_back it = (Some x, s') \<and> iter_abs s' = xs \<and> iter_inv s'" if ab: "iter_abs it = xs @ [x]"
  proof -
    from ab inv obtain n where n: "it_next it = Some n"
      using iter_abs_empty_iff by fastforce
    have "fst (iter_next_back it) = Some x"
      using iter_back_Some(2) [OF inv n] ab by simp
    moreover have "iter_abs (snd (iter_next_back it)) = xs"
      using iter_back_Some(1) [OF inv n] ab by (simp add: iter_abs_def map_butlast)
    ultimately show ?thesis
      using iter_back_Some(3) [OF inv n] by (metis prod.collapse)
  qed
qed

text \<open>\<open>remaining\<close>, \<open>nth\<close>, \<open>nth_back\<close> and \<open>last\<close> answer what stepping through would.\<close>

lemma iter_remaining_length: "iter_inv it \<Longrightarrow> iter_remaining it = length (iter_abs it)"
  by (auto simp: iter_remaining_def iter_abs_def iter_counters_def iter_inv_def unat_span
      word_le_nat_alt split: option.splits)

lemma iter_last_abs: "iter_inv it \<Longrightarrow> iter_last it = (if iter_abs it = [] then None else Some (last (iter_abs it)))"
  by (auto simp: iter_last_def iter_abs_def iter_counters_def iter_inv_def word_le_nat_alt
      split: option.splits)

lemma iter_nth_abs:
  assumes inv: "iter_inv it"
  shows "fst (iter_nth k it) = (if k < length (iter_abs it) then Some (iter_abs it ! k) else None)"
    and "iter_abs (snd (iter_nth k it)) = drop (Suc k) (iter_abs it)"
    and "iter_inv (snd (iter_nth k it))"
proof -
  consider (empty) "it_next it = None"
    | (out) n where "it_next it = Some n" "\<not> unat n + k \<le> unat (it_last it)"
    | (found) n where "it_next it = Some n" "unat n + k \<le> unat (it_last it)"
    by (cases "it_next it") auto
  then have all: "fst (iter_nth k it) = (if k < length (iter_abs it) then Some (iter_abs it ! k) else None) \<and>
    iter_abs (snd (iter_nth k it)) = drop (Suc k) (iter_abs it) \<and> iter_inv (snd (iter_nth k it))"
  proof cases
    case empty
    then show ?thesis
      using inv by (simp add: iter_nth_def iter_abs_def iter_counters_def)
  next
    case out
    then show ?thesis
      using unat_add_bounded [of n k]
      by (auto simp: iter_nth_def iter_abs_def iter_counters_def checked_add_def word_le_nat_alt iter_inv_def)
  next
    case found
    let ?it = "it\<lparr>it_next := Some (n + of_nat k)\<rparr>"
    have lt: "unat n + k < 2 ^ 64" using found unat_u64_less [of "it_last it"] by linarith
    then have u: "unat (n + of_nat k) = unat n + k" by (rule unat_add_bounded)
    then have step: "iter_nth k it = iter_next ?it"
      using found lt by (simp add: iter_nth_def checked_add_def word_le_nat_alt)
    have inv': "iter_inv ?it" using u found by (simp add: iter_inv_def word_le_nat_alt)
    have cs: "iter_counters ?it = drop k (iter_counters it)"
      using u found by (simp add: iter_counters_def drop_upt)
    then have ab: "iter_abs ?it = drop k (iter_abs it)"
      by (simp add: iter_abs_def drop_map)
    have len: "k < length (iter_abs it)"
      using found by (simp add: iter_abs_def iter_counters_def)
    have "tl (iter_counters ?it) = drop (Suc k) (iter_counters it)"
      using cs by (simp add: drop_Suc tl_drop)
    then show ?thesis
      using iter_next_Some [OF inv', of "n + of_nat k"] step ab len
      by (simp add: hd_drop_conv_nth) (simp add: iter_abs_def drop_map)
  qed
  then show "fst (iter_nth k it) = (if k < length (iter_abs it) then Some (iter_abs it ! k) else None)"
    and "iter_abs (snd (iter_nth k it)) = drop (Suc k) (iter_abs it)"
    and "iter_inv (snd (iter_nth k it))"
    by blast+
qed

subsection \<open>Splitting a range\<close>

definition range_inv :: "ExtranonceRange \<Rightarrow> bool" where
  "range_inv r \<longleftrightarrow> er_first r \<le> er_last r"

definition range_counters :: "ExtranonceRange \<Rightarrow> nat list" where
  "range_counters r = [unat (er_first r)..<Suc (unat (er_last r))]"

lemma range_len_length: "range_inv r \<Longrightarrow> range_len r = length (range_counters r)"
  by (simp add: range_inv_def range_len_def range_counters_def unat_span word_le_nat_alt Suc_diff_le)

lemma iter_of_range:
  "range_inv r \<Longrightarrow> iter_inv (range_iter r)"
  "iter_counters (range_iter r) = range_counters r"
  by (simp_all add: range_inv_def iter_inv_def range_iter_def iter_counters_def range_counters_def)

text \<open>The length of part \<open>i\<close>.\<close>

abbreviation part_len :: "nat \<Rightarrow> nat \<Rightarrow> nat \<Rightarrow> nat" where
  "part_len base extra i \<equiv> base + (if i < extra then 1 else 0)"

text \<open>One part, as the loop body builds it.\<close>

definition split_part :: "u64 \<Rightarrow> nat \<Rightarrow> u8 \<Rightarrow> ExtranonceRange" where
  "split_part first l width =
     \<lparr>er_first = first, er_last = first + of_nat (l - 1), er_width = width\<rparr>"

lemma split_loop_Cons:
  "split_loop base extra parts width (i # is) first =
     (let p = split_part first (part_len base extra i) width
      in p # split_loop base extra parts width is (er_last p + 1))"
  by (simp add: split_part_def Let_def)

lemma split_part_props:
  assumes "1 \<le> l" and "unat first + l \<le> 2 ^ 64"
  shows "range_len (split_part first l width) = l"
    and "range_counters (split_part first l width) = [unat first..<unat first + l]"
    and "range_inv (split_part first l width)" and "er_width (split_part first l width) = width"
    and "unat first + l < 2 ^ 64 \<Longrightarrow> unat (er_last (split_part first l width) + 1) = unat first + l"
proof -
  let ?last = "first + of_nat (l - 1)"
  have last: "unat ?last = unat first + (l - 1)"
    using assms by (intro unat_add_bounded) auto
  then have le: "first \<le> ?last" by (simp add: word_le_nat_alt)
  then have "unat (?last - first) = unat ?last - unat first" by (rule unat_span)
  then have "unat (?last - first) = l - 1" using last by linarith
  then show "range_len (split_part first l width) = l"
    using assms(1) by (simp add: range_len_def split_part_def)
  have "Suc (unat ?last) = unat first + l" using last assms(1) by linarith
  then show "range_counters (split_part first l width) = [unat first..<unat first + l]"
    by (simp add: range_counters_def split_part_def del: upt_Suc)
  show "range_inv (split_part first l width)" using le by (simp add: range_inv_def split_part_def)
  show "er_width (split_part first l width) = width" by (simp add: split_part_def)
  show "unat (er_last (split_part first l width) + 1) = unat first + l" if "unat first + l < 2 ^ 64"
    using that unat_add_bounded [of ?last 1] last assms(1) by (simp add: split_part_def)
qed

declare split_loop.simps(2) [simp del]

lemma split_loop_covers:
  assumes "1 \<le> base"
    and "unat first + sum_list (map (part_len base extra) is) \<le> 2 ^ 64"
  shows "map range_len (split_loop base extra parts width is first) = map (part_len base extra) is \<and>
    concat (map range_counters (split_loop base extra parts width is first)) =
      [unat first..<unat first + sum_list (map (part_len base extra) is)] \<and>
    (\<forall>r \<in> set (split_loop base extra parts width is first). range_inv r \<and> er_width r = width)"
  using assms(2)
proof (induction "is" arbitrary: first)
  case Nil
  then show ?case by simp
next
  case (Cons i "is")
  define l where "l = part_len base extra i"
  define rest where "rest = sum_list (map (part_len base extra) is)"
  have l: "1 \<le> l" "unat first + l \<le> 2 ^ 64"
    using assms(1) Cons.prems by (simp_all add: l_def)
  note part = split_part_props [OF l, of width]
  show ?case
  proof (cases "is = []")
    case True
    then show ?thesis
      using part by (simp add: split_loop_Cons Let_def l_def [symmetric])
  next
    case False
    then have "1 \<le> rest" using assms(1) by (cases "is") (auto simp: rest_def)
    then have succ: "unat (er_last (split_part first l width) + 1) = unat first + l"
      using part(5) Cons.prems by (simp add: l_def rest_def)
    have join: "[unat first..<unat first + l] @ [unat first + l..<unat first + l + rest] =
        [unat first..<unat first + l + rest]"
      by (rule upt_add_eq_append [symmetric]) simp
    have "unat (er_last (split_part first l width) + 1) + rest \<le> 2 ^ 64"
      using Cons.prems succ by (simp add: l_def rest_def)
    note tail = Cons.IH [OF this [unfolded rest_def], unfolded succ, folded rest_def]
    then show ?thesis
      using tail part join
      by (simp add: split_loop_Cons Let_def l_def [symmetric] rest_def [symmetric] add.assoc)
  qed
qed

lemma sum_part_len: "sum_list (map (part_len base extra) [0..<n]) = n * base + min extra n"
  by (induction n) auto

lemma split_range_Some:
  assumes "range_inv r" and "split_range r n = Some rs"
  shows "length rs = n"
    and "concat (map range_counters rs) = range_counters r"
    and "map range_len rs = map (part_len (range_len r div n) (range_len r mod n)) [0..<n]"
    and "\<forall>p \<in> set rs. range_inv p \<and> er_width p = er_width r"
proof -
  let ?base = "range_len r div n" and ?extra = "range_len r mod n"
  from assms(2) have n: "0 < n" "n \<le> range_len r"
    and rs: "rs = split_loop ?base ?extra n (er_width r) [0..<n] (er_first r)"
    by (auto simp: split_range_def split: if_splits)
  have base: "1 \<le> ?base" using n by (simp add: div_greater_zero_iff Suc_le_eq)
  have total: "sum_list (map (part_len ?base ?extra) [0..<n]) = range_len r"
  proof -
    have "min ?extra n = ?extra" using n mod_less_divisor [of n "range_len r"] by simp
    then show ?thesis by (simp only: sum_part_len) (metis div_mult_mod_eq mult.commute)
  qed
  have len: "unat (er_first r) + range_len r = Suc (unat (er_last r))"
    using assms(1) by (simp add: range_inv_def range_len_def unat_span word_le_nat_alt)
  have bound: "unat (er_first r) + sum_list (map (part_len ?base ?extra) [0..<n]) \<le> 2 ^ 64"
    using total len unat_u64_less [of "er_last r"] by simp
  note cov = split_loop_covers [OF base bound, of n "er_width r", folded rs]
  show lens: "map range_len rs = map (part_len ?base ?extra) [0..<n]" using cov by blast
  then show "length rs = n" by (metis length_map length_upt diff_zero)
  show "concat (map range_counters rs) = range_counters r"
    using cov len by (simp only: total range_counters_def)
  show "\<forall>p \<in> set rs. range_inv p \<and> er_width p = er_width r" using cov by blast
qed

lemma split_range_None_iff: "split_range r n = None \<longleftrightarrow> n = 0 \<or> range_len r < n"
  by (simp add: split_range_def Let_def)

text \<open>The parts of a split, rolled one after the other, are the extranonces of the range.\<close>

definition range_extranonces :: "ExtranonceRange \<Rightarrow> Extranonce list" where
  "range_extranonces r = iter_abs (range_iter r)"

lemma range_extranonces_map:
  "range_extranonces r =
     map (\<lambda>c. \<lparr>en_counter = of_nat c, en_width = er_width r\<rparr>) (range_counters r)"
proof -
  have "iter_extranonce (range_iter r) = (\<lambda>c. \<lparr>en_counter = c, en_width = er_width r\<rparr>)"
    by (simp add: iter_extranonce_def range_iter_def fun_eq_iff)
  then show ?thesis by (simp add: range_extranonces_def iter_abs_def iter_of_range)
qed

lemma distinct_range_extranonces: "distinct (range_extranonces r)"
proof -
  have "inj_on (\<lambda>c. \<lparr>en_counter = (of_nat c :: u64), en_width = er_width r\<rparr>) (set (range_counters r))"
  proof (rule inj_onI)
    fix x y
    assume "x \<in> set (range_counters r)" "y \<in> set (range_counters r)"
      and eq: "\<lparr>en_counter = (of_nat x :: u64), en_width = er_width r\<rparr> =
        \<lparr>en_counter = of_nat y, en_width = er_width r\<rparr>"
    then have "x < 2 ^ 64" "y < 2 ^ 64"
      using unat_u64_less [of "er_last r"] by (auto simp: range_counters_def)
    moreover have "unat (of_nat x :: u64) = unat (of_nat y :: u64)" using eq by simp
    ultimately show "x = y" by (simp add: unat_of_nat)
  qed
  then show ?thesis
    by (simp add: range_extranonces_map distinct_map range_counters_def)
qed

lemma split_range_extranonces:
  assumes "range_inv r" and "split_range r n = Some rs"
  shows "concat (map range_extranonces rs) = range_extranonces r"
proof -
  have "map range_extranonces rs =
      map (map (\<lambda>c. \<lparr>en_counter = of_nat c, en_width = er_width r\<rparr>) \<circ> range_counters) rs"
    using split_range_Some(4) [OF assms] by (simp add: range_extranonces_map)
  then show ?thesis
    using split_range_Some(2) [OF assms]
    by (simp add: range_extranonces_map map_concat [symmetric] flip: map_map)
qed

subsection \<open>Slots as bytes\<close>

definition wf_Extranonce :: "Extranonce \<Rightarrow> bool" where
  "wf_Extranonce e \<longleftrightarrow>
     1 \<le> unat (en_width e) \<and> unat (en_width e) \<le> MAX_WIDTH \<and> en_counter e \<le> max_counter (en_width e)"

lemma check_width_Inr_iff:
  "check_width n = Inr w \<longleftrightarrow> 1 \<le> n \<and> n \<le> MAX_WIDTH \<and> w = of_nat n"
  by (auto simp: check_width_def)

lemma unat_of_nat_width: "n \<le> MAX_WIDTH \<Longrightarrow> unat (of_nat n :: u8) = n"
  by (simp add: unat_of_nat MAX_WIDTH_def)

lemma length_u64_to_be [simp]: "length (u64_to_be w) = 8"
  by (simp add: u64_to_be_def)

lemma u64_from_be_snoc: "u64_from_be (xs @ [b]) = push_bit 8 (u64_from_be xs) OR ucast b"
  by (simp add: u64_from_be_def)

lemma bit_u64_from_be:
  "bit (u64_from_be xs) n \<longleftrightarrow> n < 64 \<and> n < 8 * length xs \<and> bit (rev xs ! (n div 8)) (n mod 8)"
proof (induction xs arbitrary: n rule: rev_induct)
  case Nil
  then show ?case by (simp add: u64_from_be_def)
next
  case (snoc b xs)
  show ?case
  proof (cases "n < 8")
    case True
    then show ?thesis by (auto simp: u64_from_be_snoc bit_simps)
  next
    case False
    then have "n div 8 = Suc ((n - 8) div 8)" and "n mod 8 = (n - 8) mod 8"
      by (simp_all add: le_div_geq le_mod_geq)
    with False snoc.IH [of "n - 8"] show ?thesis
      by (auto simp: u64_from_be_snoc bit_simps)
  qed
qed

lemma nth_u64_to_be: "i < 8 \<Longrightarrow> u64_to_be w ! i = ucast (drop_bit (8 * (7 - i)) w)"
  by (auto simp: u64_to_be_def numeral_eq_Suc less_Suc_eq)

lemma u64_to_from_be:
  assumes "length xs = 8"
  shows "u64_to_be (u64_from_be xs) = xs"
proof (rule nth_equalityI)
  show "length (u64_to_be (u64_from_be xs)) = length xs" using assms by simp
next
  fix i
  assume "i < length (u64_to_be (u64_from_be xs))"
  then have i: "i < 8" by simp
  show "u64_to_be (u64_from_be xs) ! i = xs ! i"
  proof (rule bit_word_eqI)
    fix n
    assume "n < LENGTH(8)"
    then have n: "n < 8" by simp
    then have "8 * (7 - i) + n < 64" "(8 * (7 - i) + n) div 8 = 7 - i" "(8 * (7 - i) + n) mod 8 = n"
      by auto
    moreover have "rev xs ! (7 - i) = xs ! i" using assms i by (simp add: rev_nth)
    ultimately show "bit (u64_to_be (u64_from_be xs) ! i) n = bit (xs ! i) n"
      using i n assms by (simp add: nth_u64_to_be bit_simps bit_u64_from_be)
  qed
qed

lemma u64_from_to_be: "u64_from_be (u64_to_be w) = w"
proof (rule bit_word_eqI)
  fix n
  assume "n < LENGTH(64)"
  then have n: "n < 64" by simp
  then have i: "n div 8 < 8" by (simp add: less_mult_imp_div_less)
  have "rev (u64_to_be w) ! (n div 8) = ucast (drop_bit (8 * (n div 8)) w)"
    using i by (simp add: rev_nth nth_u64_to_be)
  moreover have "8 * (n div 8) + n mod 8 = n" by simp
  ultimately show "bit (u64_from_be (u64_to_be w)) n = bit w n"
    using n by (simp add: bit_u64_from_be bit_simps)
qed

lemma unat_mask_u64: "k < 64 \<Longrightarrow> unat (mask k :: u64) = mask k"
  by (rule bit_eqI) (auto simp: bit_unsigned_iff bit_mask_iff)

lemma max_counter_bits:
  assumes "c \<le> max_counter w" and "8 * unat w \<le> n"
  shows "\<not> bit c n"
proof (cases "unat w * 8 \<ge> 64")
  case True
  then show ?thesis using assms(2) bit_imp_le_length [of c n] by auto
next
  case False
  then have "max_counter w = mask (unat w * 8)"
    by (simp add: max_counter_def mask_eq_exp_minus_1 push_bit_eq_mult Let_def)
  then have "unat c \<le> unat (mask (unat w * 8) :: u64)"
    using assms(1) by (simp add: word_le_nat_alt)
  also have "\<dots> = 2 ^ (unat w * 8) - 1"
    using unat_mask_u64 [of "unat w * 8"] False by (simp only: not_le) (simp add: mask_eq_exp_minus_1)
  finally have "unat c < 2 ^ (unat w * 8)" by (rule le_less_trans) simp
  also have "(2::nat) ^ (unat w * 8) \<le> 2 ^ n" using assms(2) by (intro power_increasing) auto
  finally have "unat c div 2 ^ n = 0" by simp
  then have "\<not> bit (unat c) n" by (simp add: bit_iff_odd)
  then show ?thesis by (auto simp: bit_unsigned_iff dest: bit_imp_le_length)
qed

lemma nth_Extranonce_bytes:
  assumes "i < unat (en_width e)"
  shows "Extranonce_bytes e ! i =
    (if unat (en_width e) - 1 - i < 8 then u64_to_be (en_counter e) ! (7 - (unat (en_width e) - 1 - i)) else 0)"
  using assms by (auto simp: Extranonce_bytes_def COUNTER_WIDTH_def Let_def nth_append min_def intro!: arg_cong [where f = "\<lambda>k. u64_to_be (en_counter e) ! k"])

lemma length_Extranonce_bytes [simp]: "length (Extranonce_bytes e) = unat (en_width e)"
  by (simp add: Extranonce_bytes_def COUNTER_WIDTH_def Let_def)

text \<open>Writing a well-formed slot and reading it back.\<close>

lemma Extranonce_from_bytes_bytes:
  assumes "wf_Extranonce e"
  shows "Extranonce_from_bytes (Extranonce_bytes e) = Inr e"
proof -
  let ?w = "unat (en_width e)" and ?bs = "Extranonce_bytes e"
  have w: "1 \<le> ?w" "?w \<le> MAX_WIDTH" using assms by (auto simp: wf_Extranonce_def)
  define tail where "tail = drop (8 - min ?w 8) (u64_to_be (en_counter e))"
  have bs: "?bs = replicate (?w - min ?w 8) 0 @ tail"
    by (simp add: Extranonce_bytes_def COUNTER_WIDTH_def tail_def Let_def)
  have len: "length tail = min ?w 8" by (simp add: tail_def)
  have parts: "take (?w - 8) ?bs = replicate (?w - 8) 0" "drop (?w - 8) ?bs = tail"
    by (auto simp: bs min_def)
  have head: "replicate (8 - min ?w 8) 0 @ tail = u64_to_be (en_counter e)"
  proof (rule nth_equalityI)
    show "length (replicate (8 - min ?w 8) 0 @ tail) = length (u64_to_be (en_counter e))"
      using len by simp
  next
    fix i assume "i < length (replicate (8 - min ?w 8) (0::u8) @ tail)"
    then have i: "i < 8" using len by simp
    have "u64_to_be (en_counter e) ! i = 0" if "i < 8 - min ?w 8"
    proof (rule bit_word_eqI)
      fix k assume "k < LENGTH(8)"
      then have "8 * ?w \<le> 8 * (7 - i) + k" using that by auto
      then have "\<not> bit (en_counter e) (8 * (7 - i) + k)"
        using max_counter_bits assms by (auto simp: wf_Extranonce_def)
      then show "bit (u64_to_be (en_counter e) ! i) k = bit 0 k"
        using i by (simp add: nth_u64_to_be bit_simps)
    qed
    then show "(replicate (8 - min ?w 8) 0 @ tail) ! i = u64_to_be (en_counter e) ! i"
      by (auto simp: nth_append tail_def)
  qed
  have "of_nat ?w = en_width e" by simp
  then show ?thesis
    using w parts head len
    by (simp add: Extranonce_from_bytes_def check_width_def COUNTER_WIDTH_def u64_from_to_be Let_def
        list_ex_iff)
qed

text \<open>Reading a slot and writing it back.\<close>

lemma Extranonce_bytes_from_bytes:
  assumes "Extranonce_from_bytes bs = Inr e"
  shows "Extranonce_bytes e = bs"
proof -
  let ?n = "length bs"
  from assms have n: "1 \<le> ?n" "?n \<le> MAX_WIDTH" and w: "en_width e = of_nat ?n"
    and pad: "\<forall>b \<in> set (take (?n - 8) bs). b = 0"
    and c: "en_counter e = u64_from_be (replicate (8 - min ?n 8) 0 @ drop (?n - 8) bs)"
    by (auto simp: Extranonce_from_bytes_def check_width_def COUNTER_WIDTH_def Let_def list_ex_iff
        min_def split: if_splits sum.splits)
  have uw: "unat (en_width e) = ?n" using n w unat_of_nat_width by simp
  have be: "u64_to_be (en_counter e) = replicate (8 - min ?n 8) 0 @ drop (?n - 8) bs"
    unfolding c by (rule u64_to_from_be) (auto simp: min_def)
  have "take (?n - 8) bs = replicate (?n - 8) 0"
    using pad by (intro replicate_eqI) auto
  then have "bs = replicate (?n - 8) 0 @ drop (?n - 8) bs" by (metis append_take_drop_id)
  then show ?thesis
    using be uw by (simp add: Extranonce_bytes_def COUNTER_WIDTH_def Let_def min_def)
qed

end
