(* ===== verification/Measures.thy ===== *)
theory Measures
  imports Prelude
begin

text \<open>
  Measurement types: hash rates (\<open>types/hash_rate.rs\<close>, the integer part), the 256-bit integers
  of \<open>u256.rs\<close>, the debounced alarm (\<open>types/debounced_alarm.rs\<close>) and the windowed hashrate
  estimator (\<open>types/hashrate_estimator.rs\<close>). Instants are signed nanosecond counts (the unix
  \<open>Timespec\<close> behind \<open>std::time::Instant\<close>) and durations nanoseconds; the clock that the code
  reads is an argument. The arithmetic of \<open>ruint\<close> wraps, as its documentation says, and is that
  of \<open>256 word\<close> and \<open>512 word\<close>.
\<close>

subsection \<open>Hash rates\<close>

type_synonym u256 = "256 word"
type_synonym u512 = "512 word"
type_synonym instant = int
type_synonym duration = nat

type_synonym HashRate = u64

definition HashRate_is_zero :: "HashRate \<Rightarrow> bool" where
  "HashRate_is_zero r \<longleftrightarrow> r = 0"

text \<open>\<open>Add\<close>: the release build wraps; \<open>Sum\<close> folds it from zero.\<close>

definition HashRate_add :: "HashRate \<Rightarrow> HashRate \<Rightarrow> HashRate" where
  "HashRate_add a b = a + b"

definition HashRate_sum :: "HashRate list \<Rightarrow> HashRate" where
  "HashRate_sum rs = fold (\<lambda>x acc. HashRate_add acc x) rs 0"

lemma HashRate_sum_eq: "HashRate_sum rs = sum_list rs"
proof -
  have "fold (\<lambda>x acc. HashRate_add acc x) rs a = a + sum_list rs" for a
    by (induction rs arbitrary: a) (simp_all add: HashRate_add_def add.assoc)
  from this [of 0] show ?thesis by (simp add: HashRate_sum_def)
qed

lemma unat_HashRate_sum:
  "sum_list (map unat rs) < 2 ^ 64 \<Longrightarrow> unat (HashRate_sum rs) = sum_list (map unat rs)"
  unfolding HashRate_sum_eq
  by (induction rs) (simp_all add: unat_word_ariths)

subsection \<open>256-bit integers\<close>

definition saturating_to_u64 :: "u256 \<Rightarrow> u64" where
  "saturating_to_u64 w = (if w \<le> 0xffffffffffffffff then ucast w else 0xffffffffffffffff)"

definition leading_zeros :: "u256 \<Rightarrow> nat" where
  "leading_zeros w = 256 - bit_length (unat w)"

text \<open>\<open>None\<close> is the panic of a division by zero.\<close>

definition div_u256_u64 :: "u256 \<Rightarrow> u64 \<Rightarrow> u256 option" where
  "div_u256_u64 w d = (if d = 0 then None else Some (w div ucast d))"

definition shifted_div :: "u256 \<Rightarrow> nat \<Rightarrow> u64 \<Rightarrow> u256 option" where
  "shifted_div w shift divisor =
     (if w \<noteq> 0 \<and> (256 - leading_zeros w) + shift > 512 then Some (- 1)
      else if divisor = 0 then None
      else (let result = (push_bit shift (ucast w :: u512)) div ucast divisor
            in if drop_bit 256 result \<noteq> 0 then Some (- 1) else Some (ucast result)))"

lemma bit_length_u256: "bit_length (unat (w :: u256)) \<le> 256"
proof -
  have "unat w < 2 ^ 256" by (rule order.strict_trans2 [OF unsigned_less]) simp
  then show ?thesis by (simp only: bit_length_less_iff)
qed

lemma leading_zeros_bits: "256 - leading_zeros w = bit_length (unat w)"
  using bit_length_u256 [of w] by (simp add: leading_zeros_def)

text \<open>\<open>shifted_div\<close> computes the exact quotient, clipped to the 256-bit maximum.\<close>

lemma shifted_div_exact:
  assumes "d \<noteq> 0"
  shows "\<exists>q. shifted_div w s d = Some q \<and> unat q = min (unat w * 2 ^ s div unat d) (2 ^ 256 - 1)"
proof (cases "w \<noteq> 0 \<and> bit_length (unat w) + s > 512")
  case True
  then have w: "unat w \<noteq> 0" by (simp add: unat_eq_0)
  have s: "256 \<le> s" and e: "512 \<le> bit_length (unat w) - 1 + s"
    using True bit_length_u256 [of w] by auto
  have "2 ^ 512 \<le> (2::nat) ^ (bit_length (unat w) - 1 + s)" using e by (rule power_increasing) simp
  also have "\<dots> \<le> unat w * 2 ^ s" using bit_length_le [OF w] by (simp add: power_add)
  finally have big: "2 ^ 512 \<le> unat w * 2 ^ s" .
  have "unat d < 2 ^ 64" using unsigned_less [of d] by simp
  moreover have "0 < unat d" using assms by (simp add: unat_gt_0)
  ultimately have "2 ^ 256 * unat d \<le> unat w * 2 ^ s"
  proof -
    have "2 ^ 256 * unat d \<le> 2 ^ 256 * 2 ^ 64" using \<open>unat d < 2 ^ 64\<close> by simp
    also have "\<dots> \<le> (2::nat) ^ 512" by simp
    finally show ?thesis using big by linarith
  qed
  then have "2 ^ 256 \<le> unat w * 2 ^ s div unat d"
    using \<open>0 < unat d\<close> by (simp add: less_eq_div_iff_mult_less_eq)
  moreover have "unat (- 1 :: u256) = 2 ^ 256 - 1" by (simp add: unsigned_minus_1_eq_mask mask_eq_exp_minus_1)
  ultimately show ?thesis
    using True by (simp add: shifted_div_def leading_zeros_bits)
next
  case False
  let ?p = "push_bit s (ucast w :: u512)"
  have lt: "unat w * 2 ^ s < 2 ^ 512"
  proof (cases "w = 0")
    case nz: False
    then have "bit_length (unat w) + s \<le> 512" using False by simp
    then have "(2::nat) ^ (bit_length (unat w) + s) \<le> 2 ^ 512" by (rule power_increasing) simp
    moreover have "unat w * 2 ^ s < (2::nat) ^ bit_length (unat w) * 2 ^ s"
      using bit_length_bound [of "unat w"] by simp
    ultimately show ?thesis by (simp only: power_add)
  qed simp
  have uc: "unat (ucast w :: u512) = unat w" by (simp add: unsigned_ucast_eq take_bit_nat_eq_self_iff)
      (rule less_le_trans, rule unsigned_less, simp)
  have "unat ?p = take_bit 512 (push_bit s (unat w))"
    by (simp only: unsigned_push_bit_eq uc) simp
  also have "\<dots> = unat w * 2 ^ s"
    using lt by (simp only: push_bit_eq_mult take_bit_nat_eq_self_iff)
  finally have p: "unat ?p = unat w * 2 ^ s" .
  have ud: "unat (ucast d :: u512) = unat d"
    by (simp add: unsigned_ucast_eq take_bit_nat_eq_self_iff)
      (rule less_le_trans, rule unsigned_less, simp)
  define r where "r = ?p div ucast d"
  have r: "unat r = unat w * 2 ^ s div unat d"
    by (simp only: r_def unat_div p ud)
  have nz: "ucast d \<noteq> (0 :: u512)" using assms ud by (metis unat_0 unat_eq_0)
  have sd: "shifted_div w s d = (if drop_bit 256 r \<noteq> 0 then Some (- 1) else Some (ucast r))"
    using False assms by (simp only: shifted_div_def leading_zeros_bits r_def Let_def) simp
  have hi: "drop_bit 256 r = 0 \<longleftrightarrow> unat r < 2 ^ 256"
  proof -
    have "drop_bit 256 r = 0 \<longleftrightarrow> unat (drop_bit 256 r) = 0" by (simp add: unat_eq_0)
    also have "\<dots> \<longleftrightarrow> unat r div 2 ^ 256 = 0" by (subst unat_drop_bit_eq) (simp only: drop_bit_eq_div)
    finally show ?thesis by (simp only: div_eq_0_iff) simp
  qed
  show ?thesis
  proof (cases "unat r < 2 ^ 256")
    case True
    then have "unat (ucast r :: u256) = unat r"
      by (simp only: unsigned_ucast_eq take_bit_nat_eq_self_iff) simp
    then show ?thesis using True hi sd r by (simp only: min_def) auto
  next
    case False
    moreover have "unat (- 1 :: u256) = 2 ^ 256 - 1"
      by (simp add: unsigned_minus_1_eq_mask mask_eq_exp_minus_1)
    ultimately show ?thesis using hi sd r by (simp only: min_def) auto
  qed
qed

subsection \<open>The debounced alarm\<close>

datatype AlarmStatus = AlarmIdle | Pending | Triggered | Active | Resolved

datatype AlarmState = StateIdle | Timing instant | Fired

record DebouncedAlarm =
  da_debounce :: duration
  da_state :: AlarmState

definition DebouncedAlarm_new :: "duration \<Rightarrow> DebouncedAlarm" where
  "DebouncedAlarm_new debounce = \<lparr>da_debounce = debounce, da_state = StateIdle\<rparr>"

text \<open>\<open>Instant::duration_since\<close> and \<open>elapsed\<close> saturate at zero.\<close>

definition duration_since :: "instant \<Rightarrow> instant \<Rightarrow> duration" where
  "duration_since later earlier = nat (later - earlier)"

definition alarm_check :: "instant \<Rightarrow> bool \<Rightarrow> DebouncedAlarm \<Rightarrow> AlarmStatus \<times> DebouncedAlarm" where
  "alarm_check now condition a =
     (case da_state a of
        StateIdle \<Rightarrow>
          if condition then (Pending, a\<lparr>da_state := Timing now\<rparr>) else (AlarmIdle, a)
      | Timing since \<Rightarrow>
          if \<not> condition then (AlarmIdle, a\<lparr>da_state := StateIdle\<rparr>)
          else if duration_since now since \<ge> da_debounce a then (Triggered, a\<lparr>da_state := Fired\<rparr>)
          else (Pending, a)
      | Fired \<Rightarrow>
          if condition then (Active, a) else (Resolved, a\<lparr>da_state := StateIdle\<rparr>))"

definition alarm_reset :: "DebouncedAlarm \<Rightarrow> DebouncedAlarm" where
  "alarm_reset a = a\<lparr>da_state := StateIdle\<rparr>"

text \<open>
  What the alarm promises, over the history of calls. The current episode is the list of check
  times since the condition last became true; it has fired when a check after its first one
  came at least \<open>debounce\<close> after the first.
\<close>

datatype alarm_event = Check instant bool | Reset

primrec episode :: "alarm_event list \<Rightarrow> instant list" where
  "episode [] = []"
| "episode (ev # earlier) =
     (case ev of Check t c \<Rightarrow> if c then episode earlier @ [t] else [] | Reset \<Rightarrow> [])"

fun episode_fired :: "duration \<Rightarrow> instant list \<Rightarrow> bool" where
  "episode_fired d [] = False"
| "episode_fired d (t0 # ts) = list_ex (\<lambda>t. d \<le> duration_since t t0) ts"

text \<open>The status a check must report, from the earlier history (latest event first).\<close>

definition expected_status :: "duration \<Rightarrow> alarm_event list \<Rightarrow> instant \<Rightarrow> bool \<Rightarrow> AlarmStatus" where
  "expected_status d earlier t c =
     (let ep = episode earlier
      in if \<not> c then (if episode_fired d ep then Resolved else AlarmIdle)
         else if episode_fired d ep then Active
         else if episode_fired d (ep @ [t]) then Triggered
         else Pending)"

primrec alarm_run :: "alarm_event list \<Rightarrow> DebouncedAlarm \<Rightarrow> DebouncedAlarm" where
  "alarm_run [] a = a"
| "alarm_run (ev # earlier) a =
     (case ev of Check t c \<Rightarrow> snd (alarm_check t c (alarm_run earlier a))
      | Reset \<Rightarrow> alarm_reset (alarm_run earlier a))"

definition alarm_abs :: "duration \<Rightarrow> alarm_event list \<Rightarrow> AlarmState" where
  "alarm_abs d history =
     (case episode history of
        [] \<Rightarrow> StateIdle
      | t0 # ts \<Rightarrow> if episode_fired d (t0 # ts) then Fired else Timing t0)"

lemma episode_fired_snoc:
  "episode_fired d (ts @ [t]) \<longleftrightarrow>
     (ts \<noteq> [] \<and> (episode_fired d ts \<or> d \<le> duration_since t (hd ts)))"
  by (cases ts) auto

lemma alarm_run_abs:
  "alarm_run history (DebouncedAlarm_new d) = \<lparr>da_debounce = d, da_state = alarm_abs d history\<rparr>"
proof (induction history)
  case Nil
  then show ?case by (simp add: DebouncedAlarm_new_def alarm_abs_def)
next
  case (Cons ev history)
  then show ?case
    by (cases ev; cases "episode history")
      (auto simp: alarm_check_def alarm_reset_def alarm_abs_def episode_fired_snoc)
qed

lemma alarm_check_expected:
  "fst (alarm_check t c (alarm_run history (DebouncedAlarm_new d))) = expected_status d history t c"
  unfolding alarm_run_abs
  by (cases "episode history")
    (auto simp: alarm_check_def expected_status_def alarm_abs_def episode_fired_snoc Let_def)

text \<open>Within one episode the alarm triggers at most once.\<close>

lemma episode_mono: "episode_fired d ts \<Longrightarrow> episode_fired d (ts @ us)"
  by (cases ts) auto

lemma episode_checks: "episode (map (\<lambda>t. Check t True) ts @ history) = episode history @ rev ts"
  by (induction ts) auto

lemma triggered_once:
  assumes "expected_status d history t True = Triggered"
  shows "expected_status d (map (\<lambda>t. Check t True) ts @ Check t True # history) u True = Active"
proof -
  have "episode_fired d (episode history @ [t])"
    using assms by (auto simp: expected_status_def Let_def split: if_splits)
  then have "episode_fired d ((episode history @ [t]) @ rev ts)" by (rule episode_mono)
  then show ?thesis by (simp add: expected_status_def episode_checks Let_def)
qed

subsection \<open>The windowed hashrate estimator\<close>

record HashrateEstimator =
  he_window :: duration
  he_min_samples :: nat
  he_max_samples :: nat
  he_samples :: "(instant \<times> u256) list"
  he_total_work :: u256

definition as_secs :: "duration \<Rightarrow> nat" where
  "as_secs d = d div 1000000000"

definition Estimator_with_limits :: "duration \<Rightarrow> nat \<Rightarrow> nat \<Rightarrow> HashrateEstimator" where
  "Estimator_with_limits window min_samples max_samples =
     \<lparr>he_window = window, he_min_samples = min_samples, he_max_samples = max_samples,
      he_samples = [], he_total_work = 0\<rparr>"

definition Estimator_new :: "duration \<Rightarrow> HashrateEstimator" where
  "Estimator_new window = Estimator_with_limits window 5 (as_secs window * 10)"

text \<open>\<open>Instant::checked_sub\<close>: the seconds of an instant are an \<open>i64\<close>.\<close>

definition instant_checked_sub :: "instant \<Rightarrow> duration \<Rightarrow> instant option" where
  "instant_checked_sub t d =
     (if - (2 ^ 63 * 1000000000) \<le> t - int d then Some (t - int d) else None)"

definition window_cutoff :: "instant \<Rightarrow> duration \<Rightarrow> instant" where
  "window_cutoff t window = (case instant_checked_sub t window of Some c \<Rightarrow> c | None \<Rightarrow> t)"

fun prune_loop :: "instant \<Rightarrow> (instant \<times> u256) list \<Rightarrow> u256 \<Rightarrow> (instant \<times> u256) list \<times> u256" where
  "prune_loop cutoff [] tw = ([], tw)"
| "prune_loop cutoff ((t, work) # rest) tw =
     (if t \<ge> cutoff then ((t, work) # rest, tw) else prune_loop cutoff rest (tw - work))"

definition prune_before :: "instant \<Rightarrow> HashrateEstimator \<Rightarrow> HashrateEstimator" where
  "prune_before cutoff e =
     (case prune_loop cutoff (he_samples e) (he_total_work e) of
        (samples, tw) \<Rightarrow> e\<lparr>he_samples := samples, he_total_work := tw\<rparr>)"

fun capacity_loop :: "nat \<Rightarrow> (instant \<times> u256) list \<Rightarrow> u256 \<Rightarrow> (instant \<times> u256) list \<times> u256" where
  "capacity_loop max_samples [] tw = ([], tw)"
| "capacity_loop max_samples ((t, old_work) # rest) tw =
     (if Suc (length rest) > max_samples then capacity_loop max_samples rest (tw - old_work)
      else ((t, old_work) # rest, tw))"

definition record_at :: "instant \<Rightarrow> u256 \<Rightarrow> HashrateEstimator \<Rightarrow> HashrateEstimator" where
  "record_at at work e =
     (let e = prune_before (window_cutoff at (he_window e)) e
      in case capacity_loop (he_max_samples e) (he_samples e @ [(at, work)]) (he_total_work e + work) of
           (samples, tw) \<Rightarrow> e\<lparr>he_samples := samples, he_total_work := tw\<rparr>)"

definition hashrate_at :: "instant \<Rightarrow> HashrateEstimator \<Rightarrow> HashRate \<times> HashrateEstimator" where
  "hashrate_at now e =
     (let e = prune_before (window_cutoff now (he_window e)) e
      in case he_samples e of
           [] \<Rightarrow> (0, e)
         | (oldest, _) # _ \<Rightarrow>
             (let secs = as_secs (duration_since now oldest)
              in if secs = 0 then (0, e)
                 else (saturating_to_u64 (he_total_work e div of_nat secs), e)))"

definition has_samples :: "HashrateEstimator \<Rightarrow> bool" where
  "has_samples e \<longleftrightarrow> he_samples e \<noteq> []"

definition is_settled :: "HashrateEstimator \<Rightarrow> bool" where
  "is_settled e \<longleftrightarrow> he_min_samples e \<le> length (he_samples e)"

definition settled_hashrate :: "instant \<Rightarrow> HashrateEstimator \<Rightarrow> HashRate option \<times> HashrateEstimator" where
  "settled_hashrate now e =
     (if is_settled e then (case hashrate_at now e of (r, e') \<Rightarrow> (Some r, e')) else (None, e))"

text \<open>The running total is the sum of the samples kept, whatever was pruned or evicted.\<close>

definition estimator_inv :: "HashrateEstimator \<Rightarrow> bool" where
  "estimator_inv e \<longleftrightarrow> he_total_work e = sum_list (map snd (he_samples e))"

definition lastn :: "nat \<Rightarrow> 'a list \<Rightarrow> 'a list" where
  "lastn m xs = drop (length xs - m) xs"

lemma prune_loop_eq:
  "prune_loop c xs (a + sum_list (map snd xs)) =
     (let ys = dropWhile (\<lambda>x. fst x < c) xs in (ys, a + sum_list (map snd ys)))"
  by (induction xs arbitrary: a) (auto simp: Let_def ac_simps)

lemma capacity_loop_eq:
  "capacity_loop m xs (a + sum_list (map snd xs)) =
     (let ys = lastn m xs in (ys, a + sum_list (map snd ys)))"
  by (induction xs arbitrary: a) (auto simp: Let_def lastn_def ac_simps Suc_diff_le)

lemma prune_before_inv:
  assumes "estimator_inv e"
  shows "he_samples (prune_before c e) = dropWhile (\<lambda>x. fst x < c) (he_samples e)"
    and "estimator_inv (prune_before c e)"
    and "he_max_samples (prune_before c e) = he_max_samples e"
    and "he_window (prune_before c e) = he_window e"
  using assms prune_loop_eq [of c "he_samples e" 0]
  by (simp_all add: prune_before_def estimator_inv_def Let_def)

lemma record_at_inv:
  assumes "estimator_inv e"
  shows "he_samples (record_at t w e) =
      lastn (he_max_samples e) (dropWhile (\<lambda>x. fst x < window_cutoff t (he_window e)) (he_samples e) @ [(t, w)])"
    and "estimator_inv (record_at t w e)"
    and "he_max_samples (record_at t w e) = he_max_samples e"
    and "he_window (record_at t w e) = he_window e"
proof -
  let ?p = "prune_before (window_cutoff t (he_window e)) e"
  note p = prune_before_inv [OF assms, of "window_cutoff t (he_window e)"]
  have "he_total_work ?p + w = 0 + sum_list (map snd (he_samples ?p @ [(t, w)]))"
    using p(2) by (simp add: estimator_inv_def)
  then have r: "record_at t w e = (let ys = lastn (he_max_samples e) (he_samples ?p @ [(t, w)])
      in ?p\<lparr>he_samples := ys, he_total_work := sum_list (map snd ys)\<rparr>)"
    by (simp only: record_at_def Let_def capacity_loop_eq p(3)) simp
  show "he_samples (record_at t w e) =
      lastn (he_max_samples e) (dropWhile (\<lambda>x. fst x < window_cutoff t (he_window e)) (he_samples e) @ [(t, w)])"
    by (simp add: r Let_def p(1))
  show "estimator_inv (record_at t w e)" by (simp add: r Let_def estimator_inv_def)
  show "he_max_samples (record_at t w e) = he_max_samples e"
    and "he_window (record_at t w e) = he_window e"
    using p by (simp_all add: r Let_def)
qed

lemma dropWhile_sorted:
  "sorted (map fst xs) \<Longrightarrow> dropWhile (\<lambda>x. fst x < (c :: instant)) xs = filter (\<lambda>x. c \<le> fst x) xs"
proof (induction xs)
  case (Cons x xs)
  then show ?case by (cases "fst x < c") (auto simp: not_less intro!: filter_True [symmetric])
qed simp

lemma lastn_snoc_lastn: "lastn m (lastn m xs @ [x]) = lastn m (xs @ [x])"
  by (cases "length xs \<le> m") (auto simp: lastn_def Suc_diff_le)

lemma filter_lastn:
  "sorted (map fst xs) \<Longrightarrow>
     filter (\<lambda>x. (c :: instant) \<le> fst x) (lastn m xs) = lastn m (filter (\<lambda>x. c \<le> fst x) xs)"
proof -
  assume s: "sorted (map fst xs)"
  let ?P = "\<lambda>x. c \<le> fst x"
  have split: "xs = takeWhile (\<lambda>x. fst x < c) xs @ filter ?P xs"
    using dropWhile_sorted [OF s] by (metis takeWhile_dropWhile_id)
  define no where "no = takeWhile (\<lambda>x. fst x < c) xs"
  have no: "filter ?P (drop k no) = []" for k
    by (auto simp: no_def filter_empty_conv dest!: in_set_dropD set_takeWhileD)
  have "lastn m xs = drop (length (filter ?P xs) + length no - m) no @ drop (length (filter ?P xs) - m) (filter ?P xs)"
    by (subst split) (simp add: lastn_def no_def [symmetric] add.commute)
  moreover have "filter ?P (drop j (filter ?P xs)) = drop j (filter ?P xs)" for j
    by (intro filter_True) (auto dest: in_set_dropD)
  ultimately show ?thesis by (simp add: no lastn_def)
qed

text \<open>
  After any history of records in time order, the samples kept are the newest \<open>max_samples\<close>
  of those inside the window that ends at the last record.
\<close>

definition record_all :: "(instant \<times> u256) list \<Rightarrow> HashrateEstimator \<Rightarrow> HashrateEstimator" where
  "record_all hist e = fold (\<lambda>(t, w). record_at t w) hist e"

lemma record_all_samples:
  assumes "sorted (map fst hist)" and "\<forall>x \<in> set hist. instant_checked_sub (fst x) d \<noteq> None"
  shows "estimator_inv (record_all hist (Estimator_with_limits d n m)) \<and>
    he_max_samples (record_all hist (Estimator_with_limits d n m)) = m \<and>
    he_window (record_all hist (Estimator_with_limits d n m)) = d \<and>
    he_samples (record_all hist (Estimator_with_limits d n m)) =
      (if hist = [] then []
       else lastn m (filter (\<lambda>x. fst (last hist) - int d \<le> fst x) hist))"
  using assms
proof (induction hist rule: rev_induct)
  case Nil
  then show ?case by (simp add: record_all_def Estimator_with_limits_def estimator_inv_def)
next
  case (snoc x hist)
  obtain t w where x: "x = (t, w)" by (cases x)
  define e where "e = record_all hist (Estimator_with_limits d n m)"
  have sh: "sorted (map fst hist)" and le: "\<forall>y \<in> set hist. fst y \<le> t"
    using snoc.prems(1) x by (auto simp: sorted_append)
  with snoc have IH: "estimator_inv e" "he_max_samples e = m" "he_window e = d"
    "he_samples e = (if hist = [] then [] else lastn m (filter (\<lambda>x. fst (last hist) - int d \<le> fst x) hist))"
    by (simp_all add: e_def)
  have step: "record_all (hist @ [x]) (Estimator_with_limits d n m) = record_at t w e"
    by (simp add: record_all_def e_def x)
  note rec = record_at_inv [OF IH(1), of t w]
  have cut: "window_cutoff t d = t - int d"
    using snoc.prems(2) x by (auto simp: window_cutoff_def instant_checked_sub_def split: if_splits)
  have samples: "sorted (map fst (he_samples e))"
    using sh by (auto simp: IH(4) lastn_def sorted_filter drop_map [symmetric] intro: sorted_wrt_drop)
  have kept: "filter (\<lambda>x. t - int d \<le> fst x) (he_samples e) =
      lastn m (filter (\<lambda>x. t - int d \<le> fst x) hist)"
  proof (cases "hist = []")
    case False
    then have "fst (last hist) \<le> t" using le by simp
    then have "filter (\<lambda>x. t - int d \<le> fst x) (filter (\<lambda>x. fst (last hist) - int d \<le> fst x) hist) =
        filter (\<lambda>x. t - int d \<le> fst x) hist"
      by (auto intro!: filter_cong)
    then show ?thesis
      using False sh by (simp add: IH(4) filter_lastn sorted_filter)
  qed (simp add: IH(4) lastn_def)
  have "he_samples (record_at t w e) = lastn m (filter (\<lambda>x. t - int d \<le> fst x) (hist @ [(t, w)]))"
    using rec(1) by (simp add: IH(2,3) cut dropWhile_sorted [OF samples] kept lastn_snoc_lastn)
  then show ?case using rec(2-4) IH step by (simp add: x)
qed

text \<open>The rate is the work of the samples in the window over the seconds since the oldest of them.\<close>

lemma hashrate_at_eq:
  assumes "estimator_inv e" and "sorted (map fst (he_samples e))"
  shows "fst (hashrate_at now e) =
    (let inw = filter (\<lambda>x. window_cutoff now (he_window e) \<le> fst x) (he_samples e);
         secs = as_secs (duration_since now (fst (hd inw)))
     in if inw = [] \<or> secs = 0 then 0
        else saturating_to_u64 (sum_list (map snd inw) div of_nat secs))"
  using prune_before_inv [OF assms(1), of "window_cutoff now (he_window e)"] dropWhile_sorted [OF assms(2)]
  by (auto simp: hashrate_at_def Let_def estimator_inv_def split: list.splits)

lemma record_all_hashrate:
  assumes "sorted (map fst hist)" and "\<forall>x \<in> set hist. instant_checked_sub (fst x) d \<noteq> None"
  shows "fst (hashrate_at now (record_all hist (Estimator_with_limits d n m))) =
    (let kept = (if hist = [] then [] else lastn m (filter (\<lambda>x. fst (last hist) - int d \<le> fst x) hist));
         inw = filter (\<lambda>x. window_cutoff now d \<le> fst x) kept;
         secs = as_secs (duration_since now (fst (hd inw)))
     in if inw = [] \<or> secs = 0 then 0
        else saturating_to_u64 (sum_list (map snd inw) div of_nat secs))"
proof -
  let ?e = "record_all hist (Estimator_with_limits d n m)"
  have e: "estimator_inv ?e" "he_window ?e = d"
    "he_samples ?e = (if hist = [] then [] else lastn m (filter (\<lambda>x. fst (last hist) - int d \<le> fst x) hist))"
    using record_all_samples [OF assms, of n m] by simp_all
  have "sorted (map fst (he_samples ?e))"
    using assms(1) by (auto simp: e(3) lastn_def sorted_filter drop_map [symmetric] intro: sorted_wrt_drop)
  from hashrate_at_eq [OF e(1) this] show ?thesis unfolding e(2,3) by (simp only: Let_def)
qed

text \<open>The divisor is the age of the oldest sample in the window, so at most the window.\<close>

lemma windowed_age:
  assumes "inw = filter (\<lambda>x. window_cutoff now d \<le> fst x) xs" and "inw \<noteq> []"
  shows "as_secs (duration_since now (fst (hd inw))) \<le> as_secs d"
proof -
  have "window_cutoff now d \<le> fst (hd inw)" using assms hd_in_set [OF assms(2)] by auto
  then have "duration_since now (fst (hd inw)) \<le> d"
    by (auto simp: window_cutoff_def instant_checked_sub_def duration_since_def split: if_splits)
  then show ?thesis by (simp add: as_secs_def div_le_mono)
qed

text \<open>
  \<open>settled_hashrate\<close> counts samples before pruning: after a silence longer than the window a
  settled estimator still answers, with rate zero, although no sample is inside the window.
\<close>

lemma settled_hashrate_stale:
  assumes "is_settled e" and "estimator_inv e"
    and "\<forall>x \<in> set (he_samples e). fst x < window_cutoff now (he_window e)"
  shows "fst (settled_hashrate now e) = Some 0"
    and "he_samples (snd (settled_hashrate now e)) = []"
proof -
  have "dropWhile (\<lambda>x. fst x < window_cutoff now (he_window e)) (he_samples e) = []"
    using assms(3) by simp
  then have "he_samples (prune_before (window_cutoff now (he_window e)) e) = []"
    using prune_before_inv(1) [OF assms(2)] by simp
  then show "fst (settled_hashrate now e) = Some 0"
    and "he_samples (snd (settled_hashrate now e)) = []"
    using assms(1) by (simp_all add: settled_hashrate_def hashrate_at_def Let_def)
qed

end
