(* ===== verification/Floats.thy ===== *)
theory Floats
  imports Complex_Main Prelude
begin

text \<open>
  The \<open>f32\<close> and \<open>f64\<close> arithmetic the code uses, as Rust defines it (IEEE 754 binary formats,
  round to nearest, ties to even). A finite float is the rational number it denotes; an
  operation is the exact rational operation followed by rounding to 24 or 53 significant bits.
  The exponent range is not modelled: every value the modelled code computes lies far inside
  the normal range of its format. Rounding is shown monotone and exact on representable values.
\<close>

definition round_half_even :: "rat \<Rightarrow> int" where
  "round_half_even x =
     (let f = \<lfloor>x\<rfloor>; r = x - of_int f
      in if r < 1 / 2 then f else if 1 / 2 < r then f + 1 else if even f then f else f + 1)"

text \<open>\<open>\<lfloor>log\<^sub>2 x\<rfloor>\<close> for a positive rational, from the bit lengths of numerator and denominator.\<close>

definition rat_log2 :: "rat \<Rightarrow> int" where
  "rat_log2 x =
     (let (n, d) = quotient_of x;
          k = int (bit_length (nat n)) - int (bit_length (nat d))
      in if 2 powi k \<le> x then k else k - 1)"

definition round_pos :: "nat \<Rightarrow> rat \<Rightarrow> rat" where
  "round_pos p x =
     (let e = rat_log2 x - int p + 1 in of_int (round_half_even (x / 2 powi e)) * 2 powi e)"

definition fl :: "nat \<Rightarrow> rat \<Rightarrow> rat" where
  "fl p x = (if x = 0 then 0 else if x < 0 then - round_pos p (- x) else round_pos p x)"

abbreviation f32 :: "rat \<Rightarrow> rat" where
  "f32 \<equiv> fl 24"

abbreviation f64 :: "rat \<Rightarrow> rat" where
  "f64 \<equiv> fl 53"

subsection \<open>Rounding to an integer\<close>

lemma round_half_even_floor:
  "\<lfloor>x\<rfloor> \<le> round_half_even x" "round_half_even x \<le> \<lfloor>x\<rfloor> + 1"
  by (simp_all add: round_half_even_def Let_def)

lemma round_half_even_mono:
  assumes "x \<le> y"
  shows "round_half_even x \<le> round_half_even y"
proof (cases "\<lfloor>x\<rfloor> = \<lfloor>y\<rfloor>")
  case True
  then show ?thesis using assms by (auto simp: round_half_even_def Let_def)
next
  case False
  then have "\<lfloor>x\<rfloor> + 1 \<le> \<lfloor>y\<rfloor>" using floor_mono [OF assms] by linarith
  then show ?thesis using round_half_even_floor [of x] round_half_even_floor [of y] by linarith
qed

lemma round_half_even_of_int [simp]: "round_half_even (of_int i) = i"
  by (simp add: round_half_even_def)

lemma round_half_even_bounds:
  "of_int a \<le> x \<Longrightarrow> a \<le> round_half_even x"
  "x \<le> of_int b \<Longrightarrow> round_half_even x \<le> b"
  using round_half_even_mono [of "of_int a" x] round_half_even_mono [of x "of_int b"] by simp_all

subsection \<open>The binary exponent\<close>

lemma bit_length_bounds:
  "0 < n \<Longrightarrow> 2 ^ (bit_length n - 1) \<le> n \<and> n < 2 ^ bit_length n \<and> 0 < bit_length n"
  using bit_length_bound [of n] bit_length_le [of n] by (cases "bit_length n") auto

lemma powi_2_mono: "a \<le> b \<Longrightarrow> (2::rat) powi a \<le> 2 powi b"
  by (rule power_int_increasing) auto

lemma powi_pos: "0 < (2::rat) powi k"
  by (rule zero_less_power_int) simp

lemma powi_join: "a + b = c \<Longrightarrow> (2::rat) powi a * 2 powi b = 2 powi c"
  using power_int_add [of "2::rat" a b] by simp

lemma powi_divide: "a - b = c \<Longrightarrow> (2::rat) powi a / 2 powi b = 2 powi c"
  using power_int_diff [of "2::rat" a b] by simp

lemma power_powi: "(2::rat) ^ n = 2 powi int n"
  by (simp only: power_int_of_nat)

lemma rat_log2_bounds:
  assumes "0 < x"
  shows "2 powi rat_log2 x \<le> x" and "x < 2 powi (rat_log2 x + 1)"
proof -
  obtain n d where nd: "quotient_of x = (n, d)" by (cases "quotient_of x")
  have d: "0 < d" using quotient_of_denom_pos [OF nd] .
  have x: "x = of_int n / of_int d" using quotient_of_div [OF nd] .
  have n: "0 < n" using assms d by (simp add: x zero_less_divide_iff)
  define a where "a = bit_length (nat n)"
  define b where "b = bit_length (nat d)"
  have A: "2 ^ (a - 1) \<le> nat n" "nat n < 2 ^ a" "0 < a"
    using bit_length_bounds [of "nat n"] n by (simp_all add: a_def)
  have B: "2 ^ (b - 1) \<le> nat d" "nat d < 2 ^ b" "0 < b"
    using bit_length_bounds [of "nat d"] d by (simp_all add: b_def)
  have rn: "rat_of_nat (nat n) = of_int n" "rat_of_nat (nat d) = of_int d" using n d by simp_all
  have up: "rat_of_int n < 2 powi int a" "rat_of_int d < 2 powi int b"
  proof -
    have "rat_of_nat (nat n) < rat_of_nat (2 ^ a)" using A(2) by (rule of_nat_less_iff [THEN iffD2])
    then show "rat_of_int n < 2 powi int a" by (simp add: rn)
    have "rat_of_nat (nat d) < rat_of_nat (2 ^ b)" using B(2) by (rule of_nat_less_iff [THEN iffD2])
    then show "rat_of_int d < 2 powi int b" by (simp add: rn)
  qed
  have lo: "2 powi (int a - 1) \<le> rat_of_int n" "2 powi (int b - 1) \<le> rat_of_int d"
  proof -
    have "rat_of_nat (2 ^ (a - 1)) \<le> rat_of_nat (nat n)" using A(1) by (simp only: of_nat_le_iff)
    moreover have "int a - 1 = int (a - 1)" using A(3) by simp
    ultimately show "2 powi (int a - 1) \<le> rat_of_int n"
      by (simp only: rn power_int_of_nat of_nat_power of_nat_numeral)
    have "rat_of_nat (2 ^ (b - 1)) \<le> rat_of_nat (nat d)" using B(1) by (simp only: of_nat_le_iff)
    moreover have "int b - 1 = int (b - 1)" using B(3) by simp
    ultimately show "2 powi (int b - 1) \<le> rat_of_int d"
      by (simp only: rn power_int_of_nat of_nat_power of_nat_numeral)
  qed
  define k where "k = int a - int b"
  have dpos: "0 < rat_of_int d" using d by simp
  have "x < 2 powi int a / rat_of_int d"
    unfolding x using up(1) dpos by (rule divide_strict_right_mono)
  also have "\<dots> \<le> 2 powi int a / 2 powi (int b - 1)"
    using lo(2) dpos powi_pos by (intro divide_left_mono mult_pos_pos order_less_imp_le [OF powi_pos])
  also have "\<dots> = 2 powi (k + 1)" by (rule powi_divide) (simp add: k_def)
  finally have hi: "x < 2 powi (k + 1)" .
  have "2 powi (k - 1) = (2::rat) powi (int a - 1) / 2 powi int b"
    by (rule powi_divide [symmetric]) (simp add: k_def)
  also have "\<dots> \<le> rat_of_int n / 2 powi int b" using lo(1) powi_pos by (intro divide_right_mono) (simp_all add: order_less_imp_le)
  also have "\<dots> \<le> x" unfolding x using up(2) n dpos powi_pos
    by (intro divide_left_mono mult_pos_pos) (simp_all add: order_less_imp_le)
  finally have low: "2 powi (k - 1) \<le> x" .
  have eq: "rat_log2 x = (if 2 powi k \<le> x then k else k - 1)"
    by (simp add: rat_log2_def nd a_def b_def k_def)
  show "2 powi rat_log2 x \<le> x" using eq low by simp
  show "x < 2 powi (rat_log2 x + 1)" using eq hi by (cases "2 powi k \<le> x") auto
qed

lemma rat_log2_unique:
  assumes "2 powi k \<le> x" and "x < 2 powi (k + 1)"
  shows "rat_log2 x = k"
proof -
  have pos: "0 < x" using powi_pos [of k] assms(1) by linarith
  note b = rat_log2_bounds [OF pos]
  have "\<not> k + 1 \<le> rat_log2 x" using powi_2_mono [of "k + 1" "rat_log2 x"] b assms by linarith
  moreover have "\<not> rat_log2 x + 1 \<le> k" using powi_2_mono [of "rat_log2 x + 1" k] b assms by linarith
  ultimately show ?thesis by linarith
qed

lemma rat_log2_mono: "0 < x \<Longrightarrow> x \<le> y \<Longrightarrow> rat_log2 x \<le> rat_log2 y"
proof (rule ccontr)
  assume xy: "0 < x" "x \<le> y" and "\<not> rat_log2 x \<le> rat_log2 y"
  then have "(2::rat) powi (rat_log2 y + 1) \<le> 2 powi rat_log2 x" by (intro powi_2_mono) simp
  then show False using rat_log2_bounds [of x] rat_log2_bounds [of y] xy by linarith
qed

subsection \<open>Rounding to a float\<close>

text \<open>The significand before rounding lies in \<open>[2 ^ (p - 1), 2 ^ p)\<close>.\<close>

lemma scaled_bounds:
  assumes "0 < x" and "0 < p"
  shows "of_int (2 ^ (p - 1)) \<le> x / 2 powi (rat_log2 x - int p + 1)"
    and "x / 2 powi (rat_log2 x - int p + 1) < of_int (2 ^ p)"
proof -
  let ?e = "rat_log2 x - int p + 1"
  have "2 powi (rat_log2 x) = (2::rat) powi int (p - 1) * 2 powi ?e"
    using assms(2) by (intro powi_join [symmetric]) (simp add: of_nat_diff)
  then have "(2::rat) powi int (p - 1) \<le> x / 2 powi ?e"
    using rat_log2_bounds(1) [OF assms(1)] powi_pos [of ?e] by (simp only: pos_le_divide_eq)
  then show "of_int (2 ^ (p - 1)) \<le> x / 2 powi ?e" by (simp only: power_powi of_int_power of_int_numeral)
  have "2 powi (rat_log2 x + 1) = (2::rat) powi int p * 2 powi ?e"
    by (intro powi_join [symmetric]) simp
  then have "x / 2 powi ?e < (2::rat) powi int p"
    using rat_log2_bounds(2) [OF assms(1)] powi_pos [of ?e] by (simp only: pos_divide_less_eq)
  then show "x / 2 powi ?e < of_int (2 ^ p)" by (simp only: power_powi of_int_power of_int_numeral)
qed

lemma round_pos_bounds:
  assumes "0 < x" and "0 < p"
  shows "2 powi rat_log2 x \<le> round_pos p x" and "round_pos p x \<le> 2 powi (rat_log2 x + 1)"
proof -
  let ?e = "rat_log2 x - int p + 1"
  let ?r = "round_half_even (x / 2 powi ?e)"
  have lo: "2 ^ (p - 1) \<le> ?r" and hi: "?r \<le> 2 ^ p"
    using scaled_bounds [OF assms] by (auto intro: round_half_even_bounds)
  have "rat_of_int (2 ^ (p - 1)) \<le> of_int ?r" using lo by (simp only: of_int_le_iff)
  then have "(2::rat) powi int (p - 1) * 2 powi ?e \<le> of_int ?r * 2 powi ?e"
    using powi_pos [of ?e] by (intro mult_right_mono) (simp_all only: power_powi of_int_power of_int_numeral less_imp_le)
  moreover have "2 powi int (p - 1) * 2 powi ?e = (2::rat) powi rat_log2 x"
    using assms(2) by (intro powi_join) (simp add: of_nat_diff)
  ultimately show "2 powi rat_log2 x \<le> round_pos p x" by (simp only: round_pos_def Let_def)
  have "rat_of_int ?r \<le> of_int (2 ^ p)" using hi by (simp only: of_int_le_iff)
  then have "of_int ?r * 2 powi ?e \<le> (2::rat) powi int p * 2 powi ?e"
    using powi_pos [of ?e] by (intro mult_right_mono) (simp_all only: power_powi of_int_power of_int_numeral less_imp_le)
  moreover have "2 powi int p * 2 powi ?e = (2::rat) powi (rat_log2 x + 1)"
    by (intro powi_join) simp
  ultimately show "round_pos p x \<le> 2 powi (rat_log2 x + 1)" by (simp only: round_pos_def Let_def)
qed

lemma round_pos_mono:
  assumes "0 < x" and "x \<le> y" and "0 < p"
  shows "round_pos p x \<le> round_pos p y"
proof (cases "rat_log2 x = rat_log2 y")
  case True
  let ?e = "rat_log2 y - int p + 1"
  have "x / 2 powi ?e \<le> y / 2 powi ?e"
    using assms(2) powi_pos [of ?e] by (intro divide_right_mono) (simp_all add: less_imp_le)
  then have "round_half_even (x / 2 powi ?e) \<le> round_half_even (y / 2 powi ?e)"
    by (rule round_half_even_mono)
  then have "rat_of_int (round_half_even (x / 2 powi ?e)) \<le> of_int (round_half_even (y / 2 powi ?e))"
    by simp
  then show ?thesis unfolding round_pos_def True Let_def
    using powi_pos [of ?e] by (intro mult_right_mono) (simp_all add: less_imp_le)
next
  case False
  then have "rat_log2 x + 1 \<le> rat_log2 y" using rat_log2_mono [OF assms(1,2)] by linarith
  then have "(2::rat) powi (rat_log2 x + 1) \<le> 2 powi rat_log2 y" by (rule powi_2_mono)
  then show ?thesis
    using round_pos_bounds [of x p] round_pos_bounds [of y p] assms by linarith
qed

lemma fl_pos_eq: "0 < x \<Longrightarrow> fl p x = round_pos p x"
  by (simp add: fl_def)

lemma fl_pos: "0 < x \<Longrightarrow> 0 < p \<Longrightarrow> 0 < fl p x"
proof -
  assume "0 < x" "0 < p"
  then have "0 < round_pos p x"
    using round_pos_bounds(1) [of x p] less_le_trans [OF powi_pos] by blast
  then show ?thesis using \<open>0 < x\<close> by (simp add: fl_def)
qed

lemma fl_zero [simp]: "fl p 0 = 0"
  by (simp add: fl_def)

lemma fl_nonneg: "0 \<le> x \<Longrightarrow> 0 < p \<Longrightarrow> 0 \<le> fl p x"
  using fl_pos [of x p] by (cases "x = 0") auto

lemma fl_mono:
  assumes "0 \<le> x" and "x \<le> y" and "0 < p"
  shows "fl p x \<le> fl p y"
proof (cases "x = 0")
  case True
  then show ?thesis using fl_nonneg [of y p] assms by simp
next
  case False
  then show ?thesis using round_pos_mono [of x y p] assms by (simp add: fl_def)
qed

text \<open>Values with at most \<open>p\<close> significant bits are exact.\<close>

lemma fl_exact:
  assumes "0 < m" and "m < 2 ^ p" and "0 < p"
  shows "fl p (of_int m * 2 powi e) = of_int m * 2 powi e"
proof -
  let ?x = "rat_of_int m * 2 powi e"
  let ?k = "bit_length (nat m)"
  have m: "2 ^ (?k - 1) \<le> nat m" "nat m < 2 ^ ?k" "0 < ?k"
    using bit_length_bounds [of "nat m"] assms(1) by simp_all
  have "nat m < 2 ^ p" using assms(2) by (simp add: nat_less_iff)
  then have kp: "?k \<le> p" by (simp only: bit_length_less_iff)
  have "2 ^ (?k - 1) \<le> m" "m < 2 ^ ?k"
    using m(1,2) assms(1) by (simp_all add: nat_less_iff le_nat_iff)
  then have "rat_of_int (2 ^ (?k - 1)) \<le> of_int m" "rat_of_int m < of_int (2 ^ ?k)"
    by (simp_all only: of_int_le_iff of_int_less_iff)
  then have lo: "2 powi int (?k - 1) \<le> rat_of_int m" and hi: "rat_of_int m < 2 powi int ?k"
    by (simp_all only: power_powi of_int_power of_int_numeral)
  have "rat_log2 ?x = int (?k - 1) + e"
  proof (rule rat_log2_unique)
    show "2 powi (int (?k - 1) + e) \<le> ?x"
      using mult_right_mono [OF lo less_imp_le [OF powi_pos [of e]]]
      by (simp only: powi_join [OF refl])
    have "int (?k - 1) + e + 1 = int ?k + e" using m(3) by simp
    then show "?x < 2 powi (int (?k - 1) + e + 1)"
      using mult_strict_right_mono [OF hi powi_pos [of e]] by (simp only: powi_join [OF refl])
  qed
  then have ex: "rat_log2 ?x - int p + 1 = e - int (p - ?k)" using m(3) kp by simp
  have j: "2 powi (e - int (p - ?k)) * (2::rat) ^ (p - ?k) = 2 powi e"
    unfolding power_powi by (rule powi_join) simp
  have s: "?x / 2 powi (e - int (p - ?k)) = of_int (m * 2 ^ (p - ?k))"
    using j powi_pos [of "e - int (p - ?k)"] by (simp add: divide_eq_eq ac_simps)
  have "0 < ?x" using assms(1) powi_pos [of e] by simp
  then have "fl p ?x = round_pos p ?x" by (rule fl_pos_eq)
  also have "\<dots> = of_int (m * 2 ^ (p - ?k)) * 2 powi (e - int (p - ?k))"
    unfolding round_pos_def Let_def ex s round_half_even_of_int ..
  also have "\<dots> = ?x" using j by (simp add: ac_simps)
  finally show ?thesis .
qed

text \<open>A positive float, taken apart as \<open>integer_decode\<close> does: a full-width mantissa and an exponent.\<close>

lemma fl_decode:
  assumes "0 < x" and "0 < p"
  shows "\<exists>m e. fl p x = of_int m * 2 powi e \<and> 2 ^ (p - 1) \<le> m \<and> m < 2 ^ p"
proof -
  let ?e = "rat_log2 x - int p + 1"
  let ?r = "round_half_even (x / 2 powi ?e)"
  have lo: "2 ^ (p - 1) \<le> ?r" and hi: "?r \<le> 2 ^ p"
    using scaled_bounds [OF assms] by (auto intro: round_half_even_bounds)
  have f: "fl p x = of_int ?r * 2 powi ?e" using assms(1) by (simp add: fl_def round_pos_def Let_def)
  show ?thesis
  proof (cases "?r = 2 ^ p")
    case True
    have "(2::rat) ^ p * 2 powi ?e = 2 ^ (p - 1) * 2 powi (?e + 1)"
      unfolding power_powi powi_join [OF refl]
      using assms(2) by (intro arg_cong [where f = "power_int 2"]) (simp add: of_nat_diff)
    then have "fl p x = of_int (2 ^ (p - 1)) * 2 powi (?e + 1)" using f True by simp
    moreover have "(2::int) ^ (p - 1) < 2 ^ p" using assms(2) by (intro power_strict_increasing) auto
    ultimately show ?thesis by blast
  next
    case False
    then have "?r < 2 ^ p" using hi by linarith
    then show ?thesis using f lo by blast
  qed
qed

text \<open>Integers below the precision are exact.\<close>

lemma fl_of_int: "0 < m \<Longrightarrow> m < 2 ^ p \<Longrightarrow> fl p (of_int m) = of_int m"
  using fl_exact [of m p 0] by (cases "p = 0") auto

lemma f64_numeral [simp]: "(numeral n :: int) < 2 ^ 53 \<Longrightarrow> f64 (numeral n) = numeral n"
  using fl_of_int [of "numeral n" 53] by simp

lemma f32_numeral [simp]: "(numeral n :: int) < 2 ^ 24 \<Longrightarrow> f32 (numeral n) = numeral n"
  using fl_of_int [of "numeral n" 24] by simp

subsection \<open>Conversions to integers\<close>

text \<open>\<open>round\<close> of the standard library takes ties away from zero; casts truncate and saturate.\<close>

definition round_away :: "rat \<Rightarrow> int" where
  "round_away x = (if x < 0 then - \<lfloor>1 / 2 - x\<rfloor> else \<lfloor>x + 1 / 2\<rfloor>)"

definition trunc_rat :: "rat \<Rightarrow> int" where
  "trunc_rat x = (if x < 0 then \<lceil>x\<rceil> else \<lfloor>x\<rfloor>)"

definition saturate :: "int \<Rightarrow> int \<Rightarrow> int \<Rightarrow> int" where
  "saturate lo hi i = max lo (min hi i)"

lemma round_away_of_int [simp]: "round_away (of_int i) = i"
proof -
  have "\<lfloor>of_int j + 1 / 2 :: rat\<rfloor> = j" for j by linarith
  from this [of i] this [of "- i"] show ?thesis by (simp add: round_away_def)
qed

lemma round_away_error: "\<bar>of_int (round_away x) - x\<bar> \<le> 1 / 2"
proof (cases "x < 0")
  case True
  then have "round_away x = - \<lfloor>1 / 2 - x\<rfloor>" by (simp add: round_away_def)
  then show ?thesis unfolding of_int_minus abs_le_iff by linarith
next
  case False
  then have "round_away x = \<lfloor>x + 1 / 2\<rfloor>" by (simp add: round_away_def)
  then show ?thesis unfolding abs_le_iff by linarith
qed

lemma round_away_mono: "x \<le> y \<Longrightarrow> round_away x \<le> round_away y"
  unfolding round_away_def by (auto intro!: floor_mono simp: minus_le_iff) linarith+

lemma round_away_bounds:
  "of_int a \<le> x \<Longrightarrow> a \<le> round_away x" "x \<le> of_int b \<Longrightarrow> round_away x \<le> b"
  using round_away_mono [of "of_int a" x] round_away_mono [of x "of_int b"] by simp_all

lemma saturate_id: "lo \<le> i \<Longrightarrow> i \<le> hi \<Longrightarrow> saturate lo hi i = i"
  by (simp add: saturate_def)

subsection \<open>Signs and exact differences\<close>

lemma fl_uminus [simp]: "fl p (- x) = - fl p x"
  by (simp add: fl_def)

lemma fl_exact_abs:
  assumes "\<bar>m\<bar> < 2 ^ p" and "0 < p"
  shows "fl p (of_int m * 2 powi e) = of_int m * 2 powi e"
proof (cases m "0 :: int" rule: linorder_cases)
  case less
  then have "fl p (of_int (- m) * 2 powi e) = of_int (- m) * 2 powi e" using assms by (intro fl_exact) simp_all
  then show ?thesis by simp
next
  case greater
  then show ?thesis using assms by (intro fl_exact) simp_all
qed simp

lemma fl_fixed_decode:
  assumes "fl p x = x" and "0 < p"
  shows "\<exists>m e. x = of_int m * 2 powi e \<and> \<bar>m\<bar> < 2 ^ p"
proof (cases x "0 :: rat" rule: linorder_cases)
  case less
  then obtain m e where "fl p (- x) = of_int m * 2 powi e" "2 ^ (p - 1) \<le> m" "m < 2 ^ p"
    using fl_decode [of "- x" p] assms(2) by auto
  moreover from this(2) have "0 \<le> m" by (rule order.trans [rotated]) simp
  ultimately have "x = of_int (- m) * 2 powi e \<and> \<bar>- m\<bar> < 2 ^ p" using assms(1) by simp
  then show ?thesis by blast
next
  case equal
  then show ?thesis by (intro exI [of _ 0]) simp
next
  case greater
  then obtain m e where "fl p x = of_int m * 2 powi e" "2 ^ (p - 1) \<le> m" "m < 2 ^ p"
    using fl_decode [of x p] assms(2) by auto
  moreover from this(2) have "0 \<le> m" by (rule order.trans [rotated]) simp
  ultimately show ?thesis using assms(1) by auto
qed

text \<open>Scaling by a power of two is exact, and so is the distance to a near multiple of one.\<close>

lemma fl_scale:
  assumes "fl p x = x" and "0 < p"
  shows "fl p (x * 2 powi k) = x * 2 powi k" and "fl p (x / 2 powi k) = x / 2 powi k"
proof -
  obtain m e where m: "x = of_int m * 2 powi e" "\<bar>m\<bar> < 2 ^ p" using fl_fixed_decode [OF assms] by blast
  have "x * 2 powi k = of_int m * 2 powi (e + k)" for k by (simp add: m(1) power_int_add)
  then show scale: "fl p (x * 2 powi k) = x * 2 powi k" for k using fl_exact_abs [OF m(2) assms(2)] by simp
  show "fl p (x / 2 powi k) = x / 2 powi k"
    using scale [of "- k"] by (simp add: power_int_minus field_simps)
qed

lemma fl_near_multiple:
  assumes "fl p v = v" and "0 < p" and r: "r = round_away (v / 2 powi e)"
  shows "fl p (of_int r * 2 powi e - v) = of_int r * 2 powi e - v"
proof -
  obtain m q where m: "v = of_int m * 2 powi q" "\<bar>m\<bar> < 2 ^ p" using fl_fixed_decode [OF assms(1,2)] by blast
  show ?thesis
  proof (cases "q \<le> e")
    case True
    define d where "d = r * 2 ^ nat (e - q) - m"
    have "(2::rat) powi e = 2 ^ nat (e - q) * 2 powi q"
      using True powi_join [of "e - q" q e] by (simp add: power_powi)
    then have d: "of_int r * 2 powi e - v = of_int d * 2 powi q" by (simp add: d_def m(1) algebra_simps)
    have "\<bar>of_int r * 2 powi e - v\<bar> \<le> \<bar>v\<bar>"
    proof (cases "r = 0")
      case False
      let ?x = "v / 2 powi e"
      have pos: "0 < (2::rat) powi e" by (rule powi_pos)
      have err: "\<bar>of_int r - ?x\<bar> \<le> 1 / 2" unfolding r by (rule round_away_error)
      have "1 \<le> \<bar>r\<bar>" using False by simp
      then have "1 \<le> \<bar>rat_of_int r\<bar>" by (metis of_int_1_le_iff of_int_abs)
      then have "1 / 2 \<le> \<bar>?x\<bar>" using err by linarith
      then have "\<bar>of_int r - ?x\<bar> \<le> \<bar>?x\<bar>" using err by linarith
      then have "\<bar>of_int r - ?x\<bar> * 2 powi e \<le> \<bar>?x\<bar> * 2 powi e"
        using pos by (intro mult_right_mono) simp_all
      moreover have "\<bar>of_int r - ?x\<bar> * 2 powi e = \<bar>(of_int r - ?x) * 2 powi e\<bar>"
        "\<bar>?x\<bar> * 2 powi e = \<bar>?x * 2 powi e\<bar>" using pos by (simp_all only: abs_mult abs_of_pos)
      moreover have "(of_int r - ?x) * 2 powi e = of_int r * 2 powi e - v" "?x * 2 powi e = v"
        using pos by (simp_all add: algebra_simps)
      ultimately show ?thesis by simp
    qed simp
    then have "\<bar>of_int d * (2::rat) powi q\<bar> \<le> \<bar>of_int m * 2 powi q\<bar>" unfolding d [symmetric] m(1) [symmetric] .
    then have "\<bar>rat_of_int d\<bar> \<le> \<bar>of_int m\<bar>" using powi_pos [of q] by (simp add: abs_mult)
    then have "\<bar>d\<bar> < 2 ^ p" using m(2) by linarith
    then show ?thesis unfolding d by (rule fl_exact_abs) (rule assms(2))
  next
    case False
    have "(2::rat) powi q = 2 ^ nat (q - e) * 2 powi e"
      using False powi_join [of "q - e" e q] by (simp add: power_powi)
    then have k: "v / 2 powi e = of_int (m * 2 ^ nat (q - e))" using powi_pos [of e] by (simp add: m(1))
    then have "r = m * 2 ^ nat (q - e)" by (simp only: r round_away_of_int)
    with k have "of_int r * 2 powi e = v / 2 powi e * 2 powi e" by (simp only:)
    also have "\<dots> = v" using powi_pos [of e] by simp
    finally have "of_int r * 2 powi e = v" .
    then show ?thesis by simp
  qed
qed

lemma fl_idem [simp]: "0 < p \<Longrightarrow> fl p (fl p x) = fl p x"
proof -
  assume p: "0 < p"
  have pos: "fl p (fl p y) = fl p y" if y: "0 < y" for y
  proof -
    obtain m e where "fl p y = of_int m * 2 powi e" "2 ^ (p - 1) \<le> m" "m < 2 ^ p" using fl_decode [OF y p] by blast
    moreover from this(2) have "0 \<le> m" by (rule order.trans [rotated]) simp
    ultimately show ?thesis using fl_exact_abs [of m p e] p by simp
  qed
  show ?thesis
  proof (cases x "0 :: rat" rule: linorder_cases)
    case less
    then show ?thesis using pos [of "- x"] by simp
  qed (simp_all add: pos)
qed

end
