(* ===== verification/Rates.thy ===== *)
theory Rates
  imports Floats Measures
begin

text \<open>
  Share rates and targets: \<open>hashes_in\<close> of \<open>types/hash_rate.rs\<close>, \<open>Div<f64>\<close> of \<open>u256.rs\<close>,
  \<open>types/share_rate.rs\<close>, the integer part of \<open>types/difficulty.rs\<close>, the expected time to a
  share (\<open>types/mod.rs\<close>) and the scheduler's target clamp (\<open>scheduler.rs\<close>). A \<open>Target\<close> is its
  256-bit value. \<open>decode\<close> stands for \<open>num_traits::Float::integer_decode\<close>, \<open>target_max\<close> for
  \<open>bitcoin::Target::MAX\<close> and \<open>difficulty_float\<close> for the method of that name. A panic is \<open>None\<close>.
\<close>

type_synonym Target = u256
type_synonym decoder = "rat \<Rightarrow> u64 \<times> int"

subsection \<open>Division by a float\<close>

definition div_u256_f64 :: "decoder \<Rightarrow> u256 \<Rightarrow> rat \<Rightarrow> u256 option" where
  "div_u256_f64 decode w rhs =
     (if \<not> 0 < rhs then None
      else case decode rhs of
        (mantissa, exponent) \<Rightarrow>
          if exponent \<ge> 0 then
            (let shift = nat exponent
             in if shift + 53 > 256 then Some 0
                else (let divisor = push_bit shift (ucast mantissa :: u256)
                      in if divisor = 0 then None else Some (w div divisor)))
          else shifted_div w (nat (- exponent)) mantissa)"

text \<open>
  What is documented of \<open>integer_decode\<close>: mantissa times power gives the number back; a normal
  \<open>f64\<close> has a 53-bit mantissa.
\<close>

definition decodes :: "decoder \<Rightarrow> bool" where
  "decodes decode \<longleftrightarrow>
     (\<forall>x m e. 0 < x \<longrightarrow> decode (f64 x) = (m, e) \<longrightarrow>
        f64 x = of_nat (unat m) * 2 powi e \<and> 2 ^ 52 \<le> unat m \<and> unat m < 2 ^ 53)"

text \<open>A decoder: the significand of the binary exponent.\<close>

definition decode_float :: decoder where
  "decode_float x = (let e = rat_log2 x - 52 in (of_int \<lfloor>x / 2 powi e\<rfloor>, e))"

lemma decodes_decode_float: "decodes decode_float"
  unfolding decodes_def
proof (intro allI impI)
  fix x :: rat and m :: u64 and e
  assume x: "0 < x" and dec: "decode_float (f64 x) = (m, e)"
  from fl_decode [OF x, of 53] obtain k i where ki: "f64 x = of_int k * 2 powi i"
    "2 ^ 52 \<le> k" "k < 2 ^ 53" by auto
  have kr: "(2::rat) powi 52 \<le> of_int k" "rat_of_int k < 2 powi 53"
  proof -
    have "rat_of_int (2 ^ 52) \<le> of_int k" "rat_of_int k < of_int (2 ^ 53)"
      using ki by (simp_all only: of_int_le_iff of_int_less_iff)
    then show "(2::rat) powi 52 \<le> of_int k" "rat_of_int k < 2 powi 53" by simp_all
  qed
  have "rat_log2 (f64 x) = 52 + i"
  proof (rule rat_log2_unique)
    show "2 powi (52 + i) \<le> f64 x"
      using mult_right_mono [OF kr(1) less_imp_le [OF powi_pos [of i]]]
      by (simp only: ki(1) powi_join [OF refl])
    have "52 + i + 1 = 53 + i" by simp
    then show "f64 x < 2 powi (52 + i + 1)"
      using mult_strict_right_mono [OF kr(2) powi_pos [of i]] by (simp only: ki(1) powi_join [OF refl])
  qed
  then have "e = i" and "m = of_int \<lfloor>f64 x / 2 powi i\<rfloor>"
    using dec by (auto simp: decode_float_def Let_def)
  moreover have "f64 x / 2 powi i = of_int k" using powi_pos [of i] by (simp add: ki(1))
  ultimately have m: "m = of_int k" and e: "e = i" by simp_all
  have "take_bit 64 k = k" using ki(2,3) by (intro take_bit_int_eq_self) simp_all
  then have "unat m = nat k"
    by (simp add: m unat_eq_nat_uint uint_word_of_int_eq)
  moreover have "rat_of_nat (nat k) = of_int k" using ki(2) by simp
  ultimately show "f64 x = of_nat (unat m) * 2 powi e \<and> 2 ^ 52 \<le> unat m \<and> unat m < 2 ^ 53"
    using ki by (simp add: e nat_le_iff le_nat_iff nat_less_iff)
qed

text \<open>Division by a float is the exact quotient rounded down, clipped to 256 bits.\<close>

lemma unat_u256_less: "unat (w :: u256) < 2 ^ 256"
  by (rule order.strict_trans2 [OF unsigned_less]) simp

text \<open>The largest 256-bit value, kept folded in the proofs.\<close>

definition max_u256 :: nat where
  "max_u256 = 2 ^ 256 - 1"

lemma unat_max_u256: "unat (- 1 :: u256) = max_u256"
  by (simp add: unsigned_minus_1_eq_mask mask_eq_exp_minus_1 max_u256_def)

lemma unat_le_max_u256: "unat (w :: u256) \<le> max_u256"
  using unat_u256_less [of w] by (simp add: max_u256_def)

lemma unat_u64_u256: "unat (ucast (m :: u64) :: u256) = unat m"
  by (simp add: unsigned_ucast_eq take_bit_nat_eq_self_iff) (rule less_le_trans, rule unsigned_less, simp)

lemma unat_push_u256:
  assumes "unat m < 2 ^ 53" and "s \<le> 203"
  shows "unat (push_bit s (ucast (m :: u64) :: u256)) = unat m * 2 ^ s"
proof -
  have "(2::nat) ^ s \<le> 2 ^ 203" using assms(2) by (rule power_increasing) simp
  then have "unat m * 2 ^ s < 2 ^ 53 * 2 ^ 203"
    using assms(1) by (meson le_less_trans mult_le_mono2 mult_less_mono1 zero_less_numeral zero_less_power)
  then have lt: "unat m * 2 ^ s < 2 ^ 256" by simp
  have "unat (push_bit s (ucast m :: u256)) = take_bit 256 (push_bit s (unat m))"
    by (simp only: unsigned_push_bit_eq unat_u64_u256) simp
  then show ?thesis using lt by (simp only: push_bit_eq_mult take_bit_nat_eq_self_iff)
qed

lemma floor_quotient: "\<lfloor>rat_of_nat a / rat_of_nat b\<rfloor> = int (a div b)"
  by (rule floor_divide_of_nat_eq)

lemma div_u256_f64_shift:
  assumes x: "x = of_nat (unat m * 2 ^ nat e)" and m: "0 < unat m" "unat m < 2 ^ 53"
    and me: "decode x = (m, e)" and e: "0 \<le> e" "nat e + 53 \<le> 256"
  shows "\<exists>q. div_u256_f64 decode w x = Some q \<and> int (unat q) = \<lfloor>rat_of_nat (unat w) / x\<rfloor>"
proof -
  let ?d = "push_bit (nat e) (ucast m :: u256)"
  have d: "unat ?d = unat m * 2 ^ nat e" using m e by (intro unat_push_u256) auto
  have nz: "?d \<noteq> 0"
  proof
    assume "?d = 0"
    then have "unat ?d = 0" by (simp only: unat_0)
    then show False using d m(1) by simp
  qed
  have "0 < unat m * 2 ^ nat e" using m(1) by simp
  then have pos: "0 < x" unfolding x by (rule of_nat_0_less_iff [THEN iffD2])
  have "div_u256_f64 decode w x = Some (w div ?d)"
    using pos me e nz by (simp add: div_u256_f64_def Let_def)
  moreover have "int (unat (w div ?d)) = \<lfloor>rat_of_nat (unat w) / x\<rfloor>"
    unfolding x floor_quotient unat_div d ..
  ultimately show ?thesis by blast
qed

lemma div_u256_f64_huge:
  assumes x: "x = of_nat (unat m * 2 ^ nat e)" and m: "2 ^ 52 \<le> unat m"
    and me: "decode x = (m, e)" and e: "0 \<le> e" "256 < nat e + 53"
  shows "div_u256_f64 decode w x = Some 0 \<and> \<lfloor>rat_of_nat (unat w) / x\<rfloor> = 0"
proof -
  have "(2::nat) ^ 204 \<le> 2 ^ nat e" using e by (intro power_increasing) simp_all
  with m have "2 ^ 52 * 2 ^ 204 \<le> unat m * 2 ^ nat e" by (rule mult_le_mono)
  then have big: "2 ^ 256 \<le> unat m * 2 ^ nat e" by simp
  then have "unat w < unat m * 2 ^ nat e" by (rule less_le_trans [OF unat_u256_less])
  then have "\<lfloor>rat_of_nat (unat w) / x\<rfloor> = 0" unfolding x floor_quotient by simp
  moreover have "0 < unat m * 2 ^ nat e" using big by (rule less_le_trans [rotated]) simp
  then have "0 < x" unfolding x by (rule of_nat_0_less_iff [THEN iffD2])
  ultimately show ?thesis using me e by (simp add: div_u256_f64_def Let_def)
qed

lemma div_u256_f64_neg:
  assumes x: "x = of_nat (unat m) / 2 ^ nat (- e)" and m: "0 < unat m"
    and me: "decode x = (m, e)" and e: "e < 0"
  shows "\<exists>q. div_u256_f64 decode w x = Some q \<and>
    int (unat q) = min \<lfloor>rat_of_nat (unat w) / x\<rfloor> (int max_u256)"
proof -
  define s where "s = nat (- e)"
  define n where "n = unat m"
  define k where "k = unat w"
  have mz: "m \<noteq> 0" using m by auto
  have pos: "0 < x" using m unfolding x n_def [symmetric] by simp
  have q: "rat_of_nat k / x = of_nat (k * 2 ^ s) / of_nat n"
    using m unfolding x n_def [symmetric] s_def [symmetric] by (simp add: field_simps)
  obtain q where sd: "shifted_div w s m = Some q" "unat q = min (k * 2 ^ s div n) max_u256"
    using shifted_div_exact [OF mz] unfolding k_def n_def max_u256_def by blast
  have "int (unat q) = min (int (k * 2 ^ s div n)) (int max_u256)"
    unfolding sd(2) by (rule of_nat_min)
  moreover have "div_u256_f64 decode w x = shifted_div w s m"
    using pos me e by (simp add: div_u256_f64_def s_def)
  ultimately show ?thesis unfolding k_def [symmetric] q floor_quotient using sd(1) by simp
qed

lemma div_u256_f64_exact:
  assumes dec: "decodes decode" and y: "0 < y"
  shows "\<exists>q. div_u256_f64 decode w (f64 y) = Some q \<and>
    int (unat q) = min \<lfloor>rat_of_nat (unat w) / f64 y\<rfloor> (int max_u256)"
proof -
  obtain m e where me: "decode (f64 y) = (m, e)" by (cases "decode (f64 y)")
  then have x: "f64 y = of_nat (unat m) * 2 powi e" and m: "2 ^ 52 \<le> unat m" "unat m < 2 ^ 53"
    using dec y unfolding decodes_def by blast+
  have m0: "0 < unat m" using m(1) by (rule less_le_trans [rotated]) simp
  have small: "int (unat q) \<le> int max_u256" for q :: u256
    by (simp only: of_nat_le_iff unat_le_max_u256)
  consider (shift) "0 \<le> e" "nat e + 53 \<le> 256" | (huge) "0 \<le> e" "256 < nat e + 53" | (neg) "e < 0"
    by linarith
  then show ?thesis
  proof cases
    case shift
    have "f64 y = of_nat (unat m * 2 ^ nat e)"
      unfolding x of_nat_mult using shift(1) by (simp only: power_int_def if_True of_nat_power of_nat_numeral)
    from div_u256_f64_shift [where decode = decode, OF this m0 m(2) me shift] obtain q where
      q: "div_u256_f64 decode w (f64 y) = Some q" "int (unat q) = \<lfloor>rat_of_nat (unat w) / f64 y\<rfloor>"
      by blast
    then show ?thesis using small [of q] by (simp del: of_nat_unat)
  next
    case huge
    have "f64 y = of_nat (unat m * 2 ^ nat e)"
      unfolding x of_nat_mult using huge(1) by (simp only: power_int_def if_True of_nat_power of_nat_numeral)
    from div_u256_f64_huge [where decode = decode, OF this m(1) me huge] show ?thesis by simp
  next
    case neg
    have "f64 y = of_nat (unat m) / 2 ^ nat (- e)"
      unfolding x using neg by (simp only: power_int_def not_le [symmetric] if_False power_inverse divide_inverse)
    from div_u256_f64_neg [where decode = decode, OF this m0 me neg] show ?thesis .
  qed
qed

subsection \<open>Targets for a share rate\<close>

text \<open>\<open>Duration::as_secs_f64\<close>: seconds plus nanoseconds over 10 ^ 9.\<close>

definition as_secs_f64 :: "duration \<Rightarrow> rat" where
  "as_secs_f64 d =
     f64 (f64 (of_nat (d div 1000000000)) + f64 (f64 (of_nat (d mod 1000000000)) / f64 1000000000))"

definition hashes_in :: "HashRate \<Rightarrow> duration \<Rightarrow> rat" where
  "hashes_in rate d = f64 (f64 (of_nat (unat rate)) * as_secs_f64 d)"

type_synonym ShareRate = duration

definition ShareRate_from_interval :: "duration \<Rightarrow> ShareRate option" where
  "ShareRate_from_interval interval = (if interval = 0 then None else Some interval)"

definition to_target :: "decoder \<Rightarrow> ShareRate \<Rightarrow> HashRate \<Rightarrow> Target option" where
  "to_target decode rate hashrate =
     (let hashes_per_share = hashes_in hashrate rate
      in if hashes_per_share \<le> 1 then Some (- 1)
         else div_u256_f64 decode (- 1) hashes_per_share)"

definition MEASUREMENT_SHARE_RATE :: ShareRate where
  "MEASUREMENT_SHARE_RATE = 1000000000"

definition FLOOD_CAP_RATE :: ShareRate where
  "FLOOD_CAP_RATE = 100000000"

text \<open>\<open>Ord::clamp\<close> panics when the bounds are out of order.\<close>

definition clamp :: "Target \<Rightarrow> Target \<Rightarrow> Target \<Rightarrow> Target option" where
  "clamp x lo hi =
     (if \<not> lo \<le> hi then None else Some (if x < lo then lo else if hi < x then hi else x))"

definition compute_scheduler_target :: "decoder \<Rightarrow> HashRate \<Rightarrow> Target \<Rightarrow> Target option" where
  "compute_scheduler_target decode hashrate source_target =
     (if HashRate_is_zero hashrate then Some source_target
      else case to_target decode MEASUREMENT_SHARE_RATE hashrate of
        None \<Rightarrow> None
      | Some measurement_target \<Rightarrow>
          (case to_target decode FLOOD_CAP_RATE hashrate of
             None \<Rightarrow> None
           | Some flood_cap_target \<Rightarrow> clamp source_target measurement_target flood_cap_target))"

lemma f64_of_nat_nonneg [simp]: "0 \<le> f64 (rat_of_nat n)"
  by (rule fl_nonneg) simp_all

lemma as_secs_f64_nonneg [simp]: "0 \<le> as_secs_f64 d"
  unfolding as_secs_f64_def
  by (intro fl_nonneg add_nonneg_nonneg divide_nonneg_nonneg f64_of_nat_nonneg) simp_all

lemma hashes_in_mono:
  assumes "h \<le> h'" and "as_secs_f64 d \<le> as_secs_f64 d'"
  shows "hashes_in h d \<le> hashes_in h' d'"
proof -
  have "f64 (of_nat (unat h)) \<le> f64 (of_nat (unat h'))"
    using assms(1) by (intro fl_mono of_nat_0_le_iff) (simp_all del: of_nat_unat add: word_le_nat_alt)
  then have "f64 (of_nat (unat h)) * as_secs_f64 d \<le> f64 (of_nat (unat h')) * as_secs_f64 d'"
    using assms(2) by (intro mult_mono f64_of_nat_nonneg as_secs_f64_nonneg)
  moreover have "0 \<le> f64 (of_nat (unat h)) * as_secs_f64 d"
    by (intro mult_nonneg_nonneg f64_of_nat_nonneg as_secs_f64_nonneg)
  ultimately show ?thesis unfolding hashes_in_def by (rule_tac fl_mono) simp_all
qed

text \<open>A target always exists, and it is the 256-bit maximum over the hashes per share.\<close>

lemma to_target_value:
  assumes "decodes decode"
  shows "\<exists>t. to_target decode rate h = Some t \<and>
    int (unat t) = (if hashes_in h rate \<le> 1 then int max_u256
                     else \<lfloor>rat_of_nat max_u256 / hashes_in h rate\<rfloor>)"
proof (cases "hashes_in h rate \<le> 1")
  case True
  then show ?thesis by (simp del: of_nat_unat add: to_target_def unat_max_u256)
next
  case False
  let ?y = "f64 (of_nat (unat h)) * as_secs_f64 rate"
  have hy: "hashes_in h rate = f64 ?y" by (simp add: hashes_in_def)
  have "?y \<noteq> 0" using False hy by auto
  moreover have "0 \<le> ?y" by (intro mult_nonneg_nonneg f64_of_nat_nonneg as_secs_f64_nonneg)
  ultimately have "0 < ?y" by (simp only: order.strict_iff_order) simp
  from div_u256_f64_exact [OF assms this, of "- 1"] obtain t where
    t: "div_u256_f64 decode (- 1) (f64 ?y) = Some t"
    "int (unat t) = min \<lfloor>rat_of_nat max_u256 / f64 ?y\<rfloor> (int max_u256)"
    unfolding unat_max_u256 by blast
  have "rat_of_nat n / f64 ?y \<le> rat_of_nat n" for n
    using False hy divide_left_mono [of 1 "f64 ?y" "rat_of_nat n"] by simp
  then have "\<lfloor>rat_of_nat n / f64 ?y\<rfloor> \<le> \<lfloor>rat_of_nat n\<rfloor>" for n by (rule floor_mono)
  then have "\<lfloor>rat_of_nat max_u256 / f64 ?y\<rfloor> \<le> int max_u256"
    unfolding floor_of_nat by blast
  then have "int (unat t) = \<lfloor>rat_of_nat max_u256 / f64 ?y\<rfloor>" unfolding t(2) by (rule min_absorb1)
  then show ?thesis using t(1) False hy by (simp only: to_target_def Let_def if_False) blast
qed

text \<open>More hashes per share give a smaller, that is harder, target.\<close>

lemma to_target_antimono:
  assumes dec: "decodes decode" and le: "hashes_in h d \<le> hashes_in h' d'"
    and t: "to_target decode d h = Some t" "to_target decode d' h' = Some t'"
  shows "t' \<le> t"
proof -
  let ?a = "hashes_in h d" and ?b = "hashes_in h' d'"
  have a: "int (unat t) = (if ?a \<le> 1 then int max_u256 else \<lfloor>rat_of_nat max_u256 / ?a\<rfloor>)"
    using to_target_value [OF dec, of d h] t(1) by (simp only: option.inject) blast
  have b: "int (unat t') = (if ?b \<le> 1 then int max_u256 else \<lfloor>rat_of_nat max_u256 / ?b\<rfloor>)"
    using to_target_value [OF dec, of d' h'] t(2) by (simp only: option.inject) blast
  have "int (unat t') \<le> int (unat t)"
  proof (cases "?a \<le> 1")
    case True
    then show ?thesis unfolding a by (simp only: if_True of_nat_le_iff unat_le_max_u256)
  next
    case False
    then have "rat_of_nat n / ?b \<le> rat_of_nat n / ?a" for n using le by (intro divide_left_mono) auto
    then have "\<lfloor>rat_of_nat n / ?b\<rfloor> \<le> \<lfloor>rat_of_nat n / ?a\<rfloor>" for n by (rule floor_mono)
    moreover have "\<not> ?b \<le> 1" using False le by linarith
    ultimately show ?thesis unfolding a b using False by (simp only: if_False)
  qed
  then show ?thesis by (simp only: of_nat_le_iff word_le_nat_alt)
qed

lemma f64_nat: "0 < n \<Longrightarrow> n < 2 ^ 53 \<Longrightarrow> f64 (of_nat n) = of_nat n"
  using fl_exact [of "int n" 53 0] by simp

lemma f64_power2: "f64 (2 powi e) = 2 powi e"
  using fl_exact [of 1 53 e] by simp

lemma f64_one [simp]: "f64 1 = 1"
  using f64_nat [of 1] by simp

lemma flood_interval_le: "as_secs_f64 FLOOD_CAP_RATE \<le> as_secs_f64 MEASUREMENT_SHARE_RATE"
proof -
  have big: "f64 1000000000 = 1000000000" "f64 100000000 = 100000000"
    using f64_nat [of 1000000000] f64_nat [of 100000000] by simp_all
  have m: "as_secs_f64 MEASUREMENT_SHARE_RATE = 1"
    by (simp add: as_secs_f64_def MEASUREMENT_SHARE_RATE_def)
  have "f64 (1 / 10) \<le> f64 1" by (rule fl_mono) simp_all
  then have "f64 (f64 (1 / 10)) \<le> f64 1" by (intro fl_mono) (simp_all add: fl_nonneg)
  then show ?thesis
    unfolding m by (simp add: as_secs_f64_def FLOOD_CAP_RATE_def big)
qed

text \<open>The scheduler's clamp never sees its bounds out of order, and keeps the target between them.\<close>

lemma compute_scheduler_target_bounds:
  assumes dec: "decodes decode" and h: "h \<noteq> 0"
  shows "\<exists>lo hi t. to_target decode MEASUREMENT_SHARE_RATE h = Some lo \<and>
    to_target decode FLOOD_CAP_RATE h = Some hi \<and> lo \<le> hi \<and>
    compute_scheduler_target decode h source = Some t \<and> lo \<le> t \<and> t \<le> hi \<and>
    (lo \<le> source \<longrightarrow> source \<le> hi \<longrightarrow> t = source)"
proof -
  obtain lo hi where lo: "to_target decode MEASUREMENT_SHARE_RATE h = Some lo"
    and hi: "to_target decode FLOOD_CAP_RATE h = Some hi"
    using to_target_value [OF dec] by blast
  have "lo \<le> hi"
    using hashes_in_mono [of h h, OF order_refl flood_interval_le]
    by (rule to_target_antimono [OF dec _ hi lo])
  then show ?thesis
    using h lo hi by (auto simp: compute_scheduler_target_def HashRate_is_zero_def clamp_def not_less)
qed

lemma compute_scheduler_target_zero: "compute_scheduler_target decode 0 source = Some source"
  by (simp add: compute_scheduler_target_def HashRate_is_zero_def)

subsection \<open>Difficulty\<close>

datatype Difficulty = Difficulty (difficulty_target: Target)

definition Difficulty_MAX :: Difficulty where
  "Difficulty_MAX = Difficulty 0"

definition Difficulty_from_u64 :: "Target \<Rightarrow> u64 \<Rightarrow> Difficulty" where
  "Difficulty_from_u64 target_max diff =
     (if diff = 0 then Difficulty target_max else Difficulty (target_max div ucast diff))"

text \<open>The float is finite here; \<open>None\<close> is the panic of a division, which the guard excludes.\<close>

definition Difficulty_from_f64 :: "decoder \<Rightarrow> Target \<Rightarrow> rat \<Rightarrow> Difficulty option" where
  "Difficulty_from_f64 decode target_max value =
     (if value \<le> 0 then Some (Difficulty target_max)
      else map_option Difficulty (div_u256_f64 decode target_max value))"

definition Difficulty_from_hash :: "u256 \<Rightarrow> Difficulty" where
  "Difficulty_from_hash hash_u256 = (if hash_u256 = 0 then Difficulty_MAX else Difficulty hash_u256)"

text \<open>
  \<open>as_f64\<close>: \<open>difficulty_float\<close> of the bitcoin crate is infinite, here \<open>None\<close>, for the target zero;
  \<open>log10\<close> and the powers of ten are those of the platform, \<open>None\<close> a power that overflows.
\<close>

record float_functions =
  ff_difficulty_float :: "Target \<Rightarrow> rat option"
  ff_log10 :: "rat \<Rightarrow> rat"
  ff_powi10 :: "int \<Rightarrow> rat option"

definition f64_max :: rat where
  "f64_max = of_int (2 ^ 53 - 1) * 2 ^ 971"

definition PRECISION_DIGITS :: int where
  "PRECISION_DIGITS = 12"

definition round_significant :: "float_functions \<Rightarrow> rat \<Rightarrow> int \<Rightarrow> rat" where
  "round_significant ff x digits =
     (if x = 0 then x
      else
        (let magnitude = \<lfloor>ff_log10 ff \<bar>x\<bar>\<rfloor>
         in case ff_powi10 ff (digits - 1 - magnitude) of
              None \<Rightarrow> x
            | Some scale \<Rightarrow> f64 (of_int (round_away (f64 (x * scale))) / scale)))"

definition Difficulty_as_f64 :: "float_functions \<Rightarrow> Difficulty \<Rightarrow> rat" where
  "Difficulty_as_f64 ff d =
     (case ff_difficulty_float ff (difficulty_target d) of
        None \<Rightarrow> f64_max
      | Some raw \<Rightarrow> round_significant ff raw PRECISION_DIGITS)"

definition Difficulty_as_u64 :: "float_functions \<Rightarrow> Difficulty \<Rightarrow> u64" where
  "Difficulty_as_u64 ff d =
     (let f = Difficulty_as_f64 ff d
      in if f64 (2 ^ 64 - 1) \<le> f then - 1 else if f \<le> 0 then 0 else of_int \<lfloor>f\<rfloor>)"

instantiation Difficulty :: linorder
begin

text \<open>\<open>Ord for Difficulty\<close> compares the targets the other way round.\<close>

definition less_eq_Difficulty :: "Difficulty \<Rightarrow> Difficulty \<Rightarrow> bool" where
  "less_eq_Difficulty a b \<longleftrightarrow> difficulty_target b \<le> difficulty_target a"

definition less_Difficulty :: "Difficulty \<Rightarrow> Difficulty \<Rightarrow> bool" where
  "less_Difficulty a b \<longleftrightarrow> difficulty_target b < difficulty_target a"

instance
  by standard (auto simp: less_eq_Difficulty_def less_Difficulty_def Difficulty.expand)

end

lemma Difficulty_from_u64_mono:
  assumes "0 < d" and "d \<le> d'"
  shows "Difficulty_from_u64 m d \<le> Difficulty_from_u64 m d'"
proof -
  have "unat d' \<noteq> 0" "unat d \<noteq> 0" "unat d \<le> unat d'"
    using assms by (simp_all add: unat_eq_0 word_le_nat_alt) (auto simp: word_less_nat_alt)
  then have "unat m div unat d' \<le> unat m div unat d" by (intro div_le_mono2) simp_all
  then show ?thesis
    using \<open>unat d \<noteq> 0\<close> \<open>unat d' \<noteq> 0\<close>
    by (simp add: Difficulty_from_u64_def less_eq_Difficulty_def word_le_nat_alt unat_div unat_u64_u256 unat_eq_0)
qed

subsection \<open>Expected time to a share\<close>

definition DURATION_MAX :: duration where
  "DURATION_MAX = 2 ^ 64 * 1000000000 - 1"

text \<open>\<open>Duration::from_secs_f64\<close> panics on a value of 2 ^ 64 seconds or more.\<close>

definition from_secs_f64 :: "rat \<Rightarrow> duration option" where
  "from_secs_f64 s = (if s < 0 \<or> 2 ^ 64 \<le> s then None else Some (nat (round_half_even (s * 1000000000))))"

text \<open>\<open>difficulty_float\<close> is infinite, here \<open>None\<close>, for the target zero.\<close>

definition expected_time_to_share_from_target ::
    "(Target \<Rightarrow> rat option) \<Rightarrow> Target \<Rightarrow> HashRate \<Rightarrow> duration option" where
  "expected_time_to_share_from_target difficulty_float target hashrate =
     (if hashrate = 0 then Some DURATION_MAX
      else case difficulty_float target of
        None \<Rightarrow> Some DURATION_MAX
      | Some difficulty \<Rightarrow>
          (let hashes_per_share = f64 (difficulty * f64 (f64 4294967295 + 1));
               shares_per_sec = f64 (f64 (of_nat (unat hashrate)) / hashes_per_share)
           in if shares_per_sec \<le> 0 then Some DURATION_MAX
              else from_secs_f64 (f64 (1 / shares_per_sec))))"

definition HIGH_DIFFICULTY_THRESHOLD :: duration where
  "HIGH_DIFFICULTY_THRESHOLD = 300 * 1000000000"

definition is_difficulty_too_high :: "(Target \<Rightarrow> rat option) \<Rightarrow> Target \<Rightarrow> HashRate \<Rightarrow> bool option" where
  "is_difficulty_too_high difficulty_float share_target hashrate =
     (if HashRate_is_zero hashrate then Some False
      else map_option (\<lambda>time_to_share. HIGH_DIFFICULTY_THRESHOLD < time_to_share)
        (expected_time_to_share_from_target difficulty_float share_target hashrate))"

lemma f64_2_32: "f64 (f64 4294967295 + 1) = 4294967296"
  using f64_nat [of 4294967295] f64_nat [of 4294967296] by simp

text \<open>
  The difficulty check panics, instead of answering that the difficulty is too high, once the
  expected interval reaches 2 ^ 64 seconds.
\<close>

lemma is_difficulty_too_high_panics:
  assumes h: "h \<noteq> 0" and df: "difficulty_float target = Some d"
    and big: "f64 (of_nat (unat h)) * 2 ^ 64 \<le> f64 (d * 4294967296)"
  shows "is_difficulty_too_high difficulty_float target h = None"
proof -
  define r where "r = f64 (of_nat (unat h))"
  define s where "s = f64 (d * 4294967296)"
  have "0 < unat h" using h by (simp add: unat_gt_0)
  then have r: "0 < r" unfolding r_def by (intro fl_pos) (simp_all del: of_nat_unat)
  have rs: "r * 2 ^ 64 \<le> s" using big by (simp only: r_def s_def)
  then have s: "0 < s" using r by (rule_tac less_le_trans [of _ "r * 2 ^ 64"]) simp_all
  have "r / s \<le> 2 powi (- 64)" using rs s by (simp add: pos_divide_le_eq power_int_def field_simps)
  moreover have "0 < r / s" using r s by simp
  ultimately have q: "f64 (r / s) \<le> 2 powi (- 64)" "0 < f64 (r / s)"
    using fl_mono [of "r / s" "2 powi (- 64)" 53] f64_power2 [of "- 64"] fl_pos [of "r / s" 53] by simp_all
  have "1 / (2 powi (- 64)) \<le> 1 / f64 (r / s)" using q by (intro divide_left_mono) simp_all
  then have "2 powi 64 \<le> 1 / f64 (r / s)" by (simp add: power_int_def power_one_over)
  then have "f64 (2 powi 64) \<le> f64 (1 / f64 (r / s))" by (intro fl_mono) simp_all
  then have "2 ^ 64 \<le> f64 (1 / f64 (r / s))" unfolding f64_power2 by simp
  then have "from_secs_f64 (f64 (1 / f64 (r / s))) = None" by (simp add: from_secs_f64_def)
  then have "expected_time_to_share_from_target difficulty_float target h = None"
    using h df q(2)
    by (simp only: expected_time_to_share_from_target_def f64_2_32 r_def s_def if_False Let_def option.case not_le [symmetric])
  then show ?thesis using h by (simp add: is_difficulty_too_high_def HashRate_is_zero_def)
qed

end
