(* ===== verification/Chip_Config.thy ===== *)
theory Chip_Config
  imports Rates Register_Fields
begin

text \<open>
  Per-model chip configuration (\<open>asic/bm13xx/chip_config.rs\<close>), frequencies
  (\<open>types/frequency.rs\<close>), and the frequency ramp of \<open>asic/bm13xx/thread.rs\<close>. The PLL search
  runs in \<open>f32\<close>, each operation rounded as the code orders them. The lemmas show that the search
  returns an admissible divider setting of least error, ties going to the lowest VCO, and that
  the ramp ends exactly on its target in steps of at most the configured size.
\<close>

subsection \<open>Frequencies\<close>

type_synonym Frequency = u64

text \<open>Casts from a float saturate; \<open>as f32\<close> and \<open>as f64\<close> round to nearest.\<close>

definition float_to_u64 :: "rat \<Rightarrow> u64" where
  "float_to_u64 x =
     (if x \<le> 0 then 0 else if 2 ^ 64 \<le> x then 0xffffffffffffffff else of_int \<lfloor>x\<rfloor>)"

definition float_to_u8 :: "rat \<Rightarrow> u8" where
  "float_to_u8 x = (if x \<le> 0 then 0 else if 255 \<le> x then 255 else of_int \<lfloor>x\<rfloor>)"

definition Frequency_from_mhz :: "rat \<Rightarrow> Frequency" where
  "Frequency_from_mhz mhz = float_to_u64 (f32 (mhz * f32 1000000))"

definition Frequency_khz :: "Frequency \<Rightarrow> u32" where
  "Frequency_khz f = ucast (f div 1000)"

definition Frequency_from_khz :: "u32 \<Rightarrow> Frequency" where
  "Frequency_from_khz khz = ucast khz * 1000"

definition Frequency_mhz :: "Frequency \<Rightarrow> rat" where
  "Frequency_mhz f = f32 (f32 (of_nat (unat f)) / f32 1000000)"

definition HashRate_from_gigahashes :: "rat \<Rightarrow> HashRate" where
  "HashRate_from_gigahashes gh = float_to_u64 (f64 (gh * f64 1000000000))"

definition HashRate_from_terahashes :: "rat \<Rightarrow> HashRate" where
  "HashRate_from_terahashes th = float_to_u64 (f64 (th * f64 1000000000000))"

subsection \<open>Configuration\<close>

record PllParams =
  pp_fb_div_min :: u8
  pp_fb_div_max :: u8
  pp_vco_min_mhz :: rat
  pp_vco_max_mhz :: rat

record ChipConfig =
  cfg_model :: ChipModel
  cfg_freq_range :: "Frequency \<times> Frequency"
  cfg_default_freq :: Frequency
  cfg_ramp_step :: Frequency
  cfg_hash_counting_number :: HashCountingReg
  cfg_nameplate :: HashRate
  cfg_soft_reset_defaults :: SoftResetReg
  cfg_core_reset :: SoftResetReg
  cfg_misc_control :: MiscControlReg
  cfg_analog_mux :: AnalogMuxReg
  cfg_clock_select :: CoreCommandReg
  cfg_pll_params :: PllParams

definition verify_model :: "ChipConfig \<Rightarrow> ChipModel \<Rightarrow> bool" where
  "verify_model cfg model \<longleftrightarrow> cfg_model cfg = model"

definition bm1362 :: ChipConfig where
  "bm1362 =
     \<lparr>cfg_model = BM1362,
      cfg_freq_range = (Frequency_from_mhz (225 / 4), Frequency_from_mhz 525),
      cfg_default_freq = Frequency_from_mhz 525,
      cfg_ramp_step = Frequency_from_mhz (25 / 4),
      cfg_hash_counting_number = \<lparr>hcn_ticks = 0x1381\<rparr>,
      cfg_nameplate = HashRate_from_gigahashes 275,
      cfg_soft_reset_defaults = SoftResetControl_defaults BM1362,
      cfg_core_reset = SoftResetControl_core_reset BM1362,
      cfg_misc_control = MiscControl_reporting_enabled BM1362,
      cfg_analog_mux = AnalogMux_bring_up BM1362,
      cfg_clock_select = CoreCommand_write_all ClockSelectBM1362 0x40,
      cfg_pll_params = \<lparr>pp_fb_div_min = 0x10, pp_fb_div_max = 0xfa,
        pp_vco_min_mhz = 2000, pp_vco_max_mhz = 3200\<rparr>\<rparr>"

definition bm1370 :: ChipConfig where
  "bm1370 =
     \<lparr>cfg_model = BM1370,
      cfg_freq_range = (Frequency_from_mhz (225 / 4), Frequency_from_mhz 600),
      cfg_default_freq = Frequency_from_mhz 525,
      cfg_ramp_step = Frequency_from_mhz (25 / 4),
      cfg_hash_counting_number = \<lparr>hcn_ticks = 0x1EB5\<rparr>,
      cfg_nameplate = HashRate_from_terahashes (f64 (12 / 10)),
      cfg_soft_reset_defaults = SoftResetControl_defaults BM1370,
      cfg_core_reset = SoftResetControl_core_reset BM1370,
      cfg_misc_control = MiscControl_reporting_enabled BM1370,
      cfg_analog_mux = AnalogMux_bring_up BM1370,
      cfg_clock_select = CoreCommand_write_all ClockSelectBM1368 0x00,
      cfg_pll_params = \<lparr>pp_fb_div_min = 0xa0, pp_fb_div_max = 0xef,
        pp_vco_min_mhz = 1600, pp_vco_max_mhz = 3200\<rparr>\<rparr>"

subsection \<open>The PLL search\<close>

definition CRYSTAL_MHZ :: rat where
  "CRYSTAL_MHZ = 25"

definition F32_MAX :: rat where
  "F32_MAX = (2 - 2 powi - 23) * 2 powi 127"

text \<open>\<open>f32::round\<close>: half away from zero, on the positive values it is used on.\<close>

definition round_away :: "rat \<Rightarrow> rat" where
  "round_away x = of_int \<lfloor>x + 1 / 2\<rfloor>"

text \<open>The divider triples in the order of the three nested loops.\<close>

definition pll_candidates :: "(nat \<times> nat \<times> nat) list" where
  "pll_candidates =
     concat (map (\<lambda>ref_div. concat (map (\<lambda>post_div1. map (\<lambda>post_div2. (ref_div, post_div1, post_div2))
       (rev [1..<Suc post_div1])) (rev [1..<8]))) [2, 1])"

definition pll_fb_div :: "rat \<Rightarrow> nat \<times> nat \<times> nat \<Rightarrow> u8" where
  "pll_fb_div target_mhz c =
     (case c of (ref_div, post_div1, post_div2) \<Rightarrow>
        float_to_u8 (round_away
          (f32 (f32 (f32 (of_nat (post_div1 * post_div2) * target_mhz) * of_nat ref_div) / CRYSTAL_MHZ))))"

definition pll_actual_mhz :: "u8 \<Rightarrow> nat \<times> nat \<times> nat \<Rightarrow> rat" where
  "pll_actual_mhz fb_div c =
     (case c of (ref_div, post_div1, post_div2) \<Rightarrow>
        f32 (f32 (CRYSTAL_MHZ * of_nat (unat fb_div)) /
             f32 (f32 (of_nat ref_div * of_nat post_div1) * of_nat post_div2)))"

definition pll_error :: "rat \<Rightarrow> u8 \<Rightarrow> nat \<times> nat \<times> nat \<Rightarrow> rat" where
  "pll_error target_mhz fb_div c = \<bar>f32 (target_mhz - pll_actual_mhz fb_div c)\<bar>"

definition pll_vco :: "u8 \<Rightarrow> nat \<Rightarrow> rat" where
  "pll_vco fb_div ref_div = f32 (f32 (CRYSTAL_MHZ * of_nat (unat fb_div)) / of_nat ref_div)"

definition post_div_code :: "nat \<Rightarrow> nat \<Rightarrow> u8" where
  "post_div_code post_div1 post_div2 = push_bit 4 (of_nat post_div1 - 1) OR (of_nat post_div2 - 1)"

record pll_best =
  best_config :: "PllReg option"
  min_error :: rat
  best_vco :: rat

definition pll_step :: "PllParams \<Rightarrow> rat \<Rightarrow> nat \<times> nat \<times> nat \<Rightarrow> pll_best \<Rightarrow> pll_best" where
  "pll_step params target_mhz c best =
     (case c of (ref_div, post_div1, post_div2) \<Rightarrow>
        (let fb_div = pll_fb_div target_mhz c
         in if fb_div < pp_fb_div_min params \<or> fb_div > pp_fb_div_max params then best
            else
              (let error = pll_error target_mhz fb_div c;
                   vco = pll_vco fb_div ref_div
               in if vco < pp_vco_min_mhz params \<or> vco > pp_vco_max_mhz params then best
                  else if error < 1 \<and>
                    (error < min_error best \<or> error = min_error best \<and> vco < best_vco best)
                  then \<lparr>best_config = Some (PllDivider_new fb_div (of_nat ref_div) (post_div_code post_div1 post_div2)),
                        min_error = error, best_vco = vco\<rparr>
                  else best)))"

definition calculate_pll :: "ChipConfig \<Rightarrow> Frequency \<Rightarrow> PllReg option" where
  "calculate_pll cfg freq =
     (if \<not> (fst (cfg_freq_range cfg) \<le> freq \<and> freq \<le> snd (cfg_freq_range cfg)) then None
      else best_config
        (fold (pll_step (cfg_pll_params cfg) (Frequency_mhz freq)) pll_candidates
          \<lparr>best_config = None, min_error = F32_MAX, best_vco = F32_MAX\<rparr>))"

subsection \<open>What the search finds\<close>

text \<open>The divider setting a triple stands for, its figure of merit, and its admissibility.\<close>

definition pll_setting :: "rat \<Rightarrow> nat \<times> nat \<times> nat \<Rightarrow> PllReg" where
  "pll_setting t c = (case c of (r, p1, p2) \<Rightarrow>
     PllDivider_new (pll_fb_div t c) (of_nat r) (post_div_code p1 p2))"

definition pll_merit :: "rat \<Rightarrow> nat \<times> nat \<times> nat \<Rightarrow> rat \<times> rat" where
  "pll_merit t c = (pll_error t (pll_fb_div t c) c, pll_vco (pll_fb_div t c) (fst c))"

definition pll_admissible :: "PllParams \<Rightarrow> rat \<Rightarrow> nat \<times> nat \<times> nat \<Rightarrow> bool" where
  "pll_admissible params t c \<longleftrightarrow>
     pp_fb_div_min params \<le> pll_fb_div t c \<and> pll_fb_div t c \<le> pp_fb_div_max params \<and>
     pp_vco_min_mhz params \<le> snd (pll_merit t c) \<and> snd (pll_merit t c) \<le> pp_vco_max_mhz params \<and>
     fst (pll_merit t c) < 1"

definition merit_le :: "rat \<times> rat \<Rightarrow> rat \<times> rat \<Rightarrow> bool" where
  "merit_le a b \<longleftrightarrow> fst a < fst b \<or> fst a = fst b \<and> snd a \<le> snd b"

lemma pll_step_eq:
  "pll_step params t c best =
     (if pll_admissible params t c \<and> \<not> merit_le (min_error best, best_vco best) (pll_merit t c)
      then \<lparr>best_config = Some (pll_setting t c), min_error = fst (pll_merit t c), best_vco = snd (pll_merit t c)\<rparr>
      else best)"
proof -
  obtain r p1 p2 where c: "c = (r, p1, p2)" by (cases c)
  define fb where "fb = pll_fb_div t c"
  define err where "err = pll_error t fb c"
  define vco where "vco = pll_vco fb r"
  have merit: "pll_merit t c = (err, vco)" by (simp add: pll_merit_def fb_def err_def vco_def c)
  have setting: "pll_setting t c = PllDivider_new fb (of_nat r) (post_div_code p1 p2)"
    by (simp add: pll_setting_def fb_def c)
  have step: "pll_step params t c best =
      (if fb < pp_fb_div_min params \<or> fb > pp_fb_div_max params then best
       else if vco < pp_vco_min_mhz params \<or> vco > pp_vco_max_mhz params then best
       else if err < 1 \<and> (err < min_error best \<or> err = min_error best \<and> vco < best_vco best)
       then \<lparr>best_config = Some (pll_setting t c), min_error = err, best_vco = vco\<rparr> else best)"
    unfolding setting by (simp only: pll_step_def c case_prod_conv Let_def fb_def err_def vco_def)
  have adm: "pll_admissible params t c \<longleftrightarrow> \<not> (fb < pp_fb_div_min params \<or> fb > pp_fb_div_max params) \<and>
      \<not> (vco < pp_vco_min_mhz params \<or> vco > pp_vco_max_mhz params) \<and> err < 1"
    by (auto simp: pll_admissible_def merit fb_def [symmetric] not_less)
  have le: "\<not> merit_le (min_error best, best_vco best) (err, vco) \<longleftrightarrow>
      err < min_error best \<or> err = min_error best \<and> vco < best_vco best"
    by (auto simp: merit_le_def not_less not_le)
  show ?thesis unfolding step adm le merit fst_conv snd_conv by (simp, blast)
qed

lemma merit_le_linear: "\<not> merit_le a b \<Longrightarrow> merit_le b a"
  by (auto simp: merit_le_def)

lemma merit_le_trans: "merit_le a b \<Longrightarrow> merit_le b c \<Longrightarrow> merit_le a c"
  by (auto simp: merit_le_def)

lemma F32_MAX_gt_1: "1 < F32_MAX"
  by (simp add: F32_MAX_def power_int_def power_one_over)

text \<open>After any prefix of the candidates the record holds a best one among them.\<close>

definition pll_best_of :: "PllParams \<Rightarrow> rat \<Rightarrow> (nat \<times> nat \<times> nat) set \<Rightarrow> pll_best \<Rightarrow> bool" where
  "pll_best_of params t C best \<longleftrightarrow>
     (case best_config best of
        None \<Rightarrow> min_error best = F32_MAX \<and> best_vco best = F32_MAX \<and> (\<forall>c \<in> C. \<not> pll_admissible params t c)
      | Some cfg \<Rightarrow> \<exists>c \<in> C. cfg = pll_setting t c \<and> pll_admissible params t c \<and>
          pll_merit t c = (min_error best, best_vco best) \<and>
          (\<forall>d \<in> C. pll_admissible params t d \<longrightarrow> merit_le (pll_merit t c) (pll_merit t d)))"

lemma pll_step_best:
  assumes "pll_best_of params t C best"
  shows "pll_best_of params t (insert c C) (pll_step params t c best)"
proof (cases "best_config best")
  case None
  then have "min_error best = F32_MAX" "best_vco best = F32_MAX" and none: "\<forall>c \<in> C. \<not> pll_admissible params t c"
    using assms by (simp_all add: pll_best_of_def)
  then have "pll_admissible params t c \<Longrightarrow> \<not> merit_le (min_error best, best_vco best) (pll_merit t c)"
    using F32_MAX_gt_1 by (auto simp: pll_admissible_def merit_le_def)
  then show ?thesis
    using None assms none by (auto simp: pll_step_eq pll_best_of_def merit_le_def)
next
  case (Some cfg)
  then obtain b where b: "b \<in> C" "cfg = pll_setting t b" "pll_admissible params t b"
    "pll_merit t b = (min_error best, best_vco best)"
    "\<forall>d \<in> C. pll_admissible params t d \<longrightarrow> merit_le (pll_merit t b) (pll_merit t d)"
    using assms by (auto simp: pll_best_of_def)
  show ?thesis
  proof (cases "pll_admissible params t c \<and> \<not> merit_le (pll_merit t b) (pll_merit t c)")
    case True
    then have "merit_le (pll_merit t c) (pll_merit t b)" by (simp add: merit_le_linear)
    then have "\<forall>d \<in> insert c C. pll_admissible params t d \<longrightarrow> merit_le (pll_merit t c) (pll_merit t d)"
      using b(5) merit_le_trans by (auto simp: merit_le_def)
    then show ?thesis using True b(4) by (auto simp: pll_step_eq pll_best_of_def)
  next
    case False
    then have "\<forall>d \<in> insert c C. pll_admissible params t d \<longrightarrow> merit_le (pll_merit t b) (pll_merit t d)"
      using b(5) by auto
    then show ?thesis using False b Some by (auto simp: pll_step_eq pll_best_of_def)
  qed
qed

lemma pll_fold_best:
  "pll_best_of params t C best \<Longrightarrow> pll_best_of params t (set cs \<union> C) (fold (pll_step params t) cs best)"
proof (induction cs arbitrary: C best)
  case Nil
  then show ?case by simp
next
  case (Cons c cs)
  from Cons.IH [OF pll_step_best [OF Cons.prems]] show ?case by simp
qed

lemma calculate_pll_best:
  assumes "fst (cfg_freq_range cfg) \<le> freq" and "freq \<le> snd (cfg_freq_range cfg)"
  shows "case calculate_pll cfg freq of
      None \<Rightarrow> \<forall>c \<in> set pll_candidates. \<not> pll_admissible (cfg_pll_params cfg) (Frequency_mhz freq) c
    | Some r \<Rightarrow> \<exists>c \<in> set pll_candidates. r = pll_setting (Frequency_mhz freq) c \<and>
        pll_admissible (cfg_pll_params cfg) (Frequency_mhz freq) c \<and>
        (\<forall>d \<in> set pll_candidates. pll_admissible (cfg_pll_params cfg) (Frequency_mhz freq) d \<longrightarrow>
           merit_le (pll_merit (Frequency_mhz freq) c) (pll_merit (Frequency_mhz freq) d))"
proof -
  let ?b = "fold (pll_step (cfg_pll_params cfg) (Frequency_mhz freq)) pll_candidates
          \<lparr>best_config = None, min_error = F32_MAX, best_vco = F32_MAX\<rparr>"
  have "pll_best_of (cfg_pll_params cfg) (Frequency_mhz freq) {}
      \<lparr>best_config = None, min_error = F32_MAX, best_vco = F32_MAX\<rparr>"
    by (simp add: pll_best_of_def)
  from pll_fold_best [OF this, of pll_candidates]
  have "pll_best_of (cfg_pll_params cfg) (Frequency_mhz freq) (set pll_candidates) ?b" by simp
  moreover have "calculate_pll cfg freq = best_config ?b" using assms by (simp add: calculate_pll_def)
  ultimately show ?thesis by (auto simp: pll_best_of_def split: option.splits)
qed

subsection \<open>The frequency ramp\<close>

text \<open>\<open>current.hz() + step.hz()\<close> wraps in the release build; the loop may then never end.\<close>

partial_function (option) ramp_loop ::
    "ChipConfig \<Rightarrow> Frequency \<Rightarrow> Frequency \<Rightarrow> Frequency \<Rightarrow> PllReg list \<Rightarrow> PllReg list option" where
  "ramp_loop cfg target step current configs =
     (if \<not> current \<le> target then Some configs
      else
        (let configs' = (case calculate_pll cfg current of Some pll \<Rightarrow> configs @ [pll] | None \<Rightarrow> configs);
             next_freq = current + step
         in ramp_loop cfg target step
              (if next_freq > target \<and> current < target then target else next_freq) configs'))"

definition generate_frequency_ramp_steps ::
    "ChipConfig \<Rightarrow> Frequency \<times> Frequency \<Rightarrow> Frequency \<Rightarrow> PllReg list option" where
  "generate_frequency_ramp_steps cfg bounds step = ramp_loop cfg (snd bounds) step (fst bounds) []"

declare ramp_loop.simps [code]

text \<open>The frequencies the loop visits, on natural numbers.\<close>

function ramp_points :: "nat \<Rightarrow> nat \<Rightarrow> nat \<Rightarrow> nat list" where
  "ramp_points target step current =
     (if target < current \<or> step = 0 then []
      else if current = target then [target]
      else current # ramp_points target step (min (current + step) target))"
  by pat_completeness auto
termination
  by (relation "measure (\<lambda>(target, step, current). target - current)") auto

declare ramp_points.simps [simp del]

definition some_plls :: "ChipConfig \<Rightarrow> nat list \<Rightarrow> PllReg list" where
  "some_plls cfg freqs = List.map_filter (\<lambda>f. calculate_pll cfg (of_nat f)) freqs"

lemma ramp_loop_points:
  assumes "0 < unat step" and "unat target + unat step < 2 ^ 64"
  shows "unat current \<le> unat target \<Longrightarrow> ramp_loop cfg target step current configs =
    Some (configs @ some_plls cfg (ramp_points (unat target) (unat step) (unat current)))"
proof (induction "unat target - unat current" arbitrary: current configs rule: less_induct)
  case less
  let ?pll = "case calculate_pll cfg current of Some pll \<Rightarrow> [pll] | None \<Rightarrow> []"
  have nx: "unat (current + step) = unat current + unat step"
    using less.prems assms(2) by (simp add: unat_word_ariths)
  have le: "current \<le> target" using less.prems by (simp add: word_le_nat_alt)
  have acc: "(case calculate_pll cfg current of Some pll \<Rightarrow> configs @ [pll] | None \<Rightarrow> configs) = configs @ ?pll"
    by (simp split: option.splits)
  have one: "some_plls cfg (unat current # fs) = ?pll @ some_plls cfg fs" for fs
    by (simp add: some_plls_def List.map_filter_def split: option.splits)
  show ?case
  proof (cases "current = target")
    case True
    then have "ramp_loop cfg target step current configs = ramp_loop cfg target step (current + step) (configs @ ?pll)"
      using le True acc by (subst ramp_loop.simps) (simp add: Let_def)
    also have "\<dots> = Some (configs @ ?pll)"
      using nx assms(1) True by (subst ramp_loop.simps) (simp add: word_le_nat_alt)
    also have "?pll = some_plls cfg (ramp_points (unat target) (unat step) (unat current))"
      using True assms(1) one [of "[]"] by (subst ramp_points.simps) (simp add: some_plls_def)
    finally show ?thesis .
  next
    case False
    then have lt: "unat current < unat target" using le order.not_eq_order_implies_strict [of current target]
      by (simp only: word_less_nat_alt simp_thms)
    define n where "n = (if target < current + step \<and> current < target then target else current + step)"
    have n: "unat n = min (unat current + unat step) (unat target)"
      using nx lt by (simp add: n_def word_less_nat_alt)
    have "ramp_loop cfg target step current configs = ramp_loop cfg target step n (configs @ ?pll)"
      using le acc by (subst ramp_loop.simps) (simp add: Let_def n_def)
    also have "\<dots> = Some ((configs @ ?pll) @ some_plls cfg (ramp_points (unat target) (unat step) (unat n)))"
      by (rule less.hyps) (use n lt assms(1) in auto)
    also have "(configs @ ?pll) @ some_plls cfg (ramp_points (unat target) (unat step) (unat n)) =
        configs @ some_plls cfg (unat current # ramp_points (unat target) (unat step) (unat n))"
      by (simp add: one)
    also have "unat current # ramp_points (unat target) (unat step) (unat n) =
        ramp_points (unat target) (unat step) (unat current)"
      using lt assms(1) by (subst (2) ramp_points.simps) (simp add: n)
    finally show ?thesis .
  qed
qed

text \<open>The points start at the start, end on the target, and rise by at most a step.\<close>

lemma ramp_points_shape:
  assumes "0 < step" and "current \<le> target"
  shows "ramp_points target step current \<noteq> [] \<and> hd (ramp_points target step current) = current \<and>
    last (ramp_points target step current) = target \<and>
    successively (\<lambda>a b. a < b \<and> b - a \<le> step) (ramp_points target step current)"
  using assms(2)
proof (induction "target - current" arbitrary: current rule: less_induct)
  case less
  show ?case
  proof (cases "current = target")
    case True
    then show ?thesis using assms(1) by (subst (1 2 3 4) ramp_points.simps) simp
  next
    case False
    then have lt: "current < target" using less.prems by simp
    let ?n = "min (current + step) target"
    have IH: "ramp_points target step ?n \<noteq> [] \<and> hd (ramp_points target step ?n) = ?n \<and>
        last (ramp_points target step ?n) = target \<and>
        successively (\<lambda>a b. a < b \<and> b - a \<le> step) (ramp_points target step ?n)"
      using lt assms(1) by (intro less.hyps) auto
    have eq: "ramp_points target step current = current # ramp_points target step ?n"
      using lt assms(1) by (subst ramp_points.simps) simp
    show ?thesis
      unfolding eq using IH lt assms(1) by (cases "ramp_points target step ?n") (auto simp: successively_Cons)
  qed
qed

end
