(* ===== verification/Chain.thy ===== *)
theory Chain
  imports Measures
begin

text \<open>
  The chip chain of a board: the static wiring (\<open>asic/bm13xx/topology.rs\<close>) and the live model
  built from it (\<open>asic/bm13xx/chain.rs\<close>). \<open>ChipId\<close> and \<open>DomainId\<close> wrap a \<open>usize\<close>; an index
  out of range, and \<open>expect\<close> on an empty domain, are panics and read as \<open>None\<close>. Instances of
  \<open>HashSet\<close> are sets. The lemmas show that a chain groups every chip under its domain exactly
  once, in chain order, and that assigned addresses are distinct and fit a byte.
\<close>

subsection \<open>Topology\<close>

datatype ChipId = ChipId (ChipId_index: nat)

datatype DomainId = DomainId (DomainId_index: nat)

record TopologySpec =
  ts_chip_domains :: "DomainId list"
  ts_needs_domain_config :: bool

definition uniform_domains :: "nat \<Rightarrow> nat \<Rightarrow> bool \<Rightarrow> TopologySpec" where
  "uniform_domains domain_count chips_per_domain needs_domain_config =
     \<lparr>ts_chip_domains = map (\<lambda>i. DomainId (i div chips_per_domain)) [0..<domain_count * chips_per_domain],
      ts_needs_domain_config = needs_domain_config\<rparr>"

definition individual_domains :: "nat \<Rightarrow> bool \<Rightarrow> TopologySpec" where
  "individual_domains chip_count needs_domain_config =
     \<lparr>ts_chip_domains = map DomainId [0..<chip_count], ts_needs_domain_config = needs_domain_config\<rparr>"

definition single_domain :: "nat \<Rightarrow> TopologySpec" where
  "single_domain chip_count =
     \<lparr>ts_chip_domains = replicate chip_count (DomainId 0), ts_needs_domain_config = False\<rparr>"

datatype NonContiguousDomainsError = NonContiguousDomainsError (found: "nat set")

definition custom :: "nat list \<Rightarrow> bool \<Rightarrow> NonContiguousDomainsError + TopologySpec" where
  "custom chip_domains needs_domain_config =
     (if chip_domains = [] then
        Inr \<lparr>ts_chip_domains = [], ts_needs_domain_config = needs_domain_config\<rparr>
      else
        (let max_domain = Max (set chip_domains);
             unique_domains = set chip_domains;
             expected = set [0..<Suc max_domain]
         in if unique_domains \<noteq> expected then Inl (NonContiguousDomainsError unique_domains)
            else Inr \<lparr>ts_chip_domains = map DomainId chip_domains,
                      ts_needs_domain_config = needs_domain_config\<rparr>))"

definition expected_chip_count :: "TopologySpec \<Rightarrow> nat" where
  "expected_chip_count spec = length (ts_chip_domains spec)"

definition spec_domain_count :: "TopologySpec \<Rightarrow> nat" where
  "spec_domain_count spec =
     (if ts_chip_domains spec = [] then 0
      else Max (set (map DomainId_index (ts_chip_domains spec))) + 1)"

definition index_vec :: "'a list \<Rightarrow> nat \<Rightarrow> 'a option" where
  "index_vec xs i = (if i < length xs then Some (xs ! i) else None)"

definition domain_for :: "TopologySpec \<Rightarrow> ChipId \<Rightarrow> DomainId option" where
  "domain_for spec i = index_vec (ts_chip_domains spec) (ChipId_index i)"

subsection \<open>The chain\<close>

record ChipStats =
  cs_shares_found :: u64
  cs_last_share_time :: "instant option"
  cs_estimated_hashrate :: HashRate
  cs_healthy :: bool

definition ChipStats_default :: ChipStats where
  "ChipStats_default =
     \<lparr>cs_shares_found = 0, cs_last_share_time = None, cs_estimated_hashrate = 0, cs_healthy = False\<rparr>"

record Chip =
  chip_address :: u8
  chip_domain :: DomainId
  chip_stats :: ChipStats

record Domain =
  domain_id :: DomainId
  domain_chips :: "ChipId list"

record Chain =
  ch_chips :: "Chip list"
  ch_domains :: "Domain list"

text \<open>\<open>domains[chip.domain.index()].chips.push(ChipId(i))\<close>.\<close>

definition push_chip :: "nat \<Rightarrow> Chip \<Rightarrow> Domain list \<Rightarrow> Domain list option" where
  "push_chip i chip domains =
     (let d = DomainId_index (chip_domain chip)
      in if d < length domains
         then Some (domains[d := (domains ! d)\<lparr>domain_chips := domain_chips (domains ! d) @ [ChipId i]\<rparr>])
         else None)"

fun group_chips :: "nat \<Rightarrow> Chip list \<Rightarrow> Domain list \<Rightarrow> Domain list option" where
  "group_chips i [] domains = Some domains"
| "group_chips i (chip # chips) domains =
     (case push_chip i chip domains of
        None \<Rightarrow> None
      | Some domains' \<Rightarrow> group_chips (Suc i) chips domains')"

definition from_topology :: "TopologySpec \<Rightarrow> Chain option" where
  "from_topology spec =
     (case those (map (\<lambda>i. map_option
          (\<lambda>d. \<lparr>chip_address = 0, chip_domain = d, chip_stats = ChipStats_default\<rparr>)
          (domain_for spec (ChipId i))) [0..<expected_chip_count spec]) of
        None \<Rightarrow> None
      | Some chips \<Rightarrow>
          map_option (\<lambda>domains. \<lparr>ch_chips = chips, ch_domains = domains\<rparr>)
            (group_chips 0 chips
              (map (\<lambda>i. \<lparr>domain_id = DomainId i, domain_chips = []\<rparr>) [0..<spec_domain_count spec])))"

record AddressOverflowError =
  ao_chip_count :: nat
  ao_interval :: u8

definition assign_addresses_with_interval :: "u8 \<Rightarrow> Chain \<Rightarrow> AddressOverflowError + Chain" where
  "assign_addresses_with_interval interval c =
     (if ch_chips c = [] then Inr c
      else
        (let last_address = (length (ch_chips c) - 1) * unat interval
         in if last_address > 0xFF
            then Inl \<lparr>ao_chip_count = length (ch_chips c), ao_interval = interval\<rparr>
            else Inr (c\<lparr>ch_chips := map (\<lambda>(i, chip). chip\<lparr>chip_address := of_nat (i * unat interval)\<rparr>)
                          (enumerate 0 (ch_chips c))\<rparr>)))"

definition assign_addresses :: "Chain \<Rightarrow> AddressOverflowError + Chain" where
  "assign_addresses c = assign_addresses_with_interval 2 c"

definition chain_chip :: "Chain \<Rightarrow> ChipId \<Rightarrow> Chip option" where
  "chain_chip c i = index_vec (ch_chips c) (ChipId_index i)"

definition chain_domain :: "Chain \<Rightarrow> DomainId \<Rightarrow> Domain option" where
  "chain_domain c d = index_vec (ch_domains c) (DomainId_index d)"

definition chain_chips :: "Chain \<Rightarrow> (ChipId \<times> Chip) list" where
  "chain_chips c = map (\<lambda>(i, chip). (ChipId i, chip)) (enumerate 0 (ch_chips c))"

definition domains_far_to_near :: "Chain \<Rightarrow> Domain list" where
  "domains_far_to_near c = rev (ch_domains c)"

definition first_chip :: "'a list \<Rightarrow> 'a option" where
  "first_chip xs = (case xs of [] \<Rightarrow> None | x # _ \<Rightarrow> Some x)"

definition last_chip :: "'a list \<Rightarrow> 'a option" where
  "last_chip xs = (case xs of [] \<Rightarrow> None | _ # _ \<Rightarrow> Some (last xs))"

definition domain_first :: "Chain \<Rightarrow> DomainId \<Rightarrow> ChipId option" where
  "domain_first c d = Option.bind (chain_domain c d) (\<lambda>x. first_chip (domain_chips x))"

definition domain_last :: "Chain \<Rightarrow> DomainId \<Rightarrow> ChipId option" where
  "domain_last c d = Option.bind (chain_domain c d) (\<lambda>x. last_chip (domain_chips x))"

definition chip_count :: "Chain \<Rightarrow> nat" where
  "chip_count c = length (ch_chips c)"

definition chain_domain_count :: "Chain \<Rightarrow> nat" where
  "chain_domain_count c = length (ch_domains c)"

subsection \<open>Grouping by domain\<close>

text \<open>The chips of domain \<open>d\<close>, in chain order, as the wiring lists them.\<close>

definition chips_in :: "DomainId list \<Rightarrow> nat \<Rightarrow> nat list" where
  "chips_in ds d = filter (\<lambda>i. ds ! i = DomainId d) [0..<length ds]"

lemma DomainId_index_eq_iff: "DomainId_index x = d \<longleftrightarrow> x = DomainId d"
  by (cases x) auto

lemma group_chips_eq:
  assumes "\<forall>c \<in> set chips. DomainId_index (chip_domain c) < length domains"
  shows "\<exists>ds. group_chips i chips domains = Some ds \<and> length ds = length domains \<and>
    (\<forall>d < length domains. domain_id (ds ! d) = domain_id (domains ! d) \<and>
      domain_chips (ds ! d) = domain_chips (domains ! d) @
        map (\<lambda>k. ChipId (i + k)) (filter (\<lambda>k. DomainId_index (chip_domain (chips ! k)) = d) [0..<length chips]))"
  using assms
proof (induction chips arbitrary: i domains)
  case Nil
  then show ?case by simp
next
  case (Cons c chips)
  let ?d = "DomainId_index (chip_domain c)"
  let ?ds = "domains[?d := (domains ! ?d)\<lparr>domain_chips := domain_chips (domains ! ?d) @ [ChipId i]\<rparr>]"
  have p: "push_chip i c domains = Some ?ds" using Cons.prems by (simp add: push_chip_def Let_def)
  have "\<forall>c \<in> set chips. DomainId_index (chip_domain c) < length ?ds" using Cons.prems by simp
  from Cons.IH [OF this, of "Suc i"] obtain ds where ds: "group_chips (Suc i) chips ?ds = Some ds"
    "length ds = length domains"
    "\<And>d. d < length domains \<Longrightarrow> domain_id (ds ! d) = domain_id (?ds ! d) \<and>
      domain_chips (ds ! d) = domain_chips (?ds ! d) @
        map (\<lambda>k. ChipId (Suc i + k)) (filter (\<lambda>k. DomainId_index (chip_domain (chips ! k)) = d) [0..<length chips])"
    by auto
  have shift: "map (\<lambda>k. ChipId (i + k)) (filter (\<lambda>k. DomainId_index (chip_domain ((c # chips) ! k)) = d) [0..<length (c # chips)]) =
      (if ?d = d then [ChipId i] else []) @
      map (\<lambda>k. ChipId (Suc i + k)) (filter (\<lambda>k. DomainId_index (chip_domain (chips ! k)) = d) [0..<length chips])" for d
  proof -
    have "[0..<length (c # chips)] = 0 # map Suc [0..<length chips]"
      by (simp add: map_Suc_upt upt_conv_Cons del: upt_Suc)
    then show ?thesis by (simp add: filter_map comp_def)
  qed
  have "domain_id (ds ! d) = domain_id (domains ! d) \<and>
      domain_chips (ds ! d) = domain_chips (domains ! d) @ map (\<lambda>k. ChipId (i + k))
        (filter (\<lambda>k. DomainId_index (chip_domain ((c # chips) ! k)) = d) [0..<length (c # chips)])"
    if "d < length domains" for d
    using ds(3) [OF that] that unfolding shift by (cases "?d = d") (simp_all add: nth_list_update)
  then show ?case using p ds(1,2) by auto
qed

lemma those_map_Some: "\<forall>x \<in> set xs. f x = Some (g x) \<Longrightarrow> those (map f xs) = Some (map g xs)"
  by (induction xs) auto

text \<open>Building a chain never panics, and its domains list exactly their chips, in order.\<close>

lemma from_topology_Some:
  "\<exists>c. from_topology spec = Some c \<and>
    map chip_domain (ch_chips c) = ts_chip_domains spec \<and>
    (\<forall>chip \<in> set (ch_chips c). chip_address chip = 0 \<and> chip_stats chip = ChipStats_default) \<and>
    length (ch_domains c) = spec_domain_count spec \<and>
    (\<forall>d < spec_domain_count spec. domain_id (ch_domains c ! d) = DomainId d \<and>
      domain_chips (ch_domains c ! d) = map ChipId (chips_in (ts_chip_domains spec) d))"
proof -
  define g where "g i = \<lparr>chip_address = 0, chip_domain = ts_chip_domains spec ! i,
    chip_stats = ChipStats_default\<rparr>" for i
  define chips where "chips = map g [0..<expected_chip_count spec]"
  have chips: "those (map (\<lambda>i. map_option
          (\<lambda>d. \<lparr>chip_address = 0, chip_domain = d, chip_stats = ChipStats_default\<rparr>)
          (domain_for spec (ChipId i))) [0..<expected_chip_count spec]) = Some chips"
    unfolding chips_def
    by (rule those_map_Some) (simp add: domain_for_def index_vec_def expected_chip_count_def g_def)
  have doms: "map chip_domain chips = ts_chip_domains spec"
    by (simp add: chips_def g_def expected_chip_count_def comp_def map_nth)
  let ?ds = "map (\<lambda>i. \<lparr>domain_id = DomainId i, domain_chips = []\<rparr>) [0..<spec_domain_count spec]"
  have bound: "\<forall>c \<in> set chips. DomainId_index (chip_domain c) < length ?ds"
  proof
    fix c assume "c \<in> set chips"
    then have "chip_domain c \<in> set (ts_chip_domains spec)" using doms by (metis image_eqI list.set_map)
    then show "DomainId_index (chip_domain c) < length ?ds"
      by (auto simp: spec_domain_count_def less_Suc_eq_le)
  qed
  have nth: "chip_domain (chips ! k) = ts_chip_domains spec ! k" if "k < length chips" for k
    using that doms by (metis nth_map)
  have len: "length chips = length (ts_chip_domains spec)" using doms by (metis length_map)
  have flt: "filter (\<lambda>k. DomainId_index (chip_domain (chips ! k)) = d) [0..<length chips] =
      chips_in (ts_chip_domains spec) d" for d
    unfolding chips_in_def len [symmetric]
    by (rule filter_cong) (auto simp: nth DomainId_index_eq_iff)
  from group_chips_eq [OF bound, of 0] obtain ds where "group_chips 0 chips ?ds = Some ds"
    "length ds = spec_domain_count spec"
    "\<forall>d < spec_domain_count spec. domain_id (ds ! d) = DomainId d \<and>
      domain_chips (ds ! d) = map ChipId (chips_in (ts_chip_domains spec) d)"
    by (auto simp: flt)
  then show ?thesis
    using chips doms by (auto simp: from_topology_def chips_def g_def)
qed

text \<open>Which domain a chip is listed under.\<close>

lemma from_topology_listed:
  assumes "from_topology spec = Some c" and "d < length (ch_domains c)"
  shows "ChipId i \<in> set (domain_chips (ch_domains c ! d)) \<longleftrightarrow>
    i < length (ts_chip_domains spec) \<and> ts_chip_domains spec ! i = DomainId d"
  using from_topology_Some [of spec] assms by (auto simp: chips_in_def)

lemma from_topology_distinct:
  assumes "from_topology spec = Some c" and "d < length (ch_domains c)"
  shows "sorted (map ChipId_index (domain_chips (ch_domains c ! d)))"
    and "distinct (domain_chips (ch_domains c ! d))"
  using from_topology_Some [of spec] assms
  by (auto simp: chips_in_def comp_def distinct_map inj_on_def sorted_filter [of "\<lambda>x. x", simplified])

lemma domain_index_bound:
  "i < length (ts_chip_domains spec) \<Longrightarrow> DomainId_index (ts_chip_domains spec ! i) < spec_domain_count spec"
  by (auto simp: spec_domain_count_def less_Suc_eq_le intro!: Max_ge)

text \<open>Contiguous wirings leave no domain empty, so \<open>domain_first\<close> and \<open>domain_last\<close> return.\<close>

definition contiguous :: "TopologySpec \<Rightarrow> bool" where
  "contiguous spec \<longleftrightarrow>
     set (map DomainId_index (ts_chip_domains spec)) = {..<spec_domain_count spec}"

lemma spec_domain_count_map:
  "ds \<noteq> [] \<Longrightarrow> spec_domain_count \<lparr>ts_chip_domains = map DomainId ds, ts_needs_domain_config = b\<rparr> =
     Suc (Max (set ds))"
  by (simp add: spec_domain_count_def comp_def)

lemma contiguous_map_iff:
  "ds \<noteq> [] \<Longrightarrow> contiguous \<lparr>ts_chip_domains = map DomainId ds, ts_needs_domain_config = b\<rparr> \<longleftrightarrow>
     set ds = set [0..<Suc (Max (set ds))]"
  unfolding contiguous_def spec_domain_count_map
  by (simp only: lessThan_atLeast0 set_upt) (simp add: comp_def)

lemma custom_Inr_iff:
  "custom ds b = Inr spec \<longleftrightarrow>
     spec = \<lparr>ts_chip_domains = map DomainId ds, ts_needs_domain_config = b\<rparr> \<and> contiguous spec"
proof (cases "ds = []")
  case True
  then show ?thesis by (auto simp: custom_def contiguous_def spec_domain_count_def)
next
  case False
  have "custom ds b = (if set ds \<noteq> set [0..<Suc (Max (set ds))] then Inl (NonContiguousDomainsError (set ds))
      else Inr \<lparr>ts_chip_domains = map DomainId ds, ts_needs_domain_config = b\<rparr>)"
    using False by (simp only: custom_def Let_def if_False)
  then show ?thesis
    using contiguous_map_iff [OF False, of b]
    by (cases "set ds = set [0..<Suc (Max (set ds))]") (auto simp del: upt_Suc set_upt)
qed

lemma contiguous_uniform: "0 < n \<Longrightarrow> contiguous (uniform_domains m n b)"
proof (cases "m = 0")
  case False
  assume n: "0 < n"
  have idx: "set (map DomainId_index (ts_chip_domains (uniform_domains m n b))) = {..<m}"
  proof
    show "set (map DomainId_index (ts_chip_domains (uniform_domains m n b))) \<subseteq> {..<m}"
      using n by (auto simp: uniform_domains_def less_mult_imp_div_less)
    show "{..<m} \<subseteq> set (map DomainId_index (ts_chip_domains (uniform_domains m n b)))"
    proof
      fix d assume "d \<in> {..<m}"
      then have "d * n < m * n" and "d * n div n = d" using n by auto
      then show "d \<in> set (map DomainId_index (ts_chip_domains (uniform_domains m n b)))"
        by (auto simp: uniform_domains_def image_iff intro!: bexI [where x = "d * n"])
    qed
  qed
  moreover have "Max {..<m} + 1 = m" using False by (cases m) (auto simp: lessThan_Suc_atMost intro!: Max_eqI)
  moreover have "ts_chip_domains (uniform_domains m n b) \<noteq> []" using idx False by (auto simp: lessThan_empty_iff)
  ultimately show ?thesis by (simp only: contiguous_def spec_domain_count_def if_False)
qed (simp add: uniform_domains_def contiguous_def spec_domain_count_def)

lemma contiguous_individual: "contiguous (individual_domains n b)"
proof (cases n)
  case (Suc k)
  then have "Max {..<n} + 1 = n" by (auto simp: lessThan_Suc_atMost intro!: Max_eqI)
  then show ?thesis using Suc
    by (simp add: contiguous_def individual_domains_def spec_domain_count_def comp_def lessThan_atLeast0 del: upt_Suc)
qed (simp add: contiguous_def individual_domains_def spec_domain_count_def)

lemma contiguous_single: "contiguous (single_domain n)"
  by (cases "n = 0") (auto simp: contiguous_def single_domain_def spec_domain_count_def set_replicate_conv_if)

lemma chips_in_nonempty:
  assumes "contiguous spec" and "d < spec_domain_count spec"
  shows "chips_in (ts_chip_domains spec) d \<noteq> []"
proof -
  from assms have "d \<in> set (map DomainId_index (ts_chip_domains spec))"
    by (simp add: contiguous_def)
  then show ?thesis
    by (force simp: chips_in_def filter_empty_conv in_set_conv_nth DomainId_index_eq_iff)
qed

lemma sorted_hd_last:
  "sorted (xs :: nat list) \<Longrightarrow> x \<in> set xs \<Longrightarrow> hd xs \<le> x \<and> x \<le> last xs"
  by (induction xs) auto

lemma domain_first_last:
  assumes "contiguous spec" and "from_topology spec = Some c" and "d < spec_domain_count spec"
  shows "\<exists>f l. domain_first c (DomainId d) = Some (ChipId f) \<and> domain_last c (DomainId d) = Some (ChipId l) \<and>
    ts_chip_domains spec ! f = DomainId d \<and> ts_chip_domains spec ! l = DomainId d \<and>
    (\<forall>i < length (ts_chip_domains spec). ts_chip_domains spec ! i = DomainId d \<longrightarrow> f \<le> i \<and> i \<le> l)"
proof -
  let ?xs = "chips_in (ts_chip_domains spec) d"
  have ne: "?xs \<noteq> []" using assms by (rule_tac chips_in_nonempty) auto
  have dom: "chain_domain c (DomainId d) = Some (ch_domains c ! d)"
    and chips: "domain_chips (ch_domains c ! d) = map ChipId ?xs"
    using from_topology_Some [of spec] assms by (auto simp: chain_domain_def index_vec_def)
  have "sorted ?xs" by (simp add: chips_in_def sorted_filter [of "\<lambda>x. x", simplified])
  then have "\<forall>i \<in> set ?xs. hd ?xs \<le> i \<and> i \<le> last ?xs" using sorted_hd_last by blast
  moreover have "hd ?xs \<in> set ?xs" "last ?xs \<in> set ?xs" using ne by simp_all
  ultimately have "domain_first c (DomainId d) = Some (ChipId (hd ?xs)) \<and>
      domain_last c (DomainId d) = Some (ChipId (last ?xs)) \<and>
      ts_chip_domains spec ! hd ?xs = DomainId d \<and> ts_chip_domains spec ! last ?xs = DomainId d \<and>
      (\<forall>i < length (ts_chip_domains spec). ts_chip_domains spec ! i = DomainId d \<longrightarrow> hd ?xs \<le> i \<and> i \<le> last ?xs)"
    using ne dom chips
    by (auto simp: domain_first_def domain_last_def first_chip_def last_chip_def last_map hd_map
        chips_in_def neq_Nil_conv split: list.splits)
  then show ?thesis by blast
qed

subsection \<open>Addresses\<close>

lemma assign_addresses_Inr_iff:
  "(\<exists>c'. assign_addresses_with_interval k c = Inr c') \<longleftrightarrow>
     ch_chips c = [] \<or> (length (ch_chips c) - 1) * unat k \<le> 255"
  by (auto simp: assign_addresses_with_interval_def Let_def)

lemma assign_addresses_props:
  assumes "assign_addresses_with_interval k c = Inr c'"
  shows "length (ch_chips c') = length (ch_chips c)" and "ch_domains c' = ch_domains c"
    and "\<And>i. i < length (ch_chips c) \<Longrightarrow> unat (chip_address (ch_chips c' ! i)) = i * unat k \<and>
      chip_domain (ch_chips c' ! i) = chip_domain (ch_chips c ! i) \<and>
      chip_stats (ch_chips c' ! i) = chip_stats (ch_chips c ! i)"
proof -
  show "length (ch_chips c') = length (ch_chips c)" and "ch_domains c' = ch_domains c"
    using assms by (auto simp: assign_addresses_with_interval_def Let_def split: if_splits)
  fix i assume i: "i < length (ch_chips c)"
  then have le: "(length (ch_chips c) - 1) * unat k \<le> 255"
    and c': "ch_chips c' ! i = (ch_chips c ! i)\<lparr>chip_address := of_nat (i * unat k)\<rparr>"
    using assms by (auto simp: assign_addresses_with_interval_def Let_def nth_enumerate_eq split: if_splits)
  have "i * unat k \<le> (length (ch_chips c) - 1) * unat k" using i by (intro mult_le_mono1) simp
  then have "i * unat k < 256" using le by linarith
  then have "unat (of_nat (i * unat k) :: u8) = i * unat k" by (simp only: unat_of_nat) simp
  then show "unat (chip_address (ch_chips c' ! i)) = i * unat k \<and>
      chip_domain (ch_chips c' ! i) = chip_domain (ch_chips c ! i) \<and>
      chip_stats (ch_chips c' ! i) = chip_stats (ch_chips c ! i)"
    using c' by simp
qed

lemma assign_addresses_distinct:
  assumes "assign_addresses_with_interval k c = Inr c'" and "k \<noteq> 0"
  shows "distinct (map chip_address (ch_chips c'))"
proof -
  have "inj_on (\<lambda>i. unat (chip_address (ch_chips c' ! i))) {..<length (ch_chips c)}"
    using assign_addresses_props(3) [OF assms(1)] assms(2)
    by (intro inj_onI) (simp add: unat_eq_0)
  then have "inj_on (\<lambda>i. chip_address (ch_chips c' ! i)) {..<length (ch_chips c)}"
    by (auto simp: inj_on_def)
  then show ?thesis
    using assign_addresses_props(1) [OF assms(1)] by (auto simp: distinct_conv_nth inj_on_def)
qed

end
