(* ===== verification/Register_Client.thy ===== *)
theory Register_Client
  imports Commands Responses
begin

text \<open>
  Register conversations, \<open>asic/bm13xx/register_client.rs\<close>. The wire is a record: the commands
  sent so far and the responses waiting in the channel. What the world does is a record of
  functions of the number of commands sent before: whether a send fails, which responses
  arrive while its answer is awaited (before the deadline, or before the quiet window), and
  whether the response channel closes. The lemmas show what a conversation puts on the wire,
  that only a reply matching chip and register is accepted, that stale replies never are, and
  that a read gives up after exactly three attempts.
\<close>

record 'e world =
  w_send_error :: "nat \<Rightarrow> 'e option"
  w_arrives :: "nat \<Rightarrow> RegisterResponse list"
  w_closes :: "nat \<Rightarrow> bool"

record wire =
  w_sent :: "RegisterCommand list"
  w_queue :: "RegisterResponse list"

datatype 'e RegisterClientError =
  Send 'e
| NoResponse u8 RegisterAddress nat
| ResponsesClosed
| ReadbackMismatch Register Register

text \<open>\<open>self.commands.send(..)\<close>: a failed send puts nothing on the wire.\<close>

definition send_command :: "'e world \<Rightarrow> RegisterCommand \<Rightarrow> wire \<Rightarrow> ('e RegisterClientError + unit) \<times> wire" where
  "send_command env cmd s =
     (case w_send_error env (length (w_sent s)) of
        Some e \<Rightarrow> (Inl (Send e), s)
      | None \<Rightarrow> (Inr (), s\<lparr>w_sent := w_sent s @ [cmd]\<rparr>))"

definition client_write ::
    "'e world \<Rightarrow> Destination \<Rightarrow> Register \<Rightarrow> wire \<Rightarrow> ('e RegisterClientError + unit) \<times> wire" where
  "client_write env destination r s = send_command env (WriteRegister destination r) s"

definition drain_stale :: "wire \<Rightarrow> wire" where
  "drain_stale s = s\<lparr>w_queue := []\<rparr>"

definition response_matches :: "u8 \<Rightarrow> RegisterAddress \<Rightarrow> RegisterResponse \<Rightarrow> bool" where
  "response_matches chip_address register_address response \<longleftrightarrow>
     rr_chip_address response = chip_address \<and> Register_address (rr_register response) = register_address"

text \<open>
  \<open>matching_response\<close> over the responses that arrive in time: the first match, with what is
  left queued behind it, or nothing.
\<close>

fun matching_response ::
    "u8 \<Rightarrow> RegisterAddress \<Rightarrow> RegisterResponse list \<Rightarrow> (Register \<times> RegisterResponse list) option" where
  "matching_response chip_address register_address [] = None"
| "matching_response chip_address register_address (response # queue) =
     (if response_matches chip_address register_address response
      then Some (rr_register response, queue)
      else matching_response chip_address register_address queue)"

definition ATTEMPTS :: nat where
  "ATTEMPTS = 3"

text \<open>
  The attempts still left: send, then await a match under the deadline. \<open>recv\<close> returns
  \<open>None\<close> once the closed channel is empty; otherwise the deadline passes.
\<close>

primrec read_attempts ::
    "'e world \<Rightarrow> u8 \<Rightarrow> RegisterAddress \<Rightarrow> nat \<Rightarrow> wire \<Rightarrow> ('e RegisterClientError + Register) \<times> wire" where
  "read_attempts env chip_address register_address 0 s =
     (Inl (NoResponse chip_address register_address ATTEMPTS), s)"
| "read_attempts env chip_address register_address (Suc left) s =
     (case send_command env (ReadRegister (Chip chip_address) register_address) s of
        (Inl e, s) \<Rightarrow> (Inl e, s)
      | (Inr _, s) \<Rightarrow>
          (let n = length (w_sent s) - 1
           in case matching_response chip_address register_address (w_queue s @ w_arrives env n) of
                Some (r, queue) \<Rightarrow> (Inr r, s\<lparr>w_queue := queue\<rparr>)
              | None \<Rightarrow>
                  (let s = s\<lparr>w_queue := []\<rparr>
                   in if w_closes env n then (Inl ResponsesClosed, s)
                      else read_attempts env chip_address register_address left s)))"

definition client_read ::
    "'e world \<Rightarrow> u8 \<Rightarrow> RegisterAddress \<Rightarrow> wire \<Rightarrow> ('e RegisterClientError + Register) \<times> wire" where
  "client_read env chip_address register_address s =
     read_attempts env chip_address register_address ATTEMPTS (drain_stale s)"

definition broadcast_read ::
    "'e world \<Rightarrow> RegisterAddress \<Rightarrow> wire \<Rightarrow> ('e RegisterClientError + RegisterResponse list) \<times> wire" where
  "broadcast_read env register_address s =
     (case send_command env (ReadRegister Broadcast register_address) (drain_stale s) of
        (Inl e, s) \<Rightarrow> (Inl e, s)
      | (Inr _, s) \<Rightarrow>
          (let n = length (w_sent s) - 1;
               replies = filter (\<lambda>r. Register_address (rr_register r) = register_address)
                 (w_queue s @ w_arrives env n);
               s = s\<lparr>w_queue := []\<rparr>
           in if w_closes env n then (Inl ResponsesClosed, s) else (Inr replies, s)))"

definition write_readback ::
    "'e world \<Rightarrow> u8 \<Rightarrow> Register \<Rightarrow> wire \<Rightarrow> ('e RegisterClientError + unit) \<times> wire" where
  "write_readback env chip_address r s =
     (let address = Register_address r
      in case client_write env (Chip chip_address) r s of
           (Inl e, s) \<Rightarrow> (Inl e, s)
         | (Inr _, s) \<Rightarrow>
             (case client_read env chip_address address s of
                (Inl e, s) \<Rightarrow> (Inl e, s)
              | (Inr actual, s) \<Rightarrow>
                  if actual \<noteq> r then (Inl (ReadbackMismatch r actual), s) else (Inr (), s)))"

subsection \<open>Which reply is taken\<close>

lemma matching_response_None_iff:
  "matching_response chip a q = None \<longleftrightarrow> (\<forall>r \<in> set q. \<not> response_matches chip a r)"
  by (induction q) auto

lemma matching_response_Some_iff:
  "matching_response chip a q = Some (v, rest) \<longleftrightarrow>
     (\<exists>before r. q = before @ r # rest \<and> (\<forall>x \<in> set before. \<not> response_matches chip a x) \<and>
        response_matches chip a r \<and> v = rr_register r)"
proof (induction q)
  case Nil
  then show ?case by simp
next
  case (Cons x q)
  show ?case
  proof (cases "response_matches chip a x")
    case True
    then show ?thesis by (auto simp: Cons_eq_append_conv)
  next
    case False
    then show ?thesis
      by (auto simp: Cons.IH Cons_eq_append_conv)
  qed
qed

subsection \<open>What a read does\<close>

text \<open>The read command of one attempt, and whether attempt \<open>n\<close> gets through unanswered.\<close>

definition unanswered :: "'e world \<Rightarrow> u8 \<Rightarrow> RegisterAddress \<Rightarrow> nat \<Rightarrow> bool" where
  "unanswered env chip a n \<longleftrightarrow>
     w_send_error env n = None \<and> (\<forall>r \<in> set (w_arrives env n). \<not> response_matches chip a r) \<and> \<not> w_closes env n"

abbreviation read_cmd :: "u8 \<Rightarrow> RegisterAddress \<Rightarrow> RegisterCommand" where
  "read_cmd chip a \<equiv> ReadRegister (Chip chip) a"

lemma read_attempts_Suc:
  assumes "w_queue s = []"
  shows "read_attempts env chip a (Suc k) s =
    (let n = length (w_sent s); s' = s\<lparr>w_sent := w_sent s @ [read_cmd chip a]\<rparr>
     in case w_send_error env n of
          Some e \<Rightarrow> (Inl (Send e), s)
        | None \<Rightarrow>
            (case matching_response chip a (w_arrives env n) of
               Some (r, queue) \<Rightarrow> (Inr r, s'\<lparr>w_queue := queue\<rparr>)
             | None \<Rightarrow> if w_closes env n then (Inl ResponsesClosed, s') else read_attempts env chip a k s'))"
  using assms by (cases s) (auto simp: send_command_def Let_def split: option.splits)

text \<open>
  The result of \<open>k\<close> attempts is decided by the first one that is not unanswered, attempt \<open>j\<close>.
\<close>

lemma read_attempts_unanswered:
  assumes "w_queue s = []" and "\<forall>i < j. unanswered env chip a (length (w_sent s) + i)"
  shows "read_attempts env chip a (j + k) s =
    read_attempts env chip a k (s\<lparr>w_sent := w_sent s @ replicate j (read_cmd chip a)\<rparr>)"
  using assms
proof (induction j arbitrary: s)
  case 0
  then show ?case by simp
next
  case (Suc j)
  let ?s = "s\<lparr>w_sent := w_sent s @ [read_cmd chip a]\<rparr>"
  have "unanswered env chip a (length (w_sent s) + 0)" using Suc.prems(2) by blast
  then have step: "read_attempts env chip a (Suc (j + k)) s = read_attempts env chip a (j + k) ?s"
    using Suc.prems(1)
    by (simp add: read_attempts_Suc unanswered_def Let_def matching_response_None_iff [symmetric] del: read_attempts.simps)
  have "\<forall>i < j. unanswered env chip a (length (w_sent ?s) + i)"
  proof (intro allI impI)
    fix i assume "i < j"
    then have "unanswered env chip a (length (w_sent s) + Suc i)" using Suc.prems(2) by blast
    then show "unanswered env chip a (length (w_sent ?s) + i)" by simp
  qed
  from Suc.IH [OF _ this] Suc.prems(1) step show ?case by (simp add: replicate_append_same)
qed

text \<open>All attempts unanswered: the error, with exactly three reads on the wire.\<close>

lemma client_read_no_response:
  assumes "\<forall>i < 3. unanswered env chip a (length (w_sent s) + i)"
  shows "client_read env chip a s =
    (Inl (NoResponse chip a 3), s\<lparr>w_sent := w_sent s @ replicate 3 (read_cmd chip a), w_queue := []\<rparr>)"
  using read_attempts_unanswered [of "drain_stale s" 3 env chip a 0] assms
  by (simp add: client_read_def drain_stale_def ATTEMPTS_def)

text \<open>A matching reply to attempt \<open>j\<close> after unanswered ones is what the read returns.\<close>

lemma client_read_answer:
  assumes "j < 3" and "\<forall>i < j. unanswered env chip a (length (w_sent s) + i)"
    and "w_send_error env (length (w_sent s) + j) = None"
    and "matching_response chip a (w_arrives env (length (w_sent s) + j)) = Some (v, rest)"
  shows "client_read env chip a s =
    (Inr v, s\<lparr>w_sent := w_sent s @ replicate (Suc j) (read_cmd chip a), w_queue := rest\<rparr>)"
proof -
  have "ATTEMPTS = j + Suc (2 - j)" using assms(1) by (simp add: ATTEMPTS_def)
  then have "client_read env chip a s = read_attempts env chip a (Suc (2 - j))
      (drain_stale s\<lparr>w_sent := w_sent s @ replicate j (read_cmd chip a)\<rparr>)"
    using read_attempts_unanswered [of "drain_stale s" j env chip a "Suc (2 - j)"] assms(2)
    by (simp add: client_read_def drain_stale_def del: read_attempts.simps)
  also have "\<dots> = (Inr v, s\<lparr>w_sent := w_sent s @ replicate (Suc j) (read_cmd chip a), w_queue := rest\<rparr>)"
    using assms(3,4)
    by (simp add: read_attempts_Suc drain_stale_def Let_def replicate_append_same del: read_attempts.simps)
  finally show ?thesis .
qed

text \<open>Conversely, every value a read returns is such a reply, of the asked chip and register.\<close>

lemma read_attempts_Inr:
  assumes "read_attempts env chip a k s = (Inr v, s')" and "w_queue s = []"
  shows "\<exists>j < k. (\<forall>i < j. unanswered env chip a (length (w_sent s) + i)) \<and>
    w_send_error env (length (w_sent s) + j) = None \<and>
    matching_response chip a (w_arrives env (length (w_sent s) + j)) = Some (v, w_queue s') \<and>
    w_sent s' = w_sent s @ replicate (Suc j) (read_cmd chip a)"
  using assms
proof (induction k arbitrary: s)
  case 0
  then show ?case by simp
next
  case (Suc k)
  let ?n = "length (w_sent s)" and ?s = "s\<lparr>w_sent := w_sent s @ [read_cmd chip a]\<rparr>"
  have ok: "w_send_error env ?n = None"
    using Suc.prems by (auto simp: read_attempts_Suc Let_def simp del: read_attempts.simps split: option.splits)
  show ?case
  proof (cases "matching_response chip a (w_arrives env ?n)")
    case None
    then have open': "\<not> w_closes env ?n" and rec: "read_attempts env chip a k ?s = (Inr v, s')"
      using Suc.prems ok
      by (auto simp: read_attempts_Suc Let_def simp del: read_attempts.simps split: if_splits)
    have un: "unanswered env chip a ?n"
      using None ok open' by (simp add: unanswered_def matching_response_None_iff)
    from Suc.IH [OF rec] Suc.prems(2) obtain j where j: "j < k"
      "\<forall>i < j. unanswered env chip a (Suc ?n + i)" "w_send_error env (Suc ?n + j) = None"
      "matching_response chip a (w_arrives env (Suc ?n + j)) = Some (v, w_queue s')"
      "w_sent s' = w_sent ?s @ replicate (Suc j) (read_cmd chip a)"
      by auto
    have "\<forall>i < Suc j. unanswered env chip a (?n + i)"
      using un j(2) by (auto simp: less_Suc_eq_0_disj)
    then show ?thesis using j by (intro exI [of _ "Suc j"]) auto
  next
    case (Some p)
    then show ?thesis
      using Suc.prems ok
      by (intro exI [of _ 0]) (cases p, auto simp: read_attempts_Suc Let_def simp del: read_attempts.simps)
  qed
qed

text \<open>Stale responses queued before the call never matter.\<close>

lemma client_read_ignores_stale:
  "client_read env chip a (s\<lparr>w_queue := stale\<rparr>) = client_read env chip a s"
  by (simp add: client_read_def drain_stale_def)

lemma broadcast_read_Inr:
  assumes "broadcast_read env a s = (Inr replies, s')"
  shows "w_sent s' = w_sent s @ [ReadRegister Broadcast a]"
    and "replies = filter (\<lambda>r. Register_address (rr_register r) = a) (w_arrives env (length (w_sent s)))"
  using assms
  by (auto simp: broadcast_read_def send_command_def drain_stale_def Let_def
      split: option.splits if_splits)

text \<open>
  \<open>write_readback\<close> succeeds exactly when the write goes out and the chip then answers one of
  the reads with the value written.
\<close>

definition answers :: "'e world \<Rightarrow> u8 \<Rightarrow> RegisterAddress \<Rightarrow> nat \<Rightarrow> nat \<Rightarrow> Register \<Rightarrow> RegisterResponse list \<Rightarrow> bool" where
  "answers env chip a n j v rest \<longleftrightarrow>
     (\<forall>i < j. unanswered env chip a (n + i)) \<and> w_send_error env (n + j) = None \<and>
     matching_response chip a (w_arrives env (n + j)) = Some (v, rest)"

lemma client_read_Inr_iff:
  "client_read env chip a s = (Inr v, s') \<longleftrightarrow>
     (\<exists>j < 3. answers env chip a (length (w_sent s)) j v (w_queue s') \<and>
        s' = s\<lparr>w_sent := w_sent s @ replicate (Suc j) (read_cmd chip a), w_queue := w_queue s'\<rparr>)"
proof
  assume "client_read env chip a s = (Inr v, s')"
  then have r: "read_attempts env chip a 3 (drain_stale s) = (Inr v, s')"
    by (simp add: client_read_def ATTEMPTS_def)
  from read_attempts_Inr [OF r] obtain j where j: "j < 3" "answers env chip a (length (w_sent s)) j v (w_queue s')"
    by (auto simp: drain_stale_def answers_def)
  then have "client_read env chip a s =
      (Inr v, s\<lparr>w_sent := w_sent s @ replicate (Suc j) (read_cmd chip a), w_queue := w_queue s'\<rparr>)"
    by (intro client_read_answer) (auto simp: answers_def)
  then have "s' = s\<lparr>w_sent := w_sent s @ replicate (Suc j) (read_cmd chip a), w_queue := w_queue s'\<rparr>"
    using r by (simp add: client_read_def ATTEMPTS_def del: read_attempts.simps)
  then show "\<exists>j < 3. answers env chip a (length (w_sent s)) j v (w_queue s') \<and>
      s' = s\<lparr>w_sent := w_sent s @ replicate (Suc j) (read_cmd chip a), w_queue := w_queue s'\<rparr>"
    using j by blast
next
  assume "\<exists>j < 3. answers env chip a (length (w_sent s)) j v (w_queue s') \<and>
      s' = s\<lparr>w_sent := w_sent s @ replicate (Suc j) (read_cmd chip a), w_queue := w_queue s'\<rparr>"
  then show "client_read env chip a s = (Inr v, s')"
    using client_read_answer by (metis answers_def)
qed

lemma write_readback_Inr_iff:
  "(\<exists>s'. write_readback env chip r s = (Inr (), s')) \<longleftrightarrow>
     w_send_error env (length (w_sent s)) = None \<and>
     (\<exists>j < 3. \<exists>rest. answers env chip (Register_address r) (Suc (length (w_sent s))) j r rest)"
proof -
  let ?s = "s\<lparr>w_sent := w_sent s @ [WriteRegister (Chip chip) r]\<rparr>"
  have "(\<exists>s'. write_readback env chip r s = (Inr (), s')) \<longleftrightarrow>
      w_send_error env (length (w_sent s)) = None \<and>
      (\<exists>s'. client_read env chip (Register_address r) ?s = (Inr r, s'))"
    by (auto simp: write_readback_def client_write_def send_command_def Let_def
        split: option.splits prod.splits sum.splits if_splits)
  also have "(\<exists>s'. client_read env chip (Register_address r) ?s = (Inr r, s')) \<longleftrightarrow>
      (\<exists>j < 3. \<exists>rest. answers env chip (Register_address r) (Suc (length (w_sent s))) j r rest)"
    (is "?L \<longleftrightarrow> ?R")
  proof
    assume ?L then show ?R by (auto simp: client_read_Inr_iff)
  next
    assume ?R
    then obtain j rest where j: "j < 3"
      and ans: "answers env chip (Register_address r) (Suc (length (w_sent s))) j r rest" by blast
    then have "client_read env chip (Register_address r) ?s = (Inr r,
        ?s\<lparr>w_sent := w_sent ?s @ replicate (Suc j) (read_cmd chip (Register_address r)), w_queue := rest\<rparr>)"
      by (intro client_read_answer) (auto simp: answers_def)
    then show ?L by blast
  qed
  finally show ?thesis .
qed

end
