(* ===== verification/Reader.thy ===== *)
theory Reader
  imports Responses
begin

text \<open>
  The response demultiplexer, \<open>asic/bm13xx/reader.rs\<close>, as a step relation. The task pulls an
  item off the framed stream and sends it to the bounded channel of its kind, waiting while
  that channel is full; the consumers take from the channels and may drop them. The task exits
  when the stream ends or fails, or when a send finds its receiver gone. Ghost fields keep what
  each consumer has taken. The invariant: nothing is lost, duplicated, reordered or misrouted
  while the task runs, and the channels never exceed their capacity.
\<close>

definition CHANNEL_CAPACITY :: nat where
  "CHANNEL_CAPACITY = 256"

record 'e reader =
  rd_stream :: "('e + Response) list"
  rd_held :: "Response option"
  rd_nonces :: "NonceResponse list"
  rd_registers :: "RegisterResponse list"
  rd_running :: bool
  rd_nonce_rx :: bool
  rd_register_rx :: bool
  rd_got_nonces :: "NonceResponse list"
  rd_got_registers :: "RegisterResponse list"

definition reader_spawn :: "('e + Response) list \<Rightarrow> 'e reader" where
  "reader_spawn stream =
     \<lparr>rd_stream = stream, rd_held = None, rd_nonces = [], rd_registers = [], rd_running = True,
      rd_nonce_rx = True, rd_register_rx = True, rd_got_nonces = [], rd_got_registers = []\<rparr>"

datatype reader_label = Pull | Deliver | Exit | TakeNonce | TakeRegister | DropNonces | DropRegisters

text \<open>
  \<open>Pull\<close> is a ready \<open>stream.next()\<close>; \<open>Deliver\<close> a completed \<open>send\<close>; \<open>Exit\<close> leaves the loop:
  the stream ended or failed, or the send failed because the receiver is gone.
\<close>

inductive reader_step :: "'e reader \<Rightarrow> reader_label \<Rightarrow> 'e reader \<Rightarrow> bool" where
  pull: "rd_running s \<Longrightarrow> rd_held s = None \<Longrightarrow> rd_stream s = Inr r # rest \<Longrightarrow>
    reader_step s Pull (s\<lparr>rd_stream := rest, rd_held := Some r\<rparr>)"
| deliver_nonce: "rd_running s \<Longrightarrow> rd_held s = Some (RespNonce n) \<Longrightarrow> rd_nonce_rx s \<Longrightarrow>
    length (rd_nonces s) < CHANNEL_CAPACITY \<Longrightarrow>
    reader_step s Deliver (s\<lparr>rd_held := None, rd_nonces := rd_nonces s @ [n]\<rparr>)"
| deliver_register: "rd_running s \<Longrightarrow> rd_held s = Some (RespReadRegister r) \<Longrightarrow> rd_register_rx s \<Longrightarrow>
    length (rd_registers s) < CHANNEL_CAPACITY \<Longrightarrow>
    reader_step s Deliver (s\<lparr>rd_held := None, rd_registers := rd_registers s @ [r]\<rparr>)"
| exit_end: "rd_running s \<Longrightarrow> rd_held s = None \<Longrightarrow> rd_stream s = [] \<Longrightarrow>
    reader_step s Exit (s\<lparr>rd_running := False\<rparr>)"
| exit_error: "rd_running s \<Longrightarrow> rd_held s = None \<Longrightarrow> rd_stream s = Inl e # rest \<Longrightarrow>
    reader_step s Exit (s\<lparr>rd_stream := rest, rd_running := False\<rparr>)"
| exit_nonce: "rd_running s \<Longrightarrow> rd_held s = Some (RespNonce n) \<Longrightarrow> \<not> rd_nonce_rx s \<Longrightarrow>
    reader_step s Exit (s\<lparr>rd_held := None, rd_running := False\<rparr>)"
| exit_register: "rd_running s \<Longrightarrow> rd_held s = Some (RespReadRegister r) \<Longrightarrow> \<not> rd_register_rx s \<Longrightarrow>
    reader_step s Exit (s\<lparr>rd_held := None, rd_running := False\<rparr>)"
| take_nonce: "rd_nonce_rx s \<Longrightarrow> rd_nonces s = n # rest \<Longrightarrow>
    reader_step s TakeNonce (s\<lparr>rd_nonces := rest, rd_got_nonces := rd_got_nonces s @ [n]\<rparr>)"
| take_register: "rd_register_rx s \<Longrightarrow> rd_registers s = r # rest \<Longrightarrow>
    reader_step s TakeRegister (s\<lparr>rd_registers := rest, rd_got_registers := rd_got_registers s @ [r]\<rparr>)"
| drop_nonces: "reader_step s DropNonces (s\<lparr>rd_nonce_rx := False\<rparr>)"
| drop_registers: "reader_step s DropRegisters (s\<lparr>rd_register_rx := False\<rparr>)"

inductive_cases pull_step: "reader_step s Pull t"
inductive_cases deliver_step: "reader_step s Deliver t"
inductive_cases exit_step: "reader_step s Exit t"

inductive reader_run :: "'e reader \<Rightarrow> reader_label list \<Rightarrow> 'e reader \<Rightarrow> bool" where
  run_refl: "reader_run s [] s"
| run_step: "reader_run s ls t \<Longrightarrow> reader_step t l u \<Longrightarrow> reader_run s (ls @ [l]) u"

subsection \<open>Routing\<close>

text \<open>The responses before the first failure of the stream, and those of each kind.\<close>

fun good_prefix :: "('e + Response) list \<Rightarrow> Response list" where
  "good_prefix (Inr r # rest) = r # good_prefix rest"
| "good_prefix _ = []"

fun nonces_of :: "Response list \<Rightarrow> NonceResponse list" where
  "nonces_of [] = []"
| "nonces_of (RespNonce n # rest) = n # nonces_of rest"
| "nonces_of (RespReadRegister _ # rest) = nonces_of rest"

fun registers_of :: "Response list \<Rightarrow> RegisterResponse list" where
  "registers_of [] = []"
| "registers_of (RespReadRegister r # rest) = r # registers_of rest"
| "registers_of (RespNonce _ # rest) = registers_of rest"

lemma nonces_of_append [simp]: "nonces_of (xs @ ys) = nonces_of xs @ nonces_of ys"
  by (induction xs rule: nonces_of.induct) auto

lemma registers_of_append [simp]: "registers_of (xs @ ys) = registers_of xs @ registers_of ys"
  by (induction xs rule: registers_of.induct) auto

definition held_list :: "'e reader \<Rightarrow> Response list" where
  "held_list s = (case rd_held s of None \<Rightarrow> [] | Some r \<Rightarrow> [r])"

text \<open>What both consumers have seen or will see of the stream, in order.\<close>

definition nonces_through :: "'e reader \<Rightarrow> NonceResponse list" where
  "nonces_through s = rd_got_nonces s @ rd_nonces s"

definition registers_through :: "'e reader \<Rightarrow> RegisterResponse list" where
  "registers_through s = rd_got_registers s @ rd_registers s"

definition reader_inv :: "('e + Response) list \<Rightarrow> 'e reader \<Rightarrow> bool" where
  "reader_inv stream s \<longleftrightarrow>
     length (rd_nonces s) \<le> CHANNEL_CAPACITY \<and> length (rd_registers s) \<le> CHANNEL_CAPACITY \<and>
     (\<not> rd_running s \<longrightarrow> rd_held s = None) \<and>
     (\<exists>lost rest. good_prefix stream =
          rest @ lost @ (if rd_running s then held_list s @ good_prefix (rd_stream s) else []) \<and>
        (rd_running s \<longrightarrow> lost = []) \<and>
        nonces_through s = nonces_of rest \<and> registers_through s = registers_of rest)"

lemma reader_inv_spawn: "reader_inv stream (reader_spawn stream)"
  by (auto simp: reader_inv_def reader_spawn_def held_list_def nonces_through_def registers_through_def)

lemma reader_inv_step:
  assumes "reader_step s l t" and "reader_inv stream s"
  shows "reader_inv stream t"
  using assms
proof (induction rule: reader_step.induct)
  case (pull s r rest)
  then show ?case
    by (auto simp: reader_inv_def held_list_def nonces_through_def registers_through_def)
next
  case (deliver_nonce s n)
  then obtain xs where xs: "good_prefix stream = xs @ RespNonce n # good_prefix (rd_stream s)"
    "nonces_through s = nonces_of xs" "registers_through s = registers_of xs"
    by (auto simp: reader_inv_def held_list_def)
  with deliver_nonce show ?case
    by (auto simp: reader_inv_def held_list_def nonces_through_def registers_through_def
        intro!: exI [of _ "xs @ [RespNonce n]"])
next
  case (deliver_register s r)
  then obtain xs where xs: "good_prefix stream = xs @ RespReadRegister r # good_prefix (rd_stream s)"
    "nonces_through s = nonces_of xs" "registers_through s = registers_of xs"
    by (auto simp: reader_inv_def held_list_def)
  with deliver_register show ?case
    by (auto simp: reader_inv_def held_list_def nonces_through_def registers_through_def
        intro!: exI [of _ "xs @ [RespReadRegister r]"])
next
  case (exit_end s)
  then show ?case
    by (auto simp: reader_inv_def held_list_def nonces_through_def registers_through_def)
next
  case (exit_error s e rest)
  then show ?case
    by (auto simp: reader_inv_def held_list_def nonces_through_def registers_through_def)
next
  case (exit_nonce s n)
  then show ?case
    by (auto simp: reader_inv_def held_list_def nonces_through_def registers_through_def)
next
  case (exit_register s r)
  then show ?case
    by (auto simp: reader_inv_def held_list_def nonces_through_def registers_through_def)
next
  case (take_nonce s n rest)
  then show ?case
    by (auto simp: reader_inv_def held_list_def nonces_through_def registers_through_def)
next
  case (take_register s r rest)
  then show ?case
    by (auto simp: reader_inv_def held_list_def nonces_through_def registers_through_def)
next
  case (drop_nonces s)
  then show ?case
    by (auto simp: reader_inv_def held_list_def nonces_through_def registers_through_def)
next
  case (drop_registers s)
  then show ?case
    by (auto simp: reader_inv_def held_list_def nonces_through_def registers_through_def)
qed

lemma reader_inv_run: "reader_run s ls t \<Longrightarrow> reader_inv stream s \<Longrightarrow> reader_inv stream t"
  by (induction rule: reader_run.induct) (auto intro: reader_inv_step)

subsection \<open>A full channel blocks the other kind\<close>

definition blocked_on_nonces :: "'e reader \<Rightarrow> bool" where
  "blocked_on_nonces s \<longleftrightarrow>
     rd_running s \<and> rd_nonce_rx s \<and> (\<exists>n. rd_held s = Some (RespNonce n)) \<and>
     length (rd_nonces s) = CHANNEL_CAPACITY"

lemma blocked_step:
  assumes "reader_step s l t" and "blocked_on_nonces s" and "l \<noteq> TakeNonce" and "l \<noteq> DropNonces"
  shows "blocked_on_nonces t \<and> registers_through t = registers_through s"
  using assms
  by (induction rule: reader_step.induct) (auto simp: blocked_on_nonces_def registers_through_def)

lemma blocked_run:
  "reader_run s ls t \<Longrightarrow> blocked_on_nonces s \<Longrightarrow> TakeNonce \<notin> set ls \<Longrightarrow> DropNonces \<notin> set ls \<Longrightarrow>
     blocked_on_nonces t \<and> registers_through t = registers_through s"
  by (induction rule: reader_run.induct) (use blocked_step in fastforce)+

text \<open>A burst of one nonce more than the capacity reaches such a state.\<close>

definition filled :: "NonceResponse \<Rightarrow> nat \<Rightarrow> ('e + Response) list \<Rightarrow> 'e reader" where
  "filled n j stream = reader_spawn stream\<lparr>rd_nonces := replicate j n\<rparr>"

lemma reader_run_trans: "reader_run t ms u \<Longrightarrow> reader_run s ls t \<Longrightarrow> reader_run s (ls @ ms) u"
proof (induction rule: reader_run.induct)
  case (run_refl s')
  then show ?case by simp
next
  case (run_step t ms u l v)
  then have "reader_run s ((ls @ ms) @ [l]) v" by (blast intro: reader_run.run_step)
  then show ?case by simp
qed

lemma reader_run_one: "reader_step s l t \<Longrightarrow> reader_run s [l] t"
  using reader_run.run_step [OF reader_run.run_refl] by fastforce

lemma filled_one:
  assumes "j < CHANNEL_CAPACITY"
  shows "reader_run (filled n j (Inr (RespNonce n) # rest)) [Pull, Deliver] (filled n (Suc j) rest)"
proof -
  let ?m = "filled n j rest\<lparr>rd_held := Some (RespNonce n)\<rparr>"
  have "reader_step (filled n j (Inr (RespNonce n) # rest)) Pull ?m"
    using reader_step.pull [of "filled n j (Inr (RespNonce n) # rest)" "RespNonce n" rest]
    by (simp add: filled_def reader_spawn_def)
  moreover have "reader_step ?m Deliver (filled n (Suc j) rest)"
    using reader_step.deliver_nonce [of ?m n] assms
    by (simp add: filled_def reader_spawn_def replicate_append_same)
  ultimately show ?thesis
    using reader_run_trans [OF reader_run_one reader_run_one] by fastforce
qed

lemma filled_run:
  "j + k \<le> CHANNEL_CAPACITY \<Longrightarrow>
   \<exists>ls. reader_run (filled n j (replicate k (Inr (RespNonce n)) @ rest)) ls (filled n (j + k) rest)"
proof (induction k arbitrary: j)
  case 0
  then show ?case using reader_run.run_refl by fastforce
next
  case (Suc k)
  from Suc.IH [of "Suc j"] Suc.prems obtain ls where
    "reader_run (filled n (Suc j) (replicate k (Inr (RespNonce n)) @ rest)) ls (filled n (Suc j + k) rest)"
    by auto
  moreover have "reader_run (filled n j (replicate (Suc k) (Inr (RespNonce n)) @ rest)) [Pull, Deliver]
      (filled n (Suc j) (replicate k (Inr (RespNonce n)) @ rest))"
    using filled_one [of j n "replicate k (Inr (RespNonce n)) @ rest"] Suc.prems by simp
  ultimately show ?case using reader_run_trans by fastforce
qed

text \<open>A burst of one nonce more than the capacity blocks the register reply behind it.\<close>

lemma burst_blocks:
  "\<exists>ls (s :: 'e reader).
     reader_run (reader_spawn (replicate (Suc CHANNEL_CAPACITY) (Inr (RespNonce n)) @ [Inr (RespReadRegister r)])) ls s \<and>
     blocked_on_nonces s \<and> registers_through s = [] \<and> rd_stream s = [Inr (RespReadRegister r)]"
proof -
  let ?tail = "[Inr (RespNonce n), Inr (RespReadRegister r)] :: ('e + Response) list"
  let ?s = "filled n CHANNEL_CAPACITY ([Inr (RespReadRegister r)] :: ('e + Response) list)\<lparr>rd_held := Some (RespNonce n)\<rparr>"
  obtain ls where run: "reader_run (filled n 0 (replicate CHANNEL_CAPACITY (Inr (RespNonce n)) @ ?tail)) ls
      (filled n CHANNEL_CAPACITY ?tail)"
    using filled_run [of 0 CHANNEL_CAPACITY n ?tail] by auto
  have "reader_step (filled n CHANNEL_CAPACITY ?tail) Pull ?s"
    using reader_step.pull [of "filled n CHANNEL_CAPACITY ?tail"] by (simp add: filled_def reader_spawn_def)
  with run have "reader_run (filled n 0 (replicate CHANNEL_CAPACITY (Inr (RespNonce n)) @ ?tail)) (ls @ [Pull]) ?s"
    by (rule reader_run.run_step)
  moreover have "replicate CHANNEL_CAPACITY (Inr (RespNonce n)) @ ?tail =
      replicate (Suc CHANNEL_CAPACITY) (Inr (RespNonce n)) @ [Inr (RespReadRegister r)]"
    by (simp add: replicate_app_Cons_same)
  moreover have "filled n 0 xs = reader_spawn xs" for xs :: "('e + Response) list"
    by (simp add: filled_def reader_spawn_def)
  moreover have "blocked_on_nonces ?s \<and> registers_through ?s = [] \<and> rd_stream ?s = [Inr (RespReadRegister r)]"
    by (simp add: blocked_on_nonces_def registers_through_def filled_def reader_spawn_def)
  ultimately show ?thesis by metis
qed

end
