(* ===== verification/Jobs.thy ===== *)
theory Jobs
  imports Versions Extranonces Rates
begin

text \<open>
  Mining jobs: the merkle root of a job (\<open>job_source/merkle.rs\<close>), job templates and shares
  (\<open>job_source/job.rs\<close>), and the tasks and shares exchanged with hash threads
  (\<open>asic/hash_thread.rs\<close>). What the \<open>bitcoin\<close> crate computes is a record of functions:
  the txid of a serialised coinbase (none when it does not parse), double SHA-256, the block
  hash of a header, the test of a hash against a target and the work of a target. A hash is
  its 32 bytes; an \<open>Arc\<close> is its content; a share channel is its number.
\<close>

subsection \<open>Templates\<close>

record BlockHeader =
  bh_version :: i32
  bh_prev_blockhash :: bytes
  bh_merkle_root :: bytes
  bh_time :: u32
  bh_bits :: u32
  bh_nonce :: u32

record bitcoin =
  x_coinbase_txid :: "bytes \<Rightarrow> bytes option"
  x_sha256d :: "bytes \<Rightarrow> bytes"
  x_block_hash :: "BlockHeader \<Rightarrow> bytes"
  x_is_met_by :: "Target \<Rightarrow> bytes \<Rightarrow> bool"
  x_to_work :: "Target \<Rightarrow> u256"
  x_target_max :: Target

record MerkleRootTemplate =
  mt_coinbase_prefix :: bytes
  mt_extranonce_prefix :: bytes
  mt_extranonce_range :: ExtranonceRange
  mt_coinbase_suffix :: bytes
  mt_merkle_branches :: "bytes list"

datatype MerkleRootKind = Fixed bytes | Computed MerkleRootTemplate

record JobTemplate =
  jt_id :: string
  jt_prev_blockhash :: bytes
  jt_version :: VersionTemplate
  jt_bits :: u32
  jt_share_target :: Target
  jt_time :: u32
  jt_merkle_root :: MerkleRootKind

datatype MerkleError = DeserializeError | HeaderOnlyJob

definition coinbase_bytes :: "MerkleRootTemplate \<Rightarrow> Extranonce \<Rightarrow> bytes" where
  "coinbase_bytes t extranonce =
     (let coinbase_bytes = [];
          coinbase_bytes = coinbase_bytes @ mt_coinbase_prefix t;
          coinbase_bytes = coinbase_bytes @ mt_extranonce_prefix t;
          coinbase_bytes = extend_vec extranonce coinbase_bytes;
          coinbase_bytes = coinbase_bytes @ mt_coinbase_suffix t
      in coinbase_bytes)"

definition Template_compute_merkle_root ::
    "bitcoin \<Rightarrow> MerkleRootTemplate \<Rightarrow> Extranonce \<Rightarrow> MerkleError + bytes" where
  "Template_compute_merkle_root btc t extranonce =
     (case x_coinbase_txid btc (coinbase_bytes t extranonce) of
        None \<Rightarrow> Inl DeserializeError
      | Some txid \<Rightarrow>
          Inr (fold (\<lambda>branch current_hash. x_sha256d btc (current_hash @ branch)) (mt_merkle_branches t) txid))"

definition compute_merkle_root :: "bitcoin \<Rightarrow> JobTemplate \<Rightarrow> Extranonce \<Rightarrow> MerkleError + bytes" where
  "compute_merkle_root btc job extranonce =
     (case jt_merkle_root job of
        Computed template \<Rightarrow> Template_compute_merkle_root btc template extranonce
      | Fixed _ \<Rightarrow> Inl HeaderOnlyJob)"

subsection \<open>Tasks and shares\<close>

type_synonym channel = nat

record HashTask =
  ht_template :: JobTemplate
  ht_extranonce_range :: "ExtranonceRange option"
  ht_extranonce :: "Extranonce option"
  ht_share_target :: Target
  ht_ntime :: u32
  ht_share_tx :: channel

record Share =
  sh_nonce :: u32
  sh_hash :: bytes
  sh_version :: i32
  sh_ntime :: u32
  sh_extranonce :: "Extranonce option"
  sh_expected_work :: u256

text \<open>The share a source receives, \<open>job_source::Share\<close>, and the conversion to it.\<close>

record SourceShare =
  ss_job_id :: string
  ss_nonce :: u32
  ss_time :: u32
  ss_version :: i32
  ss_extranonce :: "Extranonce option"

definition SourceShare_from :: "Share \<Rightarrow> string \<Rightarrow> SourceShare" where
  "SourceShare_from share job_id =
     \<lparr>ss_job_id = job_id, ss_nonce = sh_nonce share, ss_time = sh_ntime share,
      ss_version = sh_version share, ss_extranonce = sh_extranonce share\<rparr>"

subsection \<open>The coinbase determines the extranonce\<close>

lemma coinbase_bytes_eq:
  "coinbase_bytes t e =
     mt_coinbase_prefix t @ mt_extranonce_prefix t @ Extranonce_bytes e @ mt_coinbase_suffix t"
  by (simp add: coinbase_bytes_def extend_vec_def)

lemma Extranonce_bytes_inject:
  assumes "wf_Extranonce e" and "wf_Extranonce f"
  shows "Extranonce_bytes e = Extranonce_bytes f \<longleftrightarrow> e = f"
proof
  assume "Extranonce_bytes e = Extranonce_bytes f"
  then have "(Inr e :: ExtranonceError + Extranonce) = Inr f"
    by (simp only: Extranonce_from_bytes_bytes [OF assms(1), symmetric] Extranonce_from_bytes_bytes [OF assms(2), symmetric])
  then show "e = f" by simp
qed simp

text \<open>Different extranonces of one template give different coinbase transactions.\<close>

lemma coinbase_bytes_inject:
  assumes "wf_Extranonce e" and "wf_Extranonce f"
  shows "coinbase_bytes t e = coinbase_bytes t f \<longleftrightarrow> e = f"
  by (simp only: coinbase_bytes_eq same_append_eq append_same_eq Extranonce_bytes_inject [OF assms])

text \<open>
  The root is the fold of the branches: a root computed over \<open>bs @ [b]\<close> hashes the root over
  \<open>bs\<close> with \<open>b\<close>.
\<close>

lemma merkle_root_snoc:
  assumes "mt_merkle_branches t = bs @ [b]"
  shows "Template_compute_merkle_root btc t e =
    map_sum id (\<lambda>h. x_sha256d btc (h @ b)) (Template_compute_merkle_root btc (t\<lparr>mt_merkle_branches := bs\<rparr>) e)"
proof -
  have "coinbase_bytes (t\<lparr>mt_merkle_branches := bs\<rparr>) e = coinbase_bytes t e"
    by (simp add: coinbase_bytes_eq)
  then show ?thesis
    using assms by (simp add: Template_compute_merkle_root_def split: option.splits)
qed

text \<open>The inputs hashed on the way up from \<open>h\<close>.\<close>

primrec climb_inputs :: "bitcoin \<Rightarrow> bytes \<Rightarrow> bytes list \<Rightarrow> bytes list" where
  "climb_inputs btc h [] = []"
| "climb_inputs btc h (b # bs) = (h @ b) # climb_inputs btc (x_sha256d btc (h @ b)) bs"

definition merkle_inputs :: "bitcoin \<Rightarrow> MerkleRootTemplate \<Rightarrow> Extranonce \<Rightarrow> bytes set" where
  "merkle_inputs btc t e =
     (case x_coinbase_txid btc (coinbase_bytes t e) of
        None \<Rightarrow> {} | Some txid \<Rightarrow> set (climb_inputs btc txid (mt_merkle_branches t)))"

lemma climb_inject:
  assumes "inj_on (x_sha256d btc) (set (climb_inputs btc x bs) \<union> set (climb_inputs btc y bs))"
    and "fold (\<lambda>b h. x_sha256d btc (h @ b)) bs x = fold (\<lambda>b h. x_sha256d btc (h @ b)) bs y"
  shows "x = y"
  using assms
proof (induction bs arbitrary: x y)
  case Nil
  then show ?case by simp
next
  case (Cons b bs)
  have "inj_on (x_sha256d btc) (set (climb_inputs btc (x_sha256d btc (x @ b)) bs) \<union>
      set (climb_inputs btc (x_sha256d btc (y @ b)) bs))"
    using Cons.prems(1) by (rule inj_on_subset) auto
  with Cons.IH Cons.prems(2) have "x_sha256d btc (x @ b) = x_sha256d btc (y @ b)" by simp
  with Cons.prems(1) have "x @ b = y @ b" by (rule inj_onD) auto
  then show ?case by simp
qed

text \<open>
  When the inputs actually hashed do not collide, different extranonces have different merkle
  roots: the header space of a task is not searched twice.
\<close>

lemma merkle_root_inject:
  assumes txid: "inj_on (x_coinbase_txid btc) {coinbase_bytes t e, coinbase_bytes t f}"
    and sha: "inj_on (x_sha256d btc) (merkle_inputs btc t e \<union> merkle_inputs btc t f)"
    and wf: "wf_Extranonce e" "wf_Extranonce f"
    and r: "Template_compute_merkle_root btc t e = Inr r" "Template_compute_merkle_root btc t f = Inr r"
  shows "e = f"
proof -
  obtain x y where x: "x_coinbase_txid btc (coinbase_bytes t e) = Some x"
    and y: "x_coinbase_txid btc (coinbase_bytes t f) = Some y"
    and eq: "fold (\<lambda>b h. x_sha256d btc (h @ b)) (mt_merkle_branches t) x =
      fold (\<lambda>b h. x_sha256d btc (h @ b)) (mt_merkle_branches t) y"
    using r by (auto simp: Template_compute_merkle_root_def split: option.splits)
  from sha have "x = y"
    unfolding merkle_inputs_def x y option.case using eq by (rule climb_inject)
  then have "x_coinbase_txid btc (coinbase_bytes t e) = x_coinbase_txid btc (coinbase_bytes t f)"
    by (simp add: x y)
  with txid have "coinbase_bytes t e = coinbase_bytes t f" by (rule inj_onD) simp_all
  then show ?thesis using coinbase_bytes_inject [OF wf] by blast
qed

end
