(* ===== verification/Chip_Thread.thy ===== *)
theory Chip_Thread
  imports Chain Chip_Config Register_Client Jobs
begin

text \<open>
  The BM13xx hash thread, \<open>asic/bm13xx/thread.rs\<close>: the table of jobs the chips hold, the
  conversion of a task to a chip job, the bring-up of the chain, and the actor with its message
  handlers. Everything the actor does to the outside is logged in its state: register commands
  (in the wire of \<open>Register_Client\<close>), chip jobs, operations on the peripherals, shares and
  events. The world says which sends and peripheral operations fail. Delays are not modelled.
  \<open>Log2Difficulty\<close> is its exponent, computed outside this model from the nameplate rate.
\<close>

subsection \<open>Jobs on the chip\<close>

record ChipJobTracker =
  cj_tasks :: "HashTask option list"
  cj_next_id :: u8

definition ChipJobTracker_new :: ChipJobTracker where
  "ChipJobTracker_new = \<lparr>cj_tasks = replicate 16 None, cj_next_id = 0\<rparr>"

text \<open>The index is below 16 by the invariant \<open>tracker_inv\<close> below, so it never panics.\<close>

definition tracker_insert :: "HashTask \<Rightarrow> ChipJobTracker \<Rightarrow> u8 \<times> ChipJobTracker" where
  "tracker_insert task t =
     (let chip_job_id = cj_next_id t
      in (chip_job_id,
          t\<lparr>cj_tasks := (cj_tasks t)[unat chip_job_id := Some task],
            cj_next_id := (cj_next_id t + 1) mod of_nat (length (cj_tasks t))\<rparr>))"

definition tracker_get :: "u8 \<Rightarrow> ChipJobTracker \<Rightarrow> HashTask option" where
  "tracker_get chip_job_id t =
     (if unat chip_job_id < length (cj_tasks t) then cj_tasks t ! unat chip_job_id else None)"

definition tracker_clear :: "ChipJobTracker \<Rightarrow> ChipJobTracker" where
  "tracker_clear t = t\<lparr>cj_tasks := replicate 16 None\<rparr>"

datatype task_error = ExtranonceRequired | MerkleFailed MerkleError

definition task_to_job_full :: "bitcoin \<Rightarrow> HashTask \<Rightarrow> u8 \<Rightarrow> task_error + JobFullFormat" where
  "task_to_job_full btc task chip_job_id =
     (let template = ht_template task;
          merkle_root =
            (case jt_merkle_root template of
               Computed _ \<Rightarrow>
                 (case ht_extranonce task of
                    None \<Rightarrow> Inl ExtranonceRequired
                  | Some extranonce \<Rightarrow>
                      (case compute_merkle_root btc template extranonce of
                         Inl e \<Rightarrow> Inl (MerkleFailed e)
                       | Inr mr \<Rightarrow> Inr mr))
             | Fixed mr \<Rightarrow> Inr mr)
      in case merkle_root of
           Inl e \<Rightarrow> Inl e
         | Inr mr \<Rightarrow>
             Inr \<lparr>jf_job_id = chip_job_id, jf_num_midstates = 1, jf_starting_nonce = 0,
                  jf_nbits = jt_bits template, jf_ntime = ht_ntime task, jf_merkle_root = mr,
                  jf_prev_block_hash = jt_prev_blockhash template,
                  jf_version = vt_base (jt_version template)\<rparr>)"

subsection \<open>The actor\<close>

datatype peripheral_op = ResetAssert | ResetRelease | RegulatorEnable | RegulatorDisable

datatype 'e bringup_error =
  EnableFailed
| ReleaseFailed
| CommandFailed "'e RegisterClientError"
| ChipCountMismatch nat nat
| AddressFailed AddressOverflowError
| NoPllSolution
| VerificationMismatch u8 Register Register

datatype 'e thread_error =
  BringUpFailed "'e bringup_error"
| ShutDownDuringBringUp
| JobSendFailed 'e
| TaskFailed task_error

record 'e thread_world =
  tw_commands :: "'e world"
  tw_job_error :: "nat \<Rightarrow> 'e option"
  tw_peripheral_ok :: "nat \<Rightarrow> bool"

record actor =
  ac_config :: ChipConfig
  ac_chain :: Chain
  ac_asic_difficulty :: u8
  ac_chain_initialized :: bool
  ac_current_task :: "HashTask option"
  ac_chip_jobs :: ChipJobTracker
  ac_active :: bool
  ac_wire :: wire
  ac_jobs_sent :: "JobCommand list"
  ac_job_attempts :: "(JobFullFormat \<times> bool) list"
  ac_peripherals :: "peripheral_op list"
  ac_shares :: "(channel \<times> Share) list"
  ac_events :: "HashRate list"

text \<open>\<open>Actor::new\<close>; building the chain from a topology never panics (\<open>from_topology_Some\<close>).\<close>

definition actor_new :: "ChipConfig \<Rightarrow> TopologySpec \<Rightarrow> u8 \<Rightarrow> actor option" where
  "actor_new config topology asic_difficulty =
     map_option (\<lambda>chain. \<lparr>ac_config = config, ac_chain = chain, ac_asic_difficulty = asic_difficulty,
        ac_chain_initialized = False, ac_current_task = None, ac_chip_jobs = ChipJobTracker_new,
        ac_active = False, ac_wire = \<lparr>w_sent = [], w_queue = []\<rparr>, ac_jobs_sent = [], ac_job_attempts = [],
        ac_peripherals = [], ac_shares = [], ac_events = []\<rparr>)
       (from_topology topology)"

subsection \<open>Bring-up\<close>

text \<open>An operation of the register client, its error given context.\<close>

definition on_wire ::
    "(wire \<Rightarrow> ('e RegisterClientError + 'a) \<times> wire) \<Rightarrow> actor \<Rightarrow> ('e bringup_error + 'a) \<times> actor" where
  "on_wire f a =
     (case f (ac_wire a) of
        (Inl e, w) \<Rightarrow> (Inl (CommandFailed e), a\<lparr>ac_wire := w\<rparr>)
      | (Inr x, w) \<Rightarrow> (Inr x, a\<lparr>ac_wire := w\<rparr>))"

definition peripheral :: "'e thread_world \<Rightarrow> peripheral_op \<Rightarrow> 'e bringup_error \<Rightarrow> actor \<Rightarrow> ('e bringup_error + unit) \<times> actor" where
  "peripheral env op err a =
     (let a' = a\<lparr>ac_peripherals := ac_peripherals a @ [op]\<rparr>
      in if tw_peripheral_ok env (length (ac_peripherals a)) then (Inr (), a') else (Inl err, a'))"

primrec send_all :: "'e thread_world \<Rightarrow> RegisterCommand list \<Rightarrow> actor \<Rightarrow> ('e bringup_error + unit) \<times> actor" where
  "send_all env [] a = (Inr (), a)"
| "send_all env (cmd # cmds) a =
     and_then (on_wire (send_command (tw_commands env) cmd)) (\<lambda>_. send_all env cmds) a"

abbreviation broadcast :: "Register \<Rightarrow> RegisterCommand" where
  "broadcast \<equiv> WriteRegister Broadcast"

definition version_mask_commands :: "RegisterCommand list" where
  "version_mask_commands = replicate 3 (broadcast (Register.MidstateConfig MidstateConfig_full_rolling))"

definition pre_configuration :: "ChipConfig \<Rightarrow> RegisterCommand list" where
  "pre_configuration cfg =
     [broadcast (Register.SoftResetControl (cfg_soft_reset_defaults cfg)),
      broadcast (Register.MiscControl (cfg_misc_control cfg)),
      ChainInactive]"

definition addressing_commands :: "Chain \<Rightarrow> RegisterCommand list" where
  "addressing_commands chain = map (\<lambda>(_, chip). SetChipAddress (chip_address chip)) (chain_chips chain)"

definition core_configuration :: "ChipConfig \<Rightarrow> u8 \<Rightarrow> RegisterCommand list" where
  "core_configuration cfg asic_difficulty =
     [broadcast (Register.CoreMailbox (cfg_clock_select cfg)),
      broadcast (Register.CoreMailbox (CoreCommand_write_all ClockDelay 0x0C)),
      broadcast (Register.TicketMask (TicketMask_new asic_difficulty)),
      broadcast (Register.IoDriverStrength IoDriverStrength_normal)]"

definition chip_configuration :: "ChipConfig \<Rightarrow> Chip \<Rightarrow> RegisterCommand list" where
  "chip_configuration cfg chip =
     (let destination = Destination.Chip (chip_address chip)
      in [WriteRegister destination (Register.SoftResetControl (cfg_core_reset cfg)),
          WriteRegister destination (Register.MiscControl (cfg_misc_control cfg)),
          WriteRegister destination (Register.CoreMailbox (cfg_clock_select cfg)),
          WriteRegister destination (Register.CoreMailbox (CoreCommand_write_all ClockDelay 0x0C)),
          WriteRegister destination (Register.CoreMailbox (CoreCommand_write_all CoreEnable 0xAA))])"

definition additional_settings :: "ChipConfig \<Rightarrow> RegisterCommand list" where
  "additional_settings cfg =
     [broadcast (Register.AdcCtrl1 AdcCtrl1_bring_up),
      broadcast (Register.AnalogMux (cfg_analog_mux cfg)),
      broadcast (Register.AdcCtrl1 AdcCtrl1_bring_up),
      broadcast (Register.CoreMailbox (CoreCommand_nonce_bin_overflow True))]"

definition ramp_commands :: "PllReg list \<Rightarrow> RegisterCommand list" where
  "ramp_commands frequency_steps = map (\<lambda>pll. broadcast (Register.PllDivider pll)) frequency_steps"

definition final_configuration :: "ChipConfig \<Rightarrow> RegisterCommand list" where
  "final_configuration cfg =
     [broadcast (Register.HashCountingNumber (cfg_hash_counting_number cfg)),
      broadcast (Register.MidstateConfig MidstateConfig_full_rolling)]"

definition configuration_commands :: "ChipConfig \<Rightarrow> u8 \<Rightarrow> Chain \<Rightarrow> PllReg list \<Rightarrow> RegisterCommand list" where
  "configuration_commands cfg asic_difficulty chain frequency_steps =
     core_configuration cfg asic_difficulty @
     concat (map (\<lambda>(_, chip). chip_configuration cfg chip) (chain_chips chain)) @
     additional_settings cfg @ ramp_commands frequency_steps @ final_configuration cfg"

definition expected_registers :: "ChipConfig \<Rightarrow> u8 \<Rightarrow> PllReg \<Rightarrow> Register list" where
  "expected_registers cfg asic_difficulty target_pll =
     [Register.MiscControl (cfg_misc_control cfg),
      Register.TicketMask (TicketMask_new asic_difficulty),
      Register.PllDivider (target_pll\<lparr>pll_locked := True\<rparr>)]"

text \<open>The nested verification loops, over pairs of address and expected register.\<close>

primrec verify_all :: "'e thread_world \<Rightarrow> (u8 \<times> Register) list \<Rightarrow> actor \<Rightarrow> ('e bringup_error + unit) \<times> actor" where
  "verify_all env [] a = (Inr (), a)"
| "verify_all env (check # checks) a =
     (case check of (address, expected) \<Rightarrow>
        and_then (on_wire (client_read (tw_commands env) address (Register_address expected)))
          (\<lambda>actual. if actual \<noteq> expected then (\<lambda>a. (Inl (VerificationMismatch address expected actual), a))
                    else verify_all env checks) a)"

definition enumerate_chips :: "'e thread_world \<Rightarrow> actor \<Rightarrow> ('e bringup_error + unit) \<times> actor" where
  "enumerate_chips env =
     and_then (on_wire (broadcast_read (tw_commands env) RegisterAddress.ChipId))
       (\<lambda>replies a. if length replies \<noteq> chip_count (ac_chain a)
                    then (Inl (ChipCountMismatch (length replies) (chip_count (ac_chain a))), a)
                    else (Inr (), a))"

definition address_chain :: "actor \<Rightarrow> ('e bringup_error + unit) \<times> actor" where
  "address_chain a =
     (case assign_addresses (ac_chain a) of
        Inl e \<Rightarrow> (Inl (AddressFailed e), a)
      | Inr chain \<Rightarrow> (Inr (), a\<lparr>ac_chain := chain\<rparr>))"

definition verify_chain :: "'e thread_world \<Rightarrow> actor \<Rightarrow> ('e bringup_error + unit) \<times> actor" where
  "verify_chain env a =
     (case calculate_pll (ac_config a) (cfg_default_freq (ac_config a)) of
        None \<Rightarrow> (Inl NoPllSolution, a)
      | Some target_pll \<Rightarrow>
          verify_all env
            (concat (map (\<lambda>(_, chip). map (\<lambda>r. (chip_address chip, r))
                (expected_registers (ac_config a) (ac_asic_difficulty a) target_pll))
              (chain_chips (ac_chain a)))) a)"

text \<open>
  \<open>initialize_chain\<close>, for the frequency steps the ramp generator yields.
\<close>

definition initialize_chain :: "'e thread_world \<Rightarrow> PllReg list \<Rightarrow> actor \<Rightarrow> ('e bringup_error + unit) \<times> actor" where
  "initialize_chain env frequency_steps =
     and_then (peripheral env RegulatorEnable EnableFailed) (\<lambda>_.
     and_then (peripheral env ResetRelease ReleaseFailed) (\<lambda>_.
     and_then (send_all env version_mask_commands) (\<lambda>_.
     and_then (enumerate_chips env) (\<lambda>_.
     and_then (\<lambda>a. send_all env (pre_configuration (ac_config a)) a) (\<lambda>_.
     and_then address_chain (\<lambda>_.
     and_then (\<lambda>a. send_all env (addressing_commands (ac_chain a)) a) (\<lambda>_.
     and_then (\<lambda>a. send_all env (configuration_commands (ac_config a) (ac_asic_difficulty a)
                              (ac_chain a) frequency_steps) a) (\<lambda>_.
     verify_chain env))))))))"

text \<open>\<open>None\<close>: the ramp generator does not return.\<close>

definition ensure_chain_initialized :: "'e thread_world \<Rightarrow> actor \<Rightarrow> (('e bringup_error + unit) \<times> actor) option" where
  "ensure_chain_initialized env a =
     (if ac_chain_initialized a then Some (Inr (), a)
      else
        map_option (\<lambda>frequency_steps.
            and_then (initialize_chain env frequency_steps)
              (\<lambda>_ a. (Inr (), a\<lparr>ac_chain_initialized := True\<rparr>)) a)
          (generate_frequency_ramp_steps (ac_config a)
            (fst (cfg_freq_range (ac_config a)), cfg_default_freq (ac_config a))
            (cfg_ramp_step (ac_config a))))"

subsection \<open>The job table\<close>

definition tracker_inv :: "ChipJobTracker \<Rightarrow> bool" where
  "tracker_inv t \<longleftrightarrow> length (cj_tasks t) = 16 \<and> unat (cj_next_id t) < 16"

lemma tracker_inv_new: "tracker_inv ChipJobTracker_new"
  by (simp add: tracker_inv_def ChipJobTracker_new_def)

lemma tracker_inv_clear: "tracker_inv t \<Longrightarrow> tracker_inv (tracker_clear t)"
  by (simp add: tracker_inv_def tracker_clear_def)

lemma next_id_mod:
  "unat i < 16 \<Longrightarrow> unat ((i + 1) mod (16 :: u8)) = (unat i + 1) mod 16"
  by (simp add: unat_mod unat_word_ariths)

lemma tracker_inv_insert: "tracker_inv t \<Longrightarrow> tracker_inv (snd (tracker_insert task t))"
  by (simp add: tracker_inv_def tracker_insert_def Let_def next_id_mod)

text \<open>Inserting a list of tasks; the ids come back in order.\<close>

primrec tracker_insert_all :: "HashTask list \<Rightarrow> ChipJobTracker \<Rightarrow> ChipJobTracker" where
  "tracker_insert_all [] t = t"
| "tracker_insert_all (task # tasks) t = tracker_insert_all tasks (snd (tracker_insert task t))"

lemma tracker_insert_all_snoc:
  "tracker_insert_all (tasks @ [x]) t = snd (tracker_insert x (tracker_insert_all tasks t))"
  by (induction tasks arbitrary: t) auto

lemma tracker_insert_all_next:
  assumes "tracker_inv t"
  shows "tracker_inv (tracker_insert_all tasks t)"
    and "unat (cj_next_id (tracker_insert_all tasks t)) = (unat (cj_next_id t) + length tasks) mod 16"
proof -
  have "tracker_inv (tracker_insert_all tasks t) \<and>
      unat (cj_next_id (tracker_insert_all tasks t)) = (unat (cj_next_id t) + length tasks) mod 16"
    using assms
  proof (induction tasks arbitrary: t)
    case Nil
    then show ?case by (simp add: tracker_inv_def)
  next
    case (Cons x tasks)
    have "unat (cj_next_id (snd (tracker_insert x t))) = (unat (cj_next_id t) + 1) mod 16"
      using Cons.prems by (simp add: tracker_insert_def Let_def tracker_inv_def next_id_mod)
    then show ?case
      using Cons.IH [OF tracker_inv_insert [OF Cons.prems]] by (simp add: mod_simps)
  qed
  then show "tracker_inv (tracker_insert_all tasks t)"
    and "unat (cj_next_id (tracker_insert_all tasks t)) = (unat (cj_next_id t) + length tasks) mod 16"
    by simp_all
qed

text \<open>
  The sixteen newest tasks are all in the table, each under the id it was given: a report for
  any of the last sixteen jobs finds its own task.
\<close>

lemma tracker_get_recent:
  assumes "tracker_inv t" and "i < length tasks" and "length tasks - i \<le> 16"
  shows "tracker_get (cj_next_id (tracker_insert_all (take i tasks) t)) (tracker_insert_all tasks t) =
    Some (tasks ! i)"
  using assms(2,3)
proof (induction tasks rule: rev_induct)
  case Nil
  then show ?case by simp
next
  case (snoc x tasks)
  let ?T = "tracker_insert_all tasks t"
  have inv: "tracker_inv ?T" and nxt: "unat (cj_next_id ?T) = (unat (cj_next_id t) + length tasks) mod 16"
    using tracker_insert_all_next [OF assms(1)] by blast+
  show ?case
  proof (cases "i = length tasks")
    case True
    then show ?thesis
      using inv by (simp add: tracker_insert_all_snoc tracker_insert_def tracker_get_def tracker_inv_def Let_def)
  next
    case False
    then have i: "i < length tasks" "length tasks - i < 16" using snoc.prems by auto
    let ?k = "cj_next_id (tracker_insert_all (take i tasks) t)"
    have k: "unat ?k = (unat (cj_next_id t) + i) mod 16"
      using tracker_insert_all_next(2) [OF assms(1), of "take i tasks"] i by simp
    have "unat ?k \<noteq> unat (cj_next_id ?T)"
    proof
      assume "unat ?k = unat (cj_next_id ?T)"
      then have "(unat (cj_next_id t) + i) mod 16 = (unat (cj_next_id t) + length tasks) mod 16"
        using k nxt by simp
      then have "16 dvd (unat (cj_next_id t) + length tasks) - (unat (cj_next_id t) + i)"
        using i by (subst mod_eq_dvd_iff_nat [symmetric]) auto
      then have "16 dvd length tasks - i" by simp
      then show False using i by (auto dest: dvd_imp_le)
    qed
    moreover have "tracker_get ?k ?T = Some (tasks ! i)" using snoc.IH i by simp
    ultimately show ?thesis
      using i inv
      by (simp add: tracker_insert_all_snoc tracker_insert_def tracker_get_def Let_def nth_append
          split: if_splits)
  qed
qed

lemma tracker_get_clear [simp]: "tracker_get i (tracker_clear t) = None"
  by (simp add: tracker_get_def tracker_clear_def)

subsection \<open>What bring-up leaves alone\<close>

text \<open>
  The interface of a bring-up step: a projection of the actor that the three fields bring-up
  works on do not affect survives any such step.
\<close>

locale bringup_frame =
  fixes proj :: "actor \<Rightarrow> 'p"
  assumes ignores_wire: "proj (a\<lparr>ac_wire := w\<rparr>) = proj a"
    and ignores_chain: "proj (a\<lparr>ac_chain := c\<rparr>) = proj a"
    and ignores_peripherals: "proj (a\<lparr>ac_peripherals := ps\<rparr>) = proj a"
begin

lemma and_then_frame:
  assumes "\<And>s. proj (snd (f s)) = proj s" and "\<And>a s. proj (snd (g a s)) = proj s"
  shows "proj (snd (and_then f g s)) = proj s"
  using assms by (auto simp: and_then_def split: prod.splits sum.splits) (metis snd_conv)+

lemma on_wire_frame: "proj (snd (on_wire f a)) = proj a"
  by (auto simp: on_wire_def ignores_wire split: prod.splits sum.splits)

lemma peripheral_frame: "proj (snd (peripheral env op err a)) = proj a"
  by (simp add: peripheral_def ignores_peripherals Let_def)

lemma send_all_frame: "proj (snd (send_all env cmds a)) = proj a"
  by (induction cmds arbitrary: a) (simp_all add: and_then_frame on_wire_frame)

lemma verify_all_frame: "proj (snd (verify_all env checks a)) = proj a"
proof (induction checks arbitrary: a)
  case Nil
  then show ?case by simp
next
  case (Cons c checks)
  then show ?case by (cases c) (simp add: and_then_frame on_wire_frame)
qed

lemma initialize_chain_frame: "proj (snd (initialize_chain env steps a)) = proj a"
proof -
  have "proj (snd (enumerate_chips env s)) = proj s" for env :: "'e thread_world" and s
    unfolding enumerate_chips_def by (rule and_then_frame) (simp_all add: on_wire_frame)
  moreover have "proj (snd (address_chain s :: ('e bringup_error + unit) \<times> actor)) = proj s" for s
    by (simp add: address_chain_def ignores_chain split: sum.splits)
  moreover have "proj (snd (verify_chain env s)) = proj s" for env :: "'e thread_world" and s
    by (simp add: verify_chain_def verify_all_frame split: option.splits)
  ultimately show ?thesis
    unfolding initialize_chain_def
    by (intro and_then_frame) (simp_all add: peripheral_frame send_all_frame)
qed

end

interpretation frame_config: bringup_frame ac_config by unfold_locales simp_all
interpretation frame_difficulty: bringup_frame ac_asic_difficulty by unfold_locales simp_all
interpretation frame_initialized: bringup_frame ac_chain_initialized by unfold_locales simp_all
interpretation frame_task: bringup_frame ac_current_task by unfold_locales simp_all
interpretation frame_jobs: bringup_frame ac_chip_jobs by unfold_locales simp_all
interpretation frame_sent: bringup_frame ac_jobs_sent by unfold_locales simp_all
interpretation frame_attempts: bringup_frame ac_job_attempts by unfold_locales simp_all
interpretation frame_shares: bringup_frame ac_shares by unfold_locales simp_all
interpretation frame_active: bringup_frame ac_active by unfold_locales simp_all
interpretation frame_events: bringup_frame ac_events by unfold_locales simp_all

lemmas bringup_frames =
  frame_config.initialize_chain_frame frame_difficulty.initialize_chain_frame
  frame_initialized.initialize_chain_frame frame_task.initialize_chain_frame
  frame_jobs.initialize_chain_frame frame_sent.initialize_chain_frame
  frame_attempts.initialize_chain_frame frame_shares.initialize_chain_frame frame_active.initialize_chain_frame
  frame_events.initialize_chain_frame

subsection \<open>What a successful bring-up did\<close>

abbreviation sent :: "actor \<Rightarrow> RegisterCommand list" where
  "sent a \<equiv> w_sent (ac_wire a)"

lemma send_all_Inr:
  assumes "send_all env cmds a = (Inr (), a')"
  shows "\<exists>w. a' = a\<lparr>ac_wire := w\<rparr> \<and> w_sent w = sent a @ cmds"
  using assms
proof (induction cmds arbitrary: a)
  case Nil
  then show ?case by (intro exI [of _ "ac_wire a"]) simp
next
  case (Cons c cmds)
  then obtain u where u: "on_wire (send_command (tw_commands env) c) a = (Inr (), u)"
    and rest: "send_all env cmds u = (Inr (), a')"
    by (auto simp: and_then_Inr_iff)
  from u have ws: "sent u = sent a @ [c]" and ua: "u = a\<lparr>ac_wire := ac_wire u\<rparr>"
    by (auto simp: on_wire_def send_command_def split: option.splits prod.splits sum.splits)
  from Cons.IH [OF rest] obtain w where w: "a' = u\<lparr>ac_wire := w\<rparr>" "w_sent w = sent u @ cmds" by blast
  moreover have "u\<lparr>ac_wire := w\<rparr> = a\<lparr>ac_wire := w\<rparr>" by (subst ua) simp
  ultimately show ?case using ws by (intro exI [of _ w]) simp
qed

lemma enumerate_chips_Inr:
  assumes "enumerate_chips env a = (Inr (), a')"
  shows "\<exists>w. a' = a\<lparr>ac_wire := w\<rparr> \<and> w_sent w = sent a @ [ReadRegister Broadcast RegisterAddress.ChipId]"
    and "length (filter (\<lambda>r. Register_address (rr_register r) = RegisterAddress.ChipId)
           (w_arrives (tw_commands env) (length (sent a)))) = chip_count (ac_chain a)"
proof -
  from assms obtain replies u where u: "on_wire (broadcast_read (tw_commands env) RegisterAddress.ChipId) a = (Inr replies, u)"
    and ok: "length replies = chip_count (ac_chain u)" and a': "a' = u"
    by (auto simp: enumerate_chips_def and_then_Inr_iff split: if_splits)
  from u obtain w where b: "broadcast_read (tw_commands env) RegisterAddress.ChipId (ac_wire a) = (Inr replies, w)"
    and ua: "u = a\<lparr>ac_wire := w\<rparr>"
    by (auto simp: on_wire_def split: prod.splits sum.splits)
  show "\<exists>w. a' = a\<lparr>ac_wire := w\<rparr> \<and> w_sent w = sent a @ [ReadRegister Broadcast RegisterAddress.ChipId]"
    using broadcast_read_Inr(1) [OF b] ua a' by blast
  show "length (filter (\<lambda>r. Register_address (rr_register r) = RegisterAddress.ChipId)
      (w_arrives (tw_commands env) (length (sent a)))) = chip_count (ac_chain a)"
    using broadcast_read_Inr(2) [OF b] ok ua by simp
qed

text \<open>A chip confirmed a register when a reply with its address and that very value arrived.\<close>

definition confirmed :: "'e world \<Rightarrow> u8 \<Rightarrow> Register \<Rightarrow> bool" where
  "confirmed env address r \<longleftrightarrow>
     (\<exists>n. \<exists>resp \<in> set (w_arrives env n). rr_chip_address resp = address \<and> rr_register resp = r)"

definition directed_read :: "RegisterCommand \<Rightarrow> bool" where
  "directed_read cmd \<longleftrightarrow> (\<exists>chip a. cmd = ReadRegister (Destination.Chip chip) a)"

lemma client_read_confirmed:
  assumes "client_read env chip (Register_address r) s = (Inr r, s')"
  shows "confirmed env chip r"
proof -
  from assms obtain j rest where
    "matching_response chip (Register_address r) (w_arrives env (length (w_sent s) + j)) = Some (r, rest)"
    by (auto simp: client_read_Inr_iff answers_def)
  then show ?thesis
    by (auto simp: matching_response_Some_iff response_matches_def confirmed_def
        intro!: exI [of _ "length (w_sent s) + j"])
qed

lemma verify_all_Inr:
  assumes "verify_all env checks a = (Inr (), a')"
  shows "\<exists>w reads. a' = a\<lparr>ac_wire := w\<rparr> \<and> w_sent w = sent a @ reads \<and> list_all directed_read reads \<and>
    (\<forall>(address, r) \<in> set checks. confirmed (tw_commands env) address r)"
  using assms
proof (induction checks arbitrary: a)
  case Nil
  then show ?case by (intro exI [of _ "ac_wire a"]) simp
next
  case (Cons c checks)
  obtain address r where c: "c = (address, r)" by (cases c)
  from Cons.prems c obtain u where u: "on_wire (client_read (tw_commands env) address (Register_address r)) a = (Inr r, u)"
    and rest: "verify_all env checks u = (Inr (), a')"
    by (auto simp: and_then_Inr_iff split: if_splits)
  from u obtain w where w: "client_read (tw_commands env) address (Register_address r) (ac_wire a) = (Inr r, w)"
    and ua: "u = a\<lparr>ac_wire := w\<rparr>"
    by (auto simp: on_wire_def split: prod.splits sum.splits)
  from w obtain j where j: "w_sent w = sent a @ replicate (Suc j) (ReadRegister (Destination.Chip address) (Register_address r))"
    unfolding client_read_Inr_iff by (metis wire.select_convs(1) wire.surjective wire.update_convs(1) wire.update_convs(2))
  from Cons.IH [OF rest] obtain v reads where v: "a' = u\<lparr>ac_wire := v\<rparr>" "w_sent v = sent u @ reads"
    "list_all directed_read reads" "\<forall>(address, r) \<in> set checks. confirmed (tw_commands env) address r"
    by blast
  have "a' = a\<lparr>ac_wire := v\<rparr>" using v(1) ua by simp
  moreover have "w_sent v = sent a @ (replicate (Suc j) (ReadRegister (Destination.Chip address) (Register_address r)) @ reads)"
    using v(2) ua j by simp
  moreover have "list_all directed_read (replicate (Suc j) (ReadRegister (Destination.Chip address) (Register_address r)) @ reads)"
    using v(3) by (auto simp: directed_read_def list_all_iff)
  moreover have "confirmed (tw_commands env) address r" using w by (rule client_read_confirmed)
  ultimately show ?case using v(4) c by auto
qed

definition bringup_commands :: "ChipConfig \<Rightarrow> u8 \<Rightarrow> Chain \<Rightarrow> PllReg list \<Rightarrow> RegisterCommand list" where
  "bringup_commands cfg asic_difficulty chain steps =
     version_mask_commands @ [ReadRegister Broadcast RegisterAddress.ChipId] @ pre_configuration cfg @
     addressing_commands chain @ configuration_commands cfg asic_difficulty chain steps"

lemma peripheral_Inr:
  "peripheral env op err a = (Inr x, a') \<longleftrightarrow>
     tw_peripheral_ok env (length (ac_peripherals a)) \<and> a' = a\<lparr>ac_peripherals := ac_peripherals a @ [op]\<rparr>"
  by (auto simp: peripheral_def Let_def)

lemma initialize_chain_Inr:
  assumes "initialize_chain env steps a = (Inr (), a')"
  shows "\<exists>chain reads pll. assign_addresses (ac_chain a) = Inr chain \<and> ac_chain a' = chain \<and>
    ac_peripherals a' = ac_peripherals a @ [RegulatorEnable, ResetRelease] \<and>
    sent a' = sent a @ bringup_commands (ac_config a) (ac_asic_difficulty a) chain steps @ reads \<and>
    list_all directed_read reads \<and>
    calculate_pll (ac_config a) (cfg_default_freq (ac_config a)) = Some pll \<and>
    (\<forall>chip \<in> set (ch_chips chain). \<forall>r \<in> set (expected_registers (ac_config a) (ac_asic_difficulty a) pll).
       confirmed (tw_commands env) (chip_address chip) r)"
proof -
  let ?a2 = "a\<lparr>ac_peripherals := ac_peripherals a @ [RegulatorEnable, ResetRelease]\<rparr>"
  from assms obtain a3 a4 a5 a6 a7 a8 where
    s3: "send_all env version_mask_commands ?a2 = (Inr (), a3)" and
    s4: "enumerate_chips env a3 = (Inr (), a4)" and
    s5: "send_all env (pre_configuration (ac_config a4)) a4 = (Inr (), a5)" and
    s6: "address_chain a5 = ((Inr () :: 'a bringup_error + unit), a6)" and
    s7: "send_all env (addressing_commands (ac_chain a6)) a6 = (Inr (), a7)" and
    s8: "send_all env (configuration_commands (ac_config a7) (ac_asic_difficulty a7) (ac_chain a7) steps) a7 = (Inr (), a8)" and
    s9: "verify_chain env a8 = (Inr (), a')"
    by (auto simp: initialize_chain_def and_then_Inr_iff peripheral_Inr)
  from send_all_Inr [OF s3] obtain w3 where a3: "a3 = ?a2\<lparr>ac_wire := w3\<rparr>" and w3: "w_sent w3 = sent a @ version_mask_commands" by auto
  from enumerate_chips_Inr(1) [OF s4] obtain w4 where a4: "a4 = ?a2\<lparr>ac_wire := w4\<rparr>"
    and w4: "w_sent w4 = w_sent w3 @ [ReadRegister Broadcast RegisterAddress.ChipId]" using a3 by auto
  from send_all_Inr [OF s5] obtain w5 where a5: "a5 = ?a2\<lparr>ac_wire := w5\<rparr>"
    and w5: "w_sent w5 = w_sent w4 @ pre_configuration (ac_config a)" using a4 by auto
  from s6 obtain chain where chain: "assign_addresses (ac_chain a) = Inr chain"
    and a6: "a6 = ?a2\<lparr>ac_chain := chain, ac_wire := w5\<rparr>"
    using a5 by (auto simp: address_chain_def split: sum.splits)
  from send_all_Inr [OF s7] obtain w7 where a7: "a7 = ?a2\<lparr>ac_chain := chain, ac_wire := w7\<rparr>"
    and w7: "w_sent w7 = w_sent w5 @ addressing_commands chain" using a6 by auto
  from send_all_Inr [OF s8] obtain w8 where a8: "a8 = ?a2\<lparr>ac_chain := chain, ac_wire := w8\<rparr>"
    and w8: "w_sent w8 = w_sent w7 @ configuration_commands (ac_config a) (ac_asic_difficulty a) chain steps"
    using a7 by auto
  from s9 a8 obtain pll where pll: "calculate_pll (ac_config a) (cfg_default_freq (ac_config a)) = Some pll"
    and v: "verify_all env (concat (map (\<lambda>(_, chip). map (\<lambda>r. (chip_address chip, r))
        (expected_registers (ac_config a) (ac_asic_difficulty a) pll)) (chain_chips chain))) a8 = (Inr (), a')"
    by (auto simp: verify_chain_def split: option.splits)
  from verify_all_Inr [OF v] obtain w reads where a': "a' = a8\<lparr>ac_wire := w\<rparr>" and w: "w_sent w = sent a8 @ reads"
    and reads: "list_all directed_read reads"
    and conf: "\<forall>(address, r) \<in> set (concat (map (\<lambda>(_, chip). map (\<lambda>r. (chip_address chip, r))
        (expected_registers (ac_config a) (ac_asic_difficulty a) pll)) (chain_chips chain))).
        confirmed (tw_commands env) address r"
    by blast
  have "confirmed (tw_commands env) (chip_address chip) r"
    if "chip \<in> set (ch_chips chain)" "r \<in> set (expected_registers (ac_config a) (ac_asic_difficulty a) pll)" for chip r
  proof -
    from that(1) obtain i where "i < length (ch_chips chain)" "ch_chips chain ! i = chip"
      by (auto simp: in_set_conv_nth)
    then have "(i, chip) \<in> set (enumerate 0 (ch_chips chain))"
      by (auto simp: in_set_enumerate_eq)
    then have "(ChipId.ChipId i, chip) \<in> set (chain_chips chain)" by (force simp: chain_chips_def)
    then have "(chip_address chip, r) \<in> set (concat (map (\<lambda>(_, chip). map (\<lambda>r. (chip_address chip, r))
        (expected_registers (ac_config a) (ac_asic_difficulty a) pll)) (chain_chips chain)))"
      using that(2) by (auto simp del: set_map intro!: bexI [of _ "(ChipId.ChipId i, chip)"]) auto
    then show ?thesis using bspec [OF conf] by blast
  qed
  moreover have "sent a' = sent a @ bringup_commands (ac_config a) (ac_asic_difficulty a) chain steps @ reads"
    using a' a8 w w3 w4 w5 w7 w8 by (simp add: bringup_commands_def)
  moreover have "ac_chain a' = chain" "ac_peripherals a' = ac_peripherals a @ [RegulatorEnable, ResetRelease]"
    using a' a8 by simp_all
  ultimately show ?thesis using chain pll reads by blast
qed

subsection \<open>A chain of the wrong length\<close>

lemma and_then_Inl_iff:
  "and_then f g s = (Inl e, t) \<longleftrightarrow>
     f s = (Inl e, t) \<or> (\<exists>a u. f s = (Inr a, u) \<and> g a u = (Inl e, t))"
  by (auto simp: and_then_def split: prod.splits sum.splits)

lemma on_wire_Inl: "on_wire f a = (Inl e, a') \<Longrightarrow> \<exists>x. e = CommandFailed x"
  by (auto simp: on_wire_def split: prod.splits sum.splits)

lemma send_all_Inl: "send_all env cmds a = (Inl e, a') \<Longrightarrow> \<exists>x. e = CommandFailed x"
proof (induction cmds arbitrary: a)
  case Nil
  then show ?case by simp
next
  case (Cons c cmds)
  then show ?case using on_wire_Inl by (auto simp: and_then_Inl_iff)
qed

lemma verify_all_Inl: "verify_all env checks a = (Inl e, a') \<Longrightarrow> e \<noteq> ChipCountMismatch n m"
proof (induction checks arbitrary: a)
  case Nil
  then show ?case by simp
next
  case (Cons c checks)
  then show ?case by (cases c) (auto simp: and_then_Inl_iff dest: on_wire_Inl split: if_splits)
qed

lemma no_mismatch [simp]:
  "send_all env cmds a \<noteq> (Inl (ChipCountMismatch n m), a')"
  "verify_chain env a \<noteq> (Inl (ChipCountMismatch n m), a')"
  "address_chain a \<noteq> (Inl (ChipCountMismatch n m), a')"
  by (auto simp: verify_chain_def address_chain_def dest: send_all_Inl verify_all_Inl
      split: option.splits sum.splits)

text \<open>
  A reply count other than the declared one ends bring-up right after enumeration: no chip is
  addressed or configured.
\<close>

lemma initialize_chain_mismatch:
  assumes "initialize_chain env steps a = (Inl (ChipCountMismatch n m), a')"
  shows "n \<noteq> m" and "m = chip_count (ac_chain a)" and "ac_chain a' = ac_chain a"
    and "sent a' = sent a @ version_mask_commands @ [ReadRegister Broadcast RegisterAddress.ChipId]"
proof -
  let ?a2 = "a\<lparr>ac_peripherals := ac_peripherals a @ [RegulatorEnable, ResetRelease]\<rparr>"
  from assms obtain a3 where s3: "send_all env version_mask_commands ?a2 = (Inr (), a3)"
    and s4: "enumerate_chips env a3 = (Inl (ChipCountMismatch n m), a')"
    by (auto simp: initialize_chain_def and_then_Inl_iff peripheral_Inr)
      (auto simp: peripheral_def Let_def split: if_splits)
  from send_all_Inr [OF s3] obtain w3 where a3: "a3 = ?a2\<lparr>ac_wire := w3\<rparr>" and w3: "w_sent w3 = sent a @ version_mask_commands" by auto
  from s4 obtain replies u where u: "on_wire (broadcast_read (tw_commands env) RegisterAddress.ChipId) a3 = (Inr replies, u)"
    and nm: "n = length replies" "m = chip_count (ac_chain u)" "n \<noteq> m" and a': "a' = u"
    by (auto simp: enumerate_chips_def and_then_Inl_iff dest: on_wire_Inl split: if_splits)
  from u obtain w where b: "broadcast_read (tw_commands env) RegisterAddress.ChipId (ac_wire a3) = (Inr replies, w)"
    and ua: "u = a3\<lparr>ac_wire := w\<rparr>"
    by (auto simp: on_wire_def split: prod.splits sum.splits)
  show "n \<noteq> m" by (rule nm(3))
  show "m = chip_count (ac_chain a)" using nm(2) ua a3 by simp
  show "ac_chain a' = ac_chain a" using a' ua a3 by simp
  show "sent a' = sent a @ version_mask_commands @ [ReadRegister Broadcast RegisterAddress.ChipId]"
    using broadcast_read_Inr(1) [OF b] a' ua a3 w3 by simp
qed

end
