(* ===== verification/Chip_Actor.thy ===== *)
theory Chip_Actor
  imports Chip_Thread
begin

text \<open>
  The actor of the BM13xx hash thread (\<open>asic/bm13xx/thread.rs\<close>): the handlers of its messages
  and the loop. A handler that answers a request returns the answer; \<open>continue\<close> says whether
  the loop goes on. The lemmas show that a share sent is a hash of the very header the chip was
  given, that replacing work silences the old jobs, what is on the chip at any time, and that
  the chain is left in reset and unpowered whatever ended the loop.
\<close>

subsection \<open>Handlers\<close>

definition disable_chain :: "actor \<Rightarrow> actor" where
  "disable_chain a = a\<lparr>ac_peripherals := ac_peripherals a @ [ResetAssert, RegulatorDisable]\<rparr>"

definition set_active :: "bool \<Rightarrow> actor \<Rightarrow> actor" where
  "set_active is_active a = a\<lparr>ac_active := is_active\<rparr>"

text \<open>The event is sent unless the channel is closed, which only affects the log.\<close>

definition configure :: "actor \<Rightarrow> actor" where
  "configure a = a\<lparr>ac_events := ac_events a @ [cfg_nameplate (ac_config a)]\<rparr>"

text \<open>
  \<open>self.chip_commands.send(JobCommand::JobFull(..))\<close>. The world says which attempts fail; the log of
  attempts records for each whether it succeeded.
\<close>

definition send_job :: "'e thread_world \<Rightarrow> JobFullFormat \<Rightarrow> actor \<Rightarrow> ('e + unit) \<times> actor" where
  "send_job env job a =
     (case tw_job_error env (length (ac_job_attempts a)) of
        Some e \<Rightarrow> (Inl e, a\<lparr>ac_job_attempts := ac_job_attempts a @ [(job, False)]\<rparr>)
      | None \<Rightarrow> (Inr (), a\<lparr>ac_jobs_sent := ac_jobs_sent a @ [JobFull job],
                          ac_job_attempts := ac_job_attempts a @ [(job, True)]\<rparr>))"

text \<open>
  Bring-up races with shutdown: \<open>interrupted\<close> is the state in which shutdown cut it short, if
  it did: the wire, the chain and the peripheral operations of a bring-up in progress.
\<close>

type_synonym interruption = "wire \<times> Chain \<times> peripheral_op list"

type_synonym 'e reply = "'e thread_error + HashTask option"

text \<open>\<open>assign_task\<close>: the reply, whether the loop continues, and the state.\<close>

definition assign_task ::
    "'e thread_world \<Rightarrow> bitcoin \<Rightarrow> interruption option \<Rightarrow> bool \<Rightarrow> HashTask \<Rightarrow> actor \<Rightarrow>
       ('e reply \<times> bool \<times> actor) option" where
  "assign_task env btc interrupted replace new_task a =
     (case interrupted of
        Some (w, chain, ops) \<Rightarrow>
          Some (Inl ShutDownDuringBringUp, False,
                a\<lparr>ac_wire := w, ac_chain := chain, ac_peripherals := ops\<rparr>)
      | None \<Rightarrow>
          (case ensure_chain_initialized env a of
             None \<Rightarrow> None
           | Some (Inl e, a) \<Rightarrow> Some (Inl (BringUpFailed e), True, a)
           | Some (Inr _, a) \<Rightarrow>
               (let a = (if replace then a\<lparr>ac_chip_jobs := tracker_clear (ac_chip_jobs a)\<rparr> else a);
                    (chip_job_id, jobs) = tracker_insert new_task (ac_chip_jobs a);
                    old_task = ac_current_task a;
                    a = a\<lparr>ac_chip_jobs := jobs, ac_current_task := Some new_task\<rparr>
                in case task_to_job_full btc new_task chip_job_id of
                     Inl e \<Rightarrow> Some (Inl (TaskFailed e), True, a)
                   | Inr job_data \<Rightarrow>
                       (case send_job env job_data a of
                          (Inl e, a) \<Rightarrow> Some (Inl (JobSendFailed e), True, a)
                        | (Inr _, a) \<Rightarrow> Some (Inr old_task, True, set_active True a)))))"

definition go_idle :: "actor \<Rightarrow> HashTask option \<times> actor" where
  "go_idle a = (ac_current_task a, set_active False (a\<lparr>ac_current_task := None\<rparr>))"

text \<open>\<open>Log2Difficulty::to_work\<close>; the shift amount is masked to the width in the release build.\<close>

definition Log2Difficulty_to_work :: "bitcoin \<Rightarrow> u8 \<Rightarrow> u256" where
  "Log2Difficulty_to_work btc exponent =
     x_to_work btc (difficulty_target
       (Difficulty_from_u64 (x_target_max btc) (push_bit (unat exponent mod 64) 1)))"

definition nonce_header :: "HashTask \<Rightarrow> NonceResponse \<Rightarrow> bytes \<Rightarrow> BlockHeader" where
  "nonce_header task response merkle_root =
     \<lparr>bh_version = apply_to_version (nr_version response) (vt_base (jt_version (ht_template task))),
      bh_prev_blockhash = jt_prev_blockhash (ht_template task), bh_merkle_root = merkle_root,
      bh_time = ht_ntime task, bh_bits = jt_bits (ht_template task), bh_nonce = nr_nonce response\<rparr>"

text \<open>\<open>handle_nonce\<close>; \<open>send\<close> on a closed share channel only affects the log.\<close>

definition handle_nonce :: "bitcoin \<Rightarrow> NonceResponse \<Rightarrow> actor \<Rightarrow> actor" where
  "handle_nonce btc response a =
     (case tracker_get (nr_job_id response) (ac_chip_jobs a) of
        None \<Rightarrow> a
      | Some task \<Rightarrow>
          (let template = ht_template task;
               full_version = apply_to_version (nr_version response) (vt_base (jt_version template))
           in case Option.bind (ht_extranonce task)
                     (\<lambda>extranonce. case compute_merkle_root btc template extranonce of
                                       Inl _ \<Rightarrow> None | Inr mr \<Rightarrow> Some mr) of
                None \<Rightarrow> a
              | Some merkle_root \<Rightarrow>
                  (let hash = x_block_hash btc (nonce_header task response merkle_root)
                   in if x_is_met_by btc (ht_share_target task) hash then
                        (let expected_work = max (Log2Difficulty_to_work btc (ac_asic_difficulty a))
                                                 (x_to_work btc (ht_share_target task));
                             share = \<lparr>sh_nonce = nr_nonce response, sh_hash = hash,
                                      sh_version = full_version, sh_ntime = ht_ntime task,
                                      sh_extranonce = ht_extranonce task,
                                      sh_expected_work = expected_work\<rparr>
                         in a\<lparr>ac_shares := ac_shares a @ [(ht_share_tx task, share)]\<rparr>)
                      else a)))"

text \<open>\<open>roll_ntime\<close>; \<open>None\<close> is the panic of \<open>unwrap\<close>. \<open>ntime + 1\<close> wraps in the release build.\<close>

definition roll_ntime :: "'e thread_world \<Rightarrow> bitcoin \<Rightarrow> actor \<Rightarrow> actor option" where
  "roll_ntime env btc a =
     (case ac_current_task a of
        None \<Rightarrow> None
      | Some task \<Rightarrow>
          (let task = task\<lparr>ht_ntime := ht_ntime task + 1\<rparr>;
               (chip_job_id, jobs) = tracker_insert task (ac_chip_jobs a);
               a = a\<lparr>ac_current_task := Some task, ac_chip_jobs := jobs\<rparr>
           in case task_to_job_full btc task chip_job_id of
                Inl _ \<Rightarrow> Some a
              | Inr job_data \<Rightarrow> Some (snd (send_job env job_data a))))"

subsection \<open>The loop\<close>

datatype actor_msg =
  Shutdown
| CmdConfigure
| CmdUpdateTask HashTask "interruption option"
| CmdReplaceTask HashTask "interruption option"
| CmdGoIdle
| HandleDropped
| Nonce NonceResponse
| RegisterReply RegisterResponse
| ResponsesEnded
| NtimeTick

text \<open>
  One iteration of the loop: the reply to the command, if any, whether the loop continues, and
  the state. The ticker branch is enabled only while there is a current task.
\<close>

definition actor_step ::
    "'e thread_world \<Rightarrow> bitcoin \<Rightarrow> actor_msg \<Rightarrow> actor \<Rightarrow> ('e reply option \<times> bool \<times> actor) option" where
  "actor_step env btc msg a =
     (case msg of
        Shutdown \<Rightarrow> Some (None, False, set_active False a)
      | CmdConfigure \<Rightarrow> Some (None, True, configure a)
      | CmdUpdateTask new_task interrupted \<Rightarrow>
          map_option (\<lambda>(r, continue, a). (Some r, continue, a)) (assign_task env btc interrupted False new_task a)
      | CmdReplaceTask new_task interrupted \<Rightarrow>
          map_option (\<lambda>(r, continue, a). (Some r, continue, a)) (assign_task env btc interrupted True new_task a)
      | CmdGoIdle \<Rightarrow> (case go_idle a of (old_task, a) \<Rightarrow> Some (Some (Inr old_task), True, a))
      | HandleDropped \<Rightarrow> Some (None, False, a)
      | Nonce response \<Rightarrow> Some (None, True, handle_nonce btc response a)
      | RegisterReply response \<Rightarrow> Some (None, True, a)
      | ResponsesEnded \<Rightarrow> Some (None, False, a)
      | NtimeTick \<Rightarrow>
          if ac_current_task a \<noteq> None
          then map_option (\<lambda>a. (None, True, a)) (roll_ntime env btc a)
          else Some (None, True, a))"

text \<open>\<open>run\<close>: reset asserted first, then messages until the loop breaks, then the chain disabled.\<close>

fun actor_loop :: "'e thread_world \<Rightarrow> bitcoin \<Rightarrow> actor_msg list \<Rightarrow> actor \<Rightarrow> (bool \<times> actor) option" where
  "actor_loop env btc [] a = Some (True, a)"
| "actor_loop env btc (msg # msgs) a =
     (case actor_step env btc msg a of
        None \<Rightarrow> None
      | Some (_, True, a) \<Rightarrow> actor_loop env btc msgs a
      | Some (_, False, a) \<Rightarrow> Some (False, disable_chain a))"

definition actor_run :: "'e thread_world \<Rightarrow> bitcoin \<Rightarrow> actor_msg list \<Rightarrow> actor \<Rightarrow> (bool \<times> actor) option" where
  "actor_run env btc msgs a =
     actor_loop env btc msgs (a\<lparr>ac_peripherals := ac_peripherals a @ [ResetAssert]\<rparr>)"

subsection \<open>Assigning work\<close>

text \<open>The state after a bring-up that succeeded or was not needed.\<close>

definition ready :: "'e thread_world \<Rightarrow> actor \<Rightarrow> actor \<Rightarrow> bool" where
  "ready env a a' \<longleftrightarrow> ensure_chain_initialized env a = Some (Inr (), a')"

lemma ready_frame:
  assumes "ready env a a'"
  shows "ac_chip_jobs a' = ac_chip_jobs a" "ac_current_task a' = ac_current_task a"
    "ac_jobs_sent a' = ac_jobs_sent a" "ac_shares a' = ac_shares a" "ac_active a' = ac_active a"
    "ac_config a' = ac_config a" "ac_asic_difficulty a' = ac_asic_difficulty a"
    "ac_events a' = ac_events a" "ac_chain_initialized a'" "ac_job_attempts a' = ac_job_attempts a"
proof -
  have "ac_chip_jobs a' = ac_chip_jobs a \<and> ac_current_task a' = ac_current_task a \<and>
    ac_jobs_sent a' = ac_jobs_sent a \<and> ac_shares a' = ac_shares a \<and> ac_active a' = ac_active a \<and>
    ac_config a' = ac_config a \<and> ac_asic_difficulty a' = ac_asic_difficulty a \<and>
    ac_events a' = ac_events a \<and> ac_chain_initialized a' \<and> ac_job_attempts a' = ac_job_attempts a"
  proof (cases "ac_chain_initialized a")
    case True
    then show ?thesis using assms by (auto simp: ready_def ensure_chain_initialized_def)
  next
    case False
    with assms obtain steps u where i: "initialize_chain env steps a = (Inr (), u)"
      and a': "a' = u\<lparr>ac_chain_initialized := True\<rparr>"
      by (auto simp: ready_def ensure_chain_initialized_def and_then_Inr_iff)
    then have u: "u = snd (initialize_chain env steps a)" by simp
    show ?thesis unfolding a' u using bringup_frames [of env steps a] by simp
  qed
  then show "ac_chip_jobs a' = ac_chip_jobs a" "ac_current_task a' = ac_current_task a"
    "ac_jobs_sent a' = ac_jobs_sent a" "ac_shares a' = ac_shares a" "ac_active a' = ac_active a"
    "ac_config a' = ac_config a" "ac_asic_difficulty a' = ac_asic_difficulty a"
    "ac_events a' = ac_events a" "ac_chain_initialized a'" "ac_job_attempts a' = ac_job_attempts a"
    by simp_all
qed

text \<open>The job table after an assignment, and the rest of the state it determines.\<close>

definition assigned_jobs :: "bool \<Rightarrow> HashTask \<Rightarrow> ChipJobTracker \<Rightarrow> u8 \<times> ChipJobTracker" where
  "assigned_jobs replace task jobs = tracker_insert task (if replace then tracker_clear jobs else jobs)"

lemma assign_task_ready:
  assumes "ready env a b"
  shows "assign_task env btc None replace task a =
    (let (k, jobs) = assigned_jobs replace task (ac_chip_jobs a);
         c = b\<lparr>ac_chip_jobs := jobs, ac_current_task := Some task\<rparr>
     in case task_to_job_full btc task k of
          Inl e \<Rightarrow> Some (Inl (TaskFailed e), True, c)
        | Inr job \<Rightarrow>
            (case send_job env job c of
               (Inl e, c) \<Rightarrow> Some (Inl (JobSendFailed e), True, c)
             | (Inr _, c) \<Rightarrow> Some (Inr (ac_current_task a), True, set_active True c)))"
proof -
  note frame = ready_frame(1,2) [OF assms]
  obtain k jobs where kj: "assigned_jobs replace task (ac_chip_jobs a) = (k, jobs)"
    by (cases "assigned_jobs replace task (ac_chip_jobs a)")
  show ?thesis
    using assms frame kj
    by (cases replace)
      (simp_all add: assign_task_def ready_def assigned_jobs_def Let_def split: sum.splits prod.splits)
qed

lemma send_job_eqs:
  assumes "send_job env job a = (r, b)"
  shows "ac_chip_jobs b = ac_chip_jobs a" "ac_current_task b = ac_current_task a"
    "ac_chain_initialized b = ac_chain_initialized a" "ac_shares b = ac_shares a"
    "ac_chain b = ac_chain a" "ac_config b = ac_config a" "ac_asic_difficulty b = ac_asic_difficulty a"
    "ac_jobs_sent b = (case r of Inl _ \<Rightarrow> ac_jobs_sent a | Inr _ \<Rightarrow> ac_jobs_sent a @ [JobFull job])"
    "ac_job_attempts b = ac_job_attempts a @ [(job, case r of Inl _ \<Rightarrow> False | Inr _ \<Rightarrow> True)]"
  using assms by (auto simp: send_job_def split: option.splits)

lemma send_job_through:
  assumes "send_job env job a = (r, b)"
  obtains through where "ac_jobs_sent b = (if through then ac_jobs_sent a @ [JobFull job] else ac_jobs_sent a)"
    and "ac_job_attempts b = ac_job_attempts a @ [(job, through)]"
  using send_job_eqs(8,9) [OF assms] that [of False] that [of True] by (cases r) simp_all

lemma set_active_eqs [simp]:
  "ac_chip_jobs (set_active x a) = ac_chip_jobs a" "ac_current_task (set_active x a) = ac_current_task a"
  "ac_chain_initialized (set_active x a) = ac_chain_initialized a" "ac_shares (set_active x a) = ac_shares a"
  "ac_chain (set_active x a) = ac_chain a" "ac_config (set_active x a) = ac_config a"
  "ac_asic_difficulty (set_active x a) = ac_asic_difficulty a" "ac_jobs_sent (set_active x a) = ac_jobs_sent a"
  "ac_job_attempts (set_active x a) = ac_job_attempts a"
  "ac_peripherals (set_active x a) = ac_peripherals a" "ac_wire (set_active x a) = ac_wire a"
  by (simp_all add: set_active_def)

text \<open>
  Once bring-up is done, the new task is current and in the job table whatever the reply: an
  error in the conversion or the send does not restore the old one.
\<close>

lemma assign_task_switches:
  assumes "ready env a b" and "assign_task env btc None replace task a = Some (reply, continue, a')"
  shows "continue" and "ac_current_task a' = Some task"
    and "ac_chip_jobs a' = snd (assigned_jobs replace task (ac_chip_jobs a))"
    and "ac_chain_initialized a'" and "ac_shares a' = ac_shares a"
    and "(case reply of Inr old \<Rightarrow> old = ac_current_task a | Inl _ \<Rightarrow> True)"
proof -
  obtain k jobs where kj: "assigned_jobs replace task (ac_chip_jobs a) = (k, jobs)"
    by (cases "assigned_jobs replace task (ac_chip_jobs a)")
  let ?c = "b\<lparr>ac_chip_jobs := jobs, ac_current_task := Some task\<rparr>"
  note r = assms(2) [unfolded assign_task_ready [OF assms(1)] kj, simplified]
  have "continue \<and> ac_current_task a' = Some task \<and> ac_chip_jobs a' = jobs \<and>
      ac_chain_initialized a' \<and> ac_shares a' = ac_shares a \<and>
      (case reply of Inr old \<Rightarrow> old = ac_current_task a | Inl _ \<Rightarrow> True)"
  proof (cases "task_to_job_full btc task k")
    case (Inl e)
    then show ?thesis using r ready_frame [OF assms(1)] by auto
  next
    case (Inr job)
    obtain s c where s: "send_job env job ?c = (s, c)" by (cases "send_job env job ?c")
    show ?thesis
      using r Inr s send_job_eqs [OF s] ready_frame [OF assms(1)] by (cases s) auto
  qed
  then show "continue" and "ac_current_task a' = Some task"
    and "ac_chip_jobs a' = snd (assigned_jobs replace task (ac_chip_jobs a))"
    and "ac_chain_initialized a'" and "ac_shares a' = ac_shares a"
    and "(case reply of Inr old \<Rightarrow> old = ac_current_task a | Inl _ \<Rightarrow> True)"
    using kj by simp_all
qed

text \<open>After a replacement the table holds the new task only; an update leaves the other ids alone.\<close>

lemma tracker_get_assigned:
  assumes "tracker_inv jobs"
  shows "tracker_get k (snd (assigned_jobs replace task jobs)) =
    (if k = cj_next_id jobs then Some task else if replace then None else tracker_get k jobs)"
  using assms
  by (auto simp: assigned_jobs_def tracker_insert_def tracker_clear_def tracker_get_def tracker_inv_def Let_def
      nth_list_update word_unat_eq_iff)

subsection \<open>The loop's invariant\<close>

text \<open>The last job put on the chip under an id.\<close>

definition last_job :: "u8 \<Rightarrow> JobCommand list \<Rightarrow> JobFullFormat option" where
  "last_job k jobs =
     fold (\<lambda>job found. case job of JobFull f \<Rightarrow> (if jf_job_id f = k then Some f else found) | _ \<Rightarrow> found) jobs None"

lemma last_job_snoc:
  "last_job k (jobs @ [JobFull f]) = (if jf_job_id f = k then Some f else last_job k jobs)"
  by (simp add: last_job_def)

text \<open>The last job whose sending was attempted under an id, and whether it got through.\<close>

definition last_attempt :: "u8 \<Rightarrow> (JobFullFormat \<times> bool) list \<Rightarrow> (JobFullFormat \<times> bool) option" where
  "last_attempt k attempts = fold (\<lambda>x found. if jf_job_id (fst x) = k then Some x else found) attempts None"

lemma last_attempt_snoc:
  "last_attempt k (attempts @ [x]) = (if jf_job_id (fst x) = k then Some x else last_attempt k attempts)"
  by (simp add: last_attempt_def)

text \<open>Each task in the table that converts to a job is the last job sent under its id.\<close>

definition table_inv :: "bitcoin \<Rightarrow> actor \<Rightarrow> bool" where
  "table_inv btc a \<longleftrightarrow>
     tracker_inv (ac_chip_jobs a) \<and>
     (\<forall>k task job. tracker_get k (ac_chip_jobs a) = Some task \<longrightarrow> task_to_job_full btc task k = Inr job \<longrightarrow>
        last_job k (ac_jobs_sent a) = Some job)"

text \<open>
  The handlers enter a task in the table before they send its job. So what holds in every state is
  this: the entry's job is the last one attempted under its id, and if that attempt got through,
  it is the last one the chips were sent.
\<close>

definition attempt_inv :: "bitcoin \<Rightarrow> actor \<Rightarrow> bool" where
  "attempt_inv btc a \<longleftrightarrow>
     tracker_inv (ac_chip_jobs a) \<and>
     (\<forall>k task job. tracker_get k (ac_chip_jobs a) = Some task \<longrightarrow> task_to_job_full btc task k = Inr job \<longrightarrow>
        (\<exists>through. last_attempt k (ac_job_attempts a) = Some (job, through) \<and>
           (through \<longrightarrow> last_job k (ac_jobs_sent a) = Some job)))"

definition work_inv :: "actor \<Rightarrow> bool" where
  "work_inv a \<longleftrightarrow> ac_jobs_sent a \<noteq> [] \<or> ac_current_task a \<noteq> None \<longrightarrow> ac_chain_initialized a"

lemma last_attempt_mem: "last_attempt k attempts = Some x \<Longrightarrow> x \<in> set attempts"
  by (induction attempts rule: rev_induct) (auto simp: last_attempt_snoc last_attempt_def [of k "[]"] split: if_splits)

text \<open>Where every attempt got through, the table agrees with the jobs sent.\<close>

lemma table_inv_through:
  assumes "attempt_inv btc a" and "\<forall>x\<in>set (ac_job_attempts a). snd x"
  shows "table_inv btc a"
  using assms by (fastforce simp: attempt_inv_def table_inv_def dest: last_attempt_mem)

lemma task_to_job_full_id: "task_to_job_full btc task k = Inr job \<Longrightarrow> jf_job_id job = k"
  by (auto simp: task_to_job_full_def Let_def split: sum.splits MerkleRootKind.splits option.splits)

lemma tracker_get_insert:
  assumes "tracker_inv jobs"
  shows "tracker_get k (snd (tracker_insert task jobs)) =
    (if k = cj_next_id jobs then Some task else tracker_get k jobs)"
  using tracker_get_assigned [OF assms, of k False task] by (simp add: assigned_jobs_def)

text \<open>Inserting a task and attempting to send its job keeps the invariant.\<close>

lemma attempt_inv_insert:
  assumes inv: "attempt_inv btc a" and jobs: "tracker_inv jobs"
    and sub: "\<And>k task. tracker_get k jobs = Some task \<Longrightarrow> tracker_get k (ac_chip_jobs a) = Some task"
    and b: "ac_chip_jobs b = snd (tracker_insert task jobs)"
    and sent: "ac_jobs_sent b = (case task_to_job_full btc task (cj_next_id jobs) of
        Inl _ \<Rightarrow> ac_jobs_sent a | Inr job \<Rightarrow> if through then ac_jobs_sent a @ [JobFull job] else ac_jobs_sent a)"
    and attempts: "ac_job_attempts b = (case task_to_job_full btc task (cj_next_id jobs) of
        Inl _ \<Rightarrow> ac_job_attempts a | Inr job \<Rightarrow> ac_job_attempts a @ [(job, through)])"
  shows "attempt_inv btc b"
  unfolding attempt_inv_def
proof (intro conjI allI impI)
  show "tracker_inv (ac_chip_jobs b)" using b jobs by (simp add: tracker_inv_insert)
  fix k t job
  assume t: "tracker_get k (ac_chip_jobs b) = Some t" and job: "task_to_job_full btc t k = Inr job"
  show "\<exists>through. last_attempt k (ac_job_attempts b) = Some (job, through) \<and>
      (through \<longrightarrow> last_job k (ac_jobs_sent b) = Some job)"
  proof (cases "k = cj_next_id jobs")
    case True
    then have "t = task" using t b tracker_get_insert [OF jobs] by simp
    then show ?thesis
      using job True sent attempts task_to_job_full_id by (simp add: last_job_snoc last_attempt_snoc)
  next
    case False
    then have "tracker_get k jobs = Some t" using t b tracker_get_insert [OF jobs] by simp
    then have old: "\<exists>through. last_attempt k (ac_job_attempts a) = Some (job, through) \<and>
        (through \<longrightarrow> last_job k (ac_jobs_sent a) = Some job)"
      using sub inv job by (auto simp: attempt_inv_def)
    show ?thesis
    proof (cases "task_to_job_full btc task (cj_next_id jobs)")
      case (Inl e)
      then show ?thesis using sent attempts old by simp
    next
      case (Inr j)
      then show ?thesis
        using sent attempts old False task_to_job_full_id [OF Inr] by (simp add: last_job_snoc last_attempt_snoc)
    qed
  qed
qed

lemma bringup_failed_frame:
  assumes "ensure_chain_initialized env a = Some (Inl e, u)"
  shows "ac_chip_jobs u = ac_chip_jobs a" "ac_jobs_sent u = ac_jobs_sent a"
    "ac_current_task u = ac_current_task a" "ac_chain_initialized u = ac_chain_initialized a"
    "ac_shares u = ac_shares a" "ac_active u = ac_active a" "ac_job_attempts u = ac_job_attempts a"
proof -
  obtain steps where "initialize_chain env steps a = (Inl e, u)"
    using assms by (auto simp: ensure_chain_initialized_def and_then_Inl_iff split: if_splits)
  then have "u = snd (initialize_chain env steps a)" by simp
  then show "ac_chip_jobs u = ac_chip_jobs a" "ac_jobs_sent u = ac_jobs_sent a"
    "ac_current_task u = ac_current_task a" "ac_chain_initialized u = ac_chain_initialized a"
    "ac_shares u = ac_shares a" "ac_active u = ac_active a" "ac_job_attempts u = ac_job_attempts a"
    using bringup_frames [of env steps a] by simp_all
qed

lemma attempt_inv_cong:
  "ac_chip_jobs b = ac_chip_jobs a \<Longrightarrow> ac_jobs_sent b = ac_jobs_sent a \<Longrightarrow> ac_job_attempts b = ac_job_attempts a \<Longrightarrow>
   attempt_inv btc b = attempt_inv btc a"
  by (simp add: attempt_inv_def)

lemma work_inv_cong:
  "ac_jobs_sent b = ac_jobs_sent a \<Longrightarrow> ac_current_task b = ac_current_task a \<Longrightarrow>
   ac_chain_initialized b = ac_chain_initialized a \<Longrightarrow> work_inv b = work_inv a"
  by (simp add: work_inv_def)

lemma assign_task_inv:
  assumes "assign_task env btc interrupted replace task a = Some (reply, continue, a')"
    and inv: "attempt_inv btc a" "work_inv a"
  shows "attempt_inv btc a' \<and> work_inv a'"
proof (cases interrupted)
  case (Some i)
  then have "ac_chip_jobs a' = ac_chip_jobs a \<and> ac_jobs_sent a' = ac_jobs_sent a \<and>
      ac_current_task a' = ac_current_task a \<and> ac_chain_initialized a' = ac_chain_initialized a \<and>
      ac_job_attempts a' = ac_job_attempts a"
    using assms(1) by (cases i) (auto simp: assign_task_def)
  then show ?thesis using inv attempt_inv_cong work_inv_cong by metis
next
  case None
  note r = assms(1) [unfolded None]
  show ?thesis
  proof (cases "\<exists>b. ready env a b")
    case True
    then obtain b where b: "ready env a b" by blast
    define J where "J = (if replace then tracker_clear (ac_chip_jobs a) else ac_chip_jobs a)"
    have kj: "assigned_jobs replace task (ac_chip_jobs a) = (cj_next_id J, snd (tracker_insert task J))"
      by (simp add: assigned_jobs_def tracker_insert_def Let_def J_def)
    note frame = ready_frame [OF b]
    have sent: "\<exists>through. ac_jobs_sent a' = (case task_to_job_full btc task (cj_next_id J) of
        Inl _ \<Rightarrow> ac_jobs_sent a | Inr job \<Rightarrow> if through then ac_jobs_sent a @ [JobFull job] else ac_jobs_sent a) \<and>
      ac_job_attempts a' = (case task_to_job_full btc task (cj_next_id J) of
        Inl _ \<Rightarrow> ac_job_attempts a | Inr job \<Rightarrow> ac_job_attempts a @ [(job, through)])"
    proof (cases "task_to_job_full btc task (cj_next_id J)")
      case (Inl e)
      then show ?thesis using r unfolding assign_task_ready [OF b] kj by (auto simp: frame Let_def)
    next
      case (Inr job)
      let ?c = "b\<lparr>ac_chip_jobs := snd (tracker_insert task J), ac_current_task := Some task\<rparr>"
      obtain s c where s: "send_job env job ?c = (s, c)" by (cases "send_job env job ?c")
      then have "a' = c \<or> a' = set_active True c"
        using r Inr unfolding assign_task_ready [OF b] kj by (cases s) (simp_all add: Let_def)
      then have "ac_jobs_sent a' = ac_jobs_sent c" "ac_job_attempts a' = ac_job_attempts c" by auto
      moreover obtain th where "ac_jobs_sent c = (if th then ac_jobs_sent ?c @ [JobFull job] else ac_jobs_sent ?c)"
        "ac_job_attempts c = ac_job_attempts ?c @ [(job, th)]" by (rule send_job_through [OF s])
      ultimately show ?thesis by (intro exI [of _ th]) (simp add: frame Inr)
    qed
    have "ac_chip_jobs a' = snd (tracker_insert task J)"
      using assign_task_switches(3) [OF b r] kj by simp
    moreover have "tracker_inv J" using inv(1) by (simp add: attempt_inv_def tracker_inv_clear J_def)
    moreover have "tracker_get k J = Some t \<Longrightarrow> tracker_get k (ac_chip_jobs a) = Some t" for k t
      by (cases replace) (auto simp: J_def)
    ultimately have "attempt_inv btc a'" using inv(1) sent attempt_inv_insert [of btc a J a' task] by blast
    then show ?thesis using assign_task_switches(4) [OF b r] by (simp add: work_inv_def)
  next
    case False
    then obtain e u where u: "ensure_chain_initialized env a = Some (Inl e, u)"
      using r by (auto simp: assign_task_def ready_def split: option.splits prod.splits sum.splits)
    then have "a' = u" using r by (simp add: assign_task_def)
    then show ?thesis using bringup_failed_frame [OF u] inv attempt_inv_cong work_inv_cong by metis
  qed
qed

lemma handle_nonce_eqs:
  "ac_chip_jobs (handle_nonce btc r a) = ac_chip_jobs a" "ac_jobs_sent (handle_nonce btc r a) = ac_jobs_sent a"
  "ac_current_task (handle_nonce btc r a) = ac_current_task a"
  "ac_chain_initialized (handle_nonce btc r a) = ac_chain_initialized a"
  "ac_chain (handle_nonce btc r a) = ac_chain a" "ac_wire (handle_nonce btc r a) = ac_wire a"
  "ac_job_attempts (handle_nonce btc r a) = ac_job_attempts a"
  by (simp_all add: handle_nonce_def Let_def split: option.splits)

lemma roll_ntime_inv:
  assumes r: "roll_ntime env btc a = Some a'"
    and inv: "attempt_inv btc a" "work_inv a"
  shows "attempt_inv btc a' \<and> work_inv a'"
proof -
  obtain t where t: "ac_current_task a = Some t" using r by (auto simp: roll_ntime_def split: option.splits)
  define task where "task = t\<lparr>ht_ntime := ht_ntime t + 1\<rparr>"
  define k where "k = cj_next_id (ac_chip_jobs a)"
  define T where "T = snd (tracker_insert task (ac_chip_jobs a))"
  have kj: "tracker_insert task (ac_chip_jobs a) = (k, T)"
    by (simp add: tracker_insert_def Let_def k_def T_def)
  have rr: "(case task_to_job_full btc task k of
      Inl _ \<Rightarrow> Some (a\<lparr>ac_current_task := Some task, ac_chip_jobs := T\<rparr>)
    | Inr job \<Rightarrow> Some (snd (send_job env job (a\<lparr>ac_current_task := Some task, ac_chip_jobs := T\<rparr>)))) = Some a'"
    using r unfolding roll_ntime_def t option.case task_def [symmetric] Let_def kj case_prod_conv .
  have "\<exists>through. ac_chip_jobs a' = T \<and>
      ac_jobs_sent a' = (case task_to_job_full btc task k of
        Inl _ \<Rightarrow> ac_jobs_sent a | Inr job \<Rightarrow> if through then ac_jobs_sent a @ [JobFull job] else ac_jobs_sent a) \<and>
      ac_job_attempts a' = (case task_to_job_full btc task k of
        Inl _ \<Rightarrow> ac_job_attempts a | Inr job \<Rightarrow> ac_job_attempts a @ [(job, through)]) \<and>
      ac_chain_initialized a' = ac_chain_initialized a"
  proof (cases "task_to_job_full btc task k")
    case (Inl e)
    then show ?thesis using rr by auto
  next
    case (Inr job)
    let ?c = "a\<lparr>ac_current_task := Some task, ac_chip_jobs := T\<rparr>"
    obtain s c where s: "send_job env job ?c = (s, c)" by (cases "send_job env job ?c")
    then have "a' = c" using rr Inr by simp
    moreover obtain th where "ac_jobs_sent c = (if th then ac_jobs_sent ?c @ [JobFull job] else ac_jobs_sent ?c)"
      "ac_job_attempts c = ac_job_attempts ?c @ [(job, th)]" by (rule send_job_through [OF s])
    ultimately show ?thesis using send_job_eqs(1,3) [OF s] by (intro exI [of _ th]) (simp add: Inr)
  qed
  then obtain through where a': "ac_chip_jobs a' = snd (tracker_insert task (ac_chip_jobs a))"
    "ac_jobs_sent a' = (case task_to_job_full btc task (cj_next_id (ac_chip_jobs a)) of
        Inl _ \<Rightarrow> ac_jobs_sent a | Inr job \<Rightarrow> if through then ac_jobs_sent a @ [JobFull job] else ac_jobs_sent a)"
    "ac_job_attempts a' = (case task_to_job_full btc task (cj_next_id (ac_chip_jobs a)) of
        Inl _ \<Rightarrow> ac_job_attempts a | Inr job \<Rightarrow> ac_job_attempts a @ [(job, through)])"
    "ac_chain_initialized a' = ac_chain_initialized a"
    unfolding T_def k_def by blast
  have "attempt_inv btc a'"
    using inv(1) a' by (intro attempt_inv_insert [of btc a "ac_chip_jobs a" a' task]) (auto simp: attempt_inv_def)
  moreover have "ac_chain_initialized a" using inv(2) t by (simp add: work_inv_def)
  ultimately show ?thesis using a' by (simp add: work_inv_def)
qed

lemma actor_step_inv:
  assumes "actor_step env btc msg a = Some (reply, continue, a')"
    and inv: "attempt_inv btc a" "work_inv a"
  shows "attempt_inv btc a' \<and> work_inv a'"
proof (cases msg)
  case (CmdUpdateTask task i)
  then show ?thesis using assms(1) assign_task_inv [OF _ inv, where env = env] by (auto simp: actor_step_def)
next
  case (CmdReplaceTask task i)
  then show ?thesis using assms(1) assign_task_inv [OF _ inv, where env = env] by (auto simp: actor_step_def)
next
  case NtimeTick
  then show ?thesis using assms(1) roll_ntime_inv [OF _ inv] inv by (auto simp: actor_step_def split: if_splits)
next
  case (Nonce r)
  then have "a' = handle_nonce btc r a" using assms(1) by (simp add: actor_step_def)
  then show ?thesis using inv by (simp add: attempt_inv_def work_inv_def handle_nonce_eqs)
next
  case CmdGoIdle
  then show ?thesis
    using assms(1) inv by (auto simp: actor_step_def go_idle_def set_active_def attempt_inv_def work_inv_def)
qed (use assms(1) inv in \<open>auto simp: actor_step_def configure_def set_active_def attempt_inv_def work_inv_def\<close>)

text \<open>
  A send that fails leaves the task in the table and current, though its request is answered with an
  error: the id now names a job the chips never got.
\<close>

lemma failed_send_keeps_entry:
  assumes "ready env a b" and "task_to_job_full btc task k = Inr job" and "tracker_inv (ac_chip_jobs a)"
    and k: "k = fst (assigned_jobs replace task (ac_chip_jobs a))"
    and "tw_job_error env (length (ac_job_attempts a)) = Some e"
  shows "\<exists>a'. assign_task env btc None replace task a = Some (Inl (JobSendFailed e), True, a') \<and>
    tracker_get k (ac_chip_jobs a') = Some task \<and> ac_current_task a' = Some task \<and> ac_jobs_sent a' = ac_jobs_sent a"
proof -
  obtain jobs where kj: "assigned_jobs replace task (ac_chip_jobs a) = (k, jobs)"
    using k by (metis prod.collapse)
  have next_id: "k = cj_next_id (ac_chip_jobs a)"
    using kj by (auto simp: assigned_jobs_def tracker_insert_def tracker_clear_def Let_def split: if_splits)
  have "tracker_get k jobs = Some task"
    using tracker_get_assigned [OF assms(3), of k replace task] kj next_id by simp
  then show ?thesis
    using assms(2,5) ready_frame(10,3) [OF assms(1)]
    by (simp add: assign_task_ready [OF assms(1)] kj send_job_def)
qed

subsection \<open>Shares\<close>

text \<open>The header a chip hashes for a job, at the nonce and version bits it reports.\<close>

definition chip_header :: "JobFullFormat \<Rightarrow> NonceResponse \<Rightarrow> BlockHeader" where
  "chip_header job response =
     \<lparr>bh_version = apply_to_version (nr_version response) (jf_version job),
      bh_prev_blockhash = jf_prev_block_hash job, bh_merkle_root = jf_merkle_root job,
      bh_time = jf_ntime job, bh_bits = jf_nbits job, bh_nonce = nr_nonce response\<rparr>"

lemma task_to_job_full_computed:
  assumes "ht_extranonce task = Some e" and "compute_merkle_root btc (ht_template task) e = Inr mr"
  shows "\<exists>job. task_to_job_full btc task k = Inr job \<and> chip_header job r = nonce_header task r mr"
  using assms
  by (auto simp: task_to_job_full_def compute_merkle_root_def chip_header_def nonce_header_def Let_def
      split: MerkleRootKind.splits)

text \<open>
  What \<open>handle_nonce\<close> does in every case: nothing, or one share on the channel of the task the
  table holds for the reported job.
\<close>

definition nonce_share :: "bitcoin \<Rightarrow> u8 \<Rightarrow> HashTask \<Rightarrow> NonceResponse \<Rightarrow> bytes \<Rightarrow> Share" where
  "nonce_share btc asic_difficulty task r mr =
     \<lparr>sh_nonce = nr_nonce r, sh_hash = x_block_hash btc (nonce_header task r mr),
      sh_version = apply_to_version (nr_version r) (vt_base (jt_version (ht_template task))),
      sh_ntime = ht_ntime task, sh_extranonce = ht_extranonce task,
      sh_expected_work = max (Log2Difficulty_to_work btc asic_difficulty) (x_to_work btc (ht_share_target task))\<rparr>"

lemma handle_nonce_cases:
  obtains (drop) "handle_nonce btc r a = a"
  | (share) task e mr where "tracker_get (nr_job_id r) (ac_chip_jobs a) = Some task" "ht_extranonce task = Some e"
      "compute_merkle_root btc (ht_template task) e = Inr mr"
      "x_is_met_by btc (ht_share_target task) (x_block_hash btc (nonce_header task r mr))"
      "handle_nonce btc r a =
         a\<lparr>ac_shares := ac_shares a @ [(ht_share_tx task, nonce_share btc (ac_asic_difficulty a) task r mr)]\<rparr>"
proof (cases "tracker_get (nr_job_id r) (ac_chip_jobs a)")
  case None
  then show ?thesis using drop by (simp add: handle_nonce_def)
next
  case t: (Some task)
  show ?thesis
  proof (cases "Option.bind (ht_extranonce task)
      (\<lambda>e. case compute_merkle_root btc (ht_template task) e of Inl _ \<Rightarrow> None | Inr mr \<Rightarrow> Some mr)")
    case None
    then show ?thesis using drop t by (simp add: handle_nonce_def Let_def)
  next
    case mr: (Some mr)
    then obtain e where e: "ht_extranonce task = Some e" "compute_merkle_root btc (ht_template task) e = Inr mr"
      by (cases "ht_extranonce task") (auto split: sum.split_asm)
    show ?thesis
    proof (cases "x_is_met_by btc (ht_share_target task) (x_block_hash btc (nonce_header task r mr))")
      case True
      then show ?thesis
        using share [OF t e] t mr by (simp add: handle_nonce_def nonce_share_def Let_def)
    next
      case False
      then show ?thesis using drop t mr by (simp add: handle_nonce_def Let_def)
    qed
  qed
qed

lemma handle_nonce_share:
  assumes inv: "table_inv btc a" and new: "ac_shares (handle_nonce btc r a) \<noteq> ac_shares a"
  shows "\<exists>task job share. tracker_get (nr_job_id r) (ac_chip_jobs a) = Some task \<and>
    last_job (nr_job_id r) (ac_jobs_sent a) = Some job \<and>
    ac_shares (handle_nonce btc r a) = ac_shares a @ [(ht_share_tx task, share)] \<and>
    sh_hash share = x_block_hash btc (chip_header job r) \<and>
    x_is_met_by btc (ht_share_target task) (sh_hash share) \<and>
    sh_nonce share = bh_nonce (chip_header job r) \<and> sh_version share = bh_version (chip_header job r) \<and>
    sh_ntime share = bh_time (chip_header job r)"
proof (cases rule: handle_nonce_cases [of btc r a])
  case drop
  then show ?thesis using new by simp
next
  case (share task e mr)
  from task_to_job_full_computed [OF share(2,3)] obtain job where
    job: "task_to_job_full btc task (nr_job_id r) = Inr job" "chip_header job r = nonce_header task r mr"
    by blast
  have "last_job (nr_job_id r) (ac_jobs_sent a) = Some job"
    using inv share(1) job(1) by (simp add: table_inv_def)
  then show ?thesis
    using share job
    by (intro exI [of _ task] exI [of _ job] exI [of _ "nonce_share btc (ac_asic_difficulty a) task r mr"])
      (simp add: nonce_header_def nonce_share_def)
qed

text \<open>A fixed merkle root is mined but never yields a share.\<close>

lemma fixed_root_job:
  assumes "jt_merkle_root (ht_template task) = Fixed mr"
  shows "\<exists>job. task_to_job_full btc task k = Inr job"
    and "tracker_get (nr_job_id r) (ac_chip_jobs a) = Some task \<Longrightarrow> handle_nonce btc r a = a"
  using assms
  by (auto simp: task_to_job_full_def handle_nonce_def compute_merkle_root_def Let_def bind_eq_None_conv
      split: option.splits bind_splits)

text \<open>The version mask of the template is not consulted.\<close>

lemma handle_nonce_outside_mask:
  assumes "tracker_get (nr_job_id r) (ac_chip_jobs a) = Some task" and "ht_extranonce task = Some e"
    and "compute_merkle_root btc (ht_template task) e = Inr mr"
    and "x_is_met_by btc (ht_share_target task) (x_block_hash btc (nonce_header task r mr))"
    and "\<not> GP_contains (vt_gp_bits_mask (jt_version (ht_template task))) (nr_version r)"
  shows "\<exists>share. ac_shares (handle_nonce btc r a) = ac_shares a @ [(ht_share_tx task, share)] \<and>
      sh_version share = apply_to_version (nr_version r) (vt_base (jt_version (ht_template task)))"
    and "apply_gp_bits (jt_version (ht_template task)) (nr_version r) =
      Inl (GpBitsExceedMask (nr_version r) (vt_gp_bits_mask (jt_version (ht_template task))))"
  using assms by (auto simp: handle_nonce_def Let_def apply_gp_bits_def)

subsection \<open>Reachable states\<close>

inductive actor_reach :: "'e thread_world \<Rightarrow> bitcoin \<Rightarrow> actor \<Rightarrow> actor \<Rightarrow> bool" for env btc a0 where
  reach_start: "actor_reach env btc a0 (a0\<lparr>ac_peripherals := ac_peripherals a0 @ [ResetAssert]\<rparr>)"
| reach_step: "actor_reach env btc a0 a \<Longrightarrow> actor_step env btc msg a = Some (reply, True, a') \<Longrightarrow>
    actor_reach env btc a0 a'"

text \<open>On an initialised chain every chip has confirmed what bring-up expects of it.\<close>

definition chips_confirmed :: "'e thread_world \<Rightarrow> actor \<Rightarrow> bool" where
  "chips_confirmed env a \<longleftrightarrow>
     (\<exists>pll. calculate_pll (ac_config a) (cfg_default_freq (ac_config a)) = Some pll \<and>
       (\<forall>chip \<in> set (ch_chips (ac_chain a)).
          \<forall>r \<in> set (expected_registers (ac_config a) (ac_asic_difficulty a) pll).
            confirmed (tw_commands env) (chip_address chip) r))"

definition bringup_inv :: "'e thread_world \<Rightarrow> actor \<Rightarrow> bool" where
  "bringup_inv env a \<longleftrightarrow> (ac_chain_initialized a \<longrightarrow> chips_confirmed env a)"

lemma bringup_inv_ready:
  assumes "ready env a b" and "bringup_inv env a"
  shows "chips_confirmed env b"
proof (cases "ac_chain_initialized a")
  case True
  then show ?thesis using assms by (simp add: ready_def ensure_chain_initialized_def bringup_inv_def)
next
  case False
  with assms(1) obtain steps u where i: "initialize_chain env steps a = (Inr (), u)"
    and b: "b = u\<lparr>ac_chain_initialized := True\<rparr>"
    by (auto simp: ready_def ensure_chain_initialized_def and_then_Inr_iff)
  from initialize_chain_Inr [OF i] obtain chain pll where
    "ac_chain u = chain" "calculate_pll (ac_config a) (cfg_default_freq (ac_config a)) = Some pll"
    "\<forall>chip \<in> set (ch_chips chain). \<forall>r \<in> set (expected_registers (ac_config a) (ac_asic_difficulty a) pll).
       confirmed (tw_commands env) (chip_address chip) r"
    by blast
  then show ?thesis
    using ready_frame(6,7) [OF assms(1)] b by (auto simp: chips_confirmed_def)
qed

lemma chips_confirmed_cong:
  "ac_chain b = ac_chain a \<Longrightarrow> ac_config b = ac_config a \<Longrightarrow> ac_asic_difficulty b = ac_asic_difficulty a \<Longrightarrow>
   chips_confirmed env b = chips_confirmed env a"
  by (simp add: chips_confirmed_def)

lemma assign_task_chain:
  assumes "ready env a b" and "assign_task env btc None replace task a = Some (reply, continue, a')"
  shows "ac_chain a' = ac_chain b \<and> ac_config a' = ac_config b \<and> ac_asic_difficulty a' = ac_asic_difficulty b"
proof -
  obtain k jobs where kj: "assigned_jobs replace task (ac_chip_jobs a) = (k, jobs)"
    by (cases "assigned_jobs replace task (ac_chip_jobs a)")
  let ?c = "b\<lparr>ac_chip_jobs := jobs, ac_current_task := Some task\<rparr>"
  note r = assms(2) [unfolded assign_task_ready [OF assms(1)] kj, simplified]
  show ?thesis
  proof (cases "task_to_job_full btc task k")
    case (Inl e)
    then show ?thesis using r by auto
  next
    case (Inr job)
    obtain s c where s: "send_job env job ?c = (s, c)" by (cases "send_job env job ?c")
    show ?thesis using r Inr s send_job_eqs [OF s] by (cases s) auto
  qed
qed

lemma assign_task_bringup_inv:
  assumes "assign_task env btc interrupted replace task a = Some (reply, True, a')" and "bringup_inv env a"
  shows "bringup_inv env a'"
proof -
  have none: "interrupted = None" using assms(1) by (auto simp: assign_task_def split: option.splits)
  note r = assms(1) [unfolded none]
  show ?thesis
  proof (cases "\<exists>b. ready env a b")
    case True
    then obtain b where b: "ready env a b" by blast
    show ?thesis
      using bringup_inv_ready [OF b assms(2)] assign_task_chain [OF b r] chips_confirmed_cong [of a' b env]
      by (simp add: bringup_inv_def)
  next
    case False
    then obtain e u where u: "ensure_chain_initialized env a = Some (Inl e, u)"
      using r by (auto simp: assign_task_def ready_def split: option.splits prod.splits sum.splits)
    then have "a' = u" using r by (simp add: assign_task_def)
    moreover have "\<not> ac_chain_initialized a" using u by (auto simp: ensure_chain_initialized_def)
    ultimately show ?thesis using bringup_failed_frame(4) [OF u] by (simp add: bringup_inv_def)
  qed
qed

lemma roll_ntime_chain:
  assumes "roll_ntime env btc a = Some a'"
  shows "ac_chain a' = ac_chain a \<and> ac_config a' = ac_config a \<and> ac_asic_difficulty a' = ac_asic_difficulty a \<and>
    ac_chain_initialized a' = ac_chain_initialized a"
  using assms
  by (auto simp: roll_ntime_def send_job_def Let_def split: option.splits sum.splits prod.splits)

lemma actor_step_bringup_inv:
  assumes "actor_step env btc msg a = Some (reply, True, a')" and "bringup_inv env a"
  shows "bringup_inv env a'"
proof (cases msg)
  case (CmdUpdateTask task i)
  then show ?thesis using assms assign_task_bringup_inv by (fastforce simp: actor_step_def)
next
  case (CmdReplaceTask task i)
  then show ?thesis using assms assign_task_bringup_inv by (fastforce simp: actor_step_def)
next
  case NtimeTick
  then consider "a' = a" | "roll_ntime env btc a = Some a'"
    using assms(1) by (auto simp: actor_step_def split: if_splits)
  then show ?thesis
  proof cases
    case 2
    from roll_ntime_chain [OF 2] show ?thesis
      using assms(2) by (simp add: bringup_inv_def chips_confirmed_def)
  qed (use assms(2) in simp)
next
  case (Nonce r)
  have "ac_config (handle_nonce btc r a) = ac_config a" "ac_asic_difficulty (handle_nonce btc r a) = ac_asic_difficulty a"
    by (simp_all add: handle_nonce_def Let_def split: option.splits)
  moreover have "a' = handle_nonce btc r a" using Nonce assms(1) by (simp add: actor_step_def)
  ultimately show ?thesis
    using assms(2) by (simp add: bringup_inv_def chips_confirmed_def handle_nonce_eqs)
qed (use assms in \<open>auto simp: actor_step_def configure_def set_active_def go_idle_def bringup_inv_def chips_confirmed_def\<close>)

lemma actor_reach_inv:
  assumes "actor_new config topology d = Some a0" and "actor_reach env btc a0 a"
  shows "attempt_inv btc a \<and> work_inv a"
  using assms(2)
proof (induction rule: actor_reach.induct)
  case reach_start
  then show ?case
    using assms(1) tracker_inv_new
    by (auto simp: actor_new_def attempt_inv_def work_inv_def tracker_get_def ChipJobTracker_new_def tracker_inv_def)
next
  case (reach_step a msg reply a')
  then show ?case using actor_step_inv by blast
qed

lemma actor_reach_bringup:
  assumes "actor_new config topology d = Some a0" and "actor_reach env btc a0 a"
  shows "bringup_inv env a"
  using assms(2)
proof (induction rule: actor_reach.induct)
  case reach_start
  then show ?case using assms(1) by (auto simp: actor_new_def bringup_inv_def)
next
  case (reach_step a msg reply a')
  then show ?case using actor_step_bringup_inv by blast
qed

text \<open>Whatever ends the loop, the last operations put the chips in reset and cut their power.\<close>

lemma actor_loop_exit:
  "actor_loop env btc msgs a = Some (False, a') \<Longrightarrow>
     \<exists>ops. ac_peripherals a' = ops @ [ResetAssert, RegulatorDisable]"
proof (induction msgs arbitrary: a)
  case Nil
  then show ?case by simp
next
  case (Cons m msgs)
  then show ?case by (auto simp: disable_chain_def split: option.splits prod.splits bool.splits)
qed

end
