(* ===== verification/Slots.thy ===== *)
theory Slots
  imports Main
begin

text \<open>
  Tables keyed by generated identifiers: the \<open>SlotMap\<close>s and \<open>StreamMap\<close>s of the scheduler, as
  association lists in iteration order. Which key an insertion yields and where the entry lands
  in the iteration order is up to the library: both are arguments. That a key is fresh is its
  documented guarantee. The locale states the laws the scheduler relies on.
\<close>

type_synonym key = nat
type_synonym slot = "nat \<times> key"
type_synonym 'a slots = "(key \<times> 'a) list"

definition slot_get :: "key \<Rightarrow> 'a slots \<Rightarrow> 'a option" where
  "slot_get k t = map_of t k"

definition slot_insert :: "slot \<Rightarrow> 'a \<Rightarrow> 'a slots \<Rightarrow> 'a slots" where
  "slot_insert s v t = (case s of (pos, k) \<Rightarrow> take pos t @ (k, v) # drop pos t)"

definition slot_update :: "key \<Rightarrow> ('a \<Rightarrow> 'a) \<Rightarrow> 'a slots \<Rightarrow> 'a slots" where
  "slot_update k f t = map (\<lambda>(i, v). (i, if i = k then f v else v)) t"

definition slot_remove :: "key \<Rightarrow> 'a slots \<Rightarrow> 'a slots" where
  "slot_remove k t = filter (\<lambda>(i, v). i \<noteq> k) t"

abbreviation slot_keys :: "'a slots \<Rightarrow> key list" where
  "slot_keys t \<equiv> map fst t"

text \<open>What the client may rely on.\<close>

locale slot_map =
  fixes get :: "'k \<Rightarrow> 't \<Rightarrow> 'v option"
    and insert_at :: "'s \<Rightarrow> 'v \<Rightarrow> 't \<Rightarrow> 't"
    and remove :: "'k \<Rightarrow> 't \<Rightarrow> 't"
    and key_of :: "'s \<Rightarrow> 'k"
    and inv :: "'t \<Rightarrow> bool"
  assumes get_insert: "get (key_of s) t = None \<Longrightarrow> get k (insert_at s v t) = (if k = key_of s then Some v else get k t)"
    and get_remove: "get k (remove j t) = (if k = j then None else get k t)"
    and inv_insert: "inv t \<Longrightarrow> get (key_of s) t = None \<Longrightarrow> inv (insert_at s v t)"
    and inv_remove: "inv t \<Longrightarrow> inv (remove j t)"
begin

text \<open>Removing a list of keys one by one.\<close>

primrec remove_all :: "'k list \<Rightarrow> 't \<Rightarrow> 't" where
  "remove_all [] t = t"
| "remove_all (k # ks) t = remove_all ks (remove k t)"

lemma get_remove_all: "get k (remove_all ks t) = (if k \<in> set ks then None else get k t)"
  by (induction ks arbitrary: t) (auto simp: get_remove)

lemma inv_remove_all: "inv t \<Longrightarrow> inv (remove_all ks t)"
  by (induction ks arbitrary: t) (auto simp: inv_remove)

text \<open>A fresh entry can be taken back.\<close>

lemma insert_remove_get:
  "get (key_of s) t = None \<Longrightarrow> get k (remove (key_of s) (insert_at s v t)) = get k t"
  by (auto simp: get_insert get_remove)

end

lemma slot_get_append: "slot_get k (xs @ ys) = (case slot_get k xs of None \<Rightarrow> slot_get k ys | Some v \<Rightarrow> Some v)"
  by (induction xs) (auto simp: slot_get_def)

lemma slot_get_None_iff: "slot_get k t = None \<longleftrightarrow> k \<notin> set (slot_keys t)"
  by (simp add: slot_get_def map_of_eq_None_iff)

lemma slot_get_Some_mem: "slot_get k t = Some v \<Longrightarrow> (k, v) \<in> set t"
  by (simp add: slot_get_def map_of_SomeD)

lemma slot_get_mem: "distinct (slot_keys t) \<Longrightarrow> (k, v) \<in> set t \<Longrightarrow> slot_get k t = Some v"
  by (simp add: slot_get_def)

lemma set_slot_insert: "set (slot_insert (pos, k) v t) = insert (k, v) (set t)"
proof -
  have "set t = set (take pos t) \<union> set (drop pos t)" by (metis append_take_drop_id set_append)
  then show ?thesis by (auto simp: slot_insert_def)
qed

lemma keys_slot_insert: "set (slot_keys (slot_insert (pos, k) v t)) = insert k (set (slot_keys t))"
  by (simp add: set_slot_insert)

lemma distinct_slot_insert:
  assumes "distinct (slot_keys t)" and "k \<notin> set (slot_keys t)"
  shows "distinct (slot_keys (slot_insert (pos, k) v t))"
proof -
  have "distinct (take pos (slot_keys t) @ drop pos (slot_keys t))" using assms(1) by simp
  then have "distinct (take pos (slot_keys t))" "distinct (drop pos (slot_keys t))"
    "set (take pos (slot_keys t)) \<inter> set (drop pos (slot_keys t)) = {}"
    by (simp_all only: distinct_append)
  moreover have "k \<notin> set (take pos (slot_keys t))" "k \<notin> set (drop pos (slot_keys t))"
    using assms(2) by (auto dest: in_set_takeD in_set_dropD)
  ultimately show ?thesis by (simp add: slot_insert_def take_map drop_map)
qed

lemma slot_get_insert:
  assumes "slot_get k t = None"
  shows "slot_get i (slot_insert (pos, k) v t) = (if i = k then Some v else slot_get i t)"
proof -
  show ?thesis
  proof (cases "i = k")
    case True
    have "slot_get k (take pos t) = None"
      using assms by (auto simp: slot_get_None_iff dest: in_set_takeD)
    then show ?thesis using True by (simp add: slot_insert_def slot_get_append) (simp add: slot_get_def)
  next
    case False
    then have "slot_get i ((k, v) # drop pos t) = slot_get i (drop pos t)" by (simp add: slot_get_def)
    then have "slot_get i (slot_insert (pos, k) v t) = slot_get i (take pos t @ drop pos t)"
      by (simp only: slot_insert_def case_prod_conv slot_get_append)
    then show ?thesis using False by simp
  qed
qed

lemma slot_get_remove: "slot_get k (slot_remove j t) = (if k = j then None else slot_get k t)"
  by (induction t) (auto simp: slot_get_def slot_remove_def)

lemma slot_get_update: "slot_get k (slot_update j f t) = (if k = j then map_option f (slot_get k t) else slot_get k t)"
  by (induction t) (auto simp: slot_get_def slot_update_def)

lemma keys_slot_update [simp]: "slot_keys (slot_update j f t) = slot_keys t"
  by (auto simp: slot_update_def)

lemma distinct_slot_filter: "distinct (slot_keys t) \<Longrightarrow> distinct (slot_keys (filter P t))"
  by (rule distinct_map_filter)

lemma slot_get_filter:
  "distinct (slot_keys t) \<Longrightarrow>
   slot_get k (filter (\<lambda>(i, v). P i v) t) = (case slot_get k t of Some v \<Rightarrow> if P k v then Some v else None | None \<Rightarrow> None)"
proof (induction t)
  case Nil
  then show ?case by (simp add: slot_get_def)
next
  case (Cons x t)
  obtain i v where x: "x = (i, v)" by (cases x)
  have none: "slot_get i (filter (\<lambda>(i, v). P i v) t) = None" if "i = k" "\<not> P i v"
    using Cons.prems x that by (auto simp: slot_get_None_iff)
  show ?case
    using Cons none x by (cases "i = k") (auto simp: slot_get_def)
qed

interpretation assoc: slot_map slot_get slot_insert slot_remove snd "\<lambda>t. distinct (slot_keys t)"
proof unfold_locales
  fix s :: slot and t :: "'a slots" and k v
  assume "slot_get (snd s) t = None"
  then show "slot_get k (slot_insert s v t) = (if k = snd s then Some v else slot_get k t)"
    by (cases s) (simp add: slot_get_insert)
next
  fix s :: slot and t :: "'a slots" and v
  assume "distinct (slot_keys t)" "slot_get (snd s) t = None"
  then show "distinct (slot_keys (slot_insert s v t))"
    by (cases s) (simp add: distinct_slot_insert slot_get_None_iff)
qed (simp_all add: slot_get_remove, simp_all add: slot_remove_def distinct_slot_filter)

text \<open>Removing the keys of the entries that satisfy a test is filtering.\<close>

lemma remove_all_filter:
  "assoc.remove_all ks t = filter (\<lambda>(i, v). i \<notin> set ks) t"
  by (induction ks arbitrary: t) (auto simp: slot_remove_def case_prod_beta intro: filter_cong)

end
