(* ===== verification/Scheduler.thy ===== *)
theory Scheduler
  imports Slots Jobs
begin

text \<open>
  The scheduler, \<open>scheduler.rs\<close>: its tables of sources, threads and tasks, the startup gate, and
  one definition per handler, composed by the main loop as the code composes them. What it does
  to threads and sources is the log of its outputs, in order. A panic is \<open>None\<close>. The world of a
  handler gives what the code obtains from elsewhere: clock readings, whether a thread accepts
  a task, and the slots and channels its insertions get. Sends to sources cannot change the
  scheduler's state (their errors are only logged).
\<close>

type_synonym SourceId = key
type_synonym ThreadId = key
type_synonym TaskId = key

subsection \<open>The startup gate\<close>

record StartupGate =
  sg_registered :: nat
  sg_reported :: nat
  sg_enumeration_complete :: bool
  sg_open :: bool

definition StartupGate_new :: StartupGate where
  "StartupGate_new =
     \<lparr>sg_registered = 0, sg_reported = 0, sg_enumeration_complete = False, sg_open = False\<rparr>"

definition is_holding :: "StartupGate \<Rightarrow> bool" where
  "is_holding g \<longleftrightarrow> \<not> sg_open g"

definition try_open :: "StartupGate \<Rightarrow> StartupGate" where
  "try_open g =
     (if sg_enumeration_complete g \<and> sg_registered g \<le> sg_reported g then g\<lparr>sg_open := True\<rparr> else g)"

definition record_registered :: "StartupGate \<Rightarrow> StartupGate" where
  "record_registered g = (if \<not> sg_open g then g\<lparr>sg_registered := sg_registered g + 1\<rparr> else g)"

definition record_reported :: "StartupGate \<Rightarrow> StartupGate" where
  "record_reported g = (if \<not> sg_open g then try_open (g\<lparr>sg_reported := sg_reported g + 1\<rparr>) else g)"

definition record_enumeration_complete :: "StartupGate \<Rightarrow> StartupGate" where
  "record_enumeration_complete g =
     (if \<not> sg_open g then try_open (g\<lparr>sg_enumeration_complete := True\<rparr>) else g)"

definition record_timeout :: "StartupGate \<Rightarrow> StartupGate" where
  "record_timeout g = g\<lparr>sg_open := True\<rparr>"

subsection \<open>State\<close>

record SourceEntry =
  se_name :: string
  se_url :: "string option"
  se_last_job :: "JobTemplate option"
  se_difficulty_alarm :: DebouncedAlarm

record ThreadEntry =
  te_name :: string
  te_hashrate :: HashrateEstimator
  te_expected :: "HashRate option"

record TaskEntry =
  tk_source_id :: SourceId
  tk_template :: JobTemplate
  tk_thread_id :: ThreadId

datatype SourceCommand = SubmitShare SourceShare | UpdateHashRate HashRate

datatype ThreadRequest = Configure | UpdateTask HashTask | ReplaceTask HashTask

datatype sched_output = ToThread ThreadId ThreadRequest | ToSource SourceId SourceCommand

text \<open>
  The scheduler together with the stream maps of its loop: the keys of the event streams that
  are still open, and the open share channels by task.
\<close>

record scheduler =
  sc_sources :: "SourceEntry slots"
  sc_threads :: "ThreadEntry slots"
  sc_tasks :: "TaskEntry slots"
  sc_shares_submitted :: u64
  sc_last_thread_count :: nat
  sc_startup_gate :: StartupGate
  sc_paused :: bool
  sc_source_events :: "SourceId list"
  sc_thread_events :: "ThreadId list"
  sc_share_channels :: "channel slots"
  sc_gate_deadline :: "instant option"
  sc_first_status_tick :: bool
  sc_outputs :: "sched_output list"

definition Scheduler_new :: scheduler where
  "Scheduler_new =
     \<lparr>sc_sources = [], sc_threads = [], sc_tasks = [], sc_shares_submitted = 0,
      sc_last_thread_count = 0, sc_startup_gate = StartupGate_new, sc_paused = False,
      sc_source_events = [], sc_thread_events = [], sc_share_channels = [],
      sc_gate_deadline = None, sc_first_status_tick = True, sc_outputs = []\<rparr>"

text \<open>External functions, and what a run of a handler meets.\<close>

record externals =
  xe_bitcoin :: bitcoin
  xe_decode :: decoder
  xe_difficulty_float :: "Target \<Rightarrow> rat option"

record sched_world =
  sw_now :: instant
  sw_clock :: "ThreadId \<Rightarrow> instant"
  sw_accepts :: "ThreadId \<Rightarrow> SourceId \<Rightarrow> bool"
  sw_slot :: "nat \<Rightarrow> slot"
  sw_channel :: "nat \<Rightarrow> channel"

definition emit :: "sched_output list \<Rightarrow> scheduler \<Rightarrow> scheduler" where
  "emit outs s = s\<lparr>sc_outputs := sc_outputs s @ outs\<rparr>"

definition HASHRATE_WINDOW :: duration where
  "HASHRATE_WINDOW = 300 * 1000000000"

definition STARTUP_GATE_TIMEOUT :: duration where
  "STARTUP_GATE_TIMEOUT = 10 * 1000000000"

definition HIGH_DIFFICULTY_DEBOUNCE :: duration where
  "HIGH_DIFFICULTY_DEBOUNCE = 30 * 1000000000"

subsection \<open>Hashrates\<close>

text \<open>\<open>measured_hashrate\<close> prunes every estimator it reads.\<close>

definition measured_hashrate :: "(ThreadId \<Rightarrow> instant) \<Rightarrow> scheduler \<Rightarrow> HashRate \<times> scheduler" where
  "measured_hashrate clock s =
     (HashRate_sum (map (\<lambda>(i, t). fst (hashrate_at (clock i) (te_hashrate t))) (sc_threads s)),
      s\<lparr>sc_threads := map (\<lambda>(i, t). (i, t\<lparr>te_hashrate := snd (hashrate_at (clock i) (te_hashrate t))\<rparr>)) (sc_threads s)\<rparr>)"

definition expected_hashrate :: "scheduler \<Rightarrow> HashRate" where
  "expected_hashrate s = HashRate_sum (List.map_filter (\<lambda>(_, t). te_expected t) (sc_threads s))"

definition allocated_hashrate :: "scheduler \<Rightarrow> SourceId \<Rightarrow> HashRate" where
  "allocated_hashrate s source_id = expected_hashrate s"

definition eligible_thread_ids :: "scheduler \<Rightarrow> ThreadId list" where
  "eligible_thread_ids s = map fst (filter (\<lambda>(_, t). te_expected t \<noteq> None) (sc_threads s))"

definition collect_hashrate_updates :: "scheduler \<Rightarrow> (SourceId \<times> HashRate) list" where
  "collect_hashrate_updates s = map (\<lambda>(i, _). (i, allocated_hashrate s i)) (sc_sources s)"

definition send_hashrate_updates :: "(SourceId \<times> HashRate) list \<Rightarrow> scheduler \<Rightarrow> scheduler" where
  "send_hashrate_updates updates = emit (map (\<lambda>(i, rate). ToSource i (UpdateHashRate rate)) updates)"

definition broadcast_hashrate_change :: "scheduler \<Rightarrow> scheduler" where
  "broadcast_hashrate_change s =
     (let s = s\<lparr>sc_sources := map (\<lambda>(i, e). (i, e\<lparr>se_difficulty_alarm := alarm_reset (se_difficulty_alarm e)\<rparr>))
                 (sc_sources s)\<rparr>
      in send_hashrate_updates (collect_hashrate_updates s) s)"

subsection \<open>Tasks\<close>

definition remove_tasks_where :: "(TaskEntry \<Rightarrow> bool) \<Rightarrow> scheduler \<Rightarrow> scheduler" where
  "remove_tasks_where predicate s =
     (let task_ids = map fst (filter (\<lambda>(_, entry). predicate entry) (sc_tasks s))
      in fold (\<lambda>task_id s. s\<lparr>sc_tasks := slot_remove task_id (sc_tasks s),
                              sc_share_channels := slot_remove task_id (sc_share_channels s)\<rparr>)
           task_ids s)"

text \<open>A registration carries the name and URL; its channels are the source's key.\<close>

record SourceRegistration =
  rg_name :: string
  rg_url :: "string option"

definition handle_source_registration :: "slot \<Rightarrow> SourceRegistration \<Rightarrow> scheduler \<Rightarrow> scheduler" where
  "handle_source_registration slot registration s =
     (let s = s\<lparr>sc_sources := slot_insert slot
                 \<lparr>se_name = rg_name registration, se_url = rg_url registration, se_last_job = None,
                  se_difficulty_alarm = DebouncedAlarm_new HIGH_DIFFICULTY_DEBOUNCE\<rparr> (sc_sources s),
               sc_source_events := sc_source_events s @ [snd slot]\<rparr>
      in if \<not> is_holding (sc_startup_gate s) then broadcast_hashrate_change s else s)"

datatype AssignMode = Update | Replace

text \<open>The hashrate a thread is assigned by: measured once settled, else declared, else zero.\<close>

definition thread_rate :: "instant \<Rightarrow> ThreadEntry \<Rightarrow> HashRate \<times> ThreadEntry" where
  "thread_rate now entry =
     (case settled_hashrate now (te_hashrate entry) of
        (settled, est) \<Rightarrow>
          (case settled of
             Some rate \<Rightarrow> rate
           | None \<Rightarrow> (case te_expected entry of Some rate \<Rightarrow> rate | None \<Rightarrow> 0),
           entry\<lparr>te_hashrate := est\<rparr>))"

definition make_task :: "JobTemplate \<Rightarrow> ExtranonceRange \<Rightarrow> Target \<Rightarrow> channel \<Rightarrow> HashTask" where
  "make_task template extranonce_range share_target share_tx =
     \<lparr>ht_template = template, ht_extranonce_range = Some extranonce_range,
      ht_extranonce = Some (range_start extranonce_range), ht_share_target = share_target,
      ht_ntime = jt_time template, ht_share_tx = share_tx\<rparr>"

text \<open>Handing one task to one thread, the \<open>i\<close>-th of the handler.\<close>

definition hand_task ::
    "sched_world \<Rightarrow> nat \<Rightarrow> ThreadRequest \<Rightarrow> SourceId \<Rightarrow> JobTemplate \<Rightarrow> ThreadId \<Rightarrow> scheduler \<Rightarrow> scheduler" where
  "hand_task w i request source_id template thread_id s =
     (let s = emit [ToThread thread_id request] s
      in if \<not> sw_accepts w thread_id source_id then s
         else s\<lparr>sc_tasks := slot_insert (sw_slot w i)
                  \<lparr>tk_source_id = source_id, tk_template = template, tk_thread_id = thread_id\<rparr> (sc_tasks s),
                sc_share_channels := (snd (sw_slot w i), sw_channel w i) # sc_share_channels s\<rparr>)"

text \<open>The loop over eligible threads and slices; \<open>i\<close> counts the iterations.\<close>

fun assign_slices ::
    "externals \<Rightarrow> sched_world \<Rightarrow> AssignMode \<Rightarrow> SourceId \<Rightarrow> JobTemplate \<Rightarrow> nat \<Rightarrow>
       (ThreadId \<times> ExtranonceRange) list \<Rightarrow> scheduler \<Rightarrow> scheduler option" where
  "assign_slices ext w mode source_id template i [] s = Some s"
| "assign_slices ext w mode source_id template i ((thread_id, extranonce_range) # rest) s =
     (case slot_get thread_id (sc_threads s) of
        None \<Rightarrow> None
      | Some entry \<Rightarrow>
          (case thread_rate (sw_clock w thread_id) entry of
             (hashrate, entry) \<Rightarrow>
               (let s = s\<lparr>sc_threads := slot_update thread_id (\<lambda>_. entry) (sc_threads s)\<rparr>
                in case compute_scheduler_target (xe_decode ext) hashrate (jt_share_target template) of
                     None \<Rightarrow> None
                   | Some share_target \<Rightarrow>
                       (let hash_task = make_task template extranonce_range share_target (sw_channel w i);
                            request = (case mode of Update \<Rightarrow> UpdateTask hash_task | Replace \<Rightarrow> ReplaceTask hash_task)
                        in assign_slices ext w mode source_id template (Suc i) rest
                             (hand_task w i request source_id template thread_id s)))))"

text \<open>The debounced difficulty warning: \<open>None\<close> when the check panics.\<close>

definition difficulty_warning :: "externals \<Rightarrow> instant \<Rightarrow> SourceId \<Rightarrow> JobTemplate \<Rightarrow> scheduler \<Rightarrow> scheduler option" where
  "difficulty_warning ext now source_id template s =
     (let hashrate = expected_hashrate s
      in case slot_get source_id (sc_sources s) of
           None \<Rightarrow> Some s
         | Some source \<Rightarrow>
             (case is_difficulty_too_high (xe_difficulty_float ext) (jt_share_target template) hashrate of
                None \<Rightarrow> None
              | Some too_high \<Rightarrow>
                  Some (s\<lparr>sc_sources := slot_update source_id
                     (\<lambda>source. source\<lparr>se_difficulty_alarm :=
                        snd (alarm_check now too_high (se_difficulty_alarm source))\<rparr>) (sc_sources s)\<rparr>)))"

definition cache_job :: "JobTemplate \<Rightarrow> SourceEntry \<Rightarrow> SourceEntry" where
  "cache_job template source =
     (let prev_target = map_option jt_share_target (se_last_job source);
          source = (if prev_target \<noteq> Some (jt_share_target template)
                    then source\<lparr>se_difficulty_alarm := alarm_reset (se_difficulty_alarm source)\<rparr> else source)
      in source\<lparr>se_last_job := Some template\<rparr>)"

definition assign_job_to_threads ::
    "externals \<Rightarrow> sched_world \<Rightarrow> AssignMode \<Rightarrow> SourceId \<Rightarrow> JobTemplate \<Rightarrow> scheduler \<Rightarrow> scheduler option" where
  "assign_job_to_threads ext w mode source_id job_template s =
     (case jt_merkle_root job_template of
        Fixed _ \<Rightarrow> Some s
      | Computed t \<Rightarrow>
          (let full_extranonce_range = mt_extranonce_range t;
               s = s\<lparr>sc_sources := slot_update source_id (cache_job job_template) (sc_sources s)\<rparr>
           in if sc_threads s = [] then Some s
              else case difficulty_warning ext (sw_now w) source_id job_template s of
                None \<Rightarrow> None
              | Some s \<Rightarrow>
                  (let s = (if mode = Replace then remove_tasks_where (\<lambda>e. tk_source_id e = source_id) s else s);
                       eligible = eligible_thread_ids s
                   in if eligible = [] then Some s
                      else case split_range full_extranonce_range (length eligible) of
                        None \<Rightarrow> None
                      | Some extranonce_slices \<Rightarrow>
                          assign_slices ext w mode source_id job_template 0 (zip eligible extranonce_slices) s)))"

definition handle_clear_jobs :: "SourceId \<Rightarrow> scheduler \<Rightarrow> scheduler" where
  "handle_clear_jobs source_id s =
     (let s = s\<lparr>sc_sources := slot_update source_id (\<lambda>source. source\<lparr>se_last_job := None\<rparr>) (sc_sources s)\<rparr>
      in remove_tasks_where (\<lambda>e. tk_source_id e = source_id) s)"

definition handle_share :: "externals \<Rightarrow> instant \<Rightarrow> TaskId \<Rightarrow> Share \<Rightarrow> scheduler \<Rightarrow> scheduler" where
  "handle_share ext now task_id share s =
     (case slot_get task_id (sc_tasks s) of
        None \<Rightarrow> s
      | Some task_entry \<Rightarrow>
          (let s = s\<lparr>sc_threads := slot_update (tk_thread_id task_entry)
                      (\<lambda>entry. entry\<lparr>te_hashrate := record_at now (sh_expected_work share) (te_hashrate entry)\<rparr>)
                      (sc_threads s)\<rparr>
           in if x_is_met_by (xe_bitcoin ext) (jt_share_target (tk_template task_entry)) (sh_hash share) then
                (let s = s\<lparr>sc_shares_submitted := sc_shares_submitted s + 1\<rparr>
                 in case slot_get (tk_source_id task_entry) (sc_sources s) of
                      Some _ \<Rightarrow>
                        emit [ToSource (tk_source_id task_entry)
                                (SubmitShare (SourceShare_from share (jt_id (tk_template task_entry))))] s
                    | None \<Rightarrow> s)
              else s))"

subsection \<open>Thread events\<close>

datatype HashThreadEvent =
  WorkDepletionWarning u64
| WorkExhausted u64
| StatusUpdate
| ExpectedHashRate HashRate

text \<open>The loop over the sources with a cached job; \<open>i\<close> counts the iterations.\<close>

fun assign_cached ::
    "externals \<Rightarrow> sched_world \<Rightarrow> ThreadId \<Rightarrow> HashRate \<Rightarrow> nat \<Rightarrow> (SourceId \<times> SourceEntry) list \<Rightarrow>
       scheduler \<Rightarrow> scheduler option" where
  "assign_cached ext w thread_id thread_hashrate i [] s = Some s"
| "assign_cached ext w thread_id thread_hashrate i ((source_id, source) # rest) s =
     (case se_last_job source of
        None \<Rightarrow> assign_cached ext w thread_id thread_hashrate (Suc i) rest s
      | Some template \<Rightarrow>
          (case jt_merkle_root template of
             Fixed _ \<Rightarrow> assign_cached ext w thread_id thread_hashrate (Suc i) rest s
           | Computed t \<Rightarrow>
               (case compute_scheduler_target (xe_decode ext) thread_hashrate (jt_share_target template) of
                  None \<Rightarrow> None
                | Some share_target \<Rightarrow>
                    assign_cached ext w thread_id thread_hashrate (Suc i) rest
                      (hand_task w i
                        (UpdateTask (make_task template (mt_extranonce_range t) share_target (sw_channel w i)))
                        source_id template thread_id s))))"

definition assign_cached_jobs_to_thread :: "externals \<Rightarrow> sched_world \<Rightarrow> ThreadId \<Rightarrow> scheduler \<Rightarrow> scheduler option" where
  "assign_cached_jobs_to_thread ext w thread_id s =
     (case slot_get thread_id (sc_threads s) of
        None \<Rightarrow> None
      | Some entry \<Rightarrow>
          (case thread_rate (sw_clock w thread_id) entry of
             (thread_hashrate, entry) \<Rightarrow>
               (let s = s\<lparr>sc_threads := slot_update thread_id (\<lambda>_. entry) (sc_threads s)\<rparr>
                in assign_cached ext w thread_id thread_hashrate 0 (sc_sources s) s)))"

definition handle_thread_event ::
    "externals \<Rightarrow> sched_world \<Rightarrow> ThreadId \<Rightarrow> HashThreadEvent \<Rightarrow> scheduler \<Rightarrow> scheduler option" where
  "handle_thread_event ext w thread_id event s =
     (case event of
        WorkExhausted _ \<Rightarrow> Some s
      | WorkDepletionWarning _ \<Rightarrow> Some s
      | StatusUpdate \<Rightarrow> Some s
      | ExpectedHashRate rate \<Rightarrow>
          (case slot_get thread_id (sc_threads s) of
             None \<Rightarrow> Some s
           | Some entry \<Rightarrow>
               (let first_report = (te_expected entry = None);
                    s = s\<lparr>sc_threads := slot_update thread_id (\<lambda>entry. entry\<lparr>te_expected := Some rate\<rparr>) (sc_threads s)\<rparr>
                in case (if first_report then assign_cached_jobs_to_thread ext w thread_id s else Some s) of
                     None \<Rightarrow> None
                   | Some s \<Rightarrow>
                       (let s = (if first_report \<and> is_holding (sc_startup_gate s)
                                 then s\<lparr>sc_startup_gate := record_reported (sc_startup_gate s)\<rparr> else s)
                        in if \<not> is_holding (sc_startup_gate s) then Some (broadcast_hashrate_change s)
                           else Some s))))"

text \<open>A new thread comes with its event receiver; whether \<open>configure\<close> fails is only logged.\<close>

definition handle_new_thread :: "slot \<Rightarrow> string \<Rightarrow> scheduler \<Rightarrow> scheduler" where
  "handle_new_thread slot thread_name s =
     (let thread_id = snd slot;
          s = s\<lparr>sc_threads := slot_insert slot
                  \<lparr>te_name = thread_name, te_hashrate = Estimator_new HASHRATE_WINDOW, te_expected = None\<rparr> (sc_threads s),
                sc_startup_gate := record_registered (sc_startup_gate s),
                sc_thread_events := sc_thread_events s @ [thread_id]\<rparr>;
          s = emit [ToThread thread_id Configure] s
      in s\<lparr>sc_last_thread_count := length (sc_thread_events s)\<rparr>)"

definition handle_thread_disconnections :: "scheduler \<Rightarrow> scheduler" where
  "handle_thread_disconnections s =
     (let current_count = length (sc_thread_events s)
      in if current_count = sc_last_thread_count s then s
         else
           (let active_thread_ids = set (sc_thread_events s);
                s = s\<lparr>sc_threads := filter (\<lambda>(i, _). i \<in> active_thread_ids) (sc_threads s)\<rparr>;
                s = remove_tasks_where (\<lambda>e. tk_thread_id e \<notin> active_thread_ids) s;
                s = s\<lparr>sc_last_thread_count := current_count\<rparr>
            in broadcast_hashrate_change s))"

text \<open>
  \<open>InitialEnumerationComplete\<close> and the fallback, as the loop handles them.
\<close>

definition handle_enumeration_complete :: "instant \<Rightarrow> scheduler \<Rightarrow> scheduler" where
  "handle_enumeration_complete now s =
     (let s = s\<lparr>sc_startup_gate := record_enumeration_complete (sc_startup_gate s)\<rparr>
      in if is_holding (sc_startup_gate s) then s\<lparr>sc_gate_deadline := Some (now + int STARTUP_GATE_TIMEOUT)\<rparr>
         else broadcast_hashrate_change s)"

definition handle_gate_timeout :: "scheduler \<Rightarrow> scheduler" where
  "handle_gate_timeout s =
     (broadcast_hashrate_change (s\<lparr>sc_startup_gate := record_timeout (sc_startup_gate s)\<rparr>))
       \<lparr>sc_gate_deadline := None\<rparr>"

subsection \<open>The loop\<close>

datatype SourceEvent = UpdateJob JobTemplate | ReplaceJob JobTemplate | ClearJobs

datatype SchedulerCommand = PauseMining | ResumeMining

datatype sched_msg =
  MsgSourceRegistration slot SourceRegistration
| MsgSourceEvent SourceId SourceEvent
| MsgShare TaskId Share
| MsgThreadEvent ThreadId HashThreadEvent
| MsgNewThread slot string
| MsgEnumerationComplete
| MsgGateTimeout
| MsgStatusTick
| MsgApiCommand SchedulerCommand
| MsgTelemetryTick

text \<open>The status log and the telemetry snapshot both read, and prune, the estimators.\<close>

definition handle_msg :: "externals \<Rightarrow> sched_world \<Rightarrow> sched_msg \<Rightarrow> scheduler \<Rightarrow> scheduler option" where
  "handle_msg ext w msg s =
     (case msg of
        MsgSourceRegistration slot reg \<Rightarrow> Some (handle_source_registration slot reg s)
      | MsgSourceEvent source_id event \<Rightarrow>
          (case event of
             UpdateJob template \<Rightarrow> assign_job_to_threads ext w Update source_id template s
           | ReplaceJob template \<Rightarrow> assign_job_to_threads ext w Replace source_id template s
           | ClearJobs \<Rightarrow> Some (handle_clear_jobs source_id s))
      | MsgShare task_id share \<Rightarrow> Some (handle_share ext (sw_now w) task_id share s)
      | MsgThreadEvent thread_id event \<Rightarrow> handle_thread_event ext w thread_id event s
      | MsgNewThread slot name \<Rightarrow> Some (handle_new_thread slot name s)
      | MsgEnumerationComplete \<Rightarrow> Some (handle_enumeration_complete (sw_now w) s)
      | MsgGateTimeout \<Rightarrow> Some (handle_gate_timeout s)
      | MsgStatusTick \<Rightarrow>
          Some (if sc_first_status_tick s then s\<lparr>sc_first_status_tick := False\<rparr>
                else snd (measured_hashrate (sw_clock w) s))
      | MsgApiCommand cmd \<Rightarrow>
          Some (snd (measured_hashrate (sw_clock w) (s\<lparr>sc_paused := (cmd = PauseMining)\<rparr>)))
      | MsgTelemetryTick \<Rightarrow> Some (snd (measured_hashrate (sw_clock w) s)))"

text \<open>
  A branch of the select is enabled: events come from open streams, the fallback only while
  the gate holds and its deadline has passed.
\<close>

definition msg_enabled :: "instant \<Rightarrow> sched_msg \<Rightarrow> scheduler \<Rightarrow> bool" where
  "msg_enabled now msg s =
     (case msg of
        MsgSourceEvent source_id _ \<Rightarrow> source_id \<in> set (sc_source_events s)
      | MsgShare task_id _ \<Rightarrow> task_id \<in> set (slot_keys (sc_share_channels s))
      | MsgThreadEvent thread_id _ \<Rightarrow> thread_id \<in> set (sc_thread_events s)
      | MsgGateTimeout \<Rightarrow>
          is_holding (sc_startup_gate s) \<and>
          (case sc_gate_deadline s of None \<Rightarrow> False | Some deadline \<Rightarrow> deadline \<le> now)
      | _ \<Rightarrow> True)"

text \<open>
  One iteration. Polling the stream maps silently removes streams that have ended, whichever
  branch then wins; after the handler, disconnections are detected.
\<close>

record ended_streams =
  es_sources :: "SourceId list"
  es_threads :: "ThreadId list"
  es_shares :: "TaskId list"

definition drop_ended :: "ended_streams \<Rightarrow> scheduler \<Rightarrow> scheduler" where
  "drop_ended es s =
     s\<lparr>sc_source_events := filter (\<lambda>i. i \<notin> set (es_sources es)) (sc_source_events s),
       sc_thread_events := filter (\<lambda>i. i \<notin> set (es_threads es)) (sc_thread_events s),
       sc_share_channels := filter (\<lambda>(i, _). i \<notin> set (es_shares es)) (sc_share_channels s)\<rparr>"

definition sched_iteration ::
    "externals \<Rightarrow> sched_world \<Rightarrow> ended_streams \<Rightarrow> sched_msg \<Rightarrow> scheduler \<Rightarrow> scheduler option" where
  "sched_iteration ext w es msg s =
     map_option handle_thread_disconnections (handle_msg ext w msg (drop_ended es s))"

end
