(* ===== verification/Scheduler_Props.thy ===== *)
theory Scheduler_Props
  imports Scheduler
begin

text \<open>
  Properties of the scheduler: the consistency of its tables over every iteration of the loop,
  the split of a job's extranonce space over the eligible threads, the fate of old tasks, the
  routing of shares, and the startup gate.
\<close>

subsection \<open>Removing tasks\<close>

lemma remove_tasks_fold:
  "fold (\<lambda>task_id s. s\<lparr>sc_tasks := slot_remove task_id (sc_tasks s),
                       sc_share_channels := slot_remove task_id (sc_share_channels s)\<rparr>) ids s =
   s\<lparr>sc_tasks := assoc.remove_all ids (sc_tasks s), sc_share_channels := assoc.remove_all ids (sc_share_channels s)\<rparr>"
  by (induction ids arbitrary: s) auto

definition doomed :: "(TaskEntry \<Rightarrow> bool) \<Rightarrow> scheduler \<Rightarrow> TaskId set" where
  "doomed P s = {i. \<exists>e. (i, e) \<in> set (sc_tasks s) \<and> P e}"

lemma remove_tasks_where_eq:
  "remove_tasks_where P s =
     s\<lparr>sc_tasks := filter (\<lambda>(i, _). i \<notin> doomed P s) (sc_tasks s),
       sc_share_channels := filter (\<lambda>(i, _). i \<notin> doomed P s) (sc_share_channels s)\<rparr>"
proof -
  have "set (map fst (filter (\<lambda>(_, entry). P entry) (sc_tasks s))) = doomed P s"
    by (force simp: doomed_def)
  then show ?thesis
    unfolding remove_tasks_where_def Let_def remove_tasks_fold remove_all_filter by simp
qed

lemma remove_tasks_where_tasks:
  assumes "distinct (slot_keys (sc_tasks s))"
  shows "sc_tasks (remove_tasks_where P s) = filter (\<lambda>(_, e). \<not> P e) (sc_tasks s)"
proof -
  have "i \<in> doomed P s \<longleftrightarrow> P e" if "(i, e) \<in> set (sc_tasks s)" for i e
    using assms that by (auto simp: doomed_def dest: eq_key_imp_eq_value)
  then show ?thesis unfolding remove_tasks_where_eq by (auto intro!: filter_cong)
qed

lemma remove_tasks_where_simps [simp]:
  "sc_sources (remove_tasks_where P s) = sc_sources s" "sc_threads (remove_tasks_where P s) = sc_threads s"
  "sc_startup_gate (remove_tasks_where P s) = sc_startup_gate s" "sc_outputs (remove_tasks_where P s) = sc_outputs s"
  "sc_thread_events (remove_tasks_where P s) = sc_thread_events s"
  "sc_source_events (remove_tasks_where P s) = sc_source_events s"
  "sc_last_thread_count (remove_tasks_where P s) = sc_last_thread_count s"
  "sc_shares_submitted (remove_tasks_where P s) = sc_shares_submitted s"
  by (simp_all add: remove_tasks_where_eq)

subsection \<open>Consistency\<close>

definition sched_inv :: "scheduler \<Rightarrow> bool" where
  "sched_inv s \<longleftrightarrow>
     distinct (slot_keys (sc_sources s)) \<and> distinct (slot_keys (sc_threads s)) \<and>
     distinct (slot_keys (sc_tasks s)) \<and>
     set (sc_thread_events s) \<subseteq> set (slot_keys (sc_threads s)) \<and>
     set (sc_source_events s) \<subseteq> set (slot_keys (sc_sources s)) \<and>
     set (slot_keys (sc_share_channels s)) \<subseteq> set (slot_keys (sc_tasks s)) \<and>
     (\<forall>(i, e) \<in> set (sc_tasks s). tk_source_id e \<in> set (slot_keys (sc_sources s)) \<and>
        tk_thread_id e \<in> set (slot_keys (sc_threads s)))"

lemma sched_inv_new: "sched_inv Scheduler_new"
  by (simp add: sched_inv_def Scheduler_new_def)

lemma sched_inv_frame:
  assumes "sched_inv s"
    and "slot_keys (sc_sources t) = slot_keys (sc_sources s)" "slot_keys (sc_threads t) = slot_keys (sc_threads s)"
    and "sc_tasks t = sc_tasks s" "sc_thread_events t = sc_thread_events s"
    and "sc_source_events t = sc_source_events s" "sc_share_channels t = sc_share_channels s"
  shows "sched_inv t"
  using assms unfolding sched_inv_def by simp

lemma keys_map_snd [simp]: "slot_keys (map (\<lambda>(i, x). (i, f i x)) t) = slot_keys t"
  by (induction t) auto

lemma broadcast_simps [simp]:
  "sc_threads (broadcast_hashrate_change s) = sc_threads s" "sc_tasks (broadcast_hashrate_change s) = sc_tasks s"
  "sc_thread_events (broadcast_hashrate_change s) = sc_thread_events s"
  "sc_source_events (broadcast_hashrate_change s) = sc_source_events s"
  "sc_share_channels (broadcast_hashrate_change s) = sc_share_channels s"
  "sc_startup_gate (broadcast_hashrate_change s) = sc_startup_gate s"
  "sc_last_thread_count (broadcast_hashrate_change s) = sc_last_thread_count s"
  "slot_keys (sc_sources (broadcast_hashrate_change s)) = slot_keys (sc_sources s)"
  by (simp_all add: broadcast_hashrate_change_def send_hashrate_updates_def emit_def Let_def case_prod_beta comp_def)

lemma sched_inv_broadcast: "sched_inv s \<Longrightarrow> sched_inv (broadcast_hashrate_change s)"
  by (erule sched_inv_frame) simp_all

lemma keys_filter_keys: "set (slot_keys (filter (\<lambda>(i, _). Q i) t)) = {i \<in> set (slot_keys t). Q i}"
  by (induction t) auto

lemma sched_inv_remove_tasks:
  assumes "sched_inv s"
  shows "sched_inv (remove_tasks_where P s)"
proof -
  let ?Q = "\<lambda>i. i \<notin> doomed P s"
  have "set (slot_keys (filter (\<lambda>(i, _). ?Q i) (sc_share_channels s))) \<subseteq>
        set (slot_keys (filter (\<lambda>(i, _). ?Q i) (sc_tasks s)))"
    using assms unfolding keys_filter_keys sched_inv_def by blast
  then show ?thesis
    using assms unfolding sched_inv_def remove_tasks_where_eq by (simp add: distinct_slot_filter)
qed

lemma keys_slot_filter: "set (slot_keys (filter P t)) \<subseteq> set (slot_keys t)"
  by auto

subsection \<open>Handing out tasks\<close>

definition fresh_slots :: "sched_world \<Rightarrow> nat \<Rightarrow> scheduler \<Rightarrow> bool" where
  "fresh_slots w i s \<longleftrightarrow>
     inj (\<lambda>j. snd (sw_slot w j)) \<and> (\<forall>j \<ge> i. snd (sw_slot w j) \<notin> set (slot_keys (sc_tasks s)))"

lemma hand_task_simps [simp]:
  "sc_sources (hand_task w i req src t th s) = sc_sources s" "sc_threads (hand_task w i req src t th s) = sc_threads s"
  "sc_outputs (hand_task w i req src t th s) = sc_outputs s @ [ToThread th req]"
  "sc_startup_gate (hand_task w i req src t th s) = sc_startup_gate s"
  "sc_thread_events (hand_task w i req src t th s) = sc_thread_events s"
  "sc_source_events (hand_task w i req src t th s) = sc_source_events s"
  "sc_last_thread_count (hand_task w i req src t th s) = sc_last_thread_count s"
  by (simp_all add: hand_task_def emit_def Let_def)

lemma hand_task_tasks:
  "sc_tasks (hand_task w i req src t th s) =
     (if sw_accepts w th src
      then slot_insert (sw_slot w i) \<lparr>tk_source_id = src, tk_template = t, tk_thread_id = th\<rparr> (sc_tasks s)
      else sc_tasks s)"
  by (simp add: hand_task_def emit_def Let_def)

lemma fresh_hand_task:
  assumes "fresh_slots w i s"
  shows "fresh_slots w (Suc i) (hand_task w i req src t th s)"
proof -
  have "snd (sw_slot w j) \<noteq> snd (sw_slot w i)" if "Suc i \<le> j" for j
    using assms that by (auto simp: fresh_slots_def dest: injD)
  then show ?thesis
    using assms keys_slot_insert [of "fst (sw_slot w i)" "snd (sw_slot w i)"]
    by (cases "sw_slot w i") (auto simp: fresh_slots_def hand_task_tasks set_slot_insert)
qed

lemma sched_inv_hand_task:
  assumes inv: "sched_inv s" and fresh: "fresh_slots w i s"
    and src: "src \<in> set (slot_keys (sc_sources s))" and th: "th \<in> set (slot_keys (sc_threads s))"
  shows "sched_inv (hand_task w i req src t th s)"
proof (cases "sw_accepts w th src")
  case False
  then have "hand_task w i req src t th s = s\<lparr>sc_outputs := sc_outputs s @ [ToThread th req]\<rparr>"
    by (simp add: hand_task_def emit_def Let_def)
  then show ?thesis using inv by (simp add: sched_inv_def)
next
  case True
  obtain pos k where k: "sw_slot w i = (pos, k)" by (cases "sw_slot w i")
  have "k \<notin> set (slot_keys (sc_tasks s))" using fresh unfolding fresh_slots_def by (metis k order_refl snd_conv)
  then have d: "distinct (slot_keys (slot_insert (pos, k) e (sc_tasks s)))" for e
    using inv by (intro distinct_slot_insert) (simp add: sched_inv_def)
  have "hand_task w i req src t th s = s\<lparr>sc_outputs := sc_outputs s @ [ToThread th req],
      sc_tasks := slot_insert (pos, k) \<lparr>tk_source_id = src, tk_template = t, tk_thread_id = th\<rparr> (sc_tasks s),
      sc_share_channels := (k, sw_channel w i) # sc_share_channels s\<rparr>"
    using True k by (simp add: hand_task_def emit_def Let_def)
  then show ?thesis
    using inv src th d unfolding sched_inv_def by (auto simp: set_slot_insert)
qed

lemma update_threads_simps [simp]:
  "sched_inv (s\<lparr>sc_threads := slot_update i f (sc_threads s)\<rparr>) = sched_inv s"
  "fresh_slots w n (s\<lparr>sc_threads := thr\<rparr>) = fresh_slots w n s"
  "sched_inv (s\<lparr>sc_sources := slot_update i g (sc_sources s)\<rparr>) = sched_inv s"
  "fresh_slots w n (s\<lparr>sc_sources := srcs\<rparr>) = fresh_slots w n s"
  by (simp_all add: sched_inv_def fresh_slots_def)

lemma fresh_slots_Suc: "fresh_slots w i s \<Longrightarrow> fresh_slots w (Suc i) s"
  by (simp add: fresh_slots_def)

abbreviation mode_request :: "AssignMode \<Rightarrow> HashTask \<Rightarrow> ThreadRequest" where
  "mode_request mode task \<equiv> (case mode of Update \<Rightarrow> UpdateTask task | Replace \<Rightarrow> ReplaceTask task)"

text \<open>One round of the loop.\<close>

lemma assign_slices_ConsE:
  assumes "assign_slices ext w mode src t i ((th, r) # pairs) s = Some s'"
  obtains entry h entry' target where
    "slot_get th (sc_threads s) = Some entry" "thread_rate (sw_clock w th) entry = (h, entry')"
    "compute_scheduler_target (xe_decode ext) h (jt_share_target t) = Some target"
    "assign_slices ext w mode src t (Suc i) pairs
      (hand_task w i (mode_request mode (make_task t r target (sw_channel w i))) src t th
        (s\<lparr>sc_threads := slot_update th (\<lambda>_. entry') (sc_threads s)\<rparr>)) = Some s'"
  using assms by (auto simp: Let_def split: option.splits prod.splits)

lemma assign_slices_inv:
  assumes "assign_slices ext w mode src t i pairs s = Some s'"
    and "sched_inv s" "fresh_slots w i s" "src \<in> set (slot_keys (sc_sources s))"
    and "set (map fst pairs) \<subseteq> set (slot_keys (sc_threads s))"
  shows "sched_inv s'"
  using assms
proof (induction pairs arbitrary: i s)
  case Nil
  then show ?case by simp
next
  case (Cons p pairs)
  obtain th r where p: "p = (th, r)" by (cases p)
  from Cons.prems(1) [unfolded p] obtain entry h entry' target where
    step: "assign_slices ext w mode src t (Suc i) pairs
      (hand_task w i (mode_request mode (make_task t r target (sw_channel w i))) src t th
        (s\<lparr>sc_threads := slot_update th (\<lambda>_. entry') (sc_threads s)\<rparr>)) = Some s'"
    by (rule assign_slices_ConsE)
  show ?case
    using Cons.prems(2-) p by (intro Cons.IH [OF step]) (simp_all add: sched_inv_hand_task fresh_hand_task)
qed

lemma assign_cached_inv:
  assumes "assign_cached ext w th h i pairs s = Some s'"
    and "sched_inv s" "fresh_slots w i s" "th \<in> set (slot_keys (sc_threads s))"
    and "set (map fst pairs) \<subseteq> set (slot_keys (sc_sources s))"
  shows "sched_inv s'"
  using assms
proof (induction pairs arbitrary: i s)
  case Nil
  then show ?case by simp
next
  case (Cons p pairs)
  obtain src e where p: "p = (src, e)" by (cases p)
  have skip: "?case" if "assign_cached ext w th h (Suc i) pairs s = Some s'"
    by (rule Cons.IH [OF that]) (use Cons.prems p fresh_slots_Suc in auto)
  show ?case
  proof (cases "se_last_job e")
    case None
    then show ?thesis using Cons.prems p skip by simp
  next
    case (Some t)
    show ?thesis
    proof (cases "jt_merkle_root t")
      case (Fixed x)
      then show ?thesis using Cons.prems p Some skip by simp
    next
      case (Computed m)
      from Cons.prems(1) p Some Computed obtain target where
        step: "assign_cached ext w th h (Suc i) pairs (hand_task w i
          (UpdateTask (make_task t (mt_extranonce_range m) target (sw_channel w i))) src t th s) = Some s'"
        by (auto split: option.splits)
      show ?thesis
        using Cons.prems(2-) p by (intro Cons.IH [OF step]) (simp_all add: sched_inv_hand_task fresh_hand_task)
    qed
  qed
qed


subsection \<open>Every handler\<close>

lemma fresh_slots_remove: "fresh_slots w i s \<Longrightarrow> fresh_slots w i (remove_tasks_where P s)"
  by (auto simp: fresh_slots_def remove_tasks_where_eq)

lemma difficulty_warning_inv:
  assumes "difficulty_warning ext now src t s = Some s'"
  shows "sched_inv s' = sched_inv s" "fresh_slots w i s' = fresh_slots w i s" "sc_threads s' = sc_threads s"
    "slot_keys (sc_sources s') = slot_keys (sc_sources s)" "sc_tasks s' = sc_tasks s"
  using assms by (auto simp: difficulty_warning_def Let_def split: option.splits)

lemma eligible_in_threads: "set (eligible_thread_ids s) \<subseteq> set (slot_keys (sc_threads s))"
  by (auto simp: eligible_thread_ids_def)

lemma set_zip_fst: "set (map fst (zip xs ys)) \<subseteq> set xs"
  by (auto dest: set_zip_leftD)

lemma assign_job_inv:
  assumes "assign_job_to_threads ext w mode src t s = Some s'"
    and inv: "sched_inv s" and fresh: "fresh_slots w 0 s" and src: "src \<in> set (slot_keys (sc_sources s))"
  shows "sched_inv s'"
proof (cases "jt_merkle_root t")
  case (Fixed x)
  then show ?thesis using assms by (simp add: assign_job_to_threads_def)
next
  case (Computed m)
  define s1 where "s1 = s\<lparr>sc_sources := slot_update src (cache_job t) (sc_sources s)\<rparr>"
  have s1: "sched_inv s1" "fresh_slots w 0 s1" "slot_keys (sc_sources s1) = slot_keys (sc_sources s)"
    using inv fresh by (simp_all add: s1_def)
  show ?thesis
  proof (cases "sc_threads s1 = []")
    case True
    then show ?thesis using assms(1) Computed s1 by (simp add: assign_job_to_threads_def s1_def Let_def)
  next
    case False
    with assms(1) Computed obtain s2 where warn: "difficulty_warning ext (sw_now w) src t s1 = Some s2"
      and rest: "(let s = (if mode = Replace then remove_tasks_where (\<lambda>e. tk_source_id e = src) s2 else s2);
                      eligible = eligible_thread_ids s
                  in if eligible = [] then Some s
                     else case split_range (mt_extranonce_range m) (length eligible) of
                       None \<Rightarrow> None
                     | Some slices \<Rightarrow> assign_slices ext w mode src t 0 (zip eligible slices) s) = Some s'"
      by (auto simp: assign_job_to_threads_def s1_def [symmetric] Let_def split: option.splits)
    define s3 where "s3 = (if mode = Replace then remove_tasks_where (\<lambda>e. tk_source_id e = src) s2 else s2)"
    note w = difficulty_warning_inv [OF warn]
    have "slot_keys (sc_sources s3) = slot_keys (sc_sources s)" using s1(3) w(4) by (simp add: s3_def)
    then have src3: "src \<in> set (slot_keys (sc_sources s3))" using src by simp
    have "sched_inv s2" "fresh_slots w 0 s2" using s1(1,2) w(1,2) by simp_all
    then have s3: "sched_inv s3" "fresh_slots w 0 s3"
      by (simp_all add: s3_def sched_inv_remove_tasks fresh_slots_remove)
    have rest: "(if eligible_thread_ids s3 = [] then Some s3
       else case split_range (mt_extranonce_range m) (length (eligible_thread_ids s3)) of
         None \<Rightarrow> None
       | Some slices \<Rightarrow> assign_slices ext w mode src t 0 (zip (eligible_thread_ids s3) slices) s3) = Some s'"
      using rest unfolding s3_def [symmetric] Let_def .
    consider "s' = s3"
      | slices where "assign_slices ext w mode src t 0 (zip (eligible_thread_ids s3) slices) s3 = Some s'"
    proof (cases "eligible_thread_ids s3 = []")
      case False
      show ?thesis
      proof (cases "split_range (mt_extranonce_range m) (length (eligible_thread_ids s3))")
        case (Some slices)
        then show ?thesis using rest False that(2) by simp
      qed (use rest False in simp)
    qed (use rest that(1) in simp)
    then show ?thesis
    proof cases
      case 1
      then show ?thesis using s3(1) by simp
    next
      case (2 slices)
      have "set (map fst (zip (eligible_thread_ids s3) slices)) \<subseteq> set (slot_keys (sc_threads s3))"
        using set_zip_fst eligible_in_threads by (rule subset_trans)
      then show ?thesis by (rule assign_slices_inv [OF 2 s3 src3])
    qed
  qed
qed

lemma handle_share_inv: "sched_inv s \<Longrightarrow> sched_inv (handle_share ext now i share s)"
  by (erule sched_inv_frame) (auto simp: handle_share_def emit_def Let_def split: option.splits)

lemma handle_clear_jobs_inv: "sched_inv s \<Longrightarrow> sched_inv (handle_clear_jobs src s)"
  unfolding handle_clear_jobs_def Let_def by (intro sched_inv_remove_tasks) simp

lemma handle_source_registration_inv:
  assumes "sched_inv s" and "snd slot \<notin> set (slot_keys (sc_sources s))"
  shows "sched_inv (handle_source_registration slot reg s)"
proof -
  obtain pos k where k: "slot = (pos, k)" by (cases slot)
  have "sched_inv (s\<lparr>sc_sources := slot_insert slot e (sc_sources s), sc_source_events := sc_source_events s @ [snd slot]\<rparr>)" for e
    using assms k unfolding sched_inv_def by (auto simp: set_slot_insert intro: distinct_slot_insert)
  then show ?thesis by (simp add: handle_source_registration_def Let_def sched_inv_broadcast)
qed

lemma handle_new_thread_inv:
  assumes "sched_inv s" and "snd slot \<notin> set (slot_keys (sc_threads s))"
  shows "sched_inv (handle_new_thread slot name s)"
proof -
  obtain pos k where k: "slot = (pos, k)" by (cases slot)
  show ?thesis
    using assms k unfolding sched_inv_def handle_new_thread_def emit_def Let_def
    by (auto simp: set_slot_insert intro: distinct_slot_insert)
qed

lemma assign_cached_jobs_inv:
  assumes "assign_cached_jobs_to_thread ext w th s = Some s'"
    and inv: "sched_inv s" and fresh: "fresh_slots w 0 s"
  shows "sched_inv s'"
proof -
  from assms(1) obtain entry h entry' where e: "slot_get th (sc_threads s) = Some entry"
    and c: "assign_cached ext w th h 0 (sc_sources s)
      (s\<lparr>sc_threads := slot_update th (\<lambda>_. entry') (sc_threads s)\<rparr>) = Some s'"
    by (auto simp: assign_cached_jobs_to_thread_def Let_def split: option.splits prod.splits)
  have "th \<in> set (slot_keys (sc_threads s))" using e slot_get_None_iff [of th "sc_threads s"] by force
  then show ?thesis using inv fresh by (intro assign_cached_inv [OF c]) simp_all
qed

lemma handle_thread_event_inv:
  assumes "handle_thread_event ext w th event s = Some s'"
    and inv: "sched_inv s" and fresh: "fresh_slots w 0 s"
  shows "sched_inv s'"
proof (cases event)
  case (ExpectedHashRate rate)
  show ?thesis
  proof (cases "slot_get th (sc_threads s)")
    case None
    then show ?thesis using assms ExpectedHashRate by (simp add: handle_thread_event_def)
  next
    case (Some entry)
    define s1 where "s1 = s\<lparr>sc_threads := slot_update th (\<lambda>entry. entry\<lparr>te_expected := Some rate\<rparr>) (sc_threads s)\<rparr>"
    have s1: "sched_inv s1" "fresh_slots w 0 s1" using inv fresh by (simp_all add: s1_def)
    from assms(1) ExpectedHashRate Some obtain s2 where
      s2: "(if te_expected entry = None then assign_cached_jobs_to_thread ext w th s1 else Some s1) = Some s2"
      and s': "s' = (let s = (if te_expected entry = None \<and> is_holding (sc_startup_gate s2)
                 then s2\<lparr>sc_startup_gate := record_reported (sc_startup_gate s2)\<rparr> else s2)
              in if \<not> is_holding (sc_startup_gate s) then broadcast_hashrate_change s else s)"
      by (auto simp: handle_thread_event_def s1_def [symmetric] Let_def split: option.splits if_splits)
    have "sched_inv s2" using s2 s1 assign_cached_jobs_inv by (auto split: if_splits)
    moreover have "sched_inv (s2\<lparr>sc_startup_gate := g\<rparr>) = sched_inv s2" for g by (simp add: sched_inv_def)
    ultimately show ?thesis by (simp add: s' Let_def sched_inv_broadcast)
  qed
qed (use assms in \<open>simp_all add: handle_thread_event_def\<close>)

lemma keys_filter: "set (slot_keys (filter (\<lambda>(i, _). Q i) t)) = {i \<in> set (slot_keys t). Q i}"
  by (rule keys_filter_keys)

text \<open>Disconnection leaves exactly the active threads, and the tasks on them.\<close>

lemma handle_thread_disconnections_inv:
  assumes "sched_inv s"
  shows "sched_inv (handle_thread_disconnections s)"
proof (cases "length (sc_thread_events s) = sc_last_thread_count s")
  case True
  then show ?thesis using assms by (simp add: handle_thread_disconnections_def)
next
  case False
  let ?A = "set (sc_thread_events s)"
  define s1 where "s1 = s\<lparr>sc_threads := filter (\<lambda>(i, _). i \<in> ?A) (sc_threads s)\<rparr>"
  define s2 where "s2 = remove_tasks_where (\<lambda>e. tk_thread_id e \<notin> ?A) s1"
  have d: "distinct (slot_keys (sc_tasks s))" using assms by (simp add: sched_inv_def)
  have tasks: "sc_tasks s2 = filter (\<lambda>(_, e). tk_thread_id e \<in> ?A) (sc_tasks s)"
    using remove_tasks_where_tasks [of s1 "\<lambda>e. tk_thread_id e \<notin> ?A"] d by (simp add: s2_def s1_def)
  have channels: "set (slot_keys (sc_share_channels s2)) \<subseteq> set (slot_keys (sc_tasks s2))"
  proof -
    have "sc_share_channels s2 = filter (\<lambda>(i, _). i \<notin> doomed (\<lambda>e. tk_thread_id e \<notin> ?A) s1) (sc_share_channels s)"
      "sc_tasks s2 = filter (\<lambda>(i, _). i \<notin> doomed (\<lambda>e. tk_thread_id e \<notin> ?A) s1) (sc_tasks s)"
      by (simp_all add: s2_def s1_def remove_tasks_where_eq)
    moreover have "set (slot_keys (sc_share_channels s)) \<subseteq> set (slot_keys (sc_tasks s))"
      using assms unfolding sched_inv_def by blast
    ultimately show ?thesis unfolding keys_filter by (simp only: keys_filter) blast
  qed
  have threads: "sc_threads s2 = filter (\<lambda>(i, _). i \<in> ?A) (sc_threads s)" by (simp add: s2_def s1_def)
  have "set (slot_keys (sc_threads s2)) = ?A"
    unfolding threads keys_filter using assms by (auto simp: sched_inv_def)
  moreover have "sc_sources s2 = sc_sources s" "sc_thread_events s2 = sc_thread_events s"
    "sc_source_events s2 = sc_source_events s"
    by (simp_all add: s2_def s1_def)
  ultimately have "sched_inv s2"
    using assms channels unfolding sched_inv_def
    by (auto simp: threads tasks distinct_slot_filter)
  moreover have "handle_thread_disconnections s =
      broadcast_hashrate_change (s2\<lparr>sc_last_thread_count := length (sc_thread_events s)\<rparr>)"
    using False by (simp add: handle_thread_disconnections_def s2_def s1_def Let_def)
  moreover have "sched_inv (s2\<lparr>sc_last_thread_count := n\<rparr>) = sched_inv s2" for n by (simp add: sched_inv_def)
  ultimately show ?thesis by (simp add: sched_inv_broadcast)
qed

lemma measured_hashrate_inv [simp]: "sched_inv (snd (measured_hashrate clock s)) = sched_inv s"
  by (simp add: measured_hashrate_def sched_inv_def comp_def case_prod_beta)

text \<open>What the tables guarantee of fresh keys, for the message at hand.\<close>

fun fresh_msg :: "sched_world \<Rightarrow> sched_msg \<Rightarrow> scheduler \<Rightarrow> bool" where
  "fresh_msg w (MsgSourceRegistration slot _) s = (snd slot \<notin> set (slot_keys (sc_sources s)))"
| "fresh_msg w (MsgNewThread slot _) s = (snd slot \<notin> set (slot_keys (sc_threads s)))"
| "fresh_msg w _ s = fresh_slots w 0 s"

lemma handle_msg_inv:
  assumes "handle_msg ext w msg s = Some s'" and "sched_inv s" and "fresh_msg w msg s"
    and "msg_enabled (sw_now w) msg s"
  shows "sched_inv s'"
proof (cases msg)
  case (MsgSourceEvent src event)
  have "src \<in> set (slot_keys (sc_sources s))"
    using assms(2,4) MsgSourceEvent by (auto simp: msg_enabled_def sched_inv_def)
  note job = assign_job_inv [OF _ assms(2) _ this]
  show ?thesis
    using assms MsgSourceEvent job
    by (cases event) (auto simp: handle_msg_def intro: handle_clear_jobs_inv)
next
  case (MsgThreadEvent th event)
  then show ?thesis using assms by (auto simp: handle_msg_def intro: handle_thread_event_inv)
next
  case MsgEnumerationComplete
  have "sched_inv (s\<lparr>sc_startup_gate := g, sc_gate_deadline := d\<rparr>) = sched_inv s"
    "sched_inv (s\<lparr>sc_startup_gate := g\<rparr>) = sched_inv s" for g d
    by (simp_all add: sched_inv_def)
  then show ?thesis
    using assms MsgEnumerationComplete
    by (auto simp: handle_msg_def handle_enumeration_complete_def Let_def sched_inv_broadcast)
next
  case MsgGateTimeout
  have "sched_inv (s\<lparr>sc_gate_deadline := d\<rparr>) = sched_inv s" "sched_inv (s\<lparr>sc_startup_gate := g\<rparr>) = sched_inv s" for s g d
    by (simp_all add: sched_inv_def)
  then show ?thesis
    using assms MsgGateTimeout by (auto simp: handle_msg_def handle_gate_timeout_def sched_inv_broadcast)
next
  case (MsgApiCommand c)
  have "sched_inv (s\<lparr>sc_paused := b\<rparr>) = sched_inv s" for b by (simp add: sched_inv_def)
  then show ?thesis using assms MsgApiCommand by (auto simp: handle_msg_def)
next
  case MsgStatusTick
  have "sched_inv (s\<lparr>sc_first_status_tick := b\<rparr>) = sched_inv s" for b by (simp add: sched_inv_def)
  then show ?thesis using assms MsgStatusTick by (auto simp: handle_msg_def)
qed (use assms in \<open>auto simp: handle_msg_def intro: handle_source_registration_inv handle_share_inv handle_new_thread_inv\<close>)

lemma drop_ended_inv: "sched_inv s \<Longrightarrow> sched_inv (drop_ended es s)"
  unfolding sched_inv_def drop_ended_def by (auto simp: keys_filter)

lemma sched_iteration_inv:
  assumes "sched_iteration ext w es msg s = Some s'" and "sched_inv s"
    and "fresh_msg w msg (drop_ended es s)" and "msg_enabled (sw_now w) msg (drop_ended es s)"
  shows "sched_inv s'"
proof -
  from assms(1) obtain t where t: "handle_msg ext w msg (drop_ended es s) = Some t" "s' = handle_thread_disconnections t"
    by (auto simp: sched_iteration_def)
  have "sched_inv t" using handle_msg_inv [OF t(1) drop_ended_inv [OF assms(2)] assms(3,4)] .
  then show ?thesis unfolding t(2) by (rule handle_thread_disconnections_inv)
qed

subsection \<open>What an assignment hands out\<close>

definition task_for :: "externals \<Rightarrow> JobTemplate \<Rightarrow> ExtranonceRange \<Rightarrow> HashTask \<Rightarrow> bool" where
  "task_for ext t r task \<longleftrightarrow>
     ht_template task = t \<and> ht_extranonce_range task = Some r \<and> ht_extranonce task = Some (range_start r) \<and>
     ht_ntime task = jt_time t \<and>
     (\<exists>h. compute_scheduler_target (xe_decode ext) h (jt_share_target t) = Some (ht_share_target task))"

lemma make_task_for:
  "compute_scheduler_target (xe_decode ext) h (jt_share_target t) = Some target \<Longrightarrow>
   task_for ext t r (make_task t r target ch)"
  by (auto simp: task_for_def make_task_def)

lemma assign_slices_outputs:
  "assign_slices ext w mode src t i pairs s = Some s' \<Longrightarrow>
   \<exists>outs. sc_outputs s' = sc_outputs s @ outs \<and>
     list_all2 (\<lambda>(th, r) out. \<exists>task. out = ToThread th (mode_request mode task) \<and> task_for ext t r task) pairs outs"
proof (induction pairs arbitrary: i s)
  case Nil
  then show ?case by simp
next
  case (Cons p pairs)
  obtain th r where p: "p = (th, r)" by (cases p)
  from Cons.prems [unfolded p] obtain entry h entry' target where
    target: "compute_scheduler_target (xe_decode ext) h (jt_share_target t) = Some target"
    and step: "assign_slices ext w mode src t (Suc i) pairs
      (hand_task w i (mode_request mode (make_task t r target (sw_channel w i))) src t th
        (s\<lparr>sc_threads := slot_update th (\<lambda>_. entry') (sc_threads s)\<rparr>)) = Some s'"
    by (rule assign_slices_ConsE)
  from Cons.IH [OF step] obtain outs where
    "sc_outputs s' = (sc_outputs s @ [ToThread th (mode_request mode (make_task t r target (sw_channel w i)))]) @ outs"
    "list_all2 (\<lambda>(th, r) out. \<exists>task. out = ToThread th (mode_request mode task) \<and> task_for ext t r task) pairs outs"
    by auto
  then show ?case
    using p make_task_for [OF target, of r "sw_channel w i"]
    by (intro exI [of _ "ToThread th (mode_request mode (make_task t r target (sw_channel w i))) # outs"]) auto
qed

text \<open>The tasks after the loop: the old ones, and new ones of this template and source.\<close>

lemma assign_slices_tasks:
  "assign_slices ext w mode src t i pairs s = Some s' \<Longrightarrow>
   set (sc_tasks s) \<subseteq> set (sc_tasks s') \<and>
   (\<forall>k e. (k, e) \<in> set (sc_tasks s') \<longrightarrow> (k, e) \<in> set (sc_tasks s) \<or>
      tk_template e = t \<and> tk_source_id e = src \<and> tk_thread_id e \<in> set (map fst pairs))"
proof (induction pairs arbitrary: i s)
  case Nil
  then show ?case by simp
next
  case (Cons p pairs)
  obtain th r where p: "p = (th, r)" by (cases p)
  from Cons.prems [unfolded p] obtain entry h entry' target where
    step: "assign_slices ext w mode src t (Suc i) pairs
      (hand_task w i (mode_request mode (make_task t r target (sw_channel w i))) src t th
        (s\<lparr>sc_threads := slot_update th (\<lambda>_. entry') (sc_threads s)\<rparr>)) = Some s'"
    by (rule assign_slices_ConsE)
  obtain pos k where k: "sw_slot w i = (pos, k)" by (cases "sw_slot w i")
  have "set (sc_tasks (hand_task w i req src t th u)) =
    (if sw_accepts w th src then insert (k, \<lparr>tk_source_id = src, tk_template = t, tk_thread_id = th\<rparr>) (set (sc_tasks u))
     else set (sc_tasks u))" for req u
    by (simp add: hand_task_tasks k set_slot_insert)
  note tasks = this [of _ "s\<lparr>sc_threads := slot_update th (\<lambda>_. entry') (sc_threads s)\<rparr>", simplified]
  show ?case
  proof (intro conjI allI impI)
    show "set (sc_tasks s) \<subseteq> set (sc_tasks s')" using Cons.IH [OF step] by (auto simp: tasks split: if_splits)
  next
    fix j e
    assume "(j, e) \<in> set (sc_tasks s')"
    with Cons.IH [OF step] consider "(j, e) \<in> set (sc_tasks s)"
      | "e = \<lparr>tk_source_id = src, tk_template = t, tk_thread_id = th\<rparr>"
      | "tk_template e = t \<and> tk_source_id e = src \<and> tk_thread_id e \<in> set (map fst pairs)"
      unfolding tasks by (auto split: if_splits)
    then show "(j, e) \<in> set (sc_tasks s) \<or>
        tk_template e = t \<and> tk_source_id e = src \<and> tk_thread_id e \<in> set (map fst (p # pairs))"
      by cases (simp_all add: p)
  qed
qed

text \<open>The frame of the loop.\<close>

lemma assign_slices_frame:
  "assign_slices ext w mode src t i pairs s = Some s' \<Longrightarrow>
   slot_keys (sc_threads s') = slot_keys (sc_threads s) \<and> sc_sources s' = sc_sources s \<and>
   sc_startup_gate s' = sc_startup_gate s \<and> sc_thread_events s' = sc_thread_events s"
proof (induction pairs arbitrary: i s)
  case Nil
  then show ?case by simp
next
  case (Cons p pairs)
  obtain th r where p: "p = (th, r)" by (cases p)
  from Cons.prems [unfolded p] show ?case by (rule assign_slices_ConsE) (auto dest: Cons.IH)
qed

lemma compute_scheduler_target_some:
  assumes "decodes decode"
  shows "\<exists>t. compute_scheduler_target decode h source = Some t"
proof (cases "h = 0")
  case True
  then show ?thesis using compute_scheduler_target_zero by auto
next
  case False
  then show ?thesis using compute_scheduler_target_bounds [OF assms] by blast
qed

lemma assign_slices_total:
  assumes "decodes (xe_decode ext)" and "set (map fst pairs) \<subseteq> set (slot_keys (sc_threads s))"
  shows "\<exists>s'. assign_slices ext w mode src t i pairs s = Some s'"
  using assms(2)
proof (induction pairs arbitrary: i s)
  case Nil
  then show ?case by simp
next
  case (Cons p pairs)
  obtain th r where p: "p = (th, r)" by (cases p)
  have "slot_get th (sc_threads s) \<noteq> None" using Cons.prems p by (simp add: slot_get_None_iff)
  then obtain entry where e: "slot_get th (sc_threads s) = Some entry" by blast
  obtain h entry' where rate: "thread_rate (sw_clock w th) entry = (h, entry')" by fastforce
  obtain target where t: "compute_scheduler_target (xe_decode ext) h (jt_share_target t) = Some target"
    using compute_scheduler_target_some [OF assms(1)] by blast
  let ?s = "hand_task w i (mode_request mode (make_task t r target (sw_channel w i))) src t th
    (s\<lparr>sc_threads := slot_update th (\<lambda>_. entry') (sc_threads s)\<rparr>)"
  have "set (map fst pairs) \<subseteq> set (slot_keys (sc_threads ?s))" using Cons.prems by simp
  from Cons.IH [OF this] show ?case using e rate t by (simp add: p Let_def)
qed

subsection \<open>The outline of an assignment\<close>

text \<open>The tables just before the loop over eligible threads.\<close>

definition before_slices :: "AssignMode \<Rightarrow> SourceId \<Rightarrow> scheduler \<Rightarrow> scheduler \<Rightarrow> bool" where
  "before_slices mode src s u \<longleftrightarrow>
     sc_threads u = sc_threads s \<and> sc_outputs u = sc_outputs s \<and>
     sc_tasks u = (if mode = Replace then filter (\<lambda>(_, e). tk_source_id e \<noteq> src) (sc_tasks s) else sc_tasks s)"

lemma eligible_cong: "sc_threads u = sc_threads s \<Longrightarrow> eligible_thread_ids u = eligible_thread_ids s"
  by (simp add: eligible_thread_ids_def)

lemma difficulty_warning_outputs:
  "difficulty_warning ext now src t s = Some s' \<Longrightarrow> sc_outputs s' = sc_outputs s"
  by (auto simp: difficulty_warning_def Let_def split: option.splits)

lemma assign_job_outline:
  assumes "assign_job_to_threads ext w mode src t s = Some s'" and "jt_merkle_root t = Computed m"
    and inv: "sched_inv s"
  obtains (idle) "eligible_thread_ids s = []" "before_slices mode src s s'"
  | (assigned) u slices where "before_slices mode src s u" "eligible_thread_ids s \<noteq> []"
    "split_range (mt_extranonce_range m) (length (eligible_thread_ids s)) = Some slices"
    "assign_slices ext w mode src t 0 (zip (eligible_thread_ids s) slices) u = Some s'"
proof -
  define s1 where "s1 = s\<lparr>sc_sources := slot_update src (cache_job t) (sc_sources s)\<rparr>"
  have s1: "sc_threads s1 = sc_threads s" "sc_tasks s1 = sc_tasks s" "sc_outputs s1 = sc_outputs s"
    by (simp_all add: s1_def)
  show ?thesis
  proof (cases "sc_threads s1 = []")
    case True
    then have th: "sc_threads s = []" using s1 by simp
    then have "sc_tasks s = []" using inv by (cases "sc_tasks s") (auto simp: sched_inv_def)
    moreover have "s' = s1" using assms(1,2) th by (simp add: assign_job_to_threads_def s1_def Let_def)
    ultimately show ?thesis
      using th s1 by (intro idle) (simp_all add: before_slices_def eligible_thread_ids_def)
  next
    case False
    with assms(1,2) obtain s2 where warn: "difficulty_warning ext (sw_now w) src t s1 = Some s2"
      and rest: "(let s = (if mode = Replace then remove_tasks_where (\<lambda>e. tk_source_id e = src) s2 else s2);
                      eligible = eligible_thread_ids s
                  in if eligible = [] then Some s
                     else case split_range (mt_extranonce_range m) (length eligible) of
                       None \<Rightarrow> None
                     | Some slices \<Rightarrow> assign_slices ext w mode src t 0 (zip eligible slices) s) = Some s'"
      by (auto simp: assign_job_to_threads_def s1_def [symmetric] Let_def split: option.splits)
    define s3 where "s3 = (if mode = Replace then remove_tasks_where (\<lambda>e. tk_source_id e = src) s2 else s2)"
    have "distinct (slot_keys (sc_tasks s2))" using inv difficulty_warning_inv(5) [OF warn] by (simp add: s1 sched_inv_def)
    then have b: "before_slices mode src s s3"
      using difficulty_warning_inv(3,5) [OF warn] difficulty_warning_outputs [OF warn] s1
      by (simp add: before_slices_def s3_def remove_tasks_where_tasks)
    then have el: "eligible_thread_ids s3 = eligible_thread_ids s"
      by (intro eligible_cong) (simp add: before_slices_def)
    have rest: "(if eligible_thread_ids s = [] then Some s3
       else case split_range (mt_extranonce_range m) (length (eligible_thread_ids s)) of
         None \<Rightarrow> None
       | Some slices \<Rightarrow> assign_slices ext w mode src t 0 (zip (eligible_thread_ids s) slices) s3) = Some s'"
      using rest unfolding s3_def [symmetric] Let_def el .
    show ?thesis
    proof (cases "eligible_thread_ids s = []")
      case True
      then show ?thesis using idle b rest by simp
    next
      case False
      then show ?thesis
        using rest b by (cases "split_range (mt_extranonce_range m) (length (eligible_thread_ids s))")
          (auto intro: assigned)
    qed
  qed
qed

subsection \<open>Splitting a job, replacing a job\<close>

lemma job_split:
  assumes "assign_job_to_threads ext w mode src t s = Some s'" and "jt_merkle_root t = Computed m"
    and "sched_inv s" and "range_inv (mt_extranonce_range m)" and "eligible_thread_ids s \<noteq> []"
  shows "\<exists>slices outs. length slices = length (eligible_thread_ids s) \<and>
    concat (map range_extranonces slices) = range_extranonces (mt_extranonce_range m) \<and>
    sc_outputs s' = sc_outputs s @ outs \<and>
    list_all2 (\<lambda>(th, r) out. \<exists>task. out = ToThread th (mode_request mode task) \<and> task_for ext t r task)
      (zip (eligible_thread_ids s) slices) outs"
  using assms(1-3)
proof (cases rule: assign_job_outline)
  case idle
  then show ?thesis using assms(5) by simp
next
  case (assigned u slices)
  from assign_slices_outputs [OF assigned(4)] obtain outs where
    "sc_outputs s' = sc_outputs u @ outs"
    "list_all2 (\<lambda>(th, r) out. \<exists>task. out = ToThread th (mode_request mode task) \<and> task_for ext t r task)
      (zip (eligible_thread_ids s) slices) outs"
    by blast
  moreover have "length slices = length (eligible_thread_ids s)" by (rule split_range_Some(1) [OF assms(4) assigned(3)])
  moreover have "concat (map range_extranonces slices) = range_extranonces (mt_extranonce_range m)"
    by (rule split_range_extranonces [OF assms(4) assigned(3)])
  ultimately show ?thesis using assigned(1) by (auto simp: before_slices_def)
qed

lemma distinct_concat_apart:
  assumes "distinct (concat xss)" "i < length xss" "j < length xss" "i \<noteq> j"
  shows "set (xss ! i) \<inter> set (xss ! j) = {}"
  using assms
proof (induction xss arbitrary: i j)
  case (Cons xs xss)
  have "set xs \<inter> set (xss ! k) = {}" if "k < length xss" for k
    using Cons.prems(1) nth_mem [OF that] by fastforce
  then show ?case using Cons by (cases i; cases j) (auto simp: Int_commute)
qed simp

text \<open>
  The tasks of one assignment search different headers: different threads get extranonces of disjoint
  slices, and those have different merkle roots unless a hash of one of the template's extranonces collides.
\<close>

lemma assigned_roots_differ:
  assumes job: "assign_job_to_threads ext w mode src t s = Some s'" "jt_merkle_root t = Computed m"
    "sched_inv s" "range_inv (mt_extranonce_range m)" "eligible_thread_ids s \<noteq> []"
    and wf: "\<forall>e\<in>set (range_extranonces (mt_extranonce_range m)). wf_Extranonce e"
    and txid: "inj_on (x_coinbase_txid btc) (coinbase_bytes m ` set (range_extranonces (mt_extranonce_range m)))"
    and sha: "inj_on (x_sha256d btc) (\<Union>e\<in>set (range_extranonces (mt_extranonce_range m)). merkle_inputs btc m e)"
  shows "\<exists>outs. sc_outputs s' = sc_outputs s @ outs \<and> length outs = length (eligible_thread_ids s) \<and>
    (\<forall>th th' task task' r r'. ToThread th (mode_request mode task) \<in> set outs \<longrightarrow>
       ToThread th' (mode_request mode task') \<in> set outs \<longrightarrow> th \<noteq> th' \<longrightarrow>
       ht_extranonce_range task = Some r \<longrightarrow> ht_extranonce_range task' = Some r' \<longrightarrow>
       (\<forall>e\<in>set (range_extranonces r). \<forall>f\<in>set (range_extranonces r'). \<forall>root.
          compute_merkle_root btc t e = Inr root \<longrightarrow> compute_merkle_root btc t f \<noteq> Inr root))"
proof -
  let ?el = "eligible_thread_ids s" and ?all = "range_extranonces (mt_extranonce_range m)"
  obtain slices outs where len: "length slices = length ?el" and cat: "concat (map range_extranonces slices) = ?all"
    and outs: "sc_outputs s' = sc_outputs s @ outs"
    and each: "list_all2 (\<lambda>(th, r) out. \<exists>task. out = ToThread th (mode_request mode task) \<and> task_for ext t r task)
      (zip ?el slices) outs"
    using job_split [OF job] by blast
  have n: "length outs = length ?el" using list_all2_lengthD [OF each] len by simp
  have slot: "\<exists>i<length slices. th = ?el ! i \<and> slices ! i = r"
    if member: "ToThread th (mode_request mode task) \<in> set outs" and r: "ht_extranonce_range task = Some r" for th task r
  proof -
    obtain i where i: "i < length outs" "outs ! i = ToThread th (mode_request mode task)"
      using member unfolding in_set_conv_nth by blast
    then have "\<exists>task'. outs ! i = ToThread (?el ! i) (mode_request mode task') \<and> task_for ext t (slices ! i) task'"
      using list_all2_nthD2 [OF each i(1)] n len by simp
    then have "th = ?el ! i \<and> ht_extranonce_range task = Some (slices ! i)"
      using i(2) by (cases mode) (auto simp: task_for_def)
    then show ?thesis using i(1) n len r by (intro exI [of _ i]) simp
  qed
  have apart: "set (range_extranonces (slices ! i)) \<inter> set (range_extranonces (slices ! j)) = {}"
    if "i < length slices" "j < length slices" "i \<noteq> j" for i j
    using distinct_concat_apart [of "map range_extranonces slices" i j] that distinct_range_extranonces by (simp add: cat)
  have sub: "set (range_extranonces (slices ! i)) \<subseteq> set ?all" if "i < length slices" for i
    unfolding cat [symmetric] using that by (auto intro: nth_mem)
  have differ: "compute_merkle_root btc t f \<noteq> Inr root"
    if "e \<in> set ?all" "f \<in> set ?all" "e \<noteq> f" "compute_merkle_root btc t e = Inr root" for e f root
  proof
    assume "compute_merkle_root btc t f = Inr root"
    then have "Template_compute_merkle_root btc m e = Inr root" "Template_compute_merkle_root btc m f = Inr root"
      using that(4) job(2) by (simp_all add: compute_merkle_root_def)
    moreover have "inj_on (x_coinbase_txid btc) {coinbase_bytes m e, coinbase_bytes m f}"
      by (rule inj_on_subset [OF txid]) (use that in auto)
    moreover have "inj_on (x_sha256d btc) (merkle_inputs btc m e \<union> merkle_inputs btc m f)"
      by (rule inj_on_subset [OF sha]) (use that in auto)
    ultimately have "e = f" using merkle_root_inject wf that(1,2) by blast
    then show False using that(3) by simp
  qed
  show ?thesis
  proof (intro exI [of _ outs] conjI allI impI ballI)
    fix th th' task task' r r' e f root
    assume a: "ToThread th (mode_request mode task) \<in> set outs" "ToThread th' (mode_request mode task') \<in> set outs"
      "th \<noteq> th'" "ht_extranonce_range task = Some r" "ht_extranonce_range task' = Some r'"
      "e \<in> set (range_extranonces r)" "f \<in> set (range_extranonces r')" "compute_merkle_root btc t e = Inr root"
    obtain i j where ij: "i < length slices" "j < length slices" "i \<noteq> j" "slices ! i = r" "slices ! j = r'"
      using slot [OF a(1,4)] slot [OF a(2,5)] a(3) by blast
    then have "e \<noteq> f" "e \<in> set ?all" "f \<in> set ?all" using apart [of i j] sub [of i] sub [of j] a(6,7) by auto
    then show "compute_merkle_root btc t f \<noteq> Inr root" using differ a(8) by blast
  qed (use outs n in simp_all)
qed

text \<open>After a replacement all tasks of the source are of the new template; those of other sources stay.\<close>

lemma replace_job_tasks:
  assumes "assign_job_to_threads ext w Replace src t s = Some s'" and "jt_merkle_root t = Computed m"
    and "sched_inv s"
  shows "(k, e) \<in> set (sc_tasks s') \<Longrightarrow> tk_source_id e = src \<Longrightarrow> tk_template e = t"
    and "tk_source_id e \<noteq> src \<Longrightarrow> (k, e) \<in> set (sc_tasks s') \<longleftrightarrow> (k, e) \<in> set (sc_tasks s)"
proof -
  have "((k, e) \<in> set (sc_tasks s') \<longrightarrow> tk_source_id e = src \<longrightarrow> tk_template e = t) \<and>
    (tk_source_id e \<noteq> src \<longrightarrow> ((k, e) \<in> set (sc_tasks s') \<longleftrightarrow> (k, e) \<in> set (sc_tasks s)))"
    using assms
  proof (cases rule: assign_job_outline)
    case idle
    then show ?thesis by (auto simp: before_slices_def)
  next
    case (assigned u slices)
    from assign_slices_tasks [OF assigned(4)] assigned(1) show ?thesis
      by (auto simp: before_slices_def)
  qed
  then show "(k, e) \<in> set (sc_tasks s') \<Longrightarrow> tk_source_id e = src \<Longrightarrow> tk_template e = t"
    and "tk_source_id e \<noteq> src \<Longrightarrow> (k, e) \<in> set (sc_tasks s') \<longleftrightarrow> (k, e) \<in> set (sc_tasks s)"
    by blast+
qed

text \<open>The difficulty check panics: it is made for a registered source once there are threads.\<close>

definition difficulty_panics :: "externals \<Rightarrow> SourceId \<Rightarrow> JobTemplate \<Rightarrow> scheduler \<Rightarrow> bool" where
  "difficulty_panics ext src t s \<longleftrightarrow> sc_threads s \<noteq> [] \<and> slot_get src (sc_sources s) \<noteq> None \<and>
     is_difficulty_too_high (xe_difficulty_float ext) (jt_share_target t) (expected_hashrate s) = None"

text \<open>With decoders that decode, only the difficulty check and the split can panic.\<close>

lemma assign_job_None_iff:
  assumes dec: "decodes (xe_decode ext)" and m: "jt_merkle_root t = Computed m"
  shows "assign_job_to_threads ext w mode src t s = None \<longleftrightarrow>
    difficulty_panics ext src t s \<or> range_len (mt_extranonce_range m) < length (eligible_thread_ids s)"
proof -
  define s1 where "s1 = s\<lparr>sc_sources := slot_update src (cache_job t) (sc_sources s)\<rparr>"
  have len: "0 < range_len (mt_extranonce_range m)" by (simp add: range_len_def)
  show ?thesis
  proof (cases "sc_threads s1 = []")
    case True
    then show ?thesis
      using m by (simp add: assign_job_to_threads_def s1_def eligible_thread_ids_def Let_def difficulty_panics_def)
  next
    case False
    have "expected_hashrate s1 = expected_hashrate s" by (simp add: expected_hashrate_def s1_def)
    then have warn: "difficulty_warning ext (sw_now w) src t s1 = None \<longleftrightarrow> difficulty_panics ext src t s"
      using False by (auto simp: difficulty_warning_def Let_def difficulty_panics_def s1_def slot_get_update split: option.splits)
    show ?thesis
    proof (cases "difficulty_panics ext src t s")
      case True
      then have "assign_job_to_threads ext w mode src t s = None"
        using m False warn by (simp add: assign_job_to_threads_def s1_def [symmetric] Let_def)
      then show ?thesis using True by simp
    next
      case calm: False
      then obtain s2 where s2: "difficulty_warning ext (sw_now w) src t s1 = Some s2" using warn by blast
      define s3 where "s3 = (if mode = Replace then remove_tasks_where (\<lambda>e. tk_source_id e = src) s2 else s2)"
      have th: "sc_threads s3 = sc_threads s"
        using difficulty_warning_inv(3) [OF s2] by (simp add: s3_def s1_def)
      then have el: "eligible_thread_ids s3 = eligible_thread_ids s" by (rule eligible_cong)
      have eq: "assign_job_to_threads ext w mode src t s =
        (if eligible_thread_ids s = [] then Some s3
         else case split_range (mt_extranonce_range m) (length (eligible_thread_ids s)) of
           None \<Rightarrow> None
         | Some slices \<Rightarrow> assign_slices ext w mode src t 0 (zip (eligible_thread_ids s) slices) s3)"
        using m False s2 unfolding el [symmetric] s3_def
        by (simp add: assign_job_to_threads_def s1_def [symmetric] Let_def)
      have "assign_job_to_threads ext w mode src t s = None \<longleftrightarrow>
          range_len (mt_extranonce_range m) < length (eligible_thread_ids s)"
      proof (cases "split_range (mt_extranonce_range m) (length (eligible_thread_ids s))")
        case None
        then show ?thesis
          using len split_range_None_iff [of "mt_extranonce_range m" "length (eligible_thread_ids s)"]
          unfolding eq by (cases "eligible_thread_ids s = []") simp_all
      next
        case (Some slices)
        have "set (map fst (zip (eligible_thread_ids s) slices)) \<subseteq> set (slot_keys (sc_threads s3))"
          unfolding th using set_zip_fst eligible_in_threads by (rule subset_trans)
        from assign_slices_total [OF dec this] have
          "assign_slices ext w mode src t 0 (zip (eligible_thread_ids s) slices) s3 \<noteq> None" by fastforce
        moreover have "\<not> range_len (mt_extranonce_range m) < length (eligible_thread_ids s)"
          using Some split_range_None_iff [of "mt_extranonce_range m" "length (eligible_thread_ids s)"] by force
        ultimately show ?thesis using Some unfolding eq by auto
      qed
      then show ?thesis using calm by simp
    qed
  qed
qed

lemma handle_clear_jobs_tasks:
  assumes "sched_inv s"
  shows "sc_tasks (handle_clear_jobs src s) = filter (\<lambda>(_, e). tk_source_id e \<noteq> src) (sc_tasks s)"
  using assms unfolding handle_clear_jobs_def Let_def
  by (subst remove_tasks_where_tasks) (simp_all add: sched_inv_def)

subsection \<open>The startup gate\<close>

datatype gate_event = Registered | Reported | EnumerationComplete | Timeout

fun gate_step :: "gate_event \<Rightarrow> StartupGate \<Rightarrow> StartupGate" where
  "gate_step Registered g = record_registered g"
| "gate_step Reported g = record_reported g"
| "gate_step EnumerationComplete g = record_enumeration_complete g"
| "gate_step Timeout g = record_timeout g"

text \<open>When the gate should open: at a timeout, or at a report or the end of the enumeration once the
  enumeration is complete and no registered thread is missing.\<close>

definition gate_opens :: "gate_event list \<Rightarrow> gate_event \<Rightarrow> bool" where
  "gate_opens past e \<longleftrightarrow>
     e = Timeout \<or>
     e \<noteq> Registered \<and> EnumerationComplete \<in> set (past @ [e]) \<and>
     length (filter (\<lambda>x. x = Registered) (past @ [e])) \<le> length (filter (\<lambda>x. x = Reported) (past @ [e]))"

definition gate_should_hold :: "gate_event list \<Rightarrow> bool" where
  "gate_should_hold es \<longleftrightarrow> (\<forall>n < length es. \<not> gate_opens (take n es) (es ! n))"

lemma gate_should_hold_snoc: "gate_should_hold (es @ [e]) \<longleftrightarrow> gate_should_hold es \<and> \<not> gate_opens es e"
  by (auto simp: gate_should_hold_def nth_append less_Suc_eq)

lemma gate_run_spec:
  "(if gate_should_hold es
    then fold gate_step es StartupGate_new =
      \<lparr>sg_registered = length (filter (\<lambda>x. x = Registered) es), sg_reported = length (filter (\<lambda>x. x = Reported) es),
       sg_enumeration_complete = (EnumerationComplete \<in> set es), sg_open = False\<rparr>
    else sg_open (fold gate_step es StartupGate_new))"
proof (induction es rule: rev_induct)
  case Nil
  then show ?case by (simp add: gate_should_hold_def StartupGate_new_def)
next
  case (snoc e es)
  show ?case
  proof (cases "gate_should_hold es")
    case True
    then show ?thesis
      using snoc
      by (cases e)
        (auto simp: gate_should_hold_snoc gate_opens_def record_registered_def record_reported_def
          record_enumeration_complete_def record_timeout_def try_open_def)
  next
    case False
    then show ?thesis
      using snoc
      by (cases e)
        (auto simp: gate_should_hold_snoc record_registered_def record_reported_def
          record_enumeration_complete_def record_timeout_def)
  qed
qed

lemma gate_run_holding: "is_holding (fold gate_step es StartupGate_new) \<longleftrightarrow> gate_should_hold es"
  using gate_run_spec [of es] by (auto simp: is_holding_def split: if_splits)

subsection \<open>Shares\<close>

text \<open>A share reaches exactly the source of its task, under the task's job, and only if it meets the
  source's own target.\<close>

lemma handle_share_outputs:
  assumes "slot_get i (sc_tasks s) = Some e"
  shows "sc_outputs (handle_share ext now i share s) = sc_outputs s @
    (if x_is_met_by (xe_bitcoin ext) (jt_share_target (tk_template e)) (sh_hash share) \<and>
        tk_source_id e \<in> set (slot_keys (sc_sources s))
     then [ToSource (tk_source_id e) (SubmitShare (SourceShare_from share (jt_id (tk_template e))))] else [])"
  using assms slot_get_None_iff [of "tk_source_id e" "sc_sources s"]
  by (auto simp: handle_share_def emit_def Let_def split: option.splits)

lemma handle_share_unknown: "slot_get i (sc_tasks s) = None \<Longrightarrow> handle_share ext now i share s = s"
  by (simp add: handle_share_def)

subsection \<open>A disconnection that is missed\<close>

text \<open>
  A registration in the iteration that drops an ended event stream resets the count the
  disconnection check compares with: the dead thread stays in the table, and the check sees
  nothing wrong.
\<close>

lemma dead_thread_kept:
  assumes "th \<in> set (slot_keys (sc_threads s))" and "th \<in> set (es_threads es)" and "snd slot \<noteq> th"
    and "sched_iteration ext w es (MsgNewThread slot name) s = Some s'"
  shows "th \<in> set (slot_keys (sc_threads s'))" and "th \<notin> set (sc_thread_events s')"
    and "handle_thread_disconnections s' = s'"
proof -
  obtain pos k where k: "slot = (pos, k)" by (cases slot)
  have s': "s' = handle_new_thread slot name (drop_ended es s)"
    using assms(4)
    by (auto simp: sched_iteration_def handle_msg_def handle_thread_disconnections_def handle_new_thread_def emit_def Let_def)
  have "set (slot_keys (sc_threads s')) = insert k (set (slot_keys (sc_threads s)))"
    by (simp add: s' k handle_new_thread_def drop_ended_def emit_def Let_def set_slot_insert)
  then show "th \<in> set (slot_keys (sc_threads s'))" using assms(1) by blast
  show "th \<notin> set (sc_thread_events s')"
    using assms(2,3) by (simp add: s' handle_new_thread_def drop_ended_def emit_def Let_def)
  show "handle_thread_disconnections s' = s'"
    by (simp add: s' handle_thread_disconnections_def handle_new_thread_def emit_def Let_def)
qed

subsection \<open>Reachable states\<close>

inductive sched_reach :: "externals \<Rightarrow> scheduler \<Rightarrow> bool" for ext where
  sched_start: "sched_reach ext Scheduler_new"
| sched_step: "sched_reach ext s \<Longrightarrow> fresh_msg w msg (drop_ended es s) \<Longrightarrow>
    msg_enabled (sw_now w) msg (drop_ended es s) \<Longrightarrow> sched_iteration ext w es msg s = Some s' \<Longrightarrow> sched_reach ext s'"

lemma sched_reach_inv: "sched_reach ext s \<Longrightarrow> sched_inv s"
  by (induction rule: sched_reach.induct) (auto intro: sched_inv_new sched_iteration_inv)

end
