(* ===== verification/Control_Protocol.thy ===== *)
theory Control_Protocol
  imports Prelude Floats
begin

text \<open>
  The control protocol of the bitaxe-raw firmware, \<open>mgmt_protocol/bitaxe_raw\<close>: request packets,
  the two response formats, the codec, the channel that numbers requests and matches replies,
  and the I2C, GPIO and system operations on it. The world of a channel says which sends fail
  and what arrives before each request's deadline; a slice out of bounds is \<open>None\<close>. The text of a
  custom error is kept as its bytes.
\<close>

subsection \<open>Packets\<close>

definition u16_to_le :: "u16 \<Rightarrow> bytes" where
  "u16_to_le w = rev (u16_to_be w)"

definition u16_from_le :: "u8 \<Rightarrow> u8 \<Rightarrow> u16" where
  "u16_from_le a b = u16_from_be b a"

datatype Page = I2C | GPIO | ADC | LED | System

fun Page_repr :: "Page \<Rightarrow> u8" where
  "Page_repr I2C = 0x05"
| "Page_repr GPIO = 0x06"
| "Page_repr ADC = 0x07"
| "Page_repr LED = 0x08"
| "Page_repr System = 0x09"

datatype I2CCommand = SetFrequency | Write | Read | WriteRead

fun I2CCommand_repr :: "I2CCommand \<Rightarrow> u8" where
  "I2CCommand_repr SetFrequency = 0x10"
| "I2CCommand_repr Write = 0x20"
| "I2CCommand_repr Read = 0x30"
| "I2CCommand_repr WriteRead = 0x40"

datatype ErrorCode = TimeoutCode | InvalidCommand | BufferOverflow | Custom

fun ErrorCode_repr :: "ErrorCode \<Rightarrow> u8" where
  "ErrorCode_repr TimeoutCode = 0x10"
| "ErrorCode_repr InvalidCommand = 0x11"
| "ErrorCode_repr BufferOverflow = 0x12"
| "ErrorCode_repr Custom = 0xff"

definition ErrorCode_try_from :: "u8 \<Rightarrow> u8 + ErrorCode" where
  "ErrorCode_try_from value =
     (if value = ErrorCode_repr TimeoutCode then Inr TimeoutCode
      else if value = ErrorCode_repr InvalidCommand then Inr InvalidCommand
      else if value = ErrorCode_repr BufferOverflow then Inr BufferOverflow
      else if value = ErrorCode_repr Custom then Inr Custom
      else Inl value)"

record Packet =
  pk_id :: u8
  pk_bus :: u8
  pk_page :: Page
  pk_command :: u8
  pk_data :: bytes

definition Packet_new :: "Page \<Rightarrow> u8 \<Rightarrow> bytes \<Rightarrow> Packet" where
  "Packet_new page command data =
     \<lparr>pk_id = 0, pk_bus = 0x00, pk_page = page, pk_command = command, pk_data = data\<rparr>"

definition Packet_encode :: "Packet \<Rightarrow> bytes" where
  "Packet_encode p =
     u16_to_le (of_nat (6 + length (pk_data p))) @
     [pk_id p, pk_bus p, Page_repr (pk_page p), pk_command p] @ pk_data p"

subsection \<open>Responses\<close>

datatype ResponseFormat = V0 | V1

record ResponseError =
  re_code :: ErrorCode
  re_message :: "bytes option"

record ControlResponse =
  cr_id :: u8
  cr_data :: bytes
  cr_error :: "ResponseError option"

datatype control_error =
  ResponseTooShort
| UnknownErrorCode u8
| PacketTooLarge nat
| IdMismatch u8 u8
| StreamClosed
| CommandTimeout
| DeviceError ResponseError
| SendFailed

definition parse_v0 :: "bytes \<Rightarrow> control_error + ControlResponse" where
  "parse_v0 bytes =
     (if bytes = [] then Inl ResponseTooShort
      else Inr \<lparr>cr_id = bytes ! 0, cr_data = drop 1 bytes, cr_error = None\<rparr>)"

definition STATUS_OK :: u8 where
  "STATUS_OK = 0x00"

definition parse_v1 :: "bytes \<Rightarrow> control_error + ControlResponse" where
  "parse_v1 bytes =
     (if length bytes < 2 then Inl ResponseTooShort
      else
        (let id = bytes ! 0; status = bytes ! 1; payload = drop 2 bytes
         in if status = STATUS_OK then Inr \<lparr>cr_id = id, cr_data = payload, cr_error = None\<rparr>
            else case ErrorCode_try_from status of
              Inl unknown \<Rightarrow> Inl (UnknownErrorCode unknown)
            | Inr code \<Rightarrow>
                Inr \<lparr>cr_id = id, cr_data = [],
                     cr_error = Some \<lparr>re_code = code,
                       re_message = (if code = Custom \<and> payload \<noteq> [] then Some payload else None)\<rparr>\<rparr>))"

subsection \<open>The codec\<close>

definition MAX_LENGTH :: nat where
  "MAX_LENGTH = 4096"

definition packet_size :: "ResponseFormat \<Rightarrow> u16 \<Rightarrow> nat" where
  "packet_size format length_field =
     (case format of V0 \<Rightarrow> 2 + 1 + unat length_field | V1 \<Rightarrow> unat length_field)"

definition control_decode ::
    "ResponseFormat \<Rightarrow> bytes \<Rightarrow> ((control_error + ControlResponse option) \<times> bytes) option" where
  "control_decode format src =
     (if length src < 2 then Some (Inr None, src)
      else
        (let total = packet_size format (u16_from_le (src ! 0) (src ! 1))
         in if total > MAX_LENGTH then Some (Inl (PacketTooLarge total), src)
            else if length src < total then Some (Inr None, src)
            else
              (let packet_data = take total src; rest = drop total src
               in if length packet_data < 2 then None
                  else
                    (let response_data = drop 2 packet_data
                     in case (case format of V0 \<Rightarrow> parse_v0 response_data | V1 \<Rightarrow> parse_v1 response_data) of
                          Inl e \<Rightarrow> Some (Inl e, rest)
                        | Inr response \<Rightarrow> Some (Inr (Some response), rest)))))"

definition control_encode :: "Packet \<Rightarrow> bytes \<Rightarrow> control_error + bytes" where
  "control_encode item dst =
     (let encoded = Packet_encode item
      in if length encoded > MAX_LENGTH then Inl (PacketTooLarge (length encoded))
         else Inr (dst @ encoded))"

subsection \<open>The channel\<close>

text \<open>
  The channel's state: the next id, the packets sent, and the responses decoded but not yet
  consumed. \<open>cw_arrives n\<close> are the results the reader yields between the send of request \<open>n\<close> and its
  deadline; \<open>cw_closed n\<close> says the stream ends in that time.
\<close>

record control_world =
  cw_send_ok :: "nat \<Rightarrow> bool"
  cw_arrives :: "nat \<Rightarrow> (control_error + ControlResponse) list"
  cw_closed :: "nat \<Rightarrow> bool"

record channel_state =
  cc_next_id :: u8
  cc_sent :: "Packet list"
  cc_queue :: "(control_error + ControlResponse) list"

definition channel_new :: channel_state where
  "channel_new = \<lparr>cc_next_id = 0, cc_sent = [], cc_queue = []\<rparr>"

definition channel_write :: "control_world \<Rightarrow> Packet \<Rightarrow> channel_state \<Rightarrow> (control_error + unit) \<times> channel_state" where
  "channel_write env packet s =
     (case control_encode packet [] of
        Inl e \<Rightarrow> (Inl e, s)
      | Inr _ \<Rightarrow>
          (let s' = s\<lparr>cc_sent := cc_sent s @ [packet]\<rparr>
           in if cw_send_ok env (length (cc_sent s)) then (Inr (), s') else (Inl SendFailed, s')))"

definition assign_id :: "Packet \<Rightarrow> channel_state \<Rightarrow> Packet \<times> channel_state" where
  "assign_id packet s = (packet\<lparr>pk_id := cc_next_id s\<rparr>, s\<lparr>cc_next_id := cc_next_id s + 1\<rparr>)"

definition await_response ::
    "control_world \<Rightarrow> nat \<Rightarrow> u8 \<Rightarrow> channel_state \<Rightarrow> (control_error + ControlResponse) \<times> channel_state" where
  "await_response env n expected_id s =
     (case cc_queue s @ cw_arrives env n of
        [] \<Rightarrow> (Inl (if cw_closed env n then StreamClosed else CommandTimeout), s\<lparr>cc_queue := []\<rparr>)
      | r # rest \<Rightarrow>
          (case r of
             Inl e \<Rightarrow> Inl e
           | Inr resp \<Rightarrow> if cr_id resp \<noteq> expected_id then Inl (IdMismatch expected_id (cr_id resp)) else Inr resp,
           s\<lparr>cc_queue := rest\<rparr>))"

definition send_packet ::
    "control_world \<Rightarrow> Packet \<Rightarrow> channel_state \<Rightarrow> (control_error + ControlResponse) \<times> channel_state" where
  "send_packet env packet s =
     (let (packet, s) = assign_id packet s; expected_id = pk_id packet
      in case channel_write env packet s of
           (Inl e, s) \<Rightarrow> (Inl e, s)
         | (Inr _, s) \<Rightarrow>
             (case await_response env (length (cc_sent s) - 1) expected_id s of
                (Inl e, s) \<Rightarrow> (Inl e, s)
              | (Inr response, s) \<Rightarrow>
                  (case cr_error response of
                     Some e \<Rightarrow> (Inl (DeviceError e), s)
                   | None \<Rightarrow> (Inr response, s))))"

definition send_packet_no_reply ::
    "control_world \<Rightarrow> Packet \<Rightarrow> channel_state \<Rightarrow> (control_error + unit) \<times> channel_state" where
  "send_packet_no_reply env packet s = (let (packet, s) = assign_id packet s in channel_write env packet s)"

subsection \<open>Operations\<close>

datatype hw_error = ChannelFailed control_error | WrongLength nat nat

definition with_response ::
    "(ControlResponse \<Rightarrow> hw_error + 'a) \<Rightarrow> (control_error + ControlResponse) \<times> channel_state \<Rightarrow>
       (hw_error + 'a) \<times> channel_state" where
  "with_response f r =
     (case r of (Inl e, s) \<Rightarrow> (Inl (ChannelFailed e), s) | (Inr response, s) \<Rightarrow> (f response, s))"

definition i2c_write :: "control_world \<Rightarrow> u8 \<Rightarrow> bytes \<Rightarrow> channel_state \<Rightarrow> (hw_error + unit) \<times> channel_state" where
  "i2c_write env addr data s =
     with_response (\<lambda>_. Inr ()) (send_packet env (Packet_new I2C (I2CCommand_repr Write) ([addr] @ data)) s)"

definition exact_length :: "nat \<Rightarrow> ControlResponse \<Rightarrow> hw_error + bytes" where
  "exact_length n response =
     (if length (cr_data response) \<noteq> n then Inl (WrongLength n (length (cr_data response)))
      else Inr (cr_data response))"

definition i2c_read :: "control_world \<Rightarrow> u8 \<Rightarrow> nat \<Rightarrow> channel_state \<Rightarrow> (hw_error + bytes) \<times> channel_state" where
  "i2c_read env addr n s =
     with_response (exact_length n)
       (send_packet env (Packet_new I2C (I2CCommand_repr Read) [addr, of_nat n]) s)"

definition i2c_write_read ::
    "control_world \<Rightarrow> u8 \<Rightarrow> bytes \<Rightarrow> nat \<Rightarrow> channel_state \<Rightarrow> (hw_error + bytes) \<times> channel_state" where
  "i2c_write_read env addr data n s =
     with_response (exact_length n)
       (send_packet env (Packet_new I2C (I2CCommand_repr WriteRead) ([addr] @ data @ [of_nat n])) s)"

definition i2c_set_frequency :: "control_world \<Rightarrow> u32 \<Rightarrow> channel_state \<Rightarrow> (hw_error + unit) \<times> channel_state" where
  "i2c_set_frequency env hz s =
     with_response (\<lambda>_. Inr ()) (send_packet env (Packet_new I2C (I2CCommand_repr SetFrequency) (u32_to_le hz)) s)"

text \<open>A pin is its number; its value is high or low.\<close>

definition gpio_write :: "control_world \<Rightarrow> u8 \<Rightarrow> bool \<Rightarrow> channel_state \<Rightarrow> (hw_error + unit) \<times> channel_state" where
  "gpio_write env number high s =
     with_response (\<lambda>_. Inr ()) (send_packet env (Packet_new GPIO number [if high then 0x01 else 0x00]) s)"

definition gpio_read :: "control_world \<Rightarrow> u8 \<Rightarrow> channel_state \<Rightarrow> (hw_error + bool) \<times> channel_state" where
  "gpio_read env number s =
     with_response
       (\<lambda>response. if length (cr_data response) \<noteq> 1 then Inl (WrongLength 1 (length (cr_data response)))
                   else Inr (cr_data response ! 0 \<noteq> 0))
       (send_packet env (Packet_new GPIO number []) s)"

definition reboot :: "control_world \<Rightarrow> channel_state \<Rightarrow> (control_error + unit) \<times> channel_state" where
  "reboot env = send_packet_no_reply env (Packet_new System 0x01 [0xDE, 0xAD, 0xBE, 0xEF])"

definition reboot_to_bootloader :: "control_world \<Rightarrow> channel_state \<Rightarrow> (control_error + unit) \<times> channel_state" where
  "reboot_to_bootloader env = send_packet_no_reply env (Packet_new System 0x02 [0xB0, 0x07, 0x10, 0xAD])"

subsection \<open>The light\<close>

record RgbColor =
  rc_r :: u8
  rc_g :: u8
  rc_b :: u8

definition scale :: "u8 \<Rightarrow> rat \<Rightarrow> u8" where
  "scale value brightness =
     of_int (saturate 0 255 (round_away (f32 (of_nat (unat value) * brightness))))"

definition led_set :: "control_world \<Rightarrow> RgbColor \<Rightarrow> rat \<Rightarrow> channel_state \<Rightarrow> (hw_error + unit) \<times> channel_state" where
  "led_set env color brightness s =
     (let brightness = max 0 (min 1 brightness)
      in with_response (\<lambda>_. Inr ())
           (send_packet env
             (Packet_new LED 0x10
               [scale (rc_r color) brightness, scale (rc_g color) brightness, scale (rc_b color) brightness]) s))"

lemma f32_scaled_bounds:
  assumes "0 \<le> b" and "b \<le> 1" and "n < 256"
  shows "0 \<le> round_away (f32 (of_nat n * b))" and "round_away (f32 (of_nat n * b)) \<le> int n"
proof -
  have x: "0 \<le> of_nat n * b" "of_nat n * b \<le> of_nat n" using assms by (simp_all add: mult_left_le)
  have "f32 (of_nat n * b) \<le> f32 (of_nat n)" using fl_mono [OF x] by simp
  also have "\<dots> = of_int (int n)" using fl_of_int [of "int n" 24] assms(3) by (cases "n = 0") auto
  finally show "round_away (f32 (of_nat n * b)) \<le> int n" by (rule round_away_bounds)
  show "0 \<le> round_away (f32 (of_nat n * b))" using fl_nonneg [OF x(1), of 24] by (intro round_away_bounds) simp
qed

lemma uint_saturated_u8: "0 \<le> r \<Longrightarrow> r < 256 \<Longrightarrow> uint (of_int (saturate 0 255 r) :: u8) = r"
  by (simp add: saturate_id uint_word_of_int)

lemma scale_le:
  assumes "0 \<le> b" and "b \<le> 1"
  shows "scale v b \<le> v"
proof -
  obtain n r where n: "n = unat v" and r: "r = round_away (f32 (of_nat n * b))" by blast
  have lt: "n < 256" unfolding n by (rule unsigned_less [where 'b = 8 and 'a = nat, simplified])
  have le: "0 \<le> r" "r \<le> int n" unfolding r by (rule f32_scaled_bounds [OF assms lt])+
  then have "uint (scale v b) = r"
    unfolding scale_def n [symmetric] r [symmetric] using lt by (intro uint_saturated_u8) auto
  moreover have "int n = uint v" unfolding n by simp
  ultimately show ?thesis using le unfolding word_le_def by simp
qed

subsection \<open>Device versions\<close>

record DeviceVersion =
  dv_hardware :: u8
  dv_firmware_minor :: u8
  dv_firmware_patch :: u8

definition from_bcd :: "u16 \<Rightarrow> DeviceVersion" where
  "from_bcd bcd =
     \<lparr>dv_hardware = ucast (drop_bit 8 bcd), dv_firmware_minor = ucast (drop_bit 4 bcd AND 0x0F),
      dv_firmware_patch = ucast (bcd AND 0x0F)\<rparr>"

subsection \<open>Framing\<close>

lemma u16_from_le_to_le:
  assumes "u16_to_le w = [a, b]"
  shows "u16_from_le a b = w"
proof -
  have "a = ucast w" "b = ucast (drop_bit 8 w)" using assms by (simp_all add: u16_to_le_def u16_to_be_def)
  then show ?thesis
    by (auto simp: u16_from_le_def u16_from_be_def bit_simps bit_positions intro!: word16_eqI)
qed

lemma u16_to_le_list: "\<exists>a b. u16_to_le w = [a, b] \<and> u16_from_le a b = w"
proof -
  have "u16_to_le w = [ucast w, ucast (drop_bit 8 w)]" by (simp add: u16_to_le_def u16_to_be_def)
  with u16_from_le_to_le [OF this] show ?thesis by blast
qed

lemma length_u16_to_le [simp]: "length (u16_to_le w) = 2"
  by (simp add: u16_to_le_def)

lemma u16_to_le_inject: "u16_to_le v = u16_to_le w \<longleftrightarrow> v = w"
proof
  assume eq: "u16_to_le v = u16_to_le w"
  from u16_to_le_list [of v] obtain a b where v: "u16_to_le v = [a, b]" "u16_from_le a b = v" by blast
  from u16_from_le_to_le [of w a b] v(1) eq have "u16_from_le a b = w" by simp
  with v(2) show "v = w" by simp
qed simp

lemma length_Packet_encode: "length (Packet_encode p) = 6 + length (pk_data p)"
  by (simp add: Packet_encode_def)

definition fits :: "Packet \<Rightarrow> bool" where
  "fits p \<longleftrightarrow> length (pk_data p) \<le> 4090"

lemma control_encode_Inr_iff: "control_encode p dst = Inr out \<longleftrightarrow> fits p \<and> out = dst @ Packet_encode p"
  by (auto simp: control_encode_def Let_def length_Packet_encode MAX_LENGTH_def fits_def)

lemma Page_repr_inject: "Page_repr p = Page_repr q \<longleftrightarrow> p = q"
  by (cases p; cases q) simp_all

text \<open>The length prefix is the packet's length, so packets on the wire delimit themselves.\<close>

lemma Packet_encode_prefix_free:
  assumes "fits p" and "fits q" and eq: "Packet_encode p @ xs = Packet_encode q @ ys"
  shows "p = q \<and> xs = ys"
proof -
  have "u16_to_le (of_nat (6 + length (pk_data p))) = u16_to_le (of_nat (6 + length (pk_data q)))"
    using eq by (simp add: Packet_encode_def)
  then have "(of_nat (6 + length (pk_data p)) :: u16) = of_nat (6 + length (pk_data q))"
    by (simp only: u16_to_le_inject)
  then have "unat (of_nat (6 + length (pk_data p)) :: u16) = unat (of_nat (6 + length (pk_data q)) :: u16)"
    by (rule arg_cong)
  then have len: "length (pk_data p) = length (pk_data q)"
    using assms(1,2) by (simp add: fits_def unat_of_nat del: of_nat_add)
  then have "[pk_id p, pk_bus p, Page_repr (pk_page p), pk_command p] @ pk_data p @ xs =
      [pk_id q, pk_bus q, Page_repr (pk_page q), pk_command q] @ pk_data q @ ys"
    using eq unfolding Packet_encode_def append_assoc by (simp only: same_append_eq)
  then have "pk_id p = pk_id q" "pk_bus p = pk_bus q" "Page_repr (pk_page p) = Page_repr (pk_page q)"
    "pk_command p = pk_command q" "pk_data p @ xs = pk_data q @ ys"
    unfolding append_Cons append_Nil list.inject by blast+
  with len show ?thesis by (simp add: Page_repr_inject append_eq_append_conv)
qed

text \<open>Frames as the firmware builds them, for both formats.\<close>

fun reply_body :: "ControlResponse \<Rightarrow> bytes" where
  "reply_body r = (case cr_error r of
      None \<Rightarrow> STATUS_OK # cr_data r
    | Some e \<Rightarrow> ErrorCode_repr (re_code e) # (case re_message e of None \<Rightarrow> [] | Some m \<Rightarrow> m))"

definition reply_frame :: "ResponseFormat \<Rightarrow> ControlResponse \<Rightarrow> bytes" where
  "reply_frame format r =
     (case format of
        V0 \<Rightarrow> u16_to_le (of_nat (length (cr_data r))) @ [cr_id r] @ cr_data r
      | V1 \<Rightarrow> u16_to_le (of_nat (3 + length (reply_body r))) @ [cr_id r] @ reply_body r)"

text \<open>Replies the formats can express: V0 has no errors, and only a custom error has a text.\<close>

definition wf_reply :: "ResponseFormat \<Rightarrow> ControlResponse \<Rightarrow> bool" where
  "wf_reply format r \<longleftrightarrow>
     (case cr_error r of
        None \<Rightarrow> length (cr_data r) \<le> 4000
      | Some e \<Rightarrow> format = V1 \<and> cr_data r = [] \<and>
          (case re_message e of None \<Rightarrow> True
           | Some m \<Rightarrow> re_code e = Custom \<and> m \<noteq> [] \<and> length m \<le> 4000))"

lemma ErrorCode_try_from_repr [simp]: "ErrorCode_try_from (ErrorCode_repr c) = Inr c"
  by (cases c) (simp_all add: ErrorCode_try_from_def)

lemma ErrorCode_try_from_custom [simp]: "ErrorCode_try_from 255 = Inr Custom"
  by (simp add: ErrorCode_try_from_def)

lemma ErrorCode_repr_not_ok: "ErrorCode_repr c \<noteq> STATUS_OK"
  by (cases c) (simp_all add: STATUS_OK_def)

lemma parse_v1_body:
  assumes "wf_reply V1 r"
  shows "parse_v1 (cr_id r # reply_body r) = Inr r"
proof (cases "cr_error r")
  case None
  then show ?thesis by (cases r) (simp add: parse_v1_def)
next
  case (Some e)
  obtain c m where e: "e = \<lparr>re_code = c, re_message = m\<rparr>" by (cases e)
  show ?thesis
    using assms Some e ErrorCode_repr_not_ok [of c]
    by (cases r; cases m) (auto simp: parse_v1_def wf_reply_def)
qed

lemma reply_body_length: "wf_reply V1 r \<Longrightarrow> 1 \<le> length (reply_body r) \<and> length (reply_body r) \<le> 4001"
  by (auto simp: wf_reply_def split: option.splits)

lemma control_decode_eq:
  assumes "u16_to_le w = [a, b]" and "packet_size format w = 2 + length body" and "packet_size format w \<le> MAX_LENGTH"
    and "(case format of V0 \<Rightarrow> parse_v0 body | V1 \<Rightarrow> parse_v1 body) = Inr r"
  shows "control_decode format ([a, b] @ body @ rest) = Some (Inr (Some r), rest)"
  using assms u16_from_le_to_le [OF assms(1)] by (simp add: control_decode_def Let_def)

lemma control_decode_frame:
  assumes "wf_reply format r"
  shows "control_decode format (reply_frame format r @ rest) = Some (Inr (Some r), rest)"
proof (cases format)
  case V0
  then have len: "length (cr_data r) \<le> 4000" and err: "cr_error r = None"
    using assms by (auto simp: wf_reply_def split: option.splits)
  let ?w = "of_nat (length (cr_data r)) :: u16"
  obtain a b where ab: "u16_to_le ?w = [a, b]" using u16_to_le_list by blast
  have "unat ?w = length (cr_data r)" using len by (simp add: unat_of_nat)
  then have size: "packet_size V0 ?w = 2 + length (cr_id r # cr_data r)" by (simp add: packet_size_def)
  moreover have "packet_size V0 ?w \<le> MAX_LENGTH" using size len by (simp add: MAX_LENGTH_def)
  moreover have "parse_v0 (cr_id r # cr_data r) = Inr r" using err by (cases r) (simp add: parse_v0_def)
  ultimately show ?thesis
    using control_decode_eq [OF ab, of V0 "cr_id r # cr_data r" r rest] V0 ab by (simp add: reply_frame_def)
next
  case V1
  note body = reply_body_length [OF assms [unfolded V1]]
  let ?w = "of_nat (3 + length (reply_body r)) :: u16"
  obtain a b where ab: "u16_to_le ?w = [a, b]" using u16_to_le_list by blast
  have "unat ?w = 3 + length (reply_body r)" using body by (simp add: unat_of_nat del: of_nat_add)
  then have size: "packet_size V1 ?w = 2 + length (cr_id r # reply_body r)" by (simp add: packet_size_def)
  moreover have "packet_size V1 ?w \<le> MAX_LENGTH" using size body by (simp add: MAX_LENGTH_def)
  moreover have "parse_v1 (cr_id r # reply_body r) = Inr r" using assms V1 parse_v1_body by simp
  ultimately show ?thesis
    using control_decode_eq [OF ab, of V1 "cr_id r # reply_body r" r rest] V1 ab
    by (simp add: reply_frame_def del: reply_body.simps)
qed

text \<open>A length field below two in the second format makes the decoder slice out of bounds.\<close>

lemma control_decode_None_iff:
  "control_decode format src = None \<longleftrightarrow>
     format = V1 \<and> 2 \<le> length src \<and> unat (u16_from_le (src ! 0) (src ! 1)) < 2"
proof (cases format)
  case V0
  then show ?thesis by (auto simp: control_decode_def packet_size_def Let_def split: sum.splits)
next
  case V1
  then show ?thesis
    by (auto simp: control_decode_def packet_size_def MAX_LENGTH_def Let_def split: sum.splits)
qed

subsection \<open>Matching replies to requests\<close>

text \<open>All requests so far are answered, or exactly the reply to the last one is still to be read.\<close>

definition numbered :: "channel_state \<Rightarrow> bool" where
  "numbered s \<longleftrightarrow> cc_next_id s = of_nat (length (cc_sent s))"

definition in_sync :: "channel_state \<Rightarrow> bool" where
  "in_sync s \<longleftrightarrow> numbered s \<and> cc_queue s = []"

definition lagging :: "channel_state \<Rightarrow> bool" where
  "lagging s \<longleftrightarrow> numbered s \<and> (\<exists>r. cc_queue s = [Inr r] \<and> cr_id r \<noteq> cc_next_id s)"

lemma in_sync_new: "in_sync channel_new"
  by (simp add: in_sync_def numbered_def channel_new_def)

text \<open>A device that answers every request once, under its own number.\<close>

definition answers_with :: "(nat \<Rightarrow> ControlResponse) \<Rightarrow> bool" where
  "answers_with reply \<longleftrightarrow> (\<forall>n. cr_id (reply n) = of_nat n)"

lemma send_packet_outcome:
  assumes "fits p" and "cw_send_ok env (length (cc_sent s))" and "numbered s"
    and q: "cc_queue s @ cw_arrives env (length (cc_sent s)) = Inr r # rest"
  shows "\<exists>s'. send_packet env p s =
      (if cr_id r \<noteq> cc_next_id s then Inl (IdMismatch (cc_next_id s) (cr_id r))
       else case cr_error r of None \<Rightarrow> Inr r | Some e \<Rightarrow> Inl (DeviceError e), s') \<and>
    numbered s' \<and> cc_queue s' = rest \<and> length (cc_sent s') = Suc (length (cc_sent s))"
proof -
  have fits: "fits (p\<lparr>pk_id := k\<rparr>)" for k using assms(1) by (simp add: fits_def)
  have enc: "control_encode (p\<lparr>pk_id := k\<rparr>) [] = Inr (Packet_encode (p\<lparr>pk_id := k\<rparr>))" for k
    using fits by (simp add: control_encode_Inr_iff)
  show ?thesis
    using assms enc
    by (auto simp: send_packet_def assign_id_def channel_write_def await_response_def Let_def numbered_def
        split: option.splits)
qed

lemma send_packet_in_sync:
  assumes "fits p" and "cw_send_ok env (length (cc_sent s))" and "in_sync s"
    and "cw_arrives env (length (cc_sent s)) = [Inr (reply (length (cc_sent s)))]" and "answers_with reply"
  shows "\<exists>s'. send_packet env p s =
      (case cr_error (reply (length (cc_sent s))) of
         None \<Rightarrow> Inr (reply (length (cc_sent s))) | Some e \<Rightarrow> Inl (DeviceError e), s') \<and>
    in_sync s' \<and> length (cc_sent s') = Suc (length (cc_sent s))"
proof -
  have "numbered s" using assms(3) by (simp add: in_sync_def)
  moreover have "cc_queue s @ cw_arrives env (length (cc_sent s)) = Inr (reply (length (cc_sent s))) # []"
    using assms(3,4) by (simp add: in_sync_def)
  moreover have "cr_id (reply (length (cc_sent s))) = cc_next_id s"
    using assms(3,5) by (simp add: in_sync_def numbered_def answers_with_def)
  ultimately show ?thesis
    using send_packet_outcome [OF assms(1,2)] by (fastforce simp: in_sync_def)
qed

lemma next_id_differs: "numbered s' \<Longrightarrow> length (cc_sent s') = Suc (length (cc_sent s)) \<Longrightarrow> of_nat (length (cc_sent s)) \<noteq> cc_next_id s'"
  by (simp add: numbered_def)

lemma send_packet_lagging:
  assumes "fits p" and "cw_send_ok env (length (cc_sent s))" and "lagging s"
    and "cw_arrives env (length (cc_sent s)) = [Inr (reply (length (cc_sent s)))]" and "answers_with reply"
  shows "\<exists>s' i j. send_packet env p s = (Inl (IdMismatch i j), s') \<and>
    lagging s' \<and> length (cc_sent s') = Suc (length (cc_sent s))"
proof -
  obtain r where r: "cc_queue s = [Inr r]" "cr_id r \<noteq> cc_next_id s" and num: "numbered s"
    using assms(3) by (auto simp: lagging_def)
  have "cc_queue s @ cw_arrives env (length (cc_sent s)) = Inr r # [Inr (reply (length (cc_sent s)))]"
    using r assms(4) by simp
  from send_packet_outcome [OF assms(1,2) num this] r(2) obtain s' where
    "send_packet env p s = (Inl (IdMismatch (cc_next_id s) (cr_id r)), s')" "numbered s'"
    "cc_queue s' = [Inr (reply (length (cc_sent s)))]" "length (cc_sent s') = Suc (length (cc_sent s))"
    by auto
  then show ?thesis
    using assms(5) next_id_differs by (fastforce simp: lagging_def answers_with_def)
qed

text \<open>Several requests in a row.\<close>

primrec run_requests ::
    "control_world \<Rightarrow> Packet list \<Rightarrow> channel_state \<Rightarrow> (control_error + ControlResponse) list \<times> channel_state" where
  "run_requests env [] s = ([], s)"
| "run_requests env (p # ps) s =
     (case send_packet env p s of (r, s) \<Rightarrow> (case run_requests env ps s of (rs, s) \<Rightarrow> (r # rs, s)))"

lemma run_requests_lagging:
  assumes "list_all fits ps" and "\<forall>n. cw_send_ok env n" and "lagging s" and "answers_with reply"
    and "\<forall>n \<ge> length (cc_sent s). cw_arrives env n = [Inr (reply n)]"
  shows "list_all (\<lambda>r. \<exists>i j. r = Inl (IdMismatch i j)) (fst (run_requests env ps s))"
  using assms(1,3,5)
proof (induction ps arbitrary: s)
  case Nil
  then show ?case by simp
next
  case (Cons p ps)
  obtain s' i j where s': "send_packet env p s = (Inl (IdMismatch i j), s')" "lagging s'"
    "length (cc_sent s') = Suc (length (cc_sent s))"
    using send_packet_lagging [of p env s reply] Cons.prems assms(2,4) by auto
  have "list_all (\<lambda>r. \<exists>i j. r = Inl (IdMismatch i j)) (fst (run_requests env ps s'))"
    using Cons.prems s' by (intro Cons.IH) auto
  then show ?case using s'(1) by (auto split: prod.splits)
qed

lemma run_requests_in_sync:
  assumes "list_all fits ps" and "\<forall>n. cw_send_ok env n" and "in_sync s" and "answers_with reply"
    and "\<forall>n \<ge> length (cc_sent s). cw_arrives env n = [Inr (reply n)]"
    and "\<forall>n \<ge> length (cc_sent s). cr_error (reply n) = None"
  shows "fst (run_requests env ps s) = map (\<lambda>k. Inr (reply (length (cc_sent s) + k))) [0..<length ps]"
  using assms(1,3,5,6)
proof (induction ps arbitrary: s)
  case Nil
  then show ?case by simp
next
  case (Cons p ps)
  obtain s' where s': "send_packet env p s = (Inr (reply (length (cc_sent s))), s')" "in_sync s'"
    "length (cc_sent s') = Suc (length (cc_sent s))"
    using send_packet_in_sync [of p env s reply] Cons.prems assms(2,4) by auto
  have "fst (run_requests env ps s') = map (\<lambda>k. Inr (reply (length (cc_sent s') + k))) [0..<length ps]"
    using Cons.prems s' by (intro Cons.IH) auto
  moreover have "fst (run_requests env (p # ps) s) =
      Inr (reply (length (cc_sent s))) # fst (run_requests env ps s')"
    using s'(1) by (simp split: prod.splits)
  moreover have "[0..<length (p # ps)] = 0 # map Suc [0..<length ps]"
    by (simp add: upt_conv_Cons map_Suc_upt del: upt_Suc)
  ultimately show ?case by (simp add: s'(3) comp_def del: upt_Suc run_requests.simps)
qed

text \<open>
  A reply that misses its deadline is never discarded: it is taken for the reply of the next
  request, whose own reply then waits in turn. Every later request fails although the device
  answers each of them in time.
\<close>

lemma late_reply_kept:
  assumes "fits p" "fits q" "list_all fits ps" and "\<forall>n. cw_send_ok env n" and "in_sync s" and "answers_with reply"
    and n: "n = length (cc_sent s)"
    and "cw_arrives env n = []" and "\<not> cw_closed env n"
    and "cw_arrives env (Suc n) = [Inr (reply n), Inr (reply (Suc n))]"
    and "\<forall>m \<ge> Suc (Suc n). cw_arrives env m = [Inr (reply m)]"
  shows "\<exists>i j rest. fst (run_requests env (p # q # ps) s) =
      Inl CommandTimeout # Inl (IdMismatch i j) # rest \<and> list_all (\<lambda>r. \<exists>i j. r = Inl (IdMismatch i j)) rest"
proof -
  have enc: "control_encode (p\<lparr>pk_id := k\<rparr>) [] = Inr (Packet_encode (p\<lparr>pk_id := k\<rparr>))" for k
    using assms(1) by (simp add: control_encode_Inr_iff fits_def)
  define s1 where "s1 = s\<lparr>cc_next_id := cc_next_id s + 1, cc_sent := cc_sent s @ [p\<lparr>pk_id := cc_next_id s\<rparr>], cc_queue := []\<rparr>"
  have one: "send_packet env p s = (Inl CommandTimeout, s1)"
    using assms enc
    by (simp add: send_packet_def assign_id_def channel_write_def await_response_def Let_def in_sync_def s1_def)
  have s1: "numbered s1" "length (cc_sent s1) = Suc n" "cc_queue s1 = []"
    using assms(5) n by (simp_all add: s1_def in_sync_def numbered_def)
  have "cc_queue s1 @ cw_arrives env (length (cc_sent s1)) = Inr (reply n) # [Inr (reply (Suc n))]"
    using assms(10) s1 by simp
  from send_packet_outcome [OF assms(2) _ s1(1) this] assms(4) obtain s2 where
    two: "send_packet env q s1 = (Inl (IdMismatch (cc_next_id s1) (cr_id (reply n))), s2)"
    and s2: "numbered s2" "cc_queue s2 = [Inr (reply (Suc n))]" "length (cc_sent s2) = Suc (Suc n)"
    using s1 assms(6) by (auto simp: answers_with_def numbered_def)
  have "lagging s2" using s2 assms(6) by (simp add: lagging_def answers_with_def numbered_def)
  then have "list_all (\<lambda>r. \<exists>i j. r = Inl (IdMismatch i j)) (fst (run_requests env ps s2))"
    using assms(11) s2(3) by (intro run_requests_lagging [OF assms(3,4) _ assms(6)]) auto
  then show ?thesis using one two by (auto split: prod.splits)
qed

subsection \<open>Streams\<close>

lemma requests_delimited:
  assumes "list_all fits ps" and "list_all fits qs" and "concat (map Packet_encode ps) = concat (map Packet_encode qs)"
  shows "ps = qs"
  using assms
proof (induction ps arbitrary: qs)
  case Nil
  then show ?case by (cases qs) (auto simp: Packet_encode_def u16_to_le_def u16_to_be_def)
next
  case (Cons p ps)
  then obtain q qs' where qs: "qs = q # qs'"
    by (cases qs) (auto simp: Packet_encode_def u16_to_le_def u16_to_be_def)
  with Cons.prems have "p = q \<and> concat (map Packet_encode ps) = concat (map Packet_encode qs')"
    by (intro Packet_encode_prefix_free) auto
  then show ?case using Cons.IH [of qs'] Cons.prems qs by simp
qed

text \<open>The first \<open>n\<close> results of the framed reader on a buffer, and what is left of it.\<close>

primrec control_decodes ::
    "nat \<Rightarrow> ResponseFormat \<Rightarrow> bytes \<Rightarrow> ((control_error + ControlResponse option) list \<times> bytes) option" where
  "control_decodes 0 format src = Some ([], src)"
| "control_decodes (Suc n) format src =
     (case control_decode format src of
        None \<Rightarrow> None
      | Some (r, rest) \<Rightarrow> map_option (\<lambda>(rs, rest). (r # rs, rest)) (control_decodes n format rest))"

lemma control_decodes_frames:
  assumes "list_all (wf_reply format) rs"
  shows "control_decodes (length rs) format (concat (map (reply_frame format) rs) @ rest) =
    Some (map (Inr \<circ> Some) rs, rest)"
  using assms by (induction rs) (simp_all add: control_decode_frame)

text \<open>Exactly the frames of a reply decode to it: what the bytes behind the length field are for each reply.\<close>

definition reply_bytes :: "ResponseFormat \<Rightarrow> ControlResponse \<Rightarrow> bytes \<Rightarrow> bool" where
  "reply_bytes format r body \<longleftrightarrow>
     (case cr_error r of
        None \<Rightarrow> body = (case format of V0 \<Rightarrow> [cr_id r] | V1 \<Rightarrow> [cr_id r, STATUS_OK]) @ cr_data r
      | Some e \<Rightarrow> format = V1 \<and> cr_data r = [] \<and> take 2 body = [cr_id r, ErrorCode_repr (re_code e)] \<and>
          re_message e = (if re_code e = Custom \<and> drop 2 body \<noteq> [] then Some (drop 2 body) else None))"

lemma u16_to_le_from_le: "u16_to_le (u16_from_le a b) = [a, b]"
  by (simp add: u16_to_le_def u16_from_le_def u16_to_be_from_be)

lemma ErrorCode_try_from_Inr_iff: "ErrorCode_try_from x = Inr c \<longleftrightarrow> x = ErrorCode_repr c"
  by (cases c) (auto simp: ErrorCode_try_from_def)

lemma parse_v0_iff: "parse_v0 body = Inr r \<longleftrightarrow> reply_bytes V0 r body"
  by (cases r; cases body) (auto simp: parse_v0_def reply_bytes_def split: option.splits)

lemma parse_v1_iff: "parse_v1 body = Inr r \<longleftrightarrow> reply_bytes V1 r body"
proof (cases "length body < 2")
  case True
  then have "\<not> reply_bytes V1 r body"
    by (auto simp: reply_bytes_def split: option.split dest: arg_cong [where f = length])
  then show ?thesis using True by (simp add: parse_v1_def)
next
  case False
  then obtain i st payload where body: "body = i # st # payload"
    by (cases body; cases "tl body") auto
  obtain rid rdata rerr where r: "r = \<lparr>cr_id = rid, cr_data = rdata, cr_error = rerr\<rparr>" by (cases r)
  show ?thesis
  proof (cases "st = STATUS_OK")
    case True
    moreover have "STATUS_OK \<noteq> ErrorCode_repr c" for c using ErrorCode_repr_not_ok by metis
    moreover have "STATUS_OK \<noteq> 255" by (simp add: STATUS_OK_def)
    ultimately show ?thesis by (cases rerr) (auto simp: body r parse_v1_def reply_bytes_def)
  next
    case bad: False
    show ?thesis
    proof (cases "ErrorCode_try_from st")
      case (Inl u)
      then have "st \<noteq> ErrorCode_repr c" for c by (auto simp: ErrorCode_try_from_Inr_iff [symmetric])
      then show ?thesis using Inl bad by (cases rerr) (auto simp: body r parse_v1_def reply_bytes_def)
    next
      case (Inr c)
      then have st: "st = ErrorCode_repr c" by (simp add: ErrorCode_try_from_Inr_iff)
      have same: "ErrorCode_repr c = ErrorCode_repr d \<longleftrightarrow> c = d" for d by (cases c; cases d) simp_all
      show ?thesis
      proof (cases rerr)
        case None
        then show ?thesis using Inr bad by (simp add: body r parse_v1_def reply_bytes_def)
      next
        case (Some e)
        obtain d m where e: "e = \<lparr>re_code = d, re_message = m\<rparr>" by (cases e)
        show ?thesis
          using bad by (auto simp: body r Some e st same parse_v1_def reply_bytes_def)
      qed
    qed
  qed
qed

lemma reply_bytes_nonempty: "reply_bytes format r body \<Longrightarrow> body \<noteq> []"
  by (auto simp: reply_bytes_def split: option.splits ResponseFormat.splits)

lemma control_decode_reply_iff:
  "control_decode format src = Some (Inr (Some r), rest) \<longleftrightarrow>
     (\<exists>len body. src = u16_to_le len @ body @ rest \<and> packet_size format len = 2 + length body \<and>
        2 + length body \<le> MAX_LENGTH \<and> reply_bytes format r body)"
proof
  assume dec: "control_decode format src = Some (Inr (Some r), rest)"
  let ?len = "u16_from_le (src ! 0) (src ! 1)"
  let ?n = "packet_size format ?len" and ?body = "drop 2 (take (packet_size format ?len) src)"
  have n: "?n \<le> MAX_LENGTH" "?n \<le> length src" "rest = drop ?n src" "2 \<le> length src"
    and parse: "(case format of V0 \<Rightarrow> parse_v0 ?body | V1 \<Rightarrow> parse_v1 ?body) = Inr r"
    using dec unfolding control_decode_def Let_def by (auto split: if_splits sum.splits)
  have bytes: "reply_bytes format r ?body" using parse by (cases format) (simp_all add: parse_v0_iff parse_v1_iff)
  then have "2 < ?n" using reply_bytes_nonempty n(2) by fastforce
  moreover obtain a b xs where src: "src = a # b # xs" using n(4) by (cases src; cases "tl src") auto
  ultimately have "src = u16_to_le ?len @ ?body @ rest" "?n = 2 + length ?body"
    using n(2,3) by (auto simp: u16_to_le_from_le drop_Cons' take_Cons')
  then show "\<exists>len body. src = u16_to_le len @ body @ rest \<and> packet_size format len = 2 + length body \<and>
        2 + length body \<le> MAX_LENGTH \<and> reply_bytes format r body"
    using bytes n(1) by metis
next
  assume "\<exists>len body. src = u16_to_le len @ body @ rest \<and> packet_size format len = 2 + length body \<and>
        2 + length body \<le> MAX_LENGTH \<and> reply_bytes format r body"
  then obtain len body where src: "src = u16_to_le len @ body @ rest" and size: "packet_size format len = 2 + length body"
    "2 + length body \<le> MAX_LENGTH" and bytes: "reply_bytes format r body" by blast
  obtain a b where ab: "u16_to_le len = [a, b]" using u16_to_le_list by blast
  have "(case format of V0 \<Rightarrow> parse_v0 body | V1 \<Rightarrow> parse_v1 body) = Inr r"
    using bytes by (cases format) (simp_all add: parse_v0_iff parse_v1_iff)
  then show "control_decode format src = Some (Inr (Some r), rest)"
    using control_decode_eq [OF ab size(1)] size by (simp add: src ab)
qed

end
