(* ===== verification/Stratum_Messages.thy ===== *)
theory Stratum_Messages
  imports Floats
begin

text \<open>
  The messages of the Stratum v1 protocol, \<open>stratum_v1/messages.rs\<close>: JSON values, the job
  notification and its parsing, the parameters of a share submission, the JSON-RPC envelope,
  and the events and commands between client and job source. \<open>json\<close> has the constructors of
  \<open>serde_json::Value\<close> with the three kinds of number; the \<open>hex\<close> crate is the argument \<open>hex_codec\<close>,
  and \<open>hex_laws\<close> is what its documentation promises. Error texts leave out the inner error.
\<close>

subsection \<open>JSON values\<close>

datatype json =
  JNull
| JBool bool
| JPosInt u64
| JNegInt int
| JFloat rat
| JString string
| JArray "json list"
| JObject "(string \<times> json) list"

fun as_bool :: "json \<Rightarrow> bool option" where
  "as_bool (JBool b) = Some b"
| "as_bool _ = None"

fun as_str :: "json \<Rightarrow> string option" where
  "as_str (JString s) = Some s"
| "as_str _ = None"

fun as_u64 :: "json \<Rightarrow> u64 option" where
  "as_u64 (JPosInt n) = Some n"
| "as_u64 _ = None"

fun as_array :: "json \<Rightarrow> json list option" where
  "as_array (JArray xs) = Some xs"
| "as_array _ = None"

fun as_object :: "json \<Rightarrow> (string \<times> json) list option" where
  "as_object (JObject m) = Some m"
| "as_object _ = None"

subsection \<open>Hexadecimal numbers\<close>

fun parse_digits :: "nat \<Rightarrow> string \<Rightarrow> nat option" where
  "parse_digits acc [] = Some acc"
| "parse_digits acc (c # cs) =
     (case hex_digit c of
        None \<Rightarrow> None
      | Some d \<Rightarrow> if acc * 16 + d < 2 ^ 32 then parse_digits (acc * 16 + d) cs else None)"

text \<open>\<open>u32::from_str_radix\<close> at radix 16: an optional plus sign, digits of either case, no overflow.\<close>

definition u32_from_hex :: "string \<Rightarrow> u32 option" where
  "u32_from_hex s =
     (let digits = (case s of [] \<Rightarrow> [] | c # cs \<Rightarrow> if c = CHR ''+'' \<and> cs \<noteq> [] then cs else c # cs)
      in if digits = [] then None else map_option of_nat (parse_digits 0 digits))"

text \<open>The formats \<open>08x\<close> and \<open>trim_start_matches("0x")\<close>.\<close>

definition format_08x :: "u32 \<Rightarrow> string" where
  "format_08x w = map (\<lambda>i. hex_char (unat (drop_bit (4 * i) w AND 0xf))) [7, 6, 5, 4, 3, 2, 1, 0]"

fun trim_0x :: "string \<Rightarrow> string" where
  "trim_0x (a # b # s) = (if a = CHR ''0'' \<and> b = CHR ''x'' then trim_0x s else a # b # s)"
| "trim_0x s = s"

record hex_codec =
  x_hex_encode :: "bytes \<Rightarrow> string"
  x_hex_decode :: "string \<Rightarrow> bytes option"

definition hex_laws :: "hex_codec \<Rightarrow> bool" where
  "hex_laws hex \<longleftrightarrow> (\<forall>bs. x_hex_decode hex (x_hex_encode hex bs) = Some bs)"

subsection \<open>Job notifications\<close>

record JobNotification =
  jn_job_id :: string
  jn_prev_hash :: bytes
  jn_coinbase1 :: bytes
  jn_coinbase2 :: bytes
  jn_merkle_branches :: "bytes list"
  jn_version :: i32
  jn_nbits :: u32
  jn_ntime :: u32
  jn_clean_jobs :: bool

text \<open>\<open>chunks_mut(4)\<close> with \<open>reverse\<close> on each chunk.\<close>

fun swap_words :: "bytes \<Rightarrow> bytes" where
  "swap_words (a # b # c # d # bs) = d # c # b # a # swap_words bs"
| "swap_words bs = rev bs"

definition parse_block_hash :: "hex_codec \<Rightarrow> string \<Rightarrow> string + bytes" where
  "parse_block_hash hex s =
     try_res (ok_or ''block hash hex'' (x_hex_decode hex s)) (\<lambda>bytes.
       if length bytes \<noteq> 32 then Inl ''block hash wrong length'' else Inr (swap_words bytes))"

definition parse_merkle_node :: "hex_codec \<Rightarrow> string \<Rightarrow> string + bytes" where
  "parse_merkle_node hex s =
     try_res (ok_or ''merkle node hex'' (x_hex_decode hex s)) (\<lambda>bytes.
       if length bytes \<noteq> 32 then Inl ''merkle node wrong length'' else Inr bytes)"

fun parse_branches :: "hex_codec \<Rightarrow> json list \<Rightarrow> string + bytes list" where
  "parse_branches hex [] = Inr []"
| "parse_branches hex (branch # branches) =
     try_res (ok_or ''merkle branch not a string'' (as_str branch)) (\<lambda>s.
     try_res (parse_merkle_node hex s) (\<lambda>node.
     try_res (parse_branches hex branches) (\<lambda>nodes. Inr (node # nodes))))"

definition from_stratum_params :: "hex_codec \<Rightarrow> json list \<Rightarrow> string + JobNotification" where
  "from_stratum_params hex params =
     (if length params < 9 then Inl ''mining.notify params too short''
      else
        try_res (ok_or ''job_id not a string'' (as_str (params ! 0))) (\<lambda>job_id.
        try_res (ok_or ''prev_hash not a string'' (as_str (params ! 1))) (\<lambda>prev_hash_str.
        try_res (parse_block_hash hex prev_hash_str) (\<lambda>prev_hash.
        try_res (ok_or ''coinbase1 not a string'' (as_str (params ! 2))) (\<lambda>coinbase1_str.
        try_res (ok_or ''coinbase1 hex'' (x_hex_decode hex coinbase1_str)) (\<lambda>coinbase1.
        try_res (ok_or ''coinbase2 not a string'' (as_str (params ! 3))) (\<lambda>coinbase2_str.
        try_res (ok_or ''coinbase2 hex'' (x_hex_decode hex coinbase2_str)) (\<lambda>coinbase2.
        try_res (ok_or ''merkle_branches not an array'' (as_array (params ! 4))) (\<lambda>branches_json.
        try_res (parse_branches hex branches_json) (\<lambda>merkle_branches.
        try_res (ok_or ''version not a string'' (as_str (params ! 5))) (\<lambda>version_str.
        try_res (ok_or ''version hex'' (u32_from_hex version_str)) (\<lambda>version.
        try_res (ok_or ''nbits not a string'' (as_str (params ! 6))) (\<lambda>nbits_str.
        try_res (ok_or ''nbits hex'' (u32_from_hex nbits_str)) (\<lambda>nbits.
        try_res (ok_or ''ntime not a string'' (as_str (params ! 7))) (\<lambda>ntime_str.
        try_res (ok_or ''ntime hex'' (u32_from_hex ntime_str)) (\<lambda>ntime.
        try_res (ok_or ''clean_jobs not a bool'' (as_bool (params ! 8))) (\<lambda>clean_jobs.
          Inr \<lparr>jn_job_id = job_id, jn_prev_hash = prev_hash, jn_coinbase1 = coinbase1,
               jn_coinbase2 = coinbase2, jn_merkle_branches = merkle_branches, jn_version = version,
               jn_nbits = nbits, jn_ntime = ntime, jn_clean_jobs = clean_jobs\<rparr>)))))))))))))))))"

subsection \<open>Share submissions\<close>

record SubmitParams =
  sp_username :: string
  sp_job_id :: string
  sp_extranonce2 :: bytes
  sp_ntime :: u32
  sp_nonce :: u32
  sp_version_bits :: "u32 option"

definition to_stratum_json :: "hex_codec \<Rightarrow> SubmitParams \<Rightarrow> json list" where
  "to_stratum_json hex p =
     [JString (sp_username p), JString (sp_job_id p), JString (x_hex_encode hex (sp_extranonce2 p)),
      JString (format_08x (sp_ntime p)), JString (format_08x (sp_nonce p))] @
     (case sp_version_bits p of None \<Rightarrow> [] | Some version_bits \<Rightarrow> [JString (format_08x version_bits)])"

subsection \<open>The envelope, events and commands\<close>

datatype JsonRpcMessage =
  Request "u64 option" string json
| Response u64 "json option" "json option"

definition JsonRpc_request :: "u64 \<Rightarrow> string \<Rightarrow> json \<Rightarrow> JsonRpcMessage" where
  "JsonRpc_request i m params = Request (Some i) m params"

datatype ClientEvent =
  VersionRollingConfigured "u32 option"
| Subscribed bytes nat
| NewJob JobNotification
| DifficultyChanged rat
| VersionMaskSet u32
| ShareAccepted string u32
| ShareRejected string string
| EvDisconnected
| EvError string

datatype ClientCommand = CmdSubmitShare SubmitParams | CmdSuggestDifficulty rat

subsection \<open>Round trips\<close>

lemma hex_char_plain: "d < 16 \<Longrightarrow> hex_char d \<noteq> CHR ''+''"
proof
  assume "d < 16" "hex_char d = CHR ''+''"
  then have "hex_digit (CHR ''+'') = Some d" using hex_digit_char [of d] by simp
  then show False by (simp add: hex_digit_def)
qed

lemma parse_digits_map:
  assumes "\<forall>i \<in> set is. f i < 16"
  shows "foldl (\<lambda>acc i. acc * 16 + f i) acc is < 2 ^ 32 \<Longrightarrow>
    parse_digits acc (map (hex_char \<circ> f) is) = Some (foldl (\<lambda>acc i. acc * 16 + f i) acc is)"
  using assms
proof (induction "is" arbitrary: acc)
  case Nil
  then show ?case by simp
next
  case (Cons i "is")
  have grow: "acc \<le> foldl (\<lambda>acc i. acc * 16 + f i) acc js" for acc and js :: "'a list"
  proof (induction js arbitrary: acc)
    case (Cons j js)
    show ?case using Cons.IH [of "acc * 16 + f j"] by simp
  qed simp
  from Cons.prems(1) grow [of "acc * 16 + f i" "is"] have "acc * 16 + f i < 2 ^ 32" by simp
  then show ?case using Cons by (simp add: hex_digit_char)
qed

lemma nibbles_foldl:
  "foldl (\<lambda>acc i. acc * 16 + n div 16 ^ i mod 16) a (rev [0..<k]) = a * 16 ^ k + n mod (16 ^ k :: nat)"
proof (induction k arbitrary: a)
  case (Suc k)
  have "n mod (16 ^ k * 16) = 16 ^ k * (n div 16 ^ k mod 16) + n mod 16 ^ k" by (rule mod_mult2_eq)
  then show ?case using Suc by (simp add: algebra_simps)
qed simp

lemma nibbles_value:
  "foldl (\<lambda>acc i. acc * 16 + n div 16 ^ i mod 16) 0 [7, 6, 5, 4, 3, 2, 1, 0] = n mod (2 ^ 32 :: nat)"
proof -
  have "rev [0..<8] = [7, 6, 5, 4, 3, 2, 1, 0 :: nat]" by code_simp
  then show ?thesis using nibbles_foldl [where n = n and a = 0 and k = 8] by simp
qed

lemma unat_u32_less: "unat (w :: u32) < 2 ^ 32"
  by (rule order.strict_trans2 [OF unsigned_less]) simp

lemma nibble_nat: "unat (drop_bit (4 * i) w AND 0xf :: u32) = unat w div 16 ^ i mod 16"
proof -
  have "drop_bit (4 * i) w AND 0xf = take_bit 4 (drop_bit (4 * i) w)"
    by (simp add: take_bit_eq_mask mask_eq_exp_minus_1)
  moreover have "take_bit 32 (unat w) = unat w" using unat_u32_less by (simp add: take_bit_nat_eq_self)
  ultimately have "unat (drop_bit (4 * i) w AND 0xf) = take_bit 4 (drop_bit (4 * i) (unat w))"
    by (simp add: unsigned_take_bit_eq unsigned_drop_bit_eq)
  then show ?thesis by (simp add: take_bit_eq_mod drop_bit_eq_div power_mult)
qed

lemma u32_from_hex_digits:
  assumes "\<And>i. f i < 16" and "is \<noteq> []" and "foldl (\<lambda>acc i. acc * 16 + f i) 0 is = n" and "n < 2 ^ 32"
  shows "u32_from_hex (map (hex_char \<circ> f) is) = Some (of_nat n)"
proof -
  have "parse_digits 0 (map (hex_char \<circ> f) is) = Some n"
    using parse_digits_map [of "is" f 0] assms by simp
  moreover obtain i js where "is = i # js" using assms(2) by (cases "is") auto
  moreover have "hex_char (f i) \<noteq> CHR ''+''" by (rule hex_char_plain [OF assms(1)])
  ultimately show ?thesis by (simp add: u32_from_hex_def)
qed

lemma u32_from_hex_format: "u32_from_hex (format_08x w) = Some w"
proof -
  define f where "f = (\<lambda>i. unat w div 16 ^ i mod 16)"
  have fmt: "format_08x w = map (hex_char \<circ> f) [7, 6, 5, 4, 3, 2, 1, 0]"
    unfolding format_08x_def nibble_nat f_def by (simp only: comp_def)
  have "unat w mod 2 ^ 32 = unat w" using unat_u32_less by (rule mod_less)
  then have num: "foldl (\<lambda>acc i. acc * 16 + f i) 0 [7, 6, 5, 4, 3, 2, 1, 0] = unat w"
    unfolding f_def nibbles_value .
  have "f i < 16" for i by (simp add: f_def)
  from u32_from_hex_digits [OF this _ num unat_u32_less] show ?thesis
    unfolding fmt by (simp only: list.distinct of_nat_unat ucast_id not_False_eq_True simp_thms)
qed

lemma swap_words_swap: "length bs = 4 * n \<Longrightarrow> swap_words (swap_words bs) = bs"
proof (induction bs arbitrary: n rule: swap_words.induct)
  case (1 a b c d bs)
  then show ?case by (cases n) auto
qed auto

lemma length_swap_words [simp]: "length (swap_words bs) = length bs"
  by (induction bs rule: swap_words.induct) auto

text \<open>A notification as a pool writes it.\<close>

definition notify_params :: "hex_codec \<Rightarrow> JobNotification \<Rightarrow> json list" where
  "notify_params hex job =
     [JString (jn_job_id job), JString (x_hex_encode hex (swap_words (jn_prev_hash job))),
      JString (x_hex_encode hex (jn_coinbase1 job)), JString (x_hex_encode hex (jn_coinbase2 job)),
      JArray (map (\<lambda>b. JString (x_hex_encode hex b)) (jn_merkle_branches job)),
      JString (format_08x (jn_version job)), JString (format_08x (jn_nbits job)),
      JString (format_08x (jn_ntime job)), JBool (jn_clean_jobs job)]"

definition wf_job :: "JobNotification \<Rightarrow> bool" where
  "wf_job job \<longleftrightarrow> length (jn_prev_hash job) = 32 \<and> list_all (\<lambda>b. length b = 32) (jn_merkle_branches job)"

lemma parse_branches_hex:
  assumes "hex_laws hex" and "list_all (\<lambda>b. length b = 32) bs"
  shows "parse_branches hex (map (\<lambda>b. JString (x_hex_encode hex b)) bs) = Inr bs"
  using assms(2) by (induction bs) (use assms(1) in \<open>simp_all add: hex_laws_def parse_merkle_node_def\<close>)

lemma parse_block_hash_hex:
  assumes "hex_laws hex" and "length h = 32"
  shows "parse_block_hash hex (x_hex_encode hex (swap_words h)) = Inr h"
  using assms swap_words_swap [of h 8] by (simp add: hex_laws_def parse_block_hash_def)

lemma from_stratum_params_notify:
  assumes "hex_laws hex" and "wf_job job"
  shows "from_stratum_params hex (notify_params hex job @ extra) = Inr job"
proof -
  have dec: "x_hex_decode hex (x_hex_encode hex bs) = Some bs" for bs
    using assms(1) by (simp add: hex_laws_def)
  have "parse_block_hash hex (x_hex_encode hex (swap_words (jn_prev_hash job))) = Inr (jn_prev_hash job)"
    "parse_branches hex (map (\<lambda>b. JString (x_hex_encode hex b)) (jn_merkle_branches job)) = Inr (jn_merkle_branches job)"
    using assms parse_block_hash_hex parse_branches_hex by (auto simp: wf_job_def)
  then show ?thesis
    unfolding from_stratum_params_def notify_params_def
    by (simp add: dec u32_from_hex_format del: list.simps(9))
qed

lemma parse_branches_wf: "parse_branches hex js = Inr bs \<Longrightarrow> list_all (\<lambda>b. length b = 32) bs"
  by (induction js arbitrary: bs) (auto simp: try_res_Inr_iff parse_merkle_node_def split: if_splits)

lemma from_stratum_params_wf:
  assumes "from_stratum_params hex params = Inr job"
  shows "wf_job job"
  using assms
  by (auto simp: from_stratum_params_def try_res_Inr_iff wf_job_def parse_block_hash_def parse_branches_wf
      split: if_splits)

text \<open>What a pool reads from a submission.\<close>

definition submission_fields :: "hex_codec \<Rightarrow> json list \<Rightarrow> (string \<times> string \<times> bytes \<times> u32 \<times> u32 \<times> u32 option) option" where
  "submission_fields hex params =
     (case those (map as_str params) of
        Some (user # job # en # t # n # vs) \<Rightarrow>
          (case (x_hex_decode hex en, u32_from_hex t, u32_from_hex n, those (map u32_from_hex vs)) of
             (Some en, Some t, Some n, Some vs) \<Rightarrow>
               (case vs of
                  [] \<Rightarrow> Some (user, job, en, t, n, None)
                | [v] \<Rightarrow> Some (user, job, en, t, n, Some v)
                | _ \<Rightarrow> None)
           | _ \<Rightarrow> None)
      | _ \<Rightarrow> None)"

lemma submission_fields_submit:
  assumes "hex_laws hex"
  shows "submission_fields hex (to_stratum_json hex p) =
    Some (sp_username p, sp_job_id p, sp_extranonce2 p, sp_ntime p, sp_nonce p, sp_version_bits p)"
  using assms
  by (cases "sp_version_bits p") (simp_all add: submission_fields_def to_stratum_json_def hex_laws_def u32_from_hex_format)

text \<open>An instance of the crate's interface: two lower-case digits a byte.\<close>

definition hex_encode_ref :: "bytes \<Rightarrow> string" where
  "hex_encode_ref bs = concat (map (\<lambda>b. [hex_char (unat b div 16), hex_char (unat b mod 16)]) bs)"

fun hex_decode_ref :: "string \<Rightarrow> bytes option" where
  "hex_decode_ref [] = Some []"
| "hex_decode_ref [c] = None"
| "hex_decode_ref (c # d # s) =
     (case (hex_digit c, hex_digit d, hex_decode_ref s) of
        (Some h, Some l, Some bs) \<Rightarrow> Some (of_nat (16 * h + l) # bs)
      | _ \<Rightarrow> None)"

definition hex_ref :: hex_codec where
  "hex_ref = \<lparr>x_hex_encode = hex_encode_ref, x_hex_decode = hex_decode_ref\<rparr>"

lemma hex_laws_ref: "hex_laws hex_ref"
proof -
  have byte: "unat b div 16 < 16" for b :: u8
    using unsigned_less [of b, where 'a = nat] by (simp add: less_mult_imp_div_less)
  have "hex_decode_ref (hex_encode_ref bs) = Some bs" for bs
    by (induction bs) (simp_all add: hex_encode_ref_def hex_digit_char byte del: of_nat_add of_nat_mult)
  then show ?thesis by (simp add: hex_laws_def hex_ref_def)
qed

end
