(* ===== verification/Stratum_Client.thy ===== *)
theory Stratum_Client
  imports Stratum_Messages
begin

text \<open>
  The Stratum v1 client, \<open>stratum_v1/client.rs\<close>: requests and their replies, the handshake,
  notifications, share submission and the main loop. The world says, for the \<open>n\<close>-th request,
  what the transport yields before its wait ends and whether it ends by the deadline or by a
  shutdown, which writes and which event sends succeed, and how an error value is printed. The
  main loop runs over a script of what its \<open>select!\<close> picks; what arrived and is not yet read is
  the client's queue. The two lengths of message log are the counters of the world.
\<close>

subsection \<open>State\<close>

record PoolConfig =
  pc_url :: string
  pc_username :: string
  pc_password :: string
  pc_user_agent :: string

datatype StratumError =
  Io
| Json
| InvalidMessage string
| MessageTooLarge nat
| ConnectionFailed string
| SubscriptionFailed string
| AuthorizationFailed string
| UnexpectedResponse string
| InvalidUrl string
| Disconnected
| Timeout

definition is_fatal :: "StratumError \<Rightarrow> bool" where
  "is_fatal e = (case e of AuthorizationFailed _ \<Rightarrow> True | InvalidUrl _ \<Rightarrow> True | _ \<Rightarrow> False)"

record ProtocolState =
  ps_extranonce1 :: string
  ps_extranonce2_size :: nat
  ps_difficulty :: "rat option"
  ps_version_mask :: "u32 option"

text \<open>\<open>read_message\<close>: an error, the end of the stream, or a message.\<close>

type_synonym read_result = "StratumError + JsonRpcMessage option"

datatype wait_end = DeadlinePassed | ShutdownRequested

record stratum_world =
  sw_hex :: hex_codec
  sw_arrives :: "nat \<Rightarrow> read_result list"
  sw_ends :: "nat \<Rightarrow> wait_end"
  sw_write_ok :: "nat \<Rightarrow> bool"
  sw_event_ok :: "nat \<Rightarrow> bool"
  sw_debug :: "json \<Rightarrow> string"

record client =
  cl_config :: PoolConfig
  cl_next_id :: u64
  cl_state :: "ProtocolState option"
  cl_initial_suggest_difficulty :: "rat option"
  cl_queue :: "read_result list"
  cl_written :: "JsonRpcMessage list"
  cl_events :: "ClientEvent list"

definition with_commands :: "PoolConfig \<Rightarrow> rat option \<Rightarrow> client" where
  "with_commands config initial_suggest_difficulty =
     \<lparr>cl_config = config, cl_next_id = 1, cl_state = None,
      cl_initial_suggest_difficulty = initial_suggest_difficulty,
      cl_queue = [], cl_written = [], cl_events = []\<rparr>"

definition next_id :: "client \<Rightarrow> u64 \<times> client" where
  "next_id c = (cl_next_id c, c\<lparr>cl_next_id := cl_next_id c + 1\<rparr>)"

type_synonym 'a client_op = "client \<Rightarrow> (StratumError + 'a) \<times> client"

definition send_event :: "stratum_world \<Rightarrow> ClientEvent \<Rightarrow> unit client_op" where
  "send_event env event c =
     (if sw_event_ok env (length (cl_events c)) then (Inr (), c\<lparr>cl_events := cl_events c @ [event]\<rparr>)
      else (Inl Disconnected, c))"

definition write_message :: "stratum_world \<Rightarrow> JsonRpcMessage \<Rightarrow> unit client_op" where
  "write_message env msg c =
     (if sw_write_ok env (length (cl_written c)) then Inr () else Inl Io, c\<lparr>cl_written := cl_written c @ [msg]\<rparr>)"

abbreviation fail :: "StratumError \<Rightarrow> 'a client_op" where
  "fail e \<equiv> \<lambda>c. (Inl e, c)"

abbreviation give :: "'a \<Rightarrow> 'a client_op" where
  "give a \<equiv> \<lambda>c. (Inr a, c)"

subsection \<open>Notifications\<close>

fun as_f64 :: "json \<Rightarrow> rat option" where
  "as_f64 (JPosInt n) = Some (f64 (of_nat (unat n)))"
| "as_f64 (JNegInt i) = Some (f64 (of_int i))"
| "as_f64 (JFloat x) = Some x"
| "as_f64 _ = None"

definition handle_mining_notify :: "stratum_world \<Rightarrow> json \<Rightarrow> unit client_op" where
  "handle_mining_notify env params =
     (case as_array params of
        None \<Rightarrow> fail (InvalidMessage ''mining.notify params not an array'')
      | Some arr \<Rightarrow>
          (case from_stratum_params (sw_hex env) arr of
             Inl e \<Rightarrow> fail (InvalidMessage (''Failed to parse job: '' @ e))
           | Inr job \<Rightarrow> send_event env (NewJob job)))"

definition handle_set_difficulty :: "stratum_world \<Rightarrow> json \<Rightarrow> unit client_op" where
  "handle_set_difficulty env params =
     (case as_array params of
        None \<Rightarrow> fail (InvalidMessage ''set_difficulty params not an array'')
      | Some arr \<Rightarrow>
          if arr = [] then fail (InvalidMessage ''set_difficulty params empty'')
          else case as_f64 (arr ! 0) of
            None \<Rightarrow> fail (InvalidMessage ''difficulty not a number'')
          | Some difficulty \<Rightarrow>
              if difficulty \<le> 0 then fail (InvalidMessage ''difficulty must be positive'')
              else (\<lambda>c. send_event env (DifficultyChanged difficulty)
                          (c\<lparr>cl_state := map_option (ps_difficulty_update (\<lambda>_. Some difficulty)) (cl_state c)\<rparr>)))"

definition handle_set_version_mask :: "stratum_world \<Rightarrow> json \<Rightarrow> unit client_op" where
  "handle_set_version_mask env params =
     (case as_array params of
        None \<Rightarrow> fail (InvalidMessage ''set_version_mask params not an array'')
      | Some arr \<Rightarrow>
          if arr = [] then fail (InvalidMessage ''set_version_mask params empty'')
          else case as_str (arr ! 0) of
            None \<Rightarrow> fail (InvalidMessage ''version_mask not a string'')
          | Some mask_str \<Rightarrow>
              (case u32_from_hex (trim_0x mask_str) of
                 None \<Rightarrow> fail (InvalidMessage ''version_mask not valid hex'')
               | Some vmask \<Rightarrow>
                   (\<lambda>c. send_event env (VersionMaskSet vmask)
                          (c\<lparr>cl_state := map_option (ps_version_mask_update (\<lambda>_. Some vmask)) (cl_state c)\<rparr>))))"

definition handle_notification :: "stratum_world \<Rightarrow> string \<Rightarrow> json \<Rightarrow> unit client_op" where
  "handle_notification env m params =
     (if m = ''mining.notify'' then handle_mining_notify env params
      else if m = ''mining.set_difficulty'' then handle_set_difficulty env params
      else if m = ''mining.set_version_mask'' then handle_set_version_mask env params
      else if m = ''client.reconnect'' then fail Disconnected
      else give ())"

subsection \<open>Requests\<close>

text \<open>
  The loop of \<open>send_request\<close>: replies to other requests and requests of the server are skipped,
  notifications are handled and their errors dropped.
\<close>

fun await_reply :: "stratum_world \<Rightarrow> u64 \<Rightarrow> wait_end \<Rightarrow> read_result list \<Rightarrow> JsonRpcMessage client_op" where
  "await_reply env i finish [] c =
     (Inl (case finish of DeadlinePassed \<Rightarrow> Timeout | ShutdownRequested \<Rightarrow> Disconnected), c\<lparr>cl_queue := []\<rparr>)"
| "await_reply env i finish (r # rs) c =
     (case r of
        Inl e \<Rightarrow> (Inl e, c\<lparr>cl_queue := rs\<rparr>)
      | Inr None \<Rightarrow> (Inl Disconnected, c\<lparr>cl_queue := rs\<rparr>)
      | Inr (Some msg) \<Rightarrow>
          (case msg of
             Response resp_id _ _ \<Rightarrow>
               if resp_id = i then (Inr msg, c\<lparr>cl_queue := rs\<rparr>) else await_reply env i finish rs c
           | Request None m params \<Rightarrow> await_reply env i finish rs (snd (handle_notification env m params c))
           | Request (Some _) _ _ \<Rightarrow> await_reply env i finish rs c))"

definition send_request :: "stratum_world \<Rightarrow> string \<Rightarrow> json \<Rightarrow> JsonRpcMessage client_op" where
  "send_request env m params c =
     (let (i, c) = next_id c; n = length (cl_written c)
      in and_then (write_message env (JsonRpc_request i m params))
           (\<lambda>_ c. await_reply env i (sw_ends env n) (cl_queue c @ sw_arrives env n) c) c)"

definition configure_version_rolling :: "stratum_world \<Rightarrow> u32 option client_op" where
  "configure_version_rolling env c =
     (case send_request env ''mining.configure''
             (JArray [JArray [JString ''version-rolling''],
                JObject [(''version-rolling.mask'', JString ''1fffe000'')]]) c of
        (Inr (Response _ (Some result) None), c) \<Rightarrow>
          (case as_object result of
             None \<Rightarrow> (Inl (InvalidMessage ''configure result not an object''), c)
           | Some obj \<Rightarrow>
               if Option.bind (map_of obj ''version-rolling'') as_bool \<noteq> Some True then (Inr None, c)
               else case Option.bind (map_of obj ''version-rolling.mask'') as_str of
                 None \<Rightarrow> (Inl (InvalidMessage ''Missing version-rolling.mask''), c)
               | Some mask_str \<Rightarrow>
                   (case u32_from_hex (trim_0x mask_str) of
                      None \<Rightarrow> (Inl (InvalidMessage ''Invalid version mask hex''), c)
                    | Some vmask \<Rightarrow> (Inr (Some vmask), c)))
      | (Inr _, c) \<Rightarrow> (Inr None, c)
      | (Inl e, c) \<Rightarrow> if e = Timeout then (Inr None, c) else (Inl e, c))"

definition subscribe :: "stratum_world \<Rightarrow> u32 option \<Rightarrow> unit client_op" where
  "subscribe env authorized_mask c =
     and_then (send_request env ''mining.subscribe'' (JArray [JString (pc_user_agent (cl_config c))]))
       (\<lambda>response c.
          case response of
            Response _ (Some result) None \<Rightarrow>
              (case as_array result of
                 None \<Rightarrow> (Inl (InvalidMessage ''subscribe result not an array''), c)
               | Some arr \<Rightarrow>
                   if length arr < 3 then (Inl (InvalidMessage ''subscribe result too short''), c)
                   else case as_str (arr ! 1) of
                     None \<Rightarrow> (Inl (InvalidMessage ''extranonce1 not a string''), c)
                   | Some extranonce1 \<Rightarrow>
                       (case as_u64 (arr ! 2) of
                          None \<Rightarrow> (Inl (InvalidMessage ''extranonce2_size not a number''), c)
                        | Some extranonce2_size \<Rightarrow>
                            (Inr (), c\<lparr>cl_state := Some \<lparr>ps_extranonce1 = extranonce1,
                               ps_extranonce2_size = unat extranonce2_size, ps_difficulty = None,
                               ps_version_mask = authorized_mask\<rparr>\<rparr>)))
          | Response _ _ (Some error) \<Rightarrow> (Inl (SubscriptionFailed (sw_debug env error)), c)
          | _ \<Rightarrow> (Inl (UnexpectedResponse ''Invalid subscribe response''), c)) c"

definition authorize :: "stratum_world \<Rightarrow> unit client_op" where
  "authorize env c =
     and_then (send_request env ''mining.authorize''
         (JArray [JString (pc_username (cl_config c)), JString (pc_password (cl_config c))]))
       (\<lambda>response c.
          case response of
            Response _ (Some result) None \<Rightarrow>
              if as_bool result = Some True then (Inr (), c)
              else (Inl (AuthorizationFailed ''Pool returned false''), c)
          | Response _ _ (Some error) \<Rightarrow> (Inl (AuthorizationFailed (sw_debug env error)), c)
          | _ \<Rightarrow> (Inl (UnexpectedResponse ''Invalid authorize response''), c)) c"

text \<open>Whatever becomes of the suggestion, it does not fail; a cast to \<open>u64\<close> truncates and saturates.\<close>

definition suggest_difficulty :: "stratum_world \<Rightarrow> rat \<Rightarrow> unit client_op" where
  "suggest_difficulty env difficulty c =
     (let param = (if 1 \<le> difficulty
                   then JArray [JPosInt (of_int (saturate 0 (2 ^ 64 - 1) (trunc_rat difficulty)))]
                   else JArray [JFloat difficulty])
      in (Inr (), snd (send_request env ''mining.suggest_difficulty'' param c)))"

definition submit_reply :: "stratum_world \<Rightarrow> SubmitParams \<Rightarrow> JsonRpcMessage \<Rightarrow> bool client_op" where
  "submit_reply env params response =
     (case response of
        Response _ (Some result) None \<Rightarrow>
          if as_bool result = Some True
          then and_then (send_event env (ShareAccepted (sp_job_id params) (sp_nonce params))) (\<lambda>_. give True)
          else and_then (send_event env (ShareRejected (sp_job_id params) ''Pool returned false'')) (\<lambda>_. give False)
      | Response _ _ (Some error) \<Rightarrow>
          (let reason = (case as_array error of
                           Some arr \<Rightarrow>
                             (case (if 1 < length arr then as_str (arr ! 1) else None) of
                                Some s \<Rightarrow> s | None \<Rightarrow> ''Unknown error'')
                         | None \<Rightarrow> sw_debug env error)
           in and_then (send_event env (ShareRejected (sp_job_id params) reason)) (\<lambda>_. give False))
      | _ \<Rightarrow> fail (UnexpectedResponse ''Invalid submit response''))"

definition submit :: "stratum_world \<Rightarrow> SubmitParams \<Rightarrow> bool client_op" where
  "submit env params c =
     and_then (send_request env ''mining.submit'' (JArray (to_stratum_json (sw_hex env) params)))
       (submit_reply env params) c"

subsection \<open>The run\<close>

text \<open>
  A successful subscription leaves a protocol state (\<open>subscribe_Inr\<close> below), so the \<open>unwrap\<close> of it
  that follows does not panic; the branch for no state is never taken.
\<close>

definition report_and_authorize :: "stratum_world \<Rightarrow> unit client_op" where
  "report_and_authorize env c =
     (case cl_state c of
        None \<Rightarrow> (Inl Disconnected, c)
      | Some state \<Rightarrow>
          (case x_hex_decode (sw_hex env) (ps_extranonce1 state) of
             None \<Rightarrow> (Inl (InvalidMessage ''Invalid extranonce1''), c)
           | Some extranonce1_bytes \<Rightarrow>
               and_then (send_event env (Subscribed extranonce1_bytes (ps_extranonce2_size state)))
                 (\<lambda>_. authorize env) c))"

definition suggest_initial :: "stratum_world \<Rightarrow> unit client_op" where
  "suggest_initial env c =
     (case cl_initial_suggest_difficulty c of
        None \<Rightarrow> (Inr (), c)
      | Some difficulty \<Rightarrow> suggest_difficulty env difficulty c)"

definition handshake :: "stratum_world \<Rightarrow> unit client_op" where
  "handshake env =
     and_then (configure_version_rolling env) (\<lambda>authorized_mask.
     and_then (send_event env (VersionRollingConfigured authorized_mask)) (\<lambda>_.
     and_then (subscribe env authorized_mask) (\<lambda>_.
     and_then (report_and_authorize env) (\<lambda>_.
     suggest_initial env))))"

text \<open>
  What the main loop's \<open>select!\<close> picks: \<open>MainArrive\<close> puts results into the queue, \<open>MainRead\<close> takes
  the next one.
\<close>

datatype main_input = MainArrive "read_result list" | MainRead | MainCommand ClientCommand | MainShutdown

definition main_read :: "stratum_world \<Rightarrow> read_result \<Rightarrow> client \<Rightarrow> (StratumError + unit) option \<times> client" where
  "main_read env r c =
     (case r of
        Inr (Some (Request None m params)) \<Rightarrow>
          (case handle_notification env m params c of
             (Inl e, c) \<Rightarrow> (if e = Disconnected then Some (Inl e) else None, c)
           | (Inr _, c) \<Rightarrow> (None, c))
      | Inr (Some _) \<Rightarrow> (None, c)
      | Inr None \<Rightarrow> (Some (Inl Disconnected), snd (send_event env EvDisconnected c))
      | Inl (InvalidMessage _) \<Rightarrow> (None, c)
      | Inl e \<Rightarrow> (Some (Inl e), c))"

definition main_command :: "stratum_world \<Rightarrow> ClientCommand \<Rightarrow> client \<Rightarrow> (StratumError + unit) option \<times> client" where
  "main_command env cmd c =
     (case cmd of
        CmdSubmitShare params \<Rightarrow>
          (case submit env params c of (Inl e, c) \<Rightarrow> (Some (Inl e), c) | (Inr _, c) \<Rightarrow> (None, c))
      | CmdSuggestDifficulty difficulty \<Rightarrow> (None, snd (suggest_difficulty env difficulty c)))"

definition main_step :: "stratum_world \<Rightarrow> main_input \<Rightarrow> client \<Rightarrow> (StratumError + unit) option \<times> client" where
  "main_step env i c =
     (case i of
        MainArrive rs \<Rightarrow> (None, c\<lparr>cl_queue := cl_queue c @ rs\<rparr>)
      | MainRead \<Rightarrow> (case cl_queue c of [] \<Rightarrow> (None, c) | r # rs \<Rightarrow> main_read env r (c\<lparr>cl_queue := rs\<rparr>))
      | MainCommand cmd \<Rightarrow> main_command env cmd c
      | MainShutdown \<Rightarrow> (Some (Inr ()), snd (send_event env EvDisconnected c)))"

text \<open>The result is \<open>None\<close> while the loop goes on.\<close>

fun main_loop :: "stratum_world \<Rightarrow> main_input list \<Rightarrow> client \<Rightarrow> (StratumError + unit) option \<times> client" where
  "main_loop env [] c = (None, c)"
| "main_loop env (i # is) c =
     (case main_step env i c of
        (Some r, c) \<Rightarrow> (Some r, c)
      | (None, c) \<Rightarrow> main_loop env is c)"

definition run_with_transport ::
    "stratum_world \<Rightarrow> main_input list \<Rightarrow> client \<Rightarrow> (StratumError + unit) option \<times> client" where
  "run_with_transport env is c =
     (case handshake env c of
        (Inl e, c) \<Rightarrow> (Some (Inl e), c)
      | (Inr _, c) \<Rightarrow> main_loop env is c)"

subsection \<open>Framing\<close>

text \<open>
  What handling notifications may change: events of the pool are appended, the queue shrinks and
  the protocol state follows the pool.
\<close>

fun pool_event :: "ClientEvent \<Rightarrow> bool" where
  "pool_event (NewJob _) = True"
| "pool_event (DifficultyChanged _) = True"
| "pool_event (VersionMaskSet _) = True"
| "pool_event _ = False"

definition notified :: "client \<Rightarrow> client \<Rightarrow> bool" where
  "notified c d \<longleftrightarrow>
     cl_config d = cl_config c \<and> cl_next_id d = cl_next_id c \<and> cl_written d = cl_written c \<and>
     cl_initial_suggest_difficulty d = cl_initial_suggest_difficulty c \<and>
     (cl_state c = None \<longleftrightarrow> cl_state d = None) \<and>
     (\<exists>evs. cl_events d = cl_events c @ evs \<and> list_all pool_event evs)"

lemma notified_refl [simp]: "notified c c"
  by (simp add: notified_def)

lemma notified_trans: "notified c d \<Longrightarrow> notified d e \<Longrightarrow> notified c e"
  unfolding notified_def by (elim conjE exE) (auto intro!: exI [of _ "_ @ _"])

lemma notified_queue [simp]: "notified c (d\<lparr>cl_queue := q\<rparr>) \<longleftrightarrow> notified c d"
  by (simp add: notified_def)

lemma send_event_cases:
  "(\<exists>d. send_event env ev c = (Inr (), d) \<and> d = c\<lparr>cl_events := cl_events c @ [ev]\<rparr>) \<or> send_event env ev c = (Inl Disconnected, c)"
  by (simp add: send_event_def)

lemma notified_send_event: "pool_event ev \<Longrightarrow> notified c (snd (send_event env ev c))"
  by (simp add: send_event_def notified_def)

lemma notified_handle_notification: "notified c (snd (handle_notification env m params c))"
proof -
  have state: "notified c (snd (send_event env ev (c\<lparr>cl_state := map_option f (cl_state c)\<rparr>)))" if "pool_event ev" for ev f
    using that by (simp add: send_event_def notified_def)
  show ?thesis
    unfolding handle_notification_def handle_mining_notify_def handle_set_difficulty_def handle_set_version_mask_def
    by (auto simp: state notified_send_event split: option.splits sum.splits)
qed

lemma notified_await_reply: "notified c (snd (await_reply env i finish rs c))"
proof (induction rs arbitrary: c)
  case (Cons r rs)
  have "notified c (snd (await_reply env i finish rs (snd (handle_notification env m params c))))" for m params
    by (rule notified_trans [OF notified_handle_notification Cons.IH])
  then show ?case
    by (auto simp: Cons.IH split: sum.splits option.splits JsonRpcMessage.splits)
qed simp

lemma await_reply_response:
  "await_reply env i finish rs c = (Inr msg, d) \<Longrightarrow> \<exists>a b. msg = Response i a b"
  by (induction rs arbitrary: c) (auto split: sum.splits option.splits JsonRpcMessage.splits if_splits)

text \<open>One request: a message with the next number is written, then notifications are handled.\<close>

definition requested :: "string \<Rightarrow> json \<Rightarrow> client \<Rightarrow> client \<Rightarrow> bool" where
  "requested m params c d \<longleftrightarrow>
     notified (c\<lparr>cl_next_id := cl_next_id c + 1,
                cl_written := cl_written c @ [Request (Some (cl_next_id c)) m params]\<rparr>) d"

lemma requested_send_request: "requested m params c (snd (send_request env m params c))"
  unfolding requested_def send_request_def next_id_def write_message_def and_then_def Let_def JsonRpc_request_def
  using notified_await_reply by (auto split: prod.splits)

lemma send_request_Inr:
  assumes "send_request env m params c = (Inr msg, d)"
  shows "requested m params c d \<and> (\<exists>a b. msg = Response (cl_next_id c) a b)"
  using assms requested_send_request [of m params c env]
  by (auto simp: send_request_def next_id_def and_then_def Let_def write_message_def JsonRpc_request_def
      dest!: await_reply_response split: prod.splits if_splits)

subsection \<open>Numbers of requests\<close>

fun message_number :: "JsonRpcMessage \<Rightarrow> u64 option" where
  "message_number (Request i _ _) = i"
| "message_number (Response i _ _) = Some i"

definition numbered_requests :: "client \<Rightarrow> bool" where
  "numbered_requests c \<longleftrightarrow>
     cl_next_id c = of_nat (Suc (length (cl_written c))) \<and>
     map message_number (cl_written c) = map (Some \<circ> of_nat) [1..<Suc (length (cl_written c))]"

lemma numbered_new: "numbered_requests (with_commands config d)"
  by (simp add: numbered_requests_def with_commands_def)

lemma numbered_notified: "notified c d \<Longrightarrow> numbered_requests c \<Longrightarrow> numbered_requests d"
  by (simp add: notified_def numbered_requests_def)

lemma numbered_requested: "requested m params c d \<Longrightarrow> numbered_requests c \<Longrightarrow> numbered_requests d"
  unfolding requested_def by (erule numbered_notified) (simp add: numbered_requests_def)

lemma numbered_events [simp]: "numbered_requests (c\<lparr>cl_events := e\<rparr>) = numbered_requests c"
  "numbered_requests (c\<lparr>cl_queue := q\<rparr>) = numbered_requests c"
  "numbered_requests (c\<lparr>cl_state := s\<rparr>) = numbered_requests c"
  by (simp_all add: numbered_requests_def)

lemma numbered_send_event: "numbered_requests c \<Longrightarrow> numbered_requests (snd (send_event env ev c))"
  by (simp add: send_event_def)

text \<open>The interface of an operation of the client: it keeps the numbering.\<close>

locale client_operation =
  fixes run_op :: "'a client_op"
  assumes keeps_numbering: "numbered_requests c \<Longrightarrow> numbered_requests (snd (run_op c))"
begin

lemma keeps_numbering_result: "run_op c = (r, d) \<Longrightarrow> numbered_requests c \<Longrightarrow> numbered_requests d"
  using keeps_numbering [of c] by simp

lemma keeps_numbering_and_then:
  assumes "\<And>a c. numbered_requests c \<Longrightarrow> numbered_requests (snd (g a c))" and "numbered_requests c"
  shows "numbered_requests (snd (and_then run_op g c))"
  using assms keeps_numbering_result [of c] by (auto simp: and_then_def split: prod.splits sum.splits)

end

interpretation sr: client_operation "send_request env m params"
  by unfold_locales (rule numbered_requested [OF requested_send_request])

interpretation em: client_operation "send_event env ev"
  by unfold_locales (rule numbered_send_event)

lemma numbered_configure: "numbered_requests c \<Longrightarrow> numbered_requests (snd (configure_version_rolling env c))"
  unfolding configure_version_rolling_def
  by (auto split: prod.splits sum.splits JsonRpcMessage.splits option.splits dest: sr.keeps_numbering_result)

interpretation cf: client_operation "configure_version_rolling env"
  by unfold_locales (rule numbered_configure)

lemma numbered_subscribe: "numbered_requests c \<Longrightarrow> numbered_requests (snd (subscribe env authorized c))"
  unfolding subscribe_def
  by (rule sr.keeps_numbering_and_then) (auto split: JsonRpcMessage.splits option.splits)

interpretation sb: client_operation "subscribe env authorized"
  by unfold_locales (rule numbered_subscribe)

lemma numbered_authorize: "numbered_requests c \<Longrightarrow> numbered_requests (snd (authorize env c))"
  unfolding authorize_def
  by (rule sr.keeps_numbering_and_then) (auto split: JsonRpcMessage.splits option.splits)

interpretation au: client_operation "authorize env"
  by unfold_locales (rule numbered_authorize)

interpretation sd: client_operation "suggest_difficulty env difficulty"
  by unfold_locales (simp add: suggest_difficulty_def Let_def sr.keeps_numbering)

lemma numbered_submit_reply: "numbered_requests c \<Longrightarrow> numbered_requests (snd (submit_reply env params msg c))"
  unfolding submit_reply_def
  by (auto simp: Let_def em.keeps_numbering_and_then split: JsonRpcMessage.splits option.splits)

lemma numbered_submit: "numbered_requests c \<Longrightarrow> numbered_requests (snd (submit env params c))"
  unfolding submit_def by (rule sr.keeps_numbering_and_then [OF numbered_submit_reply])

interpretation su: client_operation "submit env params"
  by unfold_locales (rule numbered_submit)

lemma numbered_report: "numbered_requests c \<Longrightarrow> numbered_requests (snd (report_and_authorize env c))"
  unfolding report_and_authorize_def
  by (auto split: option.splits intro: em.keeps_numbering_and_then au.keeps_numbering)

interpretation ra: client_operation "report_and_authorize env"
  by unfold_locales (rule numbered_report)

lemma numbered_handshake: "numbered_requests c \<Longrightarrow> numbered_requests (snd (handshake env c))"
  unfolding handshake_def suggest_initial_def
  by (intro cf.keeps_numbering_and_then em.keeps_numbering_and_then sb.keeps_numbering_and_then
      ra.keeps_numbering_and_then)
    (auto split: option.splits intro: sd.keeps_numbering)

interpretation hn: client_operation "handle_notification env m params"
  by unfold_locales (rule numbered_notified [OF notified_handle_notification])

lemma numbered_main_step: "numbered_requests c \<Longrightarrow> numbered_requests (snd (main_step env i c))"
  by (cases i)
    (auto simp: main_step_def main_read_def main_command_def sd.keeps_numbering em.keeps_numbering
      dest: su.keeps_numbering_result hn.keeps_numbering_result
      split: list.splits sum.splits option.splits JsonRpcMessage.splits StratumError.splits prod.splits ClientCommand.splits)

lemma numbered_main_loop: "numbered_requests c \<Longrightarrow> numbered_requests (snd (main_loop env is c))"
proof (induction "is" arbitrary: c)
  case (Cons i "is")
  then show ?case using numbered_main_step [of c env i] by (auto split: prod.splits option.splits)
qed simp

lemma numbered_run: "numbered_requests c \<Longrightarrow> numbered_requests (snd (run_with_transport env is c))"
  using numbered_handshake [of c env] numbered_main_loop [of _ env "is"]
  by (auto simp: run_with_transport_def split: prod.splits sum.splits)

subsection \<open>Which reply answers a request\<close>

text \<open>Results the wait passes over: every message but the reply with the awaited number.\<close>

fun passed_over :: "u64 \<Rightarrow> read_result \<Rightarrow> bool" where
  "passed_over i (Inr (Some (Response j _ _))) = (j \<noteq> i)"
| "passed_over i (Inr (Some (Request _ _ _))) = True"
| "passed_over i _ = False"

text \<open>The notifications among them, handled in order.\<close>

fun handle_passed :: "stratum_world \<Rightarrow> read_result list \<Rightarrow> client \<Rightarrow> client" where
  "handle_passed env [] c = c"
| "handle_passed env (Inr (Some (Request None m params)) # rs) c =
     handle_passed env rs (snd (handle_notification env m params c))"
| "handle_passed env (r # rs) c = handle_passed env rs c"

lemma notified_handle_passed: "notified c (handle_passed env rs c)"
proof (induction env rs c rule: handle_passed.induct)
  case (2 env m params rs c)
  then show ?case using notified_trans [OF notified_handle_notification] by simp
qed simp_all

lemma await_reply_passed:
  "list_all (passed_over i) before \<Longrightarrow>
     await_reply env i finish (before @ rs) c = await_reply env i finish rs (handle_passed env before c)"
proof (induction before arbitrary: c)
  case (Cons r before)
  then show ?case
    by (cases "(i, r)" rule: passed_over.cases) (auto split: option.splits)
qed simp

lemma split_at_reply:
  "list_all (passed_over i) rs \<or>
   (\<exists>before r rest. rs = before @ r # rest \<and> list_all (passed_over i) before \<and> \<not> passed_over i r)"
proof (cases "list_all (passed_over i) rs")
  case False
  then have "\<exists>r \<in> set rs. \<not> passed_over i r" by (simp add: list_all_iff)
  from split_list_first_prop [OF this] show ?thesis by (auto simp: list_all_iff)
qed simp

text \<open>Exactly one verdict on a submission that returns, after what the pool announced before it.\<close>

fun verdict :: "SubmitParams \<Rightarrow> bool \<Rightarrow> ClientEvent \<Rightarrow> bool" where
  "verdict p ok (ShareAccepted job n) = (ok \<and> job = sp_job_id p \<and> n = sp_nonce p)"
| "verdict p ok (ShareRejected job _) = (\<not> ok \<and> job = sp_job_id p)"
| "verdict p ok _ = False"

lemma submit_reply_Inr:
  assumes "submit_reply env p msg c = (Inr ok, d)"
  shows "\<exists>ev. cl_events d = cl_events c @ [ev] \<and> verdict p ok ev"
  using assms
  by (auto simp: submit_reply_def Let_def and_then_def send_event_def
      split: JsonRpcMessage.splits option.splits if_splits)

lemma submit_reply_Inl:
  assumes "submit_reply env p msg c = (Inl e, d)"
  shows "cl_events d = cl_events c"
  using assms
  by (auto simp: submit_reply_def Let_def and_then_def send_event_def
      split: JsonRpcMessage.splits option.splits if_splits)

lemma send_request_events:
  "\<exists>evs. cl_events (snd (send_request env m params c)) = cl_events c @ evs \<and> list_all pool_event evs"
  using requested_send_request [of m params c env] by (simp add: requested_def notified_def)

lemma submit_Inr:
  assumes "submit env p c = (Inr ok, d)"
  shows "\<exists>evs ev. cl_events d = cl_events c @ evs @ [ev] \<and> list_all pool_event evs \<and> verdict p ok ev"
proof -
  obtain msg u where u: "send_request env ''mining.submit'' (JArray (to_stratum_json (sw_hex env) p)) c = (Inr msg, u)"
    and d: "submit_reply env p msg u = (Inr ok, d)"
    using assms unfolding submit_def and_then_Inr_iff by blast
  have "\<exists>evs. cl_events u = cl_events c @ evs \<and> list_all pool_event evs"
    using send_request_events [of env _ _ c] u by (metis snd_conv)
  with submit_reply_Inr [OF d] show ?thesis by fastforce
qed

lemma submit_Inl_events:
  assumes "submit env p c = (Inl e, d)"
  shows "\<exists>evs. cl_events d = cl_events c @ evs \<and> list_all pool_event evs"
proof -
  obtain r u where u: "send_request env ''mining.submit'' (JArray (to_stratum_json (sw_hex env) p)) c = (r, u)"
    by fastforce
  have "cl_events d = cl_events u"
    using assms u submit_reply_Inl by (cases r) (auto simp: submit_def and_then_def)
  then show ?thesis using send_request_events [of env _ _ c] u by (metis snd_conv)
qed

text \<open>A request of the pool to reconnect ends the main loop but is lost while a reply is awaited.\<close>

lemma reconnect_in_main_loop:
  "main_read env (Inr (Some (Request None ''client.reconnect'' params))) c = (Some (Inl Disconnected), c)"
  by (simp add: main_read_def handle_notification_def)

lemma reconnect_while_waiting:
  assumes "list_all (passed_over i) before"
  shows "await_reply env i finish (before @ Inr (Some (Request None ''client.reconnect'' params)) # rs) c =
    await_reply env i finish (before @ rs) c"
  using assms by (simp add: await_reply_passed handle_notification_def)

text \<open>A line that is no message is ignored by the main loop but ends the run while a share is submitted.\<close>

lemma malformed_in_main_loop: "main_read env (Inl (InvalidMessage e)) c = (None, c)"
  by (simp add: main_read_def)

lemma malformed_while_submitting:
  assumes "sw_write_ok env (length (cl_written c))" and "list_all (passed_over (cl_next_id c)) before"
    and "cl_queue c @ sw_arrives env (length (cl_written c)) = before @ Inl (InvalidMessage e) # rs"
  shows "fst (main_step env (MainCommand (CmdSubmitShare p)) c) = Some (Inl (InvalidMessage e))"
  using assms
  by (simp add: main_step_def main_command_def submit_def and_then_def send_request_def next_id_def
      write_message_def Let_def await_reply_passed)

text \<open>The handshake reports the version mask, then the subscription; the pool's announcements lie between.\<close>

lemma configure_events:
  assumes "configure_version_rolling env c = (Inr authorized, d)"
  shows "\<exists>evs. cl_events d = cl_events c @ evs \<and> list_all pool_event evs"
proof -
  let ?r = "send_request env ''mining.configure'' (JArray [JArray [JString ''version-rolling''],
    JObject [(''version-rolling.mask'', JString ''1fffe000'')]]) c"
  have "d = snd ?r"
    using assms unfolding configure_version_rolling_def
    by (auto split: prod.splits sum.splits JsonRpcMessage.splits option.splits if_splits)
  then show ?thesis using send_request_events by blast
qed

lemma subscribe_Inr:
  assumes "subscribe env authorized c = (Inr (), d)"
  shows "(\<exists>evs. cl_events d = cl_events c @ evs \<and> list_all pool_event evs) \<and> cl_state d \<noteq> None"
proof -
  let ?r = "send_request env ''mining.subscribe'' (JArray [JString (pc_user_agent (cl_config c))]) c"
  have "cl_events d = cl_events (snd ?r) \<and> cl_state d \<noteq> None"
    using assms unfolding subscribe_def and_then_def
    by (auto split: prod.splits sum.splits JsonRpcMessage.splits option.splits if_splits)
  then show ?thesis using send_request_events by metis
qed

lemma authorize_Inr:
  assumes "authorize env c = (Inr (), d)"
  shows "\<exists>evs. cl_events d = cl_events c @ evs \<and> list_all pool_event evs"
proof -
  let ?r = "send_request env ''mining.authorize''
    (JArray [JString (pc_username (cl_config c)), JString (pc_password (cl_config c))]) c"
  have "d = snd ?r"
    using assms unfolding authorize_def and_then_def
    by (auto split: prod.splits sum.splits JsonRpcMessage.splits option.splits if_splits)
  then show ?thesis using send_request_events by blast
qed

lemma send_event_Inr: "send_event env ev c = (Inr (), d) \<longleftrightarrow> sw_event_ok env (length (cl_events c)) \<and> d = c\<lparr>cl_events := cl_events c @ [ev]\<rparr>"
  by (auto simp: send_event_def)

lemma report_Inr:
  assumes "report_and_authorize env c = (Inr (), d)"
  shows "\<exists>en size evs. cl_events d = cl_events c @ [Subscribed en size] @ evs \<and> list_all pool_event evs"
proof -
  obtain en size c' where "send_event env (Subscribed en size) c = (Inr (), c')" and "authorize env c' = (Inr (), d)"
    using assms by (auto simp: report_and_authorize_def and_then_Inr_iff split: option.splits)
  then show ?thesis using authorize_Inr by (fastforce simp: send_event_Inr)
qed

lemma suggest_initial_events:
  "\<exists>evs. cl_events (snd (suggest_initial env c)) = cl_events c @ evs \<and> list_all pool_event evs"
  using send_request_events by (auto simp: suggest_initial_def suggest_difficulty_def Let_def split: option.splits)

lemma handshake_events:
  assumes "handshake env c = (Inr (), d)"
  shows "\<exists>e1 authorized e2 en size e3.
    cl_events d = cl_events c @ e1 @ [VersionRollingConfigured authorized] @ e2 @ [Subscribed en size] @ e3 \<and>
    list_all pool_event (e1 @ e2 @ e3)"
proof -
  obtain authorized c1 c2 c3 c4 where
    c1: "configure_version_rolling env c = (Inr authorized, c1)"
    and c2: "send_event env (VersionRollingConfigured authorized) c1 = (Inr (), c2)"
    and c3: "subscribe env authorized c2 = (Inr (), c3)"
    and c4: "report_and_authorize env c3 = (Inr (), c4)"
    and d: "suggest_initial env c4 = (Inr (), d)"
    using assms unfolding handshake_def and_then_Inr_iff by auto
  obtain e1 where e1: "cl_events c1 = cl_events c @ e1" "list_all pool_event e1" using configure_events [OF c1] by blast
  obtain e2 where e2: "cl_events c3 = cl_events c2 @ e2" "list_all pool_event e2" using subscribe_Inr [OF c3] by blast
  obtain en size e3 where e3: "cl_events c4 = cl_events c3 @ [Subscribed en size] @ e3" "list_all pool_event e3"
    using report_Inr [OF c4] by blast
  obtain e4 where e4: "cl_events d = cl_events c4 @ e4" "list_all pool_event e4"
    using suggest_initial_events [of env c4] d by auto
  have "cl_events d = cl_events c @ e1 @ [VersionRollingConfigured authorized] @ e2 @ [Subscribed en size] @ (e3 @ e4)"
    using c2 e1(1) e2(1) e3(1) e4(1) by (simp add: send_event_Inr)
  moreover have "list_all pool_event (e1 @ e2 @ (e3 @ e4))" using e1(2) e2(2) e3(2) e4(2) by simp
  ultimately show ?thesis by (intro exI conjI)
qed

end
