(* ===== verification/Stratum_Source.thy ===== *)
theory Stratum_Source
  imports Stratum_Client Scheduler
begin

text \<open>
  The Stratum v1 job source, \<open>job_source/stratum_v1.rs\<close>: conversion between the pool's messages
  and the scheduler's, throttled difficulty suggestions, and the life cycle of connections with
  its backoff. A step of the run gets what its \<open>select!\<close> picks and the time; a panic is \<open>None\<close>. What
  the source sends is logged, the commands to the current connection's client with their times, and so is
  the difficulty that client was created with, which it suggests at the end of its handshake.
\<close>

subsection \<open>Constants and backoff\<close>

abbreviation seconds :: "nat \<Rightarrow> duration" where
  "seconds n \<equiv> n * 1000000000"

definition SUGGESTED_SHARE_RATE :: ShareRate where
  "SUGGESTED_SHARE_RATE = seconds 3"

definition DOWN_FACTOR :: rat where
  "DOWN_FACTOR = 1.25"

definition UP_FACTOR :: rat where
  "UP_FACTOR = 1.5"

definition SUGGEST_MIN_INTERVAL :: duration where
  "SUGGEST_MIN_INTERVAL = seconds 5"

definition STABLE_CONNECTION_THRESHOLD :: duration where
  "STABLE_CONNECTION_THRESHOLD = seconds 60"

definition INITIAL_RECONNECT_DELAY :: duration where
  "INITIAL_RECONNECT_DELAY = seconds 1"

definition MAX_RECONNECT_DELAY :: duration where
  "MAX_RECONNECT_DELAY = seconds 60"

definition MAX_JOB_GAP :: duration where
  "MAX_JOB_GAP = seconds (2 * 60)"

record ExponentialBackoff =
  bo_current :: duration
  bo_initial :: duration
  bo_max :: duration
  bo_jitter_step :: u64

definition ExponentialBackoff_new :: "duration \<Rightarrow> duration \<Rightarrow> ExponentialBackoff" where
  "ExponentialBackoff_new initial maximum =
     \<lparr>bo_current = initial, bo_initial = initial, bo_max = maximum, bo_jitter_step = 0\<rparr>"

text \<open>\<open>hasher\<close> is the process's seeded hash of the step; \<open>mul_f64\<close> goes through seconds as floats.\<close>

definition mul_f64 :: "duration \<Rightarrow> rat \<Rightarrow> duration option" where
  "mul_f64 d x = from_secs_f64 (f64 (as_secs_f64 d * x))"

definition next_delay :: "(u64 \<Rightarrow> u64) \<Rightarrow> ExponentialBackoff \<Rightarrow> (duration \<times> ExponentialBackoff) option" where
  "next_delay hasher b =
     (let nominal = bo_current b;
          b = b\<lparr>bo_current := min (bo_current b * 2) (bo_max b)\<rparr>;
          hash = hasher (bo_jitter_step b);
          b = b\<lparr>bo_jitter_step := bo_jitter_step b + 1\<rparr>;
          jitter = f64 (1 / 2 + f64 (f64 (f64 (of_nat (unat hash)) / f64 (2 ^ 64 - 1)) * (1 / 2)))
      in map_option (\<lambda>delay. (delay, b)) (mul_f64 nominal jitter))"

definition backoff_reset :: "ExponentialBackoff \<Rightarrow> ExponentialBackoff" where
  "backoff_reset b = b\<lparr>bo_current := bo_initial b\<rparr>"

subsection \<open>State\<close>

record SourceProtocolState =
  sps_extranonce1 :: bytes
  sps_extranonce2_size :: nat
  sps_share_difficulty :: "Difficulty option"
  sps_version_mask :: "u32 option"

record source_ext =
  se_decode :: decoder
  se_target_max :: Target
  se_floats :: float_functions
  se_hasher :: "u64 \<Rightarrow> u64"
  se_event_ok :: "nat \<Rightarrow> bool"
  se_command_ok :: "nat \<Rightarrow> bool"

record stratum_source =
  sv_config :: PoolConfig
  sv_state :: "SourceProtocolState option"
  sv_first_share_logged :: bool
  sv_expected_hashrate :: HashRate
  sv_last_suggested_difficulty :: "rat option"
  sv_cooldown_until :: "instant option"
  sv_events :: "SourceEvent list"
  sv_handshake_suggestion :: "rat option"
  sv_commands :: "(instant \<times> ClientCommand) list"

definition StratumV1Source_new :: "PoolConfig \<Rightarrow> stratum_source" where
  "StratumV1Source_new config =
     \<lparr>sv_config = config, sv_state = None, sv_first_share_logged = False, sv_expected_hashrate = 0,
      sv_last_suggested_difficulty = None, sv_cooldown_until = None, sv_events = [],
      sv_handshake_suggestion = None, sv_commands = []\<rparr>"

definition strip_prefix :: "string \<Rightarrow> string \<Rightarrow> string option" where
  "strip_prefix p s = (if take (length p) s = p then Some (drop (length p) s) else None)"

definition source_name :: "stratum_source \<Rightarrow> string" where
  "source_name s =
     (let url = pc_url (sv_config s)
      in case strip_prefix ''stratum+tcp://'' url of
           Some r \<Rightarrow> r
         | None \<Rightarrow>
             (case strip_prefix ''stratum://'' url of
                Some r \<Rightarrow> r
              | None \<Rightarrow> (case strip_prefix ''tcp://'' url of Some r \<Rightarrow> r | None \<Rightarrow> url)))"

subsection \<open>Jobs and shares\<close>

datatype source_error =
  NotSubscribed
| BadExtranonceSize ExtranonceError
| BadVersion VersionTemplateError
| SendFailed

definition be_bytes4 :: "u32 \<Rightarrow> bytes4" where
  "be_bytes4 w = (ucast (drop_bit 24 w), ucast (drop_bit 16 w), ucast (drop_bit 8 w), ucast w)"

definition job_to_template ::
    "source_ext \<Rightarrow> JobNotification \<Rightarrow> stratum_source \<Rightarrow> source_error + JobTemplate" where
  "job_to_template ext job s =
     (case sv_state s of
        None \<Rightarrow> Inl NotSubscribed
      | Some state \<Rightarrow>
          (case ExtranonceRange_full (sps_extranonce2_size state) of
             Inl e \<Rightarrow> Inl (BadExtranonceSize e)
           | Inr extranonce_range \<Rightarrow>
               (let gp_bits_mask = (case sps_version_mask state of
                      Some vmask \<Rightarrow> GP_from_mask (be_bytes4 vmask) | None \<Rightarrow> GP_none)
                in case VersionTemplate_new (jn_version job) gp_bits_mask of
                     Inl e \<Rightarrow> Inl (BadVersion e)
                   | Inr version_template \<Rightarrow>
                       (let share_difficulty = (case sps_share_difficulty state of
                              Some d \<Rightarrow> d | None \<Rightarrow> Difficulty_from_u64 (se_target_max ext) 1);
                            share_target = difficulty_target share_difficulty
                        in Inr \<lparr>jt_id = jn_job_id job, jt_prev_blockhash = jn_prev_hash job,
                             jt_version = version_template, jt_bits = jn_nbits job,
                             jt_share_target = share_target, jt_time = jn_ntime job,
                             jt_merkle_root = Computed
                               \<lparr>mt_coinbase_prefix = jn_coinbase1 job,
                                mt_extranonce_prefix = sps_extranonce1 state,
                                mt_extranonce_range = extranonce_range,
                                mt_coinbase_suffix = jn_coinbase2 job,
                                mt_merkle_branches = jn_merkle_branches job\<rparr>\<rparr>))))"

definition send_to_scheduler ::
    "source_ext \<Rightarrow> SourceEvent \<Rightarrow> stratum_source \<Rightarrow> (source_error + unit) \<times> stratum_source" where
  "send_to_scheduler ext event s =
     (if se_event_ok ext (length (sv_events s)) then (Inr (), s\<lparr>sv_events := sv_events s @ [event]\<rparr>)
      else (Inl SendFailed, s))"

definition handle_client_event ::
    "source_ext \<Rightarrow> ClientEvent \<Rightarrow> stratum_source \<Rightarrow> ((source_error + unit) \<times> stratum_source) option" where
  "handle_client_event ext event s =
     (case event of
        VersionRollingConfigured authorized_mask \<Rightarrow>
          Some (Inr (), s\<lparr>sv_state := Some (case sv_state s of
            Some state \<Rightarrow> state\<lparr>sps_version_mask := authorized_mask\<rparr>
          | None \<Rightarrow> \<lparr>sps_extranonce1 = [], sps_extranonce2_size = 0, sps_share_difficulty = None,
                     sps_version_mask = authorized_mask\<rparr>)\<rparr>)
      | Subscribed extranonce1 extranonce2_size \<Rightarrow>
          Some (Inr (), s\<lparr>sv_state := Some (case sv_state s of
            Some state \<Rightarrow> state\<lparr>sps_extranonce1 := extranonce1, sps_extranonce2_size := extranonce2_size\<rparr>
          | None \<Rightarrow> \<lparr>sps_extranonce1 = extranonce1, sps_extranonce2_size = extranonce2_size,
                     sps_share_difficulty = None, sps_version_mask = None\<rparr>)\<rparr>)
      | NewJob job \<Rightarrow>
          (case job_to_template ext job s of
             Inl e \<Rightarrow> Some (Inl e, s)
           | Inr template \<Rightarrow>
               Some (send_to_scheduler ext (if jn_clean_jobs job then ReplaceJob template else UpdateJob template) s))
      | DifficultyChanged diff \<Rightarrow>
          map_option (\<lambda>difficulty. (Inr (),
              s\<lparr>sv_state := map_option (sps_share_difficulty_update (\<lambda>_. Some difficulty)) (sv_state s)\<rparr>))
            (Difficulty_from_f64 (se_decode ext) (se_target_max ext) diff)
      | VersionMaskSet vmask \<Rightarrow>
          Some (Inr (), s\<lparr>sv_state := map_option (sps_version_mask_update (\<lambda>_. Some vmask)) (sv_state s)\<rparr>)
      | ShareAccepted _ _ \<Rightarrow> Some (Inr (), s\<lparr>sv_first_share_logged := True\<rparr>)
      | _ \<Rightarrow> Some (Inr (), s))"

definition share_to_submit_params :: "SourceShare \<Rightarrow> stratum_source \<Rightarrow> source_error + SubmitParams" where
  "share_to_submit_params share s =
     (case sv_state s of
        None \<Rightarrow> Inl NotSubscribed
      | Some state \<Rightarrow>
          (let extranonce2 = (case ss_extranonce share of
                 Some e \<Rightarrow> Extranonce_bytes e | None \<Rightarrow> replicate (sps_extranonce2_size state) 0);
               version_bits = map_option (\<lambda>vmask. ss_version share AND vmask) (sps_version_mask state)
           in Inr \<lparr>sp_username = pc_username (sv_config s), sp_job_id = ss_job_id share,
                sp_extranonce2 = extranonce2, sp_ntime = ss_time share, sp_nonce = ss_nonce share,
                sp_version_bits = version_bits\<rparr>))"

subsection \<open>Suggested difficulties\<close>

definition compute_suggested_difficulty :: "source_ext \<Rightarrow> HashRate \<Rightarrow> rat option option" where
  "compute_suggested_difficulty ext hashrate =
     (if HashRate_is_zero hashrate then Some None
      else map_option (\<lambda>target. Some (Difficulty_as_f64 (se_floats ext) (Difficulty target)))
        (to_target (se_decode ext) SUGGESTED_SHARE_RATE hashrate))"

definition is_material_change :: "rat \<Rightarrow> rat option \<Rightarrow> bool" where
  "is_material_change new_diff last_suggested =
     (case last_suggested of
        None \<Rightarrow> True
      | Some lowest \<Rightarrow> new_diff \<le> f64 (lowest / DOWN_FACTOR) \<or> f64 (lowest * UP_FACTOR) \<le> new_diff)"

definition send_command :: "source_ext \<Rightarrow> instant \<Rightarrow> ClientCommand \<Rightarrow> stratum_source \<Rightarrow> stratum_source" where
  "send_command ext now cmd s =
     (if se_command_ok ext (length (sv_commands s)) then s\<lparr>sv_commands := sv_commands s @ [(now, cmd)]\<rparr> else s)"

definition send_suggest :: "source_ext \<Rightarrow> instant \<Rightarrow> rat \<Rightarrow> stratum_source \<Rightarrow> stratum_source" where
  "send_suggest ext now new_diff s =
     send_command ext now (CmdSuggestDifficulty new_diff)
       (s\<lparr>sv_last_suggested_difficulty := Some new_diff,
          sv_cooldown_until := Some (now + int SUGGEST_MIN_INTERVAL)\<rparr>)"

definition in_cooldown :: "instant \<Rightarrow> stratum_source \<Rightarrow> bool" where
  "in_cooldown now s = (case sv_cooldown_until s of None \<Rightarrow> False | Some until \<Rightarrow> now < until)"

definition maybe_suggest_difficulty :: "source_ext \<Rightarrow> instant \<Rightarrow> stratum_source \<Rightarrow> stratum_source option" where
  "maybe_suggest_difficulty ext now s =
     map_option
       (\<lambda>suggestion. case suggestion of
          None \<Rightarrow> s
        | Some new_diff \<Rightarrow>
            if \<not> is_material_change new_diff (sv_last_suggested_difficulty s) then s
            else if in_cooldown now s then s
            else send_suggest ext now new_diff s)
       (compute_suggested_difficulty ext (sv_expected_hashrate s))"

definition flush_suggest :: "source_ext \<Rightarrow> instant \<Rightarrow> stratum_source \<Rightarrow> stratum_source option" where
  "flush_suggest ext now s =
     map_option
       (\<lambda>suggestion. case suggestion of
          None \<Rightarrow> s\<lparr>sv_cooldown_until := None\<rparr>
        | Some diff \<Rightarrow>
            if is_material_change diff (sv_last_suggested_difficulty s) then send_suggest ext now diff s
            else s\<lparr>sv_cooldown_until := None\<rparr>)
       (compute_suggested_difficulty ext (sv_expected_hashrate s))"

subsection \<open>The run\<close>

text \<open>
  Phases of \<open>run\<close> and \<open>connect_and_run\<close>: waiting for a hashrate, connecting since a time, connected
  with the time of the last job, waiting until a time, or returned.
\<close>

datatype phase =
  AwaitingHashRate
| Connecting instant
| Connected instant instant
| BackingOff instant
| Finished "StratumError option"
| ClientPanicked

datatype client_exit = ExitOk | ExitErr StratumError | ExitPanicked

datatype source_input =
  InCommand SourceCommand
| InConnected
| InConnectFailed StratumError
| InEvent ClientEvent
| InClientExit client_exit
| InCooldownExpired
| InGapExpired
| InBackoffElapsed
| InShutdown

record source_run =
  sr_source :: stratum_source
  sr_backoff :: ExponentialBackoff
  sr_phase :: phase

definition source_run_new :: "PoolConfig \<Rightarrow> source_run" where
  "source_run_new config =
     \<lparr>sr_source = StratumV1Source_new config,
      sr_backoff = ExponentialBackoff_new INITIAL_RECONNECT_DELAY MAX_RECONNECT_DELAY,
      sr_phase = AwaitingHashRate\<rparr>"

definition start_connection :: "source_ext \<Rightarrow> instant \<Rightarrow> source_run \<Rightarrow> source_run option" where
  "start_connection ext now r =
     (let s = (sr_source r)\<lparr>sv_state := None, sv_first_share_logged := False\<rparr>
      in map_option
           (\<lambda>initial_difficulty.
              r\<lparr>sr_source := s\<lparr>sv_last_suggested_difficulty := initial_difficulty,
                  sv_cooldown_until := None, sv_handshake_suggestion := initial_difficulty, sv_commands := []\<rparr>,
                sr_phase := Connecting now\<rparr>)
           (compute_suggested_difficulty ext (sv_expected_hashrate s)))"

definition disconnected :: "source_ext \<Rightarrow> instant \<Rightarrow> instant \<Rightarrow> source_run \<Rightarrow> source_run option" where
  "disconnected ext now connected_at r =
     (let s = snd (send_to_scheduler ext ClearJobs (sr_source r));
          backoff = (if STABLE_CONNECTION_THRESHOLD \<le> duration_since now connected_at
                     then backoff_reset (sr_backoff r) else sr_backoff r)
      in map_option
           (\<lambda>(delay, backoff).
              r\<lparr>sr_source := s, sr_backoff := backoff, sr_phase := BackingOff (now + int delay)\<rparr>)
           (next_delay (se_hasher ext) backoff))"

definition waiting_command :: "source_ext \<Rightarrow> instant \<Rightarrow> SourceCommand \<Rightarrow> source_run \<Rightarrow> source_run option" where
  "waiting_command ext now cmd r =
     (case cmd of
        UpdateHashRate rate \<Rightarrow>
          (let r = r\<lparr>sr_source := (sr_source r)\<lparr>sv_expected_hashrate := rate\<rparr>\<rparr>
           in if HashRate_is_zero rate then Some r else start_connection ext now r)
      | SubmitShare _ \<Rightarrow> Some r)"

definition connected_command :: "source_ext \<Rightarrow> instant \<Rightarrow> SourceCommand \<Rightarrow> stratum_source \<Rightarrow> stratum_source option" where
  "connected_command ext now cmd s =
     (case cmd of
        SubmitShare share \<Rightarrow>
          (case share_to_submit_params share s of
             Inl _ \<Rightarrow> Some s
           | Inr submit_params \<Rightarrow> Some (send_command ext now (CmdSubmitShare submit_params) s))
      | UpdateHashRate rate \<Rightarrow> maybe_suggest_difficulty ext now (s\<lparr>sv_expected_hashrate := rate\<rparr>))"

definition client_exit :: "source_ext \<Rightarrow> instant \<Rightarrow> instant \<Rightarrow> client_exit \<Rightarrow> source_run \<Rightarrow> source_run option" where
  "client_exit ext now connected_at x r =
     (case x of
        ExitOk \<Rightarrow> Some (r\<lparr>sr_phase := Finished None\<rparr>)
      | ExitErr e \<Rightarrow>
          if is_fatal e then Some (r\<lparr>sr_phase := Finished (Some e)\<rparr>) else disconnected ext now connected_at r
      | ExitPanicked \<Rightarrow> Some (r\<lparr>sr_phase := ClientPanicked\<rparr>))"

definition connected_step ::
    "source_ext \<Rightarrow> instant \<Rightarrow> instant \<Rightarrow> instant \<Rightarrow> source_input \<Rightarrow> source_run \<Rightarrow> source_run option" where
  "connected_step ext now connected_at gap_start i r =
     (case i of
        InEvent event \<Rightarrow>
          map_option
            (\<lambda>(_, s). r\<lparr>sr_source := s,
                sr_phase := Connected connected_at (case event of NewJob _ \<Rightarrow> now | _ \<Rightarrow> gap_start)\<rparr>)
            (handle_client_event ext event (sr_source r))
      | InClientExit x \<Rightarrow> client_exit ext now connected_at x r
      | InCommand cmd \<Rightarrow> map_option (\<lambda>s. r\<lparr>sr_source := s\<rparr>) (connected_command ext now cmd (sr_source r))
      | InCooldownExpired \<Rightarrow> map_option (\<lambda>s. r\<lparr>sr_source := s\<rparr>) (flush_suggest ext now (sr_source r))
      | InGapExpired \<Rightarrow> disconnected ext now connected_at r
      | InShutdown \<Rightarrow> Some (r\<lparr>sr_phase := Finished None\<rparr>)
      | _ \<Rightarrow> Some r)"

definition source_step :: "source_ext \<Rightarrow> instant \<Rightarrow> source_input \<Rightarrow> source_run \<Rightarrow> source_run option" where
  "source_step ext now i r =
     (case sr_phase r of
        AwaitingHashRate \<Rightarrow>
          (case i of
             InCommand cmd \<Rightarrow> waiting_command ext now cmd r
           | InShutdown \<Rightarrow> Some (r\<lparr>sr_phase := Finished None\<rparr>)
           | _ \<Rightarrow> Some r)
      | Connecting connected_at \<Rightarrow>
          (case i of
             InConnected \<Rightarrow> Some (r\<lparr>sr_phase := Connected connected_at now\<rparr>)
           | InConnectFailed e \<Rightarrow> client_exit ext now connected_at (ExitErr e) r
           | InShutdown \<Rightarrow> Some (r\<lparr>sr_phase := Finished None\<rparr>)
           | _ \<Rightarrow> Some r)
      | Connected connected_at gap_start \<Rightarrow> connected_step ext now connected_at gap_start i r
      | BackingOff _ \<Rightarrow>
          (case i of
             InBackoffElapsed \<Rightarrow> start_connection ext now r
           | InCommand (UpdateHashRate rate) \<Rightarrow>
               Some (r\<lparr>sr_source := (sr_source r)\<lparr>sv_expected_hashrate := rate\<rparr>\<rparr>)
           | InShutdown \<Rightarrow> Some (r\<lparr>sr_phase := Finished None\<rparr>)
           | _ \<Rightarrow> Some r)
      | _ \<Rightarrow> Some r)"

text \<open>When an input can be picked: a connection is made or lost, timers have run out.\<close>

definition input_enabled :: "instant \<Rightarrow> source_input \<Rightarrow> source_run \<Rightarrow> bool" where
  "input_enabled now i r =
     (case i of
        InConnected \<Rightarrow> (case sr_phase r of Connecting _ \<Rightarrow> True | _ \<Rightarrow> False)
      | InConnectFailed _ \<Rightarrow> (case sr_phase r of Connecting _ \<Rightarrow> True | _ \<Rightarrow> False)
      | InEvent _ \<Rightarrow> (case sr_phase r of Connected _ _ \<Rightarrow> True | _ \<Rightarrow> False)
      | InClientExit _ \<Rightarrow> (case sr_phase r of Connected _ _ \<Rightarrow> True | _ \<Rightarrow> False)
      | InCooldownExpired \<Rightarrow>
          (case sr_phase r of
             Connected _ _ \<Rightarrow> (case sv_cooldown_until (sr_source r) of None \<Rightarrow> False | Some until \<Rightarrow> until \<le> now)
           | _ \<Rightarrow> False)
      | InGapExpired \<Rightarrow>
          (case sr_phase r of Connected _ gap_start \<Rightarrow> gap_start + int MAX_JOB_GAP \<le> now | _ \<Rightarrow> False)
      | InBackoffElapsed \<Rightarrow> (case sr_phase r of BackingOff until \<Rightarrow> until \<le> now | _ \<Rightarrow> False)
      | InCommand _ \<Rightarrow> (case sr_phase r of Connecting _ \<Rightarrow> False | Finished _ \<Rightarrow> False | ClientPanicked \<Rightarrow> False | _ \<Rightarrow> True)
      | InShutdown \<Rightarrow> (case sr_phase r of Finished _ \<Rightarrow> False | ClientPanicked \<Rightarrow> False | _ \<Rightarrow> True))"

text \<open>Runs: a start, then enabled inputs at times that do not go back. The instant is that of the last step.\<close>

inductive source_reach :: "source_ext \<Rightarrow> PoolConfig \<Rightarrow> instant \<Rightarrow> source_run \<Rightarrow> bool" for ext config where
  reach_new: "source_reach ext config now (source_run_new config)"
| reach_step: "source_reach ext config before r \<Longrightarrow> before \<le> now \<Longrightarrow> input_enabled now i r \<Longrightarrow>
    source_step ext now i r = Some r' \<Longrightarrow> source_reach ext config now r'"

subsection \<open>Backoff\<close>

lemma f64_half [simp]: "f64 (1 / 2) = 1 / 2"
  using fl_exact [of 1 53 "- 1"] by simp

lemma jitter_bounds:
  fixes n :: nat
  assumes n: "n < 2 ^ 64"
  defines "jitter \<equiv> f64 (1 / 2 + f64 (f64 (f64 (of_nat n) / f64 (2 ^ 64 - 1)) * (1 / 2)))"
  shows "1 / 2 \<le> jitter" and "jitter \<le> 1"
proof -
  have one: "f64 1 = 1" using fl_of_int [of 1 53] by simp
  let ?m = "f64 (2 ^ 64 - 1)" and ?q = "f64 (f64 (of_nat n) / f64 (2 ^ 64 - 1))"
  have h: "rat_of_nat n \<le> 2 ^ 64 - 1"
  proof -
    have "n \<le> 2 ^ 64 - 1" using n by simp
    then have "rat_of_nat n \<le> of_nat (2 ^ 64 - 1)" by (simp only: of_nat_le_iff)
    then show ?thesis by (simp add: of_nat_diff)
  qed
  have m: "0 < ?m" by (rule fl_pos) simp_all
  have "f64 (of_nat n) \<le> ?m" using h by (rule fl_mono [rotated]) simp_all
  then have "f64 (of_nat n) / ?m \<le> 1" using m by simp
  moreover have nn: "0 \<le> f64 (of_nat n) / ?m" using m by (intro divide_nonneg_pos fl_nonneg) simp_all
  ultimately have q: "?q \<le> 1" using fl_mono [of "f64 (of_nat n) / ?m" 1 53] one by simp
  have q0: "0 \<le> ?q" using nn by (rule fl_nonneg) simp
  have "f64 (?q * (1 / 2)) \<le> f64 (1 / 2)" using q q0 by (intro fl_mono) simp_all
  then have x: "f64 (?q * (1 / 2)) \<le> 1 / 2" by simp
  have x0: "0 \<le> f64 (?q * (1 / 2))" using q0 by (intro fl_nonneg) simp_all
  have "f64 (1 / 2) \<le> f64 (1 / 2 + f64 (?q * (1 / 2)))" using x0 by (intro fl_mono) simp_all
  then show "1 / 2 \<le> jitter" by (simp add: jitter_def)
  have "f64 (1 / 2 + f64 (?q * (1 / 2))) \<le> f64 1" using x x0 by (intro fl_mono) simp_all
  then show "jitter \<le> 1" using one by (simp add: jitter_def)
qed

lemma as_secs_f64_seconds: "0 < n \<Longrightarrow> n < 2 ^ 53 \<Longrightarrow> as_secs_f64 (seconds n) = of_nat n"
  using f64_nat [of n] by (simp add: as_secs_f64_def)

lemma mul_f64_bounds:
  assumes n: "0 < n" "n < 2 ^ 52" and j: "1 / 2 \<le> j" "j \<le> 1"
  shows "\<exists>d. mul_f64 (seconds n) j = Some d \<and> n * 500000000 \<le> d \<and> d \<le> seconds n"
proof -
  have secs: "as_secs_f64 (seconds n) = of_nat n" using n by (intro as_secs_f64_seconds) simp_all
  let ?x = "f64 (rat_of_nat n * j)"
  have half: "f64 (of_nat n * (1 / 2)) = of_nat n / 2"
    using fl_exact [of "int n" 53 "- 1"] n by simp
  have full: "f64 (of_nat n) = of_nat n" using n by (intro f64_nat) simp_all
  have lo: "of_nat n / 2 \<le> ?x"
    using fl_mono [of "of_nat n * (1 / 2)" "of_nat n * j" 53] j n unfolding half by simp
  have hi: "?x \<le> of_nat n"
    using fl_mono [of "of_nat n * j" "of_nat n" 53] j n unfolding full by (simp add: mult_left_le)
  have "of_int (int (n * 500000000)) \<le> ?x * 1000000000" using lo by simp
  then have r1: "int (n * 500000000) \<le> round_half_even (?x * 1000000000)" by (rule round_half_even_bounds)
  have "?x * 1000000000 \<le> of_int (int (seconds n))" using hi by simp
  then have r2: "round_half_even (?x * 1000000000) \<le> int (seconds n)" by (rule round_half_even_bounds)
  have "0 \<le> ?x" using lo by (rule order.trans [rotated]) simp
  moreover have "rat_of_nat n < 2 ^ 64"
  proof -
    have "n < 2 ^ 64" using n(2) by simp
    then have "rat_of_nat n < of_nat (2 ^ 64)" by (simp only: of_nat_less_iff)
    then show ?thesis by simp
  qed
  then have "?x < 2 ^ 64" using hi by linarith
  ultimately have "mul_f64 (seconds n) j = Some (nat (round_half_even (?x * 1000000000)))"
    unfolding mul_f64_def secs from_secs_f64_def by (simp add: not_less not_le)
  moreover have "n * 500000000 \<le> nat (round_half_even (?x * 1000000000))"
    "nat (round_half_even (?x * 1000000000)) \<le> seconds n" using r1 r2 by linarith+
  ultimately show ?thesis by blast
qed

text \<open>The nominal delay after a number of failures, and the delay within half of it.\<close>

definition nominal_seconds :: "nat \<Rightarrow> nat" where
  "nominal_seconds k = min (2 ^ k) 60"

definition backoff_at :: "nat \<Rightarrow> ExponentialBackoff \<Rightarrow> bool" where
  "backoff_at k b \<longleftrightarrow>
     bo_current b = seconds (nominal_seconds k) \<and> bo_initial b = seconds 1 \<and> bo_max b = seconds 60"

lemma backoff_at_new: "backoff_at 0 (ExponentialBackoff_new INITIAL_RECONNECT_DELAY MAX_RECONNECT_DELAY)"
  by (simp add: backoff_at_def ExponentialBackoff_new_def INITIAL_RECONNECT_DELAY_def MAX_RECONNECT_DELAY_def
      nominal_seconds_def)

lemma backoff_at_reset: "backoff_at k b \<Longrightarrow> backoff_at 0 (backoff_reset b)"
  by (simp add: backoff_at_def backoff_reset_def nominal_seconds_def)

lemma nominal_seconds_bounds: "0 < nominal_seconds k" "nominal_seconds k \<le> 60"
  by (simp_all add: nominal_seconds_def)

lemma nominal_seconds_Suc: "min (nominal_seconds k * 2) 60 = nominal_seconds (Suc k)"
  by (auto simp: nominal_seconds_def min_def)

lemma next_delay_bounds:
  assumes "backoff_at k b"
  shows "\<exists>delay b'. next_delay hasher b = Some (delay, b') \<and> backoff_at (Suc k) b' \<and>
    nominal_seconds k * 500000000 \<le> delay \<and> delay \<le> seconds (nominal_seconds k)"
proof -
  have cur: "bo_current b = seconds (nominal_seconds k)" using assms by (simp add: backoff_at_def)
  have small: "nominal_seconds k < 2 ^ 52" using nominal_seconds_bounds(2) [of k] by simp
  have hash: "unat (hasher (bo_jitter_step b)) < 2 ^ 64" by (rule order.strict_trans2 [OF unsigned_less]) simp
  obtain d where d: "mul_f64 (bo_current b)
      (f64 (1 / 2 + f64 (f64 (f64 (of_nat (unat (hasher (bo_jitter_step b)))) / f64 (2 ^ 64 - 1)) * (1 / 2)))) = Some d"
    "nominal_seconds k * 500000000 \<le> d" "d \<le> seconds (nominal_seconds k)"
    unfolding cur 
    using mul_f64_bounds [OF nominal_seconds_bounds(1) small jitter_bounds [OF hash]] by blast
  then show ?thesis
    using assms nominal_seconds_Suc [of k]
    by (auto simp: next_delay_def Let_def backoff_at_def simp del: of_nat_unat)
qed

subsection \<open>Throttling\<close>

text \<open>Suggested difficulties are positive floats; the platform's functions are assumed to see to it.\<close>

definition suggests_floats :: "source_ext \<Rightarrow> bool" where
  "suggests_floats ext \<longleftrightarrow>
     (\<forall>h d. compute_suggested_difficulty ext h = Some (Some d) \<longrightarrow> 0 < d \<and> f64 d = d)"

lemma fl_less:
  assumes "0 < d" and "fl p d = d" and "1 < p" and "0 < c" and "c < 1 - 1 / 2 ^ p"
  shows "fl p (d * c) < d"
proof -
  let ?x = "d * c" and ?k = "rat_log2 (d * c) - int p + 1"
  have x: "0 < ?x" using assms(1,4) by simp
  have "2 powi rat_log2 ?x \<le> ?x" by (rule rat_log2_bounds(1) [OF x])
  have r: "of_int (round_half_even (?x / 2 powi ?k)) \<le> ?x / 2 powi ?k + 1 / 2"
  proof -
    let ?y = "?x / 2 powi ?k"
    have "of_int (round_half_even ?y) - ?y \<le> 1 / 2"
      by (simp add: round_half_even_def Let_def) linarith
    then show ?thesis by simp
  qed
  have "fl p ?x = of_int (round_half_even (?x / 2 powi ?k)) * 2 powi ?k"
    using x by (simp add: fl_pos_eq round_pos_def Let_def)
  also have "\<dots> \<le> (?x / 2 powi ?k + 1 / 2) * 2 powi ?k"
    using r powi_pos [of ?k] by (intro mult_right_mono) simp_all
  also have "\<dots> = ?x + 2 powi ?k / 2"
    using powi_pos [of ?k] by (simp add: field_simps)
  also have "2 powi ?k / 2 \<le> ?x / 2 ^ p"
  proof -
    have "(2::rat) powi ?k / 2 = 2 powi (rat_log2 ?x) / 2 ^ p"
    proof -
      have "(2::rat) powi ?k = 2 powi rat_log2 ?x / 2 powi (int p - 1)" by (rule powi_divide [symmetric]) simp
      also have "(2::rat) powi (int p - 1) = 2 ^ p / 2"
        using assms(3) power_int_diff [of "2::rat" "int p" 1] by simp
      finally show ?thesis by simp
    qed
    then show ?thesis using \<open>2 powi rat_log2 ?x \<le> ?x\<close> by (simp add: divide_right_mono)
  qed
  finally have "fl p ?x \<le> ?x + ?x / 2 ^ p" by simp
  also have "\<dots> < d"
  proof -
    have "c * (1 + 1 / 2 ^ p) < (1 - 1 / 2 ^ p) * (1 + 1 / 2 ^ p)"
      using assms(5) by (intro mult_strict_right_mono) (simp_all add: add_pos_pos)
    also have "\<dots> \<le> 1" by (simp add: algebra_simps)
    finally have "d * (c * (1 + 1 / 2 ^ p)) < d * 1" using assms(1) by (intro mult_strict_left_mono)
    then show ?thesis by (simp add: algebra_simps)
  qed
  finally show ?thesis .
qed

lemma own_suggestion_immaterial:
  assumes "0 < d" and "f64 d = d"
  shows "\<not> is_material_change d (Some d)"
proof -
  have "d / DOWN_FACTOR = d * (4 / 5)" by (simp add: DOWN_FACTOR_def)
  moreover have "f64 (d * (4 / 5)) < d" by (rule fl_less) (use assms in simp_all)
  ultimately have "f64 (d / DOWN_FACTOR) < d" by (simp only:)
  moreover have "d < f64 (d * UP_FACTOR)"
  proof (rule ccontr)
    assume not: "\<not> d < f64 (d * UP_FACTOR)"
    obtain m e where m: "f64 d = of_int m * 2 powi e" "2 ^ 52 \<le> m" "m < 2 ^ 53"
      using fl_decode [OF assms(1), of 53] by auto
    have "of_int (m + 1) * 2 powi e \<le> d * UP_FACTOR"
      using m assms(2) powi_pos [of e] by (simp add: UP_FACTOR_def field_simps)
    then have "f64 (of_int (m + 1) * 2 powi e) \<le> f64 (d * UP_FACTOR)"
      using m powi_pos [of e] by (intro fl_mono) simp_all
    moreover have "f64 (of_int (m + 1) * 2 powi e) = of_int (m + 1) * 2 powi e"
    proof (cases "m + 1 < 2 ^ 53")
      case True
      then show ?thesis using m by (intro fl_exact) simp_all
    next
      case False
      then have "m + 1 = 2 ^ 53" using m by simp
      then have "rat_of_int (m + 1) * 2 powi e = of_int 1 * 2 powi (53 + e)"
        using power_int_add [of "2::rat" 53 e] by simp
      then show ?thesis using fl_exact [of 1 53 "53 + e"] by simp
    qed
    ultimately show False using not m assms(2) powi_pos [of e] by (simp add: field_simps)
  qed
  ultimately show ?thesis by (simp add: is_material_change_def)
qed

text \<open>A suggestion that is due, and the times of those sent to the client as commands.\<close>

fun due :: "rat option option \<Rightarrow> rat option \<Rightarrow> bool" where
  "due (Some (Some d)) last_suggested = is_material_change d last_suggested"
| "due _ last_suggested = False"

definition suggestion_due :: "source_ext \<Rightarrow> stratum_source \<Rightarrow> bool" where
  "suggestion_due ext s =
     due (compute_suggested_difficulty ext (sv_expected_hashrate s)) (sv_last_suggested_difficulty s)"

fun is_suggestion :: "instant \<times> ClientCommand \<Rightarrow> bool" where
  "is_suggestion (_, CmdSuggestDifficulty _) = True"
| "is_suggestion _ = False"

definition command_suggestion_times :: "stratum_source \<Rightarrow> instant list" where
  "command_suggestion_times s = map fst (filter is_suggestion (sv_commands s))"

definition spaced :: "instant list \<Rightarrow> bool" where
  "spaced ts = sorted_wrt (\<lambda>t u. t + int SUGGEST_MIN_INTERVAL \<le> u) ts"

definition throttled :: "source_ext \<Rightarrow> instant \<Rightarrow> stratum_source \<Rightarrow> bool" where
  "throttled ext now s \<longleftrightarrow>
     (sv_cooldown_until s = None \<longrightarrow> \<not> suggestion_due ext s) \<and>
     spaced (command_suggestion_times s) \<and>
     (\<forall>t \<in> set (command_suggestion_times s). t + int SUGGEST_MIN_INTERVAL \<le>
        (case sv_cooldown_until s of None \<Rightarrow> now | Some until \<Rightarrow> max now until))"

lemma throttled_later: "throttled ext now s \<Longrightarrow> now \<le> later \<Longrightarrow> throttled ext later s"
  unfolding throttled_def by (fastforce split: option.splits)

lemma throttled_cong:
  assumes "sv_cooldown_until t = sv_cooldown_until s" and "sv_expected_hashrate t = sv_expected_hashrate s"
    and "sv_last_suggested_difficulty t = sv_last_suggested_difficulty s"
    and "command_suggestion_times t = command_suggestion_times s"
  shows "throttled ext now t = throttled ext now s"
  using assms by (simp add: throttled_def suggestion_due_def)

lemma le_add_int: "t \<le> t + int n"
  by simp

lemma throttled_send_suggest:
  assumes "throttled ext now s" and "\<not> in_cooldown now s"
  shows "throttled ext now (send_suggest ext now d (s\<lparr>sv_expected_hashrate := h\<rparr>))"
proof -
  let ?s = "send_suggest ext now d (s\<lparr>sv_expected_hashrate := h\<rparr>)"
  have past: "\<forall>t \<in> set (command_suggestion_times s). t + int SUGGEST_MIN_INTERVAL \<le> now"
    using assms by (auto simp: throttled_def in_cooldown_def split: option.splits)
  have "command_suggestion_times ?s = command_suggestion_times s \<or> command_suggestion_times ?s = command_suggestion_times s @ [now]"
    by (auto simp: send_suggest_def send_command_def command_suggestion_times_def)
  then show ?thesis
    using past assms(1)
    by (auto simp: throttled_def spaced_def sorted_wrt_append send_suggest_def send_command_def
        intro: order.trans [OF le_add_int])
qed

lemma throttled_maybe:
  assumes "throttled ext now s" and "maybe_suggest_difficulty ext now (s\<lparr>sv_expected_hashrate := h\<rparr>) = Some t"
  shows "throttled ext now t"
proof -
  let ?s = "s\<lparr>sv_expected_hashrate := h\<rparr>"
  obtain suggestion where c: "compute_suggested_difficulty ext h = Some suggestion"
    and t: "t = (case suggestion of None \<Rightarrow> ?s
        | Some d \<Rightarrow> if \<not> is_material_change d (sv_last_suggested_difficulty ?s) then ?s
            else if in_cooldown now ?s then ?s else send_suggest ext now d ?s)"
    using assms(2) by (auto simp: maybe_suggest_difficulty_def)
  have keep: "throttled ext now ?s"
    if "sv_cooldown_until s = None \<longrightarrow> \<not> suggestion_due ext ?s"
    using that assms(1) by (simp add: throttled_def command_suggestion_times_def)
  show ?thesis
  proof (cases "suggestion_due ext ?s \<and> \<not> in_cooldown now s")
    case True
    then have "\<exists>d. t = send_suggest ext now d ?s"
      using c t by (auto simp: suggestion_due_def in_cooldown_def split: option.splits)
    then show ?thesis using throttled_send_suggest [OF assms(1)] True by blast
  next
    case False
    then have "t = ?s" using c t by (auto simp: suggestion_due_def in_cooldown_def split: option.splits)
    moreover have "sv_cooldown_until s = None \<longrightarrow> \<not> suggestion_due ext ?s"
      using False by (auto simp: in_cooldown_def)
    ultimately show ?thesis using keep by simp
  qed
qed

lemma throttled_flush:
  assumes "throttled ext now s" and "sv_cooldown_until s = Some until" and "until \<le> now"
    and "flush_suggest ext now s = Some t"
  shows "throttled ext now t"
proof -
  have cool: "\<not> in_cooldown now s" using assms(2,3) by (simp add: in_cooldown_def)
  have past: "\<forall>t \<in> set (command_suggestion_times s). t + int SUGGEST_MIN_INTERVAL \<le> now"
    using assms(1-3) by (auto simp: throttled_def)
  show ?thesis
  proof (cases "suggestion_due ext s")
    case True
    obtain z where z: "compute_suggested_difficulty ext (sv_expected_hashrate s) = Some z"
      using assms(4) by (auto simp: flush_suggest_def)
    with True have "\<exists>d. t = send_suggest ext now d s"
      using assms(4) by (cases z) (auto simp: suggestion_due_def flush_suggest_def)
    then show ?thesis using throttled_send_suggest [OF assms(1) cool, of _ "sv_expected_hashrate s"] by auto
  next
    case False
    obtain z where z: "compute_suggested_difficulty ext (sv_expected_hashrate s) = Some z"
      using assms(4) by (auto simp: flush_suggest_def)
    with False have t: "t = s\<lparr>sv_cooldown_until := None\<rparr>"
      using assms(4) by (cases z) (auto simp: suggestion_due_def flush_suggest_def)
    have "\<not> suggestion_due ext t" using False by (simp add: t suggestion_due_def)
    moreover have "command_suggestion_times t = command_suggestion_times s" by (simp add: t command_suggestion_times_def)
    ultimately show ?thesis using past assms(1) by (simp add: throttled_def t)
  qed
qed

lemma handle_client_event_frame:
  assumes "handle_client_event ext ev s = Some (r, t)"
  shows "sv_cooldown_until t = sv_cooldown_until s" and "sv_expected_hashrate t = sv_expected_hashrate s"
    and "sv_handshake_suggestion t = sv_handshake_suggestion s"
    and "sv_last_suggested_difficulty t = sv_last_suggested_difficulty s" and "sv_commands t = sv_commands s"
    and "sv_config t = sv_config s"
  using assms
  by (auto simp: handle_client_event_def send_to_scheduler_def split: ClientEvent.splits sum.splits option.splits if_splits)

lemma throttled_start:
  assumes "suggests_floats ext" and "start_connection ext now r = Some r'"
  shows "throttled ext now (sr_source r')"
proof -
  obtain d where d: "compute_suggested_difficulty ext (sv_expected_hashrate (sr_source r)) = Some d"
    and r': "sr_source r' = (sr_source r)\<lparr>sv_state := None, sv_first_share_logged := False,
      sv_last_suggested_difficulty := d, sv_cooldown_until := None,
      sv_handshake_suggestion := d, sv_commands := []\<rparr>"
    using assms(2) by (auto simp: start_connection_def Let_def)
  have "\<not> suggestion_due ext (sr_source r')"
    using assms(1) d own_suggestion_immaterial
    by (cases d) (auto simp: suggestion_due_def r' suggests_floats_def)
  then show ?thesis by (simp add: throttled_def r' command_suggestion_times_def spaced_def)
qed

text \<open>In every reachable state of a connection.\<close>

definition on_connection :: "phase \<Rightarrow> bool" where
  "on_connection p = (case p of Connecting _ \<Rightarrow> True | Connected _ _ \<Rightarrow> True | _ \<Rightarrow> False)"

lemma throttled_connected_step:
  assumes "throttled ext now (sr_source r)" and "sr_phase r = Connected ca gs"
    and "input_enabled now i r" and "connected_step ext now ca gs i r = Some r'"
    and "on_connection (sr_phase r')"
  shows "throttled ext now (sr_source r')"
proof (cases i)
  case (InCommand cmd)
  show ?thesis
  proof (cases cmd)
    case (SubmitShare share)
    have "command_suggestion_times (send_command ext now (CmdSubmitShare p) s) = command_suggestion_times s"
      "sv_cooldown_until (send_command ext now (CmdSubmitShare p) s) = sv_cooldown_until s"
      "sv_expected_hashrate (send_command ext now (CmdSubmitShare p) s) = sv_expected_hashrate s"
      "sv_last_suggested_difficulty (send_command ext now (CmdSubmitShare p) s) = sv_last_suggested_difficulty s"
      for p and s
      by (simp_all add: send_command_def command_suggestion_times_def)
    note same = throttled_cong [OF this(2,3,4,1)]
    then show ?thesis
      using assms InCommand SubmitShare
      by (auto simp: connected_step_def connected_command_def split: sum.splits)
  next
    case (UpdateHashRate h)
    then show ?thesis
      using assms InCommand throttled_maybe by (auto simp: connected_step_def connected_command_def)
  qed
next
  case (InEvent ev)
  then obtain x s where s: "handle_client_event ext ev (sr_source r) = Some (x, s)" and r': "sr_source r' = s"
    using assms(4) by (auto simp: connected_step_def)
  note same = handle_client_event_frame [OF s]
  then show ?thesis using assms(1) throttled_cong [of s "sr_source r"] by (simp add: r' command_suggestion_times_def)
next
  case (InClientExit x)
  then show ?thesis
    using assms(4,5)
    by (auto simp: connected_step_def client_exit_def disconnected_def on_connection_def Let_def
        split: client_exit.splits if_splits)
next
  case InCooldownExpired
  then show ?thesis
    using assms throttled_flush by (auto simp: connected_step_def input_enabled_def split: option.splits)
next
  case InGapExpired
  then show ?thesis using assms(4,5) by (auto simp: connected_step_def disconnected_def on_connection_def Let_def)
qed (use assms in \<open>auto simp: connected_step_def\<close>)

lemma throttled_step:
  assumes "suggests_floats ext" and "on_connection (sr_phase r) \<Longrightarrow> throttled ext now (sr_source r)"
    and "input_enabled now i r" and "source_step ext now i r = Some r'" and "on_connection (sr_phase r')"
  shows "throttled ext now (sr_source r')"
proof (cases "sr_phase r")
  case AwaitingHashRate
  then show ?thesis
    using assms(4,5) throttled_start [OF assms(1)]
    by (auto simp: source_step_def waiting_command_def on_connection_def Let_def
        split: source_input.splits SourceCommand.splits if_splits)
next
  case (Connecting ca)
  then show ?thesis
    using assms
    by (auto simp: source_step_def on_connection_def client_exit_def disconnected_def Let_def
        split: source_input.splits if_splits)
next
  case (Connected ca gs)
  then show ?thesis
    using assms throttled_connected_step [of ext now r ca gs i r'] by (auto simp: source_step_def on_connection_def)
next
  case (BackingOff u)
  then show ?thesis
    using assms(4,5) throttled_start [OF assms(1)]
    by (auto simp: source_step_def on_connection_def split: source_input.splits SourceCommand.splits)
qed (use assms in \<open>auto simp: source_step_def on_connection_def\<close>)

lemma reach_throttled:
  assumes "source_reach ext config now r" and "suggests_floats ext"
  shows "on_connection (sr_phase r) \<Longrightarrow> throttled ext now (sr_source r)"
  using assms(1)
proof (induction rule: source_reach.induct)
  case (reach_new now)
  then show ?case by (simp add: source_run_new_def on_connection_def)
next
  case (reach_step before r now i r')
  show ?case
    using throttled_step [OF assms(2) _ reach_step.hyps(3,4)] reach_step.IH throttled_later reach_step.hyps(2) reach_step.prems
    by blast
qed

text \<open>
  All difficulties suggested on the connection, the handshake's first. Each is a material change of the
  one before. While commands still get through, the last one is the source's latest suggestion.
\<close>

fun suggested_value :: "instant \<times> ClientCommand \<Rightarrow> rat list" where
  "suggested_value (_, CmdSuggestDifficulty d) = [d]"
| "suggested_value _ = []"

definition connection_suggestions :: "stratum_source \<Rightarrow> rat list" where
  "connection_suggestions s =
     (case sv_handshake_suggestion s of None \<Rightarrow> [] | Some d \<Rightarrow> [d]) @ concat (map suggested_value (sv_commands s))"

abbreviation material_steps :: "rat list \<Rightarrow> bool" where
  "material_steps \<equiv> successively (\<lambda>d e. is_material_change e (Some d))"

definition last_option :: "'a list \<Rightarrow> 'a option" where
  "last_option xs = (if xs = [] then None else Some (last xs))"

definition material_inv :: "source_ext \<Rightarrow> stratum_source \<Rightarrow> bool" where
  "material_inv ext s \<longleftrightarrow> material_steps (connection_suggestions s) \<and>
     (se_command_ok ext (length (sv_commands s)) \<longrightarrow> sv_last_suggested_difficulty s = last_option (connection_suggestions s))"

lemma material_inv_suggest:
  assumes "material_inv ext s" and "is_material_change d (sv_last_suggested_difficulty s)"
  shows "material_inv ext (send_suggest ext now d (s\<lparr>sv_expected_hashrate := h\<rparr>))"
proof (cases "se_command_ok ext (length (sv_commands s))")
  case True
  let ?s = "send_suggest ext now d (s\<lparr>sv_expected_hashrate := h\<rparr>)"
  have "connection_suggestions ?s = connection_suggestions s @ [d]" "sv_last_suggested_difficulty ?s = Some d"
    using True by (simp_all add: send_suggest_def send_command_def connection_suggestions_def)
  moreover have "material_steps (connection_suggestions s @ [d])"
    using assms True by (auto simp: material_inv_def last_option_def successively_append_iff split: if_splits)
  ultimately show ?thesis by (simp add: material_inv_def last_option_def)
next
  case False
  then show ?thesis
    using assms(1) by (simp add: material_inv_def send_suggest_def send_command_def connection_suggestions_def)
qed

lemma material_inv_cong:
  "sv_handshake_suggestion t = sv_handshake_suggestion s \<Longrightarrow> sv_commands t = sv_commands s \<Longrightarrow>
   sv_last_suggested_difficulty t = sv_last_suggested_difficulty s \<Longrightarrow> material_inv ext t = material_inv ext s"
  by (simp add: material_inv_def connection_suggestions_def)

lemma material_inv_submit:
  "material_inv ext s \<Longrightarrow> material_inv ext (send_command ext now (CmdSubmitShare p) s)"
  by (auto simp: material_inv_def send_command_def connection_suggestions_def)

lemma material_inv_maybe:
  assumes "material_inv ext s" and "maybe_suggest_difficulty ext now (s\<lparr>sv_expected_hashrate := h\<rparr>) = Some t"
  shows "material_inv ext t"
proof -
  have keep: "material_inv ext (s\<lparr>sv_expected_hashrate := h\<rparr>)"
    using assms(1) material_inv_cong [of "s\<lparr>sv_expected_hashrate := h\<rparr>" s] by simp
  from assms(2) consider "t = s\<lparr>sv_expected_hashrate := h\<rparr>"
    | d where "t = send_suggest ext now d (s\<lparr>sv_expected_hashrate := h\<rparr>)" "is_material_change d (sv_last_suggested_difficulty s)"
    by (auto simp: maybe_suggest_difficulty_def split: option.splits if_splits)
  then show ?thesis using keep material_inv_suggest [OF assms(1)] by cases simp_all
qed

lemma material_inv_flush:
  assumes "material_inv ext s" and "flush_suggest ext now s = Some t"
  shows "material_inv ext t"
proof -
  have keep: "material_inv ext (s\<lparr>sv_cooldown_until := None\<rparr>)"
    using assms(1) material_inv_cong [of "s\<lparr>sv_cooldown_until := None\<rparr>" s] by simp
  from assms(2) consider "t = s\<lparr>sv_cooldown_until := None\<rparr>"
    | d where "t = send_suggest ext now d (s\<lparr>sv_expected_hashrate := sv_expected_hashrate s\<rparr>)"
        "is_material_change d (sv_last_suggested_difficulty s)"
    by (auto simp: flush_suggest_def split: option.splits if_splits)
  then show ?thesis using keep material_inv_suggest [OF assms(1), of _ now "sv_expected_hashrate s"] by cases simp_all
qed

lemma material_inv_start: "start_connection ext now r = Some r' \<Longrightarrow> material_inv ext (sr_source r')"
  by (auto simp: start_connection_def Let_def material_inv_def connection_suggestions_def last_option_def split: option.splits)

lemma material_inv_disconnected:
  "disconnected ext now ca r = Some r' \<Longrightarrow> material_inv ext (sr_source r) \<Longrightarrow> material_inv ext (sr_source r')"
  by (auto simp: disconnected_def send_to_scheduler_def Let_def material_inv_def connection_suggestions_def split: if_splits)

lemma material_inv_exit:
  "client_exit ext now ca x r = Some r' \<Longrightarrow> material_inv ext (sr_source r) \<Longrightarrow> material_inv ext (sr_source r')"
  by (auto simp: client_exit_def material_inv_disconnected split: client_exit.splits if_splits)

lemma material_inv_connected:
  assumes "connected_step ext now ca gs i r = Some r'" and inv: "material_inv ext (sr_source r)"
  shows "material_inv ext (sr_source r')"
proof (cases i)
  case (InCommand cmd)
  then show ?thesis
    using assms(1) inv material_inv_maybe [OF inv] material_inv_submit [OF inv]
    by (auto simp: connected_step_def connected_command_def split: SourceCommand.splits sum.splits)
next
  case (InEvent ev)
  then obtain x s where s: "handle_client_event ext ev (sr_source r) = Some (x, s)" and r': "sr_source r' = s"
    using assms(1) by (auto simp: connected_step_def)
  show ?thesis using handle_client_event_frame [OF s] inv material_inv_cong [of s "sr_source r"] by (simp add: r')
next
  case InCooldownExpired
  then show ?thesis using assms(1) material_inv_flush [OF inv] by (auto simp: connected_step_def)
qed (use assms material_inv_exit material_inv_disconnected in \<open>auto simp: connected_step_def\<close>)

lemma material_inv_step:
  assumes "source_step ext now i r = Some r'" and inv: "material_inv ext (sr_source r)"
  shows "material_inv ext (sr_source r')"
proof (cases "sr_phase r")
  case (Connected ca gs)
  then show ?thesis using assms material_inv_connected by (auto simp: source_step_def)
next
  case (BackingOff until)
  have "material_inv ext (sr_source r\<lparr>sv_expected_hashrate := h\<rparr>)" for h
    using inv material_inv_cong [of "sr_source r\<lparr>sv_expected_hashrate := h\<rparr>" "sr_source r"] by simp
  then show ?thesis
    using BackingOff assms material_inv_start
    by (auto simp: source_step_def split: source_input.splits SourceCommand.splits)
next
  case AwaitingHashRate
  have "material_inv ext (sr_source r\<lparr>sv_expected_hashrate := h\<rparr>)" for h
    using inv material_inv_cong [of "sr_source r\<lparr>sv_expected_hashrate := h\<rparr>" "sr_source r"] by simp
  then show ?thesis
    using AwaitingHashRate assms material_inv_start
    by (auto simp: source_step_def waiting_command_def Let_def split: source_input.splits SourceCommand.splits if_splits)
qed (use assms material_inv_exit in \<open>auto simp: source_step_def split: source_input.splits\<close>)

lemma reach_material:
  assumes "source_reach ext config now r"
  shows "material_steps (connection_suggestions (sr_source r))"
proof -
  have "material_inv ext (sr_source r)"
    using assms
  proof (induction rule: source_reach.induct)
    case (reach_new now)
    then show ?case
      by (simp add: source_run_new_def StratumV1Source_new_def material_inv_def connection_suggestions_def last_option_def)
  next
    case (reach_step before r now i r')
    then show ?case using material_inv_step by blast
  qed
  then show ?thesis by (simp add: material_inv_def)
qed

text \<open>
  The handshake's suggestion starts no cooldown: a material change that arrives right after it is
  suggested at once.
\<close>

lemma handshake_not_throttled:
  assumes "start_connection ext connected_at r = Some r'"
    and "compute_suggested_difficulty ext h = Some (Some d)"
    and "is_material_change d (sv_handshake_suggestion (sr_source r'))" and "se_command_ok ext 0"
  shows "connected_command ext now (UpdateHashRate h) (sr_source r') =
      Some (send_suggest ext now d ((sr_source r')\<lparr>sv_expected_hashrate := h\<rparr>))"
    and "sv_commands (send_suggest ext now d ((sr_source r')\<lparr>sv_expected_hashrate := h\<rparr>)) = [(now, CmdSuggestDifficulty d)]"
  using assms
  by (auto simp: start_connection_def Let_def connected_command_def maybe_suggest_difficulty_def in_cooldown_def
      send_suggest_def send_command_def)

subsection \<open>Work of a dead connection\<close>

text \<open>Between connections nothing of the last one is in force: the scheduler was told to drop its jobs.\<close>

definition work_dropped :: "source_run \<Rightarrow> bool" where
  "work_dropped r \<longleftrightarrow>
     (case sr_phase r of
        AwaitingHashRate \<Rightarrow> sv_events (sr_source r) = []
      | Connecting _ \<Rightarrow> sv_state (sr_source r) = None \<and> (sv_events (sr_source r) = [] \<or> last (sv_events (sr_source r)) = ClearJobs)
      | BackingOff _ \<Rightarrow> last (sv_events (sr_source r)) = ClearJobs
      | _ \<Rightarrow> True)"

lemma start_connection_fields:
  assumes "start_connection ext now r = Some r'"
  shows "sr_phase r' = Connecting now" and "sv_state (sr_source r') = None"
    and "sv_events (sr_source r') = sv_events (sr_source r)"
  using assms by (auto simp: start_connection_def Let_def)

lemma disconnected_fields:
  assumes "disconnected ext now ca r = Some r'" and "\<forall>n. se_event_ok ext n"
  shows "\<exists>u. sr_phase r' = BackingOff u" and "last (sv_events (sr_source r')) = ClearJobs"
  using assms by (auto simp: disconnected_def Let_def send_to_scheduler_def)

lemma work_dropped_disconnected:
  "disconnected ext now ca r = Some r' \<Longrightarrow> \<forall>n. se_event_ok ext n \<Longrightarrow> work_dropped r'"
  using disconnected_fields [of ext now ca r r'] by (auto simp: work_dropped_def)

lemma work_dropped_start:
  assumes "start_connection ext now r = Some r'"
    and "sv_events (sr_source r) = [] \<or> last (sv_events (sr_source r)) = ClearJobs"
  shows "work_dropped r'"
  using start_connection_fields [OF assms(1)] assms(2) by (simp add: work_dropped_def)

lemma work_dropped_step:
  assumes "work_dropped r" and "source_step ext now i r = Some r'" and ok: "\<forall>n. se_event_ok ext n"
  shows "work_dropped r'"
proof (cases "sr_phase r")
  case AwaitingHashRate
  then have "sv_events (sr_source r) = []" using assms(1) by (simp add: work_dropped_def)
  then show ?thesis
    using assms(1,2) AwaitingHashRate work_dropped_start
    by (auto simp: source_step_def waiting_command_def Let_def work_dropped_def [of "r\<lparr>sr_source := _\<rparr>"]
        work_dropped_def [of "r\<lparr>sr_phase := _\<rparr>"]
        split: source_input.splits SourceCommand.splits if_splits)
next
  case (Connecting ca)
  then show ?thesis
    using assms(1,2) work_dropped_disconnected [OF _ ok]
    by (auto simp: source_step_def client_exit_def work_dropped_def [of "r\<lparr>sr_phase := _\<rparr>"]
        split: source_input.splits if_splits)
next
  case (Connected ca gs)
  then show ?thesis
    using assms(2) work_dropped_disconnected [OF _ ok]
    by (auto simp: source_step_def connected_step_def client_exit_def work_dropped_def
        split: source_input.splits client_exit.splits if_splits)
next
  case (BackingOff u)
  then have "last (sv_events (sr_source r)) = ClearJobs" using assms(1) by (simp add: work_dropped_def)
  then show ?thesis
    using assms(1,2) BackingOff work_dropped_start
    by (auto simp: source_step_def work_dropped_def [of "r\<lparr>sr_source := _\<rparr>"] work_dropped_def [of "r\<lparr>sr_phase := _\<rparr>"]
        split: source_input.splits SourceCommand.splits)
qed (use assms in \<open>auto simp: source_step_def\<close>)

lemma reach_work_dropped:
  assumes "source_reach ext config now r" and "\<forall>n. se_event_ok ext n"
  shows "work_dropped r"
  using assms(1)
proof (induction rule: source_reach.induct)
  case (reach_new now)
  then show ?case by (simp add: work_dropped_def source_run_new_def StratumV1Source_new_def)
next
  case (reach_step before r now i r')
  then show ?case using work_dropped_step [OF _ _ assms(2)] by blast
qed

subsection \<open>What becomes of the pool's messages\<close>

primrec handle_client_events :: "source_ext \<Rightarrow> ClientEvent list \<Rightarrow> stratum_source \<Rightarrow> stratum_source option" where
  "handle_client_events ext [] s = Some s"
| "handle_client_events ext (ev # evs) s =
     (case handle_client_event ext ev s of
        None \<Rightarrow> None | Some (_, s) \<Rightarrow> handle_client_events ext evs s)"

lemma handle_client_events_append:
  "handle_client_events ext (evs @ more_evs) s =
     Option.bind (handle_client_events ext evs s) (handle_client_events ext more_evs)"
  by (induction evs arbitrary: s) (auto split: option.splits)

text \<open>Before the report on version rolling there is no protocol state, and announcements leave no trace.\<close>

lemma early_events_lost:
  assumes "list_all pool_event evs" and "sv_state s = None" and "handle_client_events ext evs s = Some t"
  shows "t = s"
  using assms
proof (induction evs arbitrary: s)
  case (Cons ev evs)
  obtain r u where u: "handle_client_event ext ev s = Some (r, u)" and t: "handle_client_events ext evs u = Some t"
    using Cons.prems(3) by (auto split: option.splits)
  have "u = s"
    using u Cons.prems(1,2)
    by (cases ev) (auto simp: handle_client_event_def job_to_template_def split: option.splits)
  then show ?case using Cons t by simp
qed simp

lemma early_difficulty_lost_template:
  assumes "list_all pool_event early" and "sv_state s = None"
    and "handle_client_events ext (early @ [VersionRollingConfigured vmask, Subscribed en sz]) s = Some t"
    and "job_to_template ext job t = Inr template"
  shows "jt_share_target template = difficulty_target (Difficulty_from_u64 (se_target_max ext) 1)"
proof -
  obtain u where u: "handle_client_events ext early s = Some u"
    and t: "handle_client_events ext [VersionRollingConfigured vmask, Subscribed en sz] u = Some t"
    using assms(3) by (auto simp: handle_client_events_append split: bind_splits)
  have "u = s" using early_events_lost [OF assms(1,2) u] .
  with t assms(2) have "sv_state t = Some \<lparr>sps_extranonce1 = en, sps_extranonce2_size = sz,
      sps_share_difficulty = None, sps_version_mask = vmask\<rparr>"
    by (auto simp: handle_client_event_def)
  then show ?thesis using assms(4) by (auto simp: job_to_template_def Let_def split: sum.splits)
qed

text \<open>When a notification becomes a template, and what the template says.\<close>

lemma job_to_template_Inr_iff:
  "job_to_template ext job s = Inr t \<longleftrightarrow>
     (\<exists>state. sv_state s = Some state \<and> 1 \<le> sps_extranonce2_size state \<and> sps_extranonce2_size state \<le> 32 \<and>
        base_clear (jn_version job) \<and>
        t = \<lparr>jt_id = jn_job_id job, jt_prev_blockhash = jn_prev_hash job,
             jt_version = \<lparr>vt_base = jn_version job,
               vt_gp_bits_mask = (case sps_version_mask state of
                 Some vmask \<Rightarrow> GP_from_mask (be_bytes4 vmask) | None \<Rightarrow> GP_none)\<rparr>,
             jt_bits = jn_nbits job,
             jt_share_target = difficulty_target (case sps_share_difficulty state of
               Some d \<Rightarrow> d | None \<Rightarrow> Difficulty_from_u64 (se_target_max ext) 1),
             jt_time = jn_ntime job,
             jt_merkle_root = Computed
               \<lparr>mt_coinbase_prefix = jn_coinbase1 job, mt_extranonce_prefix = sps_extranonce1 state,
                mt_extranonce_range = \<lparr>er_first = 0, er_last = max_counter (of_nat (sps_extranonce2_size state)),
                  er_width = of_nat (sps_extranonce2_size state)\<rparr>,
                mt_coinbase_suffix = jn_coinbase2 job, mt_merkle_branches = jn_merkle_branches job\<rparr>\<rparr>)"
  by (auto simp: job_to_template_def ExtranonceRange_full_def check_width_def MAX_WIDTH_def VersionTemplate_new_def
      base_clear_def Let_def split: option.splits sum.splits if_splits)

subsection \<open>The run does not panic\<close>

text \<open>The backoff is always at some number of failures since the last stable connection.\<close>

lemma disconnected_backoff:
  assumes "backoff_at k (sr_backoff r)"
  shows "\<exists>r' delay j. disconnected ext now ca r = Some r' \<and> sr_phase r' = BackingOff (now + int delay) \<and>
    500000000 \<le> delay \<and> delay \<le> seconds 60 \<and> backoff_at j (sr_backoff r')"
proof -
  let ?b = "if STABLE_CONNECTION_THRESHOLD \<le> duration_since now ca then backoff_reset (sr_backoff r) else sr_backoff r"
  have "backoff_at (if STABLE_CONNECTION_THRESHOLD \<le> duration_since now ca then 0 else k) ?b"
    using assms backoff_at_reset by simp
  then obtain j where "backoff_at j ?b" by blast
  from next_delay_bounds [OF this, of "se_hasher ext"] obtain delay b' where
    d: "next_delay (se_hasher ext) ?b = Some (delay, b')" "backoff_at (Suc j) b'"
    "nominal_seconds j * 500000000 \<le> delay" "delay \<le> seconds (nominal_seconds j)" by blast
  moreover from d(3,4) nominal_seconds_bounds [of j] have "500000000 \<le> delay" "delay \<le> seconds 60" by linarith+
  ultimately show ?thesis by (auto simp: disconnected_def Let_def)
qed

lemma disconnected_backoff_Some:
  assumes "backoff_at k (sr_backoff r)" and "disconnected ext now ca r = Some r'"
  shows "\<exists>j. backoff_at j (sr_backoff r')"
    and "\<exists>delay. sr_phase r' = BackingOff (now + int delay) \<and> 500000000 \<le> delay \<and> delay \<le> seconds 60"
  using disconnected_backoff [OF assms(1), of ext now ca] assms(2) by auto

lemma start_connection_backoff: "start_connection ext now r = Some r' \<Longrightarrow> sr_backoff r' = sr_backoff r"
  by (auto simp: start_connection_def Let_def)

lemma backoff_step:
  assumes "backoff_at k (sr_backoff r)" and "source_step ext now i r = Some r'"
  shows "\<exists>j. backoff_at j (sr_backoff r')"
  using assms disconnected_backoff_Some(1) [OF assms(1)]
  by (auto simp: source_step_def waiting_command_def connected_step_def client_exit_def Let_def start_connection_backoff
      split: phase.splits source_input.splits SourceCommand.splits client_exit.splits if_splits)

lemma reach_backoff: "source_reach ext config now r \<Longrightarrow> \<exists>k. backoff_at k (sr_backoff r)"
proof (induction rule: source_reach.induct)
  case (reach_new now)
  then show ?case using backoff_at_new by (auto simp: source_run_new_def)
next
  case (reach_step before r now i r')
  then show ?case using backoff_step by blast
qed

text \<open>Every difficulty, target and delay can be computed.\<close>

lemma compute_suggested_Some: "decodes (se_decode ext) \<Longrightarrow> compute_suggested_difficulty ext h \<noteq> None"
  using to_target_value [of "se_decode ext" SUGGESTED_SHARE_RATE h] by (auto simp: compute_suggested_difficulty_def)

lemma suggestions_Some:
  assumes "decodes (se_decode ext)"
  shows "maybe_suggest_difficulty ext now s \<noteq> None" and "flush_suggest ext now s \<noteq> None"
    and "start_connection ext now r \<noteq> None"
  using compute_suggested_Some [OF assms]
  by (simp_all add: maybe_suggest_difficulty_def flush_suggest_def start_connection_def Let_def)

text \<open>The input holds no difficulty but a float.\<close>

fun float_input :: "source_input \<Rightarrow> bool" where
  "float_input (InEvent (DifficultyChanged diff)) = (f64 diff = diff)"
| "float_input _ = True"

lemma handle_client_event_Some:
  assumes "decodes (se_decode ext)" and "float_input (InEvent ev)"
  shows "handle_client_event ext ev s \<noteq> None"
proof (cases ev)
  case (DifficultyChanged diff)
  have "Difficulty_from_f64 (se_decode ext) m diff \<noteq> None" for m
  proof (cases "diff \<le> 0")
    case False
    with div_u256_f64_exact [OF assms(1), of diff m] assms(2) DifficultyChanged
    show ?thesis by (auto simp: Difficulty_from_f64_def)
  qed (simp add: Difficulty_from_f64_def)
  then show ?thesis by (simp add: DifficultyChanged handle_client_event_def)
qed (simp_all add: handle_client_event_def split: sum.split)

lemma connected_command_Some:
  "decodes (se_decode ext) \<Longrightarrow> connected_command ext now cmd s \<noteq> None"
  using suggestions_Some(1) by (auto simp: connected_command_def split: SourceCommand.split sum.split)

lemma source_step_Some:
  assumes dec: "decodes (se_decode ext)" and "backoff_at k (sr_backoff r)" and "float_input i"
  shows "source_step ext now i r \<noteq> None"
proof -
  note dis = disconnected_backoff [OF assms(2), of ext now]
  have dis: "disconnected ext now ca r \<noteq> None" for ca using dis [of ca] by auto
  then have exit_Some: "client_exit ext now ca x r \<noteq> None" for ca x by (simp add: client_exit_def split: client_exit.split)
  have "connected_step ext now ca gs i r \<noteq> None" for ca gs
    using dis exit_Some handle_client_event_Some [OF dec] connected_command_Some [OF dec] suggestions_Some(2) [OF dec] assms(3)
    by (cases i) (simp_all add: connected_step_def split: prod.split)
  then show ?thesis
    using suggestions_Some(3) [OF dec] exit_Some
    by (simp add: source_step_def waiting_command_def Let_def
        split: phase.split source_input.split SourceCommand.split)
qed

lemma source_step_backoff:
  assumes "backoff_at k (sr_backoff r)" and "source_step ext now i r = Some r'"
    and "sr_phase r' = BackingOff until" and "sr_phase r \<noteq> BackingOff until"
  shows "now + 500000000 \<le> until \<and> until \<le> now + int (seconds 60)"
  using assms disconnected_backoff_Some(2) [OF assms(1)]
  by (fastforce simp: source_step_def waiting_command_def connected_step_def client_exit_def Let_def
      dest: start_connection_fields(1)
      split: phase.splits source_input.splits SourceCommand.splits client_exit.splits if_splits)

end
