(* ===== verification/Cpu_Miner.thy ===== *)
theory Cpu_Miner
  imports Chip_Config Jobs
begin

text \<open>
  The software hash thread, \<open>cpu_miner/hasher.rs\<close>, \<open>thread.rs\<close> and \<open>config.rs\<close>. The mining loop is a
  step function over what the loop sees when it looks: the clock, the shutdown flag and its command
  channel. A share sent and an answer given are logged with the number of their channel; a send into a channel
  whose receiver is gone is logged as well, and waiting for room in a full channel is not modelled. The lemmas
  show that it searches every nonce, that what it sends are shares of the task it was given, and how
  long a cycle can last.
\<close>

subsection \<open>Configuration\<close>

text \<open>Decimal numbers as \<open>str::parse\<close> reads them into an unsigned type: digits after an optional plus.\<close>

definition digit :: "char \<Rightarrow> nat option" where
  "digit c = (let n = of_char c :: nat in if 48 \<le> n \<and> n \<le> 57 then Some (n - 48) else None)"

fun decimal_digits :: "nat \<Rightarrow> string \<Rightarrow> nat option" where
  "decimal_digits acc [] = Some acc"
| "decimal_digits acc (c # cs) = (case digit c of None \<Rightarrow> None | Some d \<Rightarrow> decimal_digits (10 * acc + d) cs)"

definition parse_unsigned :: "nat \<Rightarrow> string \<Rightarrow> nat option" where
  "parse_unsigned limit s =
     (let body = (case s of CHR ''+'' # cs \<Rightarrow> cs | _ \<Rightarrow> s)
      in if body = [] then None
         else case decimal_digits 0 body of None \<Rightarrow> None | Some n \<Rightarrow> if n \<le> limit then Some n else None)"

record CpuMinerConfig =
  cm_thread_count :: nat
  cm_duty_percent :: u8

definition CpuMinerConfig_from_env :: "(string \<Rightarrow> string option) \<Rightarrow> CpuMinerConfig option" where
  "CpuMinerConfig_from_env var =
     (case Option.bind (var ''MUJINA_CPUMINER_THREADS'') (parse_unsigned (2 ^ 64 - 1)) of
        None \<Rightarrow> None
      | Some thread_count \<Rightarrow>
          (let duty = (case Option.bind (var ''MUJINA_CPUMINER_DUTY'') (parse_unsigned 255) of None \<Rightarrow> 50 | Some d \<Rightarrow> d)
           in Some \<lparr>cm_thread_count = thread_count, cm_duty_percent = of_nat (max 1 (min 100 duty))\<rparr>))"

subsection \<open>State and commands\<close>

datatype MinerCommand =
  MinerUpdateTask HashTask channel
| MinerReplaceTask HashTask channel
| MinerGoIdle channel
| MinerShutdown

record miner =
  mi_current_task :: "HashTask option"
  mi_cached_merkle_root :: "bytes option"
  mi_nonce :: u32
  mi_last_ntime_tick :: instant
  mi_shares_found :: u64
  mi_hashes_computed :: u64
  mi_last_hashrate_update :: instant
  mi_is_active :: bool
  mi_chip_shares_found :: u64
  mi_hashrate :: HashRate
  mi_sent :: "(channel \<times> Share) list"
  mi_answers :: "(channel \<times> HashTask option) list"

definition miner_new :: "instant \<Rightarrow> miner" where
  "miner_new now =
     \<lparr>mi_current_task = None, mi_cached_merkle_root = None, mi_nonce = 0, mi_last_ntime_tick = now,
      mi_shares_found = 0, mi_hashes_computed = 0, mi_last_hashrate_update = now,
      mi_is_active = False, mi_chip_shares_found = 0, mi_hashrate = 0, mi_sent = [], mi_answers = []\<rparr>"

subsection \<open>Hashing\<close>

definition task_merkle_root :: "bitcoin \<Rightarrow> HashTask \<Rightarrow> bytes option" where
  "task_merkle_root btc task =
     (let template = ht_template task
      in case jt_merkle_root template of
           Fixed mr \<Rightarrow> Some mr
         | Computed _ \<Rightarrow>
             Option.bind (ht_extranonce task)
               (\<lambda>extranonce. case compute_merkle_root btc template extranonce of Inl _ \<Rightarrow> None | Inr mr \<Rightarrow> Some mr))"

definition task_header :: "HashTask \<Rightarrow> bytes \<Rightarrow> u32 \<Rightarrow> BlockHeader" where
  "task_header task merkle_root nonce =
     (let template = ht_template task
      in \<lparr>bh_version = vt_base (jt_version template), bh_prev_blockhash = jt_prev_blockhash template,
          bh_merkle_root = merkle_root, bh_time = ht_ntime task, bh_bits = jt_bits template, bh_nonce = nonce\<rparr>)"

definition try_nonce :: "bitcoin \<Rightarrow> HashTask \<Rightarrow> bytes \<Rightarrow> u32 \<Rightarrow> Share option" where
  "try_nonce btc task merkle_root nonce =
     (let hash = x_block_hash btc (task_header task merkle_root nonce)
      in if x_is_met_by btc (ht_share_target task) hash
         then Some \<lparr>sh_nonce = nonce, sh_hash = hash, sh_version = vt_base (jt_version (ht_template task)),
                    sh_ntime = ht_ntime task, sh_extranonce = ht_extranonce task,
                    sh_expected_work = x_to_work btc (ht_share_target task)\<rparr>
         else None)"

text \<open>One round of the inner loop that hashes; a share channel that is closed only loses the share.\<close>

definition hash_nonce :: "bitcoin \<Rightarrow> miner \<Rightarrow> miner" where
  "hash_nonce btc m =
     (let m = (case (mi_current_task m, mi_cached_merkle_root m) of
                 (Some task, Some merkle_root) \<Rightarrow>
                   (case try_nonce btc task merkle_root (mi_nonce m) of
                      None \<Rightarrow> m
                    | Some share \<Rightarrow>
                        m\<lparr>mi_shares_found := mi_shares_found m + 1,
                          mi_sent := mi_sent m @ [(ht_share_tx task, share)]\<rparr>)
               | _ \<Rightarrow> m)
      in m\<lparr>mi_nonce := mi_nonce m + 1, mi_hashes_computed := mi_hashes_computed m + 1\<rparr>)"

subsection \<open>Commands\<close>

definition update_status :: "bool \<Rightarrow> miner \<Rightarrow> miner" where
  "update_status is_active m = m\<lparr>mi_is_active := is_active, mi_chip_shares_found := mi_shares_found m\<rparr>"

definition take_task :: "bitcoin \<Rightarrow> HashTask \<Rightarrow> channel \<Rightarrow> miner \<Rightarrow> miner" where
  "take_task btc task response_tx m =
     (let old = mi_current_task m;
          m = update_status True
            (m\<lparr>mi_cached_merkle_root := task_merkle_root btc task, mi_current_task := Some task, mi_nonce := 0\<rparr>)
      in m\<lparr>mi_answers := mi_answers m @ [(response_tx, old)]\<rparr>)"

text \<open>A command, the same in both loops; \<open>None\<close> ends the thread.\<close>

fun miner_command :: "bitcoin \<Rightarrow> MinerCommand \<Rightarrow> miner \<Rightarrow> miner option" where
  "miner_command btc (MinerUpdateTask task response_tx) m = Some (take_task btc task response_tx m)"
| "miner_command btc (MinerReplaceTask task response_tx) m = Some (take_task btc task response_tx m)"
| "miner_command btc (MinerGoIdle response_tx) m =
     (let old = mi_current_task m;
          m = update_status False (m\<lparr>mi_cached_merkle_root := None, mi_current_task := None\<rparr>)
      in Some (m\<lparr>mi_answers := mi_answers m @ [(response_tx, old)]\<rparr>))"
| "miner_command btc MinerShutdown m = None"

text \<open>The commands waiting at the top of the loop; whether the thread goes on.\<close>

fun drain_commands :: "bitcoin \<Rightarrow> MinerCommand list \<Rightarrow> miner \<Rightarrow> bool \<times> miner" where
  "drain_commands btc [] m = (True, m)"
| "drain_commands btc (cmd # cmds) m =
     (case miner_command btc cmd m of None \<Rightarrow> (False, m) | Some m \<Rightarrow> drain_commands btc cmds m)"

subsection \<open>The loop\<close>

text \<open>
  What the loop sees at a look: the time, the flag, the commands waiting and whether their sender is
  gone, and by how much a sleep that starts now overshoots.
\<close>

record look =
  lk_now :: instant
  lk_shutdown :: bool
  lk_commands :: "MinerCommand list"
  lk_disconnected :: bool
  lk_overshoot :: duration

text \<open>At the top of the loop, in a cycle started at a time, or returned.\<close>

datatype miner_phase = AtTop | InCycle instant | Returned

definition work_ms :: "u8 \<Rightarrow> nat" where
  "work_ms duty_percent = unat (float_to_u64 (f64 (f64 (1000 * of_nat (unat duty_percent)) / 100)))"

definition millis :: "nat \<Rightarrow> duration" where
  "millis n = n * 1000000"

text \<open>The time after the sleep for the remainder of a cycle of a second.\<close>

definition after_sleep :: "look \<Rightarrow> instant \<Rightarrow> instant" where
  "after_sleep look cycle_start =
     (let elapsed = duration_since (lk_now look) cycle_start div 1000000
      in lk_now look + int (millis (1000 - elapsed)) + int (lk_overshoot look))"

definition roll_task_ntime :: "instant \<Rightarrow> miner \<Rightarrow> miner" where
  "roll_task_ntime now m =
     (if millis 1000 \<le> duration_since now (mi_last_ntime_tick m)
      then m\<lparr>mi_current_task := map_option (\<lambda>task. task\<lparr>ht_ntime := ht_ntime task + 1\<rparr>) (mi_current_task m),
             mi_last_ntime_tick := now\<rparr>
      else m)"

definition update_hashrate :: "instant \<Rightarrow> miner \<Rightarrow> miner" where
  "update_hashrate now m =
     (if millis 5000 \<le> duration_since now (mi_last_hashrate_update m)
      then
        (let elapsed_secs = as_secs_f64 (duration_since now (mi_last_hashrate_update m));
             hashes_per_sec = float_to_u64 (f64 (f64 (of_nat (unat (mi_hashes_computed m))) / elapsed_secs))
         in m\<lparr>mi_hashrate := hashes_per_sec, mi_chip_shares_found := mi_shares_found m,
              mi_hashes_computed := 0, mi_last_hashrate_update := now\<rparr>)
      else m)"

definition end_cycle :: "look \<Rightarrow> instant \<Rightarrow> miner \<Rightarrow> miner" where
  "end_cycle look cycle_start m =
     (let now = after_sleep look cycle_start in update_hashrate now (roll_task_ntime now m))"

definition cycle_step :: "bitcoin \<Rightarrow> nat \<Rightarrow> look \<Rightarrow> instant \<Rightarrow> miner \<Rightarrow> miner_phase \<times> miner" where
  "cycle_step btc work look cycle_start m =
     (let looks_at_clock = mi_hashes_computed m mod 10000 = 0;
          looks_at_commands = mi_hashes_computed m mod 1000 = 0
      in if looks_at_clock \<and> millis work \<le> duration_since (lk_now look) cycle_start
         then (AtTop, end_cycle look cycle_start m)
         else if looks_at_clock \<and> lk_shutdown look then (Returned, m)
         else case (if looks_at_commands then lk_commands look else []) of
           [] \<Rightarrow> (InCycle cycle_start, hash_nonce btc m)
         | cmd # _ \<Rightarrow>
             (case miner_command btc cmd m of
                None \<Rightarrow> (Returned, m)
              | Some m \<Rightarrow> (AtTop, end_cycle look cycle_start m)))"

definition top_step :: "bitcoin \<Rightarrow> look \<Rightarrow> miner \<Rightarrow> miner_phase \<times> miner" where
  "top_step btc look m =
     (if lk_shutdown look then (Returned, m)
      else case drain_commands btc (lk_commands look) m of
        (False, m) \<Rightarrow> (Returned, m)
      | (True, m) \<Rightarrow>
          if lk_disconnected look then (Returned, m)
          else if mi_current_task m \<noteq> None then (InCycle (lk_now look), m)
          else (AtTop, m))"

fun miner_step :: "bitcoin \<Rightarrow> nat \<Rightarrow> look \<Rightarrow> miner_phase \<times> miner \<Rightarrow> miner_phase \<times> miner" where
  "miner_step btc work look (AtTop, m) = top_step btc look m"
| "miner_step btc work look (InCycle cycle_start, m) = cycle_step btc work look cycle_start m"
| "miner_step btc work look (Returned, m) = (Returned, m)"

definition run_mining_loop :: "bitcoin \<Rightarrow> u8 \<Rightarrow> instant \<Rightarrow> look list \<Rightarrow> miner_phase \<times> miner" where
  "run_mining_loop btc duty_percent start looks =
     fold (miner_step btc (work_ms duty_percent)) looks (AtTop, miner_new start)"

subsection \<open>The thread's handle\<close>

definition HashRate_from_megahashes :: "rat \<Rightarrow> HashRate" where
  "HashRate_from_megahashes mh = float_to_u64 (f64 (mh * f64 1000000))"

definition HashRate_as_megahashes :: "HashRate \<Rightarrow> rat" where
  "HashRate_as_megahashes rate = f64 (f64 (of_nat (unat rate)) / f64 1000000)"

text \<open>What \<open>configure\<close> declares, from the peak the probe measures.\<close>

definition probed_hashrate :: "u64 \<Rightarrow> duration \<Rightarrow> HashRate" where
  "probed_hashrate hashes elapsed = float_to_u64 (f64 (f64 (of_nat (unat hashes)) / as_secs_f64 elapsed))"

definition declared_hashrate :: "HashRate \<Rightarrow> u8 \<Rightarrow> HashRate" where
  "declared_hashrate peak duty_percent =
     HashRate_from_megahashes (f64 (f64 (HashRate_as_megahashes peak * of_nat (unat duty_percent)) / 100))"

subsection \<open>Search\<close>

lemma work_ms_eq: "work_ms d = 10 * unat d"
proof (cases "unat d = 0")
  case True
  then show ?thesis by (simp add: work_ms_def float_to_u64_def)
next
  case False
  have d: "unat d < 256" using unsigned_less [of d, where 'a = nat] by simp
  have "f64 (1000 * of_nat (unat d)) = f64 (of_nat (1000 * unat d))" by simp
  also have "\<dots> = of_nat (1000 * unat d)" using False d by (intro f64_nat) simp_all
  finally have "f64 (1000 * of_nat (unat d)) / 100 = of_nat (10 * unat d)" by simp
  moreover have "f64 (of_nat (10 * unat d)) = of_nat (10 * unat d)" using False d by (intro f64_nat) simp_all
  ultimately have "work_ms d = unat (float_to_u64 (of_nat (10 * unat d)))" by (simp only: work_ms_def)
  also have "\<dots> = 10 * unat d"
  proof -
    have "\<not> 2 ^ 64 \<le> rat_of_nat (10 * unat d)" using d by (simp del: of_nat_unat)
    moreover have "\<not> rat_of_nat (10 * unat d) \<le> 0" using False by (simp del: of_nat_unat)
    ultimately have "float_to_u64 (of_nat (10 * unat d)) = of_nat (10 * unat d)"
      by (simp only: float_to_u64_def if_False floor_of_nat of_int_of_nat_eq)
    moreover have "take_bit LENGTH(64) (10 * unat d) = 10 * unat d" using d by (intro take_bit_nat_eq_self) simp
    ultimately show ?thesis by (simp only: unsigned_of_nat of_nat_id)
  qed
  finally show ?thesis .
qed

text \<open>The shares of \<open>k\<close> nonces from \<open>n\<close> on.\<close>

definition shares_of :: "bitcoin \<Rightarrow> HashTask \<Rightarrow> bytes \<Rightarrow> u32 \<Rightarrow> nat \<Rightarrow> Share list" where
  "shares_of btc task merkle_root n k =
     List.map_filter (\<lambda>i. try_nonce btc task merkle_root (n + of_nat i)) [0..<k]"

lemma hash_nonce_run:
  assumes "mi_current_task m = Some task" and "mi_cached_merkle_root m = Some merkle_root"
  shows "(hash_nonce btc ^^ k) m =
    (let found = shares_of btc task merkle_root (mi_nonce m) k
     in m\<lparr>mi_nonce := mi_nonce m + of_nat k, mi_hashes_computed := mi_hashes_computed m + of_nat k,
          mi_shares_found := mi_shares_found m + of_nat (length found),
          mi_sent := mi_sent m @ map (Pair (ht_share_tx task)) found\<rparr>)"
proof (induction k)
  case 0
  then show ?case by (simp add: shares_of_def Let_def List.map_filter_simps)
next
  case (Suc k)
  show ?case
    unfolding funpow.simps o_apply Suc
    using assms by (simp add: shares_of_def Let_def hash_nonce_def map_filter_def ac_simps split: option.split)
qed

text \<open>A look within the working time at which nothing happens.\<close>

definition quiet :: "nat \<Rightarrow> instant \<Rightarrow> look \<Rightarrow> bool" where
  "quiet work cycle_start look \<longleftrightarrow>
     duration_since (lk_now look) cycle_start < millis work \<and> \<not> lk_shutdown look \<and> lk_commands look = []"

lemma quiet_cycle:
  "list_all (quiet work cycle_start) looks \<Longrightarrow>
     fold (miner_step btc work) looks (InCycle cycle_start, m) =
       (InCycle cycle_start, (hash_nonce btc ^^ length looks) m)"
proof (induction looks arbitrary: m)
  case (Cons look looks)
  then have "miner_step btc work look (InCycle cycle_start, m) = (InCycle cycle_start, hash_nonce btc m)"
    by (simp add: quiet_def cycle_step_def)
  with Cons show ?case by (simp add: funpow_swap1)
qed simp

subsection \<open>What is sent\<close>

definition rolled :: "nat \<Rightarrow> HashTask \<Rightarrow> HashTask" where
  "rolled k task = task\<lparr>ht_ntime := ht_ntime task + of_nat k\<rparr>"

definition commanded :: "look list \<Rightarrow> HashTask set" where
  "commanded looks =
     {task. \<exists>look \<in> set looks. \<exists>tx. MinerUpdateTask task tx \<in> set (lk_commands look) \<or>
        MinerReplaceTask task tx \<in> set (lk_commands look)}"

text \<open>A share of a task: the hash of a header of it, and good enough.\<close>

definition share_of_task :: "bitcoin \<Rightarrow> HashTask \<Rightarrow> channel \<times> Share \<Rightarrow> bool" where
  "share_of_task btc task sent \<longleftrightarrow>
     fst sent = ht_share_tx task \<and>
     (\<exists>k merkle_root. task_merkle_root btc task = Some merkle_root \<and>
        try_nonce btc (rolled k task) merkle_root (sh_nonce (snd sent)) = Some (snd sent))"

definition miner_inv :: "bitcoin \<Rightarrow> HashTask set \<Rightarrow> miner \<Rightarrow> bool" where
  "miner_inv btc T m \<longleftrightarrow>
     mi_cached_merkle_root m = Option.bind (mi_current_task m) (task_merkle_root btc) \<and>
     (mi_is_active m \<longleftrightarrow> mi_current_task m \<noteq> None) \<and>
     (\<forall>task. mi_current_task m = Some task \<longrightarrow> (\<exists>t \<in> T. \<exists>k. task = rolled k t)) \<and>
     (\<forall>sent \<in> set (mi_sent m). \<exists>t \<in> T. share_of_task btc t sent)"

lemma rolled_simps [simp]:
  "task_merkle_root btc (rolled k task) = task_merkle_root btc task" "ht_share_tx (rolled k task) = ht_share_tx task"
  "(rolled k task)\<lparr>ht_ntime := ht_ntime (rolled k task) + 1\<rparr> = rolled (Suc k) task" "rolled 0 task = task"
  by (simp_all add: rolled_def task_merkle_root_def ac_simps Let_def split: MerkleRootKind.split)

lemma rolled_origin: "task \<in> T \<Longrightarrow> \<exists>t \<in> T. \<exists>k. task = rolled k t"
  by (metis rolled_simps(4))

lemma try_nonce_nonce: "try_nonce btc task merkle_root n = Some share \<Longrightarrow> sh_nonce share = n"
  by (auto simp: try_nonce_def Let_def split: if_splits)

lemma try_nonce_Some:
  assumes "try_nonce btc task merkle_root n = Some share"
  shows "sh_hash share = x_block_hash btc (task_header task merkle_root n)"
    and "x_is_met_by btc (ht_share_target task) (sh_hash share)"
    and "sh_version share = vt_base (jt_version (ht_template task))" and "sh_ntime share = ht_ntime task"
    and "sh_extranonce share = ht_extranonce task"
  using assms by (auto simp: try_nonce_def Let_def split: if_splits)

lemma miner_inv_new: "miner_inv btc T (miner_new start)"
  by (simp add: miner_inv_def miner_new_def)

lemma miner_inv_hash_nonce:
  assumes "miner_inv btc T m"
  shows "miner_inv btc T (hash_nonce btc m)"
proof (cases "Option.bind (mi_current_task m) (\<lambda>task.
    Option.bind (mi_cached_merkle_root m) (\<lambda>merkle_root.
      map_option (Pair (ht_share_tx task)) (try_nonce btc task merkle_root (mi_nonce m))))")
  case None
  then show ?thesis
    using assms by (auto simp: miner_inv_def hash_nonce_def Let_def split: option.splits)
next
  case (Some sent)
  then obtain task merkle_root share where
    task: "mi_current_task m = Some task" and mr: "mi_cached_merkle_root m = Some merkle_root"
    and share: "try_nonce btc task merkle_root (mi_nonce m) = Some share"
    by (auto simp: bind_eq_Some_conv)
  obtain t k where t: "t \<in> T" "task = rolled k t" using assms task unfolding miner_inv_def by blast
  have "task_merkle_root btc t = Some merkle_root" using assms task mr t(2) by (simp add: miner_inv_def)
  then have "share_of_task btc t (ht_share_tx task, share)"
    using share try_nonce_nonce [OF share] t(2) by (auto simp: share_of_task_def)
  moreover have "hash_nonce btc m =
      m\<lparr>mi_shares_found := mi_shares_found m + 1, mi_sent := mi_sent m @ [(ht_share_tx task, share)],
        mi_nonce := mi_nonce m + 1, mi_hashes_computed := mi_hashes_computed m + 1\<rparr>"
    using share by (simp add: hash_nonce_def Let_def task mr)
  ultimately show ?thesis
    using assms t(1) by (auto simp: miner_inv_def)
qed

lemma miner_inv_command:
  assumes "miner_inv btc T m" and "miner_command btc cmd m = Some m'"
    and "\<And>task tx. cmd = MinerUpdateTask task tx \<or> cmd = MinerReplaceTask task tx \<Longrightarrow> task \<in> T"
  shows "miner_inv btc T m'"
proof (cases cmd)
  case (MinerGoIdle tx)
  then show ?thesis using assms(1,2) by (auto simp: miner_inv_def update_status_def Let_def)
qed (use assms rolled_origin in \<open>auto simp: miner_inv_def take_task_def update_status_def Let_def\<close>)

lemma miner_inv_drain:
  assumes "miner_inv btc T m"
    and "\<And>task tx. MinerUpdateTask task tx \<in> set cmds \<or> MinerReplaceTask task tx \<in> set cmds \<Longrightarrow> task \<in> T"
  shows "miner_inv btc T (snd (drain_commands btc cmds m))"
  using assms
proof (induction cmds arbitrary: m)
  case (Cons cmd cmds)
  show ?case
  proof (cases "miner_command btc cmd m")
    case None
    then show ?thesis using Cons.prems(1) by simp
  next
    case (Some m')
    have "miner_inv btc T m'" by (rule miner_inv_command [OF Cons.prems(1) Some]) (use Cons.prems(2) in auto)
    then have "miner_inv btc T (snd (drain_commands btc cmds m'))" by (rule Cons.IH) (use Cons.prems(2) in auto)
    then show ?thesis using Some by simp
  qed
qed simp

lemma miner_inv_end_cycle:
  assumes "miner_inv btc T m"
  shows "miner_inv btc T (end_cycle look cycle_start m)"
proof -
  have "miner_inv btc T (roll_task_ntime now m)" for now
  proof (cases "mi_current_task m")
    case None
    then show ?thesis using assms by (simp add: miner_inv_def roll_task_ntime_def)
  next
    case (Some task)
    then obtain t k where t: "t \<in> T" "task = rolled k t" using assms by (auto simp: miner_inv_def)
    have "miner_inv btc T (m\<lparr>mi_current_task := Some (rolled (Suc k) t), mi_last_ntime_tick := now\<rparr>)"
      using assms Some t by (auto simp: miner_inv_def simp del: rolled_simps(3))
    then show ?thesis
      using assms unfolding roll_task_ntime_def Some t(2) option.map rolled_simps(3) by simp
  qed
  then show ?thesis by (simp add: end_cycle_def update_hashrate_def Let_def miner_inv_def)
qed

lemma miner_inv_step:
  assumes "miner_inv btc T (snd s)" and "commanded [look] \<subseteq> T"
  shows "miner_inv btc T (snd (miner_step btc work look s))"
proof -
  have cmds: "task \<in> T" if "MinerUpdateTask task tx \<in> set (lk_commands look) \<or> MinerReplaceTask task tx \<in> set (lk_commands look)"
    for task tx
    using assms(2) that by (auto simp: commanded_def)
  obtain phase m where s: "s = (phase, m)" by fastforce
  then have inv: "miner_inv btc T m" using assms(1) by simp
  show ?thesis
  proof (cases phase)
    case AtTop
    have "miner_inv btc T (snd (drain_commands btc (lk_commands look) m))" by (rule miner_inv_drain [OF inv cmds])
    then show ?thesis
      using inv by (auto simp: s AtTop top_step_def split: prod.split bool.split)
  next
    case (InCycle cycle_start)
    have "miner_inv btc T m'" if "lk_commands look = cmd # cs" "miner_command btc cmd m = Some m'" for cmd cs m'
      by (rule miner_inv_command [OF inv that(2)]) (use cmds that(1) in auto)
    then show ?thesis
      using inv by (auto simp: s InCycle cycle_step_def Let_def split: list.split option.split
          intro: miner_inv_end_cycle miner_inv_hash_nonce)
  qed (simp add: s inv)
qed

lemma miner_inv_run:
  assumes "miner_inv btc T (snd s)" and "commanded looks \<subseteq> T"
  shows "miner_inv btc T (snd (fold (miner_step btc work) looks s))"
  using assms
proof (induction looks arbitrary: s)
  case (Cons look looks)
  have "commanded [look] \<subseteq> T" "commanded looks \<subseteq> T" using Cons.prems(2) by (auto simp: commanded_def)
  then show ?case using Cons by (simp add: miner_inv_step)
qed simp

subsection \<open>The length of a cycle\<close>

text \<open>How many more hashes until the clock is read.\<close>

definition until_clock :: "u64 \<Rightarrow> nat" where
  "until_clock h = (if unat h mod 10000 = 0 then 0 else 10000 - unat h mod 10000)"

lemma until_clock_bound: "until_clock h \<le> 9999"
  by (auto simp: until_clock_def)

lemma until_clock_0: "until_clock h = 0 \<longleftrightarrow> h mod 10000 = 0"
proof -
  have "unat (h mod 10000) = unat h mod 10000" by (simp add: unat_mod_distrib)
  moreover have "unat h mod 10000 < 10000" by simp
  ultimately show ?thesis by (auto simp: until_clock_def unat_eq_0 [symmetric] simp del: unat_eq_0)
qed

lemma until_clock_Suc:
  assumes "until_clock h \<noteq> 0"
  shows "until_clock (h + 1) < until_clock h"
proof (cases "h + 1 = 0")
  case True
  then show ?thesis using assms by (simp add: until_clock_def)
next
  case False
  then have "unat (h + 1) = Suc (unat h)" by (simp add: unatSuc add.commute)
  moreover have "Suc n mod 10000 = (if n mod 10000 = 9999 then 0 else Suc (n mod 10000))" for n :: nat
    by (simp add: mod_Suc)
  moreover have "unat h mod 10000 < 10000" by simp
  ultimately show ?thesis using assms by (auto simp: until_clock_def split: if_splits)
qed

lemma hashes_computed_hash_nonce: "mi_hashes_computed (hash_nonce btc m) = mi_hashes_computed m + 1"
  by (simp add: hash_nonce_def Let_def split: option.split)

text \<open>Once the working time is over, the cycle ends before another ten thousand hashes.\<close>

lemma cycle_ends_by:
  "list_all (\<lambda>look. millis work \<le> duration_since (lk_now look) cycle_start) looks \<Longrightarrow>
   until_clock (mi_hashes_computed m) < length looks \<Longrightarrow>
     \<exists>i \<le> length looks. fst (fold (miner_step btc work) (take i looks) (InCycle cycle_start, m)) \<noteq> InCycle cycle_start"
proof (induction looks arbitrary: m)
  case (Cons look looks)
  let ?s = "miner_step btc work look (InCycle cycle_start, m)"
  show ?case
  proof (cases "fst ?s = InCycle cycle_start")
    case False
    then show ?thesis by (intro exI [of _ 1]) simp
  next
    case True
    have late: "millis work \<le> duration_since (lk_now look) cycle_start" using Cons.prems(1) by simp
    have "fst ?s = AtTop" if "until_clock (mi_hashes_computed m) = 0"
      using that late by (simp only: until_clock_0 miner_step.simps cycle_step_def Let_def simp_thms if_True fst_conv)
    then have clock: "until_clock (mi_hashes_computed m) \<noteq> 0" using True by auto
    have "?s = (InCycle cycle_start, hash_nonce btc m)"
      using True by (auto simp: cycle_step_def Let_def split: if_splits list.splits option.splits)
    moreover have "until_clock (mi_hashes_computed (hash_nonce btc m)) < length looks"
      using until_clock_Suc [OF clock] Cons.prems(2) by (simp add: hashes_computed_hash_nonce)
    then obtain i where "i \<le> length looks"
      "fst (fold (miner_step btc work) (take i looks) (InCycle cycle_start, hash_nonce btc m)) \<noteq> InCycle cycle_start"
      using Cons.IH Cons.prems(1) by auto
    ultimately show ?thesis by (intro exI [of _ "Suc i"]) (simp del: miner_step.simps)
  qed
qed simp

text \<open>However a cycle ends, by its time or by a command, the next begins a second after its start or later.\<close>

lemma cycle_takes_a_second:
  assumes "cycle_start \<le> lk_now look"
  shows "cycle_start + int (millis 1000) \<le> after_sleep look cycle_start"
proof -
  let ?e = "duration_since (lk_now look) cycle_start"
  have now: "lk_now look = cycle_start + int ?e" using assms by (simp add: duration_since_def)
  have "1000 * 1000000 \<le> ?e + (1000 - ?e div 1000000) * 1000000"
  proof (cases "?e div 1000000 < 1000")
    case True
    have "(?e div 1000000) * 1000000 \<le> ?e" by (rule div_times_less_eq_dividend)
    then show ?thesis using True by (simp add: diff_mult_distrib)
  next
    case False
    then have "1000 * 1000000 \<le> (?e div 1000000) * 1000000" by (intro mult_right_mono) simp_all
    also have "\<dots> \<le> ?e" by (rule div_times_less_eq_dividend)
    finally show ?thesis by simp
  qed
  then have "int (1000 * 1000000) \<le> int (?e + (1000 - ?e div 1000000) * 1000000)" by (simp only: of_nat_le_iff)
  then show ?thesis unfolding after_sleep_def Let_def millis_def by (subst now) simp
qed

end
