(* ===== verification/Stratum_Pool.thy ===== *)
theory Stratum_Pool
  imports Stratum_Source Chip_Actor Cpu_Miner
begin

text \<open>
  The pool's side of a submission: the header a pool puts together from its own job and the
  parameters of \<open>mining.submit\<close>, and when it is the header the hash thread has hashed. This joins
  \<open>job_source/stratum_v1.rs\<close> with \<open>asic/bm13xx/thread.rs\<close>.
\<close>

subsection \<open>What the pool makes of a submission\<close>

text \<open>
  The header the pool puts together from its own job, the extranonce and version mask it handed
  out, and the parameters of a submission.
\<close>

definition pool_version :: "i32 \<Rightarrow> u32 option \<Rightarrow> u32 option \<Rightarrow> i32" where
  "pool_version version vmask bits =
     (case (vmask, bits) of
        (Some m, Some b) \<Rightarrow> (version AND NOT m) OR (b AND m)
      | _ \<Rightarrow> version)"

definition pool_header ::
    "bitcoin \<Rightarrow> hex_codec \<Rightarrow> JobNotification \<Rightarrow> bytes \<Rightarrow> u32 option \<Rightarrow> json list \<Rightarrow> BlockHeader option" where
  "pool_header btc hex job extranonce1 vmask params =
     (case submission_fields hex params of
        None \<Rightarrow> None
      | Some (user, job_id, extranonce2, ntime, nonce, bits) \<Rightarrow>
          map_option
            (\<lambda>txid. \<lparr>bh_version = pool_version (jn_version job) vmask bits, bh_prev_blockhash = jn_prev_hash job,
               bh_merkle_root = fold (\<lambda>branch h. x_sha256d btc (h @ branch)) (jn_merkle_branches job) txid,
               bh_time = ntime, bh_bits = jn_nbits job, bh_nonce = nonce\<rparr>)
            (x_coinbase_txid btc (jn_coinbase1 job @ extranonce1 @ extranonce2 @ jn_coinbase2 job)))"

text \<open>The header a hash thread has worked on for a share of a template.\<close>

definition share_header :: "JobTemplate \<Rightarrow> bytes \<Rightarrow> SourceShare \<Rightarrow> BlockHeader" where
  "share_header t mroot share =
     \<lparr>bh_version = ss_version share, bh_prev_blockhash = jt_prev_blockhash t, bh_merkle_root = mroot,
      bh_time = ss_time share, bh_bits = jt_bits t, bh_nonce = ss_nonce share\<rparr>"

definition version_within_mask :: "i32 \<Rightarrow> u32 option \<Rightarrow> i32 \<Rightarrow> bool" where
  "version_within_mask base vmask version \<longleftrightarrow>
     (case vmask of None \<Rightarrow> version = base | Some m \<Rightarrow> version AND NOT m = base AND NOT m)"

lemma pool_version_iff:
  "pool_version base vmask (map_option (\<lambda>m. version AND m) vmask) = version \<longleftrightarrow> version_within_mask base vmask version"
proof (cases vmask)
  case None
  then show ?thesis by (auto simp: pool_version_def version_within_mask_def)
next
  case (Some m)
  have "(base AND NOT m) OR (version AND m AND m) = version \<longleftrightarrow> version AND NOT m = base AND NOT m"
    by (auto simp: bit_eq_iff bit_simps)
  then show ?thesis by (simp add: Some pool_version_def version_within_mask_def)
qed

lemma pool_agrees:
  assumes "hex_laws hex" and "sv_state s = Some state" and "job_to_template ext job s = Inr t"
    and "ss_extranonce share = Some e" and "compute_merkle_root btc t e = Inr mroot"
  shows "\<exists>p h. share_to_submit_params share s = Inr p \<and>
    pool_header btc hex job (sps_extranonce1 state) (sps_version_mask state) (to_stratum_json hex p) = Some h \<and>
    (h = share_header t mroot share \<longleftrightarrow>
       version_within_mask (jn_version job) (sps_version_mask state) (ss_version share)) \<and>
    (bh_version h = ss_version share \<longleftrightarrow>
       version_within_mask (jn_version job) (sps_version_mask state) (ss_version share))"
proof -
  let ?p = "\<lparr>sp_username = pc_username (sv_config s), sp_job_id = ss_job_id share,
    sp_extranonce2 = Extranonce_bytes e, sp_ntime = ss_time share, sp_nonce = ss_nonce share,
    sp_version_bits = map_option (\<lambda>m. ss_version share AND m) (sps_version_mask state)\<rparr>"
  have p: "share_to_submit_params share s = Inr ?p"
    using assms(2,4) by (simp add: share_to_submit_params_def)
  from assms(2,3) have t: "jt_prev_blockhash t = jn_prev_hash job" "jt_bits t = jn_nbits job"
    and mr: "\<exists>mt. jt_merkle_root t = Computed mt \<and> coinbase_bytes mt e =
        jn_coinbase1 job @ sps_extranonce1 state @ Extranonce_bytes e @ jn_coinbase2 job \<and>
        mt_merkle_branches mt = jn_merkle_branches job"
    unfolding job_to_template_Inr_iff by (auto simp: coinbase_bytes_def extend_vec_def Let_def)
  from mr assms(5) obtain txid where
    tx: "x_coinbase_txid btc (jn_coinbase1 job @ sps_extranonce1 state @ Extranonce_bytes e @ jn_coinbase2 job) = Some txid"
    and mroot: "mroot = fold (\<lambda>branch h. x_sha256d btc (h @ branch)) (jn_merkle_branches job) txid"
    by (auto simp: compute_merkle_root_def Template_compute_merkle_root_def split: option.splits)
  let ?h = "\<lparr>bh_version = pool_version (jn_version job) (sps_version_mask state) (sp_version_bits ?p),
    bh_prev_blockhash = jn_prev_hash job, bh_merkle_root = mroot, bh_time = ss_time share,
    bh_bits = jn_nbits job, bh_nonce = ss_nonce share\<rparr>"
  have "pool_header btc hex job (sps_extranonce1 state) (sps_version_mask state) (to_stratum_json hex ?p) = Some ?h"
    unfolding pool_header_def submission_fields_submit [OF assms(1)] by (simp add: tx mroot)
  moreover have "?h = share_header t mroot share \<longleftrightarrow>
      version_within_mask (jn_version job) (sps_version_mask state) (ss_version share)"
    using pool_version_iff [of "jn_version job" "sps_version_mask state" "ss_version share"] t
    by (simp add: share_header_def)
  moreover have "bh_version ?h = ss_version share \<longleftrightarrow>
      version_within_mask (jn_version job) (sps_version_mask state) (ss_version share)"
    using pool_version_iff [of "jn_version job" "sps_version_mask state" "ss_version share"] by simp
  ultimately show ?thesis using p by blast
qed

text \<open>From the nonce of a chip to the pool: the version bits decide.\<close>

definition rolled_within :: "u32 option \<Rightarrow> GeneralPurposeBits \<Rightarrow> bool" where
  "rolled_within vmask g \<longleftrightarrow>
     push_bit 13 (ucast (GP_bits g)) AND NOT (case vmask of Some m \<Rightarrow> m | None \<Rightarrow> 0) = (0 :: u32)"

lemma rolled_within_mask_iff:
  assumes "base_clear base"
  shows "version_within_mask base vmask (apply_to_version g base) \<longleftrightarrow> rolled_within vmask g"
proof (cases vmask)
  case None
  have none: "apply_to_version GP_none base = base" "GP_bits GP_none = 0"
    by (simp_all add: apply_to_version_def GP_bits_def GP_none_def u16_from_be_def)
  have "apply_to_version g base = base \<longleftrightarrow> GP_bits g = 0"
  proof
    assume "apply_to_version g base = base"
    then have "g = GP_none" using apply_to_version_inject [OF assms, of g GP_none] none(1) by simp
    then show "GP_bits g = 0" using none(2) by simp
  qed (simp add: apply_to_version_def)
  moreover have "push_bit 13 (ucast (GP_bits g) :: u32) = 0 \<longleftrightarrow> GP_bits g = 0"
  proof
    assume "push_bit 13 (ucast (GP_bits g) :: u32) = 0"
    then have "\<not> bit (push_bit 13 (ucast (GP_bits g) :: u32)) (n + 13)" for n by simp
    then have "\<not> bit (GP_bits g) n" if "n < 16" for n
      using that by (simp add: bit_push_bit_iff bit_ucast_iff)
    then show "GP_bits g = 0" by (auto simp: bit_eq_iff dest: bit_imp_le_length)
  qed simp
  ultimately show ?thesis by (simp add: None version_within_mask_def rolled_within_def)
next
  case (Some m)
  have "apply_to_version g base AND NOT m = base AND NOT m \<longleftrightarrow>
      push_bit 13 (ucast (GP_bits g)) AND NOT m = (0 :: u32)"
  proof -
    have "bit (GP_bits g) (n - 13) \<Longrightarrow> n < 29" for n
      using bit_imp_le_length [of "GP_bits g" "n - 13"] by simp
    then show ?thesis
      using assms by (auto simp: bit_eq_iff bit_apply_to_version base_clear_iff bit_simps)
  qed
  then show ?thesis by (simp add: Some version_within_mask_def rolled_within_def)
qed

text \<open>A share of the hash thread, submitted by the source of its template and read by the pool.\<close>

lemma nonce_to_pool:
  assumes hex: "hex_laws hex" and st: "sv_state s = Some state"
    and tmpl: "job_to_template ext job s = Inr (ht_template task)"
    and task: "tracker_get (nr_job_id r) (ac_chip_jobs a) = Some task"
    and new: "ac_shares (handle_nonce btc r a) = ac_shares a @ [(ch, share)]"
  shows "\<exists>p h. share_to_submit_params (SourceShare_from share (jt_id (ht_template task))) s = Inr p \<and>
    sp_job_id p = jn_job_id job \<and>
    pool_header btc hex job (sps_extranonce1 state) (sps_version_mask state) (to_stratum_json hex p) = Some h \<and>
    (rolled_within (sps_version_mask state) (nr_version r) \<longrightarrow>
       x_block_hash btc h = sh_hash share \<and> x_is_met_by btc (ht_share_target task) (x_block_hash btc h)) \<and>
    (\<not> rolled_within (sps_version_mask state) (nr_version r) \<longrightarrow> bh_version h \<noteq> sh_version share)"
proof -
  have base: "base_clear (jn_version job)" "vt_base (jt_version (ht_template task)) = jn_version job"
    "jt_id (ht_template task) = jn_job_id job"
    using tmpl unfolding job_to_template_Inr_iff by auto
  obtain e mr where e: "ht_extranonce task = Some e" "compute_merkle_root btc (ht_template task) e = Inr mr"
    and met: "x_is_met_by btc (ht_share_target task) (x_block_hash btc (nonce_header task r mr))"
    and share: "share = nonce_share btc (ac_asic_difficulty a) task r mr"
  proof (cases rule: handle_nonce_cases [of btc r a])
    case drop
    then show ?thesis using new by simp
  next
    case (share task' e mr)
    then show ?thesis using that [of e mr] new task by auto
  qed
  let ?share = "SourceShare_from share (jt_id (ht_template task))"
  have ss: "ss_extranonce ?share = Some e" "ss_version ?share = apply_to_version (nr_version r) (jn_version job)"
    "share_header (ht_template task) mr ?share = nonce_header task r mr"
    using e base by (simp_all add: share SourceShare_from_def nonce_share_def share_header_def nonce_header_def)
  obtain p h where p: "share_to_submit_params ?share s = Inr p"
    and h: "pool_header btc hex job (sps_extranonce1 state) (sps_version_mask state) (to_stratum_json hex p) = Some h"
    and iff: "h = nonce_header task r mr \<longleftrightarrow> rolled_within (sps_version_mask state) (nr_version r)"
      "bh_version h = apply_to_version (nr_version r) (jn_version job) \<longleftrightarrow>
         rolled_within (sps_version_mask state) (nr_version r)"
    using pool_agrees [OF hex st tmpl ss(1) e(2)] unfolding ss(2,3) rolled_within_mask_iff [OF base(1)] by blast
  have "sp_job_id p = jn_job_id job"
    using p st base(3) by (auto simp: share_to_submit_params_def SourceShare_from_def Let_def)
  moreover have "sh_hash share = x_block_hash btc (nonce_header task r mr)"
    "sh_version share = apply_to_version (nr_version r) (jn_version job)"
    by (simp_all add: share nonce_share_def base(2))
  ultimately show ?thesis using p h iff met by auto
qed

text \<open>
  The software thread never rolls the version, so the pool always recomputes the header it hashed,
  whatever mask was negotiated.
\<close>

lemma version_within_mask_base: "version_within_mask base vmask base"
  by (simp add: version_within_mask_def split: option.split)

lemma software_share_to_pool:
  assumes hex: "hex_laws hex" and st: "sv_state s = Some state"
    and tmpl: "job_to_template ext job s = Inr (ht_template task)" and share: "share_of_task btc task (ch, share)"
  shows "\<exists>p h. share_to_submit_params (SourceShare_from share (jt_id (ht_template task))) s = Inr p \<and>
     pool_header btc hex job (sps_extranonce1 state) (sps_version_mask state) (to_stratum_json hex p) = Some h \<and>
     x_block_hash btc h = sh_hash share \<and> x_is_met_by btc (ht_share_target task) (sh_hash share)"
proof -
  obtain mt where base: "vt_base (jt_version (ht_template task)) = jn_version job"
    and mt: "jt_merkle_root (ht_template task) = Computed mt"
    using tmpl unfolding job_to_template_Inr_iff by auto
  obtain k mr where mr: "task_merkle_root btc task = Some mr"
    and tried: "try_nonce btc (rolled k task) mr (sh_nonce share) = Some share"
    using share by (auto simp: share_of_task_def)
  obtain e where e: "ht_extranonce task = Some e" "compute_merkle_root btc (ht_template task) e = Inr mr"
    using mr mt by (cases "ht_extranonce task") (auto simp: task_merkle_root_def split: sum.splits)
  have sh: "sh_hash share = x_block_hash btc (task_header (rolled k task) mr (sh_nonce share))"
    "sh_version share = jn_version job" "sh_ntime share = ht_ntime (rolled k task)" "sh_extranonce share = Some e"
    and met: "x_is_met_by btc (ht_share_target task) (sh_hash share)"
    using try_nonce_Some [OF tried] base e(1) by (simp_all add: rolled_def)
  let ?share = "SourceShare_from share (jt_id (ht_template task))"
  have ss: "ss_extranonce ?share = Some e" "ss_version ?share = jn_version job"
    "share_header (ht_template task) mr ?share = task_header (rolled k task) mr (sh_nonce share)"
    using sh base by (simp_all add: SourceShare_from_def share_header_def task_header_def rolled_def Let_def)
  obtain p h where "share_to_submit_params ?share s = Inr p"
    and "pool_header btc hex job (sps_extranonce1 state) (sps_version_mask state) (to_stratum_json hex p) = Some h"
    and "h = share_header (ht_template task) mr ?share"
    using pool_agrees [OF hex st tmpl ss(1) e(2)] unfolding ss(2) by (simp add: version_within_mask_base) blast
  then show ?thesis using ss(3) sh(1) met by auto
qed

end
