(* ===== verification/Stratum_Connection.thy ===== *)
theory Stratum_Connection
  imports Stratum_Client
begin

text \<open>
  Reading and writing messages as lines, \<open>stratum_v1/connection.rs\<close>. What the socket has delivered
  and no read has taken is \<open>cn_received\<close>; a read that waits for the end of its line holds
  \<open>cn_partial\<close>. A poll of the read either is pending or yields a result; dropping a pending read
  loses what it holds, as tokio documents for \<open>read_line\<close>. Validity of UTF-8, trimming and the JSON
  parser are arguments.
\<close>

definition MAX_MESSAGE_LEN :: nat where
  "MAX_MESSAGE_LEN = 64 * 1024"

record text_functions =
  tx_utf8 :: "bytes \<Rightarrow> bool"
  tx_trim :: "bytes \<Rightarrow> bytes"
  tx_parse :: "bytes \<Rightarrow> JsonRpcMessage option"
  tx_print :: "JsonRpcMessage \<Rightarrow> bytes"

record connection =
  cn_received :: bytes
  cn_eof :: bool
  cn_partial :: bytes

definition newline :: u8 where
  "newline = 10"

text \<open>A line with its newline, or what a limit of \<open>n\<close> bytes allows of it, and the rest.\<close>

fun split_line :: "nat \<Rightarrow> bytes \<Rightarrow> (bytes \<times> bytes) option" where
  "split_line 0 bs = Some ([], bs)"
| "split_line (Suc n) [] = None"
| "split_line (Suc n) (b # bs) =
     (if b = newline then Some ([b], bs)
      else map_option (\<lambda>(line, rest). (b # line, rest)) (split_line n bs))"

text \<open>What \<open>read_message\<close> makes of a line: \<open>None\<close> to read the next one.\<close>

definition read_result_of_line :: "text_functions \<Rightarrow> bytes \<Rightarrow> read_result option" where
  "read_result_of_line tx line =
     (if \<not> tx_utf8 tx line then Some (Inl Io)
      else if MAX_MESSAGE_LEN < length line then Some (Inl (MessageTooLarge MAX_MESSAGE_LEN))
      else if tx_trim tx line = [] then None
      else case tx_parse tx (tx_trim tx line) of
        None \<Rightarrow> Some (Inl (InvalidMessage ''Failed to parse JSON''))
      | Some msg \<Rightarrow> Some (Inr (Some msg)))"

lemma split_line_length: "split_line n bs = Some (line, rest) \<Longrightarrow> bs = line @ rest \<and> (0 < n \<longrightarrow> line \<noteq> [])"
  by (induction n bs arbitrary: line rule: split_line.induct) (auto split: if_splits)

text \<open>One poll of the read: all that has been received goes into the line.\<close>

function poll_read :: "text_functions \<Rightarrow> bytes \<Rightarrow> bool \<Rightarrow> read_result option \<times> connection" where
  "poll_read tx available eof =
     (case split_line (MAX_MESSAGE_LEN + 1) available of
        Some (line, rest) \<Rightarrow>
          (case read_result_of_line tx line of
             None \<Rightarrow> poll_read tx rest eof
           | Some r \<Rightarrow> (Some r, \<lparr>cn_received = rest, cn_eof = eof, cn_partial = []\<rparr>))
      | None \<Rightarrow>
          if \<not> eof then (None, \<lparr>cn_received = [], cn_eof = eof, cn_partial = available\<rparr>)
          else if available = [] then (Some (Inr None), \<lparr>cn_received = [], cn_eof = eof, cn_partial = []\<rparr>)
          else case read_result_of_line tx available of
            None \<Rightarrow> poll_read tx [] eof
          | Some r \<Rightarrow> (Some r, \<lparr>cn_received = [], cn_eof = eof, cn_partial = []\<rparr>))"
  by pat_completeness auto
termination
  by (relation "measure (\<lambda>(tx, available, eof). length available)") (auto dest!: split_line_length)

declare poll_read.simps [simp del]

definition read_message :: "text_functions \<Rightarrow> connection \<Rightarrow> read_result option \<times> connection" where
  "read_message tx c = poll_read tx (cn_partial c @ cn_received c) (cn_eof c)"

definition drop_read :: "connection \<Rightarrow> connection" where
  "drop_read c = c\<lparr>cn_partial := []\<rparr>"

definition receive :: "bytes \<Rightarrow> connection \<Rightarrow> connection" where
  "receive bs c = c\<lparr>cn_received := cn_received c @ bs\<rparr>"

definition connection_new :: connection where
  "connection_new = \<lparr>cn_received = [], cn_eof = False, cn_partial = []\<rparr>"

definition encode_message :: "text_functions \<Rightarrow> JsonRpcMessage \<Rightarrow> bytes" where
  "encode_message tx msg = tx_print tx msg @ [newline]"

text \<open>\<open>Connection::connect\<close> strips the scheme off the address.\<close>

definition connect_address :: "string \<Rightarrow> string" where
  "connect_address url =
     (if take 14 url = ''stratum+tcp://'' then drop 14 url
      else if take 6 url = ''tcp://'' then drop 6 url
      else url)"

subsection \<open>Framing\<close>

text \<open>What is known of printer and parser on a message: a line without newline that parses back.\<close>

definition text_laws :: "text_functions \<Rightarrow> JsonRpcMessage \<Rightarrow> bool" where
  "text_laws tx msg \<longleftrightarrow>
     newline \<notin> set (tx_print tx msg) \<and> tx_print tx msg \<noteq> [] \<and> tx_utf8 tx (encode_message tx msg) \<and>
     tx_trim tx (encode_message tx msg) = tx_print tx msg \<and> tx_parse tx (tx_print tx msg) = Some msg"

definition fits_line :: "text_functions \<Rightarrow> JsonRpcMessage \<Rightarrow> bool" where
  "fits_line tx msg \<longleftrightarrow> length (encode_message tx msg) \<le> MAX_MESSAGE_LEN"

lemma split_line_newline:
  assumes "newline \<notin> set bs" and "length bs < n"
  shows "split_line n (bs @ newline # rest) = Some (bs @ [newline], rest)"
  using assms
proof (induction bs arbitrary: n)
  case Nil
  then show ?case by (cases n) auto
next
  case (Cons b bs)
  then show ?case by (cases n) auto
qed

lemma split_line_pending: "newline \<notin> set bs \<Longrightarrow> length bs < n \<Longrightarrow> split_line n bs = None"
proof (induction bs arbitrary: n)
  case Nil
  then show ?case by (cases n) auto
next
  case (Cons b bs)
  then show ?case by (cases n) auto
qed

lemma poll_read_message:
  assumes "text_laws tx msg" and "fits_line tx msg"
  shows "poll_read tx (encode_message tx msg @ rest) eof =
    (Some (Inr (Some msg)), \<lparr>cn_received = rest, cn_eof = eof, cn_partial = []\<rparr>)"
proof -
  have nl: "newline \<notin> set (tx_print tx msg)" using assms(1) by (simp add: text_laws_def)
  have "split_line (MAX_MESSAGE_LEN + 1) (encode_message tx msg @ rest) = Some (encode_message tx msg, rest)"
    using split_line_newline [OF nl, of "MAX_MESSAGE_LEN + 1" rest] assms(2)
    by (simp add: encode_message_def fits_line_def)
  moreover have "read_result_of_line tx (encode_message tx msg) = Some (Inr (Some msg))"
    using assms by (auto simp: read_result_of_line_def text_laws_def fits_line_def)
  ultimately show ?thesis by (subst poll_read.simps) simp
qed

lemma poll_read_pending:
  assumes "newline \<notin> set bs" and "length bs \<le> MAX_MESSAGE_LEN"
  shows "poll_read tx bs False = (None, \<lparr>cn_received = [], cn_eof = False, cn_partial = bs\<rparr>)"
  using split_line_pending [OF assms(1), of "MAX_MESSAGE_LEN + 1"] assms(2) by (subst poll_read.simps) simp

text \<open>Reads until one is pending; the fuel is the number of reads.\<close>

primrec read_all :: "nat \<Rightarrow> text_functions \<Rightarrow> connection \<Rightarrow> read_result list \<times> connection" where
  "read_all 0 tx c = ([], c)"
| "read_all (Suc n) tx c =
     (case read_message tx c of
        (None, c) \<Rightarrow> ([], c)
      | (Some r, c) \<Rightarrow> (case read_all n tx c of (rs, c) \<Rightarrow> (r # rs, c)))"

text \<open>The reader between arrivals: after each chunk it reads what there is.\<close>

fun read_chunks :: "nat \<Rightarrow> text_functions \<Rightarrow> bytes list \<Rightarrow> connection \<Rightarrow> read_result list \<times> connection" where
  "read_chunks n tx [] c = ([], c)"
| "read_chunks n tx (chunk # chunks) c =
     (case read_all n tx (receive chunk c) of
        (rs, c) \<Rightarrow> (case read_chunks n tx chunks c of (rs', c) \<Rightarrow> (rs @ rs', c)))"

definition wire :: "text_functions \<Rightarrow> JsonRpcMessage list \<Rightarrow> bytes" where
  "wire tx msgs = concat (map (encode_message tx) msgs)"

text \<open>A prefix of a wire is some whole messages and a part of the next.\<close>

lemma wire_prefix:
  assumes "bs @ rest = wire tx msgs"
  shows "\<exists>done todo part. msgs = done @ todo \<and> bs = wire tx done @ part \<and>
    (todo = [] \<and> part = [] \<or> (\<exists>m ms tail. todo = m # ms \<and> encode_message tx m = part @ tail \<and> tail \<noteq> []))"
  using assms
proof (induction msgs arbitrary: bs)
  case Nil
  then show ?case by (simp add: wire_def)
next
  case (Cons m msgs)
  show ?case
  proof (cases "length (encode_message tx m) \<le> length bs")
    case True
    have "take (length (encode_message tx m)) (bs @ rest) = encode_message tx m"
      unfolding Cons.prems by (simp add: wire_def)
    then have "bs = encode_message tx m @ drop (length (encode_message tx m)) bs"
      using True by (metis append_take_drop_id diff_is_0_eq take0 take_append append_Nil2)
    moreover from this have "drop (length (encode_message tx m)) bs @ rest = wire tx msgs"
      using Cons.prems by (simp add: wire_def) (metis append.assoc same_append_eq)
    from Cons.IH [OF this] obtain don todo part where ih: "msgs = don @ todo"
      "drop (length (encode_message tx m)) bs = wire tx don @ part"
      "todo = [] \<and> part = [] \<or> (\<exists>m ms tail. todo = m # ms \<and> encode_message tx m = part @ tail \<and> tail \<noteq> [])"
      by blast
    ultimately have "bs = wire tx (m # don) @ part" by (simp add: wire_def)
    then show ?thesis using ih by (intro exI [of _ "m # don"] exI [of _ todo] exI [of _ part]) simp
  next
    case False
    have "bs @ rest = encode_message tx m @ wire tx msgs" using Cons.prems by (simp add: wire_def)
    with False obtain tail where "bs @ tail = encode_message tx m"
      by (auto simp: append_eq_append_conv2)
    with False [folded this] have "\<exists>tail. encode_message tx m = bs @ tail \<and> tail \<noteq> []" by (intro exI [of _ tail]) auto
    then show ?thesis by (intro exI [of _ "[]"] exI [of _ "m # msgs"] exI [of _ bs]) (auto simp: wire_def)
  qed
qed

lemma message_part:
  assumes "text_laws tx m" and "fits_line tx m" and "encode_message tx m = part @ tail" and "tail \<noteq> []"
  shows "newline \<notin> set part" and "length part \<le> MAX_MESSAGE_LEN"
proof -
  obtain tail' where tail: "tail = tail' @ [newline]"
    using assms(3,4) by (cases tail rule: rev_cases) (auto simp: encode_message_def)
  then have "tx_print tx m = part @ tail'" using assms(3) by (simp add: encode_message_def)
  then show "newline \<notin> set part" using assms(1) by (metis Un_iff set_append text_laws_def)
  show "length part \<le> MAX_MESSAGE_LEN" using assms(2,3) by (simp add: fits_line_def)
qed

lemma read_all_wire:
  assumes "list_all (text_laws tx) msgs" and "list_all (fits_line tx) msgs"
    and "newline \<notin> set part" and "length part \<le> MAX_MESSAGE_LEN" and "length msgs < n"
    and "cn_partial c @ cn_received c = wire tx msgs @ part" and "\<not> cn_eof c"
  shows "read_all n tx c =
    (map (Inr \<circ> Some) msgs, \<lparr>cn_received = [], cn_eof = False, cn_partial = part\<rparr>)"
  using assms(1,2,5-)
proof (induction msgs arbitrary: n c)
  case Nil
  then have "read_message tx c = (None, \<lparr>cn_received = [], cn_eof = False, cn_partial = part\<rparr>)"
    using poll_read_pending [OF assms(3,4)] by (simp add: read_message_def wire_def)
  then show ?case using Nil by (cases n) auto
next
  case (Cons m msgs)
  have "cn_partial c @ cn_received c = encode_message tx m @ (wire tx msgs @ part)"
    using Cons.prems(4) by (simp add: wire_def)
  then have "read_message tx c =
      (Some (Inr (Some m)), \<lparr>cn_received = wire tx msgs @ part, cn_eof = False, cn_partial = []\<rparr>)"
    using poll_read_message [of tx m] Cons.prems(1,2,5) by (simp add: read_message_def)
  then show ?case using Cons by (cases n) auto
qed

text \<open>However the stream is cut into chunks, an undisturbed reader yields its messages.\<close>

lemma read_chunks_wire_part:
  "list_all (text_laws tx) msgs \<Longrightarrow> list_all (fits_line tx) msgs \<Longrightarrow> length msgs < n \<Longrightarrow> newline \<notin> set part \<Longrightarrow>
    part @ concat chunks = wire tx msgs \<Longrightarrow>
    read_chunks n tx chunks \<lparr>cn_received = [], cn_eof = False, cn_partial = part\<rparr> =
      (map (Inr \<circ> Some) msgs, connection_new)"
proof (induction chunks arbitrary: msgs part)
  case Nil
  then have "msgs = [] \<and> part = []"
    by (cases msgs) (auto simp: wire_def encode_message_def)
  then show ?case by (simp add: connection_new_def)
next
  case (Cons chunk chunks)
  have "(part @ chunk) @ concat chunks = wire tx msgs" using Cons.prems(5) by simp
  from wire_prefix [OF this] obtain don todo part' where msgs: "msgs = don @ todo"
    and pre: "part @ chunk = wire tx don @ part'"
    and todo: "todo = [] \<and> part' = [] \<or> (\<exists>m ms tail. todo = m # ms \<and> encode_message tx m = part' @ tail \<and> tail \<noteq> [])"
    by blast
  have part': "newline \<notin> set part'" "length part' \<le> MAX_MESSAGE_LEN"
    using todo message_part Cons.prems(1,2) msgs by auto
  have fits: "list_all (fits_line tx) don" "list_all (fits_line tx) todo"
    and laws: "list_all (text_laws tx) don" "list_all (text_laws tx) todo" using Cons.prems(1,2) msgs by simp_all
  have read: "read_all n tx (receive chunk \<lparr>cn_received = [], cn_eof = False, cn_partial = part\<rparr>) =
      (map (Inr \<circ> Some) don, \<lparr>cn_received = [], cn_eof = False, cn_partial = part'\<rparr>)"
    using Cons.prems(3) msgs pre by (intro read_all_wire [OF laws(1) fits(1) part']) (auto simp: receive_def)
  have "wire tx don @ (part' @ concat chunks) = wire tx don @ wire tx todo"
    using pre Cons.prems(5) msgs by (simp add: wire_def flip: append_assoc)
  then have "part' @ concat chunks = wire tx todo" by simp
  then have "read_chunks n tx chunks \<lparr>cn_received = [], cn_eof = False, cn_partial = part'\<rparr> =
      (map (Inr \<circ> Some) todo, connection_new)"
    using Cons.prems(3) msgs laws(2) fits(2) part'(1) by (intro Cons.IH) auto
  then show ?case using read msgs by simp
qed

text \<open>A read that is dropped half-way through a line takes the head of the line with it.\<close>

lemma dropped_read_garbles:
  assumes tx: "text_laws tx m" and m: "fits_line tx m" "encode_message tx m = head @ tail" "tail \<noteq> []" "head \<noteq> []"
    and bad: "tx_utf8 tx tail" "tx_trim tx tail \<noteq> []" "tx_parse tx (tx_trim tx tail) = None"
  shows "read_message tx (receive head connection_new) =
      (None, \<lparr>cn_received = [], cn_eof = False, cn_partial = head\<rparr>)"
    and "read_message tx (receive tail (drop_read \<lparr>cn_received = [], cn_eof = False, cn_partial = head\<rparr>)) =
      (Some (Inl (InvalidMessage ''Failed to parse JSON'')), connection_new)"
proof -
  note head = message_part [OF tx m(1-3)]
  show "read_message tx (receive head connection_new) =
      (None, \<lparr>cn_received = [], cn_eof = False, cn_partial = head\<rparr>)"
    using poll_read_pending [OF head] by (simp add: read_message_def receive_def connection_new_def)
  obtain bs where tail: "tail = bs @ [newline]"
    using m(2,3) by (cases tail rule: rev_cases) (auto simp: encode_message_def)
  then have print: "tx_print tx m = head @ bs" using m(2) by (simp add: encode_message_def)
  then have "newline \<notin> set bs" using tx by (metis Un_iff set_append text_laws_def)
  moreover have "length tail \<le> MAX_MESSAGE_LEN" using m(1,2) by (simp add: fits_line_def)
  ultimately have "split_line (MAX_MESSAGE_LEN + 1) (tail @ []) = Some (tail, [])"
    using split_line_newline [of bs "MAX_MESSAGE_LEN + 1" "[]"] tail by simp
  moreover have "read_result_of_line tx tail = Some (Inl (InvalidMessage ''Failed to parse JSON''))"
    using bad \<open>length tail \<le> MAX_MESSAGE_LEN\<close> by (simp add: read_result_of_line_def)
  ultimately show "read_message tx (receive tail (drop_read \<lparr>cn_received = [], cn_eof = False, cn_partial = head\<rparr>)) =
      (Some (Inl (InvalidMessage ''Failed to parse JSON'')), connection_new)"
    by (simp add: read_message_def receive_def drop_read_def poll_read.simps [of tx tail] connection_new_def)
qed

text \<open>
  A command that arrives while half a message has been read: the rest of the line is malformed, and a share
  submission then ends the run of the client, although the pool sent a proper message.
\<close>

lemma dropped_read_ends_run:
  assumes "text_laws tx m" and "fits_line tx m" and "encode_message tx m = head @ tail" and "tail \<noteq> []" and "head \<noteq> []"
    and "tx_utf8 tx tail" and "tx_trim tx tail \<noteq> []" and "tx_parse tx (tx_trim tx tail) = None"
    and "interrupted = drop_read (snd (read_message tx (receive head connection_new)))"
    and "fst (read_message tx (receive tail interrupted)) = Some r"
    and "sw_write_ok env (length (cl_written c))" and "cl_queue c = []"
    and "sw_arrives env (length (cl_written c)) = r # rs"
  shows "fst (read_message tx (receive (head @ tail) connection_new)) = Some (Inr (Some m)) \<and>
    fst (main_step env (MainCommand (CmdSubmitShare p)) c) = Some (Inl (InvalidMessage ''Failed to parse JSON''))"
proof -
  note g = dropped_read_garbles [OF assms(1-8)]
  have "r = Inl (InvalidMessage ''Failed to parse JSON'')" using g assms(9,10) by simp
  then have "fst (main_step env (MainCommand (CmdSubmitShare p)) c) = Some (Inl (InvalidMessage ''Failed to parse JSON''))"
    using malformed_while_submitting [OF assms(11), of "[]"] assms(12,13) by simp
  moreover have "read_message tx (receive (head @ tail) connection_new) = (Some (Inr (Some m)), connection_new)"
    using poll_read_message [OF assms(1,2), of "[]" False] assms(3)
    by (simp add: read_message_def receive_def connection_new_def)
  ultimately show ?thesis by simp
qed

end
