(* ===== verification/Pmbus_Commands.thy ===== *)
theory Pmbus_Commands
  imports Prelude
begin

text \<open>
  The commands of the PMBus protocol and the texts of its registers, \<open>peripheral/pmbus.rs\<close>.
\<close>

subsection \<open>Commands\<close>

datatype PmbusCommand =
  Page | Operation | OnOffConfig | ClearFaults | Phase | Capability | VoutMode | VoutCommand
  | VoutMax | VoutMarginHigh | VoutMarginLow | VoutScaleLoop | VoutMin | FrequencySwitch | VinOn
  | VinOff | Interleave | VoutOvFaultLimit | VoutOvWarnLimit | VoutUvWarnLimit | VoutUvFaultLimit
  | IoutOcFaultLimit | IoutOcFaultResponse | IoutOcWarnLimit | OtFaultLimit | OtFaultResponse
  | OtWarnLimit | VinOvFaultLimit | VinOvFaultResponse | VinUvWarnLimit | TonDelay | TonRise
  | TonMaxFaultLimit | TonMaxFaultResponse | ToffDelay | ToffFall | StatusWord | StatusVout
  | StatusIout | StatusInput | StatusTemperature | StatusCml | StatusOther | StatusMfrSpecific
  | ReadVin | ReadVout | ReadIout | ReadTemperature1 | MfrId | MfrModel | MfrRevision | IcDeviceId
  | CompensationConfig | SyncConfig | StackConfig | MiscOptions | PinDetectOverride | SlaveAddress
  | NvmChecksum | SimulateFault | FusionId0 | FusionId1

primrec PmbusCommand_as_u8 :: "PmbusCommand \<Rightarrow> u8" where
  "PmbusCommand_as_u8 Page = 0x00"
| "PmbusCommand_as_u8 Operation = 0x01"
| "PmbusCommand_as_u8 OnOffConfig = 0x02"
| "PmbusCommand_as_u8 ClearFaults = 0x03"
| "PmbusCommand_as_u8 Phase = 0x04"
| "PmbusCommand_as_u8 Capability = 0x19"
| "PmbusCommand_as_u8 VoutMode = 0x20"
| "PmbusCommand_as_u8 VoutCommand = 0x21"
| "PmbusCommand_as_u8 VoutMax = 0x24"
| "PmbusCommand_as_u8 VoutMarginHigh = 0x25"
| "PmbusCommand_as_u8 VoutMarginLow = 0x26"
| "PmbusCommand_as_u8 VoutScaleLoop = 0x29"
| "PmbusCommand_as_u8 VoutMin = 0x2b"
| "PmbusCommand_as_u8 FrequencySwitch = 0x33"
| "PmbusCommand_as_u8 VinOn = 0x35"
| "PmbusCommand_as_u8 VinOff = 0x36"
| "PmbusCommand_as_u8 Interleave = 0x37"
| "PmbusCommand_as_u8 VoutOvFaultLimit = 0x40"
| "PmbusCommand_as_u8 VoutOvWarnLimit = 0x42"
| "PmbusCommand_as_u8 VoutUvWarnLimit = 0x43"
| "PmbusCommand_as_u8 VoutUvFaultLimit = 0x44"
| "PmbusCommand_as_u8 IoutOcFaultLimit = 0x46"
| "PmbusCommand_as_u8 IoutOcFaultResponse = 0x47"
| "PmbusCommand_as_u8 IoutOcWarnLimit = 0x4a"
| "PmbusCommand_as_u8 OtFaultLimit = 0x4f"
| "PmbusCommand_as_u8 OtFaultResponse = 0x50"
| "PmbusCommand_as_u8 OtWarnLimit = 0x51"
| "PmbusCommand_as_u8 VinOvFaultLimit = 0x55"
| "PmbusCommand_as_u8 VinOvFaultResponse = 0x56"
| "PmbusCommand_as_u8 VinUvWarnLimit = 0x58"
| "PmbusCommand_as_u8 TonDelay = 0x60"
| "PmbusCommand_as_u8 TonRise = 0x61"
| "PmbusCommand_as_u8 TonMaxFaultLimit = 0x62"
| "PmbusCommand_as_u8 TonMaxFaultResponse = 0x63"
| "PmbusCommand_as_u8 ToffDelay = 0x64"
| "PmbusCommand_as_u8 ToffFall = 0x65"
| "PmbusCommand_as_u8 StatusWord = 0x79"
| "PmbusCommand_as_u8 StatusVout = 0x7a"
| "PmbusCommand_as_u8 StatusIout = 0x7b"
| "PmbusCommand_as_u8 StatusInput = 0x7c"
| "PmbusCommand_as_u8 StatusTemperature = 0x7d"
| "PmbusCommand_as_u8 StatusCml = 0x7e"
| "PmbusCommand_as_u8 StatusOther = 0x7f"
| "PmbusCommand_as_u8 StatusMfrSpecific = 0x80"
| "PmbusCommand_as_u8 ReadVin = 0x88"
| "PmbusCommand_as_u8 ReadVout = 0x8b"
| "PmbusCommand_as_u8 ReadIout = 0x8c"
| "PmbusCommand_as_u8 ReadTemperature1 = 0x8d"
| "PmbusCommand_as_u8 MfrId = 0x99"
| "PmbusCommand_as_u8 MfrModel = 0x9a"
| "PmbusCommand_as_u8 MfrRevision = 0x9b"
| "PmbusCommand_as_u8 IcDeviceId = 0xad"
| "PmbusCommand_as_u8 CompensationConfig = 0xb1"
| "PmbusCommand_as_u8 SyncConfig = 0xe4"
| "PmbusCommand_as_u8 StackConfig = 0xec"
| "PmbusCommand_as_u8 MiscOptions = 0xed"
| "PmbusCommand_as_u8 PinDetectOverride = 0xee"
| "PmbusCommand_as_u8 SlaveAddress = 0xef"
| "PmbusCommand_as_u8 NvmChecksum = 0xf0"
| "PmbusCommand_as_u8 SimulateFault = 0xf1"
| "PmbusCommand_as_u8 FusionId0 = 0xfc"
| "PmbusCommand_as_u8 FusionId1 = 0xfd"

definition PmbusCommand_METADATA :: "(u8 \<times> string \<times> string) list" where
  "PmbusCommand_METADATA =
     [(0x00, ''PAGE'', ''select page for multi-rail devices''),
      (0x01, ''OPERATION'', ''turn on/off control''),
      (0x02, ''ON_OFF_CONFIG'', ''on/off configuration''),
      (0x03, ''CLEAR_FAULTS'', ''clears all fault status bits''),
      (0x04, ''PHASE'', ''phase selection''),
      (0x19, ''CAPABILITY'', ''device capability''),
      (0x20, ''VOUT_MODE'', ''output voltage data format''),
      (0x21, ''VOUT_COMMAND'', ''commanded output voltage''),
      (0x24, ''VOUT_MAX'', ''maximum output voltage''),
      (0x25, ''VOUT_MARGIN_HIGH'', ''margin high voltage''),
      (0x26, ''VOUT_MARGIN_LOW'', ''margin low voltage''),
      (0x29, ''VOUT_SCALE_LOOP'', ''scale loop compensation''),
      (0x2b, ''VOUT_MIN'', ''minimum output voltage''),
      (0x33, ''FREQUENCY_SWITCH'', ''switching frequency''),
      (0x35, ''VIN_ON'', ''input turn-on voltage''),
      (0x36, ''VIN_OFF'', ''input turn-off voltage''),
      (0x37, ''INTERLEAVE'', ''interleave configuration''),
      (0x40, ''VOUT_OV_FAULT_LIMIT'', ''output overvoltage fault limit''),
      (0x42, ''VOUT_OV_WARN_LIMIT'', ''output overvoltage warning limit''),
      (0x43, ''VOUT_UV_WARN_LIMIT'', ''output undervoltage warning limit''),
      (0x44, ''VOUT_UV_FAULT_LIMIT'', ''output undervoltage fault limit''),
      (0x46, ''IOUT_OC_FAULT_LIMIT'', ''output overcurrent fault limit''),
      (0x47, ''IOUT_OC_FAULT_RESPONSE'', ''output overcurrent fault response''),
      (0x4a, ''IOUT_OC_WARN_LIMIT'', ''output overcurrent warning limit''),
      (0x4f, ''OT_FAULT_LIMIT'', ''overtemperature fault limit''),
      (0x50, ''OT_FAULT_RESPONSE'', ''overtemperature fault response''),
      (0x51, ''OT_WARN_LIMIT'', ''overtemperature warning limit''),
      (0x55, ''VIN_OV_FAULT_LIMIT'', ''input overvoltage fault limit''),
      (0x56, ''VIN_OV_FAULT_RESPONSE'', ''input overvoltage fault response''),
      (0x58, ''VIN_UV_WARN_LIMIT'', ''input undervoltage warning limit''),
      (0x60, ''TON_DELAY'', ''turn-on delay''),
      (0x61, ''TON_RISE'', ''turn-on rise time''),
      (0x62, ''TON_MAX_FAULT_LIMIT'', ''maximum turn-on time limit''),
      (0x63, ''TON_MAX_FAULT_RESPONSE'', ''maximum turn-on fault response''),
      (0x64, ''TOFF_DELAY'', ''turn-off delay''),
      (0x65, ''TOFF_FALL'', ''turn-off fall time''),
      (0x79, ''STATUS_WORD'', ''status summary''),
      (0x7a, ''STATUS_VOUT'', ''output voltage status''),
      (0x7b, ''STATUS_IOUT'', ''output current status''),
      (0x7c, ''STATUS_INPUT'', ''input status''),
      (0x7d, ''STATUS_TEMPERATURE'', ''temperature status''),
      (0x7e, ''STATUS_CML'', ''communication/logic/memory status''),
      (0x7f, ''STATUS_OTHER'', ''other status''),
      (0x80, ''STATUS_MFR_SPECIFIC'', ''manufacturer specific status''),
      (0x88, ''READ_VIN'', ''input voltage''),
      (0x8b, ''READ_VOUT'', ''output voltage''),
      (0x8c, ''READ_IOUT'', ''output current''),
      (0x8d, ''READ_TEMPERATURE_1'', ''temperature 1''),
      (0x99, ''MFR_ID'', ''manufacturer ID''),
      (0x9a, ''MFR_MODEL'', ''manufacturer model''),
      (0x9b, ''MFR_REVISION'', ''manufacturer revision''),
      (0xad, ''IC_DEVICE_ID'', ''IC device ID''),
      (0xb1, ''COMPENSATION_CONFIG'', ''compensation configuration''),
      (0xe4, ''SYNC_CONFIG'', ''synchronization configuration''),
      (0xec, ''STACK_CONFIG'', ''stacking configuration''),
      (0xed, ''MISC_OPTIONS'', ''miscellaneous options''),
      (0xee, ''PIN_DETECT_OVERRIDE'', ''pin detect override''),
      (0xef, ''SLAVE_ADDRESS'', ''slave address''),
      (0xf0, ''NVM_CHECKSUM'', ''NVM checksum''),
      (0xf1, ''SIMULATE_FAULT'', ''simulate fault''),
      (0xfc, ''FUSION_ID0'', ''fusion ID 0''),
      (0xfd, ''FUSION_ID1'', ''fusion ID 1'')]"

definition PmbusCommand_name :: "PmbusCommand \<Rightarrow> string" where
  "PmbusCommand_name c =
     (case find (\<lambda>(v, _, _). v = PmbusCommand_as_u8 c) PmbusCommand_METADATA of
        Some (_, n, _) \<Rightarrow> n | None \<Rightarrow> ''UNKNOWN'')"

definition PmbusCommand_description :: "PmbusCommand \<Rightarrow> string" where
  "PmbusCommand_description c =
     (case find (\<lambda>(v, _, _). v = PmbusCommand_as_u8 c) PmbusCommand_METADATA of
        Some (_, _, d) \<Rightarrow> d | None \<Rightarrow> ''unknown command'')"

datatype PMBusError = InvalidDataFormat | ValueOutOfRange | CommandNotSupported | CommunicationError

datatype Operation = OffImmediate | MarginLow | MarginHigh | SoftOff | On | OnMarginLow | OnMarginHigh

primrec Operation_as_u8 :: "Operation \<Rightarrow> u8" where
  "Operation_as_u8 OffImmediate = 0x00"
| "Operation_as_u8 MarginLow = 0x18"
| "Operation_as_u8 MarginHigh = 0x28"
| "Operation_as_u8 SoftOff = 0x40"
| "Operation_as_u8 On = 0x80"
| "Operation_as_u8 OnMarginLow = 0x98"
| "Operation_as_u8 OnMarginHigh = 0xa8"

definition Operation_try_from :: "u8 \<Rightarrow> PMBusError + Operation" where
  "Operation_try_from v =
     (if v = 0x00 then Inr OffImmediate
      else if v = 0x18 then Inr MarginLow
      else if v = 0x28 then Inr MarginHigh
      else if v = 0x40 then Inr SoftOff
      else if v = 0x80 then Inr On
      else if v = 0x98 then Inr OnMarginLow
      else if v = 0xa8 then Inr OnMarginHigh
      else Inl InvalidDataFormat)"

lemma Operation_try_from_as_u8: "Operation_try_from (Operation_as_u8 op) = Inr op"
  by (cases op) (simp_all add: Operation_try_from_def)

subsection \<open>Status registers\<close>

text \<open>The flags of each register with the texts of \<open>StatusDecoder\<close>, and those the driver tests.\<close>

definition StatusWord_flags :: "(u16 \<times> string) list" where
  "StatusWord_flags =
     [(0x8000, ''VOUT fault/warning''),
      (0x4000, ''IOUT fault/warning''),
      (0x2000, ''INPUT fault/warning''),
      (0x1000, ''MFR specific''),
      (0x0800, ''PGOOD''),
      (0x0400, ''FAN fault/warning''),
      (0x0200, ''OTHER''),
      (0x0100, ''UNKNOWN''),
      (0x0080, ''BUSY''),
      (0x0040, ''OFF''),
      (0x0020, ''VOUT_OV fault''),
      (0x0010, ''IOUT_OC fault''),
      (0x0008, ''VIN_UV fault''),
      (0x0004, ''TEMP fault/warning''),
      (0x0002, ''CML fault'')]"

definition StatusVout_flags :: "(u8 \<times> string) list" where
  "StatusVout_flags =
     [(0x80, ''OV fault''),
      (0x40, ''OV warning''),
      (0x20, ''UV warning''),
      (0x10, ''UV fault''),
      (0x08, ''at MAX''),
      (0x02, ''failed to start''),
      (0x01, ''at MIN'')]"

definition StatusIout_flags :: "(u8 \<times> string) list" where
  "StatusIout_flags =
     [(0x80, ''OC fault''),
      (0x40, ''OC+LV fault''),
      (0x20, ''OC warning''),
      (0x10, ''UC fault''),
      (0x08, ''current share fault''),
      (0x04, ''power limiting''),
      (0x02, ''overpower fault''),
      (0x01, ''overpower warning'')]"

definition StatusInput_flags :: "(u8 \<times> string) list" where
  "StatusInput_flags =
     [(0x80, ''VIN OV fault''),
      (0x40, ''VIN OV warning''),
      (0x20, ''VIN UV warning''),
      (0x10, ''VIN UV fault''),
      (0x08, ''off due to low VIN''),
      (0x04, ''IIN OC fault''),
      (0x02, ''IIN OC warning''),
      (0x01, ''input overpower warning'')]"

definition StatusTemperature_flags :: "(u8 \<times> string) list" where
  "StatusTemperature_flags =
     [(0x80, ''overtemp fault''),
      (0x40, ''overtemp warning''),
      (0x20, ''undertemp warning''),
      (0x10, ''undertemp fault'')]"

definition StatusCml_flags :: "(u8 \<times> string) list" where
  "StatusCml_flags =
     [(0x80, ''invalid command''),
      (0x40, ''invalid data''),
      (0x20, ''PEC error''),
      (0x10, ''memory fault''),
      (0x08, ''processor fault''),
      (0x02, ''other comm fault''),
      (0x01, ''other mem/logic fault'')]"

definition OnOffConfig_flags :: "(u8 \<times> string) list" where
  "OnOffConfig_flags =
     [(0x10, ''power up from CONTROL pin''),
      (0x08, ''OPERATION command enabled''),
      (0x04, ''CONTROL pin present''),
      (0x02, ''CONTROL active high''),
      (0x01, ''turn-off delay enabled'')]"

definition StatusWord_NONE :: u16 where
  "StatusWord_NONE = 0x0001"

definition has_flag :: "'a::len word \<Rightarrow> 'a word \<Rightarrow> bool" where
  "has_flag status flag \<longleftrightarrow> status AND flag = flag"

definition decode_status_flags :: "'a::len word \<Rightarrow> ('a word \<times> string) list \<Rightarrow> string list" where
  "decode_status_flags flags table = map snd (filter (\<lambda>(flag, _). has_flag flags flag) table)"

definition decode_status_word :: "u16 \<Rightarrow> string list" where
  "decode_status_word status =
     (let desc = decode_status_flags status StatusWord_flags
      in if has_flag status StatusWord_NONE \<and> desc = [] then [''NONE_OF_THE_ABOVE''] else desc)"

definition decode_status_vout :: "u8 \<Rightarrow> string list" where
  "decode_status_vout status = decode_status_flags status StatusVout_flags"

definition decode_status_iout :: "u8 \<Rightarrow> string list" where
  "decode_status_iout status = decode_status_flags status StatusIout_flags"

definition decode_status_input :: "u8 \<Rightarrow> string list" where
  "decode_status_input status = decode_status_flags status StatusInput_flags"

definition decode_status_temp :: "u8 \<Rightarrow> string list" where
  "decode_status_temp status = decode_status_flags status StatusTemperature_flags"

definition decode_status_cml :: "u8 \<Rightarrow> string list" where
  "decode_status_cml status = decode_status_flags status StatusCml_flags"

definition decode_on_off_config :: "u8 \<Rightarrow> string list" where
  "decode_on_off_config value = decode_status_flags value OnOffConfig_flags"

definition decode_operation :: "u8 \<Rightarrow> string" where
  "decode_operation v =
     (case Operation_try_from v of
        Inr OffImmediate \<Rightarrow> ''OFF immediate''
      | Inr MarginLow \<Rightarrow> ''margin low test''
      | Inr MarginHigh \<Rightarrow> ''margin high test''
      | Inr SoftOff \<Rightarrow> ''soft off (with delay)''
      | Inr On \<Rightarrow> ''ON''
      | Inr OnMarginLow \<Rightarrow> ''ON with margin low''
      | Inr OnMarginHigh \<Rightarrow> ''ON with margin high''
      | Inl _ \<Rightarrow> ''unknown (0x'' @ format_02x v @ '')'')"

definition decode_fault_response :: "u8 \<Rightarrow> string" where
  "decode_fault_response response =
     (let response_type = unat (drop_bit 6 response AND 0x03);
          retry_count = unat (drop_bit 3 response AND 0x07);
          delay_time = unat (response AND 0x07);
          response_desc = (if response_type = 0 then ''ignore''
            else if response_type = 1 then ''delayed shutdown''
            else if response_type = 2 then ''immediate shutdown''
            else ''special shutdown'');
          retries_desc = (if retry_count = 0 then ''no retries (latch off)''
            else if retry_count \<le> 6 then decimal retry_count @ '' retries''
            else ''infinite retries'');
          delay_desc = (if delay_time \<le> 1 then ''TON_RISE delay''
            else decimal delay_time @ '' x TON_RISE delay'')
      in if response_type = 0 then response_desc
         else response_desc @ '', '' @ retries_desc @ '', '' @ delay_desc)"

definition decode_phase :: "u8 \<Rightarrow> string" where
  "decode_phase v =
     (if v = 0xff then ''all phases''
      else if v \<le> 0x07 then ''phase '' @ decimal (unat v)
      else ''invalid phase (0x'' @ format_02x v @ '')'')"

definition decode_page :: "u8 \<Rightarrow> string" where
  "decode_page v =
     (if v = 0 then ''page 0 (main rail)''
      else if v \<le> 0x1f then ''page '' @ decimal (unat v) @ '' (aux rail)''
      else ''invalid page (0x'' @ format_02x v @ '')'')"

definition decode_capability :: "u8 \<Rightarrow> string list" where
  "decode_capability v =
     (let version = v AND 0x0f
      in (if v AND 0x80 \<noteq> 0 then [''PEC supported''] else []) @
         [if v AND 0x40 \<noteq> 0 then ''400kHz max'' else ''100kHz max''] @
         (if v AND 0x20 \<noteq> 0 then [''SMBALERT supported''] else []) @
         (if v AND 0x10 \<noteq> 0 then [''Bus info command''] else []) @
         [if version = 1 then ''PMBus v1.0''
          else if version = 2 then ''PMBus v1.1''
          else if version = 3 then ''PMBus v1.2''
          else if version = 4 then ''PMBus v1.3''
          else ''unknown version''])"

definition decode_stack_config :: "u16 \<Rightarrow> string" where
  "decode_stack_config v =
     (let position = unat (drop_bit 8 v AND 0xff); total = unat (v AND 0xff)
      in if position = 0 \<and> total = 0 then ''not stacked''
         else if position = 0 \<or> total = 0
         then ''invalid stacking (pos='' @ decimal position @ '', total='' @ decimal total @ '')''
         else ''position '' @ decimal position @ '' of '' @ decimal total @ '' in stack'')"

definition decode_interleave :: "u16 \<Rightarrow> string" where
  "decode_interleave v =
     (let phase_count = unat (drop_bit 8 v AND 0xff); phase_offset = unat (v AND 0xff)
      in if phase_count \<le> 1 then ''no interleaving''
         else decimal phase_count @ '' phases, offset '' @ decimal phase_offset)"

definition decode_sync_config :: "u8 \<Rightarrow> string" where
  "decode_sync_config v =
     (let sync_out = drop_bit 4 v AND 0x0f; sync_in = v AND 0x0f;
          sync_out_desc = (if sync_out = 0 then ''disabled'' else if sync_out = 1 then ''master'' else ''reserved'');
          sync_in_desc = (if sync_in = 0 then ''disabled'' else if sync_in = 1 then ''slave'' else ''reserved'')
      in ''out: '' @ sync_out_desc @ '', in: '' @ sync_in_desc)"

definition TPS546D24A_ID1 :: bytes where
  "TPS546D24A_ID1 = [0x54, 0x49, 0x54, 0x6b, 0x24, 0x41]"

definition TPS546D24A_ID2 :: bytes where
  "TPS546D24A_ID2 = [0x54, 0x49, 0x54, 0x6d, 0x24, 0x41]"

definition TPS546D24S_ID :: bytes where
  "TPS546D24S_ID = [0x54, 0x49, 0x54, 0x6d, 0x24, 0x62]"

text \<open>The identity read as a block may start with its length.\<close>

definition skip_length_byte :: "nat \<Rightarrow> bytes \<Rightarrow> bytes" where
  "skip_length_byte n data =
     (if n < length data \<and> unat (data ! 0) = length data - 1 then drop 1 data else data)"

definition trim_spaces :: "bytes \<Rightarrow> bytes" where
  "trim_spaces bs = rev (dropWhile (\<lambda>b. b = 0x20) (rev (dropWhile (\<lambda>b. b = 0x20) bs)))"

definition decode_device_id :: "bytes \<Rightarrow> string" where
  "decode_device_id data =
     (let id_bytes = skip_length_byte 6 data; id_slice = take 6 id_bytes
      in if 6 \<le> length id_bytes
         then if id_slice = TPS546D24A_ID1 \<or> id_slice = TPS546D24A_ID2 then ''TPS546D24A''
           else if id_slice = TPS546D24S_ID then ''TPS546D24S''
           else if list_all (\<lambda>b. 0x20 \<le> b \<and> b \<le> 0x7e) id_slice
           then ''unknown device: '' @ map (\<lambda>b. char_of (unat b)) (trim_spaces id_slice)
           else ''unknown device''
         else ''invalid ID length'')"

fun hex_list :: "bytes \<Rightarrow> string" where
  "hex_list [] = []"
| "hex_list [b] = format_02x b"
| "hex_list (b # bs) = format_02x b @ '', '' @ hex_list bs"

definition decode_compensation_config :: "bytes \<Rightarrow> string" where
  "decode_compensation_config data =
     (if data = [] then ''no data''
      else
        (let config_data = skip_length_byte 1 data
         in if 2 \<le> length config_data then ''coefficients: ['' @ hex_list config_data @ '']''
            else ''insufficient data''))"

definition format_04x :: "u16 \<Rightarrow> string" where
  "format_04x w = format_02x (ucast (drop_bit 8 w)) @ format_02x (ucast w)"

definition decode_pin_detect_override :: "u16 \<Rightarrow> string" where
  "decode_pin_detect_override v =
     (if v = 0xffff then ''auto-detect all pins''
      else if v = 0 then ''override all pins''
      else ''mixed config (0x'' @ format_04x v @ '')'')"

lemma decode_device_id_known:
  "decode_device_id TPS546D24A_ID1 = ''TPS546D24A''" "decode_device_id TPS546D24S_ID = ''TPS546D24S''"
  "decode_device_id (6 # TPS546D24A_ID2) = ''TPS546D24A''"
  by code_simp+

end
