(* ===== verification/Pmbus.thy ===== *)
theory Pmbus
  imports Pmbus_Commands Floats
begin

text \<open>
  The number formats of PMBus, \<open>peripheral/pmbus.rs\<close> and \<open>peripheral/pmbus/pmbus_types.rs\<close>: 11 bits of
  mantissa with 5 of exponent, and 16 bits under the exponent in \<open>VOUT_MODE\<close>. Floats are the
  rationals they denote; multiplying and dividing by powers of two is exact.
\<close>

subsection \<open>Numbers of 11 bits\<close>

definition extract_5bit_exponent :: "u8 \<Rightarrow> int" where
  "extract_5bit_exponent raw_exp =
     (if raw_exp AND 0x10 \<noteq> 0 then sint (raw_exp OR 0xe0) else sint raw_exp)"

definition linear11_to_float :: "u16 \<Rightarrow> rat" where
  "linear11_to_float v =
     (let exp_raw = ucast (drop_bit 11 v AND 0x1f) :: u8;
          exponent = extract_5bit_exponent exp_raw;
          mant_raw = v AND 0x07ff;
          mantissa = (if mant_raw AND 0x0400 \<noteq> 0 then sint (mant_raw OR 0xf800) else sint mant_raw)
      in f32 (f32 (of_int mantissa) * 2 powi exponent))"

definition linear11_to_float_unsigned :: "u16 \<Rightarrow> rat" where
  "linear11_to_float_unsigned v =
     (let exp_raw = ucast (drop_bit 11 v AND 0x1f) :: u8;
          exponent = extract_5bit_exponent exp_raw;
          mantissa = v AND 0x07ff
      in f32 (f32 (of_nat (unat mantissa)) * 2 powi exponent))"

definition f32_max :: rat where
  "f32_max = of_int (2 ^ 24 - 1) * 2 ^ 104"

text \<open>
  One round of the search for an exponent, for mantissas from \<open>lo\<close> up to but excluding \<open>hi\<close>: the
  exponent and error kept are replaced by a strictly smaller error. A cast of the mantissa to 32
  bits saturates, which it never does within these bounds.
\<close>

definition exponent_error :: "rat \<Rightarrow> rat \<Rightarrow> rat \<Rightarrow> int \<Rightarrow> rat option" where
  "exponent_error lo hi v e =
     (let mantissa_f = f32 (v / 2 powi e)
      in if lo \<le> mantissa_f \<and> mantissa_f < hi
         then (let mantissa = round_away mantissa_f;
                   reconstructed = f32 (f32 (of_int mantissa) * 2 powi e)
               in Some \<bar>f32 (reconstructed - v)\<bar>)
         else None)"

definition exponent_step :: "rat \<Rightarrow> rat \<Rightarrow> rat \<Rightarrow> int \<Rightarrow> int \<times> rat \<Rightarrow> int \<times> rat" where
  "exponent_step lo hi v e best =
     (case exponent_error lo hi v e of
        None \<Rightarrow> best
      | Some err \<Rightarrow> if err < snd best then (e, err) else best)"

definition best_exponent :: "rat \<Rightarrow> rat \<Rightarrow> rat \<Rightarrow> int" where
  "best_exponent lo hi v = fst (fold (exponent_step lo hi v) [-16..15] (0, f32_max))"

definition linear11_pack :: "int \<Rightarrow> int \<Rightarrow> u16" where
  "linear11_pack e m = push_bit 11 (of_int e AND 0x1f) OR (of_int m AND 0x07ff)"

definition linear11_from_float :: "rat \<Rightarrow> u16" where
  "linear11_from_float v =
     (if v = 0 then 0
      else
        (let best_exp = best_exponent (- 1024) 1024 v;
             mantissa = saturate (- (2 ^ 31)) (2 ^ 31 - 1) (round_away (f32 (v / 2 powi best_exp)))
         in linear11_pack best_exp mantissa))"

subsection \<open>Numbers of 16 bits\<close>

definition linear16_to_float :: "u16 \<Rightarrow> u8 \<Rightarrow> rat" where
  "linear16_to_float v vout_mode =
     f32 (f32 (of_nat (unat v)) * 2 powi extract_5bit_exponent (vout_mode AND 0x1f))"

definition linear16_from_float :: "rat \<Rightarrow> u8 \<Rightarrow> PMBusError + u16" where
  "linear16_from_float v vout_mode =
     (let mantissa = round_away (f32 (v / 2 powi extract_5bit_exponent (vout_mode AND 0x1f)))
      in if mantissa < 0 \<or> 65535 < mantissa then Inl ValueOutOfRange else Inr (of_int mantissa))"

datatype VoutModeFormat = FormatLinear | FormatVid | FormatDirect | FormatIeee754Half | FormatReserved u8

text \<open>A \<open>VoutMode\<close> is its byte.\<close>

type_synonym VoutMode = u8

definition VoutMode_exponent :: "VoutMode \<Rightarrow> int" where
  "VoutMode_exponent mode = extract_5bit_exponent (mode AND 0x1f)"

definition is_tps546_format :: "VoutMode \<Rightarrow> bool" where
  "is_tps546_format mode \<longleftrightarrow>
     drop_bit 5 mode AND 0x03 = 0 \<and> - 12 \<le> VoutMode_exponent mode \<and> VoutMode_exponent mode \<le> - 4"

definition VoutMode_mode :: "VoutMode \<Rightarrow> VoutModeFormat" where
  "VoutMode_mode mode =
     (if is_tps546_format mode then FormatLinear
      else
        (let m = drop_bit 5 mode AND 0x07
         in if m = 0 then FormatLinear
            else if m = 1 then FormatVid
            else if m = 2 then FormatDirect
            else if m = 3 then FormatIeee754Half
            else FormatReserved m))"

definition is_relative :: "VoutMode \<Rightarrow> bool" where
  "is_relative mode \<longleftrightarrow> mode AND 0x80 \<noteq> 0"

definition decode_linear16 :: "VoutMode \<Rightarrow> u16 \<Rightarrow> rat" where
  "decode_linear16 mode v = f32 (f32 (of_nat (unat v)) * 2 powi VoutMode_exponent mode)"

definition encode_linear16 :: "VoutMode \<Rightarrow> rat \<Rightarrow> PMBusError + u16" where
  "encode_linear16 mode volts =
     (let mantissa = round_away (f32 (volts / 2 powi VoutMode_exponent mode))
      in if mantissa < 0 \<or> 65535 < mantissa then Inl ValueOutOfRange else Inr (of_int mantissa))"

text \<open>The typed 11-bit format reads the mantissa without sign.\<close>

definition Linear11_to_f32 :: "u16 \<Rightarrow> rat" where
  "Linear11_to_f32 raw =
     (let exp_raw = ucast (drop_bit 11 raw AND 0x1f) :: u8;
          exponent = extract_5bit_exponent exp_raw;
          mantissa = raw AND 0x07ff
      in f32 (f32 (of_nat (unat mantissa)) * 2 powi exponent))"

definition Linear11_from_f32 :: "rat \<Rightarrow> PMBusError + u16" where
  "Linear11_from_f32 v =
     (if v = 0 then Inr 0
      else
        (let best_exp = best_exponent 0 2048 v;
             mantissa = saturate 0 (2 ^ 32 - 1) (round_away (f32 (v / 2 powi best_exp)))
         in if 0x07ff < mantissa then Inl ValueOutOfRange else Inr (linear11_pack best_exp mantissa)))"

record Linear16 =
  l16_value :: u16
  l16_mode :: VoutMode

definition Linear16_to_f32 :: "Linear16 \<Rightarrow> rat" where
  "Linear16_to_f32 l = decode_linear16 (l16_mode l) (l16_value l)"

definition Linear16_from_f32 :: "rat \<Rightarrow> VoutMode \<Rightarrow> PMBusError + Linear16" where
  "Linear16_from_f32 volts mode =
     try_res (encode_linear16 mode volts) (\<lambda>v. Inr \<lparr>l16_value = v, l16_mode = mode\<rparr>)"

datatype PmbusVoltage = VoltageLinear11 u16 | VoltageLinear16 Linear16 | VoltageDirect rat

fun PmbusVoltage_value :: "PmbusVoltage \<Rightarrow> rat" where
  "PmbusVoltage_value (VoltageLinear11 l11) = Linear11_to_f32 l11"
| "PmbusVoltage_value (VoltageLinear16 l16) = Linear16_to_f32 l16"
| "PmbusVoltage_value (VoltageDirect v) = v"

fun result_ok :: "'e + 'a \<Rightarrow> 'a option" where
  "result_ok (Inl _) = None"
| "result_ok (Inr a) = Some a"

fun PmbusVoltage_to_linear11 :: "PmbusVoltage \<Rightarrow> u16 option" where
  "PmbusVoltage_to_linear11 (VoltageLinear11 l11) = Some l11"
| "PmbusVoltage_to_linear11 v = result_ok (Linear11_from_f32 (PmbusVoltage_value v))"

definition PmbusVoltage_to_linear16 :: "VoutMode \<Rightarrow> PmbusVoltage \<Rightarrow> Linear16 option" where
  "PmbusVoltage_to_linear16 vout_mode v =
     (case v of
        VoltageLinear16 l16 \<Rightarrow>
          if l16_mode l16 = vout_mode then Some l16
          else result_ok (Linear16_from_f32 (PmbusVoltage_value v) vout_mode)
      | _ \<Rightarrow> result_ok (Linear16_from_f32 (PmbusVoltage_value v) vout_mode))"

text \<open>Currents and temperatures keep an 11-bit word or a value; frequencies and times keep the value.\<close>

datatype PmbusCurrent = CurrentLinear11 u16 | CurrentDirect rat

fun PmbusCurrent_value :: "PmbusCurrent \<Rightarrow> rat" where
  "PmbusCurrent_value (CurrentLinear11 l11) = Linear11_to_f32 l11"
| "PmbusCurrent_value (CurrentDirect v) = v"

fun PmbusCurrent_to_linear11 :: "PmbusCurrent \<Rightarrow> u16 option" where
  "PmbusCurrent_to_linear11 (CurrentLinear11 l11) = Some l11"
| "PmbusCurrent_to_linear11 (CurrentDirect v) = result_ok (Linear11_from_f32 v)"

datatype PmbusTemperature = TemperatureLinear11 u16 | TemperatureDirect rat

fun PmbusTemperature_value :: "PmbusTemperature \<Rightarrow> rat" where
  "PmbusTemperature_value (TemperatureLinear11 l11) = Linear11_to_f32 l11"
| "PmbusTemperature_value (TemperatureDirect v) = v"

fun PmbusTemperature_to_linear11 :: "PmbusTemperature \<Rightarrow> u16 option" where
  "PmbusTemperature_to_linear11 (TemperatureLinear11 l11) = Some l11"
| "PmbusTemperature_to_linear11 (TemperatureDirect v) = result_ok (Linear11_from_f32 v)"

definition PmbusFrequency_from_linear11 :: "u16 \<Rightarrow> rat" where
  "PmbusFrequency_from_linear11 = linear11_to_float"

definition PmbusTime_from_linear11 :: "u16 \<Rightarrow> rat" where
  "PmbusTime_from_linear11 = linear11_to_float"

text \<open>The text for \<open>VOUT_MODE\<close>.\<close>

definition signed_decimal :: "int \<Rightarrow> string" where
  "signed_decimal i = (if i < 0 then ''-'' @ decimal (nat (- i)) else decimal (nat i))"

definition decode_vout_mode :: "u8 \<Rightarrow> string" where
  "decode_vout_mode v =
     (let rel_field = drop_bit 7 v AND 0x01;
          mode_field_tps546 = drop_bit 5 v AND 0x03;
          exp_signed = extract_5bit_exponent (v AND 0x1f)
      in if mode_field_tps546 = 0 \<and> - 12 \<le> exp_signed \<and> exp_signed \<le> - 4
         then (if rel_field = 1 then ''relative'' else ''absolute'') @ '', ULINEAR16, ^'' @ signed_decimal exp_signed
         else
           (let mode = drop_bit 5 v AND 0x07
            in if mode = 0 then ''Linear format, exponent '' @ signed_decimal exp_signed
               else if mode = 1 then ''VID format, exponent '' @ signed_decimal exp_signed
               else if mode = 2 then ''Direct format, exponent '' @ signed_decimal exp_signed
               else if mode = 3 then ''IEEE754 half precision''
               else ''reserved mode '' @ decimal (unat mode) @ '' (0x'' @ format_02x v @ '')''))"

subsection \<open>Packing and unpacking\<close>

lemma bit_small_int:
  fixes m :: int
  assumes "- (2 ^ k) \<le> m" and "m < 2 ^ k" and "k \<le> n"
  shows "bit m n = bit m k"
proof -
  have "signed_take_bit k m = m" using assms(1,2) by (simp add: signed_take_bit_int_eq_self)
  then have "bit m n = bit (signed_take_bit k m) n" by simp
  then show ?thesis using assms(3) by (simp add: bit_signed_take_bit_iff min_def)
qed

text \<open>Sign extension of the low \<open>k + 1\<close> bits of a word.\<close>

lemma sint_extended:
  fixes w :: "'a::len word"
  assumes k: "k + 1 < LENGTH('a)"
    and m: "m = mask (k + 1)" "h = push_bit k 1" "n = NOT (mask (k + 1))"
  shows "(if (w AND m) AND h \<noteq> 0 then sint ((w AND m) OR n) else sint (w AND m)) = signed_take_bit k (uint w)"
proof -
  have bits: "bit ((w AND m) AND h) i \<longleftrightarrow> i = k \<and> bit w k" for i
    using k by (auto simp: m bit_simps)
  have "(w AND m) AND h \<noteq> 0 \<longleftrightarrow> bit w k"
  proof
    assume "(w AND m) AND h \<noteq> 0"
    then obtain i where "bit ((w AND m) AND h) i" by (metis bit_0_eq bit_eqI bot_apply bot_bool_def)
    then show "bit w k" by (simp only: bits)
  next
    assume "bit w k"
    then have "bit ((w AND m) AND h) k" by (simp only: bits)
    then show "(w AND m) AND h \<noteq> 0" by auto
  qed
  moreover have "sint ((w AND m) OR n) = signed_take_bit k (uint w)" if "bit w k"
    using k that by (intro bit_eqI) (auto simp: m bit_simps min_def bit_uint_iff less_Suc_eq)
  moreover have "sint (w AND m) = signed_take_bit k (uint w)" if "\<not> bit w k"
    using k that by (intro bit_eqI) (auto simp: m bit_simps min_def bit_uint_iff less_Suc_eq)
  ultimately show ?thesis by simp
qed

lemma pmbus_masks:
  "(0x1f :: u8) = mask (4 + 1)" "(0x10 :: u8) = push_bit 4 1" "(0xe0 :: u8) = NOT (mask (4 + 1))"
  "(0x1f :: u16) = mask 5" "(0x07ff :: u16) = mask (10 + 1)" "(0x0400 :: u16) = push_bit 10 1"
  "(0xf800 :: u16) = NOT (mask (10 + 1))"
  by code_simp+

definition linear11_exponent :: "u16 \<Rightarrow> int" where
  "linear11_exponent w = signed_take_bit 4 (uint (drop_bit 11 w))"

definition linear11_mantissa :: "u16 \<Rightarrow> int" where
  "linear11_mantissa w = signed_take_bit 10 (uint w)"

lemma extract_5bit_exponent_eq: "extract_5bit_exponent (b AND 0x1f) = signed_take_bit 4 (uint b)"
  unfolding extract_5bit_exponent_def by (rule sint_extended [OF _ pmbus_masks(1-3)]) simp

lemma linear11_parts:
  "extract_5bit_exponent (ucast (drop_bit 11 w AND 0x1f)) = linear11_exponent w"
  "(if (w AND 0x07ff) AND 0x0400 \<noteq> 0 then sint ((w AND 0x07ff) OR 0xf800) else sint (w AND 0x07ff)) =
     linear11_mantissa w"
proof -
  have "(ucast (drop_bit 11 w AND 0x1f) :: u8) = ucast (drop_bit 11 w) AND 0x1f"
    by (rule word8_bitsI) (simp add: bit_simps)
  then have "extract_5bit_exponent (ucast (drop_bit 11 w AND 0x1f)) = signed_take_bit 4 (uint (ucast (drop_bit 11 w) :: u8))"
    by (simp only: extract_5bit_exponent_eq)
  also have "\<dots> = linear11_exponent w"
    unfolding linear11_exponent_def by (intro bit_eqI) (auto simp: bit_simps bit_uint_iff min_def)
  finally show "extract_5bit_exponent (ucast (drop_bit 11 w AND 0x1f)) = linear11_exponent w" .
  show "(if (w AND 0x07ff) AND 0x0400 \<noteq> 0 then sint ((w AND 0x07ff) OR 0xf800) else sint (w AND 0x07ff)) =
     linear11_mantissa w"
    unfolding linear11_mantissa_def by (rule sint_extended [OF _ pmbus_masks(5-7)]) simp
qed

lemma linear11_bounds:
  "- 16 \<le> linear11_exponent w" "linear11_exponent w \<le> 15"
  "- 1024 \<le> linear11_mantissa w" "linear11_mantissa w \<le> 1023"
  using signed_take_bit_int_greater_eq_minus_exp [of 4 "uint (drop_bit 11 w)"]
    signed_take_bit_int_less_exp [of 4 "uint (drop_bit 11 w)"]
    signed_take_bit_int_greater_eq_minus_exp [of 10 "uint w"]
    signed_take_bit_int_less_exp [of 10 "uint w"]
  by (simp_all add: linear11_exponent_def linear11_mantissa_def)

lemma f32_int: "\<bar>m\<bar> < 2 ^ 24 \<Longrightarrow> f32 (of_int m) = of_int m"
  using fl_exact_abs [of m 24 0] by simp

lemma linear11_to_float_eq: "linear11_to_float w = of_int (linear11_mantissa w) * 2 powi linear11_exponent w"
proof -
  have "\<bar>linear11_mantissa w\<bar> < 2 ^ 24" using linear11_bounds(3,4) [of w] by simp
  then show ?thesis unfolding linear11_to_float_def Let_def linear11_parts by (simp add: f32_int fl_exact_abs)
qed

lemma linear11_pack_parts:
  assumes "- 16 \<le> e" "e \<le> 15" and "- 1024 \<le> m" "m \<le> 1023"
  shows "linear11_exponent (linear11_pack e m) = e" and "linear11_mantissa (linear11_pack e m) = m"
proof -
  have e: "signed_take_bit 4 e = e" and m: "signed_take_bit 10 m = m"
    using assms by (simp_all add: signed_take_bit_int_eq_self)
  have "linear11_exponent (linear11_pack e m) = signed_take_bit 4 e"
    unfolding linear11_exponent_def linear11_pack_def pmbus_masks(4,5)
    by (intro bit_eqI) (auto simp: bit_simps bit_uint_iff min_def)
  with e show "linear11_exponent (linear11_pack e m) = e" by simp
  have "linear11_mantissa (linear11_pack e m) = signed_take_bit 10 m"
    unfolding linear11_mantissa_def linear11_pack_def pmbus_masks(4,5)
    by (intro bit_eqI) (auto simp: bit_simps bit_uint_iff min_def)
  with m show "linear11_mantissa (linear11_pack e m) = m" by simp
qed

subsection \<open>The search for an exponent\<close>

text \<open>Without rounding: a float scaled by a power of two, and its distance to the nearest multiple.\<close>

lemma exponent_error_eq:
  assumes "f32 v = v" and "- 2048 \<le> lo" and "hi \<le> 2048"
  shows "exponent_error lo hi v e =
    (if lo \<le> v / 2 powi e \<and> v / 2 powi e < hi then Some \<bar>of_int (round_away (v / 2 powi e)) * 2 powi e - v\<bar> else None)"
proof -
  let ?m = "round_away (v / 2 powi e)"
  have scaled: "f32 (v / 2 powi e) = v / 2 powi e" by (rule fl_scale(2)) (use assms(1) in simp_all)
  have "f32 (of_int ?m * 2 powi e) = of_int ?m * 2 powi e \<and> f32 (of_int ?m) = of_int ?m"
    if "lo \<le> v / 2 powi e" "v / 2 powi e < hi"
  proof -
    have "- 2048 \<le> ?m" "?m \<le> 2048"
      using round_away_bounds(1) [where a = "- 2048" and x = "v / 2 powi e"]
        round_away_bounds(2) [where b = 2048 and x = "v / 2 powi e"] that assms(2,3)
      by simp_all
    then have "\<bar>?m\<bar> < 2 ^ 24" by simp
    then show ?thesis using f32_int fl_exact_abs by simp
  qed
  moreover have "f32 (of_int ?m * 2 powi e - v) = of_int ?m * 2 powi e - v"
    by (rule fl_near_multiple [OF assms(1) _ refl]) simp
  ultimately show ?thesis by (simp add: exponent_error_def scaled Let_def)
qed

lemma round_away_nearest: "\<bar>of_int (round_away x) - x\<bar> \<le> \<bar>of_int m - x\<bar>"
proof (cases "m = round_away x")
  case False
  then have "1 \<le> \<bar>m - round_away x\<bar>" by simp
  then have "1 \<le> \<bar>rat_of_int (m - round_away x)\<bar>" by (metis of_int_1_le_iff of_int_abs)
  then have "1 \<le> \<bar>of_int m - rat_of_int (round_away x)\<bar>" by simp
  then show ?thesis using round_away_error [of x] by linarith
qed simp

lemma nearest_multiple:
  "\<bar>of_int (round_away (v / 2 powi e)) * 2 powi e - v\<bar> \<le> \<bar>of_int m * 2 powi e - (v :: rat)\<bar>"
proof -
  have pos: "0 < (2::rat) powi e" by (rule powi_pos)
  have eq: "\<bar>of_int k * 2 powi e - v\<bar> = \<bar>of_int k - v / 2 powi e\<bar> * 2 powi e" for k
  proof -
    have "of_int k * 2 powi e - v = (of_int k - v / 2 powi e) * 2 powi e" using pos by (simp add: algebra_simps)
    then show ?thesis using pos by (simp add: abs_mult)
  qed
  show ?thesis unfolding eq using round_away_nearest pos by (intro mult_right_mono) simp_all
qed

text \<open>Multiples of a larger power of two are multiples of a smaller one.\<close>

lemma coarser_multiple: "e \<le> d \<Longrightarrow> \<exists>k. rat_of_int m * 2 powi d = of_int k * 2 powi e"
proof -
  assume "e \<le> d"
  then have "rat_of_int m * 2 powi d = of_int (m * 2 ^ nat (d - e)) * 2 powi e"
    using powi_join [of "d - e" e d] by (simp add: power_powi mult.assoc)
  then show ?thesis by blast
qed

lemma finer_is_nearer:
  assumes "e \<le> d"
  shows "\<bar>of_int (round_away (v / 2 powi e)) * 2 powi e - v\<bar> \<le> \<bar>of_int m * 2 powi d - (v :: rat)\<bar>"
  using coarser_multiple [OF assms, of m] nearest_multiple [of v e] by metis

text \<open>The first exponent in range is kept, since no later one has a smaller error.\<close>

lemma exponent_steps_keep:
  "(\<And>d err. d \<in> set ds \<Longrightarrow> exponent_error lo hi v d = Some err \<Longrightarrow> snd best \<le> err) \<Longrightarrow>
     fold (exponent_step lo hi v) ds best = best"
proof (induction ds)
  case (Cons d ds)
  have "exponent_step lo hi v d best = best"
    using Cons.prems [of d] by (auto simp: exponent_step_def split: option.split)
  moreover have "fold (exponent_step lo hi v) ds best = best" using Cons.prems by (intro Cons.IH) auto
  ultimately show ?case by simp
qed simp

lemma exponent_steps_skip:
  "(\<And>d. d \<in> set ds \<Longrightarrow> exponent_error lo hi v d = None) \<Longrightarrow> fold (exponent_step lo hi v) ds best = best"
  by (rule exponent_steps_keep) simp

lemma best_exponent_first:
  assumes v: "f32 v = v" "- 2048 \<le> lo" "hi \<le> 2048"
    and e: "- 16 \<le> e" "e \<le> 15" "lo \<le> v / 2 powi e" "v / 2 powi e < hi"
    and first: "\<And>d. - 16 \<le> d \<Longrightarrow> d < e \<Longrightarrow> \<not> (lo \<le> v / 2 powi d \<and> v / 2 powi d < hi)"
  shows "best_exponent lo hi v = e"
proof -
  let ?err = "\<bar>of_int (round_away (v / 2 powi e)) * 2 powi e - v\<bar>"
  have err: "exponent_error lo hi v e = Some ?err" using e by (simp add: exponent_error_eq [OF v])
  have split: "[-16..15] = [-16..e - 1] @ e # [e + 1..15]"
    unfolding upto_rec1 [OF e(2), symmetric] by (rule upto_split1 [OF e(1,2)])
  have before: "fold (exponent_step lo hi v) [-16..e - 1] (0, f32_max) = (0, f32_max)"
    using first by (intro exponent_steps_skip) (auto simp: exponent_error_eq [OF v])
  have "?err < f32_max"
  proof -
    have "?err \<le> 2 powi e / 2"
    proof -
      have "\<bar>of_int (round_away (v / 2 powi e)) - v / 2 powi e\<bar> * 2 powi e \<le> 1 / 2 * 2 powi e"
        using round_away_error powi_pos [of e] by (intro mult_right_mono) simp_all
      moreover have "of_int (round_away (v / 2 powi e)) * 2 powi e - v =
          (of_int (round_away (v / 2 powi e)) - v / 2 powi e) * 2 powi e"
        using powi_pos [of e] by (simp add: algebra_simps)
      ultimately show ?thesis using powi_pos [of e] by (simp add: abs_mult)
    qed
    also have "\<dots> < 2 powi 15" using powi_2_mono [OF e(2)] powi_pos [of 15] by linarith
    also have "(2::rat) powi 15 < f32_max" by (simp add: f32_max_def)
    finally show ?thesis .
  qed
  then have step: "exponent_step lo hi v e (0, f32_max) = (e, ?err)" by (simp add: exponent_step_def err)
  have "fold (exponent_step lo hi v) [e + 1..15] (e, ?err) = (e, ?err)"
    using finer_is_nearer [of e _ v] by (intro exponent_steps_keep) (auto simp: exponent_error_eq [OF v] split: if_splits)
  then show ?thesis
    by (simp only: best_exponent_def split fold_append fold.simps o_apply before step fst_conv)
qed

subsection \<open>What the format can hold\<close>

lemma first_int:
  assumes "lo \<le> hi" and "P (hi :: int)"
  shows "\<exists>e. lo \<le> e \<and> e \<le> hi \<and> P e \<and> (\<forall>d. lo \<le> d \<longrightarrow> d < e \<longrightarrow> \<not> P d)"
  using assms
proof (induction "nat (hi - lo)" arbitrary: hi rule: less_induct)
  case less
  show ?case
  proof (cases "\<exists>d. lo \<le> d \<and> d < hi \<and> P d")
    case True
    then obtain d where d: "lo \<le> d" "d < hi" "P d" by blast
    from less.hyps [OF _ d(1,3)] d obtain e where "lo \<le> e" "e \<le> d" "P e" "\<forall>d. lo \<le> d \<longrightarrow> d < e \<longrightarrow> \<not> P d" by auto
    then show ?thesis using d(2) by (intro exI [of _ e]) auto
  next
    case False
    then show ?thesis using less.prems by blast
  qed
qed

lemma first_exponent:
  assumes "- 1024 \<le> v / 2 powi 15" and "v / (2::rat) powi 15 < 1024"
  shows "\<exists>e. - 16 \<le> e \<and> e \<le> 15 \<and> (- 1024 \<le> v / 2 powi e \<and> v / 2 powi e < 1024) \<and>
    (\<forall>d. - 16 \<le> d \<longrightarrow> d < e \<longrightarrow> \<not> (- 1024 \<le> v / 2 powi d \<and> v / 2 powi d < 1024))"
  by (rule first_int, simp, rule conjI [OF assms])

lemma linear11_from_float_eq:
  assumes v: "f32 v = v" "v \<noteq> 0" and e: "- 16 \<le> e" "e \<le> 15" "- 1024 \<le> v / 2 powi e" "v / 2 powi e < 1024"
    and first: "\<forall>d. - 16 \<le> d \<longrightarrow> d < e \<longrightarrow> \<not> (- 1024 \<le> v / 2 powi d \<and> v / 2 powi d < 1024)"
  shows "linear11_from_float v = linear11_pack e (round_away (v / 2 powi e))"
    and "- 1024 \<le> round_away (v / 2 powi e)" and "round_away (v / 2 powi e) \<le> 1024"
proof -
  have best: "best_exponent (- 1024) 1024 v = e"
    by (rule best_exponent_first) (use v(1) e first in simp_all)
  show m: "- 1024 \<le> round_away (v / 2 powi e)" "round_away (v / 2 powi e) \<le> 1024"
    using round_away_bounds(1) [where a = "- 1024" and x = "v / 2 powi e"]
      round_away_bounds(2) [where b = 1024 and x = "v / 2 powi e"] e by simp_all
  have "f32 (v / 2 powi e) = v / 2 powi e" by (rule fl_scale(2)) (use v(1) in simp_all)
  moreover have "saturate (- (2 ^ 31)) (2 ^ 31 - 1) (round_away (v / 2 powi e)) = round_away (v / 2 powi e)"
    using m by (intro saturate_id) simp_all
  ultimately show "linear11_from_float v = linear11_pack e (round_away (v / 2 powi e))"
    using v(2) by (simp only: linear11_from_float_def if_False Let_def best)
qed

lemma linear11_pack_1024: "linear11_pack e 1024 = linear11_pack e (- 1024)"
  by (simp add: linear11_pack_def)

text \<open>The gap below a power of two: a mantissa that rounds up to 1024.\<close>

definition in_gap :: "rat \<Rightarrow> int \<Rightarrow> bool" where
  "in_gap v k \<longleftrightarrow> - 16 \<le> k \<and> k \<le> 15 \<and> 2047 / 2 * 2 powi k \<le> v \<and> v < 1024 * 2 powi k"

lemma in_gap_first:
  assumes "in_gap v k"
  shows "- 1024 \<le> v / 2 powi k" and "v / 2 powi k < 1024" and "round_away (v / 2 powi k) = 1024"
    and "d < k \<Longrightarrow> \<not> (- 1024 \<le> v / 2 powi d \<and> v / 2 powi d < 1024)"
proof -
  have pos: "0 < (2::rat) powi k" by (rule powi_pos)
  have lo: "2047 / 2 \<le> v / 2 powi k" using assms pos by (simp add: in_gap_def field_simps)
  show "- 1024 \<le> v / 2 powi k" using lo by linarith
  show hi: "v / 2 powi k < 1024" using assms pos by (simp add: in_gap_def field_simps)
  have "\<lfloor>v / 2 powi k + 1 / 2\<rfloor> = 1024" using lo hi by (intro floor_unique) linarith+
  moreover have "\<not> v / 2 powi k < 0" using lo by linarith
  ultimately show "round_away (v / 2 powi k) = 1024" by (simp only: round_away_def if_False)
  show "\<not> (- 1024 \<le> v / 2 powi d \<and> v / 2 powi d < 1024)" if "d < k"
  proof
    assume "- 1024 \<le> v / 2 powi d \<and> v / 2 powi d < 1024"
    then have "v < 1024 * 2 powi d" using powi_pos [of d] by (simp add: field_simps)
    also have "\<dots> \<le> 1024 * 2 powi (k - 1)" using powi_2_mono [of d "k - 1"] that by simp
    also have "\<dots> = 512 * 2 powi k" using powi_join [of "k - 1" 1 k] by simp
    also have "\<dots> \<le> 2047 / 2 * 2 powi k" using pos by simp
    finally show False using assms by (simp add: in_gap_def)
  qed
qed

lemma linear11_gap:
  assumes "f32 v = v" and "in_gap v k"
  shows "linear11_to_float (linear11_from_float v) = - 1024 * 2 powi k"
proof -
  have "v \<noteq> 0" using assms(2) powi_pos [of k] by (auto simp: in_gap_def)
  moreover have "- 16 \<le> k" "k \<le> 15" using assms(2) by (simp_all add: in_gap_def)
  ultimately have "linear11_from_float v = linear11_pack k (- 1024)"
    using linear11_from_float_eq(1) [OF assms(1), of k] in_gap_first [OF assms(2)] linear11_pack_1024 by simp
  then show ?thesis using linear11_pack_parts [of k "- 1024"] \<open>- 16 \<le> k\<close> \<open>k \<le> 15\<close> by (simp add: linear11_to_float_eq)
qed

text \<open>An exponent below the first in range gives nothing nearer.\<close>

lemma below_first_farther:
  assumes e: "- 1024 \<le> v / 2 powi e" "v / 2 powi e < (1024::rat)"
    and below: "\<not> (- 1024 \<le> v / 2 powi (e - 1) \<and> v / 2 powi (e - 1) < 1024)" and d: "d < e"
    and m: "- 1024 \<le> m" "m \<le> (1023 :: int)"
  shows "\<bar>of_int (round_away (v / 2 powi e)) * 2 powi e - v\<bar> \<le> \<bar>of_int m * 2 powi d - (v :: rat)\<bar>"
proof -
  let ?h = "2 powi (e - 1) :: rat" and ?err = "\<bar>of_int (round_away (v / 2 powi e)) * 2 powi e - v\<bar>"
  have h: "2 powi e = 2 * ?h" "0 < ?h" using powi_join [of "e - 1" 1 e] powi_pos by simp_all
  have p: "0 < (2::rat) powi d" "2 powi d \<le> ?h" using powi_pos powi_2_mono [of d "e - 1"] d by simp_all
  have mh: "- 1024 * ?h \<le> of_int m * 2 powi d \<and> of_int m * 2 powi d \<le> 1023 * ?h"
  proof
    have "- 1024 * ?h \<le> - 1024 * 2 powi d" using p(2) by simp
    also have "\<dots> \<le> of_int m * 2 powi d" using m(1) p(1) by (intro mult_right_mono) simp_all
    finally show "- 1024 * ?h \<le> of_int m * 2 powi d" .
    have "of_int m * 2 powi d \<le> (1023 :: rat) * 2 powi d" using m(2) p(1) by (intro mult_right_mono) simp_all
    also have "\<dots> \<le> 1023 * ?h" using p(2) by simp
    finally show "of_int m * 2 powi d \<le> 1023 * ?h" .
  qed
  have "v < - 1024 * ?h \<or> 1024 * ?h \<le> v"
    using below h(2) by (auto simp: field_simps)
  then show ?thesis
  proof
    assume neg: "v < - 1024 * ?h"
    have "?err \<le> \<bar>of_int (- 512) * 2 powi e - v\<bar>" by (rule nearest_multiple)
    also have "of_int (- 512) * 2 powi e = - 1024 * ?h" by (simp add: h(1))
    also have "\<bar>- 1024 * ?h - v\<bar> \<le> \<bar>of_int m * 2 powi d - v\<bar>" using neg mh by linarith
    finally show ?thesis .
  next
    assume big: "1024 * ?h \<le> v"
    have "?err \<le> \<bar>of_int 512 * 2 powi e - v\<bar>" by (rule nearest_multiple)
    also have "of_int 512 * 2 powi e = 1024 * ?h" by (simp add: h(1))
    also have "\<bar>1024 * ?h - v\<bar> \<le> \<bar>of_int m * 2 powi d - v\<bar>" using big mh h(2) by linarith
    finally show ?thesis .
  qed
qed

text \<open>Outside the gaps the encoding denotes a number nearest to the float.\<close>

lemma linear11_nearest:
  assumes v: "f32 v = v" and range: "- 1024 * 2 powi 15 \<le> v" "v < 1024 * 2 powi 15"
    and no_gap: "\<And>k. \<not> in_gap v k"
  shows "\<bar>linear11_to_float (linear11_from_float v) - v\<bar> \<le> \<bar>linear11_to_float w - v\<bar>"
proof (cases "v = 0")
  case True
  then show ?thesis by (simp add: linear11_from_float_def linear11_to_float_eq linear11_mantissa_def)
next
  case False
  have "- 1024 \<le> v / 2 powi 15" "v / 2 powi 15 < 1024" using range by simp_all
  from first_exponent [OF this] obtain e where e: "- 16 \<le> e" "e \<le> 15" "- 1024 \<le> v / 2 powi e" "v / 2 powi e < 1024"
    and first: "\<forall>d. - 16 \<le> d \<longrightarrow> d < e \<longrightarrow> \<not> (- 1024 \<le> v / 2 powi d \<and> v / 2 powi d < 1024)"
    by (elim exE conjE)
  let ?m = "round_away (v / 2 powi e)"
  note enc = linear11_from_float_eq [OF v False e first]
  have "?m \<noteq> 1024"
  proof
    assume m: "?m = 1024"
    have "0 \<le> v / 2 powi e"
    proof (rule ccontr)
      assume "\<not> 0 \<le> v / 2 powi e"
      then have "?m \<le> 0" using round_away_bounds(2) [where b = 0 and x = "v / 2 powi e"] by simp
      then show False using m by simp
    qed
    then have "\<lfloor>v / 2 powi e + 1 / 2\<rfloor> = 1024" using m by (simp add: round_away_def split: if_splits)
    then have "2047 / 2 \<le> v / 2 powi e" by linarith
    then have "in_gap v e" using e powi_pos [of e] by (simp add: in_gap_def field_simps)
    with no_gap show False by blast
  qed
  then have m: "- 1024 \<le> ?m" "?m \<le> 1023" using enc(2,3) by simp_all
  have dec: "linear11_to_float (linear11_from_float v) = of_int ?m * 2 powi e"
    using linear11_pack_parts [OF e(1,2) m] by (simp add: linear11_to_float_eq enc(1))
  let ?d = "linear11_exponent w" and ?n = "linear11_mantissa w"
  have "\<bar>of_int ?m * 2 powi e - v\<bar> \<le> \<bar>of_int ?n * 2 powi ?d - v\<bar>"
  proof (cases "e \<le> ?d")
    case True
    then show ?thesis by (rule finer_is_nearer)
  next
    case False
    then have d: "?d < e" "- 16 \<le> e - 1" using linear11_bounds(1) [of w] by simp_all
    then have "\<not> (- 1024 \<le> v / 2 powi (e - 1) \<and> v / 2 powi (e - 1) < 1024)" using first by simp
    from below_first_farther [OF e(3,4) this d(1) linear11_bounds(3,4)] show ?thesis .
  qed
  then show ?thesis unfolding dec linear11_to_float_eq [of w] .
qed

lemma linear11_round_trip: "linear11_to_float (linear11_from_float (linear11_to_float w)) = linear11_to_float w"
proof -
  let ?v = "linear11_to_float w" and ?m = "linear11_mantissa w" and ?e = "linear11_exponent w"
  have v: "?v = of_int ?m * 2 powi ?e" by (rule linear11_to_float_eq)
  have small: "\<bar>?m\<bar> < 2 ^ 24" using linear11_bounds(3,4) [of w] by simp
  have e15: "2 powi ?e \<le> (2::rat) powi 15" by (rule powi_2_mono) (rule linear11_bounds)
  have "- 1024 * 2 powi 15 \<le> - 1024 * (2::rat) powi ?e" using e15 by simp
  also have "\<dots> \<le> ?v"
    unfolding v using linear11_bounds(3) [of w] powi_pos [of ?e] by (intro mult_right_mono) simp_all
  finally have lo: "- 1024 * 2 powi 15 \<le> ?v" .
  have "?v \<le> 1023 * 2 powi ?e"
    unfolding v using linear11_bounds(4) [of w] powi_pos [of ?e] by (intro mult_right_mono) simp_all
  also have "\<dots> < 1024 * 2 powi 15" using e15 powi_pos [of ?e] by linarith
  finally have hi: "?v < 1024 * 2 powi 15" .
  have "\<not> in_gap ?v k" for k
  proof
    assume gap: "in_gap ?v k"
    have pos: "0 < (2::rat) powi k" by (rule powi_pos)
    show False
    proof (cases "?e \<le> k")
      case True
      have "?v \<le> 1023 * 2 powi ?e"
        unfolding v using linear11_bounds(4) [of w] powi_pos [of ?e] by (intro mult_right_mono) simp_all
      also have "\<dots> \<le> 1023 * 2 powi k" using powi_2_mono [OF True] by simp
      finally show False using gap pos by (simp add: in_gap_def)
    next
      case False
      then have "k + 1 \<le> ?e" by simp
      from coarser_multiple [OF this, of ?m] obtain j where j: "?v = of_int j * 2 powi (k + 1)" using v by metis
      then have "?v = of_int (2 * j) * 2 powi k" using powi_join [of k 1 "k + 1"] by (simp add: mult.commute mult.left_commute)
      then have "2047 / 2 \<le> rat_of_int (2 * j)" "rat_of_int (2 * j) < 1024"
        using gap pos by (simp_all add: in_gap_def)
      then have "1024 \<le> 2 * j" "2 * j < 1024" by linarith+
      then show False by simp
    qed
  qed
  moreover have "f32 ?v = ?v" unfolding v by (rule fl_exact_abs [OF small]) simp
  ultimately have "\<bar>linear11_to_float (linear11_from_float ?v) - ?v\<bar> \<le> \<bar>linear11_to_float w - ?v\<bar>"
    using linear11_nearest lo hi by blast
  then show ?thesis by simp
qed

subsection \<open>Voltages\<close>

lemma VoutMode_exponent_bounds: "- 16 \<le> VoutMode_exponent mode" "VoutMode_exponent mode \<le> 15"
  using signed_take_bit_int_greater_eq_minus_exp [of 4 "uint mode"] signed_take_bit_int_less_exp [of 4 "uint mode"]
  by (simp_all add: VoutMode_exponent_def extract_5bit_exponent_eq)

lemma linear16_agree:
  "linear16_to_float v mode = decode_linear16 mode v" "linear16_from_float x mode = encode_linear16 mode x"
  by (simp_all add: linear16_to_float_def decode_linear16_def linear16_from_float_def encode_linear16_def
      VoutMode_exponent_def)

lemma decode_linear16_eq: "decode_linear16 mode w = of_int (uint w) * 2 powi VoutMode_exponent mode"
proof -
  have "\<bar>uint w\<bar> < 2 ^ 24" using unsigned_less [of w, where 'a = int] by simp
  moreover have "rat_of_nat (unat w) = of_int (uint w)" by simp
  ultimately show ?thesis by (simp only: decode_linear16_def f32_int fl_exact_abs)
qed

lemma encode_linear16_Inr_iff:
  assumes "f32 x = x"
  shows "encode_linear16 mode x = Inr w \<longleftrightarrow> uint w = round_away (x / 2 powi VoutMode_exponent mode)"
proof -
  let ?r = "round_away (x / 2 powi VoutMode_exponent mode)"
  have "f32 (x / 2 powi VoutMode_exponent mode) = x / 2 powi VoutMode_exponent mode"
    by (rule fl_scale(2)) (use assms in simp_all)
  then have enc: "encode_linear16 mode x =
      (if ?r < 0 \<or> 65535 < ?r then Inl ValueOutOfRange else Inr (of_int ?r))"
    by (simp only: encode_linear16_def Let_def)
  have w: "0 \<le> uint w" "uint w \<le> 65535" using unsigned_less [of w, where 'a = int] by simp_all
  show ?thesis
  proof (cases "?r < 0 \<or> 65535 < ?r")
    case True
    then have "uint w \<noteq> ?r" using w by linarith
    then show ?thesis using True by (simp only: enc if_True) simp
  next
    case False
    have "of_int r = w \<longleftrightarrow> uint w = r" if "0 \<le> r" "r \<le> 65535" for r
      using that by (auto simp: uint_word_of_int_eq take_bit_int_eq_self)
    moreover have "0 \<le> ?r" "?r \<le> 65535" using False by linarith+
    ultimately have "of_int ?r = w \<longleftrightarrow> uint w = ?r" by blast
    then show ?thesis using False by (simp only: enc if_False sum.inject)
  qed
qed

text \<open>An encoded voltage is within half a step of the voltage asked for, and decoding is inverted exactly.\<close>

lemma encode_linear16_error:
  assumes "f32 x = x" and "encode_linear16 mode x = Inr w"
  shows "\<bar>decode_linear16 mode w - x\<bar> \<le> 2 powi VoutMode_exponent mode / 2"
proof -
  let ?p = "2 powi VoutMode_exponent mode :: rat"
  have pos: "0 < ?p" by (rule powi_pos)
  have "uint w = round_away (x / ?p)" using assms encode_linear16_Inr_iff by blast
  then have "decode_linear16 mode w - x = (of_int (round_away (x / ?p)) - x / ?p) * ?p"
    using pos by (simp add: decode_linear16_eq algebra_simps)
  moreover have "\<bar>of_int (round_away (x / ?p)) - x / ?p\<bar> * ?p \<le> 1 / 2 * ?p"
    using round_away_error pos by (intro mult_right_mono) simp_all
  ultimately show ?thesis using pos by (simp add: abs_mult)
qed

lemma encode_linear16_decode: "encode_linear16 mode (decode_linear16 mode w) = Inr w"
proof -
  have "\<bar>uint w\<bar> < 2 ^ 24" using unsigned_less [of w, where 'a = int] by simp
  then have "f32 (decode_linear16 mode w) = decode_linear16 mode w"
    unfolding decode_linear16_eq by (rule fl_exact_abs) simp
  moreover have "decode_linear16 mode w / 2 powi VoutMode_exponent mode = of_int (uint w)"
    using powi_pos [of "VoutMode_exponent mode"] by (simp add: decode_linear16_eq)
  ultimately show ?thesis by (simp only: encode_linear16_Inr_iff round_away_of_int)
qed

end
