(* ===== verification/I2c_Bus.thy ===== *)
theory I2c_Bus
  imports Control_Protocol
begin

text \<open>
  The I2C interface the device drivers are generic over, \<open>hw_trait/i2c.rs\<close>, as a record of its
  operations on a state. One instance is the bus behind the board's control channel; the other
  is a device whose answers are a function of the whole history of transactions, which it logs.
\<close>

record 's i2c =
  i2_write :: "u8 \<Rightarrow> bytes \<Rightarrow> 's \<Rightarrow> (hw_error + unit) \<times> 's"
  i2_read :: "u8 \<Rightarrow> nat \<Rightarrow> 's \<Rightarrow> (hw_error + bytes) \<times> 's"
  i2_write_read :: "u8 \<Rightarrow> bytes \<Rightarrow> nat \<Rightarrow> 's \<Rightarrow> (hw_error + bytes) \<times> 's"

definition raw_i2c :: "control_world \<Rightarrow> channel_state i2c" where
  "raw_i2c env = \<lparr>i2_write = i2c_write env, i2_read = i2c_read env, i2_write_read = i2c_write_read env\<rparr>"

datatype transaction = BusWrite u8 bytes | BusRead u8 nat | BusWriteRead u8 bytes nat

text \<open>What becomes of the last transaction of a history; the bytes of a reply by their position.\<close>

record i2c_device =
  iv_write :: "transaction list \<Rightarrow> hw_error + unit"
  iv_reply :: "transaction list \<Rightarrow> hw_error + (nat \<Rightarrow> u8)"

definition reply_bytes :: "nat \<Rightarrow> hw_error + (nat \<Rightarrow> u8) \<Rightarrow> hw_error + bytes" where
  "reply_bytes n r = (case r of Inl e \<Rightarrow> Inl e | Inr f \<Rightarrow> Inr (map f [0..<n]))"

definition logged_i2c :: "i2c_device \<Rightarrow> transaction list i2c" where
  "logged_i2c dev =
     \<lparr>i2_write = (\<lambda>addr data log.
        (iv_write dev (log @ [BusWrite addr data]), log @ [BusWrite addr data])),
      i2_read = (\<lambda>addr n log.
        (reply_bytes n (iv_reply dev (log @ [BusRead addr n])), log @ [BusRead addr n])),
      i2_write_read = (\<lambda>addr data n log.
        (reply_bytes n (iv_reply dev (log @ [BusWriteRead addr data n])), log @ [BusWriteRead addr data n]))\<rparr>"

text \<open>What the drivers rely on: a read that succeeds fills the buffer.\<close>

locale i2c_bus =
  fixes bus :: "'s i2c"
  assumes read_length: "i2_read bus addr n s = (Inr bs, t) \<Longrightarrow> length bs = n"
    and write_read_length: "i2_write_read bus addr data n s = (Inr bs, t) \<Longrightarrow> length bs = n"
begin

lemma write_read_one: "i2_write_read bus addr data 1 s = (Inr bs, t) \<Longrightarrow> \<exists>b. bs = [b]"
  using write_read_length [of addr data 1 s bs t] by (cases bs) auto

lemma write_read_two:
  assumes "i2_write_read bus addr data 2 s = (Inr bs, t)"
  shows "\<exists>a b. bs = [a, b]"
proof -
  have "length bs = 2" using write_read_length [OF assms] .
  then show ?thesis by (cases bs; cases "tl bs") auto
qed

end

lemma with_exact_length: "with_response (exact_length n) r = (Inr bs, t) \<Longrightarrow> length bs = n"
  by (auto simp: with_response_def exact_length_def split: prod.splits sum.splits if_splits)

interpretation raw_bus: i2c_bus "raw_i2c env"
  by unfold_locales (auto simp: raw_i2c_def i2c_read_def i2c_write_read_def dest: with_exact_length)

lemma reply_bytes_length: "reply_bytes n r = Inr bs \<Longrightarrow> length bs = n"
  by (auto simp: reply_bytes_def split: sum.splits)

interpretation logged_bus: i2c_bus "logged_i2c dev"
  by unfold_locales (auto simp: logged_i2c_def dest: reply_bytes_length)

end
