(* ===== verification/Units.thy ===== *)
theory Units
  imports Floats
begin

text \<open>
  Quantities with a unit, \<open>types/voltage.rs\<close> and \<open>types/ratio.rs\<close>: integers of 64 bits in microvolts
  and in parts per million, here the integers themselves. Casts of floats truncate and saturate.
\<close>

definition i64_of_rat :: "rat \<Rightarrow> int" where
  "i64_of_rat x = saturate (- (2 ^ 63)) (2 ^ 63 - 1) (trunc_rat x)"

text \<open>Division that rounds towards zero.\<close>

definition trunc_div :: "int \<Rightarrow> int \<Rightarrow> int" where
  "trunc_div a b = sgn a * sgn b * (\<bar>a\<bar> div \<bar>b\<bar>)"

type_synonym Voltage = int

definition Voltage_from_mv :: "int \<Rightarrow> Voltage" where
  "Voltage_from_mv mv = mv * 1000"

definition Voltage_from_volts :: "rat \<Rightarrow> Voltage" where
  "Voltage_from_volts volts = i64_of_rat (f32 (volts * 1000000))"

definition Voltage_mv :: "Voltage \<Rightarrow> int" where
  "Voltage_mv v = sint (of_int (trunc_div v 1000) :: 32 word)"

definition Voltage_volts :: "Voltage \<Rightarrow> rat" where
  "Voltage_volts v = f32 (f32 (of_int v) / 1000000)"

type_synonym Ratio = int

definition round_to_i64 :: "rat \<Rightarrow> int" where
  "round_to_i64 x = (if 0 \<le> x then i64_of_rat (f32 (x + 1 / 2)) else i64_of_rat (f32 (x - 1 / 2)))"

definition Ratio_from_percent :: "rat \<Rightarrow> Ratio" where
  "Ratio_from_percent percent = round_to_i64 (f32 (percent * 10000))"

definition Ratio_from_factor :: "rat \<Rightarrow> Ratio" where
  "Ratio_from_factor factor = round_to_i64 (f32 (factor * 1000000))"

definition Ratio_percent :: "Ratio \<Rightarrow> rat" where
  "Ratio_percent r = f32 (f32 (of_int r) / 10000)"

definition Ratio_factor :: "Ratio \<Rightarrow> rat" where
  "Ratio_factor r = f32 (f32 (of_int r) / 1000000)"

lemma f32_Voltage_volts [simp]: "f32 (Voltage_volts v) = Voltage_volts v"
  by (simp add: Voltage_volts_def)

lemma f32_Ratio_factor [simp]: "f32 (Ratio_factor r) = Ratio_factor r"
  by (simp add: Ratio_factor_def)

end
