(* ===== verification/Tps546.thy ===== *)
theory Tps546
  imports Pmbus I2c_Bus Units
begin

text \<open>
  The driver of the TPS546 power converter, \<open>peripheral/tps546.rs\<close>, over any I2C bus. The state is
  that of the bus with the cached \<open>VOUT_MODE\<close>; the configuration never changes and is an argument.
  Log messages are left out, the reads made for them are not. Errors of the voltage encoding keep
  their cause.
\<close>

subsection \<open>Configuration, errors, state\<close>

definition TPS546_I2C_ADDR :: u8 where
  "TPS546_I2C_ADDR = 0x24"

definition DEVICE_ID1 :: bytes where
  "DEVICE_ID1 = [0x54, 0x49, 0x54, 0x6b, 0x24, 0x41]"

definition DEVICE_ID2 :: bytes where
  "DEVICE_ID2 = [0x54, 0x49, 0x54, 0x6d, 0x24, 0x41]"

definition DEVICE_ID3 :: bytes where
  "DEVICE_ID3 = [0x54, 0x49, 0x54, 0x6d, 0x24, 0x62]"

record Tps546Config =
  tc_phase :: u8
  tc_frequency_switch_khz :: int
  tc_vin_on :: Voltage
  tc_vin_off :: Voltage
  tc_vin_uv_warn_limit :: Voltage
  tc_vin_ov_fault_limit :: Voltage
  tc_vin_ov_fault_response :: u8
  tc_vout_scale_loop :: rat
  tc_vout_min :: Voltage
  tc_vout_max :: Voltage
  tc_vout_command :: Voltage
  tc_vout_ov_fault_limit :: Ratio
  tc_vout_ov_warn_limit :: Ratio
  tc_vout_margin_high :: Ratio
  tc_vout_margin_low :: Ratio
  tc_vout_uv_warn_limit :: Ratio
  tc_vout_uv_fault_limit :: Ratio
  tc_iout_oc_warn_limit :: rat
  tc_iout_oc_fault_limit :: rat
  tc_iout_oc_fault_response :: u8
  tc_ot_warn_limit :: int
  tc_ot_fault_limit :: int
  tc_ot_fault_response :: u8
  tc_ton_delay :: int
  tc_ton_rise :: int
  tc_ton_max_fault_limit :: int
  tc_ton_max_fault_response :: u8
  tc_toff_delay :: int
  tc_toff_fall :: int
  tc_pin_detect_override :: u16

datatype tps546_error =
  BusFailed hw_error
| DeviceIdMismatch
| VoltageOutOfRange rat rat rat
| FaultDetected string
| OperationNotAccepted u8 u8
| VoltageEncoding PMBusError

record 's tps546 =
  tp_i2c :: 's
  tp_cached_vout_mode :: "u8 option"

definition Tps546_new :: "'s \<Rightarrow> 's tps546" where
  "Tps546_new i2c = \<lparr>tp_i2c = i2c, tp_cached_vout_mode = None\<rparr>"

type_synonym ('s, 'a) tps546_op = "'s tps546 \<Rightarrow> (tps546_error + 'a) \<times> 's tps546"

abbreviation tps_fail :: "tps546_error \<Rightarrow> ('s, 'a) tps546_op" where
  "tps_fail e \<equiv> \<lambda>s. (Inl e, s)"

abbreviation tps_give :: "'a \<Rightarrow> ('s, 'a) tps546_op" where
  "tps_give a \<equiv> \<lambda>s. (Inr a, s)"

subsection \<open>Register access\<close>

definition on_bus :: "('s \<Rightarrow> (hw_error + 'a) \<times> 's) \<Rightarrow> ('a \<Rightarrow> 'b) \<Rightarrow> ('s, 'b) tps546_op" where
  "on_bus f g s =
     (case f (tp_i2c s) of
        (Inl e, i2c) \<Rightarrow> (Inl (BusFailed e), s\<lparr>tp_i2c := i2c\<rparr>)
      | (Inr a, i2c) \<Rightarrow> (Inr (g a), s\<lparr>tp_i2c := i2c\<rparr>))"

definition read_byte :: "'s i2c \<Rightarrow> PmbusCommand \<Rightarrow> ('s, u8) tps546_op" where
  "read_byte bus command =
     on_bus (i2_write_read bus TPS546_I2C_ADDR [PmbusCommand_as_u8 command] 1) (\<lambda>data. data ! 0)"

definition write_byte :: "'s i2c \<Rightarrow> PmbusCommand \<Rightarrow> u8 \<Rightarrow> ('s, unit) tps546_op" where
  "write_byte bus command data =
     on_bus (i2_write bus TPS546_I2C_ADDR [PmbusCommand_as_u8 command, data]) (\<lambda>_. ())"

definition read_word :: "'s i2c \<Rightarrow> PmbusCommand \<Rightarrow> ('s, u16) tps546_op" where
  "read_word bus command =
     on_bus (i2_write_read bus TPS546_I2C_ADDR [PmbusCommand_as_u8 command] 2)
       (\<lambda>data. u16_from_le (data ! 0) (data ! 1))"

definition write_word :: "'s i2c \<Rightarrow> PmbusCommand \<Rightarrow> u16 \<Rightarrow> ('s, unit) tps546_op" where
  "write_word bus command data =
     on_bus (i2_write bus TPS546_I2C_ADDR (PmbusCommand_as_u8 command # u16_to_le data)) (\<lambda>_. ())"

definition read_block :: "'s i2c \<Rightarrow> PmbusCommand \<Rightarrow> nat \<Rightarrow> ('s, bytes) tps546_op" where
  "read_block bus command n =
     on_bus (i2_write_read bus TPS546_I2C_ADDR [PmbusCommand_as_u8 command] (n + 1)) (\<lambda>buffer. take n (drop 1 buffer))"

subsection \<open>Number formats\<close>

definition slinear11_to_int :: "u16 \<Rightarrow> int" where
  "slinear11_to_int v = saturate (- (2 ^ 31)) (2 ^ 31 - 1) (trunc_rat (linear11_to_float v))"

definition int_to_slinear11 :: "int \<Rightarrow> u16" where
  "int_to_slinear11 v = linear11_from_float (f32 (of_int v))"

definition get_vout_mode :: "'s i2c \<Rightarrow> ('s, u8) tps546_op" where
  "get_vout_mode bus s =
     (case tp_cached_vout_mode s of
        Some cached \<Rightarrow> (Inr cached, s)
      | None \<Rightarrow>
          and_then (read_byte bus VoutMode)
            (\<lambda>vout_mode s. (Inr vout_mode, s\<lparr>tp_cached_vout_mode := Some vout_mode\<rparr>)) s)"

definition encode_voltage :: "'s i2c \<Rightarrow> rat \<Rightarrow> ('s, u16) tps546_op" where
  "encode_voltage bus volts =
     and_then (get_vout_mode bus) (\<lambda>vout_mode.
       case encode_linear16 vout_mode volts of
         Inl e \<Rightarrow> tps_fail (VoltageEncoding e)
       | Inr w \<Rightarrow> tps_give w)"

definition decode_voltage :: "'s i2c \<Rightarrow> u16 \<Rightarrow> ('s, rat) tps546_op" where
  "decode_voltage bus v = and_then (get_vout_mode bus) (\<lambda>vout_mode. tps_give (decode_linear16 vout_mode v))"

subsection \<open>Initialisation\<close>

definition verify_device_id :: "'s i2c \<Rightarrow> ('s, unit) tps546_op" where
  "verify_device_id bus =
     and_then (on_bus (i2_write_read bus TPS546_I2C_ADDR [PmbusCommand_as_u8 IcDeviceId] 7) (\<lambda>id_data. id_data))
       (\<lambda>id_data.
          let device_id = take 6 (drop 1 id_data)
          in if device_id \<noteq> DEVICE_ID1 \<and> device_id \<noteq> DEVICE_ID2 \<and> device_id \<noteq> DEVICE_ID3
             then tps_fail DeviceIdMismatch else tps_give ())"

text \<open>The writes of \<open>write_config\<close>; a voltage or ratio is encoded under \<open>VOUT_MODE\<close> before it is written.\<close>

datatype config_write =
  ConfigByte PmbusCommand u8
| ConfigWord PmbusCommand u16
| ConfigVoltage PmbusCommand rat

fun config_step :: "'s i2c \<Rightarrow> config_write \<Rightarrow> ('s, unit) tps546_op" where
  "config_step bus (ConfigByte command b) = write_byte bus command b"
| "config_step bus (ConfigWord command w) = write_word bus command w"
| "config_step bus (ConfigVoltage command volts) = and_then (encode_voltage bus volts) (write_word bus command)"

fun config_steps :: "'s i2c \<Rightarrow> config_write list \<Rightarrow> ('s, unit) tps546_op" where
  "config_steps bus [] = tps_give ()"
| "config_steps bus (w # ws) = and_then (config_step bus w) (\<lambda>_. config_steps bus ws)"

definition config_input_writes :: "Tps546Config \<Rightarrow> config_write list" where
  "config_input_writes c =
     [ConfigByte Phase (tc_phase c),
      ConfigWord FrequencySwitch (int_to_slinear11 (tc_frequency_switch_khz c))] @
     (if 0 < Voltage_volts (tc_vin_uv_warn_limit c)
      then [ConfigWord VinUvWarnLimit (linear11_from_float (Voltage_volts (tc_vin_uv_warn_limit c)))] else []) @
     [ConfigWord VinOn (linear11_from_float (Voltage_volts (tc_vin_on c))),
      ConfigWord VinOff (linear11_from_float (Voltage_volts (tc_vin_off c))),
      ConfigWord VinOvFaultLimit (linear11_from_float (Voltage_volts (tc_vin_ov_fault_limit c))),
      ConfigByte VinOvFaultResponse (tc_vin_ov_fault_response c)]"

definition config_output_writes :: "Tps546Config \<Rightarrow> config_write list" where
  "config_output_writes c =
     [ConfigWord VoutScaleLoop (linear11_from_float (tc_vout_scale_loop c)),
      ConfigVoltage VoutCommand (Voltage_volts (tc_vout_command c)),
      ConfigVoltage VoutMax (Voltage_volts (tc_vout_max c)),
      ConfigVoltage VoutMin (Voltage_volts (tc_vout_min c)),
      ConfigVoltage VoutOvFaultLimit (Ratio_factor (tc_vout_ov_fault_limit c)),
      ConfigVoltage VoutOvWarnLimit (Ratio_factor (tc_vout_ov_warn_limit c)),
      ConfigVoltage VoutMarginHigh (Ratio_factor (tc_vout_margin_high c)),
      ConfigVoltage VoutMarginLow (Ratio_factor (tc_vout_margin_low c)),
      ConfigVoltage VoutUvWarnLimit (Ratio_factor (tc_vout_uv_warn_limit c)),
      ConfigVoltage VoutUvFaultLimit (Ratio_factor (tc_vout_uv_fault_limit c))]"

definition config_protection_writes :: "Tps546Config \<Rightarrow> config_write list" where
  "config_protection_writes c =
     [ConfigWord IoutOcWarnLimit (linear11_from_float (tc_iout_oc_warn_limit c)),
      ConfigWord IoutOcFaultLimit (linear11_from_float (tc_iout_oc_fault_limit c)),
      ConfigByte IoutOcFaultResponse (tc_iout_oc_fault_response c),
      ConfigWord OtWarnLimit (int_to_slinear11 (tc_ot_warn_limit c)),
      ConfigWord OtFaultLimit (int_to_slinear11 (tc_ot_fault_limit c)),
      ConfigByte OtFaultResponse (tc_ot_fault_response c)]"

definition config_timing_writes :: "Tps546Config \<Rightarrow> config_write list" where
  "config_timing_writes c =
     [ConfigWord TonDelay (int_to_slinear11 (tc_ton_delay c)),
      ConfigWord TonRise (int_to_slinear11 (tc_ton_rise c)),
      ConfigWord TonMaxFaultLimit (int_to_slinear11 (tc_ton_max_fault_limit c)),
      ConfigByte TonMaxFaultResponse (tc_ton_max_fault_response c),
      ConfigWord ToffDelay (int_to_slinear11 (tc_toff_delay c)),
      ConfigWord ToffFall (int_to_slinear11 (tc_toff_fall c)),
      ConfigWord PinDetectOverride (tc_pin_detect_override c)]"

definition config_writes :: "Tps546Config \<Rightarrow> config_write list" where
  "config_writes c = config_input_writes c @ config_output_writes c @ config_protection_writes c @ config_timing_writes c"

definition write_config :: "'s i2c \<Rightarrow> Tps546Config \<Rightarrow> ('s, unit) tps546_op" where
  "write_config bus c = config_steps bus (config_writes c)"

text \<open>\<open>OnOffConfig\<close> with the flags \<open>DELAY\<close>, \<open>POLARITY\<close>, \<open>CMD\<close> and \<open>PU\<close>.\<close>

definition init_on_off_config :: u8 where
  "init_on_off_config = 0x01 OR 0x02 OR 0x08 OR 0x10"

definition tps546_init :: "'s i2c \<Rightarrow> Tps546Config \<Rightarrow> ('s, unit) tps546_op" where
  "tps546_init bus c =
     and_then (verify_device_id bus) (\<lambda>_.
     and_then (write_byte bus Operation (Operation_as_u8 OffImmediate)) (\<lambda>_.
     and_then (write_byte bus OnOffConfig init_on_off_config) (\<lambda>_.
     and_then (read_byte bus VoutMode) (\<lambda>_.
     and_then (write_config bus c) (\<lambda>_.
     and_then (read_word bus StatusWord) (\<lambda>_. tps_give ()))))))"

definition clear_faults :: "'s i2c \<Rightarrow> ('s, unit) tps546_op" where
  "clear_faults bus = on_bus (i2_write bus TPS546_I2C_ADDR [PmbusCommand_as_u8 ClearFaults]) (\<lambda>_. ())"

subsection \<open>Output\<close>

definition set_vout_target :: "'s i2c \<Rightarrow> Tps546Config \<Rightarrow> Voltage \<Rightarrow> ('s, unit) tps546_op" where
  "set_vout_target bus c voltage =
     (if voltage < tc_vout_min c \<or> tc_vout_max c < voltage
      then tps_fail (VoltageOutOfRange (Voltage_volts voltage) (Voltage_volts (tc_vout_min c)) (Voltage_volts (tc_vout_max c)))
      else and_then (encode_voltage bus (Voltage_volts voltage)) (write_word bus VoutCommand))"

definition get_vout_target :: "'s i2c \<Rightarrow> ('s, Voltage) tps546_op" where
  "get_vout_target bus =
     and_then (read_word bus VoutCommand) (\<lambda>v.
     and_then (decode_voltage bus v) (\<lambda>volts. tps_give (Voltage_from_volts volts)))"

definition write_operation :: "'s i2c \<Rightarrow> Operation \<Rightarrow> ('s, unit) tps546_op" where
  "write_operation bus op =
     and_then (write_byte bus Operation (Operation_as_u8 op)) (\<lambda>_.
     and_then (read_byte bus Operation) (\<lambda>readback.
       if readback \<noteq> Operation_as_u8 op then tps_fail (OperationNotAccepted (Operation_as_u8 op) readback)
       else tps_give ()))"

definition enable_output :: "'s i2c \<Rightarrow> ('s, unit) tps546_op" where
  "enable_output bus = write_operation bus On"

definition disable_output :: "'s i2c \<Rightarrow> ('s, unit) tps546_op" where
  "disable_output bus = write_operation bus OffImmediate"

definition output_enabled :: "'s i2c \<Rightarrow> ('s, bool) tps546_op" where
  "output_enabled bus =
     and_then (read_byte bus Operation) (\<lambda>op. tps_give (op AND Operation_as_u8 On \<noteq> 0))"

subsection \<open>Measurements\<close>

definition get_vin :: "'s i2c \<Rightarrow> ('s, Voltage) tps546_op" where
  "get_vin bus = and_then (read_word bus ReadVin) (\<lambda>v. tps_give (Voltage_from_volts (linear11_to_float v)))"

definition get_vout :: "'s i2c \<Rightarrow> ('s, Voltage) tps546_op" where
  "get_vout bus =
     and_then (read_word bus ReadVout) (\<lambda>v.
     and_then (decode_voltage bus v) (\<lambda>volts. tps_give (Voltage_from_volts volts)))"

definition get_iout :: "'s i2c \<Rightarrow> ('s, u32) tps546_op" where
  "get_iout bus =
     and_then (write_byte bus Phase 0xff) (\<lambda>_.
     and_then (read_word bus ReadIout) (\<lambda>v.
       tps_give (of_int (saturate 0 (2 ^ 32 - 1) (trunc_rat (f32 (linear11_to_float v * 1000)))))))"

definition get_temperature :: "'s i2c \<Rightarrow> ('s, int) tps546_op" where
  "get_temperature bus = and_then (read_word bus ReadTemperature1) (\<lambda>v. tps_give (slinear11_to_int v))"

text \<open>The product is one of 64 bits; a negative voltage would be extended by its sign.\<close>

definition get_power :: "'s i2c \<Rightarrow> ('s, u32) tps546_op" where
  "get_power bus =
     and_then (get_vout bus) (\<lambda>vout.
     and_then (get_iout bus) (\<lambda>iout_ma.
       tps_give (ucast ((of_int (Voltage_mv vout) * ucast iout_ma :: u64) div 1000))))"

subsection \<open>Status\<close>

fun join_with :: "string \<Rightarrow> string list \<Rightarrow> string" where
  "join_with sep [] = []"
| "join_with sep [x] = x"
| "join_with sep (x # xs) = x @ sep @ join_with sep xs"

text \<open>
  One paragraph of \<open>check_status\<close>: when the summary has the flag, the register is read, and a
  critical value is reported with its texts.
\<close>

definition status_detail ::
    "'s i2c \<Rightarrow> bool \<Rightarrow> PmbusCommand \<Rightarrow> (u8 \<Rightarrow> bool) \<Rightarrow> string \<Rightarrow> (u8 \<Rightarrow> string list) \<Rightarrow> ('s, string list) tps546_op" where
  "status_detail bus flagged command critical title decode =
     (if flagged
      then and_then (read_byte bus command) (\<lambda>status.
        tps_give (if critical status then [title @ join_with '', '' (decode status)] else []))
      else tps_give [])"

definition vout_critical :: "u8 \<Rightarrow> bool" where
  "vout_critical status \<longleftrightarrow> status AND (0x80 OR 0x10) \<noteq> 0"

definition iout_critical :: "u8 \<Rightarrow> bool" where
  "iout_critical status \<longleftrightarrow> has_flag status 0x80"

definition input_critical :: "u8 \<Rightarrow> bool" where
  "input_critical status \<longleftrightarrow> status AND (0x08 OR 0x10 OR 0x80) \<noteq> 0"

definition temperature_critical :: "u8 \<Rightarrow> bool" where
  "temperature_critical status \<longleftrightarrow> has_flag status 0x80"

text \<open>A read whose failure is ignored.\<close>

definition try_op :: "('s, 'a) tps546_op \<Rightarrow> ('s, unit) tps546_op" where
  "try_op f s = (Inr (), snd (f s))"

definition read_diagnostics :: "'s i2c \<Rightarrow> ('s, unit) tps546_op" where
  "read_diagnostics bus =
     and_then (try_op (read_byte bus StatusVout)) (\<lambda>_.
     and_then (try_op (read_byte bus StatusIout)) (\<lambda>_.
     and_then (try_op (read_byte bus StatusInput)) (\<lambda>_.
     and_then (try_op (read_byte bus StatusTemperature)) (\<lambda>_.
     and_then (try_op (read_byte bus StatusCml)) (\<lambda>_.
     and_then (try_op (get_vout bus)) (\<lambda>_.
     and_then (try_op (get_iout bus)) (\<lambda>_.
     and_then (try_op (get_vin bus)) (\<lambda>_.
     try_op (get_temperature bus)))))))))"

text \<open>The chip being off is a fault only while it is commanded on.\<close>

definition off_detail :: "'s i2c \<Rightarrow> bool \<Rightarrow> ('s, string list) tps546_op" where
  "off_detail bus flagged =
     (if flagged
      then and_then (output_enabled bus) (\<lambda>enabled.
        if enabled then and_then (read_diagnostics bus) (\<lambda>_. tps_give [''Power controller is OFF'']) else tps_give [])
      else tps_give [])"

definition check_status :: "'s i2c \<Rightarrow> ('s, unit) tps546_op" where
  "check_status bus =
     and_then (read_word bus StatusWord) (\<lambda>status.
       if status = 0 then tps_give ()
       else
         and_then (status_detail bus (has_flag status 0x8000) StatusVout vout_critical ''VOUT fault: '' decode_status_vout) (\<lambda>vout.
         and_then (status_detail bus (has_flag status 0x4000) StatusIout iout_critical ''IOUT overcurrent: '' decode_status_iout) (\<lambda>iout.
         and_then (status_detail bus (has_flag status 0x2000) StatusInput input_critical ''INPUT fault: '' decode_status_input) (\<lambda>input.
         and_then (status_detail bus (has_flag status 0x0004) StatusTemperature temperature_critical ''Overtemperature: '' decode_status_temp) (\<lambda>temp.
         and_then (status_detail bus (has_flag status 0x0002) StatusCml (\<lambda>_. True) ''CML fault: '' decode_status_cml) (\<lambda>cml.
         and_then (off_detail bus (has_flag status 0x0040)) (\<lambda>off.
           let critical_faults = vout @ iout @ input @ temp @ cml @ off
           in if critical_faults \<noteq> [] then tps_fail (FaultDetected (join_with ''; '' critical_faults)) else tps_give ())))))))"

subsection \<open>Dump of the configuration\<close>

datatype dump_read = DumpByte PmbusCommand | DumpWord PmbusCommand | DumpVoltage PmbusCommand

fun dump_step :: "'s i2c \<Rightarrow> dump_read \<Rightarrow> ('s, unit) tps546_op" where
  "dump_step bus (DumpByte command) = and_then (read_byte bus command) (\<lambda>_. tps_give ())"
| "dump_step bus (DumpWord command) = and_then (read_word bus command) (\<lambda>_. tps_give ())"
| "dump_step bus (DumpVoltage command) =
     and_then (read_word bus command) (\<lambda>v. and_then (decode_voltage bus v) (\<lambda>_. tps_give ()))"

fun dump_steps :: "'s i2c \<Rightarrow> dump_read list \<Rightarrow> ('s, unit) tps546_op" where
  "dump_steps bus [] = tps_give ()"
| "dump_steps bus (r # rs) = and_then (dump_step bus r) (\<lambda>_. dump_steps bus rs)"

definition dump_voltage_reads :: "dump_read list" where
  "dump_voltage_reads =
     [DumpWord VinOn, DumpWord VinOff, DumpWord VinOvFaultLimit, DumpWord VinUvWarnLimit, DumpByte VinOvFaultResponse,
      DumpVoltage VoutMax, DumpVoltage VoutOvFaultLimit, DumpVoltage VoutOvWarnLimit, DumpVoltage VoutMarginHigh,
      DumpVoltage VoutCommand, DumpVoltage VoutMarginLow, DumpVoltage VoutUvWarnLimit, DumpVoltage VoutUvFaultLimit,
      DumpVoltage VoutMin]"

definition dump_limit_reads :: "dump_read list" where
  "dump_limit_reads =
     [DumpWord IoutOcWarnLimit, DumpWord IoutOcFaultLimit, DumpByte IoutOcFaultResponse,
      DumpWord OtWarnLimit, DumpWord OtFaultLimit, DumpByte OtFaultResponse,
      DumpWord ReadVin, DumpVoltage ReadVout, DumpWord ReadIout, DumpWord ReadTemperature1]"

definition dump_operation_reads :: "dump_read list" where
  "dump_operation_reads =
     [DumpWord TonDelay, DumpWord TonRise, DumpWord TonMaxFaultLimit, DumpByte TonMaxFaultResponse,
      DumpWord ToffDelay, DumpWord ToffFall,
      DumpByte Phase, DumpWord StackConfig, DumpByte SyncConfig, DumpWord Interleave, DumpByte Capability,
      DumpByte Operation, DumpByte OnOffConfig]"

definition dump_reads :: "dump_read list" where
  "dump_reads = dump_voltage_reads @ dump_limit_reads @ dump_operation_reads"

definition dump_status_reads :: "u16 \<Rightarrow> dump_read list" where
  "dump_status_reads status =
     (if has_flag status 0x8000 then [DumpByte StatusVout] else []) @
     (if has_flag status 0x4000 then [DumpByte StatusIout] else []) @
     (if has_flag status 0x2000 then [DumpByte StatusInput] else []) @
     (if has_flag status 0x0004 then [DumpByte StatusTemperature] else []) @
     (if has_flag status 0x0002 then [DumpByte StatusCml] else [])"

definition dump_configuration :: "'s i2c \<Rightarrow> ('s, unit) tps546_op" where
  "dump_configuration bus =
     and_then (dump_steps bus dump_reads) (\<lambda>_.
     and_then (try_op (read_block bus CompensationConfig 5)) (\<lambda>_.
     and_then (read_word bus StatusWord) (\<lambda>status. dump_steps bus (dump_status_reads status))))"

end
