(* ===== verification/Tps546_Props.thy ===== *)
theory Tps546_Props
  imports Tps546
begin

text \<open>
  What the TPS546 driver does to a device whose transactions are logged: the order and content of
  its writes, the set point, and the verdict of the status check on given registers.
\<close>

subsection \<open>Logged operations\<close>

text \<open>An operation that only adds transactions with a property to the log.\<close>

definition appends :: "(transaction \<Rightarrow> bool) \<Rightarrow> (transaction list, 'a) tps546_op \<Rightarrow> bool" where
  "appends Q f \<longleftrightarrow> (\<forall>s. \<exists>ts. tp_i2c (snd (f s)) = tp_i2c s @ ts \<and> list_all Q ts)"

named_theorems appends_intros

lemma appends_give [appends_intros]: "appends Q (tps_give a)"
  by (simp add: appends_def)

lemma appends_fail [appends_intros]: "appends Q (tps_fail e)"
  by (simp add: appends_def)

lemma appends_and_then [appends_intros]:
  assumes "appends Q f" and "\<And>a. appends Q (g a)"
  shows "appends Q (and_then f g)"
  unfolding appends_def
proof
  fix s
  obtain r t where f: "f s = (r, t)" by fastforce
  obtain ts where ts: "tp_i2c t = tp_i2c s @ ts" "list_all Q ts" using assms(1) f by (metis appends_def snd_conv)
  show "\<exists>ts. tp_i2c (snd (and_then f g s)) = tp_i2c s @ ts \<and> list_all Q ts"
  proof (cases r)
    case (Inl e)
    then show ?thesis using f ts by (auto simp: and_then_def)
  next
    case (Inr a)
    obtain us where "tp_i2c (snd (g a t)) = tp_i2c t @ us" "list_all Q us" using assms(2) by (metis appends_def)
    then show ?thesis using f ts Inr by (intro exI [of _ "ts @ us"]) (simp add: and_then_def)
  qed
qed

lemma appends_if [appends_intros]: "(b \<Longrightarrow> appends Q f) \<Longrightarrow> (\<not> b \<Longrightarrow> appends Q g) \<Longrightarrow> appends Q (if b then f else g)"
  by simp

lemma appends_try [appends_intros]: "appends Q f \<Longrightarrow> appends Q (try_op f)"
  by (simp add: appends_def try_op_def)

lemma appends_on_bus:
  assumes "\<And>log. \<exists>t. snd (f log) = log @ [t] \<and> Q t"
  shows "appends Q (on_bus f g)"
  unfolding appends_def
proof
  fix s :: "transaction list tps546"
  obtain t where "snd (f (tp_i2c s)) = tp_i2c s @ [t]" "Q t" using assms by blast
  then show "\<exists>ts. tp_i2c (snd (on_bus f g s)) = tp_i2c s @ ts \<and> list_all Q ts"
    by (intro exI [of _ "[t]"]) (auto simp: on_bus_def split: prod.split sum.split)
qed

lemma appends_writes [appends_intros]:
  "Q (BusWrite TPS546_I2C_ADDR [PmbusCommand_as_u8 c, b]) \<Longrightarrow> appends Q (write_byte (logged_i2c dev) c b)"
  "Q (BusWrite TPS546_I2C_ADDR (PmbusCommand_as_u8 c # u16_to_le w)) \<Longrightarrow> appends Q (write_word (logged_i2c dev) c w)"
  unfolding write_byte_def write_word_def by (auto intro!: appends_on_bus simp: logged_i2c_def)

text \<open>Reads are always allowed.\<close>

definition allows_reads :: "(transaction \<Rightarrow> bool) \<Rightarrow> bool" where
  "allows_reads Q \<longleftrightarrow> (\<forall>addr data n. Q (BusWriteRead addr data n))"

lemma appends_reads [appends_intros]:
  assumes "allows_reads Q"
  shows "appends Q (read_byte (logged_i2c dev) c)" and "appends Q (read_word (logged_i2c dev) c)"
    and "appends Q (read_block (logged_i2c dev) c n)"
  unfolding read_byte_def read_word_def read_block_def
  using assms by (auto intro!: appends_on_bus simp: logged_i2c_def allows_reads_def)

lemma appends_get_vout_mode [appends_intros]:
  assumes "allows_reads Q"
  shows "appends Q (get_vout_mode (logged_i2c dev))"
proof -
  have "appends Q (and_then (read_byte (logged_i2c dev) VoutMode)
      (\<lambda>vout_mode s. (Inr vout_mode, s\<lparr>tp_cached_vout_mode := Some vout_mode\<rparr>)))"
    by (rule appends_and_then [OF appends_reads(1) [OF assms]]) (simp add: appends_def)
  then show ?thesis by (auto simp: appends_def get_vout_mode_def split: option.split)
qed

lemma appends_encode_voltage [appends_intros]:
  "allows_reads Q \<Longrightarrow> appends Q (encode_voltage (logged_i2c dev) volts)"
  unfolding encode_voltage_def
  by (rule appends_and_then [OF appends_get_vout_mode]) (auto intro: appends_intros split: sum.split)

lemma appends_decode_voltage [appends_intros]:
  "allows_reads Q \<Longrightarrow> appends Q (decode_voltage (logged_i2c dev) w)"
  unfolding decode_voltage_def by (intro appends_intros)

subsection \<open>Bring-up\<close>

text \<open>No write but the one that switches the output off touches \<open>OPERATION\<close>.\<close>

fun keeps_off :: "transaction \<Rightarrow> bool" where
  "keeps_off (BusWrite addr (c # data)) = (c = PmbusCommand_as_u8 Operation \<longrightarrow> data = [Operation_as_u8 OffImmediate])"
| "keeps_off _ = True"

lemma allows_reads_keeps_off: "allows_reads keeps_off"
  by (simp add: allows_reads_def)

fun config_command :: "config_write \<Rightarrow> PmbusCommand" where
  "config_command (ConfigByte c _) = c"
| "config_command (ConfigWord c _) = c"
| "config_command (ConfigVoltage c _) = c"

lemma appends_config_steps:
  "list_all (\<lambda>w. PmbusCommand_as_u8 (config_command w) \<noteq> 1) ws \<Longrightarrow>
     appends keeps_off (config_steps (logged_i2c dev) ws)"
proof (induction ws)
  case (Cons w ws)
  have "appends keeps_off (config_step (logged_i2c dev) w)"
    using Cons.prems by (cases w) (auto intro!: appends_intros simp: allows_reads_keeps_off)
  then show ?case using Cons by (auto intro: appends_and_then)
qed (simp add: appends_give)

lemma config_writes_commands:
  "list_all (\<lambda>w. PmbusCommand_as_u8 (config_command w) \<noteq> 1) (config_writes c)"
  by (simp add: config_writes_def config_input_writes_def config_output_writes_def
      config_protection_writes_def config_timing_writes_def)

lemma verify_device_id_logged:
  "verify_device_id (logged_i2c dev) s =
     (let log = tp_i2c s @ [BusWriteRead 0x24 [0xad] 7]
      in (case iv_reply dev log of
            Inl e \<Rightarrow> Inl (BusFailed e)
          | Inr f \<Rightarrow> if map f [1..<7] \<in> {DEVICE_ID1, DEVICE_ID2, DEVICE_ID3} then Inr () else Inl DeviceIdMismatch,
          s\<lparr>tp_i2c := log\<rparr>))"
proof -
  have "take 6 (drop 1 (map f [0..<7])) = map f [1..<7]" for f :: "nat \<Rightarrow> u8"
    by (simp add: take_map drop_map)
  then show ?thesis
    by (simp add: verify_device_id_def and_then_def on_bus_def logged_i2c_def reply_bytes_def TPS546_I2C_ADDR_def Let_def
        split: sum.split)
qed

text \<open>What follows the order to switch off.\<close>

definition init_rest :: "'s i2c \<Rightarrow> Tps546Config \<Rightarrow> ('s, unit) tps546_op" where
  "init_rest bus c =
     and_then (write_byte bus OnOffConfig init_on_off_config) (\<lambda>_.
     and_then (read_byte bus VoutMode) (\<lambda>_.
     and_then (write_config bus c) (\<lambda>_.
     and_then (read_word bus StatusWord) (\<lambda>_. tps_give ()))))"

lemma tps546_init_rest:
  "tps546_init bus c =
     and_then (verify_device_id bus) (\<lambda>_.
     and_then (write_byte bus Operation (Operation_as_u8 OffImmediate)) (\<lambda>_. init_rest bus c))"
  by (simp add: tps546_init_def init_rest_def)

lemma appends_init_rest: "appends keeps_off (init_rest (logged_i2c dev) c)"
  unfolding init_rest_def write_config_def
  by (intro appends_intros appends_config_steps config_writes_commands allows_reads_keeps_off) simp

lemma write_byte_logged:
  "write_byte (logged_i2c dev) command b s =
     (let hist = tp_i2c s @ [BusWrite 0x24 [PmbusCommand_as_u8 command, b]]
      in (case iv_write dev hist of Inl e \<Rightarrow> Inl (BusFailed e) | Inr _ \<Rightarrow> Inr (), s\<lparr>tp_i2c := hist\<rparr>))"
  by (simp add: write_byte_def on_bus_def logged_i2c_def TPS546_I2C_ADDR_def Let_def split: sum.split)

lemma switched_off_first:
  "\<exists>ts. tp_i2c (snd (and_then (write_byte (logged_i2c dev) Operation (Operation_as_u8 OffImmediate))
        (\<lambda>_. init_rest (logged_i2c dev) c) s)) = tp_i2c s @ BusWrite 0x24 [0x01, 0x00] # ts \<and> list_all keeps_off ts"
proof -
  let ?hist = "tp_i2c s @ [BusWrite 0x24 [0x01, 0x00]]"
  show ?thesis
  proof (cases "iv_write dev ?hist")
    case (Inl e)
    then show ?thesis by (simp add: and_then_def write_byte_logged Let_def)
  next
    case (Inr u)
    obtain ts where "tp_i2c (snd (init_rest (logged_i2c dev) c (s\<lparr>tp_i2c := ?hist\<rparr>))) = ?hist @ ts" "list_all keeps_off ts"
      using appends_init_rest [of dev c] unfolding appends_def by (metis tps546.select_convs(1) tps546.surjective tps546.update_convs(1))
    then show ?thesis using Inr by (simp add: and_then_def write_byte_logged Let_def)
  qed
qed

lemma tps546_init_logged:
  fixes s :: "transaction list tps546"
  defines "hist \<equiv> tp_i2c s @ [BusWriteRead 0x24 [0xad] 7]"
  shows "case iv_reply dev hist of
      Inl e \<Rightarrow> tps546_init (logged_i2c dev) c s = (Inl (BusFailed e), s\<lparr>tp_i2c := hist\<rparr>)
    | Inr f \<Rightarrow>
        if map f [1..<7] \<notin> {DEVICE_ID1, DEVICE_ID2, DEVICE_ID3}
        then tps546_init (logged_i2c dev) c s = (Inl DeviceIdMismatch, s\<lparr>tp_i2c := hist\<rparr>)
        else \<exists>ts. tp_i2c (snd (tps546_init (logged_i2c dev) c s)) = hist @ BusWrite 0x24 [0x01, 0x00] # ts \<and>
          list_all keeps_off ts"
proof (cases "iv_reply dev hist")
  case (Inl e)
  then show ?thesis
    by (simp add: tps546_init_rest and_then_def [of "verify_device_id _"] verify_device_id_logged Let_def hist_def [symmetric])
next
  case (Inr f)
  have v: "verify_device_id (logged_i2c dev) s =
      (if map f [1..<7] \<in> {DEVICE_ID1, DEVICE_ID2, DEVICE_ID3} then Inr () else Inl DeviceIdMismatch, s\<lparr>tp_i2c := hist\<rparr>)"
    unfolding verify_device_id_logged Let_def hist_def [symmetric] Inr sum.case ..
  show ?thesis
  proof (cases "map f [1..<7] \<in> {DEVICE_ID1, DEVICE_ID2, DEVICE_ID3}")
    case False
    then have "verify_device_id (logged_i2c dev) s = (Inl DeviceIdMismatch, s\<lparr>tp_i2c := hist\<rparr>)" unfolding v by simp
    then have "tps546_init (logged_i2c dev) c s = (Inl DeviceIdMismatch, s\<lparr>tp_i2c := hist\<rparr>)"
      by (simp only: tps546_init_rest and_then_def [of "verify_device_id _"] prod.case sum.case)
    then show ?thesis unfolding Inr sum.case using False by simp
  next
    case True
    then have "verify_device_id (logged_i2c dev) s = (Inr (), s\<lparr>tp_i2c := hist\<rparr>)" unfolding v by simp
    then have init: "tps546_init (logged_i2c dev) c s =
        and_then (write_byte (logged_i2c dev) Operation (Operation_as_u8 OffImmediate))
          (\<lambda>_. init_rest (logged_i2c dev) c) (s\<lparr>tp_i2c := hist\<rparr>)"
      by (simp only: tps546_init_rest and_then_def [of "verify_device_id _"] prod.case sum.case)
    show ?thesis
      unfolding Inr sum.case init using True switched_off_first [of dev c "s\<lparr>tp_i2c := hist\<rparr>"] by simp
  qed
qed

subsection \<open>The set point\<close>

lemma encode_voltage_logged:
  assumes "encode_voltage (logged_i2c dev) volts s = (Inr w, t)"
  shows "\<exists>mode ts. tp_cached_vout_mode t = Some mode \<and> encode_linear16 mode volts = Inr w \<and>
    tp_i2c t = tp_i2c s @ ts \<and> list_all (\<lambda>u. \<exists>a d n. u = BusWriteRead a d n) ts"
proof -
  obtain mode u where m: "get_vout_mode (logged_i2c dev) s = (Inr mode, u)"
    and c: "(case encode_linear16 mode volts of Inl e \<Rightarrow> tps_fail (VoltageEncoding e) | Inr w \<Rightarrow> tps_give w) u = (Inr w, t)"
    using assms unfolding encode_voltage_def and_then_Inr_iff by blast
  have e: "encode_linear16 mode volts = Inr w" and t: "t = u"
    using c by (cases "encode_linear16 mode volts"; simp)+
  have "tp_cached_vout_mode u = Some mode"
    using m by (auto simp: get_vout_mode_def and_then_Inr_iff split: option.splits)
  moreover have "appends (\<lambda>u. \<exists>a d n. u = BusWriteRead a d n) (get_vout_mode (logged_i2c dev))"
    by (rule appends_get_vout_mode) (simp add: allows_reads_def)
  from this [unfolded appends_def, THEN spec, of s]
  have "\<exists>ts. tp_i2c u = tp_i2c s @ ts \<and> list_all (\<lambda>u. \<exists>a d n. u = BusWriteRead a d n) ts"
    by (simp only: m snd_conv)
  ultimately show ?thesis using e t by blast
qed

lemma set_vout_target_out_of_range:
  "voltage < tc_vout_min c \<or> tc_vout_max c < voltage \<Longrightarrow>
     set_vout_target bus c voltage s =
       (Inl (VoltageOutOfRange (Voltage_volts voltage) (Voltage_volts (tc_vout_min c)) (Voltage_volts (tc_vout_max c))), s)"
  by (simp add: set_vout_target_def)

lemma set_vout_target_written:
  assumes "set_vout_target (logged_i2c dev) c voltage s = (Inr (), t)"
  shows "tc_vout_min c \<le> voltage" and "voltage \<le> tc_vout_max c"
    and "\<exists>mode w ts. tp_cached_vout_mode t = Some mode \<and>
      tp_i2c t = tp_i2c s @ ts @ [BusWrite 0x24 (0x21 # u16_to_le w)] \<and>
      list_all (\<lambda>u. \<exists>a d n. u = BusWriteRead a d n) ts \<and>
      \<bar>decode_linear16 mode w - Voltage_volts voltage\<bar> \<le> 2 powi VoutMode_exponent mode / 2"
proof -
  show range: "tc_vout_min c \<le> voltage" "voltage \<le> tc_vout_max c"
    using assms by (auto simp: set_vout_target_def not_less [symmetric])
  obtain w u where w: "encode_voltage (logged_i2c dev) (Voltage_volts voltage) s = (Inr w, u)"
    and t: "write_word (logged_i2c dev) VoutCommand w u = (Inr (), t)"
    using assms range by (auto simp: set_vout_target_def and_then_Inr_iff)
  obtain mode ts where m: "tp_cached_vout_mode u = Some mode" "encode_linear16 mode (Voltage_volts voltage) = Inr w"
    and ts: "tp_i2c u = tp_i2c s @ ts" "list_all (\<lambda>u. \<exists>a d n. u = BusWriteRead a d n) ts"
    using encode_voltage_logged [OF w] by blast
  have "tp_cached_vout_mode t = tp_cached_vout_mode u" "tp_i2c t = tp_i2c u @ [BusWrite 0x24 (0x21 # u16_to_le w)]"
    using t by (auto simp: write_word_def on_bus_def logged_i2c_def TPS546_I2C_ADDR_def split: sum.splits)
  moreover have "\<bar>decode_linear16 mode w - Voltage_volts voltage\<bar> \<le> 2 powi VoutMode_exponent mode / 2"
    by (rule encode_linear16_error [OF _ m(2)]) simp
  ultimately show "\<exists>mode w ts. tp_cached_vout_mode t = Some mode \<and>
      tp_i2c t = tp_i2c s @ ts @ [BusWrite 0x24 (0x21 # u16_to_le w)] \<and>
      list_all (\<lambda>u. \<exists>a d n. u = BusWriteRead a d n) ts \<and>
      \<bar>decode_linear16 mode w - Voltage_volts voltage\<bar> \<le> 2 powi VoutMode_exponent mode / 2"
    using m(1) ts by auto
qed

text \<open>An operation command counts only when the device reads it back.\<close>

lemma write_operation_confirmed:
  assumes "write_operation (logged_i2c dev) op s = (Inr (), t)"
  shows "\<exists>f. tp_i2c t = tp_i2c s @ [BusWrite 0x24 [0x01, Operation_as_u8 op], BusWriteRead 0x24 [0x01] 1] \<and>
    iv_reply dev (tp_i2c t) = Inr f \<and> f 0 = Operation_as_u8 op"
  using assms
  by (auto simp: write_operation_def and_then_Inr_iff write_byte_def read_byte_def on_bus_def logged_i2c_def
      reply_bytes_def TPS546_I2C_ADDR_def split: sum.splits if_splits)

subsection \<open>The status check\<close>

text \<open>A device whose registers do not change while it is checked and whose bus does not fail.\<close>

definition register_device :: "(u8 \<Rightarrow> nat \<Rightarrow> u8) \<Rightarrow> i2c_device" where
  "register_device regs =
     \<lparr>iv_write = \<lambda>_. Inr (),
      iv_reply = \<lambda>h. Inr (case last h of BusWriteRead addr data n \<Rightarrow> regs (data ! 0) | _ \<Rightarrow> \<lambda>_. 0)\<rparr>"

text \<open>An operation that returns a value whatever the state is.\<close>

definition returns :: "('s, 'a) tps546_op \<Rightarrow> tps546_error + 'a \<Rightarrow> bool" where
  "returns f r \<longleftrightarrow> (\<forall>s. fst (f s) = r)"

named_theorems returns_intros

lemma returns_give [returns_intros]: "returns (tps_give a) (Inr a)"
  by (simp add: returns_def)

lemma returns_fail [returns_intros]: "returns (tps_fail e) (Inl e)"
  by (simp add: returns_def)

lemma returns_and_then: "returns f (Inr a) \<Longrightarrow> returns (g a) r \<Longrightarrow> returns (and_then f g) r"
  by (auto simp: returns_def and_then_def split: prod.split sum.split) (metis fst_conv sum.inject(2) sum.distinct(1))+

lemma returns_try: "returns (try_op f) (Inr ())"
  by (simp add: returns_def try_op_def)

lemma returns_read_byte: "returns (read_byte (logged_i2c (register_device regs)) c) (Inr (regs (PmbusCommand_as_u8 c) 0))"
  by (simp add: returns_def read_byte_def on_bus_def logged_i2c_def register_device_def reply_bytes_def)

lemma returns_read_word:
  "returns (read_word (logged_i2c (register_device regs)) c)
     (Inr (u16_from_le (regs (PmbusCommand_as_u8 c) 0) (regs (PmbusCommand_as_u8 c) 1)))"
proof -
  have "[0..<2] = [0, 1 :: nat]" by (simp add: numeral_2_eq_2)
  then show ?thesis
    by (simp add: returns_def read_word_def on_bus_def logged_i2c_def register_device_def reply_bytes_def)
qed

lemma returns_status_detail:
  "returns (status_detail (logged_i2c (register_device regs)) flagged c critical title decode)
     (Inr (if flagged \<and> critical (regs (PmbusCommand_as_u8 c) 0)
           then [title @ join_with '', '' (decode (regs (PmbusCommand_as_u8 c) 0))] else []))"
proof (cases flagged)
  case True
  have "returns (and_then (read_byte (logged_i2c (register_device regs)) c)
        (\<lambda>status. tps_give (if critical status then [title @ join_with '', '' (decode status)] else [])))
      (Inr (if critical (regs (PmbusCommand_as_u8 c) 0)
        then [title @ join_with '', '' (decode (regs (PmbusCommand_as_u8 c) 0))] else []))"
    by (rule returns_and_then [OF returns_read_byte]) (rule returns_give)
  then show ?thesis using True by (simp add: status_detail_def)
qed (simp add: status_detail_def returns_give)

lemma returns_diagnostics: "returns (read_diagnostics bus) (Inr ())"
  unfolding read_diagnostics_def by (intro returns_and_then [OF returns_try] returns_try)

lemma returns_off_detail:
  "returns (off_detail (logged_i2c (register_device regs)) flagged)
     (Inr (if flagged \<and> regs 0x01 0 AND 0x80 \<noteq> 0 then [''Power controller is OFF''] else []))"
proof -
  have "returns (output_enabled (logged_i2c (register_device regs))) (Inr (regs 0x01 0 AND 0x80 \<noteq> 0))"
    using returns_and_then [OF returns_read_byte [of regs Operation] returns_give] by (simp add: output_enabled_def)
  then have "returns (and_then (output_enabled (logged_i2c (register_device regs))) (\<lambda>enabled.
        if enabled
        then and_then (read_diagnostics (logged_i2c (register_device regs))) (\<lambda>_. tps_give [''Power controller is OFF''])
        else tps_give []))
      (Inr (if regs 0x01 0 AND 0x80 \<noteq> 0 then [''Power controller is OFF''] else []))"
  proof (rule returns_and_then)
    show "returns (if regs 0x01 0 AND 0x80 \<noteq> 0
        then and_then (read_diagnostics (logged_i2c (register_device regs))) (\<lambda>_. tps_give [''Power controller is OFF''])
        else tps_give [])
      (Inr (if regs 0x01 0 AND 0x80 \<noteq> 0 then [''Power controller is OFF''] else []))"
      by (cases "regs 0x01 0 AND 0x80 \<noteq> 0")
        (simp_all only: if_True if_False not_False_eq_True simp_thms, rule returns_and_then [OF returns_diagnostics returns_give],
          rule returns_give)
  qed
  then show ?thesis by (cases flagged) (simp_all add: off_detail_def returns_give)
qed

lemma returns_if_faults:
  "returns (if b then tps_fail e else tps_give a) (if b then Inl e else Inr a)"
  by (simp add: returns_def)

text \<open>
  The faults that make the check fail, by the bits of the registers: an output over- or undervoltage,
  an overcurrent, an input that is too high, too low or switched the unit off, overtemperature, any
  communication fault, and an output that is off while it is commanded on.
\<close>

definition device_faulty :: "(u8 \<Rightarrow> nat \<Rightarrow> u8) \<Rightarrow> bool" where
  "device_faulty regs \<longleftrightarrow>
     (let status = u16_from_le (regs 0x79 0) (regs 0x79 1)
      in (bit status 15 \<and> (bit (regs 0x7a 0) 7 \<or> bit (regs 0x7a 0) 4)) \<or>
         (bit status 14 \<and> bit (regs 0x7b 0) 7) \<or>
         (bit status 13 \<and> (bit (regs 0x7c 0) 3 \<or> bit (regs 0x7c 0) 4 \<or> bit (regs 0x7c 0) 7)) \<or>
         (bit status 2 \<and> bit (regs 0x7d 0) 7) \<or>
         bit status 1 \<or>
         (bit status 6 \<and> bit (regs 0x01 0) 7))"

lemma has_flag_bit:
  fixes w :: "'a::len word"
  assumes "n < LENGTH('a)"
  shows "has_flag w (2 ^ n) \<longleftrightarrow> bit w n"
proof -
  have "w AND 2 ^ n = (if bit w n then 2 ^ n else 0)" by (rule bit_word_eqI) (auto simp: bit_simps)
  moreover have "(2 ^ n :: 'a word) \<noteq> 0" using assms by simp
  ultimately show ?thesis by (simp add: has_flag_def)
qed

lemma and_bit: "w AND 2 ^ n \<noteq> 0 \<longleftrightarrow> bit (w :: 'a::len word) n"
  by (simp add: and_exp_eq_0_iff_not_bit)

lemma status_bits:
  fixes w :: u16 and b :: u8
  shows "has_flag w 0x8000 \<longleftrightarrow> bit w 15" "has_flag w 0x4000 \<longleftrightarrow> bit w 14" "has_flag w 0x2000 \<longleftrightarrow> bit w 13"
    "has_flag w 0x0004 \<longleftrightarrow> bit w 2" "has_flag w 0x0002 \<longleftrightarrow> bit w 1" "has_flag w 0x0040 \<longleftrightarrow> bit w 6"
    "has_flag b 0x80 \<longleftrightarrow> bit b 7" "b AND 0x80 \<noteq> 0 \<longleftrightarrow> bit b 7" "b AND 0x10 \<noteq> 0 \<longleftrightarrow> bit b 4"
    "b AND 0x08 \<noteq> 0 \<longleftrightarrow> bit b 3"
  using has_flag_bit [of 15 w] has_flag_bit [of 14 w] has_flag_bit [of 13 w] has_flag_bit [of 2 w] has_flag_bit [of 1 w]
    has_flag_bit [of 6 w] has_flag_bit [of 7 b] and_bit [of b 7] and_bit [of b 4] and_bit [of b 3]
  by simp_all

lemma critical_bits:
  "vout_critical b \<longleftrightarrow> bit b 7 \<or> bit b 4" "iout_critical b \<longleftrightarrow> bit b 7"
  "input_critical b \<longleftrightarrow> bit b 3 \<or> bit b 4 \<or> bit b 7" "temperature_critical b \<longleftrightarrow> bit b 7"
  unfolding vout_critical_def iout_critical_def input_critical_def temperature_critical_def bit.conj_disj_distrib or_eq_0_iff
    de_Morgan_conj status_bits
  by (rule refl disj_assoc)+

lemma singleton_if_Nil: "(if b then [x] else []) = [] \<longleftrightarrow> \<not> b"
  by simp

lemma returns_verdict:
  "returns (let faults = a @ b @ c @ d @ e @ f in if faults \<noteq> [] then tps_fail (FaultDetected (join_with ''; '' faults)) else tps_give ())
     (if a @ b @ c @ d @ e @ f \<noteq> [] then Inl (FaultDetected (join_with ''; '' (a @ b @ c @ d @ e @ f))) else Inr ())"
  unfolding Let_def by (rule returns_if_faults)

lemma check_status_fails:
  assumes "status \<noteq> 0" and "status = u16_from_le (regs 0x79 0) (regs 0x79 1)"
    and "vout = (if has_flag status 0x8000 \<and> vout_critical (regs 0x7a 0)
        then [''VOUT fault: '' @ join_with '', '' (decode_status_vout (regs 0x7a 0))] else [])"
    and "iout = (if has_flag status 0x4000 \<and> iout_critical (regs 0x7b 0)
        then [''IOUT overcurrent: '' @ join_with '', '' (decode_status_iout (regs 0x7b 0))] else [])"
    and "input = (if has_flag status 0x2000 \<and> input_critical (regs 0x7c 0)
        then [''INPUT fault: '' @ join_with '', '' (decode_status_input (regs 0x7c 0))] else [])"
    and "temp = (if has_flag status 0x0004 \<and> temperature_critical (regs 0x7d 0)
        then [''Overtemperature: '' @ join_with '', '' (decode_status_temp (regs 0x7d 0))] else [])"
    and "cml = (if has_flag status 0x0002 \<and> True
        then [''CML fault: '' @ join_with '', '' (decode_status_cml (regs 0x7e 0))] else [])"
    and "off = (if has_flag status 0x0040 \<and> regs 0x01 0 AND 0x80 \<noteq> 0 then [''Power controller is OFF''] else [])"
  shows "returns (check_status (logged_i2c (register_device regs)))
    (if vout @ iout @ input @ temp @ cml @ off \<noteq> []
     then Inl (FaultDetected (join_with ''; '' (vout @ iout @ input @ temp @ cml @ off))) else Inr ())"
proof -
  have d: "returns (status_detail (logged_i2c (register_device regs)) flagged c critical title decode)
      (Inr (if flagged \<and> critical (regs r 0) then [title @ join_with '', '' (decode (regs r 0))] else []))"
    if "PmbusCommand_as_u8 c = r" for flagged c critical title decode r
    using returns_status_detail [of regs flagged c critical title decode] unfolding that .
  have w: "returns (read_word (logged_i2c (register_device regs)) StatusWord) (Inr status)"
    using returns_read_word [of regs StatusWord] unfolding assms(2) PmbusCommand_as_u8.simps .
  show ?thesis
    unfolding check_status_def
    apply (rule returns_and_then [OF w])
    apply (subst if_not_P, rule assms(1))
    apply (rule returns_and_then, unfold assms(3), rule d, simp)
    apply (rule returns_and_then, unfold assms(4), rule d, simp)
    apply (rule returns_and_then, unfold assms(5), rule d, simp)
    apply (rule returns_and_then, unfold assms(6), rule d, simp)
    apply (rule returns_and_then, unfold assms(7), rule d, simp)
    apply (rule returns_and_then, unfold assms(8), rule returns_off_detail)
    apply (rule returns_verdict)
    done
qed

lemma check_status_returns:
  "\<exists>text. returns (check_status (logged_i2c (register_device regs)))
     (if device_faulty regs then Inl (FaultDetected text) else Inr ())"
proof -
  define status where "status = u16_from_le (regs 0x79 0) (regs 0x79 1)"
  have word: "returns (read_word (logged_i2c (register_device regs)) StatusWord) (Inr status)"
    using returns_read_word [of regs StatusWord] unfolding status_def PmbusCommand_as_u8.simps .
  show ?thesis
  proof (cases "status = 0")
    case True
    then have "\<not> device_faulty regs" unfolding device_faulty_def Let_def status_def [symmetric] by simp
    moreover have "returns (check_status (logged_i2c (register_device regs))) (Inr ())"
      unfolding check_status_def
      by (rule returns_and_then [OF word], subst if_P, rule True, rule returns_give)
    ultimately show ?thesis by simp
  next
    case False
    define vout where "vout = (if has_flag status 0x8000 \<and> vout_critical (regs 0x7a 0)
        then [''VOUT fault: '' @ join_with '', '' (decode_status_vout (regs 0x7a 0))] else [])"
    define iout where "iout = (if has_flag status 0x4000 \<and> iout_critical (regs 0x7b 0)
        then [''IOUT overcurrent: '' @ join_with '', '' (decode_status_iout (regs 0x7b 0))] else [])"
    define input where "input = (if has_flag status 0x2000 \<and> input_critical (regs 0x7c 0)
        then [''INPUT fault: '' @ join_with '', '' (decode_status_input (regs 0x7c 0))] else [])"
    define temp where "temp = (if has_flag status 0x0004 \<and> temperature_critical (regs 0x7d 0)
        then [''Overtemperature: '' @ join_with '', '' (decode_status_temp (regs 0x7d 0))] else [])"
    define cml where "cml = (if has_flag status 0x0002 \<and> True
        then [''CML fault: '' @ join_with '', '' (decode_status_cml (regs 0x7e 0))] else [])"
    define off where "off = (if has_flag status 0x0040 \<and> regs 0x01 0 AND 0x80 \<noteq> 0 then [''Power controller is OFF''] else [])"
    have "vout = [] \<longleftrightarrow> \<not> (has_flag status 0x8000 \<and> vout_critical (regs 0x7a 0))"
      unfolding vout_def by (rule singleton_if_Nil)
    moreover have "iout = [] \<longleftrightarrow> \<not> (has_flag status 0x4000 \<and> iout_critical (regs 0x7b 0))"
      unfolding iout_def by (rule singleton_if_Nil)
    moreover have "input = [] \<longleftrightarrow> \<not> (has_flag status 0x2000 \<and> input_critical (regs 0x7c 0))"
      unfolding input_def by (rule singleton_if_Nil)
    moreover have "temp = [] \<longleftrightarrow> \<not> (has_flag status 0x0004 \<and> temperature_critical (regs 0x7d 0))"
      unfolding temp_def by (rule singleton_if_Nil)
    moreover have "cml = [] \<longleftrightarrow> \<not> (has_flag status 0x0002 \<and> True)"
      unfolding cml_def by (rule singleton_if_Nil)
    moreover have "off = [] \<longleftrightarrow> \<not> (has_flag status 0x0040 \<and> regs 0x01 0 AND 0x80 \<noteq> 0)"
      unfolding off_def by (rule singleton_if_Nil)
    ultimately have "(vout @ iout @ input @ temp @ cml @ off \<noteq> []) = device_faulty regs"
      unfolding device_faulty_def Let_def status_def [symmetric] append_is_Nil_conv
      by (simp only: status_bits critical_bits de_Morgan_conj de_Morgan_disj not_not simp_thms)
    from check_status_fails [OF False status_def vout_def iout_def input_def temp_def cml_def off_def, unfolded this]
    show ?thesis by (rule exI)
  qed
qed

end
