(* ===== verification/Sensors.thy ===== *)
theory Sensors
  imports Pmbus I2c_Bus
begin

text \<open>
  The fan controller \<open>peripheral/emc2101.rs\<close> and the temperature sensors \<open>peripheral/tmp1075.rs\<close> and
  \<open>tmp451.rs\<close> over any I2C bus. A driver has no state of its own but the bus and the address it was
  made with. The texts of errors are kept as their causes. A temperature is its number of degrees.
\<close>

subsection \<open>Registers of one byte\<close>

definition bus_result :: "(hw_error \<Rightarrow> 'e) \<Rightarrow> ('a \<Rightarrow> 'b) \<Rightarrow> ('s \<Rightarrow> (hw_error + 'a) \<times> 's) \<Rightarrow> 's \<Rightarrow> ('e + 'b) \<times> 's" where
  "bus_result err val f s = (case f s of (Inl e, t) \<Rightarrow> (Inl (err e), t) | (Inr a, t) \<Rightarrow> (Inr (val a), t))"

definition op_give :: "'a \<Rightarrow> 's \<Rightarrow> ('e + 'a) \<times> 's" where
  "op_give a s = (Inr a, s)"

definition op_fail :: "'e \<Rightarrow> 's \<Rightarrow> ('e + 'a) \<times> 's" where
  "op_fail e s = (Inl e, s)"

subsection \<open>EMC2101\<close>

definition EMC2101_ADDRESS :: u8 where
  "EMC2101_ADDRESS = 0x4c"

text \<open>\<open>Percent\<close> wraps a byte of at most 100.\<close>

type_synonym Percent = u8

definition Percent_new_clamped :: "u8 \<Rightarrow> Percent" where
  "Percent_new_clamped v = (if 100 < v then 100 else v)"

definition Percent_new :: "u8 \<Rightarrow> Percent option" where
  "Percent_new v = (if v \<le> 100 then Some v else None)"

definition Percent_of :: "Percent \<Rightarrow> u8 \<Rightarrow> u8" where
  "Percent_of p v = ucast ((ucast p * ucast v :: u16) div 100)"

datatype emc2101_error =
  EmcBus hw_error
| WrongManufacturerId u8
| WrongProductId u8
| DiodeOpenCircuit
| DiodeShort

definition emc_read :: "'s i2c \<Rightarrow> u8 \<Rightarrow> u8 \<Rightarrow> 's \<Rightarrow> (emc2101_error + u8) \<times> 's" where
  "emc_read bus address reg = bus_result EmcBus (\<lambda>buf. buf ! 0) (i2_write_read bus address [reg] 1)"

definition emc_write :: "'s i2c \<Rightarrow> u8 \<Rightarrow> u8 \<Rightarrow> u8 \<Rightarrow> 's \<Rightarrow> (emc2101_error + unit) \<times> 's" where
  "emc_write bus address reg v = bus_result EmcBus (\<lambda>_. ()) (i2_write bus address [reg, v])"

definition PWM_MAX :: u8 where
  "PWM_MAX = 63"

definition emc2101_init :: "'s i2c \<Rightarrow> u8 \<Rightarrow> 's \<Rightarrow> (emc2101_error + unit) \<times> 's" where
  "emc2101_init bus address =
     and_then (emc_read bus address 0xfe) (\<lambda>mfg_id.
     and_then (emc_read bus address 0xfd) (\<lambda>product_id.
     and_then (emc_read bus address 0xff) (\<lambda>revision.
       if mfg_id \<noteq> 0x5d then op_fail (WrongManufacturerId mfg_id)
       else if product_id \<noteq> 0x16 \<and> product_id \<noteq> 0x28 then op_fail (WrongProductId product_id)
       else
         and_then (emc_read bus address 0x03) (\<lambda>config.
         and_then (emc_write bus address 0x03 (config OR 0x04)) (\<lambda>_.
           emc_write bus address 0x4a 0x23)))))"

definition set_fan_speed :: "'s i2c \<Rightarrow> u8 \<Rightarrow> Percent \<Rightarrow> 's \<Rightarrow> (emc2101_error + unit) \<times> 's" where
  "set_fan_speed bus address speed_percent = emc_write bus address 0x4c (Percent_of speed_percent PWM_MAX)"

definition get_fan_speed :: "'s i2c \<Rightarrow> u8 \<Rightarrow> 's \<Rightarrow> (emc2101_error + Percent) \<times> 's" where
  "get_fan_speed bus address =
     and_then (emc_read bus address 0x4c) (\<lambda>duty.
       op_give (Percent_new_clamped (ucast ((ucast duty * 100 :: u16) div ucast PWM_MAX))))"

definition external_raw :: "u8 \<Rightarrow> u8 \<Rightarrow> u16" where
  "external_raw high low = push_bit 3 (ucast high) OR drop_bit 5 (ucast low)"

definition external_degrees :: "u16 \<Rightarrow> rat" where
  "external_degrees raw =
     (if raw AND 0x400 \<noteq> 0
      then - (f32 (of_nat (unat ((NOT raw AND 0x7ff) + 1)))) * (1 / 8)
      else f32 (of_nat (unat raw)) * (1 / 8))"

definition get_external_temperature :: "'s i2c \<Rightarrow> u8 \<Rightarrow> 's \<Rightarrow> (emc2101_error + rat) \<times> 's" where
  "get_external_temperature bus address =
     and_then (emc_read bus address 0x01) (\<lambda>high.
     and_then (emc_read bus address 0x10) (\<lambda>low.
       let raw = external_raw high low
       in if raw = 0x3f8 then op_fail DiodeOpenCircuit
          else if raw = 0x3ff then op_fail DiodeShort
          else op_give (external_degrees raw)))"

definition get_internal_temperature :: "'s i2c \<Rightarrow> u8 \<Rightarrow> 's \<Rightarrow> (emc2101_error + rat) \<times> 's" where
  "get_internal_temperature bus address = and_then (emc_read bus address 0x00) (\<lambda>raw. op_give (f32 (of_int (sint raw))))"

text \<open>The low byte first: it latches the high one.\<close>

definition get_tach_count :: "'s i2c \<Rightarrow> u8 \<Rightarrow> 's \<Rightarrow> (emc2101_error + u16) \<times> 's" where
  "get_tach_count bus address =
     and_then (emc_read bus address 0x46) (\<lambda>low.
     and_then (emc_read bus address 0x47) (\<lambda>high.
       op_give (push_bit 8 (ucast high) OR ucast low)))"

definition rpm_of_tach :: "u16 \<Rightarrow> u32" where
  "rpm_of_tach tach =
     (if tach = 0 \<or> tach = 0xffff then 0
      else (let rpm = 5400000 div ucast tach in if rpm = 82 then 0 else rpm))"

definition get_rpm :: "'s i2c \<Rightarrow> u8 \<Rightarrow> 's \<Rightarrow> (emc2101_error + u32) \<times> 's" where
  "get_rpm bus address = and_then (get_tach_count bus address) (\<lambda>tach. op_give (rpm_of_tach tach))"

subsection \<open>TMP1075\<close>

datatype tmp1075_error = Tmp1075Bus hw_error | UnexpectedDeviceId u16

definition Tmp1075_DEVICE_ID :: u16 where
  "Tmp1075_DEVICE_ID = 0x7500"

definition tmp1075_read_register :: "'s i2c \<Rightarrow> u8 \<Rightarrow> u8 \<Rightarrow> 's \<Rightarrow> (tmp1075_error + u16) \<times> 's" where
  "tmp1075_read_register bus address reg =
     bus_result Tmp1075Bus (\<lambda>buf. u16_from_be (buf ! 0) (buf ! 1)) (i2_write_read bus address [reg] 2)"

definition tmp1075_init :: "'s i2c \<Rightarrow> u8 \<Rightarrow> 's \<Rightarrow> (tmp1075_error + unit) \<times> 's" where
  "tmp1075_init bus address =
     and_then (tmp1075_read_register bus address 0x0f) (\<lambda>i.
       if i \<noteq> Tmp1075_DEVICE_ID then op_fail (UnexpectedDeviceId i) else op_give ())"

definition tmp1075_from_raw :: "u16 \<Rightarrow> u16" where
  "tmp1075_from_raw raw = signed_drop_bit 4 raw"

text \<open>Both sensors have a sixteenth of a degree per unit; a reading is a signed word.\<close>

definition reading_degrees :: "u16 \<Rightarrow> rat" where
  "reading_degrees r = f32 (of_int (sint r)) * (1 / 16)"

definition tmp1075_read :: "'s i2c \<Rightarrow> u8 \<Rightarrow> 's \<Rightarrow> (tmp1075_error + u16) \<times> 's" where
  "tmp1075_read bus address = and_then (tmp1075_read_register bus address 0x00) (\<lambda>raw. op_give (tmp1075_from_raw raw))"

subsection \<open>TMP451\<close>

datatype tmp451_error = Tmp451Bus hw_error | UnexpectedMfgId u8 | RemoteDiodeOpen

definition MANUFACTURER_ID :: u8 where
  "MANUFACTURER_ID = 0x55"

definition tmp451_read_byte :: "'s i2c \<Rightarrow> u8 \<Rightarrow> u8 \<Rightarrow> 's \<Rightarrow> (tmp451_error + u8) \<times> 's" where
  "tmp451_read_byte bus address reg = bus_result Tmp451Bus (\<lambda>buf. buf ! 0) (i2_write_read bus address [reg] 1)"

definition tmp451_write_byte :: "'s i2c \<Rightarrow> u8 \<Rightarrow> u8 \<Rightarrow> u8 \<Rightarrow> 's \<Rightarrow> (tmp451_error + unit) \<times> 's" where
  "tmp451_write_byte bus address reg v = bus_result Tmp451Bus (\<lambda>_. ()) (i2_write bus address [reg, v])"

definition tmp451_init :: "'s i2c \<Rightarrow> u8 \<Rightarrow> 's \<Rightarrow> (tmp451_error + unit) \<times> 's" where
  "tmp451_init bus address =
     and_then (tmp451_read_byte bus address 0xfe) (\<lambda>i.
       if i \<noteq> MANUFACTURER_ID then op_fail (UnexpectedMfgId i) else op_give ())"

definition tmp451_from_high_low :: "u8 \<Rightarrow> u8 \<Rightarrow> u16" where
  "tmp451_from_high_low high low = push_bit 4 (ucast high) OR ucast (drop_bit 4 low)"

definition tmp451_read_local :: "'s i2c \<Rightarrow> u8 \<Rightarrow> 's \<Rightarrow> (tmp451_error + u16) \<times> 's" where
  "tmp451_read_local bus address =
     and_then (tmp451_read_byte bus address 0x00) (\<lambda>high.
     and_then (tmp451_read_byte bus address 0x15) (\<lambda>low. op_give (tmp451_from_high_low high low)))"

definition tmp451_read_remote :: "'s i2c \<Rightarrow> u8 \<Rightarrow> 's \<Rightarrow> (tmp451_error + u16) \<times> 's" where
  "tmp451_read_remote bus address =
     and_then (tmp451_read_byte bus address 0x02) (\<lambda>status.
       if status AND 0x04 \<noteq> 0 then op_fail RemoteDiodeOpen
       else
         and_then (tmp451_read_byte bus address 0x01) (\<lambda>high.
         and_then (tmp451_read_byte bus address 0x10) (\<lambda>low. op_give (tmp451_from_high_low high low))))"

definition tmp451_set_remote_offset :: "'s i2c \<Rightarrow> u8 \<Rightarrow> u8 \<Rightarrow> 's \<Rightarrow> (tmp451_error + unit) \<times> 's" where
  "tmp451_set_remote_offset bus address degrees = tmp451_write_byte bus address 0x11 degrees"

subsection \<open>What the numbers mean\<close>

lemma word_ranges: "unat (b :: u8) < 256" "unat (w :: u16) < 65536"
  using unsigned_less [of b, where 'a = nat] unsigned_less [of w, where 'a = nat] by simp_all

lemma unat_widen: "unat (ucast b :: u16) = unat (b :: u8)" "unat (ucast w :: u8) = unat (w :: u16) mod 256"
proof -
  show "unat (ucast b :: u16) = unat (b :: u8)"
    using word_ranges(1) [of b] by (simp add: unsigned_ucast_eq take_bit_nat_eq_self)
  show "unat (ucast w :: u8) = unat (w :: u16) mod 256" by (simp add: unsigned_ucast_eq unsigned_take_bit_eq take_bit_eq_mod)
qed

lemma Percent_of_nat: "unat (Percent_of p PWM_MAX) = (unat p * 63) div 100 mod 256"
proof -
  have "unat (ucast p * ucast PWM_MAX :: u16) = unat p * 63"
    using word_ranges(1) [of p] by (simp add: PWM_MAX_def unat_word_ariths unat_widen)
  then show ?thesis by (simp add: Percent_of_def unat_div unat_widen)
qed

text \<open>The fan's duty cycle fits its six bits, and reading it back loses at most two percent.\<close>

lemma fan_speed_bounds:
  assumes "p \<le> 100"
  shows "Percent_of p PWM_MAX \<le> PWM_MAX"
    and "unat (Percent_new_clamped (ucast ((ucast (Percent_of p PWM_MAX) * 100 :: u16) div ucast PWM_MAX))) \<le> unat p"
    and "unat p \<le> unat (Percent_new_clamped (ucast ((ucast (Percent_of p PWM_MAX) * 100 :: u16) div ucast PWM_MAX))) + 2"
proof -
  let ?duty = "(unat p * 63) div 100" and ?read = "((unat p * 63) div 100 * 100) div 63"
  have p: "unat p \<le> 100" using assms by (simp add: word_le_nat_alt)
  then have d63: "?duty \<le> 63" by (simp add: div_le_mono order_trans [OF div_le_mono [of "unat p * 63" "100 * 63" 100]])
  have duty: "unat (Percent_of p PWM_MAX) = ?duty" using d63 by (simp add: Percent_of_nat)
  show "Percent_of p PWM_MAX \<le> PWM_MAX" using duty d63 by (simp add: word_le_nat_alt PWM_MAX_def)
  have b1: "?duty * 100 \<le> unat p * 63" by (rule div_times_less_eq_dividend)
  then have b2: "?read \<le> unat p" using div_le_mono [OF b1, of 63] by simp
  have "unat (ucast (Percent_of p PWM_MAX) * 100 :: u16) = ?duty * 100"
    using d63 by (simp add: unat_word_ariths unat_widen duty)
  then have "unat (ucast ((ucast (Percent_of p PWM_MAX) * 100 :: u16) div ucast PWM_MAX) :: u8) = ?read"
    using b2 p by (simp add: unat_div unat_widen PWM_MAX_def)
  then have again: "unat (Percent_new_clamped (ucast ((ucast (Percent_of p PWM_MAX) * 100 :: u16) div ucast PWM_MAX))) = ?read"
    using b2 p by (simp add: Percent_new_clamped_def word_less_nat_alt)
  show "unat (Percent_new_clamped (ucast ((ucast (Percent_of p PWM_MAX) * 100 :: u16) div ucast PWM_MAX))) \<le> unat p"
    unfolding again by (rule b2)
  have "unat p * 63 < ?duty * 100 + 100" using div_mult_mod_eq [of "unat p * 63" 100] mod_less_divisor [of 100 "unat p * 63"] by linarith
  moreover have "?duty * 100 < ?read * 63 + 63" using div_mult_mod_eq [of "?duty * 100" 63] mod_less_divisor [of 63 "?duty * 100"] by linarith
  ultimately show "unat p \<le> unat (Percent_new_clamped (ucast ((ucast (Percent_of p PWM_MAX) * 100 :: u16) div ucast PWM_MAX))) + 2"
    unfolding again by linarith
qed

text \<open>The external temperature is the 11-bit two's complement of the two registers, in eighths.\<close>

lemma external_raw_less: "unat (external_raw high low) < 2048"
proof -
  have "external_raw high low = take_bit 11 (external_raw high low)"
  proof (rule bit_eqI)
    fix n
    have "n < 11" if "bit (external_raw high low) n"
      using that bit_imp_le_length [of high "n - 3"] bit_imp_le_length [of low "n + 5"]
      by (auto simp: external_raw_def bit_simps)
    then show "bit (external_raw high low) n \<longleftrightarrow> bit (take_bit 11 (external_raw high low)) n"
      by (auto simp: bit_take_bit_iff)
  qed
  then have "unat (external_raw high low) = take_bit 11 (unat (external_raw high low))"
    by (metis unsigned_take_bit_eq)
  then show ?thesis using take_bit_nat_less_exp [of 11 "unat (external_raw high low)"] by simp
qed

lemma external_degrees_eq:
  assumes "unat raw < 2048"
  shows "external_degrees raw = of_int (signed_take_bit 10 (uint raw)) / 8"
proof -
  have u: "uint raw = int (unat raw)" by simp
  have "signed_take_bit 10 (int n) = (if n < 1024 then int n else int n - 2048)" if "n < 2048" for n
  proof (cases "n < 1024")
    case True
    then show ?thesis by (simp add: signed_take_bit_int_eq_self)
  next
    case False
    have "(int n + 1024) mod 2048 = (int n - 1024 + 2048) mod 2048" by (simp add: add.commute)
    also have "\<dots> = int n - 1024" using that False unfolding mod_add_self2 by simp
    finally show ?thesis using False by (simp add: signed_take_bit_eq_take_bit_shift take_bit_eq_mod)
  qed
  then have signed: "signed_take_bit 10 (uint raw) = (if unat raw < 1024 then int (unat raw) else int (unat raw) - 2048)"
    using assms unfolding u .
  have sign: "raw AND 0x400 \<noteq> 0 \<longleftrightarrow> \<not> unat raw < 1024"
  proof -
    have "raw AND 0x400 \<noteq> 0 \<longleftrightarrow> bit raw 10" using and_exp_eq_0_iff_not_bit [of raw 10] by simp
    also have "\<dots> \<longleftrightarrow> bit (unat raw) 10" by (simp add: bit_unsigned_iff)
    also have "\<dots> \<longleftrightarrow> odd (unat raw div 1024)" by (simp add: bit_iff_odd)
    also have "\<dots> \<longleftrightarrow> \<not> unat raw < 1024"
    proof -
      have "unat raw div 1024 < 2" using assms by (simp add: less_mult_imp_div_less)
      then have "unat raw div 1024 = 0 \<or> unat raw div 1024 = 1" by linarith
      then show ?thesis by (auto simp: div_eq_0_iff)
    qed
    finally show ?thesis .
  qed
  have float: "f32 (of_nat n) = of_nat n" if "n \<le> 2048" for n
    using f32_int [of "int n"] that by simp
  show ?thesis
  proof (cases "unat raw < 1024")
    case True
    then show ?thesis using sign by (simp add: external_degrees_def signed float del: of_nat_unat)
  next
    case False
    have "(NOT raw AND 0x7ff) + 1 = 2048 - raw"
    proof -
      have "(0x7ff :: u16) = mask 11" by (simp add: mask_eq_exp_minus_1)
      then have "NOT raw AND 0x7ff = mask 11 - take_bit 11 raw"
        by (simp only: take_bit_eq_mask [symmetric] take_bit_not_eq_mask_diff)
      moreover have "take_bit 11 raw = raw" 
        by (rule unsigned_word_eqI [where 'a = nat]) (use assms in \<open>simp add: unsigned_take_bit_eq take_bit_nat_eq_self\<close>)
      ultimately show ?thesis by (simp add: mask_eq_exp_minus_1)
    qed
    moreover have "unat (2048 - raw) = 2048 - unat raw"
      using assms by (simp add: unat_sub word_le_nat_alt)
    ultimately have "external_degrees raw = - of_nat (2048 - unat raw) * (1 / 8)"
      using sign False by (simp add: external_degrees_def float del: of_nat_unat)
    then show ?thesis using False assms by (simp add: signed of_nat_diff del: of_nat_unat)
  qed
qed

text \<open>A fan that turns is never reported slower than 83 revolutions per minute, nor faster than 5400000.\<close>

lemma rpm_bounds:
  "rpm_of_tach tach = 0 \<or> (83 \<le> unat (rpm_of_tach tach) \<and> unat (rpm_of_tach tach) \<le> 5400000)"
proof (cases "tach = 0 \<or> tach = 0xffff")
  case True
  then show ?thesis by (simp add: rpm_of_tach_def)
next
  case False
  moreover have "tach = 0" if "unat tach = 0" by (rule unsigned_word_eqI [where 'a = nat]) (use that in simp)
  moreover have "tach = 0xffff" if "unat tach = 65535" by (rule unsigned_word_eqI [where 'a = nat]) (use that in simp)
  ultimately have "unat tach \<noteq> 0" "unat tach \<noteq> 65535" by blast+
  then have t: "1 \<le> unat tach" "unat tach \<le> 65534" using word_ranges(2) [of tach] by linarith+
  let ?rpm = "5400000 div ucast tach :: u32"
  have "unat (ucast tach :: u32) = unat tach"
    using word_ranges(2) [of tach] by (simp add: unsigned_ucast_eq take_bit_nat_eq_self)
  then have rpm: "unat ?rpm = 5400000 div unat tach" by (simp add: unat_div)
  have "5400000 div 65534 \<le> 5400000 div unat tach" using t by (intro div_le_mono2) simp_all
  moreover have "5400000 div unat tach \<le> 5400000" by simp
  ultimately have "82 \<le> unat ?rpm" "unat ?rpm \<le> 5400000" unfolding rpm by simp_all
  moreover have "?rpm = 82" if "unat ?rpm = 82" by (rule unsigned_word_eqI [where 'a = nat]) (use that in simp)
  ultimately show ?thesis using False by (auto simp: rpm_of_tach_def Let_def)
qed

text \<open>The readings: twelve signed bits in sixteenths, and a byte with four bits below it.\<close>

lemma tmp1075_degrees:
  "reading_degrees (tmp1075_from_raw raw) = of_int (sint raw div 16) / 16"
proof -
  have "sint (signed_drop_bit 4 raw) = sint raw div 16" by (simp add: sint_signed_drop_bit_eq drop_bit_eq_div)
  moreover have "- 32768 \<le> sint raw" "sint raw < 32768" using sint_greater_eq [of raw] sint_less [of raw] by simp_all
  then have "- 2048 \<le> sint raw div 16" "sint raw div 16 < 2048" by presburger+
  then have "\<bar>sint raw div 16\<bar> < 2 ^ 24" by simp
  ultimately show ?thesis by (simp add: reading_degrees_def tmp1075_from_raw_def f32_int)
qed

lemma tmp451_degrees:
  "reading_degrees (tmp451_from_high_low high low) = of_nat (unat high) + of_nat (unat low div 16) / 16"
proof -
  have "unat (tmp451_from_high_low high low) = unat high * 16 + unat low div 16"
  proof -
    have "tmp451_from_high_low high low = push_bit 4 (ucast high) + ucast (drop_bit 4 low)"
      unfolding tmp451_from_high_low_def by (rule disjunctive_add [symmetric])
        (use bit_imp_le_length [of low] in \<open>fastforce simp: bit_simps\<close>)
    moreover have "unat (push_bit 4 (ucast high) :: u16) = unat high * 16"
      using word_ranges(1) [of high] by (simp add: push_bit_eq_mult unat_word_ariths unat_widen)
    moreover have "unat (ucast (drop_bit 4 low) :: u16) = unat low div 16" by (simp add: unat_widen drop_bit_eq_div unat_div)
    ultimately show ?thesis using word_ranges(1) [of high] word_ranges(1) [of low] by (simp add: unat_word_ariths)
  qed
  moreover have n: "unat high * 16 + unat low div 16 < 4096" using word_ranges(1) [of high] word_ranges(1) [of low] by linarith
  moreover have "sint w = signed_take_bit 15 (int (unat w))" for w :: u16 by (simp add: sint_uint)
  ultimately have "sint (tmp451_from_high_low high low) = signed_take_bit 15 (int (unat high * 16 + unat low div 16))"
    by (simp only:)
  also have "\<dots> = int (unat high * 16 + unat low div 16)"
  proof (rule signed_take_bit_int_eq_self)
    show "- (2 ^ 15) \<le> int (unat high * 16 + unat low div 16)" by (rule order_trans [OF _ of_nat_0_le_iff]) simp
    have "int (unat high * 16 + unat low div 16) < int 4096" using n by (simp only: of_nat_less_iff)
    then show "int (unat high * 16 + unat low div 16) < 2 ^ 15" by (rule less_trans) simp
  qed
  finally have s: "sint (tmp451_from_high_low high low) = int (unat high * 16 + unat low div 16)" .
  have "\<bar>int (unat high * 16 + unat low div 16)\<bar> < 2 ^ 24"
  proof -
    have "int (unat high * 16 + unat low div 16) < int 4096" using n by (simp only: of_nat_less_iff)
    then show ?thesis unfolding abs_of_nat by (rule less_trans) simp
  qed
  from f32_int [OF this]
  have "reading_degrees (tmp451_from_high_low high low) = of_nat (unat high * 16 + unat low div 16) * (1 / 16)"
    unfolding reading_degrees_def s of_int_of_nat_eq by (rule arg_cong)
  then show ?thesis by (simp add: field_simps del: of_nat_unat)
qed

text \<open>The fan controller is only written to when it is one, and keeps the other bits of its configuration.\<close>

lemma emc2101_init_logged:
  assumes "emc2101_init (logged_i2c dev) a s = (r, t)"
  shows "(\<exists>ts. t = s @ ts \<and> list_all (\<lambda>x. \<exists>reg. x = BusWriteRead a [reg] 1) ts) \<or>
    (\<exists>config.
       take (length s + 5) t = s @ [BusWriteRead a [0xfe] 1, BusWriteRead a [0xfd] 1, BusWriteRead a [0xff] 1,
         BusWriteRead a [0x03] 1, BusWrite a [0x03, config OR 0x04]] \<and>
       (t = take (length s + 5) t \<or> t = take (length s + 5) t @ [BusWrite a [0x4a, 0x23]]))"
  using assms
  by (auto simp: emc2101_init_def and_then_def emc_read_def emc_write_def bus_result_def logged_i2c_def op_fail_def
      split: sum.splits if_splits)

end
