(* ===== verification/Other_Sources.thy ===== *)
theory Other_Sources
  imports Scheduler Chip_Config
begin

text \<open>
  The two job sources beside the pool: the wrapper that forces a share rate,
  \<open>job_source/forced_rate.rs\<close>, and the test source, \<open>job_source/dummy.rs\<close>. Each is a step function
  over what its \<open>select!\<close> picks, with what it sends in a log. The block the test source works on
  is an argument. A panic is \<open>None\<close>, or the outcome of that name.
\<close>

subsection \<open>Forced share rate\<close>

definition ShareRate_per_minute :: "rat \<Rightarrow> ShareRate option" where
  "ShareRate_per_minute shares = (if \<not> 0 < shares then None else from_secs_f64 (f64 (60 / shares)))"

text \<open>\<open>parse\<close> reads a float and gives nothing for one that is not finite.\<close>

definition ForcedRateConfig_from_env :: "string option \<Rightarrow> (string \<Rightarrow> rat option) \<Rightarrow> ShareRate option option" where
  "ForcedRateConfig_from_env var parse =
     map_option
       (\<lambda>val. ShareRate_per_minute (case parse val of Some v \<Rightarrow> if 0 < v then v else 18 | None \<Rightarrow> 18)) var"

record forced_source =
  fs_target_rate :: ShareRate
  fs_hashrate :: HashRate
  fs_events :: "SourceEvent list"
  fs_commands :: "SourceCommand list"

definition ForcedRateSource_new :: "ShareRate \<Rightarrow> forced_source" where
  "ForcedRateSource_new rate = \<lparr>fs_target_rate = rate, fs_hashrate = 0, fs_events = [], fs_commands = []\<rparr>"

definition modify_job :: "decoder \<Rightarrow> forced_source \<Rightarrow> JobTemplate \<Rightarrow> JobTemplate option" where
  "modify_job decode s job =
     (if HashRate_is_zero (fs_hashrate s) then Some job
      else map_option (\<lambda>target. job\<lparr>jt_share_target := target\<rparr>) (to_target decode (fs_target_rate s) (fs_hashrate s)))"

text \<open>
  What arrives, nothing when the sender is gone, and whether the receiver on the other side still
  takes what is sent on.
\<close>

datatype forced_input =
  InnerEvent "SourceEvent option" bool
| OuterCommand "SourceCommand option" bool
| ForcedCancelled

datatype forced_outcome = ForcedRunning | ForcedDone | ForcedSendFailed | ForcedPanicked

fun modify_event :: "decoder \<Rightarrow> forced_source \<Rightarrow> SourceEvent \<Rightarrow> SourceEvent option" where
  "modify_event decode s (UpdateJob job) = map_option UpdateJob (modify_job decode s job)"
| "modify_event decode s (ReplaceJob job) = map_option ReplaceJob (modify_job decode s job)"
| "modify_event decode s ClearJobs = Some ClearJobs"

definition note_hashrate :: "SourceCommand \<Rightarrow> forced_source \<Rightarrow> forced_source" where
  "note_hashrate cmd s = (case cmd of UpdateHashRate hr \<Rightarrow> s\<lparr>fs_hashrate := hr\<rparr> | _ \<Rightarrow> s)"

fun forced_step :: "decoder \<Rightarrow> forced_input \<Rightarrow> forced_source \<Rightarrow> forced_outcome \<times> forced_source" where
  "forced_step decode (InnerEvent None open_end) s = (ForcedDone, s)"
| "forced_step decode (InnerEvent (Some event) open_end) s =
     (case modify_event decode s event of
        None \<Rightarrow> (ForcedPanicked, s)
      | Some modified \<Rightarrow>
          if open_end then (ForcedRunning, s\<lparr>fs_events := fs_events s @ [modified]\<rparr>) else (ForcedSendFailed, s))"
| "forced_step decode (OuterCommand None open_end) s = (ForcedDone, s)"
| "forced_step decode (OuterCommand (Some cmd) open_end) s =
     (let s = note_hashrate cmd s
      in if open_end then (ForcedRunning, s\<lparr>fs_commands := fs_commands s @ [cmd]\<rparr>) else (ForcedSendFailed, s))"
| "forced_step decode ForcedCancelled s = (ForcedDone, s)"

fun forced_run :: "decoder \<Rightarrow> forced_input list \<Rightarrow> forced_source \<Rightarrow> forced_outcome \<times> forced_source" where
  "forced_run decode [] s = (ForcedRunning, s)"
| "forced_run decode (i # is) s =
     (case forced_step decode i s of
        (ForcedRunning, s) \<Rightarrow> forced_run decode is s
      | (outcome, s) \<Rightarrow> (outcome, s))"

subsection \<open>Test source\<close>

record test_block =
  tb_version :: i32
  tb_prev_blockhash :: bytes
  tb_bits :: u32
  tb_time :: u32
  tb_coinbase_prefix :: bytes
  tb_extranonce_prefix :: bytes
  tb_extranonce :: Extranonce
  tb_coinbase_suffix :: bytes
  tb_merkle_branches :: "bytes list"

definition dummy_template :: "decoder \<Rightarrow> test_block \<Rightarrow> JobTemplate option" where
  "dummy_template decode block =
     (case VersionTemplate_new (tb_version block AND NOT 0x1fffe000) GP_full of
        Inl _ \<Rightarrow> None
      | Inr version \<Rightarrow>
          Option.bind (ShareRate_per_minute 6) (\<lambda>rate.
          map_option
            (\<lambda>share_target.
               \<lparr>jt_id = ''dummy-0'', jt_prev_blockhash = tb_prev_blockhash block, jt_version = version,
                jt_bits = tb_bits block, jt_share_target = share_target, jt_time = tb_time block,
                jt_merkle_root = Computed
                  \<lparr>mt_coinbase_prefix = tb_coinbase_prefix block, mt_extranonce_prefix = tb_extranonce_prefix block,
                   mt_extranonce_range = starting_at (tb_extranonce block),
                   mt_coinbase_suffix = tb_coinbase_suffix block, mt_merkle_branches = tb_merkle_branches block\<rparr>\<rparr>)
            (to_target decode rate (HashRate_from_terahashes 1))))"

datatype dummy_input = DummyInterval bool | DummyCommand SourceCommand | DummyCancelled

text \<open>Whether the source goes on, and what it has sent; a send to a scheduler that is gone ends it.\<close>

fun dummy_step :: "JobTemplate \<Rightarrow> dummy_input \<Rightarrow> SourceEvent list \<Rightarrow> bool \<times> SourceEvent list" where
  "dummy_step job (DummyInterval open_end) sent = (if open_end then (True, sent @ [UpdateJob job]) else (False, sent))"
| "dummy_step job (DummyCommand cmd) sent = (True, sent)"
| "dummy_step job DummyCancelled sent = (False, sent)"

fun dummy_loop :: "JobTemplate \<Rightarrow> dummy_input list \<Rightarrow> SourceEvent list \<Rightarrow> SourceEvent list" where
  "dummy_loop job [] sent = sent"
| "dummy_loop job (i # is) sent =
     (case dummy_step job i sent of (True, sent) \<Rightarrow> dummy_loop job is sent | (False, sent) \<Rightarrow> sent)"

definition dummy_run :: "JobTemplate \<Rightarrow> bool \<Rightarrow> dummy_input list \<Rightarrow> SourceEvent list" where
  "dummy_run job open_end is = (if open_end then dummy_loop job is [UpdateJob job] else [])"

subsection \<open>The wrapper is transparent but for the target\<close>

fun with_target :: "(Target \<Rightarrow> Target) \<Rightarrow> SourceEvent \<Rightarrow> SourceEvent" where
  "with_target f (UpdateJob job) = UpdateJob (job\<lparr>jt_share_target := f (jt_share_target job)\<rparr>)"
| "with_target f (ReplaceJob job) = ReplaceJob (job\<lparr>jt_share_target := f (jt_share_target job)\<rparr>)"
| "with_target f ClearJobs = ClearJobs"

text \<open>
  What should be sent on: an event with its own target as long as no hashrate but zero is known,
  then with the target of the forced rate at the hashrate announced last.
\<close>

fun forced_events :: "(HashRate \<Rightarrow> Target) \<Rightarrow> HashRate \<Rightarrow> forced_input list \<Rightarrow> SourceEvent list" where
  "forced_events target hr [] = []"
| "forced_events target hr (InnerEvent (Some e) _ # is) =
     with_target (\<lambda>t. if hr = 0 then t else target hr) e # forced_events target hr is"
| "forced_events target hr (OuterCommand (Some (UpdateHashRate hr')) _ # is) = forced_events target hr' is"
| "forced_events target hr (_ # is) = forced_events target hr is"

fun forced_commands :: "forced_input list \<Rightarrow> SourceCommand list" where
  "forced_commands [] = []"
| "forced_commands (OuterCommand (Some cmd) _ # is) = cmd # forced_commands is"
| "forced_commands (_ # is) = forced_commands is"

definition rate_target :: "decoder \<Rightarrow> ShareRate \<Rightarrow> HashRate \<Rightarrow> Target" where
  "rate_target decode rate hr = the (to_target decode rate hr)"

lemma modify_event_eq:
  assumes "decodes decode"
  shows "modify_event decode s e =
    Some (with_target (\<lambda>t. if fs_hashrate s = 0 then t else rate_target decode (fs_target_rate s) (fs_hashrate s)) e)"
proof -
  obtain t where "to_target decode (fs_target_rate s) (fs_hashrate s) = Some t"
    using to_target_value [OF assms] by blast
  then show ?thesis
    by (cases e) (simp_all add: modify_job_def rate_target_def HashRate_is_zero_def)
qed

lemma forced_step_rate: "fs_target_rate (snd (forced_step decode i s)) = fs_target_rate s"
  by (cases "(decode, i, s)" rule: forced_step.cases)
    (auto simp: note_hashrate_def Let_def split: option.split SourceCommand.split)

lemma forced_run_never_panics:
  assumes "decodes decode"
  shows "fst (forced_run decode is s) \<noteq> ForcedPanicked"
proof (induction "is" arbitrary: s)
  case (Cons i "is")
  have "fst (forced_step decode i s) \<noteq> ForcedPanicked"
    by (cases "(decode, i, s)" rule: forced_step.cases) (simp_all add: modify_event_eq [OF assms] Let_def)
  then show ?case using Cons by (auto split: prod.split forced_outcome.split)
qed simp

lemma forced_run_transparent:
  assumes "decodes decode" and "forced_run decode is s = (ForcedRunning, t)"
  shows "fs_events t = fs_events s @ forced_events (rate_target decode (fs_target_rate s)) (fs_hashrate s) is \<and>
    fs_commands t = fs_commands s @ forced_commands is"
  using assms(2)
proof (induction "is" arbitrary: s)
  case (Cons i "is")
  obtain u where step: "forced_step decode i s = (ForcedRunning, u)" and run: "forced_run decode is u = (ForcedRunning, t)"
    using Cons.prems by (auto split: prod.splits forced_outcome.splits)
  have rate: "fs_target_rate u = fs_target_rate s" using forced_step_rate [of decode i s] step by simp
  show ?case
    using Cons.IH [OF run] step rate
    by (cases "(decode, i, s)" rule: forced_step.cases)
      (auto simp: modify_event_eq [OF assms(1)] note_hashrate_def Let_def split: if_splits SourceCommand.splits)
qed simp

subsection \<open>Limits of the configured rate\<close>

text \<open>Any positive rate is accepted, but one share in more than 2 ^ 64 seconds has no interval.\<close>

lemma slow_rate_panics:
  assumes "0 < v" and "v \<le> 60 / 2 ^ 64" and "parse val = Some v"
  shows "ForcedRateConfig_from_env (Some val) parse = Some None"
proof -
  have "2 ^ 64 \<le> 60 / v" using assms(1,2) by (simp add: field_simps)
  then have "f64 (2 powi 64) \<le> f64 (60 / v)" by (intro fl_mono) simp_all
  then have "2 ^ 64 \<le> f64 (60 / v)" unfolding f64_power2 by simp
  then show ?thesis
    using assms by (simp add: ForcedRateConfig_from_env_def ShareRate_per_minute_def from_secs_f64_def)
qed

lemma default_rate: "ForcedRateConfig_from_env None parse = None"
  by (simp add: ForcedRateConfig_from_env_def)

text \<open>The test source always has a template: the general-purpose bits of the version are cleared.\<close>

lemma dummy_template_exists:
  assumes "decodes decode"
  shows "\<exists>job. dummy_template decode block = Some job"
proof -
  have "drop_bit 13 (v AND NOT 0x1fffe000) AND 0xffff = (0 :: i32)" for v
  proof -
    have masks: "(0x1fffe000 :: i32) = push_bit 13 (mask 16)" "(0xffff :: i32) = mask 16" by code_simp+
    show ?thesis unfolding masks by (rule bit_eqI) (auto simp: bit_simps)
  qed
  then have v: "VersionTemplate_new (tb_version block AND NOT 0x1fffe000) GP_full =
      Inr \<lparr>vt_base = tb_version block AND NOT 0x1fffe000, vt_gp_bits_mask = GP_full\<rparr>"
    by (simp add: VersionTemplate_new_def)
  have r: "ShareRate_per_minute 6 = Some (nat (round_half_even 10000000000))"
    by (simp add: ShareRate_per_minute_def from_secs_f64_def)
  obtain t where "to_target decode (nat (round_half_even 10000000000)) (HashRate_from_terahashes 1) = Some t"
    using to_target_value [OF assms] by blast
  then show ?thesis unfolding dummy_template_def v r sum.case bind.bind_lunit by simp
qed

lemma dummy_run_jobs: "set (dummy_run job open_end is) \<subseteq> {UpdateJob job}"
proof -
  have "set (dummy_loop job is sent) \<subseteq> insert (UpdateJob job) (set sent)" for sent
  proof (induction "is" arbitrary: sent)
    case (Cons i "is")
    obtain b sent' where step: "dummy_step job i sent = (b, sent')" by fastforce
    then have "set sent' \<subseteq> insert (UpdateJob job) (set sent)" by (cases i) (auto split: if_splits)
    then show ?case using Cons [of sent'] step by (cases b) auto
  qed auto
  from this [of "[UpdateJob job]"] show ?thesis by (cases open_end) (simp_all add: dummy_run_def)
qed

end
