(* ===== verification/Boards.thy ===== *)
theory Boards
  imports Control_Protocol "HOL-Library.Sublist" "HOL-Library.Multiset"
begin

text \<open>
  Matching of USB devices to board drivers, \<open>board/pattern.rs\<close>, and the registries of \<open>board/mod.rs\<close>
  and \<open>backplane.rs\<close> with the descriptors that \<open>board/bitaxe.rs\<close>, \<open>emberone00.rs\<close> and \<open>cpu.rs\<close>
  register. A string is its UTF-8 bytes. The regular expression engine and Unicode lower case are
  library code, an argument: \<open>None\<close> is a pattern that does not compile. The linker chooses the order
  of the registered descriptors, so it is an argument as well.
\<close>

subsection \<open>Patterns\<close>

datatype 'a Match = Any | Specific 'a

fun is_any :: "'a Match \<Rightarrow> bool" where
  "is_any Any = True"
| "is_any (Specific _) = False"

fun is_specific :: "'a Match \<Rightarrow> bool" where
  "is_specific Any = False"
| "is_specific (Specific _) = True"

datatype StringMatch = Exact string | Regex string | Contains string

datatype BcdVersionMatch = BcdExact u16 | BcdMajor u8

record text_library =
  tl_regex :: "string \<Rightarrow> (string \<Rightarrow> bool) option"
  tl_lowercase :: "string \<Rightarrow> string"

fun BcdVersionMatch_matches :: "BcdVersionMatch \<Rightarrow> u16 \<Rightarrow> bool" where
  "BcdVersionMatch_matches (BcdExact expected) bcd_device \<longleftrightarrow> bcd_device = expected"
| "BcdVersionMatch_matches (BcdMajor major) bcd_device \<longleftrightarrow> ucast (drop_bit 8 bcd_device) = major"

fun BcdVersionMatch_specificity :: "BcdVersionMatch \<Rightarrow> nat" where
  "BcdVersionMatch_specificity (BcdExact _) = 15"
| "BcdVersionMatch_specificity (BcdMajor _) = 10"

definition StringMatch_matches :: "text_library \<Rightarrow> StringMatch \<Rightarrow> string option \<Rightarrow> bool" where
  "StringMatch_matches lib m s =
     (case s of
        None \<Rightarrow> False
      | Some v \<Rightarrow>
          (case m of
             Exact expected \<Rightarrow> v = expected
           | Regex pattern \<Rightarrow> (case tl_regex lib pattern of Some re \<Rightarrow> re v | None \<Rightarrow> False)
           | Contains substring \<Rightarrow> sublist (tl_lowercase lib substring) (tl_lowercase lib v)))"

fun StringMatch_specificity :: "StringMatch \<Rightarrow> nat" where
  "StringMatch_specificity (Exact _) = 20"
| "StringMatch_specificity (Regex _) = 15"
| "StringMatch_specificity (Contains _) = 10"

record UsbDeviceInfo =
  ud_vid :: u16
  ud_pid :: u16
  ud_bcd_device :: u16
  ud_serial_number :: "string option"
  ud_manufacturer :: "string option"
  ud_product :: "string option"
  ud_device_path :: string

record BoardPattern =
  bp_vid :: "u16 Match"
  bp_pid :: "u16 Match"
  bp_bcd_device :: "BcdVersionMatch Match"
  bp_manufacturer :: "StringMatch Match"
  bp_product :: "StringMatch Match"
  bp_serial_pattern :: "StringMatch Match"

definition wildcard :: BoardPattern where
  "wildcard = \<lparr>bp_vid = Any, bp_pid = Any, bp_bcd_device = Any, bp_manufacturer = Any, bp_product = Any,
     bp_serial_pattern = Any\<rparr>"

text \<open>\<open>if let Match::Specific(m) = field && !test(m)\<close>: the test that makes \<open>matches\<close> return early.\<close>

fun refuses :: "'a Match \<Rightarrow> ('a \<Rightarrow> bool) \<Rightarrow> bool" where
  "refuses Any test = False"
| "refuses (Specific m) test = (\<not> test m)"

definition BoardPattern_matches :: "text_library \<Rightarrow> BoardPattern \<Rightarrow> UsbDeviceInfo \<Rightarrow> bool" where
  "BoardPattern_matches lib p device =
     (if refuses (bp_vid p) (\<lambda>vid. ud_vid device = vid) then False
      else if refuses (bp_pid p) (\<lambda>pid. ud_pid device = pid) then False
      else if refuses (bp_bcd_device p) (\<lambda>m. BcdVersionMatch_matches m (ud_bcd_device device)) then False
      else if refuses (bp_manufacturer p) (\<lambda>m. StringMatch_matches lib m (ud_manufacturer device)) then False
      else if refuses (bp_product p) (\<lambda>m. StringMatch_matches lib m (ud_product device)) then False
      else if refuses (bp_serial_pattern p) (\<lambda>m. StringMatch_matches lib m (ud_serial_number device)) then False
      else True)"

fun specific_score :: "('a \<Rightarrow> nat) \<Rightarrow> 'a Match \<Rightarrow> nat" where
  "specific_score f Any = 0"
| "specific_score f (Specific m) = f m"

definition BoardPattern_specificity :: "BoardPattern \<Rightarrow> nat" where
  "BoardPattern_specificity p =
     (if is_specific (bp_vid p) then 10 else 0) +
     (if is_specific (bp_pid p) then 10 else 0) +
     specific_score BcdVersionMatch_specificity (bp_bcd_device p) +
     specific_score StringMatch_specificity (bp_manufacturer p) +
     specific_score StringMatch_specificity (bp_product p) +
     specific_score StringMatch_specificity (bp_serial_pattern p)"

subsection \<open>Registries\<close>

record 'f BoardDescriptor =
  bd_pattern :: BoardPattern
  bd_name :: string
  bd_create_fn :: 'f

record 'f VirtualBoardDescriptor =
  vd_device_type :: string
  vd_name :: string
  vd_create_fn :: 'f

text \<open>\<open>Iterator::max_by_key\<close> gives the last of several maximal elements.\<close>

definition max_by_key :: "('a \<Rightarrow> nat) \<Rightarrow> 'a list \<Rightarrow> 'a option" where
  "max_by_key f xs =
     fold (\<lambda>x best. case best of None \<Rightarrow> Some x | Some b \<Rightarrow> if f b \<le> f x then Some x else Some b) xs None"

definition find_descriptor ::
    "text_library \<Rightarrow> 'f BoardDescriptor list \<Rightarrow> UsbDeviceInfo \<Rightarrow> 'f BoardDescriptor option" where
  "find_descriptor lib registered device =
     max_by_key (\<lambda>desc. BoardPattern_specificity (bd_pattern desc))
       (filter (\<lambda>desc. BoardPattern_matches lib (bd_pattern desc) device) registered)"

definition find_virtual :: "'f VirtualBoardDescriptor list \<Rightarrow> string \<Rightarrow> 'f VirtualBoardDescriptor option" where
  "find_virtual registered device_type = find (\<lambda>desc. vd_device_type desc = device_type) registered"

datatype Firmware = BitaxeRaw | RhapD

fun Firmware_response_format :: "Firmware \<Rightarrow> ResponseFormat" where
  "Firmware_response_format BitaxeRaw = V0"
| "Firmware_response_format RhapD = V1"

fun Firmware_display :: "Firmware \<Rightarrow> string" where
  "Firmware_display BitaxeRaw = ''bitaxe-raw''"
| "Firmware_display RhapD = ''RHAP-D''"

datatype board_factory = BitaxeFactory Firmware | EmberOneFactory

definition bitaxe_raw_descriptor :: "board_factory BoardDescriptor" where
  "bitaxe_raw_descriptor =
     \<lparr>bd_pattern = \<lparr>bp_vid = Any, bp_pid = Any, bp_bcd_device = Any,
        bp_manufacturer = Specific (Exact ''OSMU''), bp_product = Specific (Exact ''Bitaxe''),
        bp_serial_pattern = Any\<rparr>,
      bd_name = ''Bitaxe Gamma'', bd_create_fn = BitaxeFactory BitaxeRaw\<rparr>"

definition bitaxe_rhapd_descriptor :: "board_factory BoardDescriptor" where
  "bitaxe_rhapd_descriptor =
     \<lparr>bd_pattern = \<lparr>bp_vid = Specific 0x1209, bp_pid = Specific 0x6102, bp_bcd_device = Any,
        bp_manufacturer = Specific (Exact ''OSMU''), bp_product = Specific (Exact ''Bitaxe Gamma RHAP-D''),
        bp_serial_pattern = Any\<rparr>,
      bd_name = ''Bitaxe Gamma'', bd_create_fn = BitaxeFactory RhapD\<rparr>"

definition emberone_descriptor :: "board_factory BoardDescriptor" where
  "emberone_descriptor =
     \<lparr>bd_pattern = \<lparr>bp_vid = Any, bp_pid = Any, bp_bcd_device = Any,
        bp_manufacturer = Specific (Exact ''256F''), bp_product = Specific (Exact ''EmberOne00''),
        bp_serial_pattern = Any\<rparr>,
      bd_name = ''emberOne/00'', bd_create_fn = EmberOneFactory\<rparr>"

abbreviation registered_boards :: "board_factory BoardDescriptor list" where
  "registered_boards \<equiv> [bitaxe_raw_descriptor, bitaxe_rhapd_descriptor, emberone_descriptor]"

definition cpu_descriptor :: "unit VirtualBoardDescriptor" where
  "cpu_descriptor = \<lparr>vd_device_type = ''cpu_miner'', vd_name = ''CPU Miner'', vd_create_fn = ()\<rparr>"

subsection \<open>What a pattern promises\<close>

lemma refuses_iff: "refuses m test \<longleftrightarrow> (\<exists>v. m = Specific v \<and> \<not> test v)"
  by (cases m) simp_all

lemma BoardPattern_matches_iff:
  "BoardPattern_matches lib p device \<longleftrightarrow>
     (\<forall>vid. bp_vid p = Specific vid \<longrightarrow> ud_vid device = vid) \<and>
     (\<forall>pid. bp_pid p = Specific pid \<longrightarrow> ud_pid device = pid) \<and>
     (\<forall>m. bp_bcd_device p = Specific m \<longrightarrow> BcdVersionMatch_matches m (ud_bcd_device device)) \<and>
     (\<forall>m. bp_manufacturer p = Specific m \<longrightarrow> StringMatch_matches lib m (ud_manufacturer device)) \<and>
     (\<forall>m. bp_product p = Specific m \<longrightarrow> StringMatch_matches lib m (ud_product device)) \<and>
     (\<forall>m. bp_serial_pattern p = Specific m \<longrightarrow> StringMatch_matches lib m (ud_serial_number device))"
  unfolding BoardPattern_matches_def refuses_iff by auto

text \<open>One pattern specialises another when it has each of its criteria; it then matches less and scores more.\<close>

definition specialises :: "BoardPattern \<Rightarrow> BoardPattern \<Rightarrow> bool" where
  "specialises q p \<longleftrightarrow>
     bp_vid p \<in> {Any, bp_vid q} \<and> bp_pid p \<in> {Any, bp_pid q} \<and> bp_bcd_device p \<in> {Any, bp_bcd_device q} \<and>
     bp_manufacturer p \<in> {Any, bp_manufacturer q} \<and> bp_product p \<in> {Any, bp_product q} \<and>
     bp_serial_pattern p \<in> {Any, bp_serial_pattern q}"

lemma specialises_narrower:
  assumes "specialises q p" "BoardPattern_matches lib q device"
  shows "BoardPattern_matches lib p device"
proof -
  have "refuses (bp_vid p) f \<longrightarrow> refuses (bp_vid q) f" "refuses (bp_pid p) f \<longrightarrow> refuses (bp_pid q) f"
    "refuses (bp_bcd_device p) g \<longrightarrow> refuses (bp_bcd_device q) g"
    "refuses (bp_manufacturer p) h \<longrightarrow> refuses (bp_manufacturer q) h"
    "refuses (bp_product p) h \<longrightarrow> refuses (bp_product q) h"
    "refuses (bp_serial_pattern p) h \<longrightarrow> refuses (bp_serial_pattern q) h" for f g h
    using assms(1) [unfolded specialises_def] by (auto simp: refuses_iff)
  then show ?thesis using assms(2) unfolding BoardPattern_matches_def by (simp split: if_splits) blast
qed

lemma specific_score_mono:
  assumes "m \<in> {Any, n}"
  shows "specific_score f m \<le> specific_score f n"
  using assms by auto

lemma specific_score_strict:
  assumes "m \<in> {Any, n}" "\<forall>v. 0 < f v" "specific_score f n \<le> specific_score f m"
  shows "m = n"
proof (rule ccontr)
  assume "m \<noteq> n"
  then obtain v where "m = Any" "n = Specific v" using assms(1) by (cases n) auto
  then show False using assms(2,3) by (simp add: not_less [symmetric])
qed

lemma specificity_positive: "\<forall>s. 0 < StringMatch_specificity s" "\<forall>b. 0 < BcdVersionMatch_specificity b"
proof -
  show "\<forall>s. 0 < StringMatch_specificity s" by (rule allI, case_tac s) simp_all
  show "\<forall>b. 0 < BcdVersionMatch_specificity b" by (rule allI, case_tac b) simp_all
qed

lemma is_specific_score: "(if is_specific m then k else 0) = specific_score (\<lambda>_. k) m"
  by (cases m) simp_all

lemma specialises_scores:
  assumes "specialises q p" "q \<noteq> p"
  shows "BoardPattern_specificity p < BoardPattern_specificity q"
proof (rule ccontr)
  assume no: "\<not> BoardPattern_specificity p < BoardPattern_specificity q"
  note s = assms(1) [unfolded specialises_def]
  note no = no [unfolded BoardPattern_specificity_def is_specific_score]
  from s have 1: "bp_vid p \<in> {Any, bp_vid q}" and 2: "bp_pid p \<in> {Any, bp_pid q}"
    and 3: "bp_bcd_device p \<in> {Any, bp_bcd_device q}" and 4: "bp_manufacturer p \<in> {Any, bp_manufacturer q}"
    and 5: "bp_product p \<in> {Any, bp_product q}" and 6: "bp_serial_pattern p \<in> {Any, bp_serial_pattern q}" by blast+
  note le = specific_score_mono [OF 1, of "\<lambda>_. 10"] specific_score_mono [OF 2, of "\<lambda>_. 10"]
    specific_score_mono [OF 3, of BcdVersionMatch_specificity] specific_score_mono [OF 4, of StringMatch_specificity]
    specific_score_mono [OF 5, of StringMatch_specificity] specific_score_mono [OF 6, of StringMatch_specificity]
  have "bp_vid p = bp_vid q" by (rule specific_score_strict [OF 1, of "\<lambda>_. 10"]) (simp, use no le in linarith)
  moreover have "bp_pid p = bp_pid q" by (rule specific_score_strict [OF 2, of "\<lambda>_. 10"]) (simp, use no le in linarith)
  moreover have "bp_bcd_device p = bp_bcd_device q"
    by (rule specific_score_strict [OF 3 specificity_positive(2)]) (use no le in linarith)
  moreover have "bp_manufacturer p = bp_manufacturer q"
    by (rule specific_score_strict [OF 4 specificity_positive(1)]) (use no le in linarith)
  moreover have "bp_product p = bp_product q"
    by (rule specific_score_strict [OF 5 specificity_positive(1)]) (use no le in linarith)
  moreover have "bp_serial_pattern p = bp_serial_pattern q"
    by (rule specific_score_strict [OF 6 specificity_positive(1)]) (use no le in linarith)
  ultimately show False using assms(2) by simp
qed

text \<open>The wildcard is at the bottom of this order: it matches everything and scores nothing.\<close>

lemma wildcard_least: "specialises p wildcard" "BoardPattern_matches lib wildcard device" "BoardPattern_specificity wildcard = 0"
  by (simp_all add: specialises_def wildcard_def BoardPattern_matches_def BoardPattern_specificity_def)

subsection \<open>Selection\<close>

lemma max_by_key_Nil [simp]: "max_by_key f [] = None"
  by (simp add: max_by_key_def)

lemma max_by_key_snoc [simp]:
  "max_by_key f (xs @ [x]) =
     (case max_by_key f xs of None \<Rightarrow> Some x | Some b \<Rightarrow> if f b \<le> f x then Some x else Some b)"
  by (simp add: max_by_key_def)

lemma max_by_key_None [simp]: "max_by_key f xs = None \<longleftrightarrow> xs = []"
  by (cases xs rule: rev_cases) (auto split: option.splits)

lemma max_by_key_Some: "max_by_key f xs = Some x \<Longrightarrow> x \<in> set xs \<and> (\<forall>y\<in>set xs. f y \<le> f x)"
proof (induction xs arbitrary: x rule: rev_induct)
  case (snoc z zs)
  then show ?case by (cases "max_by_key f zs") (fastforce split: if_splits)+
qed simp

text \<open>The last of the best: no element after it scores as much.\<close>

lemma max_by_key_last:
  "max_by_key f xs = Some x \<longleftrightarrow>
     (\<exists>ys zs. xs = ys @ x # zs \<and> (\<forall>y\<in>set ys. f y \<le> f x) \<and> (\<forall>z\<in>set zs. f z < f x))"
proof
  assume "max_by_key f xs = Some x"
  then show "\<exists>ys zs. xs = ys @ x # zs \<and> (\<forall>y\<in>set ys. f y \<le> f x) \<and> (\<forall>z\<in>set zs. f z < f x)"
  proof (induction xs rule: rev_induct)
    case (snoc z zs)
    show ?case
    proof (cases "x = z \<and> max_by_key f (zs @ [z]) = Some z \<and> (\<forall>y\<in>set zs. f y \<le> f z)")
      case True
      then have "zs @ [z] = zs @ x # [] \<and> (\<forall>y\<in>set zs. f y \<le> f x) \<and> (\<forall>y\<in>set []. f y < f x)" by simp
      then show ?thesis by blast
    next
      case False
      with snoc.prems have "max_by_key f zs = Some x" "f z < f x"
        by (auto split: option.splits if_splits dest: max_by_key_Some) (fastforce dest: max_by_key_Some)+
      with snoc.IH obtain ys ws where
        "zs = ys @ x # ws" "\<forall>y\<in>set ys. f y \<le> f x" "\<forall>w\<in>set ws. f w < f x" by blast
      then have "zs @ [z] = ys @ x # (ws @ [z]) \<and> (\<forall>y\<in>set ys. f y \<le> f x) \<and> (\<forall>w\<in>set (ws @ [z]). f w < f x)"
        using \<open>f z < f x\<close> by auto
      then show ?thesis by blast
    qed
  qed simp
next
  assume "\<exists>ys zs. xs = ys @ x # zs \<and> (\<forall>y\<in>set ys. f y \<le> f x) \<and> (\<forall>z\<in>set zs. f z < f x)"
  then obtain ys zs where xs: "xs = ys @ x # zs" "\<forall>y\<in>set ys. f y \<le> f x" "\<forall>z\<in>set zs. f z < f x" by blast
  have "max_by_key f (ys @ x # zs) = Some x" using xs(3)
  proof (induction zs rule: rev_induct)
    case Nil
    then show ?case using xs(2) by (auto split: option.splits dest!: max_by_key_Some)
  next
    case (snoc z zs)
    then have "max_by_key f ((ys @ x # zs) @ [z]) = Some x" unfolding max_by_key_snoc by simp
    then show ?case by simp
  qed
  then show "max_by_key f xs = Some x" by (simp add: xs(1))
qed

lemma filter_eq_middle:
  "filter P xs = us @ d # vs \<longleftrightarrow>
     (\<exists>ys zs. xs = ys @ d # zs \<and> P d \<and> filter P ys = us \<and> filter P zs = vs)"
proof
  assume "filter P xs = us @ d # vs"
  then show "\<exists>ys zs. xs = ys @ d # zs \<and> P d \<and> filter P ys = us \<and> filter P zs = vs"
  proof (induction us arbitrary: xs)
    case Nil
    then show ?case by (auto simp: filter_eq_Cons_iff filter_empty_conv)
  next
    case (Cons u us)
    then obtain as bs where x: "xs = as @ u # bs" "\<forall>a\<in>set as. \<not> P a" "P u" "filter P bs = us @ d # vs"
      by (auto simp: filter_eq_Cons_iff)
    from Cons.IH [OF x(4)] obtain ys zs where "bs = ys @ d # zs" "P d" "filter P ys = us" "filter P zs = vs" by blast
    then have "xs = (as @ u # ys) @ d # zs \<and> P d \<and> filter P (as @ u # ys) = u # us \<and> filter P zs = vs"
      using x by (simp add: filter_empty_conv)
    then show ?case by blast
  qed
qed auto

lemma filtered_all: "filter P ys = us \<Longrightarrow> (\<forall>u\<in>set us. Q u) \<longleftrightarrow> (\<forall>y\<in>set ys. P y \<longrightarrow> Q y)"
  by auto

lemma find_descriptor_iff:
  "find_descriptor lib registered device = Some d \<longleftrightarrow>
     (\<exists>ys zs. registered = ys @ d # zs \<and> BoardPattern_matches lib (bd_pattern d) device \<and>
       (\<forall>y\<in>set ys. BoardPattern_matches lib (bd_pattern y) device \<longrightarrow>
          BoardPattern_specificity (bd_pattern y) \<le> BoardPattern_specificity (bd_pattern d)) \<and>
       (\<forall>z\<in>set zs. BoardPattern_matches lib (bd_pattern z) device \<longrightarrow>
          BoardPattern_specificity (bd_pattern z) < BoardPattern_specificity (bd_pattern d)))"
  (is "?found \<longleftrightarrow> ?best")
proof
  assume ?found
  then show ?best
    unfolding find_descriptor_def max_by_key_last filter_eq_middle
  proof (elim exE conjE)
    fix us vs ys zs :: "'a BoardDescriptor list"
    assume scores: "\<forall>y\<in>set us. BoardPattern_specificity (bd_pattern y) \<le> BoardPattern_specificity (bd_pattern d)"
      "\<forall>z\<in>set vs. BoardPattern_specificity (bd_pattern z) < BoardPattern_specificity (bd_pattern d)"
    assume "registered = ys @ d # zs" "BoardPattern_matches lib (bd_pattern d) device"
      "filter (\<lambda>desc. BoardPattern_matches lib (bd_pattern desc) device) ys = us"
      "filter (\<lambda>desc. BoardPattern_matches lib (bd_pattern desc) device) zs = vs"
    then show ?best
      using scores(1) [unfolded filtered_all [OF \<open>filter _ ys = us\<close>]] scores(2) [unfolded filtered_all [OF \<open>filter _ zs = vs\<close>]]
      by blast
  qed
next
  assume ?best
  then show ?found
    unfolding find_descriptor_def max_by_key_last filter_eq_middle
    by (elim exE conjE, intro exI conjI) (assumption, assumption, rule refl, rule refl, simp_all)
qed

lemma find_descriptor_None:
  "find_descriptor lib registered device = None \<longleftrightarrow>
     (\<forall>d\<in>set registered. \<not> BoardPattern_matches lib (bd_pattern d) device)"
  by (simp add: find_descriptor_def filter_empty_conv)

text \<open>The registered patterns exclude one another, so the linker's order does not matter.\<close>

lemma registered_matches:
  "BoardPattern_matches lib (bd_pattern bitaxe_raw_descriptor) device \<longleftrightarrow>
     ud_manufacturer device = Some ''OSMU'' \<and> ud_product device = Some ''Bitaxe''"
  "BoardPattern_matches lib (bd_pattern bitaxe_rhapd_descriptor) device \<longleftrightarrow>
     ud_vid device = 0x1209 \<and> ud_pid device = 0x6102 \<and> ud_manufacturer device = Some ''OSMU'' \<and>
     ud_product device = Some ''Bitaxe Gamma RHAP-D''"
  "BoardPattern_matches lib (bd_pattern emberone_descriptor) device \<longleftrightarrow>
     ud_manufacturer device = Some ''256F'' \<and> ud_product device = Some ''EmberOne00''"
  by (auto simp: BoardPattern_matches_def bitaxe_raw_descriptor_def bitaxe_rhapd_descriptor_def
      emberone_descriptor_def StringMatch_matches_def split: option.splits)

lemma registered_exclusive:
  assumes "d \<in> set registered_boards" "e \<in> set registered_boards"
    and "BoardPattern_matches lib (bd_pattern d) device" "BoardPattern_matches lib (bd_pattern e) device"
  shows "d = e"
  using assms by (auto simp: registered_matches)

lemma registered_selection:
  assumes "mset registered = mset registered_boards" "d \<in> set registered_boards"
    and "BoardPattern_matches lib (bd_pattern d) device"
  shows "find_descriptor lib registered device = Some d"
proof -
  have same: "set registered = set registered_boards" using mset_eq_setD [OF assms(1)] .
  then have "find_descriptor lib registered device \<noteq> None"
    using assms(2,3) find_descriptor_None [of lib registered device] by auto
  then obtain e where e: "find_descriptor lib registered device = Some e" by blast
  then have "e \<in> set registered" "BoardPattern_matches lib (bd_pattern e) device"
    unfolding find_descriptor_iff by auto
  with registered_exclusive [OF assms(2) _ assms(3)] same e show ?thesis by auto
qed

end
