(* ===== verification/Usb_Transport.thy ===== *)
theory Usb_Transport
  imports Boards "HOL-Library.List_Lexorder" "HOL-Library.Char_ord"
begin

text \<open>
  Discovery of USB devices: the events of \<open>transport/mod.rs\<close> and \<open>cpu.rs\<close>, the monitor task of
  \<open>usb.rs\<close> and the search for serial ports of \<open>usb/linux.rs\<close>. The enumeration and hotplug library
  is what it delivers: a list of devices and a list of events; \<open>ok n\<close> says whether send \<open>n\<close> finds
  its receiver alive. A port search is given what each attempt sees in sysfs.
\<close>

subsection \<open>Events\<close>

record 'i nusb_device =
  nd_id :: 'i
  nd_vendor_id :: u16
  nd_product_id :: u16
  nd_device_version :: u16
  nd_serial_number :: "string option"
  nd_manufacturer_string :: "string option"
  nd_product_string :: "string option"
  nd_path :: string

definition build_device_info :: "'i nusb_device \<Rightarrow> UsbDeviceInfo" where
  "build_device_info device =
     \<lparr>ud_vid = nd_vendor_id device, ud_pid = nd_product_id device, ud_bcd_device = nd_device_version device,
      ud_serial_number = nd_serial_number device, ud_manufacturer = nd_manufacturer_string device,
      ud_product = nd_product_string device, ud_device_path = nd_path device\<rparr>"

datatype usb_event = UsbDeviceConnected UsbDeviceInfo | UsbDeviceDisconnected string

record CpuDeviceInfo =
  cd_device_id :: string
  cd_thread_count :: nat
  cd_duty_percent :: u8

datatype cpu_event = CpuDeviceConnected CpuDeviceInfo | CpuDeviceDisconnected string

datatype TransportEvent = Usb usb_event | Cpu cpu_event | InitialEnumerationComplete

subsection \<open>The monitor task\<close>

record 'i usb_monitor =
  um_known :: "'i \<rightharpoonup> string"
  um_sent :: "TransportEvent list"
  um_running :: bool

definition usb_send :: "(nat \<Rightarrow> bool) \<Rightarrow> TransportEvent \<Rightarrow> 'i usb_monitor \<Rightarrow> 'i usb_monitor" where
  "usb_send ok event m =
     (if ok (length (um_sent m)) then m\<lparr>um_sent := um_sent m @ [event]\<rparr> else m\<lparr>um_running := False\<rparr>)"

definition usb_connected :: "(nat \<Rightarrow> bool) \<Rightarrow> 'i nusb_device \<Rightarrow> 'i usb_monitor \<Rightarrow> 'i usb_monitor" where
  "usb_connected ok device m =
     (let info = build_device_info device
      in usb_send ok (Usb (UsbDeviceConnected info))
           (m\<lparr>um_known := (um_known m)(nd_id device \<mapsto> ud_device_path info)\<rparr>))"

fun usb_enumerate :: "(nat \<Rightarrow> bool) \<Rightarrow> 'i nusb_device list \<Rightarrow> 'i usb_monitor \<Rightarrow> 'i usb_monitor" where
  "usb_enumerate ok [] m = m"
| "usb_enumerate ok (device # devices) m =
     (let m' = usb_connected ok device m in if um_running m' then usb_enumerate ok devices m' else m')"

text \<open>What the loop's \<open>select!\<close> picks: an event of the watch, its end, or the shutdown token.\<close>

datatype 'i hotplug = HotConnected "'i nusb_device" | HotDisconnected 'i | HotEnded | HotShutdown

fun usb_hotplug :: "(nat \<Rightarrow> bool) \<Rightarrow> 'i hotplug \<Rightarrow> 'i usb_monitor \<Rightarrow> 'i usb_monitor" where
  "usb_hotplug ok (HotConnected device) m =
     (if um_known m (nd_id device) \<noteq> None then m else usb_connected ok device m)"
| "usb_hotplug ok (HotDisconnected i) m =
     (case um_known m i of
        None \<Rightarrow> m
      | Some device_path \<Rightarrow>
          usb_send ok (Usb (UsbDeviceDisconnected device_path)) (m\<lparr>um_known := (um_known m)(i := None)\<rparr>))"
| "usb_hotplug ok HotEnded m = m\<lparr>um_running := False\<rparr>"
| "usb_hotplug ok HotShutdown m = m\<lparr>um_running := False\<rparr>"

fun usb_watch :: "(nat \<Rightarrow> bool) \<Rightarrow> 'i hotplug list \<Rightarrow> 'i usb_monitor \<Rightarrow> 'i usb_monitor" where
  "usb_watch ok [] m = m"
| "usb_watch ok (e # es) m = (if um_running m then usb_watch ok es (usb_hotplug ok e m) else m)"

definition usb_new :: "'i usb_monitor" where
  "usb_new = \<lparr>um_known = Map.empty, um_sent = [], um_running = True\<rparr>"

text \<open>The enumeration can fail; the error ends the task before any event.\<close>

definition usb_monitor_run ::
    "(nat \<Rightarrow> bool) \<Rightarrow> 'e + 'i nusb_device list \<Rightarrow> 'i hotplug list \<Rightarrow> 'e + 'i usb_monitor" where
  "usb_monitor_run ok listed events =
     try_res listed (\<lambda>devices.
       let m = usb_enumerate ok devices usb_new;
           m = (if um_running m then usb_send ok InitialEnumerationComplete m else m)
       in Inr (usb_watch ok events m))"

subsection \<open>Serial ports on Linux\<close>

text \<open>
  One attempt: the children of the device in the tty subsystem, each with its device node if it
  has one in UTF-8, and whether a node can be read and written.
\<close>

record 'e port_scan =
  ps_children :: "'e + string option list"
  ps_accessible :: "string \<Rightarrow> bool"

definition scan_ports :: "'e port_scan \<Rightarrow> 'e + string list" where
  "scan_ports scan =
     try_res (ps_children scan) (\<lambda>children.
       let ports = List.map_filter (\<lambda>devnode. devnode) children
       in if ports = [] then Inr []
          else if \<not> list_all (ps_accessible scan) ports then Inr []
          else Inr (sort ports))"

definition PORT_RETRIES :: nat where
  "PORT_RETRIES = 20"

text \<open>The attempts \<open>attempt, \<dots>, 19\<close>; \<open>found\<close> is only for the message of the failure.\<close>

function port_attempts ::
    "(nat \<Rightarrow> 'e port_scan) \<Rightarrow> nat \<Rightarrow> nat \<Rightarrow> nat \<Rightarrow> ('e + nat) + string list" where
  "port_attempts scans expected attempt found =
     (if attempt < PORT_RETRIES then
        (case scan_ports (scans attempt) of
           Inl e \<Rightarrow> Inl (Inl e)
         | Inr ports \<Rightarrow>
             if expected \<le> length ports then Inr ports
             else port_attempts scans expected (attempt + 1) (max found (length ports)))
      else Inl (Inr found))"
  by auto
termination by (relation "measure (\<lambda>(scans, expected, attempt, found). PORT_RETRIES - attempt)") auto

declare port_attempts.simps [simp del]

definition get_serial_ports :: "(nat \<Rightarrow> 'e port_scan) \<Rightarrow> nat \<Rightarrow> ('e + nat) + string list" where
  "get_serial_ports scans expected = port_attempts scans expected 0 0"

subsection \<open>What the monitor sends\<close>

definition connects :: "string \<Rightarrow> TransportEvent list \<Rightarrow> nat" where
  "connects p events =
     length (filter (\<lambda>e. case e of Usb (UsbDeviceConnected info) \<Rightarrow> ud_device_path info = p | _ \<Rightarrow> False) events)"

definition disconnects :: "string \<Rightarrow> TransportEvent list \<Rightarrow> nat" where
  "disconnects p events = length (filter (\<lambda>e. e = Usb (UsbDeviceDisconnected p)) events)"

lemma connects_simps [simp]:
  "connects p [] = 0"
  "connects p (xs @ ys) = connects p xs + connects p ys"
  "connects p [Usb (UsbDeviceConnected info)] = of_bool (ud_device_path info = p)"
  "connects p [Usb (UsbDeviceDisconnected q)] = 0"
  "connects p [InitialEnumerationComplete] = 0"
  by (simp_all add: connects_def)

lemma disconnects_simps [simp]:
  "disconnects p [] = 0"
  "disconnects p (xs @ ys) = disconnects p xs + disconnects p ys"
  "disconnects p [Usb (UsbDeviceConnected info)] = 0"
  "disconnects p [Usb (UsbDeviceDisconnected q)] = of_bool (p = q)"
  "disconnects p [InitialEnumerationComplete] = 0"
  by (auto simp: disconnects_def)

definition devices_at :: "('i \<rightharpoonup> string) \<Rightarrow> string \<Rightarrow> 'i set" where
  "devices_at known p = {i. known i = Some p}"

lemma devices_at_simps:
  "i \<notin> dom known \<Longrightarrow> devices_at (known(i \<mapsto> q)) p = (if q = p then insert i (devices_at known p) else devices_at known p)"
  "devices_at (known(i := None)) p = devices_at known p - {i}"
  by (auto simp: devices_at_def)

text \<open>
  The books of the monitor: what it has announced and not withdrawn is what it knows. After a
  failed send the last event is missing, and nothing follows.
\<close>

definition usb_balanced :: "'i usb_monitor \<Rightarrow> bool" where
  "usb_balanced m \<longleftrightarrow>
     finite (dom (um_known m)) \<and>
     (\<forall>p. connects p (um_sent m) = disconnects p (um_sent m) + card (devices_at (um_known m) p))"

definition usb_sound :: "'i usb_monitor \<Rightarrow> bool" where
  "usb_sound m \<longleftrightarrow>
     (um_running m \<longrightarrow> usb_balanced m) \<and>
     (\<forall>k p. disconnects p (take k (um_sent m)) \<le> connects p (take k (um_sent m)))"

lemma finite_devices_at: "finite (dom known) \<Longrightarrow> finite (devices_at known p)"
  by (rule finite_subset [of _ "dom known"]) (auto simp: devices_at_def)

lemma usb_balanced_connected:
  assumes "usb_balanced m" "nd_id device \<notin> dom (um_known m)" "um_running (usb_connected ok device m)"
  shows "usb_balanced (usb_connected ok device m)"
proof -
  have no: "nd_id device \<notin> devices_at (um_known m) p" for p using assms(2) by (auto simp: devices_at_def)
  show ?thesis
    using assms no
    by (auto simp: usb_balanced_def usb_connected_def usb_send_def Let_def devices_at_simps finite_devices_at
        build_device_info_def split: if_splits)
qed

lemma usb_balanced_disconnected:
  assumes "usb_balanced m" "um_known m i = Some q"
  shows "usb_balanced (m\<lparr>um_known := (um_known m)(i := None), um_sent := um_sent m @ [Usb (UsbDeviceDisconnected q)]\<rparr>)"
proof -
  have "card (devices_at (um_known m) q) = Suc (card (devices_at (um_known m) q - {i}))"
    using assms by (intro card.remove) (simp_all add: usb_balanced_def finite_devices_at, simp add: devices_at_def)
  moreover have "devices_at (um_known m) p - {i} = devices_at (um_known m) p" if "p \<noteq> q" for p
    using assms(2) that by (auto simp: devices_at_def)
  ultimately show ?thesis using assms(1) by (auto simp: usb_balanced_def devices_at_simps)
qed

lemma usb_sound_send:
  assumes "usb_sound m" "\<And>p. disconnects p (um_sent m @ [e]) \<le> connects p (um_sent m @ [e])"
    and "um_running (usb_send ok e m') \<Longrightarrow> usb_balanced (usb_send ok e m')" "um_sent m' = um_sent m"
  shows "usb_sound (usb_send ok e m')"
proof -
  have "disconnects p (take k (um_sent m @ [e])) \<le> connects p (take k (um_sent m @ [e]))" for p k
  proof (cases "k \<le> length (um_sent m)")
    case True
    then have "take k (um_sent m @ [e]) = take k (um_sent m)" by simp
    then show ?thesis using assms(1) by (simp only: usb_sound_def)
  next
    case False
    then have "take k (um_sent m @ [e]) = um_sent m @ [e]" by simp
    then show ?thesis using assms(2) by (simp only:)
  qed
  moreover have "disconnects p (take k (um_sent m)) \<le> connects p (take k (um_sent m))" for p k
    using assms(1) by (simp add: usb_sound_def)
  ultimately show ?thesis using assms(3,4) by (auto simp: usb_sound_def usb_send_def)
qed

lemma usb_sound_all: "usb_sound m \<Longrightarrow> disconnects p (um_sent m) \<le> connects p (um_sent m)"
  unfolding usb_sound_def by (metis order_refl take_all)

lemma usb_sound_connected:
  assumes "usb_sound m" "um_running m" "nd_id device \<notin> dom (um_known m)"
  shows "usb_sound (usb_connected ok device m)"
proof -
  have "usb_balanced m" using assms by (simp add: usb_sound_def)
  from usb_balanced_connected [OF this assms(3), of ok]
  show ?thesis
    unfolding usb_connected_def Let_def
    by (intro usb_sound_send [OF assms(1)]) (use usb_sound_all [OF assms(1)] in \<open>simp_all add: trans_le_add1\<close>)
qed

lemma usb_sound_hotplug:
  assumes "usb_sound m" "um_running m"
  shows "usb_sound (usb_hotplug ok e m)"
proof (cases e)
  case (HotConnected device)
  then show ?thesis using assms usb_sound_connected [OF assms, of device ok] by auto
next
  case (HotDisconnected i)
  show ?thesis
  proof (cases "um_known m i")
    case None
    then show ?thesis using assms HotDisconnected by simp
  next
    case (Some q)
    have balanced: "usb_balanced m" using assms by (simp add: usb_sound_def)
    have "0 < card (devices_at (um_known m) q)"
      using balanced Some unfolding card_gt_0_iff
      by (simp add: usb_balanced_def finite_devices_at) (auto simp: devices_at_def)
    then have "disconnects q (um_sent m) < connects q (um_sent m)" using balanced by (simp add: usb_balanced_def)
    then have "disconnects p (um_sent m @ [Usb (UsbDeviceDisconnected q)]) \<le> connects p (um_sent m @ [Usb (UsbDeviceDisconnected q)])" for p
      using usb_sound_all [OF assms(1), of p] by auto
    then show ?thesis
      unfolding HotDisconnected usb_hotplug.simps Some option.case
      using usb_balanced_disconnected [OF balanced Some]
      by (intro usb_sound_send [OF assms(1)]) (auto simp: usb_send_def split: if_splits)
  qed
qed (use assms in \<open>auto simp: usb_sound_def\<close>)

lemma usb_sound_watch: "usb_sound m \<Longrightarrow> usb_sound (usb_watch ok es m)"
  by (induction es arbitrary: m) (auto simp: usb_sound_hotplug)

lemma usb_known_connected [simp]: "dom (um_known (usb_connected ok d m)) = insert (nd_id d) (dom (um_known m))"
  by (auto simp: usb_connected_def usb_send_def Let_def)

lemma usb_sound_enumerate:
  assumes "usb_sound m" "um_running m" "distinct (map nd_id ds)" "nd_id ` set ds \<inter> dom (um_known m) = {}"
  shows "usb_sound (usb_enumerate ok ds m)"
  using assms
proof (induction ds arbitrary: m)
  case (Cons d ds)
  have s: "usb_sound (usb_connected ok d m)" using Cons.prems by (intro usb_sound_connected) auto
  moreover have "usb_sound (usb_enumerate ok ds (usb_connected ok d m))" if "um_running (usb_connected ok d m)"
  proof (rule Cons.IH [OF s that])
    show "distinct (map nd_id ds)" using Cons.prems(3) by simp
    show "nd_id ` set ds \<inter> dom (um_known (usb_connected ok d m)) = {}"
      unfolding usb_known_connected using Cons.prems(3,4) by auto
  qed
  ultimately show ?case by (simp add: Let_def)
qed simp

lemma usb_sound_new: "usb_sound usb_new"
  by (simp add: usb_sound_def usb_balanced_def usb_new_def devices_at_def)

lemma usb_run_sound:
  assumes "distinct (map nd_id devices)" "usb_monitor_run ok (Inr devices) events = Inr m"
  shows "usb_sound m"
proof -
  have "usb_sound (usb_enumerate ok devices usb_new)"
    by (rule usb_sound_enumerate [OF usb_sound_new _ assms(1)]) (simp_all add: usb_new_def)
  moreover have "usb_sound (usb_send ok InitialEnumerationComplete m)" if "usb_sound m" for m :: "'a usb_monitor"
    using that usb_sound_all [OF that]
    by (intro usb_sound_send [OF that]) (auto simp: usb_sound_def usb_balanced_def usb_send_def split: if_splits)
  ultimately show ?thesis
    using assms(2) by (auto simp: usb_monitor_run_def Let_def intro!: usb_sound_watch split: if_splits)
qed

text \<open>While its receiver lives: the enumerated devices first, then the completion, once.\<close>

lemma usb_enumerate_sends:
  "(\<forall>n. ok n) \<Longrightarrow> um_running m \<Longrightarrow>
     um_sent (usb_enumerate ok ds m) = um_sent m @ map (Usb \<circ> UsbDeviceConnected \<circ> build_device_info) ds \<and>
     um_running (usb_enumerate ok ds m)"
  by (induction ds arbitrary: m) (simp_all add: usb_connected_def usb_send_def Let_def)

lemma usb_hotplug_sends: "\<exists>xs. um_sent (usb_hotplug ok e m) = um_sent m @ map Usb xs"
  by (cases e) (auto simp: usb_connected_def usb_send_def Let_def map_eq_Cons_conv split: option.splits
      intro: exI [of _ "[]"] exI [of _ "[x]" for x])

lemma usb_watch_sends: "\<exists>xs. um_sent (usb_watch ok es m) = um_sent m @ map Usb xs"
proof (induction es arbitrary: m)
  case (Cons e es)
  obtain xs where "um_sent (usb_hotplug ok e m) = um_sent m @ map Usb xs" using usb_hotplug_sends by blast
  moreover obtain ys where "um_sent (usb_watch ok es (usb_hotplug ok e m)) = um_sent (usb_hotplug ok e m) @ map Usb ys"
    using Cons.IH by blast
  ultimately have "um_sent (usb_watch ok (e # es) m) = um_sent m @ map Usb (if um_running m then xs @ ys else [])" by simp
  then show ?case by blast
qed (auto intro: exI [of _ "[]"])

lemma usb_run_sends:
  assumes "\<forall>n. ok n" "usb_monitor_run ok (Inr devices) events = Inr m"
  shows "\<exists>xs. um_sent m = map (Usb \<circ> UsbDeviceConnected \<circ> build_device_info) devices @ InitialEnumerationComplete # map Usb xs"
proof -
  let ?m = "usb_enumerate ok devices usb_new"
  have m: "um_sent ?m = map (Usb \<circ> UsbDeviceConnected \<circ> build_device_info) devices" "um_running ?m"
    using usb_enumerate_sends [OF assms(1), of usb_new devices] by (simp_all add: usb_new_def)
  obtain xs where "um_sent (usb_watch ok events (usb_send ok InitialEnumerationComplete ?m)) =
      um_sent (usb_send ok InitialEnumerationComplete ?m) @ map Usb xs"
    using usb_watch_sends by blast
  then show ?thesis using assms m by (auto simp: usb_monitor_run_def Let_def usb_send_def)
qed

subsection \<open>What the port search gives\<close>

definition good_scan :: "nat \<Rightarrow> 'e port_scan \<Rightarrow> string list \<Rightarrow> bool" where
  "good_scan expected scan ports \<longleftrightarrow> scan_ports scan = Inr ports \<and> expected \<le> length ports"

lemma first_from:
  "(\<exists>k. a \<le> k \<and> k < N \<and> G k \<and> (\<forall>j. a \<le> j \<and> j < k \<longrightarrow> F j)) \<longleftrightarrow>
     a < N \<and> (G a \<or> F a \<and> (\<exists>k. Suc a \<le> k \<and> k < N \<and> G k \<and> (\<forall>j. Suc a \<le> j \<and> j < k \<longrightarrow> F j)))"
  (is "?l \<longleftrightarrow> ?r")
proof
  assume ?l
  then obtain k where k: "a \<le> k" "k < N" "G k" "\<forall>j. a \<le> j \<and> j < k \<longrightarrow> F j" by blast
  show ?r
  proof (cases "k = a")
    case False
    then have "Suc a \<le> k" "F a" using k by auto
    then have "\<exists>k. Suc a \<le> k \<and> k < N \<and> G k \<and> (\<forall>j. Suc a \<le> j \<and> j < k \<longrightarrow> F j)"
      using k by (intro exI [of _ k]) auto
    then show ?thesis using k(1,2) \<open>F a\<close> by (simp add: less_le_trans le_less_trans)
  qed (use k in simp)
next
  assume ?r
  then consider "a < N" "G a" | k where "F a" "Suc a \<le> k" "k < N" "G k" "\<forall>j. Suc a \<le> j \<and> j < k \<longrightarrow> F j" by blast
  then show ?l
  proof cases
    case 1
    then show ?thesis by (intro exI [of _ a]) auto
  next
    case 2
    then have "\<forall>j. a \<le> j \<and> j < k \<longrightarrow> F j" by (metis Suc_leI le_neq_implies_less)
    then show ?thesis using 2 by (intro exI [of _ k]) auto
  qed
qed

definition few_ports :: "nat \<Rightarrow> 'e port_scan \<Rightarrow> bool" where
  "few_ports expected scan = (case scan_ports scan of Inl _ \<Rightarrow> False | Inr ports \<Rightarrow> length ports < expected)"

lemma port_attempts_iff:
  "port_attempts scans expected attempt found = Inr ports \<longleftrightarrow>
     (\<exists>k. attempt \<le> k \<and> k < PORT_RETRIES \<and> good_scan expected (scans k) ports \<and>
       (\<forall>j. attempt \<le> j \<and> j < k \<longrightarrow> few_ports expected (scans j)))"
proof (induction scans expected attempt found rule: port_attempts.induct)
  case (1 scans expected attempt found)
  show ?case
  proof (cases "attempt < PORT_RETRIES")
    case False
    then show ?thesis by (subst port_attempts.simps, subst first_from) simp
  next
    case True
    show ?thesis
    proof (cases "scan_ports (scans attempt)")
      case (Inl e)
      then show ?thesis using True
        by (subst port_attempts.simps, subst first_from) (simp add: good_scan_def few_ports_def)
    next
      case (Inr few)
      then show ?thesis using True 1 [OF True Inr]
        by (subst port_attempts.simps, subst first_from) (auto simp: good_scan_def few_ports_def)
    qed
  qed
qed

lemma scan_ports_Inr:
  "scan_ports scan = Inr ports \<Longrightarrow> sorted ports \<and> list_all (ps_accessible scan) ports"
  by (auto simp: scan_ports_def try_res_Inr_iff list_all_iff Let_def split: if_splits)

text \<open>
  The order is that of the names as texts: \<open>ttyACM10\<close> comes before \<open>ttyACM9\<close>, so a board whose
  control port is the ninth and whose data port is the tenth gets them swapped.
\<close>

lemma ports_swapped:
  "scan_ports \<lparr>ps_children = Inr [Some ''/dev/ttyACM9'', Some ''/dev/ttyACM10''], ps_accessible = \<lambda>_. True\<rparr> =
     Inr [''/dev/ttyACM10'', ''/dev/ttyACM9'']"
  by (simp add: scan_ports_def map_filter_simps)

end
