(* ===== verification/Backplane.thy ===== *)
theory Backplane
  imports Usb_Transport "HOL-Library.AList"
begin

text \<open>
  The backplane, \<open>backplane.rs\<close>: it turns the events of the transports into boards, hands their
  threads to the scheduler and shuts boards down. The hash map of active boards is an association
  list without duplicate keys, and \<open>wd_keys\<close> is the order in which the map yields its keys. The world
  also has the board factories and says which sends find their receiver. The logs record what was
  delivered and which shutdown futures were awaited.
\<close>

subsection \<open>State\<close>

record BoardInfo =
  bi_model :: string
  bi_firmware_version :: "string option"
  bi_serial_number :: "string option"

record ('t, 'r, 'h) BackplaneConnector =
  cn_info :: BoardInfo
  cn_threads :: "'t list"
  cn_telemetry_rx :: 'r
  cn_shutdown :: "'h option"

record 'h ActiveBoard =
  ab_info :: BoardInfo
  ab_shutdown :: "'h option"

datatype 't ThreadRegistration = RegThread 't | RegEnumerationComplete

record ('t, 'r, 'h) backplane =
  bk_boards :: "(string \<times> 'h ActiveBoard) list"
  bk_registered :: "'r list"
  bk_register_tries :: nat
  bk_scheduled :: "'t ThreadRegistration list"
  bk_schedule_tries :: nat
  bk_shut :: "'h list"

record ('f, 'v, 't, 'r, 'h) backplane_world =
  wd_text :: text_library
  wd_boards :: "'f BoardDescriptor list"
  wd_virtual :: "'v VirtualBoardDescriptor list"
  wd_create :: "('t, 'r, 'h) backplane \<Rightarrow> 'f \<Rightarrow> UsbDeviceInfo \<Rightarrow> ('t, 'r, 'h) BackplaneConnector option"
  wd_create_virtual :: "('t, 'r, 'h) backplane \<Rightarrow> 'v \<Rightarrow> ('t, 'r, 'h) BackplaneConnector option"
  wd_keys :: "('t, 'r, 'h) backplane \<Rightarrow> string list"
  wd_register_ok :: "nat \<Rightarrow> bool"
  wd_schedule_ok :: "nat \<Rightarrow> bool"

definition backplane_new :: "('t, 'r, 'h) backplane" where
  "backplane_new = \<lparr>bk_boards = [], bk_registered = [], bk_register_tries = 0, bk_scheduled = [], bk_schedule_tries = 0,
     bk_shut = []\<rparr>"

subsection \<open>Operations\<close>

definition register_board ::
    "('f, 'v, 't, 'r, 'h) backplane_world \<Rightarrow> 'r \<Rightarrow> ('t, 'r, 'h) backplane \<Rightarrow> ('t, 'r, 'h) backplane" where
  "register_board w r s =
     (let t = s\<lparr>bk_register_tries := bk_register_tries s + 1\<rparr>
      in if wd_register_ok w (bk_register_tries s) then t\<lparr>bk_registered := bk_registered s @ [r]\<rparr> else t)"

definition schedule ::
    "('f, 'v, 't, 'r, 'h) backplane_world \<Rightarrow> 't ThreadRegistration \<Rightarrow> ('t, 'r, 'h) backplane \<Rightarrow> bool \<times> ('t, 'r, 'h) backplane" where
  "schedule w r s =
     (let t = s\<lparr>bk_schedule_tries := bk_schedule_tries s + 1\<rparr>
      in if wd_schedule_ok w (bk_schedule_tries s) then (True, t\<lparr>bk_scheduled := bk_scheduled s @ [r]\<rparr>) else (False, t))"

fun send_threads ::
    "('f, 'v, 't, 'r, 'h) backplane_world \<Rightarrow> 't list \<Rightarrow> ('t, 'r, 'h) backplane \<Rightarrow> ('t, 'r, 'h) backplane" where
  "send_threads w [] s = s"
| "send_threads w (thread # threads) s =
     (case schedule w (RegThread thread) s of (ok, t) \<Rightarrow> if ok then send_threads w threads t else t)"

definition start_board ::
    "('f, 'v, 't, 'r, 'h) backplane_world \<Rightarrow> string \<Rightarrow> ('t, 'r, 'h) BackplaneConnector \<Rightarrow>
     ('t, 'r, 'h) backplane \<Rightarrow> ('t, 'r, 'h) backplane" where
  "start_board w board_id conn s =
     (let s = register_board w (cn_telemetry_rx conn) s;
          s = send_threads w (cn_threads conn) s
      in s\<lparr>bk_boards := AList.update board_id \<lparr>ab_info = cn_info conn, ab_shutdown = cn_shutdown conn\<rparr> (bk_boards s)\<rparr>)"

definition send_enumeration_complete ::
    "('f, 'v, 't, 'r, 'h) backplane_world \<Rightarrow> ('t, 'r, 'h) backplane \<Rightarrow> ('t, 'r, 'h) backplane" where
  "send_enumeration_complete w s = snd (schedule w RegEnumerationComplete s)"

text \<open>\<open>if let Some(board) = self.boards.remove(id) { board.shutdown().await; }\<close>\<close>

definition remove_board :: "string \<Rightarrow> ('t, 'r, 'h) backplane \<Rightarrow> ('t, 'r, 'h) backplane option" where
  "remove_board board_id s =
     (case map_of (bk_boards s) board_id of
        None \<Rightarrow> None
      | Some board \<Rightarrow>
          Some (s\<lparr>bk_boards := AList.delete board_id (bk_boards s),
                  bk_shut := bk_shut s @ (case ab_shutdown board of None \<Rightarrow> [] | Some fut \<Rightarrow> [fut])\<rparr>))"

fun shutdown_boards :: "string list \<Rightarrow> ('t, 'r, 'h) backplane \<Rightarrow> ('t, 'r, 'h) backplane" where
  "shutdown_boards [] s = s"
| "shutdown_boards (board_id # ids) s =
     (case remove_board board_id s of None \<Rightarrow> shutdown_boards ids s | Some t \<Rightarrow> shutdown_boards ids t)"

definition shutdown_all_boards ::
    "('f, 'v, 't, 'r, 'h) backplane_world \<Rightarrow> ('t, 'r, 'h) backplane \<Rightarrow> ('t, 'r, 'h) backplane" where
  "shutdown_all_boards w s = shutdown_boards (wd_keys w s) s"

text \<open>The loop of a USB disconnection: it breaks at the first board it could remove.\<close>

fun shutdown_one :: "string list \<Rightarrow> ('t, 'r, 'h) backplane \<Rightarrow> ('t, 'r, 'h) backplane" where
  "shutdown_one [] s = s"
| "shutdown_one (board_id # ids) s =
     (case remove_board board_id s of None \<Rightarrow> shutdown_one ids s | Some t \<Rightarrow> t)"

fun handle_usb_event ::
    "('f, 'v, 't, 'r, 'h) backplane_world \<Rightarrow> usb_event \<Rightarrow> ('t, 'r, 'h) backplane \<Rightarrow> ('t, 'r, 'h) backplane" where
  "handle_usb_event w (UsbDeviceConnected device_info) s =
     (case find_descriptor (wd_text w) (wd_boards w) device_info of
        None \<Rightarrow> s
      | Some descriptor \<Rightarrow>
          (case wd_create w s (bd_create_fn descriptor) device_info of
             None \<Rightarrow> s
           | Some conn \<Rightarrow>
               start_board w (case bi_serial_number (cn_info conn) of Some serial \<Rightarrow> serial | None \<Rightarrow> ''unknown'') conn s))"
| "handle_usb_event w (UsbDeviceDisconnected device_path) s = shutdown_one (wd_keys w s) s"

fun handle_cpu_event ::
    "('f, 'v, 't, 'r, 'h) backplane_world \<Rightarrow> cpu_event \<Rightarrow> ('t, 'r, 'h) backplane \<Rightarrow> ('t, 'r, 'h) backplane" where
  "handle_cpu_event w (CpuDeviceConnected device_info) s =
     (case find_virtual (wd_virtual w) ''cpu_miner'' of
        None \<Rightarrow> s
      | Some descriptor \<Rightarrow>
          (case wd_create_virtual w s (vd_create_fn descriptor) of
             None \<Rightarrow> s
           | Some conn \<Rightarrow> start_board w (cd_device_id device_info) conn s))"
| "handle_cpu_event w (CpuDeviceDisconnected device_id) s =
     (case remove_board device_id s of None \<Rightarrow> s | Some t \<Rightarrow> t)"

subsection \<open>The event loop\<close>

record ('t, 'r, 'h) backplane_loop =
  lp_backplane :: "('t, 'r, 'h) backplane"
  lp_completed :: "nat set"
  lp_completion_sent :: bool

fun backplane_step ::
    "('f, 'v, 't, 'r, 'h) backplane_world \<Rightarrow> nat \<Rightarrow> nat \<times> TransportEvent \<Rightarrow>
     ('t, 'r, 'h) backplane_loop \<Rightarrow> ('t, 'r, 'h) backplane_loop" where
  "backplane_step w transport_count (transport, Usb e) l = l\<lparr>lp_backplane := handle_usb_event w e (lp_backplane l)\<rparr>"
| "backplane_step w transport_count (transport, Cpu e) l = l\<lparr>lp_backplane := handle_cpu_event w e (lp_backplane l)\<rparr>"
| "backplane_step w transport_count (transport, InitialEnumerationComplete) l =
     (let completed = insert transport (lp_completed l); l = l\<lparr>lp_completed := completed\<rparr>
      in if \<not> lp_completion_sent l \<and> card completed = transport_count
         then l\<lparr>lp_backplane := send_enumeration_complete w (lp_backplane l), lp_completion_sent := True\<rparr>
         else l)"

definition backplane_start ::
    "('f, 'v, 't, 'r, 'h) backplane_world \<Rightarrow> nat \<Rightarrow> ('t, 'r, 'h) backplane \<Rightarrow> ('t, 'r, 'h) backplane_loop" where
  "backplane_start w transport_count s =
     (if transport_count = 0
      then \<lparr>lp_backplane = send_enumeration_complete w s, lp_completed = {}, lp_completion_sent = True\<rparr>
      else \<lparr>lp_backplane = s, lp_completed = {}, lp_completion_sent = False\<rparr>)"

text \<open>The events as the merged stream yields them, each with the number of its transport.\<close>

definition backplane_run ::
    "('f, 'v, 't, 'r, 'h) backplane_world \<Rightarrow> nat \<Rightarrow> (nat \<times> TransportEvent) list \<Rightarrow>
     ('t, 'r, 'h) backplane \<Rightarrow> ('t, 'r, 'h) backplane_loop" where
  "backplane_run w transport_count events s =
     fold (backplane_step w transport_count) events (backplane_start w transport_count s)"

subsection \<open>The boards as a map\<close>

definition keys_listed :: "('f, 'v, 't, 'r, 'h) backplane_world \<Rightarrow> bool" where
  "keys_listed w \<longleftrightarrow> (\<forall>s. set (wd_keys w s) = fst ` set (bk_boards s))"

definition future_list :: "'h ActiveBoard \<Rightarrow> 'h list" where
  "future_list board = (case ab_shutdown board of None \<Rightarrow> [] | Some fut \<Rightarrow> [fut])"

text \<open>The shutdown futures the backplane owns or has awaited.\<close>

definition futures :: "('t, 'r, 'h) backplane \<Rightarrow> 'h multiset" where
  "futures s = mset (bk_shut s) + mset (concat (map (\<lambda>kb. future_list (snd kb)) (bk_boards s)))"

definition boards_distinct :: "('t, 'r, 'h) backplane \<Rightarrow> bool" where
  "boards_distinct s \<longleftrightarrow> distinct (map fst (bk_boards s))"

lemma delete_futures:
  assumes "distinct (map fst bs)" "map_of bs k = Some b"
  shows "mset (concat (map (\<lambda>kb. future_list (snd kb)) bs)) =
     mset (future_list b) + mset (concat (map (\<lambda>kb. future_list (snd kb)) (AList.delete k bs)))"
  using assms
proof (induction bs)
  case (Cons x bs)
  show ?case
  proof (cases "fst x = k")
    case True
    then have "k \<notin> fst ` set bs" using Cons.prems(1) by auto
    then have "AList.delete k (x # bs) = bs" using True by (cases x) (simp add: delete_id)
    then show ?thesis using True Cons.prems(2) by (cases x) simp
  next
    case False
    then have "mset (concat (map (\<lambda>kb. future_list (snd kb)) bs)) =
        mset (future_list b) + mset (concat (map (\<lambda>kb. future_list (snd kb)) (AList.delete k bs)))"
      using Cons.prems False by (intro Cons.IH) (cases x, simp)+
    then show ?thesis using False by (cases x) (simp add: ac_simps)
  qed
qed simp

lemma update_futures:
  assumes "distinct (map fst bs)"
  shows "mset (concat (map (\<lambda>kb. future_list (snd kb)) (AList.update k b bs))) +
       (case map_of bs k of None \<Rightarrow> {#} | Some old \<Rightarrow> mset (future_list old)) =
     mset (concat (map (\<lambda>kb. future_list (snd kb)) bs)) + mset (future_list b)"
  using assms
proof (induction bs)
  case (Cons x bs)
  then show ?case by (cases x; cases "fst x = k") (auto simp: ac_simps)
qed simp

lemma remove_board_Some:
  assumes "remove_board k s = Some t" "boards_distinct s"
  shows "futures t = futures s" "boards_distinct t" "bk_boards t = AList.delete k (bk_boards s)"
    "bk_scheduled t = bk_scheduled s" "\<exists>b. map_of (bk_boards s) k = Some b \<and> bk_shut t = bk_shut s @ future_list b"
proof -
  obtain b where b: "map_of (bk_boards s) k = Some b"
    and t: "t = s\<lparr>bk_boards := AList.delete k (bk_boards s), bk_shut := bk_shut s @ future_list b\<rparr>"
    using assms(1) by (auto simp: remove_board_def future_list_def split: option.splits)
  show "futures t = futures s"
    using delete_futures [OF _ b] assms(2) by (simp add: futures_def t boards_distinct_def ac_simps)
  show "boards_distinct t" using assms(2) by (simp add: t boards_distinct_def distinct_delete)
  show "bk_boards t = AList.delete k (bk_boards s)" "bk_scheduled t = bk_scheduled s" by (simp_all add: t)
  show "\<exists>b. map_of (bk_boards s) k = Some b \<and> bk_shut t = bk_shut s @ future_list b" using b by (simp add: t)
qed

lemma remove_board_None: "remove_board k s = None \<longleftrightarrow> k \<notin> fst ` set (bk_boards s)"
  using map_of_eq_None_iff [of "bk_boards s" k] by (auto simp: remove_board_def split: option.splits)

lemma dom_delete_keys: "fst ` set (AList.delete k bs) = fst ` set bs - {k}"
  by (induction bs) auto

lemma shutdown_boards_conserves:
  assumes "boards_distinct s"
  shows "futures (shutdown_boards ids s) = futures s \<and> boards_distinct (shutdown_boards ids s) \<and>
    bk_scheduled (shutdown_boards ids s) = bk_scheduled s \<and>
    fst ` set (bk_boards (shutdown_boards ids s)) = fst ` set (bk_boards s) - set ids"
  using assms
proof (induction ids arbitrary: s)
  case (Cons k ids)
  show ?case
  proof (cases "remove_board k s")
    case None
    then have "k \<notin> fst ` set (bk_boards s)" by (simp add: remove_board_None)
    then show ?thesis using Cons None by auto
  next
    case (Some t)
    note t = remove_board_Some [OF Some Cons.prems]
    show ?thesis using Cons.IH [OF t(2)] Some t by (auto simp: dom_delete_keys)
  qed
qed simp

text \<open>Shutting down all boards awaits the future of each exactly once and leaves none.\<close>

lemma shutdown_all_complete:
  assumes "keys_listed w" "boards_distinct s"
  shows "bk_boards (shutdown_all_boards w s) = []" "mset (bk_shut (shutdown_all_boards w s)) = futures s"
proof -
  note all = shutdown_boards_conserves [OF assms(2), of "wd_keys w s"]
  then show none: "bk_boards (shutdown_all_boards w s) = []"
    using assms(1) by (simp add: shutdown_all_boards_def keys_listed_def)
  show "mset (bk_shut (shutdown_all_boards w s)) = futures s"
    using all none unfolding shutdown_all_boards_def by (simp add: futures_def)
qed

subsection \<open>Starting a board\<close>

lemma send_threads_fields [simp]:
  "bk_boards (send_threads w ts s) = bk_boards s" "bk_shut (send_threads w ts s) = bk_shut s"
  "bk_registered (send_threads w ts s) = bk_registered s"
  by (induction ts arbitrary: s) (auto simp: schedule_def Let_def)

lemma register_board_fields [simp]:
  "bk_boards (register_board w r s) = bk_boards s" "bk_shut (register_board w r s) = bk_shut s"
  "bk_scheduled (register_board w r s) = bk_scheduled s" "bk_schedule_tries (register_board w r s) = bk_schedule_tries s"
  by (auto simp: register_board_def Let_def)

lemma send_enumeration_complete_fields [simp]:
  "bk_boards (send_enumeration_complete w s) = bk_boards s" "bk_shut (send_enumeration_complete w s) = bk_shut s"
  by (auto simp: send_enumeration_complete_def schedule_def Let_def)

lemma start_board_futures:
  assumes "boards_distinct s"
  shows "boards_distinct (start_board w k conn s)"
    and "futures (start_board w k conn s) +
        (case map_of (bk_boards s) k of None \<Rightarrow> {#} | Some old \<Rightarrow> mset (future_list old)) =
      futures s + mset (case cn_shutdown conn of None \<Rightarrow> [] | Some fut \<Rightarrow> [fut])"
proof -
  show "boards_distinct (start_board w k conn s)"
    using assms by (simp add: start_board_def boards_distinct_def distinct_update)
  show "futures (start_board w k conn s) +
        (case map_of (bk_boards s) k of None \<Rightarrow> {#} | Some old \<Rightarrow> mset (future_list old)) =
      futures s + mset (case cn_shutdown conn of None \<Rightarrow> [] | Some fut \<Rightarrow> [fut])"
    using update_futures [of "bk_boards s" k "\<lparr>ab_info = cn_info conn, ab_shutdown = cn_shutdown conn\<rparr>"] assms
    by (simp add: start_board_def futures_def boards_distinct_def ac_simps future_list_def [of "\<lparr>ab_info = _, ab_shutdown = _\<rparr>"])
qed

lemma schedule_all:
  assumes "\<forall>n. wd_schedule_ok w n"
  shows "fst (schedule w r s)" "bk_scheduled (snd (schedule w r s)) = bk_scheduled s @ [r]"
  using assms by (simp_all add: schedule_def Let_def)

lemma send_threads_scheduled:
  "\<exists>us vs. ts = us @ vs \<and> bk_scheduled (send_threads w ts s) = bk_scheduled s @ map RegThread us \<and>
     ((\<forall>n. wd_schedule_ok w n) \<longrightarrow> vs = [])"
proof (induction ts arbitrary: s)
  case (Cons t ts)
  obtain ok s' where s': "schedule w (RegThread t) s = (ok, s')" by fastforce
  show ?case
  proof (cases ok)
    case True
    then have "bk_scheduled s' = bk_scheduled s @ [RegThread t]"
      using s' by (auto simp: schedule_def Let_def split: if_splits)
    moreover obtain us vs where "ts = us @ vs \<and> bk_scheduled (send_threads w ts s') = bk_scheduled s' @ map RegThread us \<and>
        ((\<forall>n. wd_schedule_ok w n) \<longrightarrow> vs = [])" using Cons.IH by blast
    ultimately have "t # ts = (t # us) @ vs \<and> bk_scheduled (send_threads w (t # ts) s) = bk_scheduled s @ map RegThread (t # us) \<and>
        ((\<forall>n. wd_schedule_ok w n) \<longrightarrow> vs = [])" using s' True by auto
    then show ?thesis by blast
  next
    case False
    then have "bk_scheduled s' = bk_scheduled s" "\<not> (\<forall>n. wd_schedule_ok w n)"
      using s' by (auto simp: schedule_def Let_def split: if_splits)
    then show ?thesis using s' False by (intro exI [of _ "[]"] exI [of _ "t # ts"]) simp
  qed
qed simp

subsection \<open>What the scheduler is sent\<close>

lemma start_board_scheduled: "\<exists>us. bk_scheduled (start_board w k conn s) = bk_scheduled s @ map RegThread us"
  using send_threads_scheduled [of "cn_threads conn" w "register_board w (cn_telemetry_rx conn) s"]
  by (auto simp: start_board_def Let_def)

lemma shutdown_one_scheduled: "bk_scheduled (shutdown_one ids s) = bk_scheduled s"
  by (induction ids) (auto simp: remove_board_def split: option.splits)

lemma no_threads: "\<exists>us. xs = xs @ map RegThread us"
  by (rule exI [of _ "[]"]) simp

lemma handle_usb_scheduled: "\<exists>us. bk_scheduled (handle_usb_event w e s) = bk_scheduled s @ map RegThread us"
  by (cases e) (auto simp: shutdown_one_scheduled no_threads start_board_scheduled split: option.splits)

lemma handle_cpu_scheduled: "\<exists>us. bk_scheduled (handle_cpu_event w e s) = bk_scheduled s @ map RegThread us"
  by (cases e) (auto simp: no_threads start_board_scheduled remove_board_def split: option.splits)

definition all_enumerated :: "nat \<Rightarrow> (nat \<times> TransportEvent) list \<Rightarrow> bool" where
  "all_enumerated n events \<longleftrightarrow> (\<forall>t<n. (t, InitialEnumerationComplete) \<in> set events)"

lemma all_enumerated_other:
  "all_enumerated n (events @ [(t, Usb u)]) = all_enumerated n events"
  "all_enumerated n (events @ [(t, Cpu c)]) = all_enumerated n events"
  by (simp_all add: all_enumerated_def)

text \<open>The loop counts the transports that have reported.\<close>

lemma backplane_loop_counts:
  assumes "\<forall>e\<in>set events. fst e < n"
  shows "lp_completed (backplane_run w n events s) = {t. (t, InitialEnumerationComplete) \<in> set events} \<and>
    lp_completion_sent (backplane_run w n events s) = all_enumerated n events"
  using assms
proof (induction events rule: rev_induct)
  case Nil
  then show ?case by (auto simp: backplane_run_def backplane_start_def all_enumerated_def)
next
  case (snoc e events)
  let ?l = "backplane_run w n events s"
  have run: "backplane_run w n (events @ [d]) s = backplane_step w n d ?l" for d by (simp add: backplane_run_def)
  have IH: "lp_completed ?l = {t. (t, InitialEnumerationComplete) \<in> set events}"
    "lp_completion_sent ?l = all_enumerated n events" using snoc by auto
  obtain t x where e: "e = (t, x)" by (cases e)
  have t: "t < n" using snoc.prems e by simp
  show ?case
  proof (cases x)
    case InitialEnumerationComplete
    let ?done = "{t. (t, InitialEnumerationComplete) \<in> set (events @ [e])}"
    have ins: "insert t {t. (t, InitialEnumerationComplete) \<in> set events} = ?done"
      using e InitialEnumerationComplete by auto
    have "?done \<subseteq> {..<n}" using snoc.prems by force
    then have "card ?done = n \<longleftrightarrow> ?done = {..<n}"
      by (metis card_lessThan card_subset_eq finite_lessThan)
    also have "\<dots> \<longleftrightarrow> all_enumerated n (events @ [e])"
      using \<open>?done \<subseteq> {..<n}\<close> by (auto simp: all_enumerated_def)
    finally have count: "card ?done = n \<longleftrightarrow> all_enumerated n (events @ [e])" .
    have mono: "all_enumerated n events \<Longrightarrow> all_enumerated n (events @ [e])" by (auto simp: all_enumerated_def)
    have step: "lp_completed (backplane_step w n e ?l) = insert t (lp_completed ?l)"
      "lp_completion_sent (backplane_step w n e ?l) =
         (lp_completion_sent ?l \<or> card (insert t (lp_completed ?l)) = n)"
      by (simp_all add: e InitialEnumerationComplete Let_def)
    show ?thesis unfolding run step IH ins count using mono by blast
  qed (use IH in \<open>simp_all add: run e all_enumerated_other\<close>)
qed

lemma backplane_step_scheduled:
  assumes "\<forall>n. wd_schedule_ok w n"
  shows "\<exists>us. bk_scheduled (lp_backplane (backplane_step w n e l)) =
    bk_scheduled (lp_backplane l) @ map RegThread us @
      (if lp_completion_sent (backplane_step w n e l) \<and> \<not> lp_completion_sent l then [RegEnumerationComplete] else [])"
proof -
  obtain t x where e: "e = (t, x)" by (cases e)
  show ?thesis
  proof (cases x)
    case (Usb u)
    then show ?thesis using handle_usb_scheduled [of w u "lp_backplane l"] by (auto simp: e)
  next
    case (Cpu c)
    then show ?thesis using handle_cpu_scheduled [of w c "lp_backplane l"] by (auto simp: e)
  next
    case InitialEnumerationComplete
    then show ?thesis
      by (intro exI [of _ "[]"]) (auto simp: e Let_def send_enumeration_complete_def schedule_all [OF assms])
  qed
qed

lemma completion_monotone: "lp_completion_sent l \<Longrightarrow> lp_completion_sent (backplane_step w n e l)"
  by (cases e; cases "snd e") (auto simp: Let_def)

text \<open>The completion is sent when the last transport has reported, once, and behind every thread sent before.\<close>

lemma backplane_steps_scheduled:
  assumes "\<forall>n. wd_schedule_ok w n"
  shows "\<exists>us vs. bk_scheduled (lp_backplane (fold (backplane_step w n) events l)) =
    bk_scheduled (lp_backplane l) @ map RegThread us @
      (if lp_completion_sent (fold (backplane_step w n) events l) \<and> \<not> lp_completion_sent l
       then RegEnumerationComplete # map RegThread vs else [])"
proof (induction events arbitrary: l)
  case Nil
  show ?case by (intro exI [of _ "[]"]) simp
next
  case (Cons e events)
  let ?l = "backplane_step w n e l" and ?sent = "lp_completion_sent (fold (backplane_step w n) (e # events) l)"
  obtain us where us: "bk_scheduled (lp_backplane ?l) = bk_scheduled (lp_backplane l) @ map RegThread us @
      (if lp_completion_sent ?l \<and> \<not> lp_completion_sent l then [RegEnumerationComplete] else [])"
    using backplane_step_scheduled [OF assms] by blast
  obtain vs ws where vs: "bk_scheduled (lp_backplane (fold (backplane_step w n) events ?l)) =
      bk_scheduled (lp_backplane ?l) @ map RegThread vs @
      (if ?sent \<and> \<not> lp_completion_sent ?l then RegEnumerationComplete # map RegThread ws else [])"
    using Cons.IH [of ?l] by auto
  have mono: "lp_completion_sent m \<Longrightarrow> lp_completion_sent (fold (backplane_step w n) es m)" for es m
    by (induction es arbitrary: m) (simp_all add: completion_monotone)
  show ?case
  proof (cases "lp_completion_sent ?l \<and> \<not> lp_completion_sent l")
    case True
    then have "?sent" using mono [of ?l events] by simp
    then show ?thesis using us vs True by (intro exI [of _ us] exI [of _ vs]) simp
  next
    case False
    have "lp_completion_sent l \<Longrightarrow> lp_completion_sent ?l" by (rule completion_monotone)
    then show ?thesis using us vs False by (intro exI [of _ "us @ vs"] exI [of _ ws]) auto
  qed
qed

text \<open>The threads of the board that an event starts in a state of the backplane.\<close>

fun started_threads ::
    "('f, 'v, 't, 'r, 'h) backplane_world \<Rightarrow> TransportEvent \<Rightarrow> ('t, 'r, 'h) backplane \<Rightarrow> 't list" where
  "started_threads w (Usb (UsbDeviceConnected device_info)) s =
     (case find_descriptor (wd_text w) (wd_boards w) device_info of
        None \<Rightarrow> []
      | Some descriptor \<Rightarrow>
          (case wd_create w s (bd_create_fn descriptor) device_info of None \<Rightarrow> [] | Some conn \<Rightarrow> cn_threads conn))"
| "started_threads w (Cpu (CpuDeviceConnected device_info)) s =
     (case find_virtual (wd_virtual w) ''cpu_miner'' of
        None \<Rightarrow> []
      | Some descriptor \<Rightarrow>
          (case wd_create_virtual w s (vd_create_fn descriptor) of None \<Rightarrow> [] | Some conn \<Rightarrow> cn_threads conn))"
| "started_threads w _ s = []"

lemma start_board_threads:
  assumes "\<forall>n. wd_schedule_ok w n"
  shows "bk_scheduled (start_board w k conn s) = bk_scheduled s @ map RegThread (cn_threads conn)"
  using send_threads_scheduled [of "cn_threads conn" w "register_board w (cn_telemetry_rx conn) s"] assms
  by (auto simp: start_board_def Let_def)

lemma backplane_step_threads:
  assumes "\<forall>n. wd_schedule_ok w n"
  shows "bk_scheduled (lp_backplane (backplane_step w n e l)) =
    bk_scheduled (lp_backplane l) @ map RegThread (started_threads w (snd e) (lp_backplane l)) @
      (if lp_completion_sent (backplane_step w n e l) \<and> \<not> lp_completion_sent l then [RegEnumerationComplete] else [])"
proof -
  obtain t x where e: "e = (t, x)" by (cases e)
  show ?thesis
  proof (cases x)
    case (Usb u)
    then show ?thesis
      by (cases u) (auto simp: e start_board_threads [OF assms] shutdown_one_scheduled split: option.split)
  next
    case (Cpu c)
    then show ?thesis
      by (cases c) (auto simp: e start_board_threads [OF assms] remove_board_def split: option.split)
  next
    case InitialEnumerationComplete
    then show ?thesis by (auto simp: e Let_def send_enumeration_complete_def schedule_all [OF assms])
  qed
qed

text \<open>
  What the scheduler has been sent, event by event: the threads of the board the event started, and the
  completion at the event with which the last transport reported (at once when there is none).
\<close>

lemma backplane_run_messages:
  assumes "\<forall>e\<in>set events. fst e < n" and "\<forall>k. wd_schedule_ok w k"
  shows "bk_scheduled (lp_backplane (backplane_run w n events backplane_new)) =
    (if n = 0 then [RegEnumerationComplete] else []) @ concat (map (\<lambda>k.
        map RegThread (started_threads w (snd (events ! k)) (lp_backplane (backplane_run w n (take k events) backplane_new))) @
        (if all_enumerated n (take (Suc k) events) \<and> \<not> all_enumerated n (take k events) then [RegEnumerationComplete] else []))
      [0..<length events])"
  using assms(1)
proof (induction events rule: rev_induct)
  case Nil
  then show ?case
    by (simp add: backplane_run_def backplane_start_def backplane_new_def send_enumeration_complete_def schedule_all [OF assms(2)])
next
  case (snoc e events)
  let ?l = "backplane_run w n events backplane_new"
  have run: "backplane_run w n (events @ [e]) backplane_new = backplane_step w n e ?l" by (simp add: backplane_run_def)
  have sent: "lp_completion_sent (backplane_step w n e ?l) = all_enumerated n (events @ [e])"
    "lp_completion_sent ?l = all_enumerated n events"
    using backplane_loop_counts [of "events @ [e]" n w backplane_new] backplane_loop_counts [of events n w backplane_new]
      snoc.prems by (simp_all add: run)
  define msgs where "msgs es k =
      map RegThread (started_threads w (snd (es ! k)) (lp_backplane (backplane_run w n (take k es) backplane_new))) @
      (if all_enumerated n (take (Suc k) es) \<and> \<not> all_enumerated n (take k es) then [RegEnumerationComplete] else [])"
    for es and k
  have same: "map (msgs (events @ [e])) [0..<length events] = map (msgs events) [0..<length events]"
    by (rule map_cong) (auto simp: msgs_def nth_append)
  have "bk_scheduled (lp_backplane ?l) = (if n = 0 then [RegEnumerationComplete] else []) @
      concat (map (msgs events) [0..<length events])"
    using snoc unfolding msgs_def by simp
  note IH = this [folded same]
  have "bk_scheduled (lp_backplane (backplane_run w n (events @ [e]) backplane_new)) =
      (if n = 0 then [RegEnumerationComplete] else []) @ concat (map (msgs (events @ [e])) [0..<length (events @ [e])])"
    unfolding run backplane_step_threads [OF assms(2)] sent IH by (simp add: msgs_def [of _ "length events"] nth_append)
  then show ?case unfolding msgs_def .
qed

subsection \<open>Disconnections\<close>

lemma shutdown_one_some:
  assumes "set ids = fst ` set (bk_boards s)" "bk_boards s \<noteq> []" "boards_distinct s"
  shows "\<exists>k b. map_of (bk_boards s) k = Some b \<and> bk_boards (shutdown_one ids s) = AList.delete k (bk_boards s) \<and>
    bk_shut (shutdown_one ids s) = bk_shut s @ future_list b"
proof (cases ids)
  case Nil
  then show ?thesis using assms by simp
next
  case (Cons k ks)
  then have "remove_board k s \<noteq> None" using assms(1) remove_board_None [of k s] by auto
  then obtain t where t: "remove_board k s = Some t" by blast
  then show ?thesis using remove_board_Some [OF t assms(3)] Cons by auto
qed

lemma boards_distinct_usb: "boards_distinct s \<Longrightarrow> boards_distinct (handle_usb_event w e s)"
proof (cases e)
  case (UsbDeviceDisconnected p)
  have "boards_distinct s \<Longrightarrow> boards_distinct (shutdown_one ids s)" for ids
    by (induction ids) (auto split: option.splits dest: remove_board_Some)
  then show "boards_distinct s \<Longrightarrow> ?thesis" using UsbDeviceDisconnected by simp
qed (auto split: option.splits intro: start_board_futures)

lemma boards_distinct_cpu: "boards_distinct s \<Longrightarrow> boards_distinct (handle_cpu_event w e s)"
  by (cases e) (auto split: option.splits intro: start_board_futures dest: remove_board_Some)

lemma boards_distinct_run:
  assumes "boards_distinct s"
  shows "boards_distinct (lp_backplane (backplane_run w n events s))"
proof (induction events rule: rev_induct)
  case Nil
  then show ?case using assms by (simp add: backplane_run_def backplane_start_def boards_distinct_def)
next
  case (snoc e events)
  then have "boards_distinct (lp_backplane (backplane_step w n e (backplane_run w n events s)))"
    by (cases e; cases "snd e")
      (auto simp: Let_def boards_distinct_usb boards_distinct_cpu,
        auto simp: boards_distinct_def)
  then show ?case by (simp add: backplane_run_def)
qed

text \<open>A second board under the key of an active one replaces it; the shutdown of the first is never run.\<close>

lemma replaced_board_not_shut:
  assumes "keys_listed w" "boards_distinct s" "map_of (bk_boards s) k = Some old" "ab_shutdown old = Some fut"
    and "count (futures s) fut = 1" "cn_shutdown conn \<noteq> Some fut"
  shows "fut \<notin> set (bk_shut (shutdown_all_boards w (start_board w k conn s)))"
proof -
  let ?t = "start_board w k conn s"
  note t = start_board_futures [OF assms(2), of w k conn]
  have "count (futures ?t) fut + 1 = count (futures s) fut"
    using arg_cong [OF t(2), of "\<lambda>m. count m fut"] assms(3,4,6) by (cases "cn_shutdown conn") (auto simp: future_list_def)
  then have "fut \<notin># futures ?t" using assms(5) by (simp add: not_in_iff)
  then show ?thesis using shutdown_all_complete(2) [OF assms(1) t(1)] by (metis set_mset_mset)
qed

end
