(* ===== verification/Bitaxe_Board.thy ===== *)
theory Bitaxe_Board
  imports Tps546_Props Sensors Backplane
begin

text \<open>
  The Bitaxe board, \<open>board/bitaxe.rs\<close>: bring-up of its peripherals, the reset line, and the monitor
  task with its thermal cut-out and its shutdown. All peripherals share one management channel, so
  one state serves the I2C bus and the reset pin. The hash thread works on the same hardware; its
  accesses are inputs between the monitor's. Instants are nanoseconds. The record logs what the
  monitor saw of the temperature, its telemetry, the levels ordered for the
  reset pin (also those whose write fails) and the shutdown requests.
\<close>

subsection \<open>The board's hardware\<close>

record 's board_io =
  io_bus :: "'s i2c"
  io_pin :: "u8 \<Rightarrow> bool \<Rightarrow> 's \<Rightarrow> (hw_error + unit) \<times> 's"
  io_set_frequency :: "u32 \<Rightarrow> 's \<Rightarrow> (hw_error + unit) \<times> 's"

definition raw_io :: "control_world \<Rightarrow> channel_state board_io" where
  "raw_io env = \<lparr>io_bus = raw_i2c env, io_pin = gpio_write env, io_set_frequency = i2c_set_frequency env\<rparr>"

record Fan =
  fan_name :: string
  fan_rpm :: "u32 option"
  fan_percent :: "u8 option"
  fan_target_percent :: "u8 option"

record TemperatureSensor =
  ts_name :: string
  ts_temperature :: "rat option"

record PowerMeasurement =
  pm_name :: string
  pm_voltage_v :: "rat option"
  pm_current_a :: "rat option"
  pm_power_w :: "rat option"

record BoardTelemetry =
  bt_name :: string
  bt_model :: string
  bt_serial :: "string option"
  bt_fans :: "Fan list"
  bt_temperatures :: "TemperatureSensor list"
  bt_powers :: "PowerMeasurement list"

datatype monitor_end = MonitorFailed | MonitorCancelled

record 's bitaxe =
  bx_regulator :: "'s tps546"
  bx_released_since :: "nat option"
  bx_lock_ok :: bool
  bx_pin_orders :: "bool list"
  bx_bad_thermal_count :: nat
  bx_readings :: "(bool \<times> (emc2101_error + rat)) list"
  bx_last_log :: nat
  bx_telemetry :: "BoardTelemetry list"
  bx_thread_shutdowns :: nat
  bx_ended :: "monitor_end option"

definition on_i2c :: "('s \<Rightarrow> ('e + 'a) \<times> 's) \<Rightarrow> 's bitaxe \<Rightarrow> ('e + 'a) \<times> 's bitaxe" where
  "on_i2c f s =
     (case f (tp_i2c (bx_regulator s)) of (r, i) \<Rightarrow> (r, s\<lparr>bx_regulator := (bx_regulator s)\<lparr>tp_i2c := i\<rparr>\<rparr>))"

definition on_regulator :: "('s, 'a) tps546_op \<Rightarrow> 's bitaxe \<Rightarrow> (tps546_error + 'a) \<times> 's bitaxe" where
  "on_regulator f s = (case f (bx_regulator s) of (r, t) \<Rightarrow> (r, s\<lparr>bx_regulator := t\<rparr>))"

subsection \<open>Reset line\<close>

datatype reset_error = ResetFailed hw_error | LockPoisoned

definition ASIC_RESET_PIN :: u8 where
  "ASIC_RESET_PIN = 0"

definition write_reset_pin :: "'s board_io \<Rightarrow> bool \<Rightarrow> 's bitaxe \<Rightarrow> (hw_error + unit) \<times> 's bitaxe" where
  "write_reset_pin io high s = on_i2c (io_pin io ASIC_RESET_PIN high) (s\<lparr>bx_pin_orders := bx_pin_orders s @ [high]\<rparr>)"

definition reset_assert :: "'s board_io \<Rightarrow> 's bitaxe \<Rightarrow> (reset_error + unit) \<times> 's bitaxe" where
  "reset_assert io s =
     (case write_reset_pin io False s of
        (Inl e, s) \<Rightarrow> (Inl (ResetFailed e), s)
      | (Inr _, s) \<Rightarrow> if bx_lock_ok s then (Inr (), s\<lparr>bx_released_since := None\<rparr>) else (Inl LockPoisoned, s))"

definition reset_release :: "'s board_io \<Rightarrow> nat \<Rightarrow> 's bitaxe \<Rightarrow> (reset_error + unit) \<times> 's bitaxe" where
  "reset_release io now s =
     (case write_reset_pin io True s of
        (Inl e, s) \<Rightarrow> (Inl (ResetFailed e), s)
      | (Inr _, s) \<Rightarrow> if bx_lock_ok s then (Inr (), s\<lparr>bx_released_since := Some now\<rparr>) else (Inl LockPoisoned, s))"

definition released_since :: "'s bitaxe \<Rightarrow> reset_error + nat option" where
  "released_since s = (if bx_lock_ok s then Inr (bx_released_since s) else Inl LockPoisoned)"

subsection \<open>Bring-up\<close>

datatype bitaxe_error = PinError hw_error | FrequencyError hw_error | FanError emc2101_error | RegulatorError tps546_error

definition lift_error :: "('e \<Rightarrow> 'f) \<Rightarrow> ('s \<Rightarrow> ('e + 'a) \<times> 's) \<Rightarrow> 's \<Rightarrow> ('f + 'a) \<times> 's" where
  "lift_error err f s = (case f s of (Inl e, t) \<Rightarrow> (Inl (err e), t) | (Inr a, t) \<Rightarrow> (Inr a, t))"

definition Percent_FULL :: Percent where
  "Percent_FULL = 100"

definition init_fan_controller :: "'s board_io \<Rightarrow> 's bitaxe \<Rightarrow> (bitaxe_error + unit) \<times> 's bitaxe" where
  "init_fan_controller io =
     and_then (lift_error FanError (on_i2c (emc2101_init (io_bus io) EMC2101_ADDRESS))) (\<lambda>_.
       lift_error FanError (on_i2c (set_fan_speed (io_bus io) EMC2101_ADDRESS Percent_FULL)))"

definition bitaxe_power_config :: Tps546Config where
  "bitaxe_power_config =
     \<lparr>tc_phase = 0x00, tc_frequency_switch_khz = 650,
      tc_vin_on = Voltage_from_volts (f32 (48 / 10)),
      tc_vin_off = Voltage_from_volts (f32 (45 / 10)),
      tc_vin_uv_warn_limit = Voltage_from_volts 0,
      tc_vin_ov_fault_limit = Voltage_from_volts (f32 (65 / 10)),
      tc_vin_ov_fault_response = 0xB7,
      tc_vout_scale_loop = 1 / 4,
      tc_vout_min = Voltage_from_volts 1,
      tc_vout_max = Voltage_from_volts 2,
      tc_vout_command = Voltage_from_volts (f32 (115 / 100)),
      tc_vout_ov_fault_limit = Ratio_from_factor (f32 (125 / 100)),
      tc_vout_ov_warn_limit = Ratio_from_factor (f32 (116 / 100)),
      tc_vout_margin_high = Ratio_from_factor (f32 (110 / 100)),
      tc_vout_margin_low = Ratio_from_factor (f32 (90 / 100)),
      tc_vout_uv_warn_limit = Ratio_from_factor (f32 (90 / 100)),
      tc_vout_uv_fault_limit = Ratio_from_factor (f32 (75 / 100)),
      tc_iout_oc_warn_limit = 25, tc_iout_oc_fault_limit = 30, tc_iout_oc_fault_response = 0xC0,
      tc_ot_warn_limit = 105, tc_ot_fault_limit = 145, tc_ot_fault_response = 0xFF,
      tc_ton_delay = 0, tc_ton_rise = 3, tc_ton_max_fault_limit = 0, tc_ton_max_fault_response = 0x3B,
      tc_toff_delay = 0, tc_toff_fall = 0, tc_pin_detect_override = 0xFFFF\<rparr>"

definition DEFAULT_VOUT :: Voltage where
  "DEFAULT_VOUT = Voltage_from_volts (f32 (115 / 100))"

definition init_power_controller :: "'s board_io \<Rightarrow> ('s, unit) tps546_op" where
  "init_power_controller io =
     and_then (tps546_init (io_bus io) bitaxe_power_config) (\<lambda>_.
     and_then (set_vout_target (io_bus io) bitaxe_power_config DEFAULT_VOUT) (\<lambda>_.
     and_then (clear_faults (io_bus io)) (\<lambda>_.
       try_op (dump_configuration (io_bus io)))))"

text \<open>The part of \<open>attach\<close> after the ports are open: reset is asserted before anything else happens.\<close>

definition bitaxe_new :: "'s \<Rightarrow> 's bitaxe" where
  "bitaxe_new i2c =
     \<lparr>bx_regulator = Tps546_new i2c, bx_released_since = None, bx_lock_ok = True, bx_pin_orders = [],
      bx_bad_thermal_count = 0, bx_readings = [], bx_last_log = 0, bx_telemetry = [], bx_thread_shutdowns = 0,
      bx_ended = None\<rparr>"

definition bitaxe_attach :: "'s board_io \<Rightarrow> 's bitaxe \<Rightarrow> (bitaxe_error + unit) \<times> 's bitaxe" where
  "bitaxe_attach io =
     and_then (lift_error PinError (write_reset_pin io False)) (\<lambda>_.
     and_then (lift_error FrequencyError (on_i2c (io_set_frequency io 100000))) (\<lambda>_.
     and_then (init_fan_controller io) (\<lambda>_.
       lift_error RegulatorError (on_regulator (init_power_controller io)))))"

text \<open>
  The names made from a serial number. A slice that ends inside a character of several bytes
  panics; here the bytes that continue a character are those from 0x80 to 0xBF.
\<close>

definition char_boundary :: "string \<Rightarrow> nat \<Rightarrow> bool" where
  "char_boundary s n \<longleftrightarrow>
     n = length s \<or> (n < length s \<and> \<not> (128 \<le> (of_char (s ! n) :: nat) \<and> (of_char (s ! n) :: nat) < 192))"

definition bitaxe_thread_name :: "string option \<Rightarrow> string option" where
  "bitaxe_thread_name serial_number =
     (case serial_number of
        Some serial \<Rightarrow>
          (let n = min 8 (length serial)
           in if char_boundary serial n then Some (''Bitaxe-Gamma-'' @ take n serial) else None)
      | None \<Rightarrow> Some ''Bitaxe-Gamma'')"

definition bitaxe_board_name :: "string option \<Rightarrow> string" where
  "bitaxe_board_name serial_number =
     ''bitaxe-'' @ (case serial_number of Some serial \<Rightarrow> serial | None \<Rightarrow> ''unknown'')"

definition bitaxe_board_info :: "Firmware \<Rightarrow> string option \<Rightarrow> BoardInfo" where
  "bitaxe_board_info firmware serial_number =
     \<lparr>bi_model = ''Bitaxe Gamma'', bi_firmware_version = Some (Firmware_display firmware),
      bi_serial_number = serial_number\<rparr>"

subsection \<open>The monitor\<close>

definition DIODE_SETTLE :: nat where
  "DIODE_SETTLE = 500000000"

definition LOG_INTERVAL :: nat where
  "LOG_INTERVAL = 30000000000"

definition BAD_READING_LIMIT :: nat where
  "BAD_READING_LIMIT = 3"

text \<open>The counter and the temperature to publish after one reading; \<open>Inl\<close> is a read that failed.\<close>

definition classify :: "bool \<Rightarrow> 'e + rat \<Rightarrow> nat \<Rightarrow> nat \<times> rat option" where
  "classify ready raw_temp bad =
     (if ready then
        (case raw_temp of
           Inr t \<Rightarrow>
             if \<not> (0 \<le> t \<and> t \<le> 120) then (bad + 1, None)
             else if 80 \<le> t then (bad + 1, Some t)
             else (0, Some t)
         | Inl _ \<Rightarrow> (bad + 1, None))
      else (0, None))"

definition sum_ok :: "'e + 'a \<Rightarrow> 'a option" where
  "sum_ok r = (case r of Inl _ \<Rightarrow> None | Inr a \<Rightarrow> Some a)"

definition read_fan :: "'s board_io \<Rightarrow> 's bitaxe \<Rightarrow> ((emc2101_error + rat) \<times> Percent option \<times> u32 option) \<times> 's bitaxe" where
  "read_fan io s =
     (let (raw_temp, s) = on_i2c (get_external_temperature (io_bus io) EMC2101_ADDRESS) s;
          (percent, s) = on_i2c (get_fan_speed (io_bus io) EMC2101_ADDRESS) s;
          (rpm, s) = on_i2c (get_rpm (io_bus io) EMC2101_ADDRESS) s
      in ((raw_temp, sum_ok percent, sum_ok rpm), s))"

definition check_and_clear :: "'s board_io \<Rightarrow> 's bitaxe \<Rightarrow> 's bitaxe" where
  "check_and_clear io s =
     (case on_regulator (check_status (io_bus io)) s of
        (Inl e, s) \<Rightarrow> snd (on_regulator (clear_faults (io_bus io)) s)
      | (Inr _, s) \<Rightarrow> s)"

record regulator_readings =
  rr_vin :: "Voltage option"
  rr_vout :: "Voltage option"
  rr_iout_ma :: "u32 option"
  rr_power_mw :: "u32 option"
  rr_temperature :: "int option"

definition read_regulator :: "'s board_io \<Rightarrow> 's bitaxe \<Rightarrow> regulator_readings \<times> 's bitaxe" where
  "read_regulator io s =
     (let s = check_and_clear io s;
          (vin, s) = on_regulator (get_vin (io_bus io)) s;
          (vout, s) = on_regulator (get_vout (io_bus io)) s;
          (iout, s) = on_regulator (get_iout (io_bus io)) s;
          (power, s) = on_regulator (get_power (io_bus io)) s;
          (temperature, s) = on_regulator (get_temperature (io_bus io)) s
      in (\<lparr>rr_vin = sum_ok vin, rr_vout = sum_ok vout, rr_iout_ma = sum_ok iout, rr_power_mw = sum_ok power,
           rr_temperature = sum_ok temperature\<rparr>, s))"

definition thousandths :: "u32 \<Rightarrow> rat" where
  "thousandths w = f32 (f32 (of_nat (unat w)) / 1000)"

definition bitaxe_telemetry ::
    "string option \<Rightarrow> rat option \<Rightarrow> Percent option \<Rightarrow> u32 option \<Rightarrow> regulator_readings \<Rightarrow> BoardTelemetry" where
  "bitaxe_telemetry serial asic_temp percent rpm r =
     \<lparr>bt_name = bitaxe_board_name serial, bt_model = ''Bitaxe Gamma'', bt_serial = serial,
      bt_fans = [\<lparr>fan_name = ''fan'', fan_rpm = rpm, fan_percent = percent, fan_target_percent = None\<rparr>],
      bt_temperatures =
        [\<lparr>ts_name = ''asic'', ts_temperature = asic_temp\<rparr>,
         \<lparr>ts_name = ''vr'', ts_temperature = map_option (\<lambda>t. f32 (of_int t)) (rr_temperature r)\<rparr>],
      bt_powers =
        [\<lparr>pm_name = ''input'', pm_voltage_v = map_option Voltage_volts (rr_vin r), pm_current_a = None, pm_power_w = None\<rparr>,
         \<lparr>pm_name = ''core'', pm_voltage_v = map_option Voltage_volts (rr_vout r),
          pm_current_a = map_option thousandths (rr_iout_ma r), pm_power_w = map_option thousandths (rr_power_mw r)\<rparr>]\<rparr>"

text \<open>What the hash thread does in between: it drives the reset line and uses the regulator's driver.\<close>

datatype 's thread_action = ThreadReset bool nat | ThreadRegulator "'s tps546 \<Rightarrow> 's tps546"

fun thread_act :: "'s board_io \<Rightarrow> 's thread_action \<Rightarrow> 's bitaxe \<Rightarrow> 's bitaxe" where
  "thread_act io (ThreadReset high now) s = (if high then snd (reset_release io now s) else snd (reset_assert io s))"
| "thread_act io (ThreadRegulator f) s = s\<lparr>bx_regulator := f (bx_regulator s)\<rparr>"

datatype monitor_error = ResetStateUnreadable | ThermalEmergency nat

text \<open>
  The classification reads the clock and the reset line after the sensors; the thread can act before
  and after the regulator is read, \<open>before\<close> and \<open>after\<close>.
\<close>

definition diode_ready :: "nat \<Rightarrow> nat option \<Rightarrow> bool" where
  "diode_ready now since = (case since of None \<Rightarrow> False | Some t \<Rightarrow> DIODE_SETTLE \<le> now - t)"

definition monitor_tick ::
    "'s board_io \<Rightarrow> string option \<Rightarrow> nat \<Rightarrow> 's thread_action list \<Rightarrow> 's thread_action list \<Rightarrow> 's bitaxe \<Rightarrow>
     (monitor_error + unit) \<times> 's bitaxe" where
  "monitor_tick io serial now before after s =
     (let ((raw_temp, percent, rpm), s) = read_fan io s;
          (r, s) = read_regulator io (fold (thread_act io) before s);
          s = fold (thread_act io) after s
      in case released_since s of
           Inl _ \<Rightarrow> (Inl ResetStateUnreadable, s)
         | Inr since \<Rightarrow>
             (let ready = diode_ready now since;
                  (bad, asic_temp) = classify ready raw_temp (bx_bad_thermal_count s);
                  s = s\<lparr>bx_bad_thermal_count := bad, bx_readings := bx_readings s @ [(ready, raw_temp)]\<rparr>
              in if BAD_READING_LIMIT \<le> bad
                 then (Inl (ThermalEmergency bad),
                       snd (on_i2c (set_fan_speed (io_bus io) EMC2101_ADDRESS Percent_FULL) s))
                 else (Inr (),
                       s\<lparr>bx_telemetry := bx_telemetry s @ [bitaxe_telemetry serial asic_temp percent rpm r],
                         bx_last_log := (if LOG_INTERVAL \<le> now - bx_last_log s then now else bx_last_log s)\<rparr>)))"

text \<open>
  The request to the hash thread, what it still does until it has gone or two seconds have passed,
  then reset and power, whether or not any of it fails.
\<close>

definition monitor_shutdown :: "'s board_io \<Rightarrow> 's thread_action list \<Rightarrow> 's bitaxe \<Rightarrow> 's bitaxe" where
  "monitor_shutdown io acts s =
     (let s = fold (thread_act io) acts (s\<lparr>bx_thread_shutdowns := bx_thread_shutdowns s + 1\<rparr>);
          s = snd (reset_assert io s)
      in snd (on_regulator (disable_output (io_bus io)) s))"

text \<open>The loop's inputs: a tick or the cancellation, each with what the thread does meanwhile, and the thread's own.\<close>

datatype 's monitor_input =
  MonitorTick nat "'s thread_action list" "'s thread_action list" "'s thread_action list"
| MonitorCancel "'s thread_action list"
| ThreadActs "'s thread_action"

fun monitor_input_step :: "'s board_io \<Rightarrow> string option \<Rightarrow> 's monitor_input \<Rightarrow> 's bitaxe \<Rightarrow> 's bitaxe" where
  "monitor_input_step io serial (MonitorTick now before after acts) s =
     (case monitor_tick io serial now before after s of
        (Inl e, s) \<Rightarrow> (monitor_shutdown io acts s)\<lparr>bx_ended := Some MonitorFailed\<rparr>
      | (Inr _, s) \<Rightarrow> s)"
| "monitor_input_step io serial (MonitorCancel acts) s =
     (let s = monitor_shutdown io acts s;
          s = snd (on_i2c (set_fan_speed (io_bus io) EMC2101_ADDRESS (Percent_new_clamped 25)) s)
      in s\<lparr>bx_ended := Some MonitorCancelled\<rparr>)"
| "monitor_input_step io serial (ThreadActs a) s = thread_act io a s"

fun monitor_run :: "'s board_io \<Rightarrow> string option \<Rightarrow> 's monitor_input list \<Rightarrow> 's bitaxe \<Rightarrow> 's bitaxe" where
  "monitor_run io serial [] s = s"
| "monitor_run io serial (i # inputs) s =
     (if bx_ended s = None then monitor_run io serial inputs (monitor_input_step io serial i s) else s)"

end
