(* ===== verification/Bitaxe_Props.thy ===== *)
theory Bitaxe_Props
  imports Bitaxe_Board
begin

text \<open>
  What the Bitaxe's monitor guarantees: it stops the board exactly when three readings in a row are
  bad, and however it stops, reset is asserted and the power converter is ordered off. The bus is
  one that logs; the reset pin's packets leave that log alone.
\<close>

subsection \<open>Three bad readings\<close>

definition bad_reading :: "bool \<times> ('e + rat) \<Rightarrow> bool" where
  "bad_reading r \<longleftrightarrow> fst r \<and> (case snd r of Inl _ \<Rightarrow> True | Inr t \<Rightarrow> t < 0 \<or> 80 \<le> t)"

definition bad_run :: "(bool \<times> ('e + rat)) list \<Rightarrow> nat" where
  "bad_run rs = length (takeWhile bad_reading (rev rs))"

definition trips :: "(bool \<times> ('e + rat)) list \<Rightarrow> bool" where
  "trips rs \<longleftrightarrow> (\<exists>old a b c. rs = old @ [a, b, c] \<and> bad_reading a \<and> bad_reading b \<and> bad_reading c)"

lemma bad_run_simps [simp]:
  "bad_run [] = 0" "bad_run (rs @ [r]) = (if bad_reading r then bad_run rs + 1 else 0)"
  by (simp_all add: bad_run_def)

lemma classify_count: "fst (classify ready raw bad) = (if bad_reading (ready, raw) then bad + 1 else 0)"
  by (auto simp: classify_def bad_reading_def split: sum.splits)

lemma classify_published: "snd (classify ready raw bad) = Some t \<longleftrightarrow> ready \<and> raw = Inr t \<and> 0 \<le> t \<and> t \<le> 120"
  by (auto simp: classify_def split: sum.splits)

lemma trips_iff: "trips rs \<longleftrightarrow> 3 \<le> bad_run rs"
proof -
  have "3 \<le> length (takeWhile P xs) \<longleftrightarrow> (\<exists>c b a new. xs = c # b # a # new \<and> P a \<and> P b \<and> P c)" for P and xs :: "'b list"
    by (cases xs; cases "tl xs"; cases "tl (tl xs)") auto
  from this [of bad_reading "rev rs"]
  have "3 \<le> bad_run rs \<longleftrightarrow> (\<exists>c b a new. rs = rev (c # b # a # new) \<and> bad_reading a \<and> bad_reading b \<and> bad_reading c)"
    unfolding bad_run_def by (simp only: rev_swap)
  also have "\<dots> \<longleftrightarrow> trips rs"
    unfolding trips_def by (auto intro: exI [of _ "rev new" for new]) (metis rev_rev_ident)+
  finally show ?thesis by simp
qed

subsection \<open>Fields that hardware accesses keep\<close>

text \<open>The part of the state that only the monitor changes.\<close>

definition monitor_view :: "'s bitaxe \<Rightarrow> bool \<times> nat \<times> (bool \<times> (emc2101_error + rat)) list \<times> monitor_end option" where
  "monitor_view s = (bx_lock_ok s, bx_bad_thermal_count s, bx_readings s, bx_ended s)"

lemma view_on_i2c [simp]: "monitor_view (snd (on_i2c f s)) = monitor_view s"
  by (simp add: on_i2c_def monitor_view_def split: prod.split)

lemma view_on_regulator [simp]: "monitor_view (snd (on_regulator f s)) = monitor_view s"
  by (simp add: on_regulator_def monitor_view_def split: prod.split)

lemma view_pin [simp]: "monitor_view (snd (write_reset_pin io high s)) = monitor_view s"
  by (simp add: write_reset_pin_def, simp add: monitor_view_def)

lemma view_reset [simp]:
  "monitor_view (snd (reset_assert io s)) = monitor_view s"
  "monitor_view (snd (reset_release io now s)) = monitor_view s"
proof -
  obtain r t where t: "write_reset_pin io False s = (r, t)" by fastforce
  have v: "monitor_view t = monitor_view s" using view_pin [of io False s] unfolding t by simp
  show "monitor_view (snd (reset_assert io s)) = monitor_view s"
    using v by (auto simp: reset_assert_def t monitor_view_def split: sum.split)
  obtain r' u where u: "write_reset_pin io True s = (r', u)" by fastforce
  have v: "monitor_view u = monitor_view s" using view_pin [of io True s] unfolding u by simp
  show "monitor_view (snd (reset_release io now s)) = monitor_view s"
    using v by (auto simp: reset_release_def u monitor_view_def split: sum.split)
qed

lemma view_thread [simp]: "monitor_view (thread_act io a s) = monitor_view s"
  by (cases a) (auto simp: monitor_view_def [of "bx_regulator_update _ _"] monitor_view_def [of s])

lemma view_threads [simp]: "monitor_view (fold (thread_act io) acts s) = monitor_view s"
  by (induction acts arbitrary: s) simp_all

lemma view_shutdown [simp]: "monitor_view (monitor_shutdown io acts s) = monitor_view s"
  by (simp add: monitor_shutdown_def Let_def, simp add: monitor_view_def)

lemma view_check [simp]: "monitor_view (check_and_clear io s) = monitor_view s"
proof -
  obtain r t where t: "on_regulator (check_status (io_bus io)) s = (r, t)" by fastforce
  have "monitor_view t = monitor_view s" using view_on_regulator [of "check_status (io_bus io)" s] unfolding t by simp
  then show ?thesis by (simp add: check_and_clear_def t split: sum.split)
qed

lemma view_read_fan [simp]: "monitor_view (snd (read_fan io s)) = monitor_view s"
  by (simp add: read_fan_def Let_def split_beta)

lemma view_read_regulator [simp]: "monitor_view (snd (read_regulator io s)) = monitor_view s"
  by (simp add: read_regulator_def Let_def split_beta)

text \<open>One tick, seen from outside.\<close>

lemma monitor_tick_view:
  obtains ready raw where
    "bx_lock_ok s \<Longrightarrow> monitor_view (snd (monitor_tick io serial now before after s)) =
       (True, fst (classify ready raw (bx_bad_thermal_count s)), bx_readings s @ [(ready, raw)], bx_ended s)"
    "bx_lock_ok s \<Longrightarrow> fst (monitor_tick io serial now before after s) =
       (if 3 \<le> fst (classify ready raw (bx_bad_thermal_count s))
        then Inl (ThermalEmergency (fst (classify ready raw (bx_bad_thermal_count s)))) else Inr ())"
proof -
  obtain raw percent rpm s1 where fan: "read_fan io s = ((raw, percent, rpm), s1)" by (metis prod.exhaust)
  obtain r s2 where reg: "read_regulator io (fold (thread_act io) before s1) = (r, s2)" by (metis prod.exhaust)
  let ?s3 = "fold (thread_act io) after s2"
  have "monitor_view s1 = monitor_view s" using view_read_fan [of io s] fan by simp
  moreover have "monitor_view s2 = monitor_view s1"
    using view_read_regulator [of io "fold (thread_act io) before s1"] reg by simp
  ultimately have v: "monitor_view ?s3 = monitor_view s" by simp
  show thesis
  proof (rule that)
    assume ok: "bx_lock_ok s"
    have fields: "bx_lock_ok ?s3" "bx_bad_thermal_count ?s3 = bx_bad_thermal_count s" "bx_readings ?s3 = bx_readings s"
      "bx_ended ?s3 = bx_ended s" using v ok by (simp_all add: monitor_view_def)
    let ?ready = "diode_ready now (bx_released_since ?s3)"
    show "monitor_view (snd (monitor_tick io serial now before after s)) =
       (True, fst (classify ?ready raw (bx_bad_thermal_count s)), bx_readings s @ [(?ready, raw)], bx_ended s)"
      by (auto simp: monitor_tick_def fan reg released_since_def fields Let_def split_beta)
        (auto simp: monitor_view_def fields)
    show "fst (monitor_tick io serial now before after s) =
       (if 3 \<le> fst (classify ?ready raw (bx_bad_thermal_count s))
        then Inl (ThermalEmergency (fst (classify ?ready raw (bx_bad_thermal_count s)))) else Inr ())"
      by (auto simp: monitor_tick_def fan reg released_since_def fields Let_def split_beta BAD_READING_LIMIT_def)
  qed
qed

lemma tick_ended: "bx_ended (snd (monitor_tick io serial now before after s)) = bx_ended s"
proof -
  obtain raw percent rpm s1 where fan: "read_fan io s = ((raw, percent, rpm), s1)" by (metis prod.exhaust)
  obtain r s2 where reg: "read_regulator io (fold (thread_act io) before s1) = (r, s2)" by (metis prod.exhaust)
  have "monitor_view s1 = monitor_view s" using view_read_fan [of io s] fan by simp
  moreover have "monitor_view s2 = monitor_view s1"
    using view_read_regulator [of io "fold (thread_act io) before s1"] reg by simp
  ultimately have "monitor_view (fold (thread_act io) after s2) = monitor_view s" by simp
  then have ended: "bx_ended (fold (thread_act io) after s2) = bx_ended s" by (simp add: monitor_view_def)
  have fan_ended: "bx_ended (snd (on_i2c f u)) = bx_ended u" for f :: "'a \<Rightarrow> ('x + 'y) \<times> 'a" and u :: "'a bitaxe"
    using view_on_i2c [of f u] by (simp add: monitor_view_def)
  show ?thesis
    by (simp add: monitor_tick_def fan reg Let_def split_beta ended fan_ended split: sum.split)
qed

text \<open>The counter is the number of bad readings at the end of the history.\<close>

definition thermal_inv :: "'s bitaxe \<Rightarrow> bool" where
  "thermal_inv s \<longleftrightarrow>
     bx_lock_ok s \<and> bx_bad_thermal_count s = bad_run (bx_readings s) \<and>
     (bx_ended s = Some MonitorFailed \<longleftrightarrow> 3 \<le> bad_run (bx_readings s)) \<and>
     (\<forall>k<length (bx_readings s). bad_run (take k (bx_readings s)) < 3)"

lemma thermal_inv_view: "monitor_view s = monitor_view t \<Longrightarrow> thermal_inv s = thermal_inv t"
  by (simp add: thermal_inv_def monitor_view_def)

lemma thermal_inv_tick:
  assumes "thermal_inv s" "bx_ended s = None"
  shows "thermal_inv (monitor_input_step io serial (MonitorTick now before after acts) s)"
proof -
  obtain ready raw where view: "monitor_view (snd (monitor_tick io serial now before after s)) =
       (True, fst (classify ready raw (bx_bad_thermal_count s)), bx_readings s @ [(ready, raw)], bx_ended s)"
    and res: "fst (monitor_tick io serial now before after s) =
       (if 3 \<le> fst (classify ready raw (bx_bad_thermal_count s))
        then Inl (ThermalEmergency (fst (classify ready raw (bx_bad_thermal_count s)))) else Inr ())"
    using monitor_tick_view [of s io serial now before after] assms(1) unfolding thermal_inv_def by metis
  obtain r t where tick: "monitor_tick io serial now before after s = (r, t)" by fastforce
  let ?rs = "bx_readings s @ [(ready, raw)]"
  have count: "fst (classify ready raw (bx_bad_thermal_count s)) = bad_run ?rs"
    using assms(1) by (simp add: classify_count thermal_inv_def)
  have before3: "\<forall>k<length ?rs. bad_run (take k ?rs) < 3"
  proof (intro allI impI)
    fix k
    assume "k < length ?rs"
    then consider "k < length (bx_readings s)" | "k = length (bx_readings s)" by (auto simp: less_Suc_eq)
    then show "bad_run (take k ?rs) < 3" using assms by cases (auto simp: thermal_inv_def)
  qed
  have t: "monitor_view t = (True, bad_run ?rs, ?rs, None)" using view tick count assms(2) by simp
  have r: "r = (if 3 \<le> bad_run ?rs then Inl (ThermalEmergency (bad_run ?rs)) else Inr ())" using res tick count by simp
  show ?thesis
  proof (cases "3 \<le> bad_run ?rs")
    case True
    let ?u = "monitor_shutdown io acts t"
    have "monitor_view ?u = (True, bad_run ?rs, ?rs, None)" using t by simp
    then have "monitor_view (?u\<lparr>bx_ended := Some MonitorFailed\<rparr>) = (True, bad_run ?rs, ?rs, Some MonitorFailed)"
      by (simp add: monitor_view_def)
    then show ?thesis using True before3 tick r by (simp add: thermal_inv_def monitor_view_def)
  next
    case False
    then show ?thesis using before3 tick r t by (simp add: thermal_inv_def monitor_view_def)
  qed
qed

lemma thermal_inv_step:
  assumes "thermal_inv s" "bx_ended s = None"
  shows "thermal_inv (monitor_input_step io serial i s)"
proof (cases i)
  case (MonitorTick now before after acts)
  then show ?thesis using thermal_inv_tick [OF assms] by simp
next
  case (MonitorCancel acts)
  let ?u = "snd (on_i2c (set_fan_speed (io_bus io) EMC2101_ADDRESS (Percent_new_clamped 25)) (monitor_shutdown io acts s))"
  have "monitor_view ?u = monitor_view s" by simp
  then have "thermal_inv (?u\<lparr>bx_ended := Some MonitorCancelled\<rparr>)"
    using assms by (simp add: thermal_inv_def monitor_view_def)
  then show ?thesis by (simp add: MonitorCancel Let_def)
next
  case (ThreadActs a)
  then show ?thesis using assms thermal_inv_view [OF view_thread [of io a s]] by simp
qed

lemma thermal_inv_run: "thermal_inv s \<Longrightarrow> thermal_inv (monitor_run io serial inputs s)"
  by (induction inputs arbitrary: s) (auto simp: thermal_inv_step)

text \<open>After bring-up the history is empty, so the cut-out is a statement about all readings since then.\<close>

lemma view_lift:
  assumes "\<And>s. monitor_view (snd (f s)) = monitor_view s"
  shows "monitor_view (snd (lift_error err f s)) = monitor_view s"
  using assms [of s] by (cases "f s"; cases "fst (f s)") (simp_all add: lift_error_def)

lemma view_and_then:
  assumes "\<And>s. monitor_view (snd (f s)) = monitor_view s" "\<And>a s. monitor_view (snd (g a s)) = monitor_view s"
  shows "monitor_view (snd (and_then f g s)) = monitor_view s"
  using assms(1) [of s] assms(2) by (cases "f s"; cases "fst (f s)") (simp_all add: and_then_def)

lemma view_attach: "monitor_view (snd (bitaxe_attach io s)) = monitor_view s"
  unfolding bitaxe_attach_def init_fan_controller_def
  by (intro view_and_then view_lift view_on_i2c view_on_regulator view_pin)

lemma thermal_inv_attached: "thermal_inv (snd (bitaxe_attach io (bitaxe_new i)))"
  using view_attach [of io "bitaxe_new i"] by (simp add: thermal_inv_def monitor_view_def bitaxe_new_def)

subsection \<open>What reaches the hardware\<close>

text \<open>A logging bus; the packets of the pin and of the bus frequency are not transactions on it.\<close>

definition logged_io :: "i2c_device \<Rightarrow> transaction list board_io \<Rightarrow> bool" where
  "logged_io dev io \<longleftrightarrow>
     io_bus io = logged_i2c dev \<and> (\<forall>pin v xs. snd (io_pin io pin v xs) = xs) \<and>
     (\<forall>hz xs. snd (io_set_frequency io hz xs) = xs)"

abbreviation bus_log :: "transaction list bitaxe \<Rightarrow> transaction list" where
  "bus_log s \<equiv> tp_i2c (bx_regulator s)"

lemma bus_log_i2c: "bus_log (snd (on_i2c f s)) = snd (f (bus_log s))"
  by (simp add: on_i2c_def split: prod.split)

lemma bus_log_regulator: "bus_log (snd (on_regulator f s)) = tp_i2c (snd (f (bx_regulator s)))"
  by (simp add: on_regulator_def split: prod.split)

lemma pins_i2c [simp]: "bx_pin_orders (snd (on_i2c f s)) = bx_pin_orders s"
  by (simp add: on_i2c_def split: prod.split)

lemma pins_regulator [simp]: "bx_pin_orders (snd (on_regulator f s)) = bx_pin_orders s"
  by (simp add: on_regulator_def split: prod.split)

lemma pins_reset_assert: "bx_pin_orders (snd (reset_assert io s)) = bx_pin_orders s @ [False]"
proof -
  obtain r t where t: "write_reset_pin io False s = (r, t)" by fastforce
  have "bx_pin_orders (snd (write_reset_pin io False s)) = bx_pin_orders s @ [False]" by (simp add: write_reset_pin_def)
  then have "bx_pin_orders t = bx_pin_orders s @ [False]" unfolding t by simp
  then show ?thesis by (auto simp: reset_assert_def t split: sum.split)
qed

lemma disable_output_logged:
  "\<exists>post. tp_i2c (snd (disable_output (logged_i2c dev) t)) = tp_i2c t @ BusWrite 0x24 [0x01, 0x00] # post \<and>
     set post \<subseteq> {BusWriteRead 0x24 [0x01] 1}"
  by (auto simp: disable_output_def write_operation_def write_byte_def read_byte_def and_then_def on_bus_def
      logged_i2c_def TPS546_I2C_ADDR_def split: sum.splits)

lemma set_fan_speed_logged:
  "snd (set_fan_speed (logged_i2c dev) EMC2101_ADDRESS p xs) = xs @ [BusWrite 0x4c [0x4c, Percent_of p PWM_MAX]]"
  by (simp add: set_fan_speed_def emc_write_def bus_result_def logged_i2c_def EMC2101_ADDRESS_def split: sum.split)

lemma shutdown_logged:
  assumes "logged_io dev io"
  shows "\<exists>pre post. bus_log (monitor_shutdown io acts s) = pre @ BusWrite 0x24 [0x01, 0x00] # post \<and>
      set post \<subseteq> {BusWriteRead 0x24 [0x01] 1}"
    and "last (bx_pin_orders (monitor_shutdown io acts s)) = False" "bx_pin_orders (monitor_shutdown io acts s) \<noteq> []"
proof -
  let ?t = "snd (reset_assert io (fold (thread_act io) acts (s\<lparr>bx_thread_shutdowns := bx_thread_shutdowns s + 1\<rparr>)))"
  have u: "monitor_shutdown io acts s = snd (on_regulator (disable_output (logged_i2c dev)) ?t)"
    using assms by (simp add: monitor_shutdown_def logged_io_def Let_def)
  show "\<exists>pre post. bus_log (monitor_shutdown io acts s) = pre @ BusWrite 0x24 [0x01, 0x00] # post \<and>
      set post \<subseteq> {BusWriteRead 0x24 [0x01] 1}"
    unfolding u bus_log_regulator using disable_output_logged by blast
  show "last (bx_pin_orders (monitor_shutdown io acts s)) = False" "bx_pin_orders (monitor_shutdown io acts s) \<noteq> []"
    unfolding u by (simp_all add: pins_reset_assert)
qed

text \<open>An ended monitor: reset is the last level ordered for the pin, and after the order to switch off come only reads and the fan.\<close>

definition board_off :: "transaction list bitaxe \<Rightarrow> bool" where
  "board_off s \<longleftrightarrow>
     bx_pin_orders s \<noteq> [] \<and> last (bx_pin_orders s) = False \<and>
     (\<exists>pre post. bus_log s = pre @ BusWrite 0x24 [0x01, 0x00] # post \<and>
       set post \<subseteq> {BusWriteRead 0x24 [0x01] 1, BusWrite 0x4c [0x4c, Percent_of 25 PWM_MAX]})"

lemma board_off_ended [simp]: "board_off (s\<lparr>bx_ended := e\<rparr>) = board_off s"
  by (simp add: board_off_def)

lemma board_off_shutdown: "logged_io dev io \<Longrightarrow> board_off (monitor_shutdown io acts s)"
  unfolding board_off_def using shutdown_logged [of dev io acts s] by blast

lemma board_off_slow_fan:
  assumes "logged_io dev io" "board_off s"
  shows "board_off (snd (on_i2c (set_fan_speed (io_bus io) EMC2101_ADDRESS (Percent_new_clamped 25)) s))"
proof -
  obtain pre post where log: "bus_log s = pre @ BusWrite 0x24 [0x01, 0x00] # post"
    "set post \<subseteq> {BusWriteRead 0x24 [0x01] 1, BusWrite 0x4c [0x4c, Percent_of 25 PWM_MAX]}"
    using assms(2) by (auto simp: board_off_def)
  have "bus_log (snd (on_i2c (set_fan_speed (io_bus io) EMC2101_ADDRESS (Percent_new_clamped 25)) s)) =
      pre @ BusWrite 0x24 [0x01, 0x00] # post @ [BusWrite 0x4c [0x4c, Percent_of 25 PWM_MAX]]"
    using assms(1) log(1) by (simp add: bus_log_i2c logged_io_def set_fan_speed_logged Percent_new_clamped_def)
  moreover have "set (post @ [BusWrite 0x4c [0x4c, Percent_of 25 PWM_MAX]]) \<subseteq>
      {BusWriteRead 0x24 [0x01] 1, BusWrite 0x4c [0x4c, Percent_of 25 PWM_MAX]}"
    using log(2) unfolding set_append by (intro Un_least) simp_all
  ultimately show ?thesis using assms(2) unfolding board_off_def pins_i2c by blast
qed

lemma ended_board_off:
  assumes "logged_io dev io" "bx_ended s = None" "bx_ended (monitor_run io serial inputs s) \<noteq> None"
  shows "board_off (monitor_run io serial inputs s)"
  using assms(2,3)
proof (induction inputs arbitrary: s)
  case (Cons i inputs)
  let ?t = "monitor_input_step io serial i s"
  have stop: "monitor_run io serial inputs u = u" if "bx_ended u \<noteq> None" for u using that by (cases inputs) auto
  have "bx_ended ?t = None \<or> board_off ?t"
  proof (cases i)
    case (MonitorTick now before after acts)
    obtain r t where t: "monitor_tick io serial now before after s = (r, t)" by fastforce
    have "bx_ended t = None" using tick_ended [of io serial now before after s] t Cons.prems(1) by simp
    then show ?thesis using board_off_shutdown [OF assms(1), of acts t] by (simp add: MonitorTick t split: sum.split)
  next
    case (MonitorCancel acts)
    then show ?thesis using board_off_slow_fan [OF assms(1) board_off_shutdown [OF assms(1)]] by (simp add: Let_def)
  next
    case (ThreadActs a)
    have "bx_ended (thread_act io a s) = bx_ended s" using view_thread [of io a s] by (simp add: monitor_view_def)
    then show ?thesis using ThreadActs Cons.prems(1) by simp
  qed
  then show ?case using Cons stop by (cases "bx_ended ?t") auto
qed simp

subsection \<open>The monitor and bring-up never switch the power on\<close>

text \<open>An operation on the bus that only adds transactions with a property to its log.\<close>

definition logs :: "(transaction \<Rightarrow> bool) \<Rightarrow> (transaction list \<Rightarrow> 'r \<times> transaction list) \<Rightarrow> bool" where
  "logs Q f \<longleftrightarrow> (\<forall>xs. \<exists>ts. snd (f xs) = xs @ ts \<and> list_all Q ts)"

definition adds :: "(transaction \<Rightarrow> bool) \<Rightarrow> (transaction list bitaxe \<Rightarrow> 'r \<times> transaction list bitaxe) \<Rightarrow> bool" where
  "adds Q f \<longleftrightarrow> (\<forall>s. \<exists>ts. bus_log (snd (f s)) = bus_log s @ ts \<and> list_all Q ts)"

named_theorems logs_intros

lemma logs_give [logs_intros]: "logs Q (op_give a)" "logs Q (op_fail e)"
  by (simp_all add: logs_def op_give_def op_fail_def)

lemma logs_emc [logs_intros]:
  "allows_reads Q \<Longrightarrow> logs Q (emc_read (logged_i2c dev) addr reg)"
  "Q (BusWrite addr [reg, v]) \<Longrightarrow> logs Q (emc_write (logged_i2c dev) addr reg v)"
  by (auto simp: logs_def emc_read_def emc_write_def bus_result_def logged_i2c_def allows_reads_def split: sum.split)

lemma logs_and_then [logs_intros]:
  assumes "logs Q f" "\<And>a. logs Q (g a)"
  shows "logs Q (and_then f g)"
  unfolding logs_def
proof
  fix xs
  obtain r ys where f: "f xs = (r, ys)" by fastforce
  obtain ts where ts: "ys = xs @ ts" "list_all Q ts" using assms(1) f by (metis logs_def snd_conv)
  show "\<exists>ts. snd (and_then f g xs) = xs @ ts \<and> list_all Q ts"
  proof (cases r)
    case (Inr a)
    obtain us where "snd (g a ys) = ys @ us" "list_all Q us" using assms(2) by (metis logs_def)
    then show ?thesis using f ts Inr by (intro exI [of _ "ts @ us"]) (simp add: and_then_def)
  qed (use f ts in \<open>auto simp: and_then_def\<close>)
qed

lemma logs_if [logs_intros]: "(b \<Longrightarrow> logs Q f) \<Longrightarrow> (\<not> b \<Longrightarrow> logs Q g) \<Longrightarrow> logs Q (if b then f else g)"
  by simp

lemma logs_fan:
  "logs keeps_off (emc2101_init (logged_i2c dev) addr)"
  "logs keeps_off (set_fan_speed (logged_i2c dev) addr p)"
  "logs keeps_off (get_fan_speed (logged_i2c dev) addr)"
  "logs keeps_off (get_external_temperature (logged_i2c dev) addr)"
  "logs keeps_off (get_rpm (logged_i2c dev) addr)"
  unfolding emc2101_init_def set_fan_speed_def get_fan_speed_def get_external_temperature_def get_rpm_def get_tach_count_def Let_def
  by (intro logs_intros allows_reads_keeps_off; simp)+

lemma adds_i2c: "logs Q f \<Longrightarrow> adds Q (on_i2c f)"
  unfolding adds_def logs_def bus_log_i2c by blast

lemma adds_regulator: "appends Q f \<Longrightarrow> adds Q (on_regulator f)"
  unfolding adds_def appends_def bus_log_regulator by blast

lemma adds_lift: "adds Q f \<Longrightarrow> adds Q (lift_error err f)"
proof -
  have "snd (lift_error err f s) = snd (f s)" for s by (simp add: lift_error_def split: prod.split sum.split)
  then show "adds Q f \<Longrightarrow> ?thesis" by (simp add: adds_def)
qed

lemma adds_and_then:
  assumes "adds Q f" "\<And>a. adds Q (g a)"
  shows "adds Q (and_then f g)"
  unfolding adds_def
proof
  fix s
  obtain r t where f: "f s = (r, t)" by fastforce
  obtain ts where ts: "bus_log t = bus_log s @ ts" "list_all Q ts" using assms(1) f by (metis adds_def snd_conv)
  show "\<exists>ts. bus_log (snd (and_then f g s)) = bus_log s @ ts \<and> list_all Q ts"
  proof (cases r)
    case (Inr a)
    obtain us where "bus_log (snd (g a t)) = bus_log t @ us" "list_all Q us" using assms(2) by (metis adds_def)
    then show ?thesis using f ts Inr by (intro exI [of _ "ts @ us"]) (simp add: and_then_def)
  qed (use f ts in \<open>auto simp: and_then_def\<close>)
qed

lemma appends_measure:
  "appends keeps_off (get_vin (logged_i2c dev))" "appends keeps_off (get_vout (logged_i2c dev))"
  "appends keeps_off (get_iout (logged_i2c dev))" "appends keeps_off (get_power (logged_i2c dev))"
  "appends keeps_off (get_temperature (logged_i2c dev))"
  unfolding get_power_def get_vin_def get_vout_def get_iout_def get_temperature_def
  by (intro appends_intros allows_reads_keeps_off; simp)+

lemma appends_clear_faults: "appends keeps_off (clear_faults (logged_i2c dev))"
  unfolding clear_faults_def
  by (rule appends_on_bus) (simp add: logged_i2c_def)

lemma appends_check_status: "appends keeps_off (check_status (logged_i2c dev))"
  unfolding check_status_def status_detail_def off_detail_def read_diagnostics_def output_enabled_def Let_def
  by (intro appends_intros appends_measure allows_reads_keeps_off)

lemma appends_read_block: "appends keeps_off (read_block (logged_i2c dev) c n)"
  unfolding read_block_def by (rule appends_on_bus) (simp add: logged_i2c_def)

lemma appends_dump_steps: "appends keeps_off (dump_steps (logged_i2c dev) rs)"
proof (induction rs)
  case (Cons r rs)
  have "appends keeps_off (dump_step (logged_i2c dev) r)"
    by (cases r) (auto intro!: appends_intros allows_reads_keeps_off)
  then show ?case using Cons by (auto intro: appends_and_then)
qed (simp add: appends_give)

lemma appends_power: "appends keeps_off (tps546_init (logged_i2c dev) c)"
proof -
  have "appends keeps_off (verify_device_id (logged_i2c dev))"
    unfolding appends_def by (auto simp: verify_device_id_logged Let_def)
  then show ?thesis
    unfolding tps546_init_rest by (intro appends_intros appends_init_rest) (simp_all add: TPS546_I2C_ADDR_def)
qed

lemma appends_init_power:
  assumes "io_bus io = logged_i2c dev"
  shows "appends keeps_off (init_power_controller io)"
  unfolding init_power_controller_def assms set_vout_target_def dump_configuration_def
  by (intro appends_intros appends_power appends_clear_faults appends_read_block appends_dump_steps allows_reads_keeps_off) simp

lemma adds_pin: "logged_io dev io \<Longrightarrow> adds Q (write_reset_pin io high)"
  by (auto simp: adds_def write_reset_pin_def bus_log_i2c logged_io_def)

lemma attach_keeps_off:
  assumes "logged_io dev io"
  shows "adds keeps_off (bitaxe_attach io)"
proof -
  have bus: "io_bus io = logged_i2c dev" using assms by (simp add: logged_io_def)
  have "adds keeps_off (on_i2c (io_set_frequency io 100000))"
    using assms by (auto simp: adds_def bus_log_i2c logged_io_def)
  then show ?thesis
    unfolding bitaxe_attach_def init_fan_controller_def bus
    by (intro adds_and_then adds_lift adds_pin [OF assms] adds_regulator appends_init_power [OF bus])
      (assumption | rule adds_i2c logs_fan)+
qed

text \<open>A tick of the monitor on its own.\<close>

definition grown :: "transaction list bitaxe \<Rightarrow> transaction list bitaxe \<Rightarrow> bool" where
  "grown r s \<longleftrightarrow> (\<exists>ts. bus_log s = bus_log r @ ts \<and> list_all keeps_off ts)"

lemma grown_self [simp]: "grown s s"
  by (simp add: grown_def)

lemma grown_adds: "grown r s \<Longrightarrow> adds keeps_off f \<Longrightarrow> grown r (snd (f s))"
  unfolding grown_def adds_def by (metis append_assoc list_all_append)

lemma grown_check:
  assumes "io_bus io = logged_i2c dev" "grown r s"
  shows "grown r (check_and_clear io s)"
proof -
  obtain e t where t: "on_regulator (check_status (io_bus io)) s = (e, t)" by fastforce
  have "grown r t"
    using grown_adds [OF assms(2) adds_regulator [OF appends_check_status]] t unfolding assms(1) by (metis snd_conv)
  then show ?thesis
    using grown_adds [OF _ adds_regulator [OF appends_clear_faults [of dev]], of r t]
    unfolding check_and_clear_def t assms(1) [symmetric] by (simp split: sum.split)
qed

lemma grown_readings:
  assumes "io_bus io = logged_i2c dev" "grown r s"
  shows "grown r (snd (read_fan io s))" "grown r (snd (read_regulator io s))"
  unfolding read_fan_def read_regulator_def Let_def split_beta snd_conv assms(1)
  by (intro grown_adds adds_i2c logs_fan assms(2))
    (intro grown_adds adds_regulator appends_measure grown_check [OF assms(1)] assms(2))

lemma tick_keeps_off:
  assumes "logged_io dev io"
  shows "grown s (snd (monitor_tick io serial now [] [] s))"
proof -
  have bus: "io_bus io = logged_i2c dev" using assms by (simp add: logged_io_def)
  let ?t = "snd (read_regulator io (snd (read_fan io s)))"
  have t: "grown s ?t" by (intro grown_readings [OF bus]) simp
  have same: "grown s u = grown s ?t" if "bx_regulator u = bx_regulator ?t" for u using that by (simp add: grown_def)
  show ?thesis
    unfolding monitor_tick_def Let_def split_beta fold_Nil id_apply
    by (auto split: sum.split simp: bus t same intro!: grown_adds adds_i2c logs_fan)
qed

text \<open>The set point of bring-up lies within the limits that bring-up writes.\<close>

lemma Voltage_from_volts_mono:
  assumes "0 \<le> x" "x \<le> y"
  shows "Voltage_from_volts x \<le> Voltage_from_volts y"
proof -
  have "f32 (x * 1000000) \<le> f32 (y * 1000000)" using assms by (intro fl_mono) simp_all
  moreover have "0 \<le> f32 (x * 1000000)" using assms by (intro fl_nonneg) simp_all
  ultimately have "trunc_rat (f32 (x * 1000000)) \<le> trunc_rat (f32 (y * 1000000))"
    by (simp add: trunc_rat_def floor_mono)
  then show ?thesis by (simp add: Voltage_from_volts_def i64_of_rat_def saturate_def)
qed

lemma default_vout_accepted:
  "tc_vout_min bitaxe_power_config \<le> DEFAULT_VOUT \<and> DEFAULT_VOUT \<le> tc_vout_max bitaxe_power_config"
proof -
  have "f32 1 \<le> f32 (115 / 100)" "f32 (115 / 100) \<le> f32 2" by (rule fl_mono; simp)+
  then have "1 \<le> f32 (115 / 100)" "f32 (115 / 100) \<le> 2" using f32_int [of 1] f32_int [of 2] by simp_all
  then show ?thesis by (simp add: bitaxe_power_config_def DEFAULT_VOUT_def Voltage_from_volts_mono)
qed

end
