(* ===== verification/Leds.thy ===== *)
theory Leds
  imports Control_Protocol Pmbus
begin

text \<open>
  The status light: \<open>hw_trait/rgb_led.rs\<close> and \<open>peripheral/led\<close>. A driver is a function that sets colour
  and brightness on a state. An animation is its parameters; the task that plays it is modelled by
  its single iterations, times in milliseconds. The power function, sine and exponential of the
  float library are arguments.
\<close>

subsection \<open>Colours and calibration\<close>

definition BLACK :: RgbColor where "BLACK = \<lparr>rc_r = 0, rc_g = 0, rc_b = 0\<rparr>"
definition WHITE :: RgbColor where "WHITE = \<lparr>rc_r = 255, rc_g = 255, rc_b = 255\<rparr>"
definition RED :: RgbColor where "RED = \<lparr>rc_r = 255, rc_g = 0, rc_b = 0\<rparr>"
definition GREEN :: RgbColor where "GREEN = \<lparr>rc_r = 0, rc_g = 255, rc_b = 0\<rparr>"
definition BLUE :: RgbColor where "BLUE = \<lparr>rc_r = 0, rc_g = 0, rc_b = 255\<rparr>"
definition ORANGE :: RgbColor where "ORANGE = \<lparr>rc_r = 255, rc_g = 40, rc_b = 0\<rparr>"

type_synonym 's rgb_led = "RgbColor \<Rightarrow> rat \<Rightarrow> 's \<Rightarrow> (hw_error + unit) \<times> 's"

definition led_off :: "'s rgb_led \<Rightarrow> 's \<Rightarrow> (hw_error + unit) \<times> 's" where
  "led_off led = led BLACK 0"

record ColorProfile =
  cp_brightness :: rat
  cp_gamma :: rat
  cp_scale_r :: rat
  cp_scale_g :: rat
  cp_scale_b :: rat

definition SK6812 :: ColorProfile where
  "SK6812 = \<lparr>cp_brightness = f32 (10 / 100), cp_gamma = 25 / 10, cp_scale_r = 1, cp_scale_g = f32 (69 / 100),
     cp_scale_b = f32 (94 / 100)\<rparr>"

definition clamp01 :: "rat \<Rightarrow> rat" where
  "clamp01 x = max 0 (min 1 x)"

definition channel_linear :: "u8 \<Rightarrow> rat \<Rightarrow> rat \<Rightarrow> rat" where
  "channel_linear v factor brightness = f32 (f32 (f32 (of_nat (unat v) / 255) * factor) * brightness)"

definition channel :: "(rat \<Rightarrow> rat \<Rightarrow> rat) \<Rightarrow> u8 \<Rightarrow> rat \<Rightarrow> rat \<Rightarrow> rat \<Rightarrow> u8" where
  "channel powf v factor brightness gamma =
     (let corrected = powf (clamp01 (channel_linear v factor brightness)) gamma
      in of_int (saturate 0 255 (round_away (f32 (corrected * 255)))))"

definition calibrated_set :: "(rat \<Rightarrow> rat \<Rightarrow> rat) \<Rightarrow> ColorProfile \<Rightarrow> 's rgb_led \<Rightarrow> 's rgb_led" where
  "calibrated_set powf p inner color brightness =
     (let brightness = f32 (clamp01 brightness * cp_brightness p)
      in inner
           \<lparr>rc_r = channel powf (rc_r color) (cp_scale_r p) brightness (cp_gamma p),
            rc_g = channel powf (rc_g color) (cp_scale_g p) brightness (cp_gamma p),
            rc_b = channel powf (rc_b color) (cp_scale_b p) brightness (cp_gamma p)\<rparr> 1)"

subsection \<open>Animations\<close>

datatype StopMode = Immediate | FinishCycle

text \<open>\<open>AFlash\<close> has the time that remains; the looping ones have their period or phase, and their epoch.\<close>

datatype animation =
  ABreathe RgbColor nat nat
| ABlink RgbColor nat nat
| AHold RgbColor rat
| AFlash RgbColor nat
| AOff

record float_library =
  fl_sin :: "rat \<Rightarrow> rat"
  fl_exp :: "rat \<Rightarrow> rat"

definition E_f32 :: rat where "E_f32 = f32 (271828182845904523536 / 10 ^ 20)"
definition PI_f32 :: rat where "PI_f32 = f32 (314159265358979323846 / 10 ^ 20)"

definition breathe_brightness :: "float_library \<Rightarrow> rat \<Rightarrow> rat" where
  "breathe_brightness lib cycle_fraction =
     (let t = f32 (cycle_fraction - of_int \<lfloor>cycle_fraction\<rfloor>);
          inv_e = f32 (1 / E_f32);
          raw = fl_exp lib (fl_sin lib (f32 (f32 (f32 (2 * PI_f32) * t) - f32 (PI_f32 / 2))))
      in f32 (f32 (raw - inv_e) / f32 (E_f32 - inv_e)))"

text \<open>What a looping task writes at a time, and the length of its cycle.\<close>

definition blink_on :: "nat \<Rightarrow> nat \<Rightarrow> nat \<Rightarrow> bool" where
  "blink_on phase epoch now \<longleftrightarrow> (now - epoch) mod (phase * 2) < phase"

fun loop_write :: "float_library \<Rightarrow> animation \<Rightarrow> nat \<Rightarrow> (RgbColor \<times> rat) option" where
  "loop_write lib (ABreathe color period epoch) now =
     Some (color, breathe_brightness lib (f32 (f32 (of_nat ((now - epoch) mod period)) / f32 (of_nat period))))"
| "loop_write lib (ABlink color phase epoch) now = Some (color, if blink_on phase epoch now then 1 else 0)"
| "loop_write lib _ now = None"

fun cycle_phase :: "animation \<Rightarrow> nat \<Rightarrow> nat" where
  "cycle_phase (ABreathe color period epoch) now = (now - epoch) mod period"
| "cycle_phase (ABlink color phase epoch) now = (now - epoch) mod (phase * 2)"
| "cycle_phase _ now = 0"

definition TICK_INTERVAL :: nat where
  "TICK_INTERVAL = 50"

text \<open>
  The stop check of one iteration: the mode that applies from now on and whether the task ends.
\<close>

definition stop_check :: "animation \<Rightarrow> nat \<Rightarrow> StopMode option \<Rightarrow> StopMode option \<Rightarrow> StopMode option \<times> bool" where
  "stop_check a now received stop =
     (let stop = (case received of Some mode \<Rightarrow> Some mode | None \<Rightarrow> stop)
      in (stop,
          case stop of
            Some Immediate \<Rightarrow> True
          | Some FinishCycle \<Rightarrow> cycle_phase a now < TICK_INTERVAL * 2
          | None \<Rightarrow> False))"

text \<open>
  A looping task over what it sees: the time of each write, the time after the tick, and a stop mode
  that has arrived by then. The result is the state to resume from, or \<open>None\<close> while it runs.
\<close>

fun run_loop ::
    "float_library \<Rightarrow> 's rgb_led \<Rightarrow> animation \<Rightarrow> StopMode option \<Rightarrow> (nat \<times> nat \<times> StopMode option) list \<Rightarrow>
     's \<Rightarrow> animation option \<times> 's" where
  "run_loop lib led a stop [] s = (None, s)"
| "run_loop lib led a stop ((now, after, received) # looks) s =
     (let s = (case loop_write lib a now of Some (color, brightness) \<Rightarrow> snd (led color brightness s) | None \<Rightarrow> s)
      in case stop_check a after received stop of
           (stop, ends) \<Rightarrow> if ends then (Some a, s) else run_loop lib led a stop looks s)"

text \<open>The flash: it ends by its sleep (\<open>None\<close>) or a stop mode after some time.\<close>

definition flash_end :: "RgbColor \<Rightarrow> nat \<Rightarrow> (StopMode \<times> nat) option \<Rightarrow> animation" where
  "flash_end color remaining stopped =
     (case stopped of
        Some (Immediate, elapsed) \<Rightarrow> AFlash color (remaining - elapsed)
      | _ \<Rightarrow> AFlash color 0)"

fun resume :: "animation \<Rightarrow> animation" where
  "resume (AFlash color remaining) = (if remaining = 0 then AOff else AFlash color remaining)"
| "resume a = a"

text \<open>The one write of a task that does not loop.\<close>

fun static_write :: "'s rgb_led \<Rightarrow> animation \<Rightarrow> 's \<Rightarrow> 's" where
  "static_write led (AHold color brightness) s = snd (led color brightness s)"
| "static_write led (AFlash color remaining) s = snd (led color 1 s)"
| "static_write led AOff s = snd (led_off led s)"
| "static_write led _ s = s"

text \<open>
  \<open>interrupt\<close>: the running animation is stopped at once in the state \<open>stopped\<close>, the one-shot runs to
  its end, and the first is resumed.
\<close>

definition interrupt :: "'s rgb_led \<Rightarrow> animation \<Rightarrow> animation \<Rightarrow> 's \<Rightarrow> animation \<times> 's" where
  "interrupt led stopped oneshot s = (let s = static_write led oneshot s; a = resume stopped in (a, static_write led a s))"

subsection \<open>Status\<close>

datatype Status = Initializing | Idle | Hashing | Fault | Identify

fun status_animation :: "Status \<Rightarrow> nat \<Rightarrow> animation" where
  "status_animation Initializing now = ABreathe ORANGE 3000 now"
| "status_animation Hashing now = ABreathe WHITE 3000 now"
| "status_animation Identify now = ABlink BLUE 125 now"
| "status_animation Idle now = AHold WHITE 1"
| "status_animation Fault now = ABlink RED 500 now"

record status_led =
  sl_handle :: animation
  sl_status :: Status

definition StatusLed_new :: "Status \<Rightarrow> nat \<Rightarrow> status_led" where
  "StatusLed_new status now = \<lparr>sl_handle = status_animation status now, sl_status = status\<rparr>"

definition StatusLed_set :: "Status \<Rightarrow> nat \<Rightarrow> status_led \<Rightarrow> status_led" where
  "StatusLed_set status now l = l\<lparr>sl_status := status, sl_handle := status_animation status now\<rparr>"

definition StatusLed_off :: "status_led \<Rightarrow> status_led" where
  "StatusLed_off l = l\<lparr>sl_handle := AOff\<rparr>"

definition flash_share :: "'s rgb_led \<Rightarrow> status_led \<Rightarrow> 's \<Rightarrow> status_led \<times> 's" where
  "flash_share led l s =
     (case interrupt led (sl_handle l) (AFlash ORANGE 150) s of (a, s) \<Rightarrow> (l\<lparr>sl_handle := a\<rparr>, s))"

subsection \<open>Blinking and finishing\<close>

text \<open>A blink spends its phase in each state, whatever was interrupted: only the clock counts.\<close>

lemma blink_halves:
  assumes "0 < phase" "epoch \<le> now"
  shows "blink_on phase epoch now \<longleftrightarrow> even ((now - epoch) div phase)"
proof -
  let ?t = "now - epoch"
  have "?t mod (phase * 2) = phase * (?t div phase mod 2) + ?t mod phase" by (rule mod_mult2_eq)
  moreover have "?t mod phase < phase" using assms(1) by simp
  ultimately show ?thesis
    unfolding blink_on_def by (cases "even (?t div phase)") (simp_all add: odd_iff_mod_2_eq_one)
qed

lemma blink_toggles: "0 < phase \<Longrightarrow> epoch \<le> now \<Longrightarrow> blink_on phase epoch (now + phase) \<longleftrightarrow> \<not> blink_on phase epoch now"
proof -
  assume a: "0 < phase" "epoch \<le> now"
  have "now + phase - epoch = (now - epoch) + phase" using a(2) by simp
  then have "(now + phase - epoch) div phase = (now - epoch) div phase + 1"
    by (metis a(1) add.commute div_add_self2 less_irrefl plus_1_eq_Suc Suc_eq_plus1)
  then show ?thesis using a blink_halves [of phase epoch now] blink_halves [of phase epoch "now + phase"] by simp
qed

lemma flash_then_same:
  "\<forall>r c. sl_handle l \<noteq> AFlash c r \<Longrightarrow> sl_handle (fst (flash_share led l s)) = sl_handle l"
  by (cases "sl_handle l") (simp_all add: flash_share_def interrupt_def)

text \<open>
  A task asked to finish its cycle does: if its looks are at most two ticks apart, one of them falls
  into the first two ticks of a cycle.
\<close>

lemma look_in_window:
  fixes t :: nat
  assumes "sorted_wrt (\<lambda>a b. a \<le> b) (t # ts)" "successively (\<lambda>a b. b \<le> a + w) (t # ts)"
    and "t < k" "k \<le> last (t # ts)"
  shows "\<exists>x\<in>set ts. k \<le> x \<and> x < k + w"
  using assms
proof (induction ts arbitrary: t)
  case (Cons u us)
  show ?case
  proof (cases "k \<le> u")
    case True
    then show ?thesis using Cons.prems by (intro bexI [of _ u]) auto
  next
    case False
    then show ?thesis using Cons by auto
  qed
qed simp

lemma finish_reached:
  fixes cycle :: nat
  assumes "0 < cycle" "sorted_wrt (\<lambda>a b. a \<le> b) (t # ts)" "successively (\<lambda>a b. b \<le> a + w) (t # ts)" "w \<le> cycle"
    and "epoch \<le> t" "t + cycle \<le> last (t # ts)"
  shows "\<exists>x\<in>set ts. (x - epoch) mod cycle < w"
proof -
  let ?k = "epoch + ((t - epoch) div cycle + 1) * cycle"
  have "t - epoch < ((t - epoch) div cycle + 1) * cycle" using assms(1) by (simp add: dividend_less_div_times)
  then have "t < ?k" using assms(5) by linarith
  moreover have "((t - epoch) div cycle + 1) * cycle \<le> t - epoch + cycle" by simp
  then have "?k \<le> last (t # ts)" using assms(5,6) by linarith
  ultimately obtain x where x: "x \<in> set ts" "?k \<le> x" "x < ?k + w" using look_in_window [OF assms(2,3), of ?k] by blast
  have "x - epoch = (x - ?k) + ((t - epoch) div cycle + 1) * cycle" using x(2) by linarith
  then have "(x - epoch) mod cycle = (x - ?k) mod cycle" by (simp only: mod_mult_self1)
  moreover have "x - ?k < w" using x(2,3) by linarith
  ultimately have "(x - epoch) mod cycle < w" using assms(4) by simp
  then show ?thesis using x(1) by blast
qed

subsection \<open>What calibration leaves\<close>

lemma channel_linear_bounds:
  assumes "0 \<le> factor" "factor \<le> 1" "0 \<le> b"
  shows "0 \<le> channel_linear v factor b" "channel_linear v factor b \<le> f32 b"
proof -
  have n: "unat v < 256" by (rule unsigned_less [where 'b = 8 and 'a = nat, simplified])
  have one: "f32 (of_nat (unat v) / 255) \<le> 1" "0 \<le> f32 (of_nat (unat v) / 255)"
  proof -
    have le: "(of_nat (unat v) / 255 :: rat) \<le> 1" using n by (simp del: of_nat_unat)
    have pos: "(0 :: rat) \<le> of_nat (unat v) / 255" by (simp del: of_nat_unat)
    show "f32 (of_nat (unat v) / 255) \<le> 1"
      using fl_mono [OF pos le, of 24] f32_int [of 1] by simp
    show "0 \<le> f32 (of_nat (unat v) / 255)" using fl_nonneg [OF pos, of 24] by simp
  qed
  let ?x = "f32 (of_nat (unat v) / 255) * factor"
  have x: "0 \<le> ?x" "?x \<le> 1" using one assms by (simp_all add: mult_le_one)
  then have y: "0 \<le> f32 ?x" "f32 ?x \<le> 1" using fl_nonneg [OF x(1), of 24] fl_mono [OF x, of 24] f32_int [of 1] by simp_all
  then have z: "0 \<le> f32 ?x * b" "f32 ?x * b \<le> b" using assms(3) by (simp_all add: mult_left_le_one_le)
  show "0 \<le> channel_linear v factor b" using fl_nonneg [OF z(1), of 24] by (simp add: channel_linear_def)
  show "channel_linear v factor b \<le> f32 b" using fl_mono [OF z, of 24] by (simp add: channel_linear_def)
qed

text \<open>
  The brightness of the profile goes through the gamma curve: a tenth becomes a three-hundredth, so no
  channel of the calibrated light ever gets past the value 1 of 255, and a colour has at most three bits.
\<close>

lemma sk6812_one_level:
  assumes "\<forall>x. 0 \<le> x \<and> x \<le> f32 (10 / 100) \<longrightarrow> 0 \<le> powf x (25 / 10) \<and> powf x (25 / 10) \<le> 1 / 255"
    and "factor \<in> {cp_scale_r SK6812, cp_scale_g SK6812, cp_scale_b SK6812}"
  shows "channel powf v factor (f32 (clamp01 brightness * cp_brightness SK6812)) (cp_gamma SK6812) \<in> {0, 1}"
proof -
  have factor: "0 \<le> factor" "factor \<le> 1"
  proof -
    have "0 \<le> f32 (69 / 100)" "0 \<le> f32 (94 / 100)" by (rule fl_nonneg; simp)+
    moreover have "f32 (69 / 100) \<le> f32 1" "f32 (94 / 100) \<le> f32 1" by (rule fl_mono; simp)+
    ultimately show "0 \<le> factor" "factor \<le> 1" using assms(2) f32_int [of 1] by (auto simp: SK6812_def)
  qed
  let ?b = "f32 (clamp01 brightness * f32 (10 / 100))"
  have t: "0 \<le> f32 (10 / 100)" by (rule fl_nonneg) simp_all
  have c: "0 \<le> clamp01 brightness" "clamp01 brightness \<le> 1" by (simp_all add: clamp01_def)
  then have m: "0 \<le> clamp01 brightness * f32 (10 / 100)" "clamp01 brightness * f32 (10 / 100) \<le> f32 (10 / 100)"
    using t by (simp_all add: mult_left_le_one_le)
  have b: "0 \<le> ?b" "?b \<le> f32 (10 / 100)" using fl_nonneg [OF m(1), of 24] fl_mono [OF m, of 24] by simp_all
  note lin = channel_linear_bounds [OF factor b(1), of v]
  have le: "channel_linear v factor ?b \<le> f32 (10 / 100)" using lin(2) b(2) by simp
  have "f32 (10 / 100) \<le> f32 1" by (rule fl_mono) simp_all
  then have "clamp01 (channel_linear v factor ?b) = channel_linear v factor ?b"
    using lin(1) le f32_int [of 1] by (simp add: clamp01_def)
  then have p: "0 \<le> powf (clamp01 (channel_linear v factor ?b)) (25 / 10)"
    "powf (clamp01 (channel_linear v factor ?b)) (25 / 10) \<le> 1 / 255" using assms(1) lin(1) le by simp_all
  let ?q = "powf (clamp01 (channel_linear v factor ?b)) (25 / 10) * 255"
  have q: "0 \<le> ?q" "?q \<le> 1" using p by simp_all
  then have "0 \<le> f32 ?q" "f32 ?q \<le> of_int 1"
    using fl_nonneg [OF q(1), of 24] fl_mono [OF q, of 24] f32_int [of 1] by simp_all
  then have "0 \<le> round_away (f32 ?q)" "round_away (f32 ?q) \<le> 1" by (intro round_away_bounds; simp)+
  then have "round_away (f32 ?q) = 0 \<or> round_away (f32 ?q) = 1" by linarith
  then show ?thesis by (auto simp: channel_def SK6812_def Let_def saturate_def)
qed

end
