(* ===== verification/Emberone_Board.thy ===== *)
theory Emberone_Board
  imports Bitaxe_Board Leds
begin

text \<open>
  The emberOne/00 board, \<open>board/emberone00.rs\<close>: choice of the response format, bring-up of the I/O
  supply and the temperature sensors, the telemetry task and the shutdown. One state serves all that
  is behind the management channel. The pin's levels and the requests to reboot are logged.
\<close>

definition TMP1075_LEFT :: u8 where
  "TMP1075_LEFT = 0x4A"

definition TMP451_RIGHT :: u8 where
  "TMP451_RIGHT = 0x49"

definition VDDIO_EN :: u8 where
  "VDDIO_EN = 0x02"

definition REMOTE_OFFSET_C :: u8 where
  "REMOTE_OFFSET_C = - 7"

definition emberone_response_format :: "DeviceVersion \<Rightarrow> ResponseFormat" where
  "emberone_response_format version = (if 1 \<le> dv_firmware_minor version then V1 else V0)"

record 's ember_io =
  eo_board :: "'s board_io"
  eo_led :: "'s rgb_led"
  eo_reboot :: "'s \<Rightarrow> (control_error + unit) \<times> 's"

record 's emberone =
  em_i2c :: 's
  em_pin_levels :: "bool list"
  em_status_led :: status_led
  em_telemetry :: BoardTelemetry
  em_reboots :: nat

definition on_ember :: "('s \<Rightarrow> ('e + 'a) \<times> 's) \<Rightarrow> 's emberone \<Rightarrow> ('e + 'a) \<times> 's emberone" where
  "on_ember f s = (case f (em_i2c s) of (r, i) \<Rightarrow> (r, s\<lparr>em_i2c := i\<rparr>))"

definition write_vddio :: "'s ember_io \<Rightarrow> bool \<Rightarrow> 's emberone \<Rightarrow> (hw_error + unit) \<times> 's emberone" where
  "write_vddio io high s =
     on_ember (io_pin (eo_board io) VDDIO_EN high) (s\<lparr>em_pin_levels := em_pin_levels s @ [high]\<rparr>)"

datatype ember_error = VddioError hw_error | LeftSensorError tmp1075_error | RightSensorError tmp451_error

text \<open>\<open>create_from_usb\<close> after the port is open.\<close>

definition emberone_telemetry :: "string option \<Rightarrow> BoardTelemetry" where
  "emberone_telemetry serial =
     \<lparr>bt_name = ''emberone00-'' @ (case serial of Some s \<Rightarrow> s | None \<Rightarrow> ''unknown''), bt_model = ''emberOne/00'',
      bt_serial = serial, bt_fans = [], bt_temperatures = [], bt_powers = []\<rparr>"

definition emberone_info :: "string option \<Rightarrow> BoardInfo" where
  "emberone_info serial = \<lparr>bi_model = ''emberOne/00'', bi_firmware_version = None, bi_serial_number = serial\<rparr>"

definition emberone_new :: "'s \<Rightarrow> string option \<Rightarrow> nat \<Rightarrow> 's emberone" where
  "emberone_new i2c serial now =
     \<lparr>em_i2c = i2c, em_pin_levels = [], em_status_led = StatusLed_new Initializing now,
      em_telemetry = emberone_telemetry serial, em_reboots = 0\<rparr>"

definition emberone_attach :: "'s ember_io \<Rightarrow> 's emberone \<Rightarrow> (ember_error + unit) \<times> 's emberone" where
  "emberone_attach io =
     (let bus = io_bus (eo_board io)
      in and_then (lift_error VddioError (write_vddio io True)) (\<lambda>_.
         and_then (lift_error LeftSensorError (on_ember (tmp1075_init bus TMP1075_LEFT))) (\<lambda>_.
         and_then (lift_error RightSensorError (on_ember (tmp451_init bus TMP451_RIGHT))) (\<lambda>_.
           lift_error RightSensorError (on_ember (tmp451_set_remote_offset bus TMP451_RIGHT REMOTE_OFFSET_C))))))"

text \<open>One round of the telemetry task; a sensor that cannot be read has no temperature.\<close>

definition ember_tick :: "'s ember_io \<Rightarrow> 's emberone \<Rightarrow> 's emberone" where
  "ember_tick io s =
     (let bus = io_bus (eo_board io);
          (t_left, s) = on_ember (tmp1075_read bus TMP1075_LEFT) s;
          (t_right, s) = on_ember (tmp451_read_local bus TMP451_RIGHT) s;
          (t_chip0, s) = on_ember (tmp451_read_remote bus TMP451_RIGHT) s
      in s\<lparr>em_telemetry := (em_telemetry s)\<lparr>bt_temperatures :=
           [\<lparr>ts_name = ''pcb-left'', ts_temperature = map_option reading_degrees (sum_ok t_left)\<rparr>,
            \<lparr>ts_name = ''pcb-right'', ts_temperature = map_option reading_degrees (sum_ok t_right)\<rparr>,
            \<lparr>ts_name = ''chip-0'', ts_temperature = map_option reading_degrees (sum_ok t_chip0)\<rparr>]\<rparr>\<rparr>)"

text \<open>The task: the first tick is discarded, then a round per tick until the cancellation, here the end of the list.\<close>

fun ember_monitor :: "'s ember_io \<Rightarrow> unit list \<Rightarrow> 's emberone \<Rightarrow> 's emberone" where
  "ember_monitor io [] s = s"
| "ember_monitor io (_ # ticks) s = fold (\<lambda>_. ember_tick io) ticks s"

definition emberone_shutdown :: "'s ember_io \<Rightarrow> 's emberone \<Rightarrow> 's emberone" where
  "emberone_shutdown io s =
     (let s = snd (write_vddio io False s);
          s = snd (on_ember (led_off (eo_led io)) (s\<lparr>em_status_led := StatusLed_off (em_status_led s)\<rparr>))
      in snd (on_ember (eo_reboot io) (s\<lparr>em_reboots := em_reboots s + 1\<rparr>)))"

subsection \<open>What the board promises\<close>

lemma on_ember_fields [simp]:
  "em_pin_levels (snd (on_ember f s)) = em_pin_levels s" "em_reboots (snd (on_ember f s)) = em_reboots s"
  "em_status_led (snd (on_ember f s)) = em_status_led s" "em_telemetry (snd (on_ember f s)) = em_telemetry s"
  by (simp_all add: on_ember_def split: prod.split)

text \<open>Shutdown switches the supply off, the light off and reboots the firmware, whatever fails.\<close>

lemma shutdown_effects:
  "em_pin_levels (emberone_shutdown io s) = em_pin_levels s @ [False]"
  "em_reboots (emberone_shutdown io s) = em_reboots s + 1"
  "sl_handle (em_status_led (emberone_shutdown io s)) = AOff"
  by (simp_all add: emberone_shutdown_def write_vddio_def StatusLed_off_def Let_def)

text \<open>A round keeps what identifies the board and always reports three sensors.\<close>

lemma ember_tick_reports:
  "bt_name (em_telemetry (ember_tick io s)) = bt_name (em_telemetry s)"
  "bt_serial (em_telemetry (ember_tick io s)) = bt_serial (em_telemetry s)"
  "map ts_name (bt_temperatures (em_telemetry (ember_tick io s))) = [''pcb-left'', ''pcb-right'', ''chip-0'']"
  by (simp_all add: ember_tick_def Let_def split_beta)

text \<open>
  The supply is on before any sensor is talked to, and a board that was brought up has the sensors it
  expects: the identities the drivers read.
\<close>

lemma lift_error_Inr: "lift_error err f s = (Inr a, t) \<longleftrightarrow> f s = (Inr a, t)"
  by (auto simp: lift_error_def split: prod.splits sum.splits)

lemma on_ember_pins: "on_ember f s = (r, t) \<Longrightarrow> em_pin_levels t = em_pin_levels s"
  using on_ember_fields(1) [of f s] by simp

lemma on_ember_result: "on_ember f s = (r, t) \<Longrightarrow> f (em_i2c s) = (r, em_i2c t)"
  by (auto simp: on_ember_def split: prod.splits)

lemma attach_supply_first:
  assumes "emberone_attach io s = (Inr (), t)"
  shows "em_pin_levels t = em_pin_levels s @ [True]"
    and "\<exists>i j. io_pin (eo_board io) VDDIO_EN True (em_i2c s) = (Inr (), i) \<and>
      tmp1075_init (io_bus (eo_board io)) TMP1075_LEFT i = (Inr (), j)"
proof -
  obtain s1 s2 s3 where
    1: "write_vddio io True s = (Inr (), s1)" and
    2: "on_ember (tmp1075_init (io_bus (eo_board io)) TMP1075_LEFT) s1 = (Inr (), s2)" and
    3: "on_ember (tmp451_init (io_bus (eo_board io)) TMP451_RIGHT) s2 = (Inr (), s3)" and
    4: "on_ember (tmp451_set_remote_offset (io_bus (eo_board io)) TMP451_RIGHT REMOTE_OFFSET_C) s3 = (Inr (), t)"
    using assms unfolding emberone_attach_def Let_def and_then_Inr_iff lift_error_Inr by auto
  note pins = on_ember_pins [OF 1 [unfolded write_vddio_def]] on_ember_pins [OF 2] on_ember_pins [OF 3] on_ember_pins [OF 4]
  show "em_pin_levels t = em_pin_levels s @ [True]" using pins by simp
  show "\<exists>i j. io_pin (eo_board io) VDDIO_EN True (em_i2c s) = (Inr (), i) \<and>
      tmp1075_init (io_bus (eo_board io)) TMP1075_LEFT i = (Inr (), j)"
    using on_ember_result [OF 1 [unfolded write_vddio_def]] on_ember_result [OF 2] by auto
qed

text \<open>The format of the replies depends on the second nibble from the right of the device release only.\<close>

lemma emberone_format: "emberone_response_format (from_bcd bcd) = (if (drop_bit 4 bcd AND 0x0F :: u16) = 0 then V0 else V1)"
proof -
  have "(ucast (drop_bit 4 bcd AND 0x0F :: u16) :: u8) = 0 \<longleftrightarrow> drop_bit 4 bcd AND 0x0F = 0"
  proof
    assume z: "(ucast (drop_bit 4 bcd AND 0x0F :: u16) :: u8) = 0"
    have "unat (drop_bit 4 bcd AND 0x0F :: u16) \<le> 15"
      using word_and_le1 [of "drop_bit 4 bcd" "0x0F :: u16"] by (simp add: word_le_nat_alt)
    then have "unat (ucast (drop_bit 4 bcd AND 0x0F :: u16) :: u8) = unat (drop_bit 4 bcd AND 0x0F :: u16)"
      by (simp only: unat_widen mod_less)
    then show "drop_bit 4 bcd AND 0x0F = 0" using z by (simp add: unsigned_word_eqI [where 'a = nat])
  qed simp
  moreover have "1 \<le> b \<longleftrightarrow> b \<noteq> 0" for b :: u8 by (metis word_less_1 not_le)
  ultimately show ?thesis by (simp add: emberone_response_format_def from_bcd_def)
qed

end
