(* ===== verification/Serial_Port.thy ===== *)
theory Serial_Port
  imports Prelude
begin

text \<open>
  The serial stream that can be reconfigured while it is split, \<open>transport/serial.rs\<close>. The operating
  system's port is an argument: what \<open>tcgetattr\<close>, \<open>set_speed\<close>, \<open>make_raw\<close> and \<open>tcsetattr\<close> do, and the
  bits of the control modes. The inner value all handles share is one record of the atomics; every
  method is a function on it. The texts of configuration errors are kept as their causes.
\<close>

subsection \<open>Configuration\<close>

datatype Parity = ParityNone | ParityOdd | ParityEven

record SerialConfig =
  sc_baud_rate :: u32
  sc_data_bits :: u8
  sc_stop_bits :: u8
  sc_parity :: Parity

definition SerialConfig_default :: SerialConfig where
  "SerialConfig_default = \<lparr>sc_baud_rate = 115200, sc_data_bits = 8, sc_stop_bits = 1, sc_parity = ParityNone\<rparr>"

fun Parity_as_u8 :: "Parity \<Rightarrow> u8" where
  "Parity_as_u8 ParityNone = 0"
| "Parity_as_u8 ParityOdd = 1"
| "Parity_as_u8 ParityEven = 2"

datatype 'e config_cause =
  GetFailed 'e
| SpeedFailed 'e
| InvalidDataBits u8
| InvalidStopBits u8
| ApplyFailed 'e
| LockTimeout

datatype 'e serial_error =
  OpenError 'e
| ConfigError "'e config_cause"
| IoError 'e
| Disconnected
| HardwareError

text \<open>The attributes: the control modes as a word, the rest as the library keeps it.\<close>

record 'x termios =
  tm_control_modes :: u32
  tm_speed :: u32
  tm_other :: 'x

record control_flags =
  cf_CSIZE :: u32
  cf_CS5 :: u32
  cf_CS6 :: u32
  cf_CS7 :: u32
  cf_CS8 :: u32
  cf_PARENB :: u32
  cf_PARODD :: u32
  cf_CSTOPB :: u32

text \<open>\<open>os_set\<close> has the attributes it is to apply and says whether it did.\<close>

record ('x, 'e, 'p) serial_os =
  os_flags :: control_flags
  os_get :: "'p \<Rightarrow> 'e + 'x termios"
  os_make_raw :: "'x termios \<Rightarrow> 'x termios"
  os_set_speed :: "u32 \<Rightarrow> 'x termios \<Rightarrow> 'e + 'x termios"
  os_set :: "'x termios \<Rightarrow> 'p \<Rightarrow> ('e + unit) \<times> 'p"

definition set_modes :: "(u32 \<Rightarrow> u32) \<Rightarrow> 'x termios \<Rightarrow> 'x termios" where
  "set_modes f t = t\<lparr>tm_control_modes := f (tm_control_modes t)\<rparr>"

definition data_bits_modes :: "control_flags \<Rightarrow> u8 \<Rightarrow> u32 \<Rightarrow> 'e config_cause + u32" where
  "data_bits_modes fl data_bits w =
     (let w = w AND NOT (cf_CSIZE fl)
      in if data_bits = 5 then Inr (w OR cf_CS5 fl)
         else if data_bits = 6 then Inr (w OR cf_CS6 fl)
         else if data_bits = 7 then Inr (w OR cf_CS7 fl)
         else if data_bits = 8 then Inr (w OR cf_CS8 fl)
         else Inl (InvalidDataBits data_bits))"

fun parity_modes :: "control_flags \<Rightarrow> Parity \<Rightarrow> u32 \<Rightarrow> u32" where
  "parity_modes fl ParityNone w = w AND NOT (cf_PARENB fl)"
| "parity_modes fl ParityOdd w = w OR cf_PARENB fl OR cf_PARODD fl"
| "parity_modes fl ParityEven w = (w OR cf_PARENB fl) AND NOT (cf_PARODD fl)"

definition stop_bits_modes :: "control_flags \<Rightarrow> u8 \<Rightarrow> u32 \<Rightarrow> 'e config_cause + u32" where
  "stop_bits_modes fl stop_bits w =
     (if stop_bits = 1 then Inr (w AND NOT (cf_CSTOPB fl))
      else if stop_bits = 2 then Inr (w OR cf_CSTOPB fl)
      else Inl (InvalidStopBits stop_bits))"

text \<open>The attributes to apply, or the reason there are none.\<close>

definition configured ::
    "('x, 'e, 'p) serial_os \<Rightarrow> SerialConfig \<Rightarrow> 'p \<Rightarrow> 'e config_cause + 'x termios" where
  "configured os config port =
     (case os_get os port of
        Inl e \<Rightarrow> Inl (GetFailed e)
      | Inr t \<Rightarrow>
          (case os_set_speed os (sc_baud_rate config) (os_make_raw os t) of
             Inl e \<Rightarrow> Inl (SpeedFailed e)
           | Inr t \<Rightarrow>
               try_res (data_bits_modes (os_flags os) (sc_data_bits config) (tm_control_modes t)) (\<lambda>w.
               try_res (stop_bits_modes (os_flags os) (sc_stop_bits config)
                 (parity_modes (os_flags os) (sc_parity config) w)) (\<lambda>w.
               Inr (t\<lparr>tm_control_modes := w\<rparr>)))))"

definition apply_serial_config ::
    "('x, 'e, 'p) serial_os \<Rightarrow> SerialConfig \<Rightarrow> 'p \<Rightarrow> ('e serial_error + unit) \<times> 'p" where
  "apply_serial_config os config port =
     (case configured os config port of
        Inl cause \<Rightarrow> (Inl (ConfigError cause), port)
      | Inr t \<Rightarrow>
          (case os_set os t port of
             (Inl e, port) \<Rightarrow> (Inl (ConfigError (ApplyFailed e)), port)
           | (Inr _, port) \<Rightarrow> (Inr (), port)))"

subsection \<open>The stream\<close>

record 'p serial_inner =
  si_port :: 'p
  si_baud_rate :: u32
  si_data_bits :: u8
  si_stop_bits :: u8
  si_parity :: u8
  si_bytes_read :: u64
  si_bytes_written :: u64

text \<open>Opening the device and registering it with the reactor can fail: \<open>opened\<close> and \<open>async_fd\<close>.\<close>

definition with_config ::
    "('x, 'e, 'p) serial_os \<Rightarrow> 'e + 'p \<Rightarrow> ('p \<Rightarrow> 'e + 'p) \<Rightarrow> SerialConfig \<Rightarrow> 'e serial_error + 'p serial_inner" where
  "with_config os opened async_fd config =
     (case opened of
        Inl e \<Rightarrow> Inl (OpenError e)
      | Inr port \<Rightarrow>
          (case apply_serial_config os config port of
             (Inl e, port) \<Rightarrow> Inl e
           | (Inr _, port) \<Rightarrow>
               (case async_fd port of
                  Inl e \<Rightarrow> Inl (IoError e)
                | Inr port \<Rightarrow>
                    Inr \<lparr>si_port = port, si_baud_rate = sc_baud_rate config, si_data_bits = sc_data_bits config,
                         si_stop_bits = sc_stop_bits config, si_parity = Parity_as_u8 (sc_parity config),
                         si_bytes_read = 0, si_bytes_written = 0\<rparr>)))"

definition SerialStream_new ::
    "('x, 'e, 'p) serial_os \<Rightarrow> 'e + 'p \<Rightarrow> ('p \<Rightarrow> 'e + 'p) \<Rightarrow> u32 \<Rightarrow> 'e serial_error + 'p serial_inner" where
  "SerialStream_new os opened async_fd baud_rate =
     with_config os opened async_fd (SerialConfig_default\<lparr>sc_baud_rate := baud_rate\<rparr>)"

subsection \<open>Reading and writing\<close>

text \<open>
  What one poll sees, in order: for every time the descriptor is reported ready, the outcome of the
  system call. When the list ends, the descriptor is not ready and the poll is pending.
\<close>

datatype ('e, 'a) attempt = ReadyFailed 'e | Done 'a | WouldBlock | ErrIo | ErrPipe | ErrOther 'e

fun poll_read ::
    "('e, bytes) attempt list \<Rightarrow> 'p serial_inner \<Rightarrow> ('e serial_error + bytes) option \<times> 'p serial_inner" where
  "poll_read [] s = (None, s)"
| "poll_read (a # as) s =
     (case a of
        ReadyFailed e \<Rightarrow> (Some (Inl (IoError e)), s)
      | Done bs \<Rightarrow>
          (Some (Inr bs),
           if length bs > 0 then s\<lparr>si_bytes_read := si_bytes_read s + of_nat (length bs)\<rparr> else s)
      | WouldBlock \<Rightarrow> poll_read as s
      | ErrIo \<Rightarrow> (Some (Inl HardwareError), s)
      | ErrPipe \<Rightarrow> (Some (Inl Disconnected), s)
      | ErrOther e \<Rightarrow> (Some (Inl (IoError e)), s))"

fun poll_write ::
    "('e, nat) attempt list \<Rightarrow> 'p serial_inner \<Rightarrow> ('e serial_error + nat) option \<times> 'p serial_inner" where
  "poll_write [] s = (None, s)"
| "poll_write (a # as) s =
     (case a of
        ReadyFailed e \<Rightarrow> (Some (Inl (IoError e)), s)
      | Done n \<Rightarrow> (Some (Inr n), if n > 0 then s\<lparr>si_bytes_written := si_bytes_written s + of_nat n\<rparr> else s)
      | WouldBlock \<Rightarrow> poll_write as s
      | ErrIo \<Rightarrow> (Some (Inl HardwareError), s)
      | ErrPipe \<Rightarrow> (Some (Inl Disconnected), s)
      | ErrOther e \<Rightarrow> (Some (Inl (IoError e)), s))"

subsection \<open>Control\<close>

text \<open>\<open>locked\<close>: the write lock was free within the five seconds it is tried for.\<close>

definition set_baud_rate ::
    "('x, 'e, 'p) serial_os \<Rightarrow> bool \<Rightarrow> u32 \<Rightarrow> 'p serial_inner \<Rightarrow> ('e serial_error + unit) \<times> 'p serial_inner" where
  "set_baud_rate os locked baud_rate s =
     (if \<not> locked then (Inl (ConfigError LockTimeout), s)
      else
        (case os_get os (si_port s) of
           Inl e \<Rightarrow> (Inl (ConfigError (GetFailed e)), s)
         | Inr t \<Rightarrow>
             (case os_set_speed os baud_rate t of
                Inl e \<Rightarrow> (Inl (ConfigError (SpeedFailed e)), s)
              | Inr t \<Rightarrow>
                  (case os_set os t (si_port s) of
                     (Inl e, port) \<Rightarrow> (Inl (ConfigError (ApplyFailed e)), s\<lparr>si_port := port\<rparr>)
                   | (Inr _, port) \<Rightarrow> (Inr (), s\<lparr>si_port := port, si_baud_rate := baud_rate\<rparr>)))))"

definition current_parity :: "'p serial_inner \<Rightarrow> Parity" where
  "current_parity s =
     (if si_parity s = 0 then ParityNone
      else if si_parity s = 1 then ParityOdd
      else if si_parity s = 2 then ParityEven
      else ParityNone)"

definition current_config :: "'p serial_inner \<Rightarrow> SerialConfig" where
  "current_config s =
     \<lparr>sc_baud_rate = si_baud_rate s, sc_data_bits = si_data_bits s, sc_stop_bits = si_stop_bits s,
      sc_parity = current_parity s\<rparr>"

record SerialStats =
  ss_bytes_read :: u64
  ss_bytes_written :: u64
  ss_baud_rate :: u32

definition serial_stats :: "'p serial_inner \<Rightarrow> SerialStats" where
  "serial_stats s = \<lparr>ss_bytes_read = si_bytes_read s, ss_bytes_written = si_bytes_written s, ss_baud_rate = si_baud_rate s\<rparr>"

definition reset_stats :: "'p serial_inner \<Rightarrow> 'p serial_inner" where
  "reset_stats s = s\<lparr>si_bytes_read := 0, si_bytes_written := 0\<rparr>"

subsection \<open>The contract of the port\<close>

text \<open>
  What the code relies on: attributes that were applied are the ones read back, a speed that was set
  is the speed, raw mode and the speed leave each other and the control modes' fields we set later
  alone, and the flags are separate bits with every size inside the size field.
\<close>

definition flags_separate :: "control_flags \<Rightarrow> bool" where
  "flags_separate fl \<longleftrightarrow>
     (\<forall>size\<in>{cf_CS5 fl, cf_CS6 fl, cf_CS7 fl, cf_CS8 fl}. size AND cf_CSIZE fl = size) \<and>
     cf_CSIZE fl AND cf_PARENB fl = 0 \<and> cf_CSIZE fl AND cf_PARODD fl = 0 \<and> cf_CSIZE fl AND cf_CSTOPB fl = 0 \<and>
     cf_PARENB fl AND cf_PARODD fl = 0 \<and> cf_PARENB fl AND cf_CSTOPB fl = 0 \<and> cf_PARODD fl AND cf_CSTOPB fl = 0"

locale serial_port =
  fixes os :: "('x, 'e, 'p) serial_os"
  assumes separate: "flags_separate (os_flags os)"
    and get_set: "os_set os t port = (Inr (), port') \<Longrightarrow> os_get os port' = Inr t"
    and set_speed: "os_set_speed os rate t = Inr t' \<Longrightarrow> tm_speed t' = rate \<and> tm_control_modes t' = tm_control_modes t"
begin

text \<open>After a successful configuration the port has the configured speed and the fields of the modes.\<close>

lemma configured_fields:
  assumes "configured os config port = Inr t"
  shows "tm_speed t = sc_baud_rate config"
    and "\<exists>w v. data_bits_modes (os_flags os) (sc_data_bits config) w = (Inr v :: 'e config_cause + u32) \<and>
      stop_bits_modes (os_flags os) (sc_stop_bits config) (parity_modes (os_flags os) (sc_parity config) v) =
        (Inr (tm_control_modes t) :: 'e config_cause + u32)"
proof -
  obtain t0 t1 w v where c: "os_set_speed os (sc_baud_rate config) (os_make_raw os t0) = Inr t1"
    "data_bits_modes (os_flags os) (sc_data_bits config) (tm_control_modes t1) = (Inr v :: 'e config_cause + u32)"
    "stop_bits_modes (os_flags os) (sc_stop_bits config) (parity_modes (os_flags os) (sc_parity config) v) =
       (Inr w :: 'e config_cause + u32)"
    "t = t1\<lparr>tm_control_modes := w\<rparr>"
    using assms by (auto simp: configured_def try_res_Inr_iff split: sum.splits)
  show "tm_speed t = sc_baud_rate config" using set_speed [OF c(1)] c(4) by simp
  show "\<exists>w v. data_bits_modes (os_flags os) (sc_data_bits config) w = (Inr v :: 'e config_cause + u32) \<and>
      stop_bits_modes (os_flags os) (sc_stop_bits config) (parity_modes (os_flags os) (sc_parity config) v) =
        (Inr (tm_control_modes t) :: 'e config_cause + u32)"
    using c(2,3) by (simp add: c(4)) blast
qed

lemma applied:
  assumes "apply_serial_config os config port = (Inr (), port')"
  shows "\<exists>t. configured os config port = Inr t \<and> os_get os port' = Inr t"
  using assms get_set by (auto simp: apply_serial_config_def split: sum.splits prod.splits)

text \<open>The cached speed is that of the port: the invariant of the shared value.\<close>

definition speed_agrees :: "'p serial_inner \<Rightarrow> bool" where
  "speed_agrees s \<longleftrightarrow> (\<exists>t. os_get os (si_port s) = Inr t \<and> tm_speed t = si_baud_rate s)"

lemma set_baud_rate_agrees:
  assumes "set_baud_rate os locked rate s = (Inr (), s')"
  shows "speed_agrees s'" "si_baud_rate s' = rate"
  using assms get_set set_speed
  by (auto simp: set_baud_rate_def speed_agrees_def split: sum.splits prod.splits if_splits)

lemma set_baud_rate_keeps_modes:
  assumes "set_baud_rate os locked rate s = (Inr (), s')" "os_get os (si_port s) = Inr t"
  shows "\<exists>t'. os_get os (si_port s') = Inr t' \<and> tm_control_modes t' = tm_control_modes t"
  using assms get_set set_speed
  by (auto simp: set_baud_rate_def split: sum.splits prod.splits if_splits)

lemma opened_agrees:
  assumes "with_config os opened async_fd config = Inr s" "\<And>p p'. async_fd p = Inr p' \<Longrightarrow> os_get os p' = os_get os p"
  shows "speed_agrees s" "current_config s = config"
proof -
  obtain port port' where p: "apply_serial_config os config port = (Inr (), port')" "async_fd port' = Inr (si_port s)"
    and s: "si_baud_rate s = sc_baud_rate config" "si_data_bits s = sc_data_bits config"
      "si_stop_bits s = sc_stop_bits config" "si_parity s = Parity_as_u8 (sc_parity config)"
    using assms(1) by (auto simp: with_config_def split: sum.splits prod.splits)
  obtain t where t: "configured os config port = Inr t" "os_get os port' = Inr t" using applied [OF p(1)] by blast
  show "speed_agrees s"
    using configured_fields(1) [OF t(1)] t(2) assms(2) [OF p(2)] s(1) by (simp add: speed_agrees_def)
  show "current_config s = config"
    using s by (cases "sc_parity config") (simp_all add: current_config_def current_parity_def)
qed

end

text \<open>Linux on a terminal that accepts every attribute but the speeds it does not know.\<close>

definition linux_flags :: control_flags where
  "linux_flags =
     \<lparr>cf_CSIZE = 0x30, cf_CS5 = 0x00, cf_CS6 = 0x10, cf_CS7 = 0x20, cf_CS8 = 0x30, cf_PARENB = 0x100, cf_PARODD = 0x200,
      cf_CSTOPB = 0x40\<rparr>"

definition plain_terminal :: "u32 set \<Rightarrow> (unit, unit, unit termios) serial_os" where
  "plain_terminal speeds =
     \<lparr>os_flags = linux_flags, os_get = Inr,
      os_make_raw = set_modes (\<lambda>w. (w AND NOT (0x30 OR 0x100)) OR 0x30),
      os_set_speed = (\<lambda>rate t. if rate \<in> speeds then Inr (t\<lparr>tm_speed := rate\<rparr>) else Inl ()),
      os_set = (\<lambda>t port. (Inr (), t))\<rparr>"

lemma linux_flags_separate: "flags_separate linux_flags"
  by (simp add: flags_separate_def linux_flags_def)

interpretation plain_terminal: serial_port "plain_terminal speeds"
  by unfold_locales (auto simp: plain_terminal_def linux_flags_separate split: if_splits)

subsection \<open>The control modes\<close>

text \<open>Each field of the modes is what the configuration says, whatever it was before.\<close>

definition size_flag :: "control_flags \<Rightarrow> u8 \<Rightarrow> u32" where
  "size_flag fl n = (if n = 5 then cf_CS5 fl else if n = 6 then cf_CS6 fl else if n = 7 then cf_CS7 fl else cf_CS8 fl)"

definition modes_show :: "control_flags \<Rightarrow> SerialConfig \<Rightarrow> u32 \<Rightarrow> bool" where
  "modes_show fl config w \<longleftrightarrow>
     w AND cf_CSIZE fl = size_flag fl (sc_data_bits config) \<and>
     w AND cf_PARENB fl = (if sc_parity config = ParityNone then 0 else cf_PARENB fl) \<and>
     (sc_parity config \<noteq> ParityNone \<longrightarrow> w AND cf_PARODD fl = (if sc_parity config = ParityOdd then cf_PARODD fl else 0)) \<and>
     w AND cf_CSTOPB fl = (if sc_stop_bits config = 2 then cf_CSTOPB fl else 0)"

lemma and_zero_apart:
  assumes "a AND b = (0 :: u32)"
  shows "\<not> (bit a n \<and> bit b n)"
  using arg_cong [OF assms, of "\<lambda>w. bit w n"] by (simp add: bit_and_iff)

lemma modes_configured:
  assumes fl: "flags_separate fl"
    and d: "data_bits_modes fl (sc_data_bits config) w = (Inr v :: 'e config_cause + u32)"
    and s: "stop_bits_modes fl (sc_stop_bits config) (parity_modes fl (sc_parity config) v) = (Inr u :: 'e config_cause + u32)"
  shows "modes_show fl config u" "sc_data_bits config \<in> {5, 6, 7, 8}" "sc_stop_bits config \<in> {1, 2}"
proof -
  show range: "sc_data_bits config \<in> {5, 6, 7, 8}" "sc_stop_bits config \<in> {1, 2}"
    using d s by (auto simp: data_bits_modes_def stop_bits_modes_def Let_def split: if_splits)
  let ?size = "size_flag fl (sc_data_bits config)" and ?p = "sc_parity config" and ?two = "sc_stop_bits config = 2"
  have v: "v = (w AND NOT (cf_CSIZE fl)) OR ?size"
    using d range(1) by (auto simp: data_bits_modes_def size_flag_def Let_def split: if_splits)
  have u: "u = (if ?two then parity_modes fl ?p v OR cf_CSTOPB fl else parity_modes fl ?p v AND NOT (cf_CSTOPB fl))"
    using s range(2) by (auto simp: stop_bits_modes_def split: if_splits)
  have size: "?size AND cf_CSIZE fl = ?size" using fl by (simp add: flags_separate_def size_flag_def)
  have inside: "bit ?size n \<Longrightarrow> bit (cf_CSIZE fl) n" for n using size by (metis bit_and_iff)
  have apart: "\<not> (bit (cf_CSIZE fl) n \<and> bit (cf_PARENB fl) n)" "\<not> (bit (cf_CSIZE fl) n \<and> bit (cf_PARODD fl) n)"
    "\<not> (bit (cf_CSIZE fl) n \<and> bit (cf_CSTOPB fl) n)" "\<not> (bit (cf_PARENB fl) n \<and> bit (cf_PARODD fl) n)"
    "\<not> (bit (cf_PARENB fl) n \<and> bit (cf_CSTOPB fl) n)" "\<not> (bit (cf_PARODD fl) n \<and> bit (cf_CSTOPB fl) n)" for n
    by (rule and_zero_apart; use fl in \<open>simp add: flags_separate_def\<close>)+
  have pb: "bit (parity_modes fl ?p v) n \<longleftrightarrow>
      (case ?p of ParityNone \<Rightarrow> bit v n \<and> \<not> bit (cf_PARENB fl) n
       | ParityOdd \<Rightarrow> bit v n \<or> bit (cf_PARENB fl) n \<or> bit (cf_PARODD fl) n
       | ParityEven \<Rightarrow> (bit v n \<or> bit (cf_PARENB fl) n) \<and> \<not> bit (cf_PARODD fl) n)" if "n < 32" for n
    using that by (cases ?p) (auto simp: bit_simps)
  have vb: "bit v n \<longleftrightarrow> (bit w n \<and> \<not> bit (cf_CSIZE fl) n) \<or> bit ?size n" if "n < 32" for n
    using that by (auto simp: v bit_simps)
  have ub: "bit u n \<longleftrightarrow> (if ?two then bit (parity_modes fl ?p v) n \<or> bit (cf_CSTOPB fl) n
      else bit (parity_modes fl ?p v) n \<and> \<not> bit (cf_CSTOPB fl) n)" if "n < 32" for n
    using that by (simp add: u bit_simps)
  have wordI: "a = b" if "\<And>n. n < 32 \<Longrightarrow> bit a n = bit b n" for a b :: u32
    by (rule word32_eqI) (use that in blast)
  show "modes_show fl config u"
    unfolding modes_show_def
  proof (intro conjI impI)
    show "u AND cf_CSIZE fl = ?size"
      by (rule wordI) (use inside apart in \<open>auto simp: bit_simps ub pb vb split: Parity.splits\<close>)
    show "u AND cf_PARENB fl = (if ?p = ParityNone then 0 else cf_PARENB fl)"
      by (rule wordI) (use inside apart in \<open>auto simp: bit_simps ub pb vb split: Parity.splits\<close>)
    show "u AND cf_PARODD fl = (if ?p = ParityOdd then cf_PARODD fl else 0)" if "?p \<noteq> ParityNone"
      by (rule wordI) (use inside apart that in \<open>auto simp: bit_simps ub pb vb split: Parity.splits\<close>)
    show "u AND cf_CSTOPB fl = (if ?two then cf_CSTOPB fl else 0)"
      by (rule wordI) (use inside apart in \<open>auto simp: bit_simps ub pb vb split: Parity.splits\<close>)
  qed
qed

text \<open>What fails never reaches the port, unless applying itself fails.\<close>

lemma rejected_untouched:
  assumes "apply_serial_config os config port = (Inl (ConfigError cause), port')" "\<forall>e. cause \<noteq> ApplyFailed e"
  shows "port' = port"
  using assms by (auto simp: apply_serial_config_def split: sum.splits prod.splits)

lemma set_baud_rate_failed:
  assumes "set_baud_rate os locked rate s = (Inl e, s')"
  shows "si_baud_rate s' = si_baud_rate s" "(\<forall>e'. e \<noteq> ConfigError (ApplyFailed e')) \<Longrightarrow> s' = s"
  using assms by (auto simp: set_baud_rate_def split: sum.splits prod.splits if_splits)

subsection \<open>Statistics\<close>

text \<open>Polls in any order, with resets between them: the counters are the bytes since the last reset.\<close>

datatype 'e serial_use = UseRead "('e, bytes) attempt list" | UseWrite "('e, nat) attempt list" | UseReset

fun use_serial :: "'e serial_use \<Rightarrow> 'p serial_inner \<Rightarrow> 'p serial_inner" where
  "use_serial (UseRead as) s = snd (poll_read as s)"
| "use_serial (UseWrite as) s = snd (poll_write as s)"
| "use_serial UseReset s = reset_stats s"

fun read_bytes :: "'e serial_use \<Rightarrow> 'p serial_inner \<Rightarrow> nat" where
  "read_bytes (UseRead as) s = (case fst (poll_read as s) of Some (Inr bs) \<Rightarrow> length bs | _ \<Rightarrow> 0)"
| "read_bytes _ s = 0"

lemma poll_read_count:
  "si_bytes_read (snd (poll_read as s)) =
     si_bytes_read s + of_nat (case fst (poll_read as s) of Some (Inr bs) \<Rightarrow> length bs | _ \<Rightarrow> 0)"
  "si_bytes_written (snd (poll_read as s)) = si_bytes_written s" "si_port (snd (poll_read as s)) = si_port s"
  by (induction as) (auto split: attempt.split)

lemma poll_write_count:
  "si_bytes_written (snd (poll_write as s)) =
     si_bytes_written s + of_nat (case fst (poll_write as s) of Some (Inr n) \<Rightarrow> n | _ \<Rightarrow> 0)"
  "si_bytes_read (snd (poll_write as s)) = si_bytes_read s" "si_port (snd (poll_write as s)) = si_port s"
  by (induction as) (auto split: attempt.split)

fun read_since_reset :: "'e serial_use list \<Rightarrow> 'p serial_inner \<Rightarrow> nat" where
  "read_since_reset [] s = 0"
| "read_since_reset (u # us) s =
     (if UseReset \<in> set us then read_since_reset us (use_serial u s)
      else read_bytes u s + read_since_reset us (use_serial u s))"

lemma bytes_read_counted:
  "si_bytes_read (fold use_serial us s) =
     (if UseReset \<in> set us then 0 else si_bytes_read s) + of_nat (read_since_reset us s)"
proof (induction us arbitrary: s)
  case (Cons u us)
  show ?case
  proof (cases u)
    case (UseRead as)
    then show ?thesis using Cons by (simp add: poll_read_count)
  next
    case (UseWrite as)
    then show ?thesis using Cons by (simp add: poll_write_count)
  next
    case UseReset
    then show ?thesis using Cons by (simp add: reset_stats_def)
  qed
qed simp

end
