(* ===== verification/Daemon_Api.thy ===== *)
theory Daemon_Api
  imports Bitaxe_Board Scheduler
begin

text \<open>
  The decisions of the program's shell: the address the API listens on (\<open>daemon.rs\<close>), the log filter
  (\<open>tracing.rs\<close>), the wrapped help text (\<open>env_help.rs\<close>), the registry of boards (\<open>api/registry.rs\<close>) and
  the handlers of \<open>api/v0.rs\<close>. The web framework and the channels are what they deliver.
\<close>

subsection \<open>Listening\<close>

definition API_PORT_text :: string where
  "API_PORT_text = ''7785''"

definition bind_addr :: "string option \<Rightarrow> string" where
  "bind_addr listen =
     (case listen of
        Some addr \<Rightarrow> if CHR '':'' \<in> set addr then addr else addr @ '':'' @ API_PORT_text
      | None \<Rightarrow> ''127.0.0.1:'' @ API_PORT_text)"

text \<open>The device the daemon announces for the configured CPU miner, and the events of its transport.\<close>

definition cpu_transport_events :: "nat \<Rightarrow> u8 \<Rightarrow> TransportEvent list" where
  "cpu_transport_events thread_count duty_percent =
     [Cpu (CpuDeviceConnected
        \<lparr>cd_device_id = ''cpu-'' @ decimal thread_count @ ''x'' @ decimal (unat duty_percent) @ ''%'',
         cd_thread_count = thread_count, cd_duty_percent = duty_percent\<rparr>),
      InitialEnumerationComplete]"

text \<open>A bare address of IPv6 has a colon and gets no port.\<close>

lemma bind_addr_port:
  "CHR '':'' \<notin> set addr \<Longrightarrow> bind_addr (Some addr) = addr @ '':7785''"
  "bind_addr (Some ''::1'') = ''::1''"
  by (simp_all add: bind_addr_def API_PORT_text_def)

subsection \<open>Log filter\<close>

definition DEFAULT_LOG_FILTER :: string where
  "DEFAULT_LOG_FILTER = ''warn,mujina_miner=info''"

definition is_space :: "char \<Rightarrow> bool" where
  "is_space c \<longleftrightarrow> c = CHR '' '' \<or> (9 \<le> (of_char c :: nat) \<and> (of_char c :: nat) \<le> 13)"

fun split_on :: "char \<Rightarrow> string \<Rightarrow> string list" where
  "split_on d [] = [[]]"
| "split_on d (c # cs) =
     (if c = d then [] # split_on d cs
      else case split_on d cs of [] \<Rightarrow> [[c]] | p # ps \<Rightarrow> (c # p) # ps)"

definition trim :: "string \<Rightarrow> string" where
  "trim s = rev (dropWhile is_space (rev (dropWhile is_space s)))"

definition elements :: "string option \<Rightarrow> string list" where
  "elements var = filter (\<lambda>e. e \<noteq> []) (map trim (split_on (CHR '','') (case var of Some s \<Rightarrow> s | None \<Rightarrow> [])))"

fun join_commas :: "string list \<Rightarrow> string" where
  "join_commas [] = []"
| "join_commas [x] = x"
| "join_commas (x # xs) = x @ '','' @ join_commas xs"

text \<open>\<open>bare d\<close>: the logging library reads the directive as a level alone.\<close>

definition filter_directives :: "(string \<Rightarrow> bool) \<Rightarrow> string option \<Rightarrow> string option \<Rightarrow> string list" where
  "filter_directives bare rust_log mujina_log =
     (let rust = elements rust_log
      in (if list_ex bare rust then [] else [DEFAULT_LOG_FILTER]) @ rust @
         map (\<lambda>d. if bare d then ''mujina_miner='' @ d else ''mujina_miner::'' @ d) (elements mujina_log))"

definition filter_string :: "(string \<Rightarrow> bool) \<Rightarrow> string option \<Rightarrow> string option \<Rightarrow> string" where
  "filter_string bare rust_log mujina_log = join_commas (filter_directives bare rust_log mujina_log)"

lemma split_on_pieces: "p \<in> set (split_on d s) \<Longrightarrow> d \<notin> set p"
  by (induction d s arbitrary: p rule: split_on.induct) (auto split: list.splits if_splits)

lemma set_trim: "set (trim s) \<subseteq> set s"
  unfolding trim_def by (metis set_dropWhileD set_rev subsetI)

text \<open>
  Every element is a single directive, the defaults stand unless a bare level replaces them, and what
  \<open>MUJINA_LOG\<close> says comes last and only concerns this program.
\<close>

lemma elements_single: "e \<in> set (elements var) \<Longrightarrow> e \<noteq> [] \<and> CHR '','' \<notin> set e"
  unfolding elements_def using set_trim by (auto dest!: split_on_pieces)

lemma directives_order:
  "filter_directives bare rust_log mujina_log =
     (if \<exists>d\<in>set (elements rust_log). bare d then [] else [DEFAULT_LOG_FILTER]) @ elements rust_log @
     map (\<lambda>d. ''mujina_miner'' @ (if bare d then ''='' else ''::'') @ d) (elements mujina_log)"
  by (auto simp: filter_directives_def Let_def list_ex_iff)

lemma filter_default: "filter_string bare None None = DEFAULT_LOG_FILTER"
  by (simp add: filter_string_def filter_directives_def elements_def trim_def)

subsection \<open>Help text\<close>

function split_whitespace :: "string \<Rightarrow> string list" where
  "split_whitespace [] = []"
| "split_whitespace (c # cs) =
     (if is_space c then split_whitespace cs
      else (c # takeWhile (\<lambda>d. \<not> is_space d) cs) # split_whitespace (dropWhile (\<lambda>d. \<not> is_space d) cs))"
  by pat_completeness auto
termination by (relation "measure length") (auto simp: le_imp_less_Suc length_dropWhile_le)

text \<open>The lines of \<open>wrap\<close>, each printed with the indent before and a newline behind; \<open>line\<close> is the one begun.\<close>

fun wrap_lines :: "nat \<Rightarrow> string \<Rightarrow> string list \<Rightarrow> string list" where
  "wrap_lines avail line [] = (if line \<noteq> [] then [line] else [])"
| "wrap_lines avail line (word # words) =
     (if line \<noteq> [] \<and> avail < length line + 1 + length word
      then line # wrap_lines avail word words
      else wrap_lines avail ((if line \<noteq> [] then line @ '' '' else line) @ word) words)"

definition help_wrap :: "string \<Rightarrow> string \<Rightarrow> nat \<Rightarrow> string" where
  "help_wrap txt indent width =
     concat (map (\<lambda>line. indent @ line @ [CHR 0x0A]) (wrap_lines (width - length indent) [] (split_whitespace txt)))"

text \<open>No line is too wide unless it is one long word, and no word is lost.\<close>

lemma wrap_lines_width:
  assumes "l \<in> set (wrap_lines avail line words)" "\<forall>w\<in>set words. length w \<le> avail" "length line \<le> avail"
  shows "length l \<le> avail"
  using assms
proof (induction avail line words rule: wrap_lines.induct)
  case (2 avail line word words)
  then show ?case by (cases "line \<noteq> [] \<and> avail < length line + 1 + length word") (auto simp: not_less)
qed (auto split: if_splits)

lemma split_at_space: "split_whitespace (s @ CHR '' '' # t) = split_whitespace s @ split_whitespace t"
proof (induction s rule: split_whitespace.induct)
  case 1
  show ?case by (simp add: is_space_def)
next
  case (2 c cs)
  let ?w = "\<lambda>d. \<not> is_space d"
  have sp: "is_space (CHR '' '')" by (simp add: is_space_def)
  show ?case
  proof (cases "is_space c")
    case True
    then show ?thesis using 2 by simp
  next
    case False
    have "takeWhile ?w (cs @ CHR '' '' # t) = takeWhile ?w cs \<and>
        dropWhile ?w (cs @ CHR '' '' # t) = dropWhile ?w cs @ CHR '' '' # t"
      using sp by (induction cs) simp_all
    then show ?thesis using 2(2) [OF False] False by (simp only: append_Cons split_whitespace.simps if_False)
  qed
qed

lemma split_word:
  assumes "w \<noteq> []" "\<forall>c\<in>set w. \<not> is_space c"
  shows "split_whitespace w = [w]"
proof -
  obtain c cs where w: "w = c # cs" using assms(1) by (cases w) auto
  have "takeWhile (\<lambda>d. \<not> is_space d) cs = cs" using assms(2) w by (simp add: takeWhile_eq_all_conv)
  moreover have "dropWhile (\<lambda>d. \<not> is_space d) cs = []" using assms(2) w by simp
  moreover have "\<not> is_space c" using assms(2) w by simp
  ultimately show ?thesis unfolding w by (simp only: split_whitespace.simps if_False)
qed

lemma wrap_lines_words:
  assumes "\<forall>w\<in>set words. w \<noteq> [] \<and> (\<forall>c\<in>set w. \<not> is_space c)"
  shows "concat (map split_whitespace (wrap_lines avail line words)) = split_whitespace line @ words"
  using assms
proof (induction avail line words rule: wrap_lines.induct)
  case (2 avail line word words)
  then show ?case
    by (cases "line \<noteq> [] \<and> avail < length line + 1 + length word")
      (auto simp: split_word split_at_space)
qed auto

lemma split_whitespace_words: "w \<in> set (split_whitespace s) \<Longrightarrow> w \<noteq> [] \<and> (\<forall>c\<in>set w. \<not> is_space c)"
proof (induction s rule: split_whitespace.induct)
  case (2 c cs)
  show ?case
  proof (cases "is_space c")
    case False
    then consider "w = c # takeWhile (\<lambda>d. \<not> is_space d) cs" | "w \<in> set (split_whitespace (dropWhile (\<lambda>d. \<not> is_space d) cs))"
      using 2(3) by (auto simp only: split_whitespace.simps if_False list.set)
    then show ?thesis
    proof cases
      case 1
      then show ?thesis using False by (auto dest: set_takeWhileD)
    qed (rule 2(2) [OF False])
  next
    case True
    then have "w \<in> set (split_whitespace cs)" using 2(3) by (simp only: split_whitespace.simps if_True)
    then show ?thesis by (rule 2(1) [OF True])
  qed
qed simp

lemma wrap_round_trip:
  "concat (map split_whitespace (wrap_lines avail [] (split_whitespace txt))) = split_whitespace txt"
  using wrap_lines_words [of "split_whitespace txt" avail "[]"] split_whitespace_words by auto

subsection \<open>Boards and handlers\<close>

text \<open>
  The registry keeps the receivers of telemetry: each has its last value and knows whether its sender
  still lives.
\<close>

record board_registration =
  br_alive :: bool
  br_telemetry :: BoardTelemetry

type_synonym board_registry = "board_registration list"

definition registry_push :: "board_registration \<Rightarrow> board_registry \<Rightarrow> board_registry" where
  "registry_push reg boards = boards @ [reg]"

definition registry_boards :: "board_registry \<Rightarrow> BoardTelemetry list \<times> board_registry" where
  "registry_boards boards = (let boards = filter br_alive boards in (map br_telemetry boards, boards))"

datatype status_code = NOT_FOUND | INTERNAL_SERVER_ERROR

definition get_board :: "string \<Rightarrow> board_registry \<Rightarrow> (status_code + BoardTelemetry) \<times> board_registry" where
  "get_board name boards =
     (case registry_boards boards of
        (all, boards) \<Rightarrow> (ok_or NOT_FOUND (find (\<lambda>b. bt_name b = name) all), boards))"

record SourceTelemetry =
  st_name :: string
  st_url :: "string option"
  st_difficulty :: "rat option"

definition get_source :: "string \<Rightarrow> SourceTelemetry list \<Rightarrow> status_code + SourceTelemetry" where
  "get_source name sources = ok_or NOT_FOUND (find (\<lambda>s. st_name s = name) sources)"

text \<open>
  What becomes of a command: the send fails, or the reply is awaited for five seconds, in which
  nothing comes, the reply's sender is dropped, or it says whether the command succeeded.
\<close>

datatype command_reply = ReplyTimeout | ReplyDropped | ReplyFailed | ReplyOk

definition patch_miner ::
    "(SchedulerCommand \<Rightarrow> command_reply option) \<Rightarrow> bool option \<Rightarrow> 'm \<Rightarrow> (status_code + 'm) \<times> SchedulerCommand list" where
  "patch_miner channel paused miner_telemetry =
     (case paused of
        None \<Rightarrow> (Inr miner_telemetry, [])
      | Some p \<Rightarrow>
          (let cmd = (if p then PauseMining else ResumeMining)
           in case channel cmd of
                None \<Rightarrow> (Inl INTERNAL_SERVER_ERROR, [])
              | Some ReplyOk \<Rightarrow> (Inr miner_telemetry, [cmd])
              | Some _ \<Rightarrow> (Inl INTERNAL_SERVER_ERROR, [cmd])))"

text \<open>A request succeeds exactly when it asks for nothing or its one command was carried out.\<close>

lemma patch_miner_success:
  "fst (patch_miner channel paused m) = Inr r \<longleftrightarrow>
     r = m \<and> (case paused of None \<Rightarrow> True
       | Some p \<Rightarrow> channel (if p then PauseMining else ResumeMining) = Some ReplyOk)"
  by (auto simp: patch_miner_def Let_def split: option.split command_reply.split)

lemma get_board_found:
  "fst (get_board name boards) = Inr b \<longleftrightarrow>
     (\<exists>pre r post. boards = pre @ r # post \<and> br_alive r \<and> br_telemetry r = b \<and> bt_name b = name \<and>
       (\<forall>q\<in>set pre. br_alive q \<longrightarrow> bt_name (br_telemetry q) \<noteq> name))"
proof -
  have "find P (map f (filter Q xs)) = Some b \<longleftrightarrow>
      (\<exists>pre r post. xs = pre @ r # post \<and> Q r \<and> f r = b \<and> P b \<and> (\<forall>q\<in>set pre. Q q \<longrightarrow> \<not> P (f q)))"
    for P and f :: "board_registration \<Rightarrow> BoardTelemetry" and Q xs
  proof (induction xs)
    case (Cons x xs)
    show ?case
    proof (cases "Q x \<and> P (f x)")
      case True
      show ?thesis
      proof
        assume "find P (map f (filter Q (x # xs))) = Some b"
        then have "x # xs = [] @ x # xs \<and> Q x \<and> f x = b \<and> P b \<and> (\<forall>q\<in>set []. Q q \<longrightarrow> \<not> P (f q))" using True by simp
        then show "\<exists>pre r post. x # xs = pre @ r # post \<and> Q r \<and> f r = b \<and> P b \<and> (\<forall>q\<in>set pre. Q q \<longrightarrow> \<not> P (f q))" by blast
      next
        assume "\<exists>pre r post. x # xs = pre @ r # post \<and> Q r \<and> f r = b \<and> P b \<and> (\<forall>q\<in>set pre. Q q \<longrightarrow> \<not> P (f q))"
        then obtain pre r post where "x # xs = pre @ r # post" "f r = b" "\<forall>q\<in>set pre. Q q \<longrightarrow> \<not> P (f q)" by blast
        then show "find P (map f (filter Q (x # xs))) = Some b" using True by (cases pre) auto
      qed
    next
      case False
      then have "find P (map f (filter Q (x # xs))) = find P (map f (filter Q xs))" by auto
      also have "\<dots> = Some b \<longleftrightarrow> (\<exists>pre r post. xs = pre @ r # post \<and> Q r \<and> f r = b \<and> P b \<and> (\<forall>q\<in>set pre. Q q \<longrightarrow> \<not> P (f q)))"
        by (rule Cons.IH)
      also have "\<dots> \<longleftrightarrow> (\<exists>pre r post. x # xs = pre @ r # post \<and> Q r \<and> f r = b \<and> P b \<and> (\<forall>q\<in>set pre. Q q \<longrightarrow> \<not> P (f q)))"
        using False by (auto simp: Cons_eq_append_conv) (metis list.set_intros set_ConsD)+
      finally show ?thesis .
    qed
  qed simp
  then show ?thesis by (simp add: get_board_def registry_boards_def Let_def)
qed

end
