(* ===== verification/Telemetry.thy ===== *)
theory Telemetry
  imports Daemon_Api Scheduler_Props
begin

text \<open>
  The snapshots the scheduler publishes, \<open>compute_miner_telemetry\<close> and \<open>handle_api_command\<close> of
  \<open>scheduler.rs\<close>, and what the API makes of them, \<open>SharedState\<close> of \<open>api/server.rs\<close>. The watch channel is
  its last value; a send without a receiver leaves it alone. The lemmas put a request together with the
  iterations of the scheduler that see it and those between its answer and the snapshot that is returned.
\<close>

subsection \<open>Snapshots\<close>

record MinerTelemetry =
  ml_uptime_secs :: u64
  ml_hashrate :: HashRate
  ml_shares_submitted :: u64
  ml_paused :: bool
  ml_boards :: "BoardTelemetry list"
  ml_sources :: "SourceTelemetry list"

definition source_telemetry :: "float_functions \<Rightarrow> SourceEntry \<Rightarrow> SourceTelemetry" where
  "source_telemetry ff e =
     \<lparr>st_name = se_name e, st_url = se_url e,
      st_difficulty = map_option (\<lambda>j.
        let d = Difficulty_as_f64 ff (Difficulty (jt_share_target j))
        in if 10 \<le> d then of_int (Floats.round_away d) else d) (se_last_job e)\<rparr>"

definition compute_miner_telemetry ::
    "float_functions \<Rightarrow> u64 \<Rightarrow> (ThreadId \<Rightarrow> instant) \<Rightarrow> scheduler \<Rightarrow> MinerTelemetry \<times> scheduler" where
  "compute_miner_telemetry ff uptime clock s =
     (let (hashrate, s) = measured_hashrate clock s
      in (\<lparr>ml_uptime_secs = uptime, ml_hashrate = hashrate, ml_shares_submitted = sc_shares_submitted s,
           ml_paused = sc_paused s, ml_boards = [], ml_sources = map (source_telemetry ff \<circ> snd) (sc_sources s)\<rparr>, s))"

subsection \<open>Publishing\<close>

text \<open>The scheduler with its watch channel. The uptime in seconds is a function of the clock; \<open>tw_alive\<close> is whether a receiver exists.\<close>

record published =
  pb_scheduler :: scheduler
  pb_telemetry :: MinerTelemetry

record telemetry_world =
  tw_floats :: float_functions
  tw_uptime :: "instant \<Rightarrow> u64"
  tw_alive :: bool

definition publish :: "telemetry_world \<Rightarrow> sched_world \<Rightarrow> published \<Rightarrow> published" where
  "publish tw w p =
     (let (m, s) = compute_miner_telemetry (tw_floats tw) (tw_uptime tw (sw_now w)) (sw_clock w) (pb_scheduler p)
      in \<lparr>pb_scheduler = s, pb_telemetry = if tw_alive tw then m else pb_telemetry p\<rparr>)"

text \<open>The snapshot is published before the reply, which is always that the command succeeded.\<close>

definition handle_api_command ::
    "telemetry_world \<Rightarrow> sched_world \<Rightarrow> SchedulerCommand \<Rightarrow> published \<Rightarrow> command_reply \<times> published" where
  "handle_api_command tw w cmd p =
     (let p = p\<lparr>pb_scheduler := (pb_scheduler p)\<lparr>sc_paused := (case cmd of PauseMining \<Rightarrow> True | ResumeMining \<Rightarrow> False)\<rparr>\<rparr>;
          p = publish tw w p
      in (ReplyOk, p))"

text \<open>One iteration of the scheduler's loop, with what it publishes.\<close>

definition published_iteration ::
    "externals \<Rightarrow> telemetry_world \<Rightarrow> sched_world \<Rightarrow> ended_streams \<Rightarrow> sched_msg \<Rightarrow> published \<Rightarrow> published option" where
  "published_iteration ext tw w es msg p =
     (let p = p\<lparr>pb_scheduler := drop_ended es (pb_scheduler p)\<rparr>;
          handled =
            (case msg of
               MsgApiCommand cmd \<Rightarrow> Some (snd (handle_api_command tw w cmd p))
             | MsgTelemetryTick \<Rightarrow> Some (publish tw w p)
             | _ \<Rightarrow> map_option (\<lambda>s. p\<lparr>pb_scheduler := s\<rparr>) (handle_msg ext w msg (pb_scheduler p)))
      in map_option (\<lambda>p. p\<lparr>pb_scheduler := handle_thread_disconnections (pb_scheduler p)\<rparr>) handled)"

fun published_run ::
    "externals \<Rightarrow> telemetry_world \<Rightarrow> (sched_world \<times> ended_streams \<times> sched_msg) list \<Rightarrow> published \<Rightarrow> published option" where
  "published_run ext tw [] p = Some p"
| "published_run ext tw ((w, es, msg) # steps) p =
     Option.bind (published_iteration ext tw w es msg p) (published_run ext tw steps)"

text \<open>\<open>SharedState::miner_telemetry\<close>: the last snapshot with the boards of the registry.\<close>

definition shared_telemetry :: "board_registry \<Rightarrow> MinerTelemetry \<Rightarrow> MinerTelemetry" where
  "shared_telemetry boards telemetry = telemetry\<lparr>ml_boards := fst (registry_boards boards)\<rparr>"

subsection \<open>The scheduler is the one of the other theories\<close>

lemma publish_scheduler [simp]: "pb_scheduler (publish tw w p) = snd (measured_hashrate (sw_clock w) (pb_scheduler p))"
  by (simp add: publish_def compute_miner_telemetry_def Let_def split: prod.split)

lemma published_refines:
  "map_option pb_scheduler (published_iteration ext tw w es msg p) = sched_iteration ext w es msg (pb_scheduler p)"
proof (cases msg)
  case (MsgApiCommand cmd)
  then show ?thesis
    by (cases cmd) (simp_all add: published_iteration_def handle_api_command_def sched_iteration_def handle_msg_def Let_def)
qed (simp_all add: published_iteration_def sched_iteration_def handle_msg_def Let_def option.map_comp comp_def
    split: SourceEvent.split)

subsection \<open>The paused flag\<close>

definition set_paused :: "bool \<Rightarrow> scheduler \<Rightarrow> scheduler" where
  "set_paused b s = s\<lparr>sc_paused := b\<rparr>"

named_theorems paused

lemma set_paused_fields [simp]:
  "sc_sources (set_paused b s) = sc_sources s" "sc_threads (set_paused b s) = sc_threads s"
  "sc_tasks (set_paused b s) = sc_tasks s" "sc_shares_submitted (set_paused b s) = sc_shares_submitted s"
  "sc_last_thread_count (set_paused b s) = sc_last_thread_count s" "sc_startup_gate (set_paused b s) = sc_startup_gate s"
  "sc_paused (set_paused b s) = b" "sc_source_events (set_paused b s) = sc_source_events s"
  "sc_thread_events (set_paused b s) = sc_thread_events s" "sc_share_channels (set_paused b s) = sc_share_channels s"
  "sc_first_status_tick (set_paused b s) = sc_first_status_tick s" "sc_outputs (set_paused b s) = sc_outputs s"
  by (simp_all add: set_paused_def)

lemma set_paused_updates [paused]:
  "(set_paused b s)\<lparr>sc_sources := so\<rparr> = set_paused b (s\<lparr>sc_sources := so\<rparr>)"
  "(set_paused b s)\<lparr>sc_threads := th\<rparr> = set_paused b (s\<lparr>sc_threads := th\<rparr>)"
  "(set_paused b s)\<lparr>sc_tasks := ta\<rparr> = set_paused b (s\<lparr>sc_tasks := ta\<rparr>)"
  "(set_paused b s)\<lparr>sc_shares_submitted := n\<rparr> = set_paused b (s\<lparr>sc_shares_submitted := n\<rparr>)"
  "(set_paused b s)\<lparr>sc_last_thread_count := c\<rparr> = set_paused b (s\<lparr>sc_last_thread_count := c\<rparr>)"
  "(set_paused b s)\<lparr>sc_startup_gate := g\<rparr> = set_paused b (s\<lparr>sc_startup_gate := g\<rparr>)"
  "(set_paused b s)\<lparr>sc_source_events := se\<rparr> = set_paused b (s\<lparr>sc_source_events := se\<rparr>)"
  "(set_paused b s)\<lparr>sc_thread_events := te\<rparr> = set_paused b (s\<lparr>sc_thread_events := te\<rparr>)"
  "(set_paused b s)\<lparr>sc_share_channels := ch\<rparr> = set_paused b (s\<lparr>sc_share_channels := ch\<rparr>)"
  "(set_paused b s)\<lparr>sc_gate_deadline := d\<rparr> = set_paused b (s\<lparr>sc_gate_deadline := d\<rparr>)"
  "(set_paused b s)\<lparr>sc_first_status_tick := f\<rparr> = set_paused b (s\<lparr>sc_first_status_tick := f\<rparr>)"
  "(set_paused b s)\<lparr>sc_outputs := ou\<rparr> = set_paused b (s\<lparr>sc_outputs := ou\<rparr>)"
  by (simp_all add: set_paused_def)

lemma paused_emit [paused]: "emit outs (set_paused b s) = set_paused b (emit outs s)"
  by (simp add: emit_def paused)

lemma paused_broadcast [paused]: "broadcast_hashrate_change (set_paused b s) = set_paused b (broadcast_hashrate_change s)"
  by (simp add: broadcast_hashrate_change_def send_hashrate_updates_def collect_hashrate_updates_def
      allocated_hashrate_def expected_hashrate_def paused Let_def)

lemma paused_remove [paused]: "remove_tasks_where P (set_paused b s) = set_paused b (remove_tasks_where P s)"
proof -
  have "fold (\<lambda>i s. s\<lparr>sc_tasks := slot_remove i (sc_tasks s), sc_share_channels := slot_remove i (sc_share_channels s)\<rparr>) is (set_paused b s) =
      set_paused b (fold (\<lambda>i s. s\<lparr>sc_tasks := slot_remove i (sc_tasks s), sc_share_channels := slot_remove i (sc_share_channels s)\<rparr>) is s)" for "is"
    by (induction "is" arbitrary: s) (simp_all add: paused)
  then show ?thesis by (simp add: remove_tasks_where_def)
qed

lemma paused_hand [paused]:
  "hand_task w i req src t th (set_paused b s) = set_paused b (hand_task w i req src t th s)"
  by (simp add: hand_task_def Let_def paused)

lemma paused_slices [paused]:
  "assign_slices ext w mode src t i xs (set_paused b s) = map_option (set_paused b) (assign_slices ext w mode src t i xs s)"
  by (induction ext w mode src t i xs s rule: assign_slices.induct)
    (auto simp: paused Let_def split: option.split prod.split)

lemma paused_warning [paused]:
  "difficulty_warning ext now src t (set_paused b s) = map_option (set_paused b) (difficulty_warning ext now src t s)"
  by (auto simp: difficulty_warning_def expected_hashrate_def paused Let_def split: option.split)

lemma paused_assign [paused]:
  "assign_job_to_threads ext w mode src t (set_paused b s) = map_option (set_paused b) (assign_job_to_threads ext w mode src t s)"
  by (auto simp: assign_job_to_threads_def paused Let_def eligible_thread_ids_def split: option.split MerkleRootKind.split)

lemma paused_cached [paused]:
  "assign_cached ext w th h i xs (set_paused b s) = map_option (set_paused b) (assign_cached ext w th h i xs s)"
  by (induction ext w th h i xs s rule: assign_cached.induct)
    (auto simp: paused split: option.split MerkleRootKind.split)

lemma paused_event [paused]:
  "handle_thread_event ext w th e (set_paused b s) = map_option (set_paused b) (handle_thread_event ext w th e s)"
  by (auto simp: handle_thread_event_def assign_cached_jobs_to_thread_def paused Let_def
      split: HashThreadEvent.split option.split prod.split)

lemma paused_disconnections [paused]:
  "handle_thread_disconnections (set_paused b s) = set_paused b (handle_thread_disconnections s)"
  by (simp add: handle_thread_disconnections_def paused Let_def)

definition is_api_command :: "sched_msg \<Rightarrow> bool" where
  "is_api_command msg = (case msg of MsgApiCommand _ \<Rightarrow> True | _ \<Rightarrow> False)"

lemma paused_handle_msg:
  assumes "\<not> is_api_command msg"
  shows "handle_msg ext w msg (set_paused b s) = map_option (set_paused b) (handle_msg ext w msg s)"
  using assms
  by (cases msg)
    (auto simp: handle_msg_def is_api_command_def paused Let_def handle_source_registration_def handle_clear_jobs_def
      handle_share_def handle_new_thread_def handle_enumeration_complete_def handle_gate_timeout_def measured_hashrate_def
      split: SourceEvent.split option.split)

text \<open>The flag changes nothing but itself: a paused scheduler hands out the same work.\<close>

theorem pause_does_not_pause:
  assumes "\<not> is_api_command msg"
  shows "sched_iteration ext w es msg (set_paused b s) = map_option (set_paused b) (sched_iteration ext w es msg s)"
proof -
  have "drop_ended es (set_paused b s) = set_paused b (drop_ended es s)" by (simp add: drop_ended_def paused)
  then show ?thesis
    by (simp add: sched_iteration_def paused_handle_msg [OF assms] paused option.map_comp comp_def)
qed

lemma sched_iteration_keeps_paused:
  assumes "\<not> is_api_command msg" "sched_iteration ext w es msg s = Some t"
  shows "sc_paused t = sc_paused s"
proof -
  have "set_paused (sc_paused s) s = s" by (simp add: set_paused_def)
  then have "t = set_paused (sc_paused s) t"
    using pause_does_not_pause [OF assms(1), of ext w es "sc_paused s" s] assms(2) by simp
  then show ?thesis by (metis set_paused_fields(7))
qed

lemma sched_iteration_pauses:
  assumes "sched_iteration ext w es (MsgApiCommand cmd) s = Some t"
  shows "sc_paused t = (cmd = PauseMining)"
proof -
  have kept: "sc_paused (handle_thread_disconnections u) = sc_paused u" for u
    using paused_disconnections [of "sc_paused u" u] set_paused_fields(7) [of "sc_paused u" "handle_thread_disconnections u"]
    by (simp add: set_paused_def)
  show ?thesis using assms by (auto simp: sched_iteration_def handle_msg_def measured_hashrate_def kept)
qed

text \<open>While someone receives, a published snapshot shows the flag it was made with, and later ones agree with it.\<close>

definition in_step :: "published \<Rightarrow> bool" where
  "in_step p \<longleftrightarrow> ml_paused (pb_telemetry p) = sc_paused (pb_scheduler p)"

lemma publish_in_step: "tw_alive tw \<Longrightarrow> ml_paused (pb_telemetry (publish tw w p)) = sc_paused (pb_scheduler p)"
  by (simp add: publish_def compute_miner_telemetry_def measured_hashrate_def)

lemma published_iteration_in_step:
  assumes "published_iteration ext tw w es msg p = Some q" "tw_alive tw" "in_step p \<or> is_api_command msg"
  shows "in_step q"
proof -
  have s: "sched_iteration ext w es msg (pb_scheduler p) = Some (pb_scheduler q)"
    using published_refines [of ext tw w es msg p] assms(1) by simp
  show ?thesis
  proof (cases "is_api_command msg")
    case True
    then obtain cmd where msg: "msg = MsgApiCommand cmd" by (cases msg) (auto simp: is_api_command_def)
    have "ml_paused (pb_telemetry q) = (cmd = PauseMining)"
      using assms(1,2) by (cases cmd) (auto simp: msg published_iteration_def handle_api_command_def publish_in_step)
    then show ?thesis using sched_iteration_pauses s unfolding msg in_step_def by blast
  next
    case False
    then have kept: "sc_paused (pb_scheduler q) = sc_paused (pb_scheduler p)"
      using sched_iteration_keeps_paused s by blast
    have "ml_paused (pb_telemetry q) = ml_paused (pb_telemetry p) \<or> ml_paused (pb_telemetry q) = sc_paused (pb_scheduler p)"
      using assms(1,2) False
      by (cases msg) (auto simp: published_iteration_def publish_in_step is_api_command_def drop_ended_def)
    then show ?thesis using kept assms(3) False by (auto simp: in_step_def)
  qed
qed

lemma published_run_keeps:
  assumes "published_run ext tw steps p = Some q" "tw_alive tw" "in_step p" "\<forall>(w, es, msg)\<in>set steps. \<not> is_api_command msg"
  shows "in_step q \<and> sc_paused (pb_scheduler q) = sc_paused (pb_scheduler p)"
  using assms
proof (induction steps arbitrary: p)
  case (Cons step steps)
  obtain w es msg where step: "step = (w, es, msg)" by (cases step)
  obtain r where r: "published_iteration ext tw w es msg p = Some r" "published_run ext tw steps r = Some q"
    using Cons.prems(1) by (auto simp: step split: bind_splits)
  have msg: "\<not> is_api_command msg" using Cons.prems(4) by (simp add: step)
  have "sched_iteration ext w es msg (pb_scheduler p) = Some (pb_scheduler r)"
    using published_refines [of ext tw w es msg p] r(1) by simp
  then have "sc_paused (pb_scheduler r) = sc_paused (pb_scheduler p)" by (rule sched_iteration_keeps_paused [OF msg])
  moreover have "in_step r" using published_iteration_in_step [OF r(1) Cons.prems(2)] Cons.prems(3) by blast
  moreover have "\<forall>(w, es, msg)\<in>set steps. \<not> is_api_command msg" using Cons.prems(4) by simp
  ultimately show ?case using Cons.IH [OF r(2) Cons.prems(2)] by simp
qed simp

text \<open>A request that is answered shows its own effect, unless another command was handled before the snapshot was taken.\<close>

lemma patch_shows_effect:
  assumes "published_run ext tw ((w, es, MsgApiCommand cmd) # later) p = Some q" "tw_alive tw"
    and "\<forall>(w, es, msg)\<in>set later. \<not> is_api_command msg"
    and "cmd = (if paused then PauseMining else ResumeMining)"
    and "fst (patch_miner channel (Some paused) (shared_telemetry boards (pb_telemetry q))) = Inr m"
  shows "ml_paused m = paused \<and> sc_paused (pb_scheduler q) = paused"
proof -
  obtain r where r: "published_iteration ext tw w es (MsgApiCommand cmd) p = Some r" "published_run ext tw later r = Some q"
    using assms(1) by (auto split: bind_splits)
  have "in_step r" using published_iteration_in_step [OF r(1) assms(2)] by (simp add: is_api_command_def)
  moreover have "sched_iteration ext w es (MsgApiCommand cmd) (pb_scheduler p) = Some (pb_scheduler r)"
    using published_refines [of ext tw w es "MsgApiCommand cmd" p] r(1) by simp
  from sched_iteration_pauses [OF this] have "sc_paused (pb_scheduler r) = paused" using assms(4) by simp
  ultimately have "in_step q \<and> sc_paused (pb_scheduler q) = paused"
    using published_run_keeps [OF r(2) assms(2) _ assms(3)] by simp
  moreover have "m = shared_telemetry boards (pb_telemetry q)" using assms(5) unfolding patch_miner_success by simp
  ultimately show ?thesis by (simp add: in_step_def shared_telemetry_def)
qed

end
