(* ===== verification/Extranonce_Text.thy ===== *)
theory Extranonce_Text
  imports Jobs
begin

text \<open>
  The texts of extranonces and their ranges, the \<open>Display\<close> instances of \<open>job_source/extranonce.rs\<close>. A
  long extranonce is shortened like an IPv6 address: its longest run of zero bytes, the leftmost on a
  tie, becomes two colons. The lemmas show that the loop finds that run and that a text still
  determines what it was made of.
\<close>

subsection \<open>Texts\<close>

definition write_bytes :: "bytes \<Rightarrow> string" where
  "write_bytes bytes = concat (map format_02x bytes)"

text \<open>The inner and the outer loop of the search; a range is its start and its end.\<close>

function skip_zeros :: "bytes \<Rightarrow> nat \<Rightarrow> nat" where
  "skip_zeros bytes i = (if i < length bytes \<and> bytes ! i = 0 then skip_zeros bytes (i + 1) else i)"
  by auto
termination by (relation "measure (\<lambda>(bytes, i). length bytes - i)") auto

declare skip_zeros.simps [simp del]

lemma skip_zeros_ge: "i \<le> skip_zeros bytes i"
proof (induction bytes i rule: skip_zeros.induct)
  case (1 bytes i)
  then show ?case by (subst skip_zeros.simps) (auto dest: Suc_leD)
qed

function best_run :: "bytes \<Rightarrow> nat \<Rightarrow> nat \<times> nat \<Rightarrow> nat \<times> nat" where
  "best_run bytes i best =
     (if i < length bytes then
        (let start = i; i = skip_zeros bytes start;
             best = (if snd best - fst best < i - start then (start, i) else best)
         in best_run bytes (i + 1) best)
      else best)"
  by auto
termination
proof (relation "measure (\<lambda>(bytes, i, best). length bytes - i)")
  fix bytes :: bytes and i start j :: nat and best x :: "nat \<times> nat"
  assume "i < length bytes" "start = i" "j = skip_zeros bytes start"
  then show "((bytes, j + 1, x), (bytes, i, best)) \<in> measure (\<lambda>(bytes, i, best). length bytes - i)"
    using skip_zeros_ge [of i bytes] by auto
qed simp

declare best_run.simps [simp del]

definition write_compressed :: "bytes \<Rightarrow> string" where
  "write_compressed bytes =
     (let (start, stop) = best_run bytes 0 (0, 0)
      in if stop - start < 2 then write_bytes bytes
         else write_bytes (take start bytes) @ ''::'' @ write_bytes (drop stop bytes))"

definition Extranonce_display :: "Extranonce \<Rightarrow> string" where
  "Extranonce_display e =
     (if unat (en_width e) \<le> COUNTER_WIDTH then write_bytes (Extranonce_bytes e)
      else write_compressed (Extranonce_bytes e) @ ''/'' @ decimal (unat (en_width e)))"

definition Extranonce_debug :: "Extranonce \<Rightarrow> string" where
  "Extranonce_debug e = ''Extranonce('' @ Extranonce_display e @ '')''"

fun trailing_zeros :: "nat \<Rightarrow> nat" where
  "trailing_zeros n = (if n = 0 then 128 else if even n then trailing_zeros (n div 2) + 1 else 0)"

declare trailing_zeros.simps [simp del]

definition is_power_of_two :: "nat \<Rightarrow> bool" where
  "is_power_of_two n \<longleftrightarrow> n = 2 ^ trailing_zeros n"

definition write_count :: "nat \<Rightarrow> string" where
  "write_count n = (if is_power_of_two n \<and> 1024 \<le> n then ''2^'' @ decimal (trailing_zeros n) else decimal n)"

definition ExtranonceRange_display :: "ExtranonceRange \<Rightarrow> string" where
  "ExtranonceRange_display r =
     ''{ start: '' @ Extranonce_display (range_start r) @ '', len: '' @ write_count (range_len r) @ '' }''"

subsection \<open>The longest run of zeros\<close>

definition zero_run :: "bytes \<Rightarrow> nat \<times> nat \<Rightarrow> bool" where
  "zero_run bytes run \<longleftrightarrow> fst run \<le> snd run \<and> snd run \<le> length bytes \<and> (\<forall>k. fst run \<le> k \<and> k < snd run \<longrightarrow> bytes ! k = 0)"

text \<open>At least as long as a run that starts before \<open>i\<close>, and not to the right of one that is as long.\<close>

definition best_before :: "bytes \<Rightarrow> nat \<Rightarrow> nat \<times> nat \<Rightarrow> bool" where
  "best_before bytes i best \<longleftrightarrow>
     zero_run bytes best \<and> snd best \<le> i \<and>
     (\<forall>a b. a < i \<and> a < b \<and> zero_run bytes (a, b) \<longrightarrow>
        b - a < snd best - fst best \<or> b - a = snd best - fst best \<and> fst best \<le> a)"

lemma skip_zeros_run:
  "i \<le> length bytes \<Longrightarrow> zero_run bytes (i, skip_zeros bytes i) \<and>
     (skip_zeros bytes i < length bytes \<longrightarrow> bytes ! skip_zeros bytes i \<noteq> 0)"
proof (induction bytes i rule: skip_zeros.induct)
  case (1 bytes i)
  show ?case
  proof (cases "i < length bytes \<and> bytes ! i = 0")
    case True
    then have s: "skip_zeros bytes i = skip_zeros bytes (i + 1)" by (subst skip_zeros.simps) simp
    have IH: "zero_run bytes (i + 1, skip_zeros bytes (i + 1)) \<and>
        (skip_zeros bytes (i + 1) < length bytes \<longrightarrow> bytes ! skip_zeros bytes (i + 1) \<noteq> 0)"
      using 1 True by simp
    have "bytes ! k = 0" if "i \<le> k" "k < skip_zeros bytes (i + 1)" for k
      using that True IH by (cases "k = i") (auto simp: zero_run_def)
    then show ?thesis using IH unfolding s by (simp add: zero_run_def)
  next
    case False
    then have "skip_zeros bytes i = i" by (subst skip_zeros.simps) auto
    then show ?thesis using 1(2) False by (auto simp: zero_run_def)
  qed
qed

lemma best_run_step:
  assumes "i < length bytes" "best_before bytes i best"
  defines "j \<equiv> skip_zeros bytes i"
  shows "best_before bytes (j + 1) (if snd best - fst best < j - i then (i, j) else best)"
proof -
  note run = skip_zeros_run [of i bytes, OF less_imp_le [OF assms(1)], folded j_def]
  note best = assms(2) [unfolded best_before_def]
  have ij: "i \<le> j" unfolding j_def by (rule skip_zeros_ge)
  have inside: "b \<le> j" if "a < b" "zero_run bytes (a, b)" "i \<le> a" "a \<le> j" for a b
  proof (rule ccontr)
    assume "\<not> b \<le> j"
    then have "bytes ! j = 0" "j < length bytes" using that by (auto simp: zero_run_def)
    then show False using run by simp
  qed
  let ?new = "if snd best - fst best < j - i then (i, j) else best"
  have "b - a < snd ?new - fst ?new \<or> b - a = snd ?new - fst ?new \<and> fst ?new \<le> a"
    if ab: "a < j + 1" "a < b" "zero_run bytes (a, b)" for a b
  proof (cases "a < i")
    case True
    then have "b - a < snd best - fst best \<or> b - a = snd best - fst best \<and> fst best \<le> a" using best ab by blast
    then show ?thesis by (cases "snd best - fst best < j - i") auto
  next
    case False
    then have "b \<le> j" "i \<le> a" using inside ab by auto
    moreover have "fst best \<le> i" using best by (simp add: zero_run_def)
    ultimately show ?thesis by (auto simp: not_less)
  qed
  moreover have "zero_run bytes ?new" "snd ?new \<le> j + 1" using run best ij by auto
  ultimately show ?thesis unfolding best_before_def by blast
qed

lemma best_run_best:
  assumes "i \<le> length bytes + 1" "best_before bytes i best"
  shows "best_before bytes (length bytes) (best_run bytes i best)"
  using assms
proof (induction bytes i best rule: best_run.induct)
  case (1 bytes i best)
  show ?case
  proof (cases "i < length bytes")
    case True
    let ?j = "skip_zeros bytes i"
    have "?j \<le> length bytes" using skip_zeros_run [of i bytes] True by (simp add: zero_run_def)
    then show ?thesis
      using 1(1) [OF True refl refl refl] best_run_step [OF True 1(3)] True
      by (subst best_run.simps) (simp add: Let_def)
  next
    case False
    have "snd best \<le> length bytes" using 1(3) by (simp add: best_before_def zero_run_def)
    then show ?thesis using 1(3) False by (subst best_run.simps) (auto simp: best_before_def)
  qed
qed

text \<open>The run the loop finds: zeros, longer than every other or as long and further left.\<close>

lemma best_run_correct: "best_before bytes (length bytes) (best_run bytes 0 (0, 0))"
  by (rule best_run_best) (simp_all add: best_before_def zero_run_def)

subsection \<open>A text determines its value\<close>

lemma hex_char_inject: "d < 16 \<Longrightarrow> e < 16 \<Longrightarrow> hex_char d = hex_char e \<Longrightarrow> d = e"
  by (metis hex_digit_char option.inject)

lemma u8_high_digit: "unat (w :: u8) div 16 < 16"
proof -
  have "unat w < 2 ^ LENGTH(8)" by (rule unsigned_less)
  then show ?thesis by simp
qed

lemma format_02x_inject: "format_02x b = format_02x c \<Longrightarrow> b = c"
proof -
  have lt: "unat w div 16 < 16" for w :: u8 by (rule u8_high_digit)
  assume "format_02x b = format_02x c"
  then have "unat b div 16 = unat c div 16" "unat b mod 16 = unat c mod 16"
    by (auto simp: format_02x_def dest: hex_char_inject [OF lt lt] hex_char_inject [rotated 2])
  then have "unat b = unat c" by (metis div_mult_mod_eq)
  then show "b = c" by (simp add: word_unat_eq_iff)
qed

lemma length_write_bytes [simp]: "length (write_bytes bs) = 2 * length bs"
  by (induction bs) (simp_all add: write_bytes_def format_02x_def)

lemma write_bytes_inject: "write_bytes bs = write_bytes cs \<Longrightarrow> bs = cs"
proof (induction bs arbitrary: cs)
  case Nil
  then have "length (write_bytes cs) = 0" by (simp add: write_bytes_def [of "[]"])
  then show ?case by simp
next
  case (Cons b bs)
  then obtain c cs' where cs: "cs = c # cs'" using length_write_bytes [of cs] length_write_bytes [of "b # bs"] by (cases cs) auto
  then have "format_02x b = format_02x c" "write_bytes bs = write_bytes cs'"
    using Cons.prems by (auto simp: write_bytes_def format_02x_def)
  then show ?case using Cons.IH cs format_02x_inject by blast
qed

lemma write_bytes_digits: "c \<in> set (write_bytes bs) \<Longrightarrow> hex_digit c \<noteq> None"
proof (induction bs)
  case (Cons b bs)
  have "unat b div 16 < 16" by (rule u8_high_digit)
  then have "hex_digit c \<noteq> None" if "c \<in> set (format_02x b)"
    using that hex_digit_char by (auto simp: format_02x_def)
  then show ?case using Cons by (auto simp: write_bytes_def)
qed (simp add: write_bytes_def)

text \<open>Reading a decimal number back.\<close>

definition decimal_value :: "string \<Rightarrow> nat" where
  "decimal_value s = foldl (\<lambda>n c. 10 * n + the (hex_digit c)) 0 s"

lemma decimal_value_decimal [simp]: "decimal_value (decimal n) = n"
proof (induction n rule: decimal.induct)
  case (1 n)
  show ?case
  proof (cases "n < 10")
    case True
    then show ?thesis by (subst decimal.simps) (simp add: decimal_value_def hex_digit_char)
  next
    case False
    then have "decimal_value (decimal n) = 10 * decimal_value (decimal (n div 10)) + n mod 10"
      by (subst decimal.simps) (simp add: decimal_value_def hex_digit_char)
    then show ?thesis using 1 False by simp
  qed
qed

lemma decimal_inject: "decimal m = decimal n \<longleftrightarrow> m = n"
  by (metis decimal_value_decimal)

lemma decimal_digits_only: "c \<in> set (decimal n) \<Longrightarrow> hex_digit c \<noteq> None"
proof (induction n rule: decimal.induct)
  case (1 n)
  then show ?case
    using hex_digit_char [of n] hex_digit_char [of "n mod 10"] by (subst (asm) (2) decimal.simps) (auto split: if_splits)
qed

lemma separators: "hex_digit CHR '':'' = None" "hex_digit CHR ''/'' = None" "hex_digit CHR ''^'' = None" "hex_digit CHR '','' = None"
  by (simp_all add: hex_digit_def)

text \<open>Two texts joined by a separator that neither contains fall apart in one way only.\<close>

lemma separated:
  assumes "xs @ c # ys = xs' @ c # ys'" "c \<notin> set xs" "c \<notin> set xs'"
  shows "xs = xs' \<and> ys = ys'"
  using assms
proof (induction xs arbitrary: xs')
  case (Cons x xs)
  then show ?case by (cases xs') auto
next
  case Nil
  then show ?case by (cases xs') auto
qed

lemma compressed_inject:
  assumes "write_compressed bs = write_compressed cs" "length bs = length cs"
  shows "bs = cs"
proof -
  have form: "(\<exists>a b. write_compressed xs = write_bytes (take a xs) @ ''::'' @ write_bytes (drop b xs) \<and> zero_run xs (a, b)) \<or>
      write_compressed xs = write_bytes xs" for xs
  proof -
    obtain a b where run: "best_run xs 0 (0, 0) = (a, b)" by fastforce
    then have "zero_run xs (a, b)" using best_run_correct [of xs] by (simp add: best_before_def)
    then show ?thesis using run by (auto simp: write_compressed_def)
  qed
  have colon: "CHR '':'' \<notin> set (write_bytes xs)" for xs using write_bytes_digits separators(1) by metis
  have rebuilt: "xs = take a xs @ replicate (length xs - length (take a xs) - length (drop b xs)) 0 @ drop b xs"
    if "zero_run xs (a, b)" for xs a b
  proof -
    have "take (b - a) (drop a xs) = replicate (b - a) 0"
      using that by (intro nth_equalityI) (auto simp: zero_run_def)
    then have "xs = take a xs @ replicate (b - a) 0 @ drop b xs"
      using that by (metis append_take_drop_id drop_drop fst_conv le_add_diff_inverse2 snd_conv zero_run_def)
    then show ?thesis using that by (simp add: zero_run_def)
  qed
  show ?thesis
  proof (cases "CHR '':'' \<in> set (write_compressed bs)")
    case True
    then obtain a b where b: "write_compressed bs = write_bytes (take a bs) @ ''::'' @ write_bytes (drop b bs)" "zero_run bs (a, b)"
      using form [of bs] colon by auto
    obtain a' b' where c: "write_compressed cs = write_bytes (take a' cs) @ ''::'' @ write_bytes (drop b' cs)" "zero_run cs (a', b')"
      using form [of cs] colon True assms(1) by auto
    have "write_bytes (take a bs) = write_bytes (take a' cs) \<and> CHR '':'' # write_bytes (drop b bs) = CHR '':'' # write_bytes (drop b' cs)"
      using assms(1) b(1) c(1) by (intro separated [OF _ colon colon]) simp
    then have "take a bs = take a' cs" "drop b bs = drop b' cs" by (simp_all add: write_bytes_inject)
    then show ?thesis using rebuilt [OF b(2)] rebuilt [OF c(2)] assms(2) by metis
  next
    case False
    then have "write_compressed xs = write_bytes xs" if "write_compressed xs = write_compressed bs" for xs
      using form [of xs] that by (metis Un_iff list.set_intros(1) set_append append_Cons)
    then have "write_compressed bs = write_bytes bs" "write_compressed cs = write_bytes cs" using assms(1) by simp_all
    then show ?thesis using assms(1) write_bytes_inject by simp
  qed
qed

theorem Extranonce_display_inject:
  assumes "wf_Extranonce e" "wf_Extranonce f" "Extranonce_display e = Extranonce_display f"
  shows "e = f"
proof -
  have slash: "CHR ''/'' \<notin> set (write_bytes xs)" for xs using write_bytes_digits separators(2) by metis
  have slash_c: "CHR ''/'' \<notin> set (write_compressed xs)" for xs
    using slash by (auto simp: write_compressed_def split: prod.splits)
  let ?long = "\<lambda>e. \<not> unat (en_width e) \<le> COUNTER_WIDTH"
  have "CHR ''/'' \<in> set (Extranonce_display x) \<longleftrightarrow> ?long x" for x
    using slash by (simp add: Extranonce_display_def)
  then have "?long e = ?long f" using assms(3) by metis
  moreover have "Extranonce_bytes e = Extranonce_bytes f" if "\<not> ?long e" "\<not> ?long f"
    using that assms(3) by (simp add: Extranonce_display_def write_bytes_inject)
  moreover have "Extranonce_bytes e = Extranonce_bytes f" if "?long e" "?long f"
  proof -
    have "write_compressed (Extranonce_bytes e) = write_compressed (Extranonce_bytes f) \<and>
        decimal (unat (en_width e)) = decimal (unat (en_width f))"
      using that assms(3) by (intro separated [OF _ slash_c slash_c]) (simp add: Extranonce_display_def)
    then show ?thesis by (intro compressed_inject) (simp_all add: decimal_inject)
  qed
  ultimately have "Extranonce_bytes e = Extranonce_bytes f" by blast
  then show ?thesis using Extranonce_bytes_inject [OF assms(1,2)] by blast
qed

lemma write_count_inject: "write_count m = write_count n \<longleftrightarrow> m = n"
proof
  assume eq: "write_count m = write_count n"
  have no: "decimal k \<noteq> ''2^'' @ xs" for k xs
    using decimal_digits_only [of "CHR ''^''" k] separators(3) by auto
  let ?short = "\<lambda>n. is_power_of_two n \<and> 1024 \<le> n"
  have "?short m = ?short n" using eq no no [THEN not_sym] unfolding write_count_def by (auto split: if_splits)
  then show "m = n"
    using eq by (auto simp: write_count_def decimal_inject is_power_of_two_def split: if_splits)
qed simp

text \<open>Ranges: the start up to the first comma, then the number of extranonces.\<close>

theorem ExtranonceRange_display_inject:
  assumes "wf_Extranonce (range_start q)" "wf_Extranonce (range_start r)"
    and "ExtranonceRange_display q = ExtranonceRange_display r"
  shows "q = r"
proof -
  have comma: "CHR '','' \<notin> set (Extranonce_display e)" for e
  proof -
    have "CHR '','' \<notin> set (write_bytes xs)" "CHR '','' \<notin> set (decimal k)" for xs k
      using write_bytes_digits decimal_digits_only separators(4) by metis+
    then show ?thesis by (auto simp: Extranonce_display_def write_compressed_def split: prod.splits)
  qed
  have eq: "Extranonce_display (range_start q) = Extranonce_display (range_start r) \<and>
      '' len: '' @ write_count (range_len q) @ '' }'' = '' len: '' @ write_count (range_len r) @ '' }''"
    using assms(3) by (intro separated [OF _ comma comma]) (simp add: ExtranonceRange_display_def)
  then have start: "range_start q = range_start r" using Extranonce_display_inject [OF assms(1,2)] by blast
  have "range_len q = range_len r" using eq by (simp add: write_count_inject)
  then have "er_last q - er_first q = er_last r - er_first r" by (simp add: range_len_def word_unat_eq_iff)
  moreover have "er_first q = er_first r" "er_width q = er_width r" using start by (simp_all add: range_start_def)
  ultimately show ?thesis by (simp add: ExtranonceRange.equality)
qed

end
