(* ===== verification/Approximations.thy ===== *)
theory Approximations
  imports Registers Rates
begin

text \<open>
  Values the code rounds on purpose: the baud rate divider of \<open>asic/bm13xx/register.rs\<close> for a wanted
  rate, its ticket difficulty as a power of two, and \<open>to_f64_approx\<close> of \<open>u256.rs\<close>. The lemmas say how
  far the result is from what was asked for.
\<close>

subsection \<open>Definitions\<close>

text \<open>\<open>round() as u8\<close> saturates; the quotient by a target of zero is infinite.\<close>

definition UartBaud_for_baud :: "u32 \<Rightarrow> UartBaudReg" where
  "UartBaud_for_baud target =
     (let steps = (if target = 0 then 255
                   else min 255 (Floats.round_away (f32 (25 * 1000000 / f32 (8 * f32 (of_nat (unat target)))))))
      in \<lparr>ub_divider = of_int (max 0 (steps - 1)), ub_bit28 = False, ub_unexplained = 0x01300000\<rparr>)"

text \<open>The platform's \<open>log2\<close> is an argument.\<close>

definition Log2Difficulty_from_f64 :: "(rat \<Rightarrow> rat) \<Rightarrow> rat \<Rightarrow> u8" where
  "Log2Difficulty_from_f64 log2 d = (if 1 \<le> d then of_int (max 0 (min 255 \<lfloor>log2 d\<rfloor>)) else 0)"

definition Log2Difficulty_from_difficulty :: "float_functions \<Rightarrow> (rat \<Rightarrow> rat) \<Rightarrow> Difficulty \<Rightarrow> u8" where
  "Log2Difficulty_from_difficulty ff log2 difficulty = Log2Difficulty_from_f64 log2 (Difficulty_as_f64 ff difficulty)"

definition U256_to_le_bytes :: "u256 \<Rightarrow> bytes" where
  "U256_to_le_bytes w = map (\<lambda>i. ucast (drop_bit (8 * i) w)) [0..<32]"

definition bytes_value :: "bytes \<Rightarrow> nat" where
  "bytes_value bs = foldr (\<lambda>b n. unat b + 256 * n) bs 0"

text \<open>The search from the top for a byte that is not zero.\<close>

fun highest_byte :: "bytes \<Rightarrow> nat \<Rightarrow> nat" where
  "highest_byte bytes 0 = 0"
| "highest_byte bytes (Suc i) = (if bytes ! i \<noteq> 0 then i else highest_byte bytes i)"

definition U256_to_f64_approx :: "u256 \<Rightarrow> rat" where
  "U256_to_f64_approx w =
     (let bytes = U256_to_le_bytes w; highest = highest_byte bytes (length bytes)
      in if highest < 8 then f64 (of_nat (unat (saturating_to_u64 w)))
         else (let start = highest - 7;
                   mantissa = f64 (of_nat (bytes_value (take 8 (drop start bytes))))
               in f64 (mantissa * 2 ^ (start * 8))))"

subsection \<open>Relative error of rounding\<close>

lemma round_half_even_error: "\<bar>of_int (round_half_even x) - x\<bar> \<le> 1 / 2"
proof -
  have "of_int \<lfloor>x\<rfloor> \<le> x" "x < of_int \<lfloor>x\<rfloor> + 1" by linarith+
  then show ?thesis by (auto simp: round_half_even_def Let_def)
qed

lemma fl_error:
  assumes "0 < x" "0 < p"
  shows "\<bar>fl p x - x\<bar> \<le> x / 2 ^ p"
proof -
  define e where "e = rat_log2 x - int p + 1"
  have pos: "0 < (2::rat) powi e" by (rule powi_pos)
  have "fl p x = of_int (round_half_even (x / 2 powi e)) * 2 powi e"
    using assms(1) by (simp add: fl_pos_eq round_pos_def Let_def e_def)
  then have "fl p x - x = (of_int (round_half_even (x / 2 powi e)) - x / 2 powi e) * 2 powi e"
    using pos by (simp add: algebra_simps)
  then have "\<bar>fl p x - x\<bar> \<le> 1 / 2 * 2 powi e"
    using round_half_even_error [of "x / 2 powi e"] pos by (simp add: abs_mult mult_right_mono)
  then have "\<bar>fl p x - x\<bar> * 2 ^ p \<le> 1 / 2 * 2 powi e * 2 ^ p" by (intro mult_right_mono) simp_all
  also have "\<dots> = 2 ^ (p - 1) * 2 powi e" using assms(2) by (cases p) auto
  also have "\<dots> \<le> x" using scaled_bounds(1) [OF assms] pos by (simp add: e_def [symmetric] pos_le_divide_eq)
  finally show ?thesis by (simp add: pos_le_divide_eq)
qed

subsection \<open>256-bit integers as floats\<close>

lemma bytes_value_append: "bytes_value (bs @ cs) = bytes_value bs + 256 ^ length bs * bytes_value cs"
  by (induction bs) (simp_all add: bytes_value_def algebra_simps)

lemma bytes_value_zero: "\<forall>b\<in>set bs. b = 0 \<Longrightarrow> bytes_value bs = 0"
  by (induction bs) (simp_all add: bytes_value_def)

lemma bytes_value_less: "bytes_value bs < 256 ^ length bs"
proof (induction bs)
  case (Cons b bs)
  have "unat b < 2 ^ LENGTH(8)" by (rule unsigned_less)
  then show ?case using Cons by (simp add: bytes_value_def)
qed (simp add: bytes_value_def)

lemma le_bytes_value: "bytes_value (map (\<lambda>i. ucast (drop_bit (8 * i) w)) [k..<k + n]) = unat (drop_bit (8 * k) (w :: u256)) mod 256 ^ n"
proof (induction n arbitrary: k)
  case (Suc n)
  have "unat (ucast (drop_bit (8 * k) w) :: u8) = unat (drop_bit (8 * k) w) mod 256"
    by (simp add: unsigned_ucast_eq take_bit_eq_mod)
  moreover have "unat (drop_bit (8 * Suc k) w) = unat (drop_bit (8 * k) w) div 256"
    by (simp only: unat_drop_bit_eq) (simp add: drop_bit_eq_div power_add div_mult2_eq mult.commute [of 256])
  moreover have "[k..<k + Suc n] = k # [Suc k..<Suc k + n]" by (simp add: upt_conv_Cons)
  ultimately show ?case
    using Suc [of "Suc k"] by (simp add: bytes_value_def mod_mult2_eq)
qed (simp add: bytes_value_def)

lemma highest_byte_correct:
  "let h = highest_byte bytes n
   in (\<forall>i. h < i \<and> i < n \<longrightarrow> bytes ! i = 0) \<and> (h = 0 \<or> h < n \<and> bytes ! h \<noteq> 0)"
  by (induction n) (auto simp: Let_def less_Suc_eq)

lemma U256_bytes:
  "length (U256_to_le_bytes w) = 32"
  "take n (drop k (U256_to_le_bytes w)) = map (\<lambda>i. ucast (drop_bit (8 * i) w)) [k..<min 32 (k + n)]"
  by (simp_all add: U256_to_le_bytes_def take_map drop_map min_def)

lemma U256_value: "bytes_value (U256_to_le_bytes w) = unat w"
proof -
  have "bytes_value (U256_to_le_bytes w) = unat w mod 256 ^ 32"
    using le_bytes_value [of w 0 32] by (simp add: U256_to_le_bytes_def)
  moreover have "unat w < 2 ^ LENGTH(256)" by (rule unsigned_less)
  ultimately show ?thesis by simp
qed

text \<open>The eight bytes from the highest one down hold the number but for less than one unit of them.\<close>

lemma top_bytes:
  fixes w :: u256
  defines "h \<equiv> highest_byte (U256_to_le_bytes w) 32"
  assumes "8 \<le> h"
  defines "m \<equiv> bytes_value (take 8 (drop (h - 7) (U256_to_le_bytes w)))"
  shows "m * 256 ^ (h - 7) \<le> unat w" "unat w < (m + 1) * 256 ^ (h - 7)" "2 ^ 56 \<le> m"
proof -
  let ?bs = "U256_to_le_bytes w" and ?k = "h - 7"
  have h: "h < 32" "?bs ! h \<noteq> 0" "\<And>i. h < i \<Longrightarrow> i < 32 \<Longrightarrow> ?bs ! i = 0"
    using highest_byte_correct [of ?bs 32] assms(2) by (auto simp: h_def Let_def)
  define lo mid hi where "lo = take ?k ?bs" and "mid = take 8 (drop ?k ?bs)" and "hi = drop (h + 1) ?bs"
  have bs: "?bs = lo @ mid @ hi"
  proof -
    have "drop 8 (drop ?k ?bs) = hi" using assms(2) by (simp add: hi_def)
    then show ?thesis unfolding lo_def mid_def by (metis append_take_drop_id)
  qed
  have len: "length lo = ?k" "length mid = 8" using h(1) assms(2) by (auto simp: lo_def mid_def U256_bytes(1))
  have "bytes_value hi = 0"
    using h(3) by (intro bytes_value_zero) (auto simp: hi_def in_set_conv_nth U256_bytes(1))
  then have w: "unat w = bytes_value lo + 256 ^ ?k * m"
    using U256_value [of w] by (simp add: bs bytes_value_append len m_def mid_def [symmetric])
  moreover have "bytes_value lo < 256 ^ ?k" using bytes_value_less [of lo] len by simp
  ultimately show "m * 256 ^ ?k \<le> unat w" "unat w < (m + 1) * 256 ^ ?k" by (simp_all add: algebra_simps)
  have last: "mid ! 7 \<noteq> 0" using h(1,2) assms(2) by (simp add: mid_def U256_bytes(1))
  have "mid = take 7 mid @ [mid ! 7]" using len(2) take_Suc_conv_app_nth [of 7 mid] by simp
  then have "m = bytes_value (take 7 mid) + 256 ^ 7 * unat (mid ! 7)"
    using bytes_value_append [of "take 7 mid" "[mid ! 7]"] len(2) by (simp add: m_def mid_def [symmetric] bytes_value_def [of "[_]"])
  moreover have "1 \<le> unat (mid ! 7)" using last by (simp add: unat_gt_0 Suc_le_eq)
  ultimately show "2 ^ 56 \<le> m" by simp
qed

lemma f64_times_power:
  shows "f64 (f64 x * 2 ^ n) = f64 x * 2 ^ n"
  using fl_scale(1) [of 53 "f64 x" "int n"] by (simp only: fl_idem power_int_of_nat)

lemma scaled_error:
  fixes f m s w :: rat
  assumes "\<bar>f - m\<bar> \<le> m / 2 ^ 53" "2 ^ 56 \<le> m" "m * s \<le> w" "w < (m + 1) * s" "0 < s"
  shows "\<bar>f * s - w\<bar> \<le> w / 2 ^ 52"
proof -
  have "\<bar>f - m\<bar> * s \<le> m / 2 ^ 53 * s" using assms(1,5) by (intro mult_right_mono) simp_all
  also have "\<dots> = m * s / 2 ^ 53" by simp
  also have "\<dots> \<le> w / 2 ^ 53" using assms(3) by (intro divide_right_mono) simp_all
  finally have "\<bar>(f - m) * s\<bar> \<le> w / 2 ^ 53" using assms(5) by (simp only: abs_mult abs_of_pos)
  then have "\<bar>f * s - m * s\<bar> \<le> w / 2 ^ 53" by (simp only: left_diff_distrib)
  moreover have "2 ^ 56 * s \<le> m * s" using assms(2,5) by (intro mult_right_mono) simp_all
  then have "2 ^ 56 * s \<le> w" using assms(3) by (rule order.trans)
  then have "s \<le> w / 2 ^ 56" by (simp add: pos_le_divide_eq mult.commute)
  moreover have "w < m * s + s" using assms(4) by (simp add: distrib_right)
  ultimately have "\<bar>f * s - w\<bar> \<le> w / 2 ^ 53 + w / 2 ^ 56" using assms(3) by linarith
  also have "\<dots> \<le> w / 2 ^ 52"
  proof -
    have "0 \<le> m" using assms(2) by (rule order.trans [rotated]) simp
    then have "0 \<le> m * s" using assms(5) by simp
    then have "0 \<le> w" using assms(3) by (rule order.trans)
    then show ?thesis by simp
  qed
  finally show ?thesis .
qed

theorem U256_to_f64_approx_error:
  "\<bar>U256_to_f64_approx w - of_nat (unat w)\<bar> \<le> of_nat (unat w) / 2 ^ 52"
proof (cases "highest_byte (U256_to_le_bytes w) 32 < 8")
  case True
  let ?bs = "U256_to_le_bytes w"
  have "bytes_value (drop 8 ?bs) = 0"
    using highest_byte_correct [of ?bs 32] True
    by (intro bytes_value_zero) (auto simp: Let_def in_set_conv_nth U256_bytes(1))
  then have "unat w = bytes_value (take 8 ?bs)"
    using bytes_value_append [of "take 8 ?bs" "drop 8 ?bs"] U256_value [of w] by simp
  then have "unat w < 2 ^ 64" using bytes_value_less [of "take 8 ?bs"] U256_bytes(1) [of w] by simp
  then have "w \<le> 0xffffffffffffffff" "unat (ucast w :: u64) = unat w"
    by (simp_all add: word_le_nat_alt unsigned_ucast_eq take_bit_eq_mod)
  then have "U256_to_f64_approx w = f64 (of_nat (unat w))"
    using True by (simp add: U256_to_f64_approx_def Let_def U256_bytes(1) saturating_to_u64_def)
  then show ?thesis
  proof (cases "w = 0")
    case False
    then have pos: "0 < rat_of_nat (unat w)" by (simp only: of_nat_0_less_iff unat_gt_0 not_False_eq_True)
    have "\<bar>f64 (of_nat (unat w)) - of_nat (unat w)\<bar> \<le> rat_of_nat (unat w) / 2 ^ 53" using pos by (intro fl_error) simp_all
    also have "\<dots> \<le> rat_of_nat (unat w) / 2 ^ 52" using pos by (intro divide_left_mono) simp_all
    finally show ?thesis unfolding \<open>U256_to_f64_approx w = _\<close> .
  qed simp
next
  case False
  let ?h = "highest_byte (U256_to_le_bytes w) 32"
  define m where "m = bytes_value (take 8 (drop (?h - 7) (U256_to_le_bytes w)))"
  let ?s = "256 ^ (?h - 7) :: rat" and ?w = "rat_of_nat (unat w)" and ?m = "rat_of_nat m"
  note top = top_bytes [of w, folded m_def]
  have "rat_of_nat (m * 256 ^ (?h - 7)) \<le> ?w" "?w < rat_of_nat ((m + 1) * 256 ^ (?h - 7))" "rat_of_nat (2 ^ 56) \<le> ?m"
    using top False by (simp_all only: of_nat_le_iff of_nat_less_iff not_less)
  then have b: "?m * ?s \<le> ?w" "?w < (?m + 1) * ?s" "2 ^ 56 \<le> ?m" by (simp_all add: algebra_simps)
  have "(2::rat) ^ ((?h - 7) * 8) = ?s" using power_mult [of "2::rat" 8 "?h - 7"] by (simp add: mult.commute)
  then have e: "U256_to_f64_approx w = f64 ?m * ?s"
    using False f64_times_power [of ?m "(?h - 7) * 8"] by (simp only: U256_to_f64_approx_def Let_def U256_bytes(1) m_def if_False)
  have "\<bar>f64 ?m - ?m\<bar> \<le> ?m / 2 ^ 53" using b(3) by (intro fl_error) simp_all
  then show ?thesis unfolding e using b by (intro scaled_error) simp_all
qed

subsection \<open>Baud rates\<close>

lemma uint_u8: "0 \<le> z \<Longrightarrow> z < 256 \<Longrightarrow> uint (of_int z :: u8) = z"
  by (simp add: unsigned_of_int take_bit_eq_mod)

text \<open>A quotient near an integer from above rounds to it, also after rounding to a float.\<close>

lemma steps_near:
  assumes "1 \<le> k" "k \<le> 256" "of_nat k \<le> x" "x \<le> of_nat k + 7 / 16"
  shows "Floats.round_away (f32 x) = int k"
proof -
  have rep: "f32 (of_int m * 2 powi e) = of_int m * 2 powi e" if "0 < m" "m < 2 ^ 24" for m e
    using that by (intro fl_exact) simp_all
  have "f32 (of_nat k) \<le> f32 x" "f32 x \<le> f32 (of_nat k + 7 / 16)" using assms by (intro fl_mono; simp)+
  moreover have "f32 (of_nat k) = of_nat k" using rep [of "int k" 0] assms by simp
  moreover have "f32 (of_nat k + 7 / 16) = of_nat k + 7 / 16"
    using rep [of "16 * int k + 7" "- 4"] assms by (simp add: power_int_minus field_simps)
  ultimately have "of_nat k \<le> f32 x" "f32 x \<le> of_nat k + 7 / 16" by simp_all
  then show ?thesis unfolding Floats.round_away_def by (simp add: floor_eq_iff)
qed

lemma for_baud_near:
  assumes "1 \<le> k" "k \<le> 255" "0 < n" "n < 2 ^ 24" "of_nat k \<le> 3125000 / rat_of_nat n" "3125000 / rat_of_nat n \<le> of_nat k + 7 / 16"
  shows "unat (ub_divider (UartBaud_for_baud (of_nat n))) = k - 1"
proof -
  let ?t = "rat_of_nat n"
  have n: "unat (of_nat n :: u32) = n" "(of_nat n :: u32) \<noteq> 0"
    using assms(3,4) by (simp_all add: unat_of_nat word_unat_eq_iff)
  have t: "f32 ?t = ?t" using fl_of_int [of "int n" 24] assms(3,4) by simp
  have "f32 (8 * ?t) = 8 * ?t" using fl_scale(1) [OF t, of 3] by (simp add: mult.commute)
  then have "f32 (25 * 1000000 / f32 (8 * f32 ?t)) = f32 (3125000 / ?t)" using t by simp
  moreover have "Floats.round_away (f32 (3125000 / ?t)) = int k" using assms by (intro steps_near) simp_all
  ultimately have "ub_divider (UartBaud_for_baud (of_nat n)) = of_int (max 0 (min 255 (int k) - 1))"
    using n by (simp add: UartBaud_for_baud_def)
  also have "max 0 (min 255 (int k) - 1) = int (k - 1)" using assms(1,2) by simp
  finally show ?thesis using assms(2) by (simp add: unat_of_nat)
qed

text \<open>Asking for the rate of a divider gives that divider, but for the last one.\<close>

theorem for_baud_round_trip:
  assumes "ub_divider r < 255"
  shows "ub_divider (UartBaud_for_baud (of_nat (UartBaud_baud r))) = ub_divider r"
proof -
  define k b where "k = unat (ub_divider r) + 1" and "b = UartBaud_baud r"
  have k: "1 \<le> k" "k \<le> 255" using assms by (simp_all add: word_less_nat_alt k_def)
  have b: "b = 3125000 div k" using div_mult2_eq [of 25000000 8 k] by (simp add: UartBaud_baud_def b_def k_def)
  have "k * b + 3125000 mod k = 3125000" "3125000 mod k < k" using k(1) by (simp_all add: b)
  then have bk: "k * b \<le> 3125000" "3125000 < k * b + k" by linarith+
  have "12254 * k \<le> 3125000" using k by simp
  then have b_ge: "12254 \<le> b" using b k(1) by (simp add: less_eq_div_iff_mult_less_eq)
  have b_le: "b \<le> 3125000" unfolding b by (rule div_le_dividend)
  have pos: "0 < rat_of_nat b" using b_ge by simp
  have "rat_of_nat (k * b) \<le> rat_of_nat 3125000" using bk(1) by (simp only: of_nat_le_iff)
  then have low: "of_nat k \<le> 3125000 / rat_of_nat b" using pos by (simp add: pos_le_divide_eq)
  have "16 * 3125000 \<le> (16 * k + 7) * b" using bk(2) b_ge k(2) by (simp add: algebra_simps)
  then have "rat_of_nat (16 * 3125000) \<le> rat_of_nat ((16 * k + 7) * b)" by (simp only: of_nat_le_iff)
  then have high: "3125000 / rat_of_nat b \<le> of_nat k + 7 / 16" using pos by (simp add: pos_divide_le_eq algebra_simps)
  have "unat (ub_divider (UartBaud_for_baud (of_nat b))) = k - 1"
    using k low high b_ge b_le by (intro for_baud_near) simp_all
  then show ?thesis by (simp add: k_def b_def word_unat_eq_iff)
qed

text \<open>
  The divider is rounded, not the rate: for 2.2 MHz the code takes 3.125 MHz, although 1.5625 MHz is
  nearer. And the conversion to eight bits saturates before one is subtracted, so the slowest rate is
  never chosen.
\<close>

theorem for_baud_not_nearest:
  "UartBaud_baud (UartBaud_for_baud 2200000) = 3125000"
  "UartBaud_baud (r\<lparr>ub_divider := 1\<rparr>) = 1562500"
  "ub_divider (UartBaud_for_baud target) \<noteq> 255"
proof -
  have "unat (ub_divider (UartBaud_for_baud (of_nat 2200000))) = 1 - 1" by (rule for_baud_near) simp_all
  then show "UartBaud_baud (UartBaud_for_baud 2200000) = 3125000" by (simp add: UartBaud_baud_def)
  show "UartBaud_baud (r\<lparr>ub_divider := 1\<rparr>) = 1562500" by (simp add: UartBaud_baud_def)
  have "of_int (max 0 (min 255 x - 1)) \<noteq> (255 :: u8)" for x
  proof -
    define y where "y = max 0 (min 255 x - 1)"
    then have "0 \<le> y" "y < 255" by auto
    then have "uint (of_int y :: u8) = y" by (intro uint_u8) simp_all
    then show ?thesis using \<open>y < 255\<close> unfolding y_def [symmetric] by auto
  qed
  from this [of 255] this show "ub_divider (UartBaud_for_baud target) \<noteq> 255"
    by (simp add: UartBaud_for_baud_def Let_def)
qed

subsection \<open>Ticket difficulty\<close>

text \<open>With a logarithm that is monotone and exact at powers of two the exponent is never too small.\<close>

lemma Log2Difficulty_at_least:
  assumes "\<And>x y. 1 \<le> x \<Longrightarrow> x \<le> y \<Longrightarrow> log2 x \<le> log2 y" "\<And>k. log2 (2 ^ k) = of_nat k"
    and "2 ^ k \<le> d" "d \<le> 2 ^ Suc k" "k < 255"
  shows "k \<le> unat (Log2Difficulty_from_f64 log2 d) \<and> unat (Log2Difficulty_from_f64 log2 d) \<le> Suc k \<and>
    (log2 d < of_nat (Suc k) \<longrightarrow> unat (Log2Difficulty_from_f64 log2 d) = k)"
proof -
  have one: "(1::rat) \<le> 2 ^ k" by simp
  have "log2 (2 ^ k) \<le> log2 d" "log2 d \<le> log2 (2 ^ Suc k)" using assms(1) [OF one assms(3)] assms(1) [OF order.trans [OF one assms(3)] assms(4)] .
  then have l: "of_nat k \<le> log2 d" "log2 d \<le> of_nat (Suc k)" by (simp_all only: assms(2))
  then have f: "int k \<le> \<lfloor>log2 d\<rfloor>" "\<lfloor>log2 d\<rfloor> \<le> int k + 1" by (simp_all add: le_floor_iff floor_le_iff)
  have "Log2Difficulty_from_f64 log2 d = of_int \<lfloor>log2 d\<rfloor>"
  proof -
    have "max 0 (min 255 \<lfloor>log2 d\<rfloor>) = \<lfloor>log2 d\<rfloor>" using f assms(5) by linarith
    then show ?thesis using order.trans [OF one assms(3)] by (simp add: Log2Difficulty_from_f64_def)
  qed
  moreover have "uint (of_int \<lfloor>log2 d\<rfloor> :: u8) = \<lfloor>log2 d\<rfloor>" using f assms(5) by (intro uint_u8) linarith+
  then have "unat (of_int \<lfloor>log2 d\<rfloor> :: u8) = nat \<lfloor>log2 d\<rfloor>" by (simp only: nat_uint_eq [symmetric])
  moreover have "\<lfloor>log2 d\<rfloor> = int k" if "log2 d < of_nat (Suc k)" using f(1) l(1) that by (intro floor_unique) simp_all
  ultimately show ?thesis using f by auto
qed

end
