(* ===== verification/Startup.thy ===== *)
theory Startup
  imports Backplane Scheduler_Props
begin

text \<open>
  The start of the program across its parts: transports report to the backplane, the backplane's
  registrations travel to the scheduler in order, and the scheduler's gate counts them against the first
  reports of the threads. The channel delivers a prefix of what was sent; reports and the fallback's
  timeout come in between at will.
\<close>

fun gate_message :: "'t ThreadRegistration \<Rightarrow> gate_event" where
  "gate_message (RegThread t) = Registered"
| "gate_message RegEnumerationComplete = EnumerationComplete"

lemma gate_message_complete: "EnumerationComplete = gate_message r \<longleftrightarrow> r = RegEnumerationComplete"
  by (cases r) simp_all

abbreviation is_message :: "gate_event \<Rightarrow> bool" where
  "is_message e \<equiv> e = Registered \<or> e = EnumerationComplete"

definition occurrences :: "gate_event \<Rightarrow> gate_event list \<Rightarrow> nat" where
  "occurrences e es = length (filter (\<lambda>x. x = e) es)"

lemma occurrences_append [simp]: "occurrences e (xs @ ys) = occurrences e xs + occurrences e ys"
  by (simp add: occurrences_def)

lemma occurrences_messages: "is_message e \<Longrightarrow> occurrences e (filter is_message es) = occurrences e es"
  by (auto simp: occurrences_def intro!: arg_cong [where f = length] filter_cong)

lemma occurrences_threads [simp]: "occurrences Registered (map gate_message (map RegThread ts)) = length ts"
  by (induction ts) (simp_all add: occurrences_def)

lemmas occurrences_threads' [simp] = occurrences_threads [unfolded map_map]

text \<open>A gate that is open without a timeout opened at a moment when no registered thread was missing.\<close>

lemma opened_complete:
  assumes "\<not> is_holding (fold gate_step es StartupGate_new)" "Timeout \<notin> set es"
  obtains k where "k \<le> length es" "EnumerationComplete \<in> set (take k es)"
    "occurrences Registered (take k es) \<le> occurrences Reported (take k es)"
proof -
  obtain n where n: "n < length es" "gate_opens (take n es) (es ! n)"
    using assms(1) unfolding gate_run_holding gate_should_hold_def by blast
  have "es ! n \<noteq> Timeout" using assms(2) n(1) nth_mem by metis
  then show thesis
    using n that [of "Suc n"] by (simp add: gate_opens_def take_Suc_conv_app_nth occurrences_def)
qed

lemma registrations_prefix:
  assumes "xs @ ys = map gate_message (map RegThread ts @ RegEnumerationComplete # rs)" "EnumerationComplete \<in> set xs"
  shows "length ts \<le> occurrences Registered xs"
proof -
  have "\<not> length xs \<le> length ts"
  proof
    assume "length xs \<le> length ts"
    then have "xs = take (length xs) (map gate_message (map RegThread ts))"
      using arg_cong [OF assms(1), of "take (length xs)"] by simp
    then have "set xs \<subseteq> set (map gate_message (map RegThread ts))" by (metis set_take_subset)
    then show False using assms(2) by auto
  qed
  then have "take (length ts) xs = map gate_message (map RegThread ts)"
    using arg_cong [OF assms(1), of "take (length ts)"] by simp
  then have "occurrences Registered (take (length ts) xs) = length ts" by simp
  then show ?thesis using occurrences_append [of Registered "take (length ts) xs" "drop (length ts) xs"] by simp
qed

text \<open>What the backplane has sent before the last transport reports.\<close>

lemma scheduled_before:
  assumes "\<forall>e\<in>set events. fst e < n" "\<forall>k. wd_schedule_ok w k" "\<not> all_enumerated n (take k events)"
  obtains ts where "bk_scheduled (lp_backplane (backplane_run w n (take k events) backplane_new)) = map RegThread ts"
    "\<exists>us vs. bk_scheduled (lp_backplane (backplane_run w n events backplane_new)) =
       map RegThread (ts @ us) @ (if all_enumerated n events then RegEnumerationComplete # map RegThread vs else [])"
proof -
  let ?l = "backplane_run w n (take k events) backplane_new"
  have n: "n \<noteq> 0" using assms(3) by (auto simp: all_enumerated_def)
  have "\<forall>e\<in>set (take k events). fst e < n" using assms(1) set_take_subset by fast
  from backplane_loop_counts [OF this, of w backplane_new] have unsent: "\<not> lp_completion_sent ?l" using assms(3) by blast
  have start: "bk_scheduled (lp_backplane (backplane_start w n backplane_new)) = []"
    "\<not> lp_completion_sent (backplane_start w n backplane_new)"
    using n by (simp_all add: backplane_start_def backplane_new_def)
  obtain ts where ts: "bk_scheduled (lp_backplane ?l) = map RegThread ts"
    using backplane_steps_scheduled [OF assms(2), of n "take k events" "backplane_start w n backplane_new"] start unsent
    unfolding backplane_run_def by auto
  have run: "backplane_run w n events backplane_new = fold (backplane_step w n) (drop k events) ?l"
    using fold_append [of "backplane_step w n" "take k events" "drop k events"] by (simp add: backplane_run_def)
  obtain us vs where "bk_scheduled (lp_backplane (backplane_run w n events backplane_new)) =
      bk_scheduled (lp_backplane ?l) @ map RegThread us @
      (if lp_completion_sent (backplane_run w n events backplane_new) then RegEnumerationComplete # map RegThread vs else [])"
    using backplane_steps_scheduled [OF assms(2), of n "drop k events" ?l] unsent unfolding run by auto
  then have "bk_scheduled (lp_backplane (backplane_run w n events backplane_new)) =
      map RegThread (ts @ us) @ (if all_enumerated n events then RegEnumerationComplete # map RegThread vs else [])"
    using backplane_loop_counts [OF assms(1), of w backplane_new] by (simp add: ts)
  then show thesis using that [OF ts] by blast
qed

text \<open>
  The first offer of work waits: if the gate is open without a timeout, every transport has reported, and every
  thread that was started before the last of them did has been registered and matched by a report.
\<close>

lemma open_gate_waited:
  assumes "\<forall>e\<in>set events. fst e < n" "0 < n" "\<forall>k. wd_schedule_ok w k"
    and "filter is_message es @ rest = map gate_message (bk_scheduled (lp_backplane (backplane_run w n events backplane_new)))"
    and "Timeout \<notin> set es" "\<not> is_holding (fold gate_step es StartupGate_new)"
  shows "all_enumerated n events"
    and "\<not> all_enumerated n (take k events) \<Longrightarrow>
      length (bk_scheduled (lp_backplane (backplane_run w n (take k events) backplane_new))) \<le> occurrences Reported es"
proof -
  obtain j where j: "EnumerationComplete \<in> set (take j es)"
    "occurrences Registered (take j es) \<le> occurrences Reported (take j es)"
    using opened_complete [OF assms(6,5)] .
  have split: "filter is_message (take j es) @ filter is_message (drop j es) @ rest =
      map gate_message (bk_scheduled (lp_backplane (backplane_run w n events backplane_new)))"
    using assms(4) by (metis append_assoc append_take_drop_id filter_append)
  have mem: "EnumerationComplete \<in> set (filter is_message (take j es))" using j(1) by simp
  have none: "\<not> all_enumerated n (take 0 events)" using assms(2) by (auto simp: all_enumerated_def)
  let ?sent = "bk_scheduled (lp_backplane (backplane_run w n events backplane_new))"
  have "EnumerationComplete \<in> gate_message ` set ?sent"
    using mem arg_cong [OF split, of set] by auto
  then have "RegEnumerationComplete \<in> set ?sent" by (auto simp: gate_message_complete)
  moreover obtain ts where "\<exists>us vs. ?sent = map RegThread (ts @ us) @
      (if all_enumerated n events then RegEnumerationComplete # map RegThread vs else [])"
    by (rule scheduled_before [OF assms(1,3) none])
  ultimately show all: "all_enumerated n events" by (auto split: if_splits)
  assume k: "\<not> all_enumerated n (take k events)"
  obtain ts where ts: "bk_scheduled (lp_backplane (backplane_run w n (take k events) backplane_new)) = map RegThread ts"
    and "\<exists>us vs. ?sent = map RegThread (ts @ us) @ (if all_enumerated n events then RegEnumerationComplete # map RegThread vs else [])"
    by (rule scheduled_before [OF assms(1,3) k])
  then obtain us vs where sent: "?sent = map RegThread (ts @ us) @ RegEnumerationComplete # map RegThread vs"
    using all by auto
  have "length (ts @ us) \<le> occurrences Registered (filter is_message (take j es))"
    using split unfolding sent by (rule registrations_prefix) (rule mem)
  also have "\<dots> = occurrences Registered (take j es)" by (rule occurrences_messages) simp
  also have "\<dots> \<le> occurrences Reported (take j es)" by (rule j(2))
  also have "\<dots> \<le> occurrences Reported es"
    using occurrences_append [of Reported "take j es" "drop j es"] by simp
  finally show "length (bk_scheduled (lp_backplane (backplane_run w n (take k events) backplane_new))) \<le> occurrences Reported es"
    by (simp add: ts)
qed

end
