(* ===== verification/Examples.thy ===== *)
theory Examples
  imports Chip_Actor Reader Scheduler_Props Control_Protocol Stratum_Pool Stratum_Connection
begin

text \<open>
  Concrete inputs at which the properties are evaluated: a stand-in for the \<open>bitcoin\<close> crate
  whose hashes are transparent, a job, a task and the state of a hash thread that holds it.
\<close>

definition example_bitcoin :: bitcoin where
  "example_bitcoin =
     \<lparr>x_coinbase_txid = Some, x_sha256d = id, x_block_hash = bh_merkle_root,
      x_is_met_by = (\<lambda>_ _. True), x_to_work = (\<lambda>_. 1), x_target_max = 0xffff\<rparr>"

definition example_range :: ExtranonceRange where
  "example_range = \<lparr>er_first = 0, er_last = 9, er_width = 1\<rparr>"

definition example_extranonce :: Extranonce where
  "example_extranonce = \<lparr>en_counter = 3, en_width = 1\<rparr>"

definition example_merkle :: MerkleRootTemplate where
  "example_merkle =
     \<lparr>mt_coinbase_prefix = [1], mt_extranonce_prefix = [2], mt_extranonce_range = example_range,
      mt_coinbase_suffix = [4], mt_merkle_branches = [[5], [6]]\<rparr>"

definition example_template :: "MerkleRootKind \<Rightarrow> JobTemplate" where
  "example_template root_kind =
     \<lparr>jt_id = ''job'', jt_prev_blockhash = replicate 32 0,
      jt_version = \<lparr>vt_base = 0x20000000, vt_gp_bits_mask = GP_full\<rparr>, jt_bits = 0x1d00ffff,
      jt_share_target = 0xffff, jt_time = 100, jt_merkle_root = root_kind\<rparr>"

definition example_task :: HashTask where
  "example_task =
     \<lparr>ht_template = example_template (Computed example_merkle),
      ht_extranonce_range = Some example_range, ht_extranonce = Some example_extranonce,
      ht_share_target = 0xffff, ht_ntime = 100, ht_share_tx = 7\<rparr>"

definition example_job :: JobFullFormat where
  "example_job =
     \<lparr>jf_job_id = 0, jf_num_midstates = 1, jf_starting_nonce = 0, jf_nbits = 0x1d00ffff,
      jf_ntime = 100, jf_merkle_root = [1, 2, 3, 4, 5, 6], jf_prev_block_hash = replicate 32 0,
      jf_version = 0x20000000\<rparr>"

definition example_actor :: actor where
  "example_actor =
     \<lparr>ac_config = bm1370, ac_chain = \<lparr>ch_chips = [], ch_domains = []\<rparr>, ac_asic_difficulty = 8,
      ac_chain_initialized = True, ac_current_task = Some example_task,
      ac_chip_jobs = snd (tracker_insert example_task ChipJobTracker_new),
      ac_active = True, ac_wire = \<lparr>w_sent = [], w_queue = []\<rparr>, ac_jobs_sent = [JobFull example_job],
      ac_job_attempts = [(example_job, True)],
      ac_peripherals = [], ac_shares = [], ac_events = []\<rparr>"

definition example_nonce :: NonceResponse where
  "example_nonce =
     \<lparr>nr_nonce = 42, nr_job_id = 0, nr_excess_difficulty = 0, nr_version = GP_none, nr_subcore_id = 0\<rparr>"

lemma example_merkle_root:
  "compute_merkle_root example_bitcoin (example_template (Computed example_merkle)) example_extranonce =
     Inr [1, 2, 3, 4, 5, 6]"
  by code_simp

lemma example_job_of_task: "task_to_job_full example_bitcoin example_task 0 = Inr example_job"
  by (simp add: task_to_job_full_def example_task_def Let_def example_merkle_root)
    (simp add: example_merkle_root [unfolded example_template_def] example_template_def example_job_def)

lemma example_tracker:
  "tracker_get k (ac_chip_jobs example_actor) = (if k = 0 then Some example_task else None)"
  unfolding example_actor_def actor.simps
  by (simp add: tracker_get_insert [OF tracker_inv_new])
    (auto simp: ChipJobTracker_new_def tracker_get_def)

lemma first_insert: "tracker_get 0 (snd (tracker_insert task ChipJobTracker_new)) = Some task"
  using tracker_get_insert [OF tracker_inv_new, of 0 task] by (simp add: ChipJobTracker_new_def)

lemma example_table_inv: "table_inv example_bitcoin example_actor"
proof -
  have "tracker_inv (ac_chip_jobs example_actor)"
    by (simp add: example_actor_def tracker_inv_insert tracker_inv_new)
  moreover have "last_job 0 (ac_jobs_sent example_actor) = Some example_job"
    by (simp add: example_actor_def last_job_def example_job_def)
  ultimately show ?thesis
    by (auto simp: table_inv_def example_tracker example_job_of_task split: if_splits)
qed

text \<open>The PLL of a BM1370 at its default frequency: an exact setting exists.\<close>

lemma f32_default: "f32 525000000 = 525000000"
  using fl_exact [of 8203125 24 6] by (simp add: power_int_def)

lemma default_mhz: "Frequency_mhz 525000000 = 525"
  by (simp add: Frequency_mhz_def f32_default)

lemma bm1370_frequencies:
  "cfg_default_freq bm1370 = 525000000" "cfg_freq_range bm1370 = (56250000, 600000000)" "cfg_ramp_step bm1370 = 6250000"
proof -
  have "f32 56250000 = 56250000" "f32 600000000 = 600000000"
    using fl_exact [of 3515625 24 4] fl_exact [of 9375000 24 6] by (simp_all add: power_int_def)
  then show "cfg_default_freq bm1370 = 525000000" "cfg_freq_range bm1370 = (56250000, 600000000)" "cfg_ramp_step bm1370 = 6250000"
    by (simp_all add: bm1370_def Frequency_from_mhz_def float_to_u64_def f32_default)
qed

lemma default_candidate: "(2, 2, 2) \<in> set pll_candidates" "pll_merit 525 (2, 2, 2) = (0, 2100)"
  "pll_admissible (cfg_pll_params bm1370) 525 (2, 2, 2)"
proof -
  have "\<lfloor>337 / 2 :: rat\<rfloor> = 168" by (rule floor_unique) simp_all
  then have fb: "pll_fb_div 525 (2, 2, 2) = 168"
    by (simp add: pll_fb_div_def CRYSTAL_MHZ_def round_away_def float_to_u8_def)
  show "(2, 2, 2) \<in> set pll_candidates" by (simp add: pll_candidates_def upt_conv_Cons)
  show merit: "pll_merit 525 (2, 2, 2) = (0, 2100)"
    by (simp add: pll_merit_def fb pll_error_def pll_vco_def pll_actual_mhz_def CRYSTAL_MHZ_def)
  show "pll_admissible (cfg_pll_params bm1370) 525 (2, 2, 2)"
    by (simp add: pll_admissible_def merit fb bm1370_def)
qed

lemma default_pll: "\<exists>r. calculate_pll bm1370 525000000 = Some r"
proof -
  have "fst (cfg_freq_range bm1370) \<le> 525000000" "525000000 \<le> snd (cfg_freq_range bm1370)"
    by (simp_all add: bm1370_frequencies)
  from calculate_pll_best [OF this] show ?thesis
    using default_candidate(1,3) by (auto simp: default_mhz split: option.splits)
qed

text \<open>
  A hash thread without chips on a serial port that works but for one send: a task is assigned, the
  ntime rolls, and the second job is the one that fails.
\<close>

definition example_thread_world :: "unit thread_world" where
  "example_thread_world =
     \<lparr>tw_commands = \<lparr>w_send_error = (\<lambda>_. None), w_arrives = (\<lambda>_. []), w_closes = (\<lambda>_. False)\<rparr>,
      tw_job_error = (\<lambda>n. if n = 1 then Some () else None), tw_peripheral_ok = (\<lambda>_. True)\<rparr>"

lemma example_send_all: "\<exists>w. send_all example_thread_world cmds a = (Inr (), a\<lparr>ac_wire := w\<rparr>)"
proof (induction cmds arbitrary: a)
  case Nil
  show ?case by (intro exI [of _ "ac_wire a"]) simp
next
  case (Cons c cmds)
  let ?a = "a\<lparr>ac_wire := (ac_wire a)\<lparr>w_sent := sent a @ [c]\<rparr>\<rparr>"
  have "on_wire (send_command (tw_commands example_thread_world) c) a = (Inr (), ?a)"
    by (simp add: on_wire_def send_command_def example_thread_world_def)
  then show ?case using Cons.IH [of ?a] by (simp add: and_then_def)
qed

lemma example_ready:
  assumes "ac_config a = bm1370" "ac_chain a = \<lparr>ch_chips = [], ch_domains = []\<rparr>"
  shows "\<exists>b. ready example_thread_world a b"
proof (cases "ac_chain_initialized a")
  case True
  then show ?thesis by (simp add: ready_def ensure_chain_initialized_def)
next
  case False
  have "0 < unat (6250000 :: u64)" "unat (525000000 :: u64) + unat (6250000 :: u64) < 2 ^ 64"
    "unat (56250000 :: u64) \<le> unat (525000000 :: u64)" by simp_all
  from ramp_loop_points [OF this] obtain steps where
    steps: "generate_frequency_ramp_steps bm1370 (56250000, 525000000) 6250000 = Some steps"
    by (simp add: generate_frequency_ramp_steps_def)
  let ?e = "example_thread_world"
  define on where "on ps w = a\<lparr>ac_peripherals := ps, ac_wire := w\<rparr>" for ps w
  have on: "ac_config (on ps w) = bm1370" "ac_chain (on ps w) = \<lparr>ch_chips = [], ch_domains = []\<rparr>" for ps w
    using assms by (simp_all add: on_def)
  have power: "peripheral ?e op err a = (Inr (), on (ac_peripherals a @ [op]) (ac_wire a))" for op err
    by (simp add: peripheral_def example_thread_world_def on_def)
  have release: "peripheral ?e op err (on ps w) = (Inr (), on (ps @ [op]) w)" for op err ps w
    by (simp add: peripheral_def example_thread_world_def on_def)
  have send: "\<exists>v. send_all ?e cmds (on ps w) = (Inr (), on ps v)" for cmds ps w
    using example_send_all [of cmds "on ps w"] by (simp add: on_def)
  have enum: "\<exists>v. enumerate_chips ?e (on ps w) = (Inr (), on ps v)" for ps w
    by (intro exI [of _ "w\<lparr>w_sent := w_sent w @ [ReadRegister Broadcast RegisterAddress.ChipId], w_queue := []\<rparr>"])
      (simp add: enumerate_chips_def and_then_def on_wire_def broadcast_read_def send_command_def example_thread_world_def
        drain_stale_def Let_def on_def assms chip_count_def)
  have address: "address_chain (on ps w) = (Inr (), on ps w)" for ps w
    using on [of ps w] by (simp add: address_chain_def assign_addresses_def assign_addresses_with_interval_def Let_def on_def)
  obtain pll where "calculate_pll bm1370 525000000 = Some pll" using default_pll by blast
  then have verify: "verify_chain ?e (on ps w) = (Inr (), on ps w)" for ps w
    by (simp add: verify_chain_def on bm1370_frequencies chain_chips_def)
  define ps where "ps = ac_peripherals a @ [RegulatorEnable, ResetRelease]"
  obtain w1 where 1: "send_all ?e version_mask_commands (on ps (ac_wire a)) = (Inr (), on ps w1)" using send by blast
  obtain w2 where 2: "enumerate_chips ?e (on ps w1) = (Inr (), on ps w2)" using enum by blast
  obtain w3 where 3: "send_all ?e (pre_configuration bm1370) (on ps w2) = (Inr (), on ps w3)" using send by blast
  obtain w4 where 4: "send_all ?e (addressing_commands \<lparr>ch_chips = [], ch_domains = []\<rparr>) (on ps w3) = (Inr (), on ps w4)"
    using send by blast
  obtain w5 where 5: "send_all ?e (configuration_commands bm1370 (ac_asic_difficulty (on ps w4)) \<lparr>ch_chips = [], ch_domains = []\<rparr> steps)
      (on ps w4) = (Inr (), on ps w5)" using send by blast
  have "initialize_chain ?e steps a = (Inr (), on ps w5)"
    unfolding initialize_chain_def
    by (simp add: and_then_def power release ps_def [symmetric] 1 2 3 4 5 on address verify)
  then show ?thesis
    using False assms steps
    by (simp add: ready_def ensure_chain_initialized_def bm1370_frequencies and_then_def)
qed

lemma example_reach:
  "\<exists>a0 a task job. actor_new bm1370 (single_domain 0) 8 = Some a0 \<and> actor_reach example_thread_world example_bitcoin a0 a \<and>
     tracker_get 0 (ac_chip_jobs a) = Some example_task \<and>
     tracker_get 1 (ac_chip_jobs a) = Some task \<and> task_to_job_full example_bitcoin task 1 = Inr job \<and>
     ac_job_attempts a = [(example_job, True), (job, False)]"
proof -
  let ?e = "example_thread_world"
  define a0 where "a0 = \<lparr>ac_config = bm1370, ac_chain = \<lparr>ch_chips = [], ch_domains = []\<rparr>, ac_asic_difficulty = 8,
      ac_chain_initialized = False, ac_current_task = None, ac_chip_jobs = ChipJobTracker_new,
      ac_active = False, ac_wire = \<lparr>w_sent = [], w_queue = []\<rparr>, ac_jobs_sent = [], ac_job_attempts = [],
      ac_peripherals = [], ac_shares = [], ac_events = []\<rparr>"
  have new: "actor_new bm1370 (single_domain 0) 8 = Some a0"
    by (simp add: a0_def actor_new_def from_topology_def single_domain_def expected_chip_count_def spec_domain_count_def)
  define a1 where "a1 = a0\<lparr>ac_peripherals := ac_peripherals a0 @ [ResetAssert]\<rparr>"
  have r1: "actor_reach ?e example_bitcoin a0 a1" unfolding a1_def by (rule reach_start)
  obtain b where b: "ready ?e a1 b" using example_ready [of a1] by (auto simp: a1_def a0_def)
  note frame = ready_frame [OF b]
  have id0: "cj_next_id ChipJobTracker_new = 0" by (simp add: ChipJobTracker_new_def)
  define J where "J = snd (tracker_insert example_task ChipJobTracker_new)"
  have assigned: "assigned_jobs False example_task (ac_chip_jobs a1) = (0, J)"
    by (simp add: assigned_jobs_def J_def a1_def a0_def tracker_insert_def Let_def id0)
  define c where "c = b\<lparr>ac_chip_jobs := J, ac_current_task := Some example_task\<rparr>"
  define a2 where "a2 = set_active True (c\<lparr>ac_jobs_sent := [JobFull example_job], ac_job_attempts := [(example_job, True)]\<rparr>)"
  have empty: "ac_job_attempts a1 = []" "ac_jobs_sent a1 = []" by (simp_all add: a1_def a0_def)
  have "send_job ?e example_job c = (Inr (), c\<lparr>ac_jobs_sent := [JobFull example_job], ac_job_attempts := [(example_job, True)]\<rparr>)"
    by (simp add: send_job_def c_def frame empty example_thread_world_def)
  then have "assign_task ?e example_bitcoin None False example_task a1 = Some (Inr (ac_current_task a1), True, a2)"
    by (simp add: assign_task_ready [OF b] assigned example_job_of_task c_def [symmetric] a2_def)
  then have "actor_step ?e example_bitcoin (CmdUpdateTask example_task None) a1 = Some (Some (Inr (ac_current_task a1)), True, a2)"
    by (simp add: actor_step_def)
  from reach_step [OF r1 this] have r2: "actor_reach ?e example_bitcoin a0 a2" .
  define task where "task = example_task\<lparr>ht_ntime := 101\<rparr>"
  have "compute_merkle_root example_bitcoin (ht_template task) example_extranonce = Inr [1, 2, 3, 4, 5, 6]"
    using example_merkle_root by (simp add: task_def example_task_def)
  moreover have "ht_extranonce task = Some example_extranonce" by (simp add: task_def example_task_def)
  ultimately obtain job where job: "task_to_job_full example_bitcoin task 1 = Inr job"
    using task_to_job_full_computed [of task example_extranonce example_bitcoin "[1, 2, 3, 4, 5, 6]" 1] by blast
  have id1: "cj_next_id J = 1" by (simp add: J_def tracker_insert_def Let_def ChipJobTracker_new_def)
  have inv: "tracker_inv J" unfolding J_def by (intro tracker_inv_insert tracker_inv_new)
  define T where "T = snd (tracker_insert task J)"
  have ins: "tracker_insert task J = (1, T)" by (simp add: T_def tracker_insert_def Let_def id1)
  have get: "tracker_get k T = (if k = 1 then Some task else tracker_get k J)" for k
    using tracker_get_insert [OF inv, of k task] by (simp add: T_def id1)
  have current: "ac_current_task a2 = Some example_task" "ac_chip_jobs a2 = J" "ac_job_attempts a2 = [(example_job, True)]"
    by (simp_all add: a2_def c_def)
  define d where "d = a2\<lparr>ac_current_task := Some task, ac_chip_jobs := T\<rparr>"
  define a3 where "a3 = d\<lparr>ac_job_attempts := [(example_job, True), (job, False)]\<rparr>"
  have "send_job ?e job d = (Inl (), a3)"
    by (simp add: send_job_def a3_def d_def current example_thread_world_def)
  moreover have "example_task\<lparr>ht_ntime := ht_ntime example_task + 1\<rparr> = task" by (simp add: task_def example_task_def)
  ultimately have "roll_ntime ?e example_bitcoin a2 = Some a3"
    by (simp add: roll_ntime_def current ins job d_def [symmetric])
  then have "actor_step ?e example_bitcoin NtimeTick a2 = Some (None, True, a3)" by (simp add: actor_step_def current)
  from reach_step [OF r2 this] have "actor_reach ?e example_bitcoin a0 a3" .
  moreover have "tracker_get 0 J = Some example_task" unfolding J_def by (rule first_insert)
  then have "tracker_get 0 (ac_chip_jobs a3) = Some example_task" "tracker_get 1 (ac_chip_jobs a3) = Some task"
    by (simp_all add: a3_def d_def get)
  moreover have "ac_job_attempts a3 = [(example_job, True), (job, False)]" by (simp add: a3_def)
  ultimately show ?thesis using new job by blast
qed

text \<open>A scheduler with one source, two threads that declared a hashrate and a task of an old job.\<close>

definition example_externals :: externals where
  "example_externals = \<lparr>xe_bitcoin = example_bitcoin, xe_decode = decode_float, xe_difficulty_float = (\<lambda>_. None)\<rparr>"

definition example_world :: sched_world where
  "example_world =
     \<lparr>sw_now = 0, sw_clock = (\<lambda>_. 0), sw_accepts = (\<lambda>_ _. True), sw_slot = (\<lambda>j. (0, 100 + j)), sw_channel = (\<lambda>j. j)\<rparr>"

definition example_thread :: ThreadEntry where
  "example_thread = \<lparr>te_name = ''thread'', te_hashrate = Estimator_new HASHRATE_WINDOW, te_expected = Some 1000000\<rparr>"

definition example_source :: SourceEntry where
  "example_source =
     \<lparr>se_name = ''pool'', se_url = None, se_last_job = None,
      se_difficulty_alarm = DebouncedAlarm_new HIGH_DIFFICULTY_DEBOUNCE\<rparr>"

definition example_scheduler :: scheduler where
  "example_scheduler = Scheduler_new
     \<lparr>sc_sources := [(1, example_source)], sc_threads := [(1, example_thread), (2, example_thread)],
      sc_tasks := [(7, \<lparr>tk_source_id = 1, tk_template = example_template (Fixed []), tk_thread_id = 2\<rparr>)],
      sc_source_events := [1], sc_thread_events := [1, 2], sc_last_thread_count := 2\<rparr>"

lemma example_scheduler_inv: "sched_inv example_scheduler"
  by (simp add: sched_inv_def example_scheduler_def Scheduler_new_def)

lemma example_eligible: "eligible_thread_ids example_scheduler = [1, 2]"
  by (simp add: eligible_thread_ids_def example_scheduler_def Scheduler_new_def example_thread_def)

lemma example_range_len: "range_len example_range = 10"
  by (simp add: range_len_def example_range_def)

lemma example_range_inv: "range_inv example_range"
  by (simp add: range_inv_def example_range_def)

lemma example_difficulty:
  "is_difficulty_too_high (xe_difficulty_float example_externals) target h \<noteq> None"
  by (auto simp: is_difficulty_too_high_def expected_time_to_share_from_target_def example_externals_def)

lemma example_decodes: "decodes (xe_decode example_externals)"
  by (simp add: example_externals_def decodes_decode_float)

lemma example_calm: "\<not> difficulty_panics example_externals src t s"
  using example_difficulty by (auto simp: difficulty_panics_def)

lemma example_too_difficult:
  "is_difficulty_too_high (\<lambda>_. Some (2 ^ 60)) target (expected_hashrate example_scheduler) = None"
proof -
  have "f64 (2 ^ 60 * 4294967296) = (2 ^ 60 * 4294967296 :: rat)" using f64_power2 [of 92] by (simp add: power_int_def)
  then have "f64 (rat_of_nat (unat (2000000 :: HashRate))) * 2 ^ 64 \<le> f64 (2 ^ 60 * 4294967296)" by simp
  then have "is_difficulty_too_high (\<lambda>_. Some (2 ^ 60)) target 2000000 = None"
    by (intro is_difficulty_too_high_panics [where d = "2 ^ 60"]) simp_all
  moreover have "expected_hashrate example_scheduler = 2000000"
    by (simp add: expected_hashrate_def example_scheduler_def Scheduler_new_def example_thread_def HashRate_sum_def HashRate_add_def)
  ultimately show ?thesis by simp
qed

lemma example_range_wf: "\<forall>e\<in>set (range_extranonces (mt_extranonce_range example_merkle)). wf_Extranonce e"
proof -
  have "\<forall>c\<in>set [0..<10]. wf_Extranonce \<lparr>en_counter = of_nat c, en_width = 1\<rparr>" by code_simp
  moreover have "range_counters example_range = [0..<10]" by (simp add: range_counters_def example_range_def)
  ultimately show ?thesis by (auto simp: range_extranonces_map example_merkle_def example_range_def)
qed

text \<open>A job handed to the two threads.\<close>

lemma example_split:
  "\<exists>s' a b task task'.
     assign_job_to_threads example_externals example_world Replace 1 (example_template (Computed example_merkle))
       example_scheduler = Some s' \<and>
     sc_outputs s' = [ToThread 1 (ReplaceTask task), ToThread 2 (ReplaceTask task')] \<and>
     ht_extranonce_range task = Some a \<and> ht_extranonce_range task' = Some b"
proof -
  let ?t = "example_template (Computed example_merkle)"
  have m: "jt_merkle_root ?t = Computed example_merkle" by (simp add: example_template_def)
  have r: "mt_extranonce_range example_merkle = example_range" by (simp add: example_merkle_def)
  obtain s' where s': "assign_job_to_threads example_externals example_world Replace 1 ?t example_scheduler = Some s'"
    using assign_job_None_iff [OF example_decodes m, of example_world Replace 1 example_scheduler]
    by (auto simp: r example_range_len example_eligible example_calm)
  have inv: "range_inv (mt_extranonce_range example_merkle)" unfolding r by (rule example_range_inv)
  have ne: "eligible_thread_ids example_scheduler \<noteq> []" by (simp add: example_eligible)
  have none: "sc_outputs example_scheduler = []" by (simp add: example_scheduler_def Scheduler_new_def)
  from job_split [OF s' m example_scheduler_inv inv ne] obtain slices outs where
    len: "length slices = length [1 :: ThreadId, 2]" and out: "sc_outputs s' = [] @ outs"
    and all: "list_all2 (\<lambda>(th, r) out. \<exists>task. out = ToThread th (mode_request Replace task) \<and>
        task_for example_externals ?t r task) (zip [1, 2] slices) outs"
    unfolding example_eligible r none by (elim exE conjE)
  obtain a b where ab: "slices = [a, b]" using len by (auto simp: length_Suc_conv numeral_2_eq_2)
  from all [unfolded ab] obtain task task' where
    "outs = [ToThread 1 (ReplaceTask task), ToThread 2 (ReplaceTask task')]"
    "ht_extranonce_range task = Some a" "ht_extranonce_range task' = Some b"
    by (auto simp: list_all2_Cons1 task_for_def)
  then show ?thesis using s' out by auto
qed

text \<open>A device that answers the first request only after its deadline.\<close>

definition late_reply_world :: control_world where
  "late_reply_world =
     \<lparr>cw_send_ok = \<lambda>_. True,
      cw_arrives = \<lambda>n. (let reply = \<lambda>n. Inr \<lparr>cr_id = of_nat n, cr_data = [], cr_error = None\<rparr>
        in if n = 0 then [] else if n = 1 then [reply 0, reply 1] else [reply n]),
      cw_closed = \<lambda>_. False\<rparr>"

text \<open>A source subscribed to a pool, the pool's job and a task of it.\<close>

definition example_source_ext :: source_ext where
  "example_source_ext =
     \<lparr>se_decode = decode_float, se_target_max = 0xffff,
      se_floats = \<lparr>ff_difficulty_float = \<lambda>_. Some 1, ff_log10 = \<lambda>_. 0, ff_powi10 = \<lambda>_. None\<rparr>,
      se_hasher = \<lambda>_. 0, se_event_ok = \<lambda>_. True, se_command_ok = \<lambda>_. True\<rparr>"

definition example_pool :: PoolConfig where
  "example_pool =
     \<lparr>pc_url = ''stratum+tcp://pool'', pc_username = ''user'', pc_password = ''x'', pc_user_agent = ''mujina''\<rparr>"

definition example_notification :: JobNotification where
  "example_notification =
     \<lparr>jn_job_id = ''job'', jn_prev_hash = replicate 32 0, jn_coinbase1 = [1], jn_coinbase2 = [4],
      jn_merkle_branches = [replicate 32 5], jn_version = 0x20000000, jn_nbits = 0x1d00ffff, jn_ntime = 100,
      jn_clean_jobs = True\<rparr>"

definition example_stratum_state :: "u32 option \<Rightarrow> SourceProtocolState" where
  "example_stratum_state vmask =
     \<lparr>sps_extranonce1 = [2], sps_extranonce2_size = 1, sps_share_difficulty = None, sps_version_mask = vmask\<rparr>"

definition example_stratum :: "u32 option \<Rightarrow> stratum_source" where
  "example_stratum vmask = (StratumV1Source_new example_pool)\<lparr>sv_state := Some (example_stratum_state vmask)\<rparr>"

definition example_pool_merkle :: MerkleRootTemplate where
  "example_pool_merkle =
     \<lparr>mt_coinbase_prefix = [1], mt_extranonce_prefix = [2],
      mt_extranonce_range = \<lparr>er_first = 0, er_last = max_counter 1, er_width = 1\<rparr>, mt_coinbase_suffix = [4],
      mt_merkle_branches = [replicate 32 5]\<rparr>"

definition example_pool_template :: "u32 option \<Rightarrow> JobTemplate" where
  "example_pool_template vmask =
     \<lparr>jt_id = ''job'', jt_prev_blockhash = replicate 32 0,
      jt_version = \<lparr>vt_base = 0x20000000,
        vt_gp_bits_mask = (case vmask of Some v \<Rightarrow> GP_from_mask (be_bytes4 v) | None \<Rightarrow> GP_none)\<rparr>,
      jt_bits = 0x1d00ffff, jt_share_target = difficulty_target (Difficulty_from_u64 0xffff 1), jt_time = 100,
      jt_merkle_root = Computed example_pool_merkle\<rparr>"

lemma example_pool_template:
  "job_to_template example_source_ext example_notification (example_stratum vmask) = Inr (example_pool_template vmask)"
  unfolding job_to_template_Inr_iff
  by (simp add: example_stratum_def example_stratum_state_def example_notification_def example_pool_template_def
      example_pool_merkle_def example_source_ext_def base_clear_def)

definition example_pool_actor :: "u32 option \<Rightarrow> actor" where
  "example_pool_actor vmask = example_actor
     \<lparr>ac_chip_jobs := snd (tracker_insert (example_task\<lparr>ht_template := example_pool_template vmask\<rparr>) ChipJobTracker_new)\<rparr>"

lemma example_pool_share:
  "\<exists>share. ac_shares (handle_nonce example_bitcoin (example_nonce\<lparr>nr_version := g\<rparr>) (example_pool_actor vmask)) =
     ac_shares (example_pool_actor vmask) @ [(7, share)]"
proof -
  let ?task = "example_task\<lparr>ht_template := example_pool_template vmask\<rparr>"
  have task: "tracker_get 0 (ac_chip_jobs (example_pool_actor vmask)) = Some ?task"
    by (simp add: example_pool_actor_def first_insert)
  have e: "ht_extranonce ?task = Some example_extranonce" by (simp add: example_task_def)
  have "x_coinbase_txid example_bitcoin cb = Some cb" for cb by (simp add: example_bitcoin_def)
  then obtain mr where mr: "compute_merkle_root example_bitcoin (ht_template ?task) example_extranonce = Inr mr"
    by (auto simp: compute_merkle_root_def Template_compute_merkle_root_def example_pool_template_def split: option.splits)
  have met: "x_is_met_by example_bitcoin t h" for t h by (simp add: example_bitcoin_def)
  show ?thesis
    unfolding handle_nonce_def using task e mr met
    by (simp add: example_nonce_def Let_def example_task_def)
qed

text \<open>A software miner that is given a task of the pool's job and then hashes once.\<close>

definition example_look :: "MinerCommand list \<Rightarrow> instant \<Rightarrow> look" where
  "example_look commands now =
     \<lparr>lk_now = now, lk_shutdown = False, lk_commands = commands, lk_disconnected = False, lk_overshoot = 0\<rparr>"

definition example_looks :: "u32 option \<Rightarrow> look list" where
  "example_looks vmask =
     [example_look [MinerUpdateTask (example_task\<lparr>ht_template := example_pool_template vmask\<rparr>) 0] 0, example_look [] 0]"

definition example_miner :: miner where
  "example_miner = take_task example_bitcoin (example_task\<lparr>ht_template := example_pool_template None\<rparr>) 0 (miner_new 0)"

lemma example_task_root:
  "\<exists>mr. task_merkle_root example_bitcoin (example_task\<lparr>ht_template := example_pool_template vmask\<rparr>) = Some mr"
  by (simp add: task_merkle_root_def example_task_def example_pool_template_def compute_merkle_root_def
      Template_compute_merkle_root_def example_bitcoin_def)

lemma example_miner_root: "\<exists>mr. mi_cached_merkle_root example_miner = Some mr"
  using example_task_root by (simp add: example_miner_def take_task_def update_status_def Let_def)

lemma example_software_share:
  "\<exists>share. (7, share) \<in> set (mi_sent (snd (run_mining_loop example_bitcoin 50 0 (example_looks vmask))))"
proof -
  let ?task = "example_task\<lparr>ht_template := example_pool_template vmask\<rparr>"
  let ?m = "take_task example_bitcoin ?task 0 (miner_new 0)"
  obtain mr where mr: "task_merkle_root example_bitcoin ?task = Some mr" using example_task_root by blast
  have first: "miner_step example_bitcoin 500 (example_look [MinerUpdateTask ?task 0] 0) (AtTop, miner_new 0) = (InCycle 0, ?m)"
    by (simp add: top_step_def example_look_def take_task_def update_status_def Let_def)
  have second: "miner_step example_bitcoin 500 (example_look [] 0) (InCycle 0, ?m) = (InCycle 0, hash_nonce example_bitcoin ?m)"
    by (simp add: cycle_step_def example_look_def duration_since_def millis_def Let_def)
  have m: "mi_current_task ?m = Some ?task" "mi_cached_merkle_root ?m = Some mr"
    by (simp_all add: take_task_def update_status_def Let_def mr)
  have tried: "\<exists>share. try_nonce example_bitcoin t r n = Some share" for t r n
    by (simp add: try_nonce_def example_bitcoin_def Let_def)
  obtain share where share: "try_nonce example_bitcoin ?task mr (mi_nonce ?m) = Some share" using tried by blast
  have "ht_share_tx ?task = 7" by (simp add: example_task_def)
  then have "(7, share) \<in> set (mi_sent (hash_nonce example_bitcoin ?m))"
    by (simp add: hash_nonce_def m Let_def share del: HashTask.simps)
  moreover have "work_ms 50 = 500" by (simp add: work_ms_eq)
  ultimately show ?thesis
    by (intro exI [of _ share]) (simp only: run_mining_loop_def example_looks_def fold.simps o_apply id_apply first second snd_conv)
qed

text \<open>A pool that answers nothing and takes whatever is sent to it, and one that answers with an error.\<close>

definition example_stratum_world :: "read_result list \<Rightarrow> stratum_world" where
  "example_stratum_world arrives =
     \<lparr>sw_hex = hex_ref, sw_arrives = \<lambda>_. arrives, sw_ends = \<lambda>_. DeadlinePassed, sw_write_ok = \<lambda>_. True,
      sw_event_ok = \<lambda>_. True, sw_debug = \<lambda>_. []\<rparr>"

definition example_submission :: SubmitParams where
  "example_submission =
     \<lparr>sp_username = ''user'', sp_job_id = ''job'', sp_extranonce2 = [3], sp_ntime = 100, sp_nonce = 42,
      sp_version_bits = None\<rparr>"

text \<open>A text of two bytes for every message; only the whole text parses.\<close>

definition example_text :: "JsonRpcMessage \<Rightarrow> text_functions" where
  "example_text msg =
     \<lparr>tx_utf8 = \<lambda>_. True, tx_trim = filter (\<lambda>b. b \<noteq> newline),
      tx_parse = (\<lambda>bs. if bs = [0x7b, 0x7d] then Some msg else None), tx_print = (\<lambda>_. [0x7b, 0x7d])\<rparr>"

text \<open>The source connects when threads report a hashrate, and the connection fails.\<close>

lemma example_source_decodes: "decodes (se_decode example_source_ext)"
  by (simp add: example_source_ext_def decodes_decode_float)

lemma example_suggests_floats: "suggests_floats example_source_ext"
proof -
  have "Difficulty_as_f64 (se_floats example_source_ext) d = 1" for d
    by (simp add: Difficulty_as_f64_def example_source_ext_def round_significant_def)
  moreover have "f64 1 = (1 :: rat)" using fl_of_int [of 1 53] by simp
  ultimately show ?thesis
    by (auto simp: suggests_floats_def compute_suggested_difficulty_def split: if_splits)
qed

lemma example_connecting:
  "\<exists>r. source_reach example_source_ext example_pool 0 r \<and> sr_phase r = Connecting 0"
proof -
  let ?i = "InCommand (UpdateHashRate 1000000)"
  let ?r0 = "(source_run_new example_pool)\<lparr>sr_source := (StratumV1Source_new example_pool)\<lparr>sv_expected_hashrate := 1000000\<rparr>\<rparr>"
  obtain r where r: "start_connection example_source_ext 0 ?r0 = Some r"
    using suggestions_Some(3) [OF example_source_decodes] by blast
  have "source_step example_source_ext 0 ?i (source_run_new example_pool) = Some r"
    using r by (simp add: source_step_def source_run_new_def waiting_command_def HashRate_is_zero_def Let_def)
  moreover have "input_enabled 0 ?i (source_run_new example_pool)"
    by (simp add: input_enabled_def source_run_new_def)
  ultimately have "source_reach example_source_ext example_pool 0 r"
    using source_reach.reach_step [OF source_reach.reach_new order.refl, of 0 ?i] by blast
  then show ?thesis using start_connection_fields(1) [OF r] by blast
qed

text \<open>
  A connection whose handshake suggests one difficulty; the hashrate doubles at once, falls back, and the
  cooldown of the first command ends: three suggestions, the second right behind the handshake's.
\<close>

definition two_difficulties :: source_ext where
  "two_difficulties = example_source_ext
     \<lparr>se_floats := \<lparr>ff_difficulty_float = (\<lambda>t. if to_target decode_float SUGGESTED_SHARE_RATE 1 = Some t then Some 1 else Some 2),
        ff_log10 = \<lambda>_. 0, ff_powi10 = \<lambda>_. None\<rparr>\<rparr>"

lemma f64_small: "f64 1 = (1 :: rat)" "f64 2 = (2 :: rat)" "f64 3 = (3 :: rat)" "f64 6 = (6 :: rat)"
  using fl_of_int [of 1 53] by simp_all

lemma two_difficulties_values:
  "compute_suggested_difficulty two_difficulties 1 = Some (Some 1)"
  "compute_suggested_difficulty two_difficulties 2 = Some (Some 2)"
  "suggests_floats two_difficulties"
proof -
  have secs: "as_secs_f64 SUGGESTED_SHARE_RATE = 3"
    by (simp add: as_secs_f64_def SUGGESTED_SHARE_RATE_def f64_small)
  have hashes: "hashes_in 1 SUGGESTED_SHARE_RATE = 3" "hashes_in 2 SUGGESTED_SHARE_RATE = 6"
    by (simp_all add: hashes_in_def secs f64_small)
  obtain t u where t: "to_target decode_float SUGGESTED_SHARE_RATE 1 = Some t" "int (unat t) = \<lfloor>rat_of_nat max_u256 / 3\<rfloor>"
    and u: "to_target decode_float SUGGESTED_SHARE_RATE 2 = Some u" "int (unat u) = \<lfloor>rat_of_nat max_u256 / 6\<rfloor>"
    using to_target_value [OF decodes_decode_float, of SUGGESTED_SHARE_RATE 1]
      to_target_value [OF decodes_decode_float, of SUGGESTED_SHARE_RATE 2] hashes by auto
  have "rat_of_nat max_u256 / 6 + 1 \<le> rat_of_nat max_u256 / 3" by (simp add: max_u256_def)
  then have "\<lfloor>rat_of_nat max_u256 / 6\<rfloor> < \<lfloor>rat_of_nat max_u256 / 3\<rfloor>" by linarith
  then have "t \<noteq> u" using t(2) u(2) by auto
  have val: "Difficulty_as_f64 (se_floats two_difficulties) (Difficulty x) = (if x = t then 1 else 2)" for x
    by (auto simp: Difficulty_as_f64_def two_difficulties_def round_significant_def t(1))
  have ext: "se_decode two_difficulties = decode_float" by (simp add: two_difficulties_def example_source_ext_def)
  show "compute_suggested_difficulty two_difficulties 1 = Some (Some 1)"
    "compute_suggested_difficulty two_difficulties 2 = Some (Some 2)"
    using \<open>t \<noteq> u\<close> by (simp_all add: compute_suggested_difficulty_def HashRate_is_zero_def val ext t(1) u(1))
  show "suggests_floats two_difficulties"
    by (auto simp: suggests_floats_def compute_suggested_difficulty_def val f64_small split: if_splits)
qed

lemma example_suggestions:
  "\<exists>r. source_reach two_difficulties example_pool 5000000000 r \<and> on_connection (sr_phase r) \<and>
     connection_suggestions (sr_source r) = [1, 2, 1] \<and> command_suggestion_times (sr_source r) = [0, 5000000000]"
proof -
  let ?x = two_difficulties
  note c = two_difficulties_values(1,2)
  have ok: "se_command_ok ?x n" for n by (simp add: two_difficulties_def example_source_ext_def)
  have "rat_of_int 1 \<le> f64 (8 / 5)" using fl_mono [of 1 "8 / 5" 53] f64_small(1) by simp
  then have down: "is_material_change 1 (Some 2)" by (simp add: is_material_change_def DOWN_FACTOR_def)
  have "f64 (3 / 2) = 3 / (2 :: rat)" using fl_exact [of 3 53 "- 1"] by (simp add: power_int_minus)
  then have up: "is_material_change 2 (Some 1)" by (simp add: is_material_change_def UP_FACTOR_def)
  define s1 where "s1 = (StratumV1Source_new example_pool)\<lparr>sv_expected_hashrate := 1, sv_last_suggested_difficulty := Some 1,
      sv_handshake_suggestion := Some 1\<rparr>"
  define r where "r s = \<lparr>sr_source = s, sr_backoff = sr_backoff (source_run_new example_pool), sr_phase = Connected 0 0\<rparr>" for s
  have "source_step ?x 0 (InCommand (UpdateHashRate 1)) (source_run_new example_pool) =
      Some ((source_run_new example_pool)\<lparr>sr_source := s1, sr_phase := Connecting 0\<rparr>)"
    by (simp add: source_step_def source_run_new_def waiting_command_def HashRate_is_zero_def start_connection_def c
        s1_def StratumV1Source_new_def Let_def)
  from source_reach.reach_step [OF source_reach.reach_new order.refl _ this]
  have "source_reach ?x example_pool 0 ((source_run_new example_pool)\<lparr>sr_source := s1, sr_phase := Connecting 0\<rparr>)"
    by (simp add: input_enabled_def source_run_new_def)
  from source_reach.reach_step [OF this order.refl, of InConnected]
  have 1: "source_reach ?x example_pool 0 (r s1)" by (simp add: input_enabled_def source_step_def r_def source_run_new_def)
  define s2 where "s2 = s1\<lparr>sv_expected_hashrate := 2, sv_last_suggested_difficulty := Some 2,
      sv_cooldown_until := Some 5000000000, sv_commands := [(0, CmdSuggestDifficulty 2)]\<rparr>"
  have step2: "connected_command ?x 0 (UpdateHashRate 2) s1 = Some s2"
    by (simp add: connected_command_def maybe_suggest_difficulty_def c up s1_def s2_def StratumV1Source_new_def in_cooldown_def
        send_suggest_def Stratum_Source.send_command_def ok SUGGEST_MIN_INTERVAL_def)
  from source_reach.reach_step [OF 1 order.refl, of "InCommand (UpdateHashRate 2)"]
  have 2: "source_reach ?x example_pool 0 (r s2)" by (simp add: input_enabled_def source_step_def connected_step_def r_def step2)
  define s3 where "s3 = s2\<lparr>sv_expected_hashrate := 1\<rparr>"
  have step3: "connected_command ?x 0 (UpdateHashRate 1) s2 = Some s3"
    by (simp add: connected_command_def maybe_suggest_difficulty_def c down s2_def s3_def in_cooldown_def)
  from source_reach.reach_step [OF 2 order.refl, of "InCommand (UpdateHashRate 1)"]
  have 3: "source_reach ?x example_pool 0 (r s3)" by (simp add: input_enabled_def source_step_def connected_step_def r_def step3)
  define s4 where "s4 = s3\<lparr>sv_last_suggested_difficulty := Some 1, sv_cooldown_until := Some 10000000000,
      sv_commands := [(0, CmdSuggestDifficulty 2), (5000000000, CmdSuggestDifficulty 1)]\<rparr>"
  have step4: "flush_suggest ?x 5000000000 s3 = Some s4"
    by (simp add: flush_suggest_def c down s2_def s3_def s4_def send_suggest_def Stratum_Source.send_command_def ok SUGGEST_MIN_INTERVAL_def)
  from source_reach.reach_step [OF 3, of 5000000000 InCooldownExpired]
  have "source_reach ?x example_pool 5000000000 (r s4)"
    by (simp add: input_enabled_def source_step_def connected_step_def r_def step4, simp add: s3_def s2_def)
  moreover have "on_connection (sr_phase (r s4))" by (simp add: r_def on_connection_def)
  moreover have "connection_suggestions (sr_source (r s4)) = [1, 2, 1]" "command_suggestion_times (sr_source (r s4)) = [0, 5000000000]"
    by (simp_all add: r_def s4_def s3_def s2_def s1_def connection_suggestions_def command_suggestion_times_def)
  ultimately show ?thesis by blast
qed

lemma example_failed:
  "\<exists>r u. source_reach example_source_ext example_pool 0 r \<and> sr_phase r = BackingOff u"
proof -
  obtain r where r: "source_reach example_source_ext example_pool 0 r" "sr_phase r = Connecting 0"
    using example_connecting by blast
  obtain k where k: "backoff_at k (sr_backoff r)" using reach_backoff [OF r(1)] by blast
  obtain r' where d: "disconnected example_source_ext 0 0 r = Some r'" "\<exists>u. sr_phase r' = BackingOff u"
    using disconnected_backoff [OF k] by blast
  have "source_step example_source_ext 0 (InConnectFailed Io) r = Some r'"
    using r(2) d(1) by (simp add: source_step_def client_exit_def is_fatal_def)
  from source_reach.reach_step [OF r(1) order.refl _ this] show ?thesis
    using r(2) d(2) by (auto simp: input_enabled_def)
qed

end
