(* ===== verification/Board_Examples.thy ===== *)
theory Board_Examples
  imports Bitaxe_Props
begin

text \<open>
  Concrete inputs for the properties of boards and backplane: a device and its events, a backplane whose
  factories make one board of each device, and a Bitaxe whose bus never answers.
\<close>

definition plain_text :: text_library where
  "plain_text = \<lparr>tl_regex = (\<lambda>_. None), tl_lowercase = id\<rparr>"

definition example_usb :: UsbDeviceInfo where
  "example_usb =
     \<lparr>ud_vid = 0xc0de, ud_pid = 0xcafe, ud_bcd_device = 0x0100, ud_serial_number = Some ''b1'', ud_manufacturer = Some ''OSMU'',
      ud_product = Some ''Bitaxe'', ud_device_path = ''/sys/1''\<rparr>"

definition example_nusb :: "nat nusb_device" where
  "example_nusb =
     \<lparr>nd_id = 1, nd_vendor_id = 0xc0de, nd_product_id = 0xcafe, nd_device_version = 0x0100, nd_serial_number = Some ''b1'',
      nd_manufacturer_string = Some ''OSMU'', nd_product_string = Some ''Bitaxe'', nd_path = ''/sys/1''\<rparr>"

text \<open>A backplane whose factories make one board with one thread of each device.\<close>

definition example_backplane :: "(board_factory, unit, string, unit, string) backplane_world" where
  "example_backplane =
     \<lparr>wd_text = plain_text, wd_boards = registered_boards, wd_virtual = [cpu_descriptor],
      wd_create = (\<lambda>s f device. Some
         \<lparr>cn_info = \<lparr>bi_model = ''Bitaxe'', bi_firmware_version = None, bi_serial_number = ud_serial_number device\<rparr>,
          cn_threads = [''asic''], cn_telemetry_rx = (), cn_shutdown = Some ''stop bitaxe''\<rparr>),
      wd_create_virtual = (\<lambda>s f. Some
         \<lparr>cn_info = \<lparr>bi_model = ''CPU'', bi_firmware_version = None, bi_serial_number = None\<rparr>, cn_threads = [''cpu''],
          cn_telemetry_rx = (), cn_shutdown = Some ''stop cpu''\<rparr>),
      wd_keys = (\<lambda>s. map fst (bk_boards s)), wd_register_ok = (\<lambda>_. True), wd_schedule_ok = (\<lambda>_. True)\<rparr>"

definition example_events :: "(nat \<times> TransportEvent) list" where
  "example_events =
     [(1, Cpu (CpuDeviceConnected \<lparr>cd_device_id = ''cpu-0'', cd_thread_count = 1, cd_duty_percent = 50\<rparr>)),
      (1, InitialEnumerationComplete), (0, Usb (UsbDeviceConnected example_usb)), (0, InitialEnumerationComplete)]"

definition silent_io :: "transaction list board_io" where
  "silent_io =
     \<lparr>io_bus = logged_i2c \<lparr>iv_write = (\<lambda>_. Inl (WrongLength 0 0)), iv_reply = (\<lambda>_. Inl (WrongLength 0 0))\<rparr>,
      io_pin = (\<lambda>pin high log. (Inr (), log)), io_set_frequency = (\<lambda>hz log. (Inr (), log))\<rparr>"

lemma silent_logged: "\<exists>dev. logged_io dev silent_io"
  by (auto simp: logged_io_def silent_io_def)

definition silent_tick :: "nat \<Rightarrow> transaction list monitor_input" where
  "silent_tick now = MonitorTick now [] [] []"

definition hot_inputs :: "transaction list monitor_input list" where
  "hot_inputs = [ThreadActs (ThreadReset True 0), silent_tick 1000000000, silent_tick 2000000000, silent_tick 3000000000]"

definition silent :: "transaction list i2c" where
  "silent = logged_i2c \<lparr>iv_write = (\<lambda>_. Inl (WrongLength 0 0)), iv_reply = (\<lambda>_. Inl (WrongLength 0 0))\<rparr>"

lemma io_silent: "io_bus silent_io = silent" by (simp add: silent_io_def silent_def)

lemma silent_temp: "\<exists>e. fst (fst (read_fan silent_io s)) = Inl e"
  by (auto simp: read_fan_def io_silent Let_def split_beta on_i2c_def get_external_temperature_def and_then_def emc_read_def bus_result_def
    silent_def logged_i2c_def reply_bytes_def)

text \<open>Accesses to the bus leave the instant of the release alone.\<close>

lemma released_i2c: "bx_released_since (snd (on_i2c f s)) = bx_released_since s"
  by (simp add: on_i2c_def split: prod.split)

lemma released_regulator: "bx_released_since (snd (on_regulator f s)) = bx_released_since s"
  by (simp add: on_regulator_def split: prod.split)

lemma released_check: "bx_released_since (check_and_clear io s) = bx_released_since s"
  by (auto simp: check_and_clear_def released_regulator split: prod.split sum.split) (metis released_regulator snd_conv)+

lemma released_reads: "bx_released_since (snd (read_fan io s)) = bx_released_since s"
  "bx_released_since (snd (read_regulator io s)) = bx_released_since s"
  by (simp_all add: read_fan_def read_regulator_def Let_def split_beta released_i2c released_regulator released_check)

lemma silent_tick_view:
  assumes "monitor_view s = (True, n, rs, None)" "bx_released_since s = Some t" "DIODE_SETTLE \<le> now - t"
  shows "\<exists>e. let s' = monitor_input_step silent_io serial (silent_tick now) s
    in bx_readings s' = rs @ [(True, Inl e)] \<and>
       (n < 2 \<longrightarrow> monitor_view s' = (True, n + 1, rs @ [(True, Inl e)], None) \<and> bx_released_since s' = Some t)"
proof -
  obtain e percent rpm s1 where fan: "read_fan silent_io s = ((Inl e, percent, rpm), s1)"
    using silent_temp [of s] by (metis prod.exhaust fst_conv)
  obtain r s2 where reg: "read_regulator silent_io s1 = (r, s2)" by (metis prod.exhaust)
  have s2: "monitor_view s2 = (True, n, rs, None)" "bx_released_since s2 = Some t"
    using view_read_fan [of silent_io s] view_read_regulator [of silent_io s1] released_reads [of silent_io s] released_reads [of silent_io s1]
      assms(1,2) fan reg by simp_all
  then have f: "bx_lock_ok s2" "bx_bad_thermal_count s2 = n" "bx_readings s2 = rs" "bx_ended s2 = None"
    by (simp_all add: monitor_view_def)
  let ?u = "s2\<lparr>bx_bad_thermal_count := Suc n, bx_readings := rs @ [(True, Inl e)]\<rparr>"
  have tick: "monitor_tick silent_io serial now [] [] s =
      (if 3 \<le> Suc n then (Inl (ThermalEmergency (Suc n)), snd (on_i2c (set_fan_speed (io_bus silent_io) EMC2101_ADDRESS Percent_FULL) ?u))
       else (Inr (), ?u\<lparr>bx_telemetry := bx_telemetry s2 @ [bitaxe_telemetry serial None percent rpm r],
              bx_last_log := (if LOG_INTERVAL \<le> now - bx_last_log s2 then now else bx_last_log s2)\<rparr>))"
    using assms(3) by (simp add: monitor_tick_def fan reg released_since_def f s2 diode_ready_def classify_def BAD_READING_LIMIT_def)
  show ?thesis
  proof (cases "n < 2")
    case True
    then show ?thesis by (intro exI [of _ e]) (simp add: silent_tick_def tick s2 monitor_view_def f Let_def)
  next
    case False
    let ?v = "monitor_shutdown silent_io [] (snd (on_i2c (set_fan_speed (io_bus silent_io) EMC2101_ADDRESS Percent_FULL) ?u))"
    have "monitor_view ?v = monitor_view ?u" by simp
    then have "bx_readings ?v = rs @ [(True, Inl e)]" by (simp add: monitor_view_def)
    then show ?thesis using False by (intro exI [of _ e]) (simp add: silent_tick_def tick Let_def)
  qed
qed

lemma hot_readings:
  "\<exists>a b c. bx_readings (monitor_run silent_io None hot_inputs (snd (bitaxe_attach silent_io (bitaxe_new [])))) =
     [(True, Inl a), (True, Inl b), (True, Inl c)]"
proof -
  let ?s = "snd (bitaxe_attach silent_io (bitaxe_new []))" and ?step = "monitor_input_step silent_io None"
  have s: "monitor_view ?s = (True, 0, [], None)" by (simp only: view_attach) (simp add: monitor_view_def bitaxe_new_def)
  then have s': "bx_ended ?s = None" "bx_lock_ok ?s" by (simp_all add: monitor_view_def)
  let ?start = "?step (ThreadActs (ThreadReset True 0)) ?s"
  have s0: "monitor_view ?start = (True, 0, [], None)" using s view_reset(2) [of silent_io 0 ?s] by simp
  have r0: "bx_released_since ?start = Some 0"
    using s'(2) by (simp add: reset_release_def write_reset_pin_def on_i2c_def silent_io_def)
  have settle: "DIODE_SETTLE \<le> 1000000000 - 0" "DIODE_SETTLE \<le> 2000000000 - 0" "DIODE_SETTLE \<le> 3000000000 - 0"
    by (simp_all add: DIODE_SETTLE_def)
  let ?run1 = "?step (silent_tick 1000000000) ?start" let ?run2 = "?step (silent_tick 2000000000) ?run1"
  let ?run3 = "?step (silent_tick 3000000000) ?run2"
  obtain a where s1: "monitor_view ?run1 = (True, 1, [(True, Inl a)], None)" "bx_released_since ?run1 = Some 0"
    using silent_tick_view [OF s0 r0 settle(1), of None] by (auto simp: Let_def)
  obtain b where s2: "monitor_view ?run2 = (True, 2, [(True, Inl a), (True, Inl b)], None)" "bx_released_since ?run2 = Some 0"
    using silent_tick_view [OF s1 settle(2), of None] by (auto simp: Let_def numeral_2_eq_2)
  obtain c where s3: "bx_readings ?run3 = [(True, Inl a), (True, Inl b), (True, Inl c)]"
    using silent_tick_view [OF s2 settle(3), of None] by (auto simp: Let_def)
  have "bx_ended ?start = None" "bx_ended ?run1 = None" "bx_ended ?run2 = None" using s0 s1 s2 by (simp_all add: monitor_view_def)
  then have "monitor_run silent_io None hot_inputs ?s = ?run3"
    using s'(1) unfolding hot_inputs_def by (simp del: monitor_input_step.simps)
  then show ?thesis using s3 by simp
qed

text \<open>What the example's backplane sends the scheduler.\<close>

lemma example_scheduled:
  "bk_scheduled (lp_backplane (backplane_run example_backplane 2 example_events backplane_new)) =
     [RegThread ''cpu'', RegThread ''asic'', RegEnumerationComplete]"
  "length (bk_scheduled (lp_backplane (backplane_run example_backplane 2 (take 3 example_events) backplane_new))) = 2"
proof -
  have sel: "find_descriptor plain_text registered_boards example_usb = Some bitaxe_raw_descriptor"
    by (rule registered_selection) (simp_all add: registered_matches, simp add: example_usb_def)
  show "bk_scheduled (lp_backplane (backplane_run example_backplane 2 example_events backplane_new)) =
     [RegThread ''cpu'', RegThread ''asic'', RegEnumerationComplete]"
    "length (bk_scheduled (lp_backplane (backplane_run example_backplane 2 (take 3 example_events) backplane_new))) = 2"
    using sel
    by (simp_all add: backplane_run_def backplane_start_def example_events_def example_backplane_def Let_def find_virtual_def
        cpu_descriptor_def start_board_def register_board_def schedule_def backplane_new_def send_enumeration_complete_def)
qed

end
