(* ===== verification/Spec2Isabelle.thy ===== *)
theory Spec2Isabelle
  imports Crc Registers Commands Versions Responses Extranonces Measures Floats Rates Chip_Config Chain
    Register_Client Reader Jobs Chip_Thread Chip_Actor Slots Scheduler Scheduler_Props
    Control_Protocol Stratum_Messages Stratum_Client Stratum_Source Stratum_Pool Stratum_Connection
    Pmbus_Commands Pmbus I2c_Bus Units Tps546 Tps546_Props Sensors Cpu_Miner Other_Sources
    Boards Usb_Transport Backplane Bitaxe_Board Bitaxe_Props Emberone_Board Serial_Port Leds Daemon_Api
    Telemetry Extranonce_Text Approximations Startup
    Examples Board_Examples
begin

text \<open>
  A verification library for mujina-miner, a Bitcoin mining daemon in Rust (sources under
  \<open>mujina-miner/src\<close>). Job sources, most of all a Stratum v1 pool, deliver job templates; the scheduler splits the extranonce
  space of a template over the hash threads that have declared a hashrate; a hash thread drives a
  chain of BM13xx chips over a serial line, turns their nonces into shares and sends them back;
  the scheduler filters shares and submits them to the source. Transports find devices, the backplane
  makes boards of them and hands their threads to the scheduler, and each board watches its
  temperature, power and fan.

  The theories, bottom up:

  \<^item> \<open>Prelude\<close>: machine integers as words, byte orders, lemmas on bits.
  \<^item> \<open>Crc\<close> (\<open>asic/bm13xx/crc.rs\<close>), \<open>Register_Fields\<close> and \<open>Registers\<close> (\<open>register.rs\<close>,
    \<open>error.rs\<close>), \<open>Commands\<close> (\<open>command.rs\<close> and the encoders of \<open>codec.rs\<close>), \<open>Responses\<close>
    (\<open>response.rs\<close> and the decoder of \<open>codec.rs\<close>): the wire protocol. A register is a record with an
    encoder and a decoder; a locale states the laws of such a codec and is interpreted for every
    register. \<open>codec_run\<close> interleaves arrivals of bytes with calls of the decoder at any moments, as its caller in
    \<open>tokio_util\<close> is not part of the sources; \<open>decode_all\<close> is a specification of what comes out in the end.
  \<^item> \<open>Reader\<close> (\<open>reader.rs\<close>): the task between decoder and thread, a step relation over all
    interleavings with the receivers of its two bounded channels.
  \<^item> \<open>Chain\<close> (\<open>topology.rs\<close>, \<open>chain.rs\<close>), \<open>Chip_Config\<close> (\<open>chip_config.rs\<close>, \<open>types/frequency.rs\<close>),
    \<open>Register_Client\<close> (\<open>register_client.rs\<close>), \<open>Chip_Thread\<close> and \<open>Chip_Actor\<close> (\<open>thread.rs\<close>): the
    hash thread. Its state is a record that also logs what it did to the outside; an argument, the
    world, says which sends and peripheral operations fail and what replies arrive. Every job whose sending is
    attempted is logged with its success, which tells the table's agreement with the chips apart from a failed send.
  \<^item> \<open>Versions\<close>, \<open>Extranonces\<close>, \<open>Jobs\<close> (\<open>job_source/version.rs\<close>, \<open>extranonce.rs\<close>, \<open>merkle.rs\<close>,
    \<open>job.rs\<close>, \<open>asic/hash_thread.rs\<close>): templates, tasks and shares.
  \<^item> \<open>Measures\<close> (\<open>u256.rs\<close>, \<open>types/hash_rate.rs\<close>, \<open>debounced_alarm.rs\<close>, \<open>hashrate_estimator.rs\<close>),
    \<open>Floats\<close> (IEEE rounding to nearest on rationals), \<open>Rates\<close> (\<open>types/difficulty.rs\<close>,
    \<open>share_rate.rs\<close>, target computations of \<open>scheduler.rs\<close>): arithmetic. Floats are the rationals they
    denote, every operation rounded where the code rounds; overflow to infinity and NaN do not occur
    on the values used, and a panic of a conversion is \<open>None\<close>.
  \<^item> \<open>Slots\<close>, \<open>Scheduler\<close>, \<open>Scheduler_Props\<close> (\<open>scheduler.rs\<close>): the scheduler, one definition per
    handler, and one iteration of its loop; a panic is \<open>None\<close>.
  \<^item> \<open>Control_Protocol\<close> (\<open>mgmt_protocol/bitaxe_raw\<close>): packets, codec and request channel of the
    board's management firmware; a reply arrives before or after the deadline of a request.
  \<^item> \<open>Stratum_Messages\<close>, \<open>Stratum_Client\<close>, \<open>Stratum_Connection\<close> (\<open>stratum_v1/messages.rs\<close>,
    \<open>error.rs\<close>, \<open>client.rs\<close>, \<open>connection.rs\<close>): the pool's protocol. An operation of the client takes
    what arrives from a world and logs what it writes and reports; the main loop gets what its
    \<open>select!\<close> picks. Lines are read from arrivals cut anywhere; a read that is dropped loses its part.
  \<^item> \<open>Stratum_Source\<close> (\<open>job_source/stratum_v1.rs\<close>): the source between client and scheduler, its run as
    steps over inputs at times, with invariants of the reachable states: spacing of the suggestions sent as commands,
    material changes of all of a connection, the handshake's included. \<open>Stratum_Pool\<close> joins it with
    the hash thread: the header the pool recomputes from a submission.
  \<^item> \<open>Pmbus_Commands\<close>, \<open>Pmbus\<close> (\<open>peripheral/pmbus.rs\<close>, \<open>pmbus_types.rs\<close>): command codes, status flags and
    texts, and the number formats in single precision; the search for an exponent finds the nearest
    value outside a gap below each power of two.
  \<^item> \<open>I2c_Bus\<close>, \<open>Units\<close>, \<open>Tps546\<close>, \<open>Tps546_Props\<close> (\<open>hw_trait/i2c.rs\<close>, \<open>types/voltage.rs\<close>, \<open>ratio.rs\<close>,
    \<open>peripheral/tps546.rs\<close>): the power converter's driver over a bus given as a record of operations,
    with the board's control channel and a device that logs its transactions as instances. Registers
    written at bring-up and read by the dump are lists the driver walks. A log message is left out, the
    bus reads made for it are kept, so the dump reads as it does with debug logging on.
  \<^item> \<open>Sensors\<close> (\<open>peripheral/emc2101.rs\<close>, \<open>tmp1075.rs\<close>, \<open>tmp451.rs\<close>): fan controller and temperature
    sensors over the same bus; the lemmas say what the numbers read mean.
  \<^item> \<open>Cpu_Miner\<close> (\<open>cpu_miner\<close>): the software hash thread. One step is one look of its loop at the clock,
    the flag and its commands, so a run is a list of looks and every interleaving with the outside is one.
  \<^item> \<open>Other_Sources\<close> (\<open>job_source/forced_rate.rs\<close>, \<open>dummy.rs\<close>): the wrapper that forces a share rate, which
    changes nothing but targets, and the test source.
  \<^item> \<open>Boards\<close> (\<open>board/pattern.rs\<close>, the registries and descriptors of \<open>board\<close> and \<open>backplane.rs\<close>): which board
    driver gets a USB device. A pattern that has all criteria of another matches less and scores more;
    the registered ones exclude one another, so the linker's order does not matter.
  \<^item> \<open>Usb_Transport\<close> (\<open>transport/mod.rs\<close>, \<open>usb.rs\<close>, \<open>usb/linux.rs\<close>, \<open>cpu.rs\<close>): the USB monitor over what the hotplug
    library delivers, with the books it keeps of its events, and the search for a board's serial ports.
  \<^item> \<open>Backplane\<close> (\<open>backplane.rs\<close>): boards as an association list, one function per event, and the loop that
    counts the transports. Shutdown futures are counted in a multiset: none is awaited twice, and only a
    board that another one replaces loses its own. What the scheduler is sent is listed event by event.
  \<^item> \<open>Bitaxe_Board\<close>, \<open>Bitaxe_Props\<close> (\<open>board/bitaxe.rs\<close>): bring-up, reset line, monitor and shutdown over the drivers
    of \<open>Tps546\<close> and \<open>Sensors\<close>; what the hash thread does to the same hardware is an input between the monitor's
    accesses. The lemmas give the thermal cut-out and the last orders to the bus and the reset pin.
  \<^item> \<open>Emberone_Board\<close> (\<open>board/emberone00.rs\<close>): the other board, with its supply, sensors and shutdown.
  \<^item> \<open>Serial_Port\<close> (\<open>transport/serial.rs\<close>): the stream that is reconfigured while it is split. A locale states what
    is relied on of the operating system's port; a plain terminal meets it.
  \<^item> \<open>Leds\<close> (\<open>peripheral/led\<close>, \<open>hw_trait/rgb_led.rs\<close>): animations, status patterns and colour calibration.
  \<^item> \<open>Daemon_Api\<close> (\<open>daemon.rs\<close>, \<open>tracing.rs\<close>, \<open>env_help.rs\<close>, \<open>api\<close>): the address of the API, the log filter, the help
    text's lines, the board registry and the handlers of the routes.
  \<^item> \<open>Telemetry\<close> (\<open>scheduler.rs\<close>, \<open>api/server.rs\<close>): the snapshots the scheduler publishes and the answer a request
    gets; its iteration refines the one of \<open>Scheduler\<close>. The paused flag is reported and changes nothing else.
  \<^item> \<open>Extranonce_Text\<close> (\<open>job_source/extranonce.rs\<close>): the texts of extranonces and ranges, which determine them.
  \<^item> \<open>Approximations\<close> (\<open>asic/bm13xx/register.rs\<close>, \<open>u256.rs\<close>): chosen baud rates and ticket difficulties, and
    a float close to a 256-bit integer with its relative error.
  \<^item> \<open>Startup\<close>: transports, backplane and the scheduler's startup gate put together: what an opened gate has waited for.
  \<^item> \<open>Board_Examples\<close>: concrete inputs for boards and backplane.
  \<^item> \<open>Examples\<close>: concrete inputs for the witnesses.

  Conventions. A \<open>w\<close>-bit integer is a \<open>w word\<close>; \<open>usize\<close> and \<open>u128\<close> counters that cannot reach their
  bound are \<open>nat\<close>. Errors are the left of a sum, panics and non-termination \<open>None\<close>. What lies outside
  the sources is an argument: the \<open>bitcoin\<close> crate (\<open>bitcoin\<close> record: txid, double SHA-256, block
  hash, target test), the decoding of a double into mantissa and exponent (\<open>decodes\<close> states its
  documented contract and \<open>decode_float\<close> meets it), keys of slot maps, clocks, and everything that
  arrives on a channel. Loops that may not end are \<open>partial_function\<close>s, and that they do end is
  proved.

  Not modelled: the text of log messages, delays between steps, routing and serialisation of the HTTP API
  and its client programs, parsing of the command line and the configuration file, USB lookup on macOS,
  opening of ports and spawning of tasks, and the declarations of the hardware traits.
\<close>

section \<open>The hash thread\<close>

text \<open>C1: When the job table agrees with the jobs sent (as in every reachable state in which
  no send of a job failed), a share leaves the hash thread only for a job id the table holds, and its
  hash is the block hash of the header of the last job sent to the chips under that id, with the
  reported nonce and version bits; that hash meets the target of the task, and nonce, version and
  time of the share are those of the header.\<close>
theorem share_is_a_hash_of_the_job:
  assumes "table_inv btc a" and "ac_shares (handle_nonce btc r a) \<noteq> ac_shares a"
  shows "\<exists>task job share. tracker_get (nr_job_id r) (ac_chip_jobs a) = Some task \<and>
    last_job (nr_job_id r) (ac_jobs_sent a) = Some job \<and>
    ac_shares (handle_nonce btc r a) = ac_shares a @ [(ht_share_tx task, share)] \<and>
    sh_hash share = x_block_hash btc (chip_header job r) \<and>
    x_is_met_by btc (ht_share_target task) (sh_hash share) \<and>
    sh_nonce share = bh_nonce (chip_header job r) \<and> sh_version share = bh_version (chip_header job r) \<and>
    sh_ntime share = bh_time (chip_header job r)"
  using assms by (rule handle_nonce_share)

theorem share_is_a_hash_of_the_job_witness:
  "\<exists>share. ac_shares (handle_nonce example_bitcoin example_nonce example_actor) = [(7, share)] \<and>
    sh_hash share = [1, 2, 3, 4, 5, 6] \<and> sh_nonce share = 42"
proof -
  have "ac_shares (handle_nonce example_bitcoin example_nonce example_actor) \<noteq> ac_shares example_actor"
    by (simp add: handle_nonce_def example_nonce_def example_tracker Let_def example_task_def
        example_merkle_root) (simp add: example_bitcoin_def)
  from share_is_a_hash_of_the_job [OF example_table_inv this] obtain task job share where
    s: "tracker_get 0 (ac_chip_jobs example_actor) = Some task"
    "last_job 0 (ac_jobs_sent example_actor) = Some job"
    "ac_shares (handle_nonce example_bitcoin example_nonce example_actor) =
       ac_shares example_actor @ [(ht_share_tx task, share)]"
    "sh_hash share = x_block_hash example_bitcoin (chip_header job example_nonce)"
    "sh_nonce share = bh_nonce (chip_header job example_nonce)"
    by (auto simp: example_nonce_def)
  have "task = example_task" using s(1) by (simp add: example_tracker)
  moreover have "job = example_job" using s(2) by (simp add: example_actor_def last_job_def example_job_def)
  ultimately have "ac_shares (handle_nonce example_bitcoin example_nonce example_actor) = [(7, share)]"
    "sh_hash share = [1, 2, 3, 4, 5, 6]" "sh_nonce share = 42"
    using s(3-5) by (simp_all add: example_actor_def example_task_def chip_header_def example_job_def
        example_bitcoin_def example_nonce_def)
  then show ?thesis by blast
qed

text \<open>C3: In every state the actor reaches from its creation, sends that fail included, the job of an entry
  of the job table is the last one whose sending was attempted under its id, and if that attempt got through it is
  the last job the chips were sent under it. So the table agrees with the jobs sent wherever every attempt got
  through. Work is only present on an initialised chain.\<close>
theorem reachable_tables:
  assumes "actor_new config topology d = Some a0" and "actor_reach env btc a0 a"
  shows "(\<forall>k task job. tracker_get k (ac_chip_jobs a) = Some task \<longrightarrow> task_to_job_full btc task k = Inr job \<longrightarrow>
      (\<exists>through. last_attempt k (ac_job_attempts a) = Some (job, through) \<and>
        (through \<longrightarrow> last_job k (ac_jobs_sent a) = Some job))) \<and>
    ((\<forall>x\<in>set (ac_job_attempts a). snd x) \<longrightarrow> table_inv btc a) \<and> work_inv a"
  using actor_reach_inv [OF assms] table_inv_through [of btc a] by (auto simp: attempt_inv_def)

theorem reachable_tables_witness:
  "\<exists>(a :: actor) task job. tracker_get 0 (ac_chip_jobs a) = Some example_task \<and> last_job 0 (ac_jobs_sent a) = Some example_job \<and>
     tracker_get 1 (ac_chip_jobs a) = Some task \<and> last_attempt 1 (ac_job_attempts a) = Some (job, False) \<and>
     ac_chain_initialized a"
proof -
  obtain a0 a task job where a: "actor_new bm1370 (single_domain 0) 8 = Some a0"
    "actor_reach example_thread_world example_bitcoin a0 a"
    "tracker_get 0 (ac_chip_jobs a) = Some example_task" "tracker_get 1 (ac_chip_jobs a) = Some task"
    "task_to_job_full example_bitcoin task 1 = Inr job" "ac_job_attempts a = [(example_job, True), (job, False)]"
    using example_reach by blast
  have id: "jf_job_id job = 1" "jf_job_id example_job = 0"
    using task_to_job_full_id [OF a(5)] by (simp_all add: example_job_def)
  then have attempts: "last_attempt 0 (ac_job_attempts a) = Some (example_job, True)"
    "last_attempt 1 (ac_job_attempts a) = Some (job, False)" by (simp_all add: a(6) last_attempt_def)
  note inv = reachable_tables [OF a(1,2)]
  then have sent: "last_job 0 (ac_jobs_sent a) = Some example_job" using a(3) example_job_of_task attempts(1) by fastforce
  then have "ac_jobs_sent a \<noteq> []" by (auto simp: last_job_def)
  then have "ac_chain_initialized a" using inv by (simp add: work_inv_def)
  then show ?thesis using a(3,4) attempts(2) sent by blast
qed

text \<open>C26: Whatever ends the loop of the hash thread, the last operations on its peripherals
  put the chips in reset and switch their power off.\<close>
theorem disabled_on_exit:
  assumes "actor_run env btc msgs a = Some (False, a')"
  shows "\<exists>ops. ac_peripherals a' = ops @ [ResetAssert, RegulatorDisable]"
  using assms unfolding actor_run_def by (rule actor_loop_exit)

theorem disabled_on_exit_witness:
  "\<exists>a' ops. actor_run (undefined :: unit thread_world) example_bitcoin [CmdGoIdle, Shutdown, NtimeTick] example_actor =
      Some (False, a') \<and> ac_peripherals a' = ops @ [ResetAssert, RegulatorDisable]"
proof -
  have "\<exists>a'. actor_run (undefined :: unit thread_world) example_bitcoin [CmdGoIdle, Shutdown, NtimeTick] example_actor =
      Some (False, a')"
    by (simp add: actor_run_def actor_step_def go_idle_def)
  then show ?thesis using disabled_on_exit by blast
qed

section \<open>The protocol\<close>

text \<open>C21: Register replies arrive with line noise between them, noise that holds no preamble
  byte, in pieces of any size, and the decoder is called at any moments. What has come out is always the first replies, in
  order; once all has arrived, calls enough for the bytes in the buffer bring out exactly the rest and empty it; and
  without noise no call is wasted, so a caller that stops calling at the first call without a reply has all replies
  that have arrived in full. With noise such a caller gets the reply behind it only after further bytes.\<close>
theorem noisy_stream_decodes:
  assumes "\<forall>(noise, chip, r, u) \<in> set xs. 0xaa \<notin> set noise \<and> wf_Register r"
    and "codec_run model events ([], []) = (buf, out)" and "arrived events @ future = noisy_stream xs"
  shows "out = take (length out) (noisy_replies xs) \<and>
    (future = [] \<longrightarrow> codec_run model (replicate (length buf) Call) (buf, out) = ([], noisy_replies xs)) \<and>
    ((\<forall>x\<in>set xs. fst x = []) \<longrightarrow> FRAME_LEN \<le> length buf \<longrightarrow> snd (frame_decode model buf) \<noteq> None)"
proof -
  have "(\<forall>x\<in>set xs. fst x = []) \<Longrightarrow> \<forall>(noise, chip, r, u) \<in> set xs. noise = [] \<and> wf_Register r"
    using assms(1) by fastforce
  then show ?thesis using noisy_run [OF assms] quiet_run(2) [OF _ assms(2,3)] by blast
qed

theorem noisy_stream_decodes_witness:
  "\<exists>buf out. codec_run BM1370 [Arrive [1], Call, Arrive (2 # response_frame
        (register_payload 4 (Register.HashCountingNumber \<lparr>hcn_ticks = 7\<rparr>) (0, 0)) TypeReadRegister), Call] ([], []) = (buf, out) \<and>
     codec_run BM1370 (replicate (length buf) Call) (buf, out) =
       ([], [RespReadRegister \<lparr>rr_chip_address = 4, rr_register = Register.HashCountingNumber \<lparr>hcn_ticks = 7\<rparr>\<rparr>])"
proof -
  let ?xs = "[([1, 2], 4, Register.HashCountingNumber \<lparr>hcn_ticks = 7\<rparr>, (0, 0))] :: noisy_reply list"
  let ?frame = "response_frame (register_payload 4 (Register.HashCountingNumber \<lparr>hcn_ticks = 7\<rparr>) (0, 0)) TypeReadRegister"
  let ?events = "[Arrive [1], Call, Arrive (2 # ?frame), Call]"
  have xs: "\<forall>(noise, chip, r, u) \<in> set ?xs. 0xaa \<notin> set noise \<and> wf_Register r" by simp
  obtain buf out where run: "codec_run BM1370 ?events ([], []) = (buf, out)" by fastforce
  have "arrived ?events @ [] = noisy_stream ?xs" by (simp add: arrived_def noisy_stream_def)
  from noisy_stream_decodes [OF xs run this] run show ?thesis by (auto simp: noisy_replies_def)
qed

text \<open>C22: Flipping any single bit after the preamble of a valid response frame makes
  the decoder reject it: one byte is dropped and no response comes out.\<close>
theorem flipped_bit_rejected:
  assumes "crc5_is_valid (drop 2 (take FRAME_LEN src))" and "FRAME_LEN \<le> length src"
    and "2 \<le> i" and "i < FRAME_LEN" and "k < 8"
  shows "frame_decode model (src[i := flip_bit k (src ! i)]) = (drop 1 (src[i := flip_bit k (src ! i)]), None)"
  using assms by (rule frame_decode_flipped)

theorem flipped_bit_rejected_witness:
  "frame_decode BM1370 [0xaa, 0x55, 0x13, 0x70, 0, 0, 0, 0, 0, 0, 17] =
     ([0x55, 0x13, 0x70, 0, 0, 0, 0, 0, 0, 17], None)"
proof -
  have "crc5_is_valid [0x13, 0x70, 0, 0, 0, 0, 0, 0, 16]" by code_simp
  moreover have "flip_bit 0 (16 :: u8) = 17" by code_simp
  ultimately show ?thesis
    using flipped_bit_rejected [of "[0xaa, 0x55, 0x13, 0x70, 0, 0, 0, 0, 0, 0, 16]" 10 0 BM1370]
    by (simp add: FRAME_LEN_def)
qed

text \<open>C23: Encoding a well-formed register and decoding the word at its address gives the
  register back, and decoding any word and encoding the result restores the word, except for
  PLL_DIVIDER, whose decoder drops a nibble.\<close>
theorem register_round_trip:
  "(wf_Register r \<longrightarrow> Register_encode r = bytes4_list bs \<longrightarrow> Register_decode (Register_address r) bs = Inr r) \<and>
   (Register_decode a cs = Inr s \<longrightarrow> a \<noteq> RegisterAddress.PllDivider \<longrightarrow>
      wf_Register s \<and> Register_address s = a \<and> Register_encode s = bytes4_list cs)"
  using Register_decode_encode Register_encode_decode Register_decode_address Register_decode_wf by blast

theorem register_round_trip_witness:
  "Register_decode RegisterAddress.HashCountingNumber (0, 0, 0x1e, 0xb5) =
     Inr (Register.HashCountingNumber \<lparr>hcn_ticks = 0x1eb5\<rparr>) \<and>
   Register_encode (Register.HashCountingNumber \<lparr>hcn_ticks = 0x1eb5\<rparr>) = bytes4_list (0, 0, 0x1e, 0xb5)"
proof -
  have "Register_decode RegisterAddress.HashCountingNumber (0, 0, 0x1e, 0xb5) =
     Inr (Register.HashCountingNumber \<lparr>hcn_ticks = 0x1eb5\<rparr>)" by code_simp
  then show ?thesis
    using register_round_trip [of _ _ RegisterAddress.HashCountingNumber "(0, 0, 0x1e, 0xb5)"
        "Register.HashCountingNumber \<lparr>hcn_ticks = 0x1eb5\<rparr>"] by simp
qed

section \<open>Work\<close>

text \<open>C14: Splitting an extranonce range gives exactly the requested number of parts; put
  together in order they are the range's extranonces, each once; their sizes differ by at most
  one, the larger parts first. Splitting fails only for no parts or more parts than extranonces.\<close>
theorem split_partitions:
  assumes "range_inv r" and "split_range r n = Some rs"
  shows "length rs = n \<and> concat (map range_extranonces rs) = range_extranonces r \<and>
    distinct (range_extranonces r) \<and> (\<forall>p \<in> set rs. range_inv p) \<and>
    map range_len rs = map (part_len (range_len r div n) (range_len r mod n)) [0..<n] \<and>
    0 < n \<and> n \<le> range_len r"
  using split_range_Some [OF assms] split_range_extranonces [OF assms] distinct_range_extranonces
    split_range_None_iff [of r n] assms(2) by auto

theorem split_partitions_witness:
  "\<exists>rs. split_range example_range 3 = Some rs \<and> map range_len rs = [4, 3, 3]"
proof -
  have "split_range example_range 3 \<noteq> None"
    by (simp add: split_range_None_iff example_range_def range_len_def)
  then obtain rs where rs: "split_range example_range 3 = Some rs" by blast
  have "range_inv example_range" by (simp add: range_inv_def example_range_def)
  from split_partitions [OF this rs]
  have "map range_len rs = map (part_len (range_len example_range div 3) (range_len example_range mod 3)) [0..<3]"
    by blast
  moreover have "range_len example_range = 10" by code_simp
  moreover have "map (part_len (10 div 3) (10 mod 3)) [0..<3] = [4, 3, 3]" by code_simp
  ultimately have "map range_len rs = [4, 3, 3]" by metis
  with rs show ?thesis by (intro exI conjI)
qed

text \<open>C15: When a job is assigned, the tasks handed to different threads search different headers: the
  merkle root of any extranonce of one thread's slice differs from that of any extranonce of the other's, when the txid
  and double SHA-256 have no collision on the inputs the range's extranonces give. This is about one assignment: a
  thread that becomes eligible later gets the full range, which overlaps the slices until the next job.\<close>
theorem tasks_of_a_job_differ:
  assumes "assign_job_to_threads ext w mode src t s = Some s'" and "jt_merkle_root t = Computed m"
    and "sched_inv s" and "range_inv (mt_extranonce_range m)" and "eligible_thread_ids s \<noteq> []"
    and "\<forall>e\<in>set (range_extranonces (mt_extranonce_range m)). wf_Extranonce e"
    and "inj_on (x_coinbase_txid btc) (coinbase_bytes m ` set (range_extranonces (mt_extranonce_range m)))"
    and "inj_on (x_sha256d btc) (\<Union>e\<in>set (range_extranonces (mt_extranonce_range m)). merkle_inputs btc m e)"
  shows "\<exists>outs. sc_outputs s' = sc_outputs s @ outs \<and> length outs = length (eligible_thread_ids s) \<and>
    (\<forall>th th' task task' r r'. ToThread th (mode_request mode task) \<in> set outs \<longrightarrow>
       ToThread th' (mode_request mode task') \<in> set outs \<longrightarrow> th \<noteq> th' \<longrightarrow>
       ht_extranonce_range task = Some r \<longrightarrow> ht_extranonce_range task' = Some r' \<longrightarrow>
       (\<forall>e\<in>set (range_extranonces r). \<forall>f\<in>set (range_extranonces r'). \<forall>root.
          compute_merkle_root btc t e = Inr root \<longrightarrow> compute_merkle_root btc t f \<noteq> Inr root))"
  using assms by (rule assigned_roots_differ)

theorem tasks_of_a_job_differ_witness:
  "\<exists>s' task task' a b.
     assign_job_to_threads example_externals example_world Replace 1 (example_template (Computed example_merkle))
       example_scheduler = Some s' \<and>
     sc_outputs s' = [ToThread 1 (ReplaceTask task), ToThread 2 (ReplaceTask task')] \<and>
     ht_extranonce_range task = Some a \<and> ht_extranonce_range task' = Some b \<and>
     (\<forall>e\<in>set (range_extranonces a). \<forall>f\<in>set (range_extranonces b).
        compute_merkle_root example_bitcoin (example_template (Computed example_merkle)) e \<noteq>
        compute_merkle_root example_bitcoin (example_template (Computed example_merkle)) f)"
proof -
  let ?t = "example_template (Computed example_merkle)" and ?all = "range_extranonces (mt_extranonce_range example_merkle)"
  obtain s' a b task task' where s': "assign_job_to_threads example_externals example_world Replace 1 ?t example_scheduler = Some s'"
    and out: "sc_outputs s' = [ToThread 1 (ReplaceTask task), ToThread 2 (ReplaceTask task')]"
    and ab: "ht_extranonce_range task = Some a" "ht_extranonce_range task' = Some b"
    using example_split by blast
  have wf: "\<forall>e\<in>set ?all. wf_Extranonce e" by (rule example_range_wf)
  have inj: "inj_on (x_coinbase_txid example_bitcoin) A" "inj_on (x_sha256d example_bitcoin) B" for A B
    by (simp_all add: example_bitcoin_def)
  have m: "jt_merkle_root ?t = Computed example_merkle" by (simp add: example_template_def)
  have range: "range_inv (mt_extranonce_range example_merkle)" using example_range_inv by (simp add: example_merkle_def)
  have ne: "eligible_thread_ids example_scheduler \<noteq> []" by (simp add: example_eligible)
  have none: "sc_outputs example_scheduler = []" by (simp add: example_scheduler_def Scheduler_new_def)
  have "compute_merkle_root example_bitcoin ?t e \<noteq> compute_merkle_root example_bitcoin ?t f"
    if "e \<in> set (range_extranonces a)" "f \<in> set (range_extranonces b)" for e f
  proof -
    obtain root where root: "compute_merkle_root example_bitcoin ?t e = Inr root"
      by (auto simp: compute_merkle_root_def Template_compute_merkle_root_def example_template_def example_bitcoin_def)
    from tasks_of_a_job_differ [OF s' m example_scheduler_inv range ne wf inj] have
      "\<forall>th th' x x' r r'. ToThread th (ReplaceTask x) \<in> set (sc_outputs s') \<longrightarrow> ToThread th' (ReplaceTask x') \<in> set (sc_outputs s') \<longrightarrow>
        th \<noteq> th' \<longrightarrow> ht_extranonce_range x = Some r \<longrightarrow> ht_extranonce_range x' = Some r' \<longrightarrow>
        (\<forall>e\<in>set (range_extranonces r). \<forall>f\<in>set (range_extranonces r'). \<forall>root.
          compute_merkle_root example_bitcoin ?t e = Inr root \<longrightarrow> compute_merkle_root example_bitcoin ?t f \<noteq> Inr root)"
      by (simp add: none)
    from this [rule_format, of 1 task 2 task' a b e f root] show ?thesis using ab that root by (simp add: out)
  qed
  then show ?thesis using s' out ab by blast
qed

section \<open>Rates and targets\<close>

text \<open>C16: For a thread with a hashrate the scheduler's target never fails to compute;
  it lies between the targets of the measurement rate and of the flood cap, and it is the source's
  own target whenever that lies between them.\<close>
theorem scheduler_target_bounds:
  assumes "decodes decode" and "h \<noteq> 0"
  shows "\<exists>lo hi t. to_target decode MEASUREMENT_SHARE_RATE h = Some lo \<and>
    to_target decode FLOOD_CAP_RATE h = Some hi \<and> lo \<le> hi \<and>
    compute_scheduler_target decode h source = Some t \<and> lo \<le> t \<and> t \<le> hi \<and>
    (lo \<le> source \<longrightarrow> source \<le> hi \<longrightarrow> t = source)"
  using assms by (rule compute_scheduler_target_bounds)

theorem scheduler_target_bounds_witness:
  "\<exists>t. compute_scheduler_target decode_float 1000000 0xffff = Some t"
  proof -
  have "(1000000 :: HashRate) \<noteq> 0" by simp
  from scheduler_target_bounds [OF decodes_decode_float this] show ?thesis by blast
qed

text \<open>C27: Within the chip's frequency range the PLL search finds a divider setting whenever an
  admissible one exists, and the one it returns has the least error, ties going to the lowest VCO.\<close>
theorem pll_search_best:
  assumes "fst (cfg_freq_range cfg) \<le> freq" and "freq \<le> snd (cfg_freq_range cfg)"
  shows "case calculate_pll cfg freq of
      None \<Rightarrow> \<forall>c \<in> set pll_candidates. \<not> pll_admissible (cfg_pll_params cfg) (Frequency_mhz freq) c
    | Some r \<Rightarrow> \<exists>c \<in> set pll_candidates. r = pll_setting (Frequency_mhz freq) c \<and>
        pll_admissible (cfg_pll_params cfg) (Frequency_mhz freq) c \<and>
        (\<forall>d \<in> set pll_candidates. pll_admissible (cfg_pll_params cfg) (Frequency_mhz freq) d \<longrightarrow>
           merit_le (pll_merit (Frequency_mhz freq) c) (pll_merit (Frequency_mhz freq) d))"
  using assms by (rule calculate_pll_best)

theorem pll_search_best_witness:
  "\<exists>c \<in> set pll_candidates. calculate_pll bm1370 525000000 = Some (pll_setting 525 c) \<and>
     pll_admissible (cfg_pll_params bm1370) 525 c \<and> merit_le (pll_merit 525 c) (0, 2100)"
proof -
  have "fst (cfg_freq_range bm1370) \<le> 525000000" "525000000 \<le> snd (cfg_freq_range bm1370)"
    by (simp_all add: bm1370_frequencies)
  from pll_search_best [OF this, unfolded default_mhz] default_pll obtain c where
    c: "c \<in> set pll_candidates" "calculate_pll bm1370 525000000 = Some (pll_setting 525 c)"
    "pll_admissible (cfg_pll_params bm1370) 525 c"
    "\<forall>d \<in> set pll_candidates. pll_admissible (cfg_pll_params bm1370) 525 d \<longrightarrow> merit_le (pll_merit 525 c) (pll_merit 525 d)"
    by auto
  then have "merit_le (pll_merit 525 c) (0, 2100)" using default_candidate by metis
  then show ?thesis using c by blast
qed

text \<open>C28: The frequency ramp returns for every positive step that stays in range of the counter,
  and the settings it yields are those of frequencies that start at the start, end exactly on the
  target, and rise by at most one step each.\<close>
theorem ramp_returns:
  assumes "0 < unat step" and "unat target + unat step < 2 ^ 64" and "unat current \<le> unat target"
  shows "\<exists>points. ramp_loop cfg target step current [] = Some (some_plls cfg points) \<and>
    points \<noteq> [] \<and> hd points = unat current \<and> last points = unat target \<and>
    successively (\<lambda>a b. a < b \<and> b - a \<le> unat step) points"
  using ramp_loop_points [OF assms(1,2,3), of cfg "[]"]
    ramp_points_shape [OF assms(1) assms(3)] by auto

theorem ramp_returns_witness:
  "\<exists>points. ramp_loop bm1370 525000000 6250000 56250000 [] = Some (some_plls bm1370 points) \<and>
     hd points = 56250000 \<and> last points = 525000000 \<and> some_plls bm1370 points \<noteq> []"
proof -
  have bounds: "0 < unat (6250000 :: Frequency)" "unat (525000000 :: Frequency) + unat (6250000 :: Frequency) < 2 ^ 64"
    "unat (56250000 :: Frequency) \<le> unat (525000000 :: Frequency)" by simp_all
  obtain points where p: "ramp_loop bm1370 525000000 6250000 56250000 [] = Some (some_plls bm1370 points)" "points \<noteq> []"
    "hd points = 56250000" "last points = 525000000"
    using ramp_returns [OF bounds, of bm1370] by auto
  have "525000000 \<in> set points" using p(2,4) last_in_set by metis
  then have "some_plls bm1370 points \<noteq> []"
    using default_pll by (force simp: some_plls_def List.map_filter_def filter_empty_conv)
  then show ?thesis using p by blast
qed

section \<open>Measuring\<close>

text \<open>C29: After any recorded history in time order, the hashrate is the work of the shares
  still in the window, at most the capacity's worth of the latest, divided by the whole seconds since the oldest of
  them; that is at most the window's length, by which the doc of the estimator divides.\<close>
theorem estimate_over_elapsed:
  assumes "sorted (map fst hist)" and "\<forall>x \<in> set hist. instant_checked_sub (fst x) d \<noteq> None"
  shows "let kept = (if hist = [] then [] else lastn m (filter (\<lambda>x. fst (last hist) - int d \<le> fst x) hist));
         inw = filter (\<lambda>x. window_cutoff now d \<le> fst x) kept;
         secs = as_secs (duration_since now (fst (hd inw)))
     in fst (hashrate_at now (record_all hist (Estimator_with_limits d n m))) =
          (if inw = [] \<or> secs = 0 then 0 else saturating_to_u64 (sum_list (map snd inw) div of_nat secs)) \<and>
        (inw \<noteq> [] \<longrightarrow> secs \<le> as_secs d)"
  using record_all_hashrate [OF assms, of now n m] windowed_age [OF refl] unfolding Let_def by (intro conjI impI)

theorem estimate_over_elapsed_witness:
  "fst (hashrate_at 20000000000 (record_all [(10000000000, 500), (15000000000, 600)]
     (Estimator_with_limits 6000000000 1 100))) = 120"
proof -
  have "sorted (map fst [(10000000000 :: instant, 500), (15000000000, 600 :: u256)])"
    "\<forall>x \<in> set [(10000000000 :: instant, 500), (15000000000, 600 :: u256)]. instant_checked_sub (fst x) 6000000000 \<noteq> None"
    by (simp_all add: instant_checked_sub_def)
  from estimate_over_elapsed [OF this, of 100 20000000000 1] show ?thesis
    by (simp add: Let_def lastn_def window_cutoff_def instant_checked_sub_def as_secs_def duration_since_def
        saturating_to_u64_def)
qed

section \<open>The chain\<close>

text \<open>C32: Address assignment succeeds exactly when the last address fits a byte; then chip
  \<open>i\<close> has address \<open>i\<close> times the interval, all addresses differ when the interval is not zero, and
  nothing else of the chain changes.\<close>
theorem addresses_assigned:
  "((\<exists>c'. assign_addresses_with_interval k c = Inr c') \<longleftrightarrow>
      ch_chips c = [] \<or> (length (ch_chips c) - 1) * unat k \<le> 255) \<and>
   (assign_addresses_with_interval k c = Inr c' \<longrightarrow>
      length (ch_chips c') = length (ch_chips c) \<and> ch_domains c' = ch_domains c \<and>
      (k \<noteq> 0 \<longrightarrow> distinct (map chip_address (ch_chips c'))) \<and>
      (\<forall>i < length (ch_chips c). unat (chip_address (ch_chips c' ! i)) = i * unat k \<and>
        chip_domain (ch_chips c' ! i) = chip_domain (ch_chips c ! i)))"
  using assign_addresses_Inr_iff assign_addresses_props assign_addresses_distinct by blast

theorem addresses_assigned_witness:
  "\<exists>c c'. from_topology (single_domain 3) = Some c \<and> assign_addresses_with_interval 2 c = Inr c' \<and>
     length (ch_chips c') = 3 \<and> unat (chip_address (ch_chips c' ! 2)) = 4"
proof -
  obtain c where c: "from_topology (single_domain 3) = Some c" "map chip_domain (ch_chips c) = ts_chip_domains (single_domain 3)"
    using from_topology_Some [of "single_domain 3"] by blast
  from c(2) have len: "length (ch_chips c) = 3"
    by (metis length_map length_replicate single_domain_def TopologySpec.select_convs(1))
  then have "length (ch_chips c) - 1 = 2" "ch_chips c \<noteq> []" by auto
  then obtain c' where c': "assign_addresses_with_interval 2 c = Inr c'"
    using addresses_assigned [of 2 c] by auto
  then show ?thesis using c(1) len addresses_assigned [of 2 c c'] by auto
qed

section \<open>The reader\<close>

text \<open>C37: Whatever the interleaving of the reader with its receivers, the nonces and the register
  replies each arrive complete and in the order of the stream, up to what is still held or,
  after the reader stopped, lost with it, and no channel exceeds its capacity.\<close>
theorem reader_routes:
  assumes "reader_run (reader_spawn stream) ls t"
  shows "length (rd_nonces t) \<le> CHANNEL_CAPACITY \<and> length (rd_registers t) \<le> CHANNEL_CAPACITY \<and>
    (\<exists>rest later. good_prefix stream = rest @ later \<and>
       nonces_through t = nonces_of rest \<and> registers_through t = registers_of rest \<and>
       (rd_running t \<longrightarrow> later = held_list t @ good_prefix (rd_stream t)))"
proof -
  from reader_inv_run [OF assms reader_inv_spawn] obtain lost rest where
    r: "good_prefix stream = rest @ lost @ (if rd_running t then held_list t @ good_prefix (rd_stream t) else [])"
    "rd_running t \<longrightarrow> lost = []" "nonces_through t = nonces_of rest" "registers_through t = registers_of rest"
    and cap: "length (rd_nonces t) \<le> CHANNEL_CAPACITY" "length (rd_registers t) \<le> CHANNEL_CAPACITY"
    unfolding reader_inv_def by blast
  have "rd_running t \<longrightarrow> lost @ (if rd_running t then held_list t @ good_prefix (rd_stream t) else []) =
      held_list t @ good_prefix (rd_stream t)"
    using r(2) by simp
  then show ?thesis using r cap by blast
qed

theorem reader_routes_witness:
  "\<exists>t. reader_run (reader_spawn [Inr (RespNonce example_nonce)]) [Pull, Deliver] (t :: unit reader) \<and>
     length (rd_nonces t) \<le> CHANNEL_CAPACITY"
proof -
  let ?s = "reader_spawn [Inr (RespNonce example_nonce)] :: unit reader"
  let ?t = "?s\<lparr>rd_stream := [], rd_held := Some (RespNonce example_nonce)\<rparr>"
  have "reader_step ?s Pull ?t" by (rule pull) (simp_all add: reader_spawn_def)
  moreover have "reader_step ?t Deliver (?t\<lparr>rd_held := None, rd_nonces := rd_nonces ?t @ [example_nonce]\<rparr>)"
    by (rule deliver_nonce) (simp_all add: reader_spawn_def CHANNEL_CAPACITY_def)
  ultimately have "reader_run ?s (([] @ [Pull]) @ [Deliver]) (?t\<lparr>rd_held := None, rd_nonces := rd_nonces ?t @ [example_nonce]\<rparr>)"
    by (intro run_step [OF run_step [OF run_refl]])
  then show ?thesis using reader_routes by (metis append_Nil append_Cons)
qed

section \<open>The scheduler\<close>

text \<open>C4: In every state the scheduler reaches, from its creation and over any
  messages, interleavings and ended streams, every task belongs to a registered source and a
  registered thread, every open share channel to a task, every open event stream to its entry.\<close>
theorem scheduler_tables_consistent:
  assumes "sched_reach ext s"
  shows "sched_inv s"
  using assms by (rule sched_reach_inv)

theorem scheduler_tables_consistent_witness:
  "\<exists>s. slot_keys (sc_threads s) = [4] \<and> sc_outputs s = [ToThread 4 Configure] \<and> sched_inv s"
proof -
  define s where "s = handle_new_thread (0, 4) ''thread'' Scheduler_new"
  have "sched_iteration example_externals example_world \<lparr>es_sources = [], es_threads = [], es_shares = []\<rparr>
      (MsgNewThread (0, 4) ''thread'') Scheduler_new = Some s"
    by (simp add: sched_iteration_def handle_msg_def drop_ended_def s_def Scheduler_new_def
        handle_new_thread_def emit_def Let_def handle_thread_disconnections_def)
  then have "sched_reach example_externals s"
    by (rule sched_step [OF sched_start, rotated 2])
      (simp_all add: drop_ended_def Scheduler_new_def msg_enabled_def)
  then have "sched_inv s" by (rule scheduler_tables_consistent)
  moreover have "slot_keys (sc_threads s) = [4]" "sc_outputs s = [ToThread 4 Configure]"
    by (simp_all add: s_def handle_new_thread_def emit_def Let_def Scheduler_new_def slot_insert_def)
  ultimately show ?thesis by (intro exI [of _ s] conjI)
qed

text \<open>C13: A job with a computed merkle root goes to every thread that has declared a
  hashrate, one request each, in order; the tasks carry the template and slices of the template's
  extranonce range that partition it.\<close>
theorem job_split_over_threads:
  assumes "assign_job_to_threads ext w mode src t s = Some s'" and "jt_merkle_root t = Computed m"
    and "sched_inv s" and "range_inv (mt_extranonce_range m)" and "eligible_thread_ids s \<noteq> []"
  shows "\<exists>slices outs. length slices = length (eligible_thread_ids s) \<and>
    concat (map range_extranonces slices) = range_extranonces (mt_extranonce_range m) \<and>
    sc_outputs s' = sc_outputs s @ outs \<and>
    list_all2 (\<lambda>(th, r) out. \<exists>task. out = ToThread th (mode_request mode task) \<and> task_for ext t r task)
      (zip (eligible_thread_ids s) slices) outs"
  using assms by (rule job_split)

theorem job_split_over_threads_witness:
  "\<exists>s' a b task task'.
     assign_job_to_threads example_externals example_world Replace 1 (example_template (Computed example_merkle))
       example_scheduler = Some s' \<and>
     sc_outputs s' = [ToThread 1 (ReplaceTask task), ToThread 2 (ReplaceTask task')] \<and>
     ht_extranonce_range task = Some a \<and> ht_extranonce_range task' = Some b \<and>
     range_extranonces a @ range_extranonces b = range_extranonces example_range"
proof -
  let ?t = "example_template (Computed example_merkle)"
  have m: "jt_merkle_root ?t = Computed example_merkle" by (simp add: example_template_def)
  have r: "mt_extranonce_range example_merkle = example_range" by (simp add: example_merkle_def)
  obtain s' where s': "assign_job_to_threads example_externals example_world Replace 1 ?t example_scheduler = Some s'"
    using assign_job_None_iff [OF example_decodes m, of example_world Replace 1 example_scheduler]
    by (auto simp: r example_range_len example_eligible example_calm)
  have inv: "range_inv (mt_extranonce_range example_merkle)" unfolding r by (rule example_range_inv)
  have ne: "eligible_thread_ids example_scheduler \<noteq> []" by (simp add: example_eligible)
  have none: "sc_outputs example_scheduler = []" by (simp add: example_scheduler_def Scheduler_new_def)
  from job_split_over_threads [OF s' m example_scheduler_inv inv ne] obtain slices outs where
    len: "length slices = length [1 :: ThreadId, 2]" and cat: "concat (map range_extranonces slices) = range_extranonces example_range"
    and out: "sc_outputs s' = [] @ outs"
    and all: "list_all2 (\<lambda>(th, r) out. \<exists>task. out = ToThread th (mode_request Replace task) \<and>
        task_for example_externals ?t r task) (zip [1, 2] slices) outs"
    unfolding example_eligible r none by (elim exE conjE)
  obtain a b where ab: "slices = [a, b]" using len by (auto simp: length_Suc_conv numeral_2_eq_2)
  from all [unfolded ab] obtain task task' where
    "outs = [ToThread 1 (ReplaceTask task), ToThread 2 (ReplaceTask task')]"
    "ht_extranonce_range task = Some a" "ht_extranonce_range task' = Some b"
    by (auto simp: list_all2_Cons1 task_for_def)
  then show ?thesis using s' cat out ab by auto
qed

text \<open>C20: With a float decoder that decodes, assigning a job panics in exactly two cases: threads and
  the job's source are registered and the check of the difficulty panics, or the template's range holds fewer extranonces than there are
  threads with a declared hashrate.\<close>
theorem assignment_panics_iff:
  assumes "decodes (xe_decode ext)" and "jt_merkle_root t = Computed m"
  shows "assign_job_to_threads ext w mode src t s = None \<longleftrightarrow>
    sc_threads s \<noteq> [] \<and> slot_get src (sc_sources s) \<noteq> None \<and>
      is_difficulty_too_high (xe_difficulty_float ext) (jt_share_target t) (expected_hashrate s) = None \<or>
    range_len (mt_extranonce_range m) < length (eligible_thread_ids s)"
  using assign_job_None_iff [OF assms] unfolding difficulty_panics_def .

theorem assignment_panics_iff_witness:
  "assign_job_to_threads example_externals example_world Update 1
     (example_template (Computed (example_merkle\<lparr>mt_extranonce_range := \<lparr>er_first = 3, er_last = 3, er_width = 1\<rparr>\<rparr>)))
     example_scheduler = None \<and>
   assign_job_to_threads (example_externals\<lparr>xe_difficulty_float := \<lambda>_. Some (2 ^ 60)\<rparr>) example_world Update 1
     (example_template (Computed example_merkle)) example_scheduler = None"
proof
  let ?m = "example_merkle\<lparr>mt_extranonce_range := \<lparr>er_first = 3, er_last = 3, er_width = 1\<rparr>\<rparr>"
  have "jt_merkle_root (example_template (Computed ?m)) = Computed ?m" by (simp add: example_template_def)
  from assignment_panics_iff [OF example_decodes this]
  show "assign_job_to_threads example_externals example_world Update 1 (example_template (Computed ?m)) example_scheduler = None"
    by (simp add: example_eligible range_len_def)
next
  let ?x = "example_externals\<lparr>xe_difficulty_float := \<lambda>_. Some (2 ^ 60)\<rparr>"
  have dec: "decodes (xe_decode ?x)" using example_decodes by simp
  have m: "jt_merkle_root (example_template (Computed example_merkle)) = Computed example_merkle"
    by (simp add: example_template_def)
  have some: "sc_threads example_scheduler \<noteq> [] \<and> slot_get 1 (sc_sources example_scheduler) \<noteq> None"
    by (simp add: example_scheduler_def Scheduler_new_def slot_get_def)
  have "is_difficulty_too_high (xe_difficulty_float ?x) target (expected_hashrate example_scheduler) = None" for target
    using example_too_difficult by simp
  then show "assign_job_to_threads ?x example_world Update 1 (example_template (Computed example_merkle)) example_scheduler = None"
    unfolding assignment_panics_iff [OF dec m] using some by blast
qed

text \<open>C18: After a ReplaceJob with a computed merkle root every task of that source
  carries the new template, and the tasks of other sources are exactly those from before.\<close>
theorem replacement_leaves_no_old_task:
  assumes "assign_job_to_threads ext w Replace src t s = Some s'" and "jt_merkle_root t = Computed m"
    and "sched_inv s"
  shows "((k, e) \<in> set (sc_tasks s') \<longrightarrow> tk_source_id e = src \<longrightarrow> tk_template e = t) \<and>
    (tk_source_id e \<noteq> src \<longrightarrow> ((k, e) \<in> set (sc_tasks s') \<longleftrightarrow> (k, e) \<in> set (sc_tasks s)))"
  using replace_job_tasks [OF assms] by blast

theorem replacement_leaves_no_old_task_witness:
  "\<exists>s'. assign_job_to_threads example_externals example_world Replace 1 (example_template (Computed example_merkle))
       example_scheduler = Some s' \<and>
     (7, \<lparr>tk_source_id = 1, tk_template = example_template (Fixed []), tk_thread_id = 2\<rparr>) \<in> set (sc_tasks example_scheduler) \<and>
     (7, \<lparr>tk_source_id = 1, tk_template = example_template (Fixed []), tk_thread_id = 2\<rparr>) \<notin> set (sc_tasks s')"
proof -
  let ?t = "example_template (Computed example_merkle)"
  let ?e = "\<lparr>tk_source_id = 1, tk_template = example_template (Fixed []), tk_thread_id = 2\<rparr>"
  have m: "jt_merkle_root ?t = Computed example_merkle" by (simp add: example_template_def)
  obtain s' where s': "assign_job_to_threads example_externals example_world Replace 1 ?t example_scheduler = Some s'"
    using assign_job_None_iff [OF example_decodes m, of example_world Replace 1 example_scheduler]
    by (auto simp: example_merkle_def example_range_len example_eligible example_calm)
  have "(7, ?e) \<in> set (sc_tasks example_scheduler)" by (simp add: example_scheduler_def)
  moreover have "(7, ?e) \<notin> set (sc_tasks s')"
  proof
    assume "(7, ?e) \<in> set (sc_tasks s')"
    then have "tk_template ?e = ?t"
      using replacement_leaves_no_old_task [OF s' m example_scheduler_inv, of 7 ?e] by simp
    then show False by (simp add: example_template_def)
  qed
  ultimately show ?thesis using s' by blast
qed

text \<open>C19: After any sequence of registrations, first reports, the end of the enumeration
  and timeouts, the startup gate holds exactly if at no point so far it should have opened: by a
  timeout, or by a report or the end of the enumeration with the enumeration complete and
  a report for every registered thread.\<close>
theorem gate_opens_as_specified:
  "is_holding (fold gate_step es StartupGate_new) \<longleftrightarrow> gate_should_hold es"
  by (rule gate_run_holding)

text \<open>C17: A share of a known task reaches the source of that task under the task's job id exactly
  when its hash meets that source's own target and the source is registered; nothing else is sent.
  A share of a task that is gone changes nothing.\<close>
theorem share_routing:
  "case slot_get i (sc_tasks s) of
     None \<Rightarrow> handle_share ext now i share s = s
   | Some e \<Rightarrow> sc_outputs (handle_share ext now i share s) = sc_outputs s @
       (if x_is_met_by (xe_bitcoin ext) (jt_share_target (tk_template e)) (sh_hash share) \<and>
           tk_source_id e \<in> set (slot_keys (sc_sources s))
        then [ToSource (tk_source_id e) (SubmitShare (SourceShare_from share (jt_id (tk_template e))))] else [])"
proof (cases "slot_get i (sc_tasks s)")
  case None
  then show ?thesis by (simp add: handle_share_unknown)
next
  case (Some e)
  then show ?thesis by (simp only: option.case handle_share_outputs [OF Some])
qed

text \<open>C38: When a thread's event stream ends in the iteration that registers another thread,
  the dead thread stays registered although its stream is gone, and the disconnection check of
  the following iterations sees nothing to do.\<close>
theorem dead_thread_missed:
  assumes "th \<in> set (slot_keys (sc_threads s))" and "th \<in> set (es_threads es)" and "snd slot \<noteq> th"
    and "sched_iteration ext w es (MsgNewThread slot name) s = Some s'"
  shows "th \<in> set (slot_keys (sc_threads s')) \<and> th \<notin> set (sc_thread_events s') \<and>
    handle_thread_disconnections s' = s'"
  using dead_thread_kept [OF assms] by blast

theorem dead_thread_missed_witness:
  "\<exists>s'. sched_iteration example_externals example_world \<lparr>es_sources = [], es_threads = [2], es_shares = []\<rparr>
      (MsgNewThread (0, 3) ''thread'') example_scheduler = Some s' \<and>
    2 \<in> set (slot_keys (sc_threads s')) \<and> 2 \<notin> set (sc_thread_events s')"
proof -
  obtain s' where s': "sched_iteration example_externals example_world \<lparr>es_sources = [], es_threads = [2], es_shares = []\<rparr>
      (MsgNewThread (0, 3) ''thread'') example_scheduler = Some s'"
    by (simp add: sched_iteration_def handle_msg_def)
  have "2 \<in> set (slot_keys (sc_threads example_scheduler))" by (simp add: example_scheduler_def)
  from dead_thread_missed [OF this _ _ s'] show ?thesis using s' by auto
qed

section \<open>The pool\<close>

text \<open>C2: A nonce for a task made of a pool's job becomes a share whose submission, read by the
  pool, gives back a header with the share's hash, which meets the task's target, as long as the
  rolled version bits are within the mask the pool allows. The hash thread does not check that:
  with a bit outside the mask the share goes out all the same, and the pool's header has another
  version than the one hashed.\<close>
theorem pool_recomputes_share:
  assumes "hex_laws hex" and "sv_state s = Some state" and "job_to_template ext job s = Inr (ht_template task)"
    and "tracker_get (nr_job_id r) (ac_chip_jobs a) = Some task"
    and "ac_shares (handle_nonce btc r a) = ac_shares a @ [(ch, share)]"
  shows "\<exists>p h. share_to_submit_params (SourceShare_from share (jt_id (ht_template task))) s = Inr p \<and>
    sp_job_id p = jn_job_id job \<and>
    pool_header btc hex job (sps_extranonce1 state) (sps_version_mask state) (to_stratum_json hex p) = Some h \<and>
    (rolled_within (sps_version_mask state) (nr_version r) \<longrightarrow>
       x_block_hash btc h = sh_hash share \<and> x_is_met_by btc (ht_share_target task) (x_block_hash btc h)) \<and>
    (\<not> rolled_within (sps_version_mask state) (nr_version r) \<longrightarrow> bh_version h \<noteq> sh_version share)"
  using assms by (rule nonce_to_pool)

theorem pool_recomputes_share_witness:
  "\<exists>share p h share' p' h'.
     ac_shares (handle_nonce example_bitcoin (example_nonce\<lparr>nr_version := GP_full\<rparr>)
       (example_pool_actor (Some 0x1fffe000))) = [(7, share)] \<and>
     pool_header example_bitcoin hex_ref example_notification [2] (Some 0x1fffe000) (to_stratum_json hex_ref p) = Some h \<and>
     x_block_hash example_bitcoin h = sh_hash share \<and>
     ac_shares (handle_nonce example_bitcoin (example_nonce\<lparr>nr_version := GP_full\<rparr>) (example_pool_actor None)) =
       [(7, share')] \<and>
     pool_header example_bitcoin hex_ref example_notification [2] None (to_stratum_json hex_ref p') = Some h' \<and>
     bh_version h' \<noteq> sh_version share'"
proof -
  let ?r = "example_nonce\<lparr>nr_version := GP_full\<rparr>"
  let ?task = "\<lambda>m. example_task\<lparr>ht_template := example_pool_template m\<rparr>"
  have st: "sv_state (example_stratum m) = Some (example_stratum_state m)" for m by (simp add: example_stratum_def)
  have tmpl: "job_to_template example_source_ext example_notification (example_stratum m) = Inr (ht_template (?task m))" for m
    by (simp add: example_pool_template)
  have task: "tracker_get (nr_job_id ?r) (ac_chip_jobs (example_pool_actor m)) = Some (?task m)" for m
    by (simp add: example_pool_actor_def first_insert example_nonce_def)
  have none: "ac_shares (example_pool_actor m) = []" for m by (simp add: example_pool_actor_def example_actor_def)
  obtain s1 s2 where s: "ac_shares (handle_nonce example_bitcoin ?r (example_pool_actor (Some 0x1fffe000))) =
      ac_shares (example_pool_actor (Some 0x1fffe000)) @ [(7, s1)]"
    "ac_shares (handle_nonce example_bitcoin ?r (example_pool_actor None)) = ac_shares (example_pool_actor None) @ [(7, s2)]"
    using example_pool_share by meson
  have in_mask: "rolled_within (Some 0x1fffe000) GP_full" and out: "\<not> rolled_within None GP_full" by code_simp+
  have r: "nr_version ?r = GP_full" by simp
  have state: "sps_extranonce1 (example_stratum_state m) = [2]" "sps_version_mask (example_stratum_state m) = m" for m
    by (simp_all add: example_stratum_state_def)
  note pool = pool_recomputes_share [OF hex_laws_ref st tmpl task, unfolded state r]
  obtain p h where "pool_header example_bitcoin hex_ref example_notification [2] (Some 0x1fffe000) (to_stratum_json hex_ref p) = Some h"
    "x_block_hash example_bitcoin h = sh_hash s1"
    using pool [OF s(1)] in_mask by blast
  moreover obtain p' h' where "pool_header example_bitcoin hex_ref example_notification [2] None (to_stratum_json hex_ref p') = Some h'"
    "bh_version h' \<noteq> sh_version s2"
    using pool [OF s(2)] out by blast
  ultimately show ?thesis
    using s unfolding none append_Nil
    by (intro exI [of _ s1] exI [of _ p] exI [of _ h] exI [of _ s2] exI [of _ p'] exI [of _ h'] conjI)
qed

text \<open>C6: In every reachable state with a connection, the suggestions sent to its client as
  commands are at least the minimal interval apart; of all difficulties suggested on the connection, the one of the client's handshake
  first, each is a material change of the one before; and when no cooldown runs the last suggestion is up to date with
  the hashrate. The handshake's suggestion starts no cooldown: the first command may follow it at once.\<close>
theorem suggestions_throttled:
  assumes "source_reach ext config now r" and "suggests_floats ext" and "on_connection (sr_phase r)"
  shows "sorted_wrt (\<lambda>t u. t + int SUGGEST_MIN_INTERVAL \<le> u) (command_suggestion_times (sr_source r)) \<and>
    successively (\<lambda>d e. is_material_change e (Some d)) (connection_suggestions (sr_source r)) \<and>
    (sv_cooldown_until (sr_source r) = None \<longrightarrow> \<not> suggestion_due ext (sr_source r))"
  using reach_throttled [OF assms] reach_material [OF assms(1)] by (simp add: throttled_def spaced_def)

theorem suggestions_throttled_witness:
  "\<exists>r. source_reach two_difficulties example_pool 5000000000 r \<and>
     connection_suggestions (sr_source r) = [1, 2, 1] \<and> command_suggestion_times (sr_source r) = [0, 5000000000] \<and>
     (0 :: int) + int SUGGEST_MIN_INTERVAL \<le> 5000000000 \<and> is_material_change 2 (Some 1) \<and> is_material_change 1 (Some 2)"
proof -
  obtain r where r: "source_reach two_difficulties example_pool 5000000000 r" "on_connection (sr_phase r)"
    "connection_suggestions (sr_source r) = [1, 2, 1]" "command_suggestion_times (sr_source r) = [0, 5000000000]"
    using example_suggestions by blast
  from suggestions_throttled [OF r(1) two_difficulties_values(3) r(2)] show ?thesis
    using r by (intro exI [of _ r]) simp
qed

text \<open>C7: While the source waits to reconnect, the last it told the scheduler is to drop its jobs, and a new
  connection starts without protocol state.\<close>
theorem dead_connection_work_dropped:
  assumes "source_reach ext config now r" and "\<forall>n. se_event_ok ext n"
  shows "case sr_phase r of
      BackingOff _ \<Rightarrow> last (sv_events (sr_source r)) = ClearJobs
    | Connecting _ \<Rightarrow> sv_state (sr_source r) = None \<and>
        (sv_events (sr_source r) = [] \<or> last (sv_events (sr_source r)) = ClearJobs)
    | AwaitingHashRate \<Rightarrow> sv_events (sr_source r) = []
    | _ \<Rightarrow> True"
  using reach_work_dropped [OF assms] by (simp add: work_dropped_def)

theorem dead_connection_work_dropped_witness:
  "\<exists>r. source_reach example_source_ext example_pool 0 r \<and> last (sv_events (sr_source r)) = ClearJobs"
proof -
  obtain r u where r: "source_reach example_source_ext example_pool 0 r" "sr_phase r = BackingOff u"
    using example_failed by blast
  have "\<forall>n. se_event_ok example_source_ext n" by (simp add: example_source_ext_def)
  from dead_connection_work_dropped [OF r(1) this] r show ?thesis by auto
qed

text \<open>C5: From every reachable state the run takes any input without a panic, provided the pool's difficulties are
  floats, and when it starts to wait for a reconnection it waits between half a second and a minute.\<close>
theorem source_never_panics:
  assumes "source_reach ext config now r" and "decodes (se_decode ext)" and "float_input i"
  shows "\<exists>r'. source_step ext now i r = Some r' \<and>
    (\<forall>until. sr_phase r' = BackingOff until \<longrightarrow> sr_phase r \<noteq> BackingOff until \<longrightarrow>
       now + 500000000 \<le> until \<and> until \<le> now + 60000000000)"
proof -
  obtain k where k: "backoff_at k (sr_backoff r)" using reach_backoff [OF assms(1)] by blast
  obtain r' where "source_step ext now i r = Some r'" using source_step_Some [OF assms(2) k assms(3)] by blast
  then show ?thesis using source_step_backoff [OF k] by fastforce
qed

theorem source_never_panics_witness:
  "\<exists>r r'. sr_phase r = Connecting 0 \<and> source_step example_source_ext 0 (InEvent (DifficultyChanged 0)) r = Some r'"
proof -
  obtain r where r: "source_reach example_source_ext example_pool 0 r" "sr_phase r = Connecting 0"
    using example_connecting by blast
  have "float_input (InEvent (DifficultyChanged 0))" by simp
  from source_never_panics [OF r(1) example_source_decodes this] r(2) show ?thesis by blast
qed

text \<open>C24: The job a pool writes into a notification is the job the client reads from it, whatever follows in
  the message, and the pool reads from a submission what the source put into it.\<close>
theorem pool_messages_round_trip:
  assumes "hex_laws hex" and "wf_job job"
  shows "from_stratum_params hex (notify_params hex job @ extra) = Inr job \<and>
    submission_fields hex (to_stratum_json hex p) =
      Some (sp_username p, sp_job_id p, sp_extranonce2 p, sp_ntime p, sp_nonce p, sp_version_bits p)"
  using assms from_stratum_params_notify submission_fields_submit by blast

theorem pool_messages_round_trip_witness:
  "from_stratum_params hex_ref (notify_params hex_ref example_notification @ [JNull]) = Inr example_notification"
proof -
  have "wf_job example_notification" by (simp add: wf_job_def example_notification_def)
  from pool_messages_round_trip [OF hex_laws_ref this] show ?thesis by blast
qed

text \<open>C25: However the bytes of a stream of messages are cut into arrivals, a reader that is not disturbed yields
  exactly these messages and nothing is left over.\<close>
theorem line_stream_read:
  assumes "list_all (text_laws tx) msgs" and "list_all (fits_line tx) msgs" and "length msgs < n"
    and "concat chunks = wire tx msgs"
  shows "read_chunks n tx chunks connection_new = (map (Inr \<circ> Some) msgs, connection_new)"
  using read_chunks_wire_part [OF assms(1-3), of "[]" chunks] assms(4) by (simp add: connection_new_def)

theorem line_stream_read_witness:
  "let msg = Request None ''mining.ping'' JNull
   in read_chunks 3 (example_text msg) [[0x7b], [0x7d, 10, 0x7b, 0x7d], [10]] connection_new =
     ([Inr (Some msg), Inr (Some msg)], connection_new)"
proof -
  let ?msg = "Request None ''mining.ping'' JNull"
  have "text_laws (example_text ?msg) ?msg"
    by (simp add: text_laws_def example_text_def encode_message_def newline_def)
  moreover have "fits_line (example_text ?msg) ?msg"
    by (simp add: fits_line_def example_text_def encode_message_def MAX_MESSAGE_LEN_def)
  ultimately show ?thesis
    using line_stream_read [of "example_text ?msg" "[?msg, ?msg]" 3 "[[0x7b], [0x7d, 10, 0x7b, 0x7d], [10]]"]
    by (simp add: wire_def encode_message_def example_text_def newline_def)
qed

section \<open>The control channel\<close>

text \<open>C39: The decoder yields a reply exactly when the buffer starts with a frame of that reply
  within the length limit, and leaves what follows it. Behind the length (of the data in the first format, of the
  whole frame in the second) stands the reply's id. In the first format all that follows is data and there are no errors; in
  the second a status follows: with the status of success all that follows is data, with an error code the reply has no data, and
  what follows is the message of a custom error.\<close>
theorem reply_decoded_exactly:
  "control_decode format src = Some (Inr (Some r), rest) \<longleftrightarrow>
     (\<exists>len body. src = u16_to_le len @ body @ rest \<and> packet_size format len = 2 + length body \<and>
        2 + length body \<le> MAX_LENGTH \<and>
        (case cr_error r of
           None \<Rightarrow> body = (case format of V0 \<Rightarrow> [cr_id r] | V1 \<Rightarrow> [cr_id r, STATUS_OK]) @ cr_data r
         | Some e \<Rightarrow> format = V1 \<and> cr_data r = [] \<and> take 2 body = [cr_id r, ErrorCode_repr (re_code e)] \<and>
             re_message e = (if re_code e = Custom \<and> drop 2 body \<noteq> [] then Some (drop 2 body) else None)))"
  using control_decode_reply_iff [of format src r rest] unfolding Control_Protocol.reply_bytes_def .

theorem reply_decoded_exactly_witness:
  "control_decode V1 [6, 0, 7, 0xff, 0x68, 0x69, 3, 0] =
     Some (Inr (Some \<lparr>cr_id = 7, cr_data = [], cr_error = Some \<lparr>re_code = Custom, re_message = Some [0x68, 0x69]\<rparr>\<rparr>), [3, 0])"
  unfolding reply_decoded_exactly
  by (intro exI [of _ 6] exI [of _ "[7, 0xff, 0x68, 0x69]"])
    (simp add: u16_to_le_def u16_to_be_def packet_size_def MAX_LENGTH_def)

text \<open>C40: When the reply to a request misses its deadline and arrives later, the channel takes it
  for the reply to the next request, and from then on every request fails with a wrong id although
  the device answers each of them in time.\<close>
theorem late_reply_desync:
  assumes "fits p" "fits q" "list_all fits ps" and "\<forall>n. cw_send_ok env n" and "in_sync s" and "answers_with reply"
    and "n = length (cc_sent s)"
    and "cw_arrives env n = []" and "\<not> cw_closed env n"
    and "cw_arrives env (Suc n) = [Inr (reply n), Inr (reply (Suc n))]"
    and "\<forall>m \<ge> Suc (Suc n). cw_arrives env m = [Inr (reply m)]"
  shows "\<exists>i j rest. fst (run_requests env (p # q # ps) s) =
      Inl CommandTimeout # Inl (IdMismatch i j) # rest \<and> list_all (\<lambda>r. \<exists>i j. r = Inl (IdMismatch i j)) rest"
  using assms by (rule late_reply_kept)

theorem late_reply_desync_witness:
  "\<exists>i j rest. fst (run_requests late_reply_world (replicate 2 (Packet_new GPIO 1 []) @ replicate 9 (Packet_new ADC 0x50 [])) channel_new) =
      Inl CommandTimeout # Inl (IdMismatch i j) # rest \<and> list_all (\<lambda>r. \<exists>i j. r = Inl (IdMismatch i j)) rest"
proof -
  let ?p = "Packet_new GPIO 1 []"
  have "fits ?p" "list_all fits (replicate 9 (Packet_new ADC 0x50 []))"
    by (simp_all add: fits_def Packet_new_def list_all_length)
  then show ?thesis
    using late_reply_desync [of ?p ?p "replicate 9 (Packet_new ADC 0x50 [])" late_reply_world channel_new
        "\<lambda>n. \<lparr>cr_id = of_nat n, cr_data = [], cr_error = None\<rparr>" 0] in_sync_new
    by (simp add: late_reply_world_def answers_with_def channel_new_def numeral_2_eq_2)
qed

section \<open>The power converter\<close>

text \<open>C33: Every value a register can hold is written back as itself. A float in the range of
  the format is encoded as the nearest value the format has, unless it lies in the top half unit below
  1024 times a power of two: there the mantissa rounds up to 1024, which is packed as minus 1024, and
  the register holds a value of the wrong sign.\<close>
theorem slinear11_nearest:
  assumes "f32 v = v" and "- 1024 * 2 powi 15 \<le> v" and "v < 1024 * 2 powi 15"
  shows "(\<forall>w. linear11_to_float (linear11_from_float (linear11_to_float w)) = linear11_to_float w) \<and>
    ((\<forall>k. \<not> in_gap v k) \<longrightarrow> (\<forall>w. \<bar>linear11_to_float (linear11_from_float v) - v\<bar> \<le> \<bar>linear11_to_float w - v\<bar>)) \<and>
    (\<forall>k. in_gap v k \<longrightarrow> linear11_to_float (linear11_from_float v) = - 1024 * 2 powi k)"
  using linear11_round_trip linear11_nearest [OF assms] linear11_gap [OF assms(1)] by blast

theorem slinear11_nearest_witness:
  "(\<forall>w. \<bar>linear11_to_float (linear11_from_float 12) - 12\<bar> \<le> \<bar>linear11_to_float w - 12\<bar>) \<and>
    linear11_to_float (linear11_from_float (2047 / 2)) = - 1024"
proof -
  have "\<not> in_gap 12 k" for k
  proof (cases "k \<le> - 7")
    case True
    then have "(2::rat) powi k \<le> 2 powi (- 7)" by (rule powi_2_mono)
    then show ?thesis by (simp add: in_gap_def power_int_minus)
  next
    case False
    then have "(2::rat) powi (- 6) \<le> 2 powi k" by (intro powi_2_mono) simp
    then show ?thesis by (simp add: in_gap_def power_int_minus)
  qed
  moreover have "f32 12 = 12" "f32 (2047 / 2) = 2047 / 2"
    using fl_exact_abs [of 12 24 0] fl_exact_abs [of 2047 24 "- 1"] by (simp_all add: power_int_minus)
  moreover have "in_gap (2047 / 2) 0" by (simp add: in_gap_def)
  ultimately show ?thesis
    using slinear11_nearest [of 12] slinear11_nearest [of "2047 / 2"] by fastforce
qed

text \<open>C34: Bring-up asks the device for its identity first and writes nothing to a device
  that does not answer or is not one of the three known. Otherwise the first write switches the output
  off, and whatever the device answers afterwards no later write of bring-up switches it on.\<close>
theorem converter_configured_off:
  "case iv_reply dev (tp_i2c s @ [BusWriteRead 0x24 [0xad] 7]) of
     Inl e \<Rightarrow>
       tps546_init (logged_i2c dev) c s = (Inl (BusFailed e), s\<lparr>tp_i2c := tp_i2c s @ [BusWriteRead 0x24 [0xad] 7]\<rparr>)
   | Inr f \<Rightarrow>
       if map f [1..<7] \<notin> {DEVICE_ID1, DEVICE_ID2, DEVICE_ID3}
       then tps546_init (logged_i2c dev) c s = (Inl DeviceIdMismatch, s\<lparr>tp_i2c := tp_i2c s @ [BusWriteRead 0x24 [0xad] 7]\<rparr>)
       else \<exists>ts. tp_i2c (snd (tps546_init (logged_i2c dev) c s)) =
           tp_i2c s @ [BusWriteRead 0x24 [0xad] 7] @ BusWrite 0x24 [0x01, 0x00] # ts \<and> list_all keeps_off ts"
  using tps546_init_logged [where dev = dev and s = s and c = c] unfolding append_assoc append_Cons append_Nil .

section \<open>Software mining\<close>

text \<open>C35: Whatever the software hash thread is told and whenever, if its tasks are made of a
  pool's job, every share it sends is one of a task it was given, meets that task's target, and from its
  submission the pool recomputes the very header that was hashed, whatever version mask was negotiated.\<close>
theorem software_shares_recomputed:
  assumes "hex_laws hex" and "sv_state s = Some state"
    and "\<And>task. task \<in> commanded looks \<Longrightarrow> job_to_template ext job s = Inr (ht_template task)"
    and "(ch, share) \<in> set (mi_sent (snd (run_mining_loop btc duty start looks)))"
  shows "\<exists>task p h. task \<in> commanded looks \<and> ch = ht_share_tx task \<and>
    share_to_submit_params (SourceShare_from share (jt_id (ht_template task))) s = Inr p \<and>
    pool_header btc hex job (sps_extranonce1 state) (sps_version_mask state) (to_stratum_json hex p) = Some h \<and>
    x_block_hash btc h = sh_hash share \<and> x_is_met_by btc (ht_share_target task) (sh_hash share)"
proof -
  have "miner_inv btc (commanded looks) (snd (run_mining_loop btc duty start looks))"
    unfolding run_mining_loop_def by (rule miner_inv_run) (simp_all add: miner_inv_new)
  then obtain task where task: "task \<in> commanded looks" "share_of_task btc task (ch, share)"
    using assms(4) by (auto simp: miner_inv_def)
  then show ?thesis
    using software_share_to_pool [OF assms(1,2) assms(3) [OF task(1)] task(2)] by (auto simp: share_of_task_def)
qed

theorem software_shares_recomputed_witness:
  "\<exists>share p h. (7, share) \<in> set (mi_sent (snd (run_mining_loop example_bitcoin 50 0 (example_looks None)))) \<and>
    pool_header example_bitcoin hex_ref example_notification [2] None (to_stratum_json hex_ref p) = Some h \<and>
    x_block_hash example_bitcoin h = sh_hash share"
proof -
  have st: "sv_state (example_stratum None) = Some (example_stratum_state None)" by (simp add: example_stratum_def)
  have tmpl: "job_to_template example_source_ext example_notification (example_stratum None) = Inr (ht_template task)"
    if "task \<in> commanded (example_looks None)" for task
    using that by (auto simp: commanded_def example_looks_def example_look_def example_pool_template)
  obtain share where share: "(7, share) \<in> set (mi_sent (snd (run_mining_loop example_bitcoin 50 0 (example_looks None))))"
    using example_software_share by blast
  have state: "sps_extranonce1 (example_stratum_state None) = [2]" "sps_version_mask (example_stratum_state None) = None"
    by (simp_all add: example_stratum_state_def)
  from software_shares_recomputed [OF hex_laws_ref st tmpl share] obtain p h where
    "pool_header example_bitcoin hex_ref example_notification [2] None (to_stratum_json hex_ref p) = Some h"
    "x_block_hash example_bitcoin h = sh_hash share"
    unfolding state by blast
  with share show ?thesis by blast
qed

text \<open>C36: In a cycle that is not disturbed the software thread tries nonce after nonce, one at each look, and
  sends exactly those that make shares, in order; when the working time is over it stops hashing
  before another ten thousand nonces.\<close>
theorem software_cycle:
  assumes "mi_current_task m = Some task" and "mi_cached_merkle_root m = Some merkle_root"
    and "list_all (quiet work start) looks"
    and "list_all (\<lambda>look. millis work \<le> duration_since (lk_now look) start) late" and "length late = 10000"
  shows "let (phase, m') = fold (miner_step btc work) looks (InCycle start, m)
    in phase = InCycle start \<and>
       mi_sent m' = mi_sent m @ map (Pair (ht_share_tx task)) (shares_of btc task merkle_root (mi_nonce m) (length looks)) \<and>
       (\<exists>i \<le> 10000. fst (fold (miner_step btc work) (take i late) (phase, m')) \<noteq> InCycle start)"
proof -
  let ?m = "(hash_nonce btc ^^ length looks) m"
  have run: "fold (miner_step btc work) looks (InCycle start, m) = (InCycle start, ?m)" by (rule quiet_cycle [OF assms(3)])
  have "until_clock (mi_hashes_computed ?m) < length late"
    using until_clock_bound [of "mi_hashes_computed ?m"] assms(5) by linarith
  then have "\<exists>i \<le> 10000. fst (fold (miner_step btc work) (take i late) (InCycle start, ?m)) \<noteq> InCycle start"
    using cycle_ends_by [OF assms(4)] assms(5) by metis
  then show ?thesis unfolding run using hash_nonce_run [OF assms(1,2), where btc = btc and k = "length looks"] by (simp add: Let_def)
qed

theorem software_cycle_witness:
  "\<exists>share m' i. fold (miner_step example_bitcoin 500) [example_look [] 0] (InCycle 0, example_miner) = (InCycle 0, m') \<and>
    mi_sent m' = [(7, share)] \<and>
    fst (fold (miner_step example_bitcoin 500) (take i (replicate 10000 (example_look [] 500000000))) (InCycle 0, m')) \<noteq> InCycle 0"
proof -
  obtain mr where mr: "mi_cached_merkle_root example_miner = Some mr" using example_miner_root by blast
  have task: "mi_current_task example_miner = Some (example_task\<lparr>ht_template := example_pool_template None\<rparr>)"
    by (simp add: example_miner_def take_task_def update_status_def Let_def)
  have looks: "list_all (quiet 500 0) [example_look [] 0]"
    "list_all (\<lambda>look. millis 500 \<le> duration_since (lk_now look) 0) (replicate 10000 (example_look [] 500000000))"
    "length (replicate 10000 (example_look [] 500000000)) = 10000"
    by (simp_all add: quiet_def example_look_def millis_def duration_since_def list_all_length)
  obtain m' where run: "fold (miner_step example_bitcoin 500) [example_look [] 0] (InCycle 0, example_miner) = (InCycle 0, m')"
    using quiet_cycle [OF looks(1), of example_bitcoin example_miner] by blast
  have one: "\<exists>share. shares_of example_bitcoin t r n (length [example_look [] 0]) = [share]" for t r n
    by (simp add: shares_of_def try_nonce_def example_bitcoin_def Let_def List.map_filter_simps)
  then obtain share where share: "shares_of example_bitcoin (example_task\<lparr>ht_template := example_pool_template None\<rparr>) mr
      (mi_nonce example_miner) (length [example_look [] 0]) = [share]" by blast
  have tx: "ht_share_tx (example_task\<lparr>ht_template := example_pool_template None\<rparr>) = 7" by (simp add: example_task_def)
  have none: "mi_sent example_miner = []" by (simp add: example_miner_def take_task_def update_status_def miner_new_def Let_def)
  note cycle = software_cycle [OF task mr looks, of example_bitcoin, unfolded run prod.case Let_def none tx share list.map append_Nil]
  show ?thesis by (rule exI [of _ share], rule exI [of _ m']) (use run cycle in blast)
qed

section \<open>Boards\<close>

text \<open>C8: From bring-up on, the monitor of a Bitaxe fails exactly when the last three readings of
  the chip's temperature were bad, each a failed read, a negative value or at least 80 degrees with the chip out
  of reset for longer than the diode takes to settle; and it never lets three bad readings in a row pass before.\<close>
theorem thermal_cutout:
  "let s = monitor_run io serial inputs (snd (bitaxe_attach io (bitaxe_new i2c)))
   in (bx_ended s = Some MonitorFailed \<longleftrightarrow> trips (bx_readings s)) \<and>
      (\<forall>k<length (bx_readings s). \<not> trips (take k (bx_readings s)))"
  using thermal_inv_run [OF thermal_inv_attached [of io i2c], of io serial inputs]
  by (simp add: Let_def thermal_inv_def trips_iff not_le)

theorem thermal_cutout_witness:
  "bx_ended (monitor_run silent_io None hot_inputs (snd (bitaxe_attach silent_io (bitaxe_new [])))) = Some MonitorFailed"
proof -
  obtain a b c where r: "bx_readings (monitor_run silent_io None hot_inputs (snd (bitaxe_attach silent_io (bitaxe_new [])))) =
     [] @ [(True, Inl a), (True, Inl b), (True, Inl c)]"
    using hot_readings by (metis append_Nil)
  have "trips (bx_readings (monitor_run silent_io None hot_inputs (snd (bitaxe_attach silent_io (bitaxe_new [])))))"
    unfolding trips_def r by (intro exI conjI) (rule refl, simp_all add: bad_reading_def)
  then show ?thesis using thermal_cutout [of silent_io None hot_inputs "[]"] by (simp add: Let_def)
qed

text \<open>C9: However a Bitaxe's monitor ends, by cancellation or by an emergency, whatever failed on the bus and
  whatever the hash thread did meanwhile, the last level ordered for the reset pin is low, and the last order the
  power converter is given is to switch off: after it come only the read back and the fan's speed.\<close>
theorem stopped_board_off:
  assumes "logged_io dev io" and "s = monitor_run io serial inputs (snd (bitaxe_attach io (bitaxe_new [])))"
    and "bx_ended s \<noteq> None"
  shows "last (bx_pin_orders s) = False \<and>
    (\<exists>pre post. bus_log s = pre @ BusWrite 0x24 [0x01, 0x00] # post \<and>
       set post \<subseteq> {BusWriteRead 0x24 [0x01] 1, BusWrite 0x4c [0x4c, Percent_of 25 PWM_MAX]})"
proof -
  have "bx_ended (snd (bitaxe_attach io (bitaxe_new []))) = None"
    using view_attach [of io "bitaxe_new []"] by (simp add: monitor_view_def bitaxe_new_def)
  from ended_board_off [OF assms(1) this] assms(2,3) show ?thesis by (simp add: board_off_def)
qed

theorem stopped_board_off_witness:
  "last (bx_pin_orders (monitor_run silent_io None [MonitorCancel []] (snd (bitaxe_attach silent_io (bitaxe_new []))))) = False"
proof -
  have "bx_ended (snd (bitaxe_attach silent_io (bitaxe_new []))) = None"
    using view_attach [of silent_io "bitaxe_new []"] by (simp add: monitor_view_def bitaxe_new_def)
  then have "bx_ended (monitor_run silent_io None [MonitorCancel []] (snd (bitaxe_attach silent_io (bitaxe_new [])))) \<noteq> None"
    by (simp add: Let_def)
  moreover obtain dev where "logged_io dev silent_io" using silent_logged by blast
  ultimately show ?thesis using stopped_board_off [OF _ refl] by blast
qed

text \<open>C31: In whatever order the linker registers the board descriptors, a device that matches the
  pattern of one of them is given to that board and no other.\<close>
theorem board_selected:
  assumes "mset registered = mset registered_boards" and "d \<in> set registered_boards"
    and "BoardPattern_matches lib (bd_pattern d) device"
  shows "find_descriptor lib registered device = Some d \<and>
    (\<forall>e\<in>set registered. BoardPattern_matches lib (bd_pattern e) device \<longrightarrow> e = d)"
proof
  show "find_descriptor lib registered device = Some d" by (rule registered_selection [OF assms])
  have "set registered = set registered_boards" using mset_eq_setD [OF assms(1)] .
  then show "\<forall>e\<in>set registered. BoardPattern_matches lib (bd_pattern e) device \<longrightarrow> e = d"
    using registered_exclusive [OF assms(2) _ assms(3)] by blast
qed

theorem board_selected_witness:
  "find_descriptor plain_text (rev registered_boards) example_usb = Some bitaxe_raw_descriptor"
proof -
  have "BoardPattern_matches plain_text (bd_pattern bitaxe_raw_descriptor) example_usb"
    unfolding registered_matches by (simp add: example_usb_def)
  then show ?thesis
    using board_selected [of "rev registered_boards" bitaxe_raw_descriptor plain_text example_usb] by simp
qed

section \<open>Transports and backplane\<close>

text \<open>C30: Whatever the hotplug watch reports and whenever a send fails, the USB monitor never announces a
  disconnection of a path more often than its connection, and while it runs the difference is the number of
  devices it knows there; if every send succeeds, the listed devices come first, then the end of the enumeration,
  once.\<close>
theorem usb_events_paired:
  assumes "distinct (map nd_id devices)" and "usb_monitor_run ok (Inr devices) events = Inr m"
  shows "(\<forall>k path. disconnects path (take k (um_sent m)) \<le> connects path (take k (um_sent m))) \<and>
    (um_running m \<longrightarrow>
       (\<forall>path. connects path (um_sent m) = disconnects path (um_sent m) + card {i. um_known m i = Some path})) \<and>
    ((\<forall>n. ok n) \<longrightarrow>
       (\<exists>later. um_sent m = map (Usb \<circ> UsbDeviceConnected \<circ> build_device_info) devices @
          InitialEnumerationComplete # map Usb later))"
  using usb_run_sound [OF assms] usb_run_sends [OF _ assms(2)]
  unfolding usb_sound_def usb_balanced_def devices_at_def by blast

theorem usb_events_paired_witness:
  "\<exists>m. usb_monitor_run (\<lambda>_. True) (Inr [example_nusb] :: unit + nat nusb_device list) [HotDisconnected 1] = Inr m \<and>
    connects ''/sys/1'' (um_sent m) = disconnects ''/sys/1'' (um_sent m)"
proof -
  let ?run = "usb_monitor_run (\<lambda>_. True) (Inr [example_nusb] :: unit + nat nusb_device list) [HotDisconnected 1]"
  obtain m where m: "?run = Inr m" "um_running m" "um_known m = Map.empty"
    by (simp add: usb_monitor_run_def usb_connected_def usb_send_def Let_def usb_new_def example_nusb_def
        build_device_info_def try_res_def)
  then have "connects ''/sys/1'' (um_sent m) = disconnects ''/sys/1'' (um_sent m)"
    using usb_events_paired [OF _ m(1)] by simp
  with m(1) show ?thesis by blast
qed

text \<open>C10: While the scheduler listens, what the backplane has sent it is, event by event in the
  order of the events, the threads of the board the event started, and behind them the completion exactly at the
  event with which the last of the transports reported the end of its enumeration. So the completion is sent when
  all have reported, once, and behind the threads of every board started by then. Without transports it is the first message.\<close>
theorem enumeration_announced:
  assumes "\<forall>e\<in>set events. fst e < n" and "\<forall>k. wd_schedule_ok w k"
  shows "bk_scheduled (lp_backplane (backplane_run w n events backplane_new)) =
    (if n = 0 then [RegEnumerationComplete] else []) @ concat (map (\<lambda>k.
        map RegThread (started_threads w (snd (events ! k)) (lp_backplane (backplane_run w n (take k events) backplane_new))) @
        (if (\<forall>t<n. (t, InitialEnumerationComplete) \<in> set (take (Suc k) events)) \<and>
            \<not> (\<forall>t<n. (t, InitialEnumerationComplete) \<in> set (take k events))
         then [RegEnumerationComplete] else []))
      [0..<length events])"
  using backplane_run_messages [OF assms] unfolding all_enumerated_def .

theorem enumeration_announced_witness:
  "bk_scheduled (lp_backplane (backplane_run example_backplane 2 example_events backplane_new)) =
    [RegThread ''cpu'', RegThread ''asic'', RegEnumerationComplete]"
proof -
  have fst: "\<forall>e\<in>set example_events. fst e < 2" "\<forall>k. wd_schedule_ok example_backplane k"
    by (simp_all add: example_events_def example_backplane_def)
  have four: "[0..<length example_events] = [0, 1, 2, 3]" by (simp add: example_events_def upt_conv_Cons)
  have cpu: "started_threads example_backplane (snd (example_events ! 0)) s = [''cpu'']" for s
    by (simp add: example_events_def example_backplane_def find_virtual_def cpu_descriptor_def)
  have none: "started_threads example_backplane (snd (example_events ! Suc 0)) s = []"
    "started_threads example_backplane (snd (example_events ! 3)) s = []" for s
    by (simp_all add: example_events_def)
  have "find_descriptor plain_text registered_boards example_usb = Some bitaxe_raw_descriptor"
    by (rule registered_selection) (simp_all add: registered_matches, simp add: example_usb_def)
  then have usb: "started_threads example_backplane (snd (example_events ! 2)) s = [''asic'']" for s
    by (simp add: example_events_def example_backplane_def)
  define all where "all k \<longleftrightarrow> (\<forall>t<2. (t, InitialEnumerationComplete) \<in> set (take k example_events))" for k
  have early: "\<not> all 0" "\<not> all (Suc 0)" "\<not> all (Suc (Suc 0))" "\<not> all 2" "\<not> all 3"
    unfolding all_def by (auto simp: example_events_def intro!: exI [of _ 0])
  have late: "all 4" by (auto simp: all_def example_events_def less_2_cases_iff)
  show ?thesis
    unfolding enumeration_announced [OF fst] four all_def [symmetric] by (simp add: cpu none usb early late)
qed

text \<open>C12: At the end of any run of the backplane its shutdown awaits the shutdown future of every active board
  exactly once, beside those awaited before, and leaves no board active.\<close>
theorem boards_shut_down:
  assumes "\<forall>s. set (wd_keys w s) = fst ` set (bk_boards s)"
    and "s = lp_backplane (backplane_run w n events backplane_new)"
  shows "bk_boards (shutdown_all_boards w s) = [] \<and>
    mset (bk_shut (shutdown_all_boards w s)) =
      mset (bk_shut s) + mset (concat (map (\<lambda>kb. case ab_shutdown (snd kb) of None \<Rightarrow> [] | Some fut \<Rightarrow> [fut]) (bk_boards s)))"
proof -
  have "boards_distinct s"
    unfolding assms(2) by (rule boards_distinct_run) (simp add: boards_distinct_def backplane_new_def)
  moreover have "keys_listed w" using assms(1) by (simp add: keys_listed_def)
  ultimately show ?thesis
    using shutdown_all_complete [of w s] by (simp add: futures_def future_list_def)
qed

theorem boards_shut_down_witness:
  "mset (bk_shut (shutdown_all_boards example_backplane
     (lp_backplane (backplane_run example_backplane 2 example_events backplane_new)))) = {#''stop bitaxe'', ''stop cpu''#}"
proof -
  let ?s = "lp_backplane (backplane_run example_backplane 2 example_events backplane_new)"
  have sel: "find_descriptor plain_text registered_boards example_usb = Some bitaxe_raw_descriptor"
    by (rule registered_selection) (simp_all add: registered_matches, simp add: example_usb_def)
  have serial: "ud_serial_number example_usb = Some ''b1''" by (simp add: example_usb_def)
  have "bk_shut ?s = [] \<and> map (ab_shutdown \<circ> snd) (bk_boards ?s) = [Some ''stop cpu'', Some ''stop bitaxe'']"
    using sel serial
    by (simp add: backplane_run_def backplane_start_def example_events_def example_backplane_def Let_def find_virtual_def
        cpu_descriptor_def start_board_def register_board_def schedule_def backplane_new_def send_enumeration_complete_def)
  then have s: "bk_shut ?s = []" "map ab_shutdown (map snd (bk_boards ?s)) = [Some ''stop cpu'', Some ''stop bitaxe'']" by simp_all
  then obtain a b where "bk_boards ?s = [a, b]" "ab_shutdown (snd a) = Some ''stop cpu''" "ab_shutdown (snd b) = Some ''stop bitaxe''"
    by (auto simp: map_eq_Cons_conv)
  then show ?thesis
    using boards_shut_down [of example_backplane ?s 2 example_events] s(1)
    by (simp add: example_backplane_def)
qed

text \<open>C11: When the startup gate has opened without its timeout, having received the backplane's registrations in
  order, every transport has reported the end of its enumeration, and at least as many threads have reported
  a hashrate as the backplane had started at any moment before the last of those reports.\<close>
theorem first_offer_waits:
  assumes "\<forall>e\<in>set events. fst e < n" and "0 < n" and "\<forall>k. wd_schedule_ok w k"
    and "filter (\<lambda>e. e = Registered \<or> e = EnumerationComplete) es @ rest =
      map gate_message (bk_scheduled (lp_backplane (backplane_run w n events backplane_new)))"
    and "gate_event.Timeout \<notin> set es" and "\<not> is_holding (fold gate_step es StartupGate_new)"
  shows "(\<forall>t<n. (t, InitialEnumerationComplete) \<in> set events) \<and>
    (\<forall>k. (\<exists>t<n. (t, InitialEnumerationComplete) \<notin> set (take k events)) \<longrightarrow>
      length (bk_scheduled (lp_backplane (backplane_run w n (take k events) backplane_new))) \<le>
        length (filter (\<lambda>e. e = Reported) es))"
  using open_gate_waited [OF assms] unfolding all_enumerated_def occurrences_def by blast

theorem first_offer_waits_witness:
  "length (bk_scheduled (lp_backplane (backplane_run example_backplane 2 (take 3 example_events) backplane_new))) \<le>
     length (filter (\<lambda>e. e = Reported) [Registered, Reported, Registered, EnumerationComplete, Reported])"
proof -
  let ?es = "[Registered, Reported, Registered, EnumerationComplete, Reported]"
  have fst: "\<forall>e\<in>set example_events. fst e < 2" "\<forall>k. wd_schedule_ok example_backplane k"
    by (simp_all add: example_events_def example_backplane_def)
  have order: "filter (\<lambda>e. e = Registered \<or> e = EnumerationComplete) ?es @ [] =
      map gate_message (bk_scheduled (lp_backplane (backplane_run example_backplane 2 example_events backplane_new)))"
    by (simp add: example_scheduled)
  have opened: "\<not> is_holding (fold gate_step ?es StartupGate_new)"
    by (simp add: StartupGate_new_def record_registered_def record_reported_def record_enumeration_complete_def try_open_def is_holding_def)
  have early: "\<exists>t<2. (t, InitialEnumerationComplete) \<notin> set (take 3 example_events)"
    by (rule exI [of _ 0]) (simp add: example_events_def)
  have rest: "(0 :: nat) < 2" "gate_event.Timeout \<notin> set ?es" by simp_all
  from first_offer_waits [OF fst(1) rest(1) fst(2) order rest(2) opened] early show ?thesis by blast
qed

end
